(* ===== verification/Prelude.thy ===== *)
theory Prelude
  imports Main "HOL-Library.Word"
begin

text \<open>
  Shared vocabulary of the development: the machine types of the C++ sources, the
  sequencing operator of code that returns 0 or 1 and leaves its results in out-parameters,
  and the collections of rules the component theories feed to the simplifier.

  A C function \<open>int f(CBS *cbs, T *out)\<close> is modelled as \<open>f :: cbs \<Rightarrow> T option \<times> cbs\<close>:
  \<open>None\<close> is the return value 0, \<open>Some x\<close> is the return value 1 with \<open>*out = x\<close>, and the
  second component is the object after the call, on the failing paths too, because the C++ code
  leaves a partly consumed object behind when it returns 0.
\<close>

unbundle bit_operations_syntax

subsection \<open>Machine types\<close>

type_synonym byte = "8 word"
type_synonym uint16 = "16 word"
type_synonym uint32 = "32 word"
type_synonym uint64 = "64 word"

text \<open>A stateful C function that can fail: its result and the state it leaves.\<close>

type_synonym ('s, 'a) op = "'s \<Rightarrow> 'a option \<times> 's"

named_theorems op_simps \<open>evaluation of sequenced operations\<close>
named_theorems op_elims \<open>inversion of successful sequenced operations\<close>
named_theorems value_simps \<open>values of big-endian byte strings\<close>

subsection \<open>Sequencing\<close>

definition op_ret :: "'a \<Rightarrow> ('s, 'a) op" where
  "op_ret a = (\<lambda>s. (Some a, s))"

definition op_fail :: "('s, 'a) op" where
  "op_fail = (\<lambda>s. (None, s))"

text \<open>\<open>if (!p(s, &x)) return 0;\<close> followed by the rest of the body.\<close>

definition op_bind :: "('s, 'a) op \<Rightarrow> ('a \<Rightarrow> ('s, 'b) op) \<Rightarrow> ('s, 'b) op" where
  "op_bind p f = (\<lambda>s. case p s of (None, s') \<Rightarrow> (None, s') | (Some a, s') \<Rightarrow> f a s')"

text \<open>\<open>if (!c) return 0;\<close> followed by the rest of the body.\<close>

definition op_guard :: "bool \<Rightarrow> ('s, 'b) op \<Rightarrow> ('s, 'b) op" where
  "op_guard c p = (if c then p else op_fail)"

text \<open>\<open>T copy = *s;\<close> and a body that works on the copy: the object itself is left alone.\<close>

definition op_peek :: "('s, 'a) op \<Rightarrow> 's \<Rightarrow> 'a option" where
  "op_peek p s = fst (p s)"

lemma op_ret_apply [simp, op_simps]: "op_ret a s = (Some a, s)"
  by (simp add: op_ret_def)

lemma op_fail_apply [simp, op_simps]: "op_fail s = (None, s)"
  by (simp add: op_fail_def)

lemma op_bind_Some [op_simps]: "p s = (Some a, s') \<Longrightarrow> op_bind p f s = f a s'"
  by (simp add: op_bind_def)

lemma op_bind_None [op_simps]: "p s = (None, s') \<Longrightarrow> op_bind p f s = (None, s')"
  by (simp add: op_bind_def)

lemma op_bind_eq_Some [op_elims]:
  "op_bind p f s = (Some b, t) \<longleftrightarrow> (\<exists>a s'. p s = (Some a, s') \<and> f a s' = (Some b, t))"
  by (auto simp: op_bind_def split: prod.splits option.splits)

lemma op_guard_eq_Some [op_elims]:
  "op_guard c p s = (Some b, t) \<longleftrightarrow> c \<and> p s = (Some b, t)"
  by (simp add: op_guard_def)

lemma op_guard_True [simp, op_simps]: "op_guard True p = p"
  by (simp add: op_guard_def)

lemma op_guard_False [simp, op_simps]: "op_guard False p s = (None, s)"
  by (simp add: op_guard_def)

lemma op_ret_eq_Some [op_elims]: "op_ret a s = (Some b, t) \<longleftrightarrow> b = a \<and> t = s"
  by auto

lemma op_fail_eq_Some [op_elims]: "op_fail s = (Some b, t) \<longleftrightarrow> False"
  by simp

subsection \<open>Lists\<close>

lemma take_drop_split: "n \<le> length xs \<Longrightarrow> xs = take n xs @ drop n xs"
  by simp

end
