(* ===== verification/Platform.thy ===== *)
theory Platform
  imports Prelude
begin

text \<open>
  What the native layer calls and the repository does not contain: the system calls of the
  kernel, and the helpers of the Java runtime (\<open>libjava\<close>, \<open>libnet\<close>) declared in
  \<open>include/jni_util.h\<close> and \<open>include/net_util.h\<close>. They are a parameter of the model, a record of
  functions over a world \<open>'w\<close> that nothing is assumed about. \<open>posix_ok\<close> states the documented
  behaviour the theorems rely on. The constants are those of the Linux headers the code is
  compiled against.
\<close>

subsection \<open>Constants of the system headers\<close>

abbreviation (input) "EINTR \<equiv> (4 :: int)"
abbreviation (input) "EAGAIN \<equiv> (11 :: int)"
abbreviation (input) "EWOULDBLOCK \<equiv> (11 :: int)"
abbreviation (input) "EACCES \<equiv> (13 :: int)"
abbreviation (input) "EPROTO \<equiv> (71 :: int)"
abbreviation (input) "ENOPROTOOPT \<equiv> (92 :: int)"
abbreviation (input) "EADDRINUSE \<equiv> (98 :: int)"
abbreviation (input) "EADDRNOTAVAIL \<equiv> (99 :: int)"
abbreviation (input) "ENOTCONN \<equiv> (107 :: int)"
abbreviation (input) "ETIMEDOUT \<equiv> (110 :: int)"
abbreviation (input) "ECONNREFUSED \<equiv> (111 :: int)"
abbreviation (input) "EHOSTUNREACH \<equiv> (113 :: int)"
abbreviation (input) "EINPROGRESS \<equiv> (115 :: int)"

abbreviation (input) "AF_INET \<equiv> (2 :: int)"
abbreviation (input) "AF_INET6 \<equiv> (10 :: int)"
abbreviation (input) "SOCK_STREAM \<equiv> (1 :: int)"
abbreviation (input) "SOCK_DGRAM \<equiv> (2 :: int)"
abbreviation (input) "SOL_SOCKET \<equiv> (1 :: int)"
abbreviation (input) "SO_REUSEADDR \<equiv> (2 :: int)"
abbreviation (input) "SO_SNDBUF \<equiv> (7 :: int)"
abbreviation (input) "SO_RCVBUF \<equiv> (8 :: int)"
abbreviation (input) "SO_KEEPALIVE \<equiv> (9 :: int)"
abbreviation (input) "IPPROTO_IP \<equiv> (0 :: int)"
abbreviation (input) "IPPROTO_TCP \<equiv> (6 :: int)"
abbreviation (input) "IPPROTO_IPV6 \<equiv> (41 :: int)"
abbreviation (input) "IPV6_V6ONLY \<equiv> (26 :: int)"
abbreviation (input) "IP_MULTICAST_ALL \<equiv> (49 :: int)"
abbreviation (input) "IPV6_MULTICAST_HOPS \<equiv> (18 :: int)"
abbreviation (input) "IPV6_MULTICAST_ALL \<equiv> (29 :: int)"
abbreviation (input) "TCP_NODELAY \<equiv> (1 :: int)"
abbreviation (input) "O_NONBLOCK \<equiv> (0x800 :: uint32)"

text \<open>The platform macro the code is compiled under (\<open>__linux__\<close>, \<open>__APPLE__\<close>).\<close>

datatype target = Linux | Apple | Other_target

subsection \<open>The operations\<close>

text \<open>
  The first five fields observe a world: the thread's \<open>errno\<close>, the descriptors open in the
  process, the class of the pending Java exception, and the process's memory. The others are
  calls: each returns its C result and the world after it. \<open>size_t\<close> arguments are \<open>nat\<close>.
\<close>

record 'w platform =
  target_os :: target
  errno :: "'w \<Rightarrow> int"
  open_fds :: "'w \<Rightarrow> int set"
  pending :: "'w \<Rightarrow> string option"
  memory :: "'w \<Rightarrow> int \<Rightarrow> byte"
  set_errno :: "int \<Rightarrow> 'w \<Rightarrow> 'w"
  sys_socket :: "int \<Rightarrow> int \<Rightarrow> int \<Rightarrow> 'w \<Rightarrow> int \<times> 'w"
  sys_setsockopt :: "int \<Rightarrow> int \<Rightarrow> int \<Rightarrow> int \<Rightarrow> 'w \<Rightarrow> int \<times> 'w"
  sys_getsockopt :: "int \<Rightarrow> int \<Rightarrow> int \<Rightarrow> 'w \<Rightarrow> int \<times> int \<times> 'w"
  sys_connect :: "int \<Rightarrow> byte list \<Rightarrow> 'w \<Rightarrow> int \<times> 'w"
  sys_close :: "int \<Rightarrow> 'w \<Rightarrow> int \<times> 'w"
  sys_read :: "int \<Rightarrow> int \<Rightarrow> nat \<Rightarrow> 'w \<Rightarrow> int \<times> 'w"
  sys_write :: "int \<Rightarrow> int \<Rightarrow> nat \<Rightarrow> 'w \<Rightarrow> int \<times> 'w"
  sys_fcntl_getfl :: "int \<Rightarrow> 'w \<Rightarrow> uint32 \<times> 'w"
  sys_fcntl_setfl :: "int \<Rightarrow> uint32 \<Rightarrow> 'w \<Rightarrow> int \<times> 'w"
  ipv6_available :: "'w \<Rightarrow> bool"
  ipv4_available :: "'w \<Rightarrow> bool"
  NET_InetAddressToSockaddr :: "byte list \<Rightarrow> int \<Rightarrow> 'w \<Rightarrow> int \<times> byte list \<times> 'w"
  JNU_ThrowByNameWithLastError :: "string \<Rightarrow> string \<Rightarrow> 'w \<Rightarrow> 'w"
  JNU_ThrowByNameWithMessageAndLastError :: "string \<Rightarrow> string \<Rightarrow> 'w \<Rightarrow> 'w"
  JNU_ThrowIOExceptionWithLastError :: "string \<Rightarrow> 'w \<Rightarrow> 'w"

subsection \<open>Conversions the compiler inserts at a call\<close>

definition size_t_of_jint :: "int \<Rightarrow> nat" where
  "size_t_of_jint n = nat (n mod 2 ^ 64)"

definition jint_of_ssize :: "int \<Rightarrow> int" where
  "jint_of_ssize n = (n + 2 ^ 31) mod 2 ^ 32 - 2 ^ 31"

subsection \<open>Documented behaviour\<close>

text \<open>A call that neither opens or closes a descriptor nor raises a Java exception.\<close>

definition quiet :: "('w, 'z) platform_scheme \<Rightarrow> 'w \<Rightarrow> 'w \<Rightarrow> bool" where
  "quiet P w w' \<longleftrightarrow> open_fds P w' = open_fds P w \<and> pending P w' = pending P w"

text \<open>A helper that raises the Java exception \<open>cls\<close>.\<close>

definition raises :: "('w, 'z) platform_scheme \<Rightarrow> string \<Rightarrow> 'w \<Rightarrow> 'w \<Rightarrow> bool" where
  "raises P cls w w' \<longleftrightarrow> open_fds P w' = open_fds P w \<and> pending P w' = Some cls"

definition throw_ok :: "('w, 'z) platform_scheme \<Rightarrow> bool" where
  "throw_ok P \<longleftrightarrow>
     (\<forall>c m w. raises P c w (JNU_ThrowByNameWithLastError P c m w)) \<and>
     (\<forall>c m w. raises P c w (JNU_ThrowByNameWithMessageAndLastError P c m w)) \<and>
     (\<forall>m w. raises P ''java/io/IOException'' w (JNU_ThrowIOExceptionWithLastError P m w)) \<and>
     (\<forall>e w. quiet P w (set_errno P e w)) \<and>
     (\<forall>e w. errno P (set_errno P e w) = e)"

definition socket_ok :: "('w, 'z) platform_scheme \<Rightarrow> bool" where
  "socket_ok P \<longleftrightarrow> (\<forall>d t p w r w'. sys_socket P d t p w = (r, w') \<longrightarrow>
     pending P w' = pending P w \<and>
     (0 \<le> r \<longrightarrow> r \<notin> open_fds P w \<and> open_fds P w' = insert r (open_fds P w)) \<and>
     (r < 0 \<longrightarrow> open_fds P w' = open_fds P w \<and> errno P w' \<noteq> EINPROGRESS))"

definition close_ok :: "('w, 'z) platform_scheme \<Rightarrow> bool" where
  "close_ok P \<longleftrightarrow> (\<forall>fd w r w'. sys_close P fd w = (r, w') \<longrightarrow>
     pending P w' = pending P w \<and> open_fds P w' = open_fds P w - {fd} \<and>
     (r < 0 \<longrightarrow> r = -1))"

definition opts_ok :: "('w, 'z) platform_scheme \<Rightarrow> bool" where
  "opts_ok P \<longleftrightarrow>
     (\<forall>fd l n v w r w'. sys_setsockopt P fd l n v w = (r, w') \<longrightarrow> quiet P w w') \<and>
     (\<forall>fd l n w r v w'. sys_getsockopt P fd l n w = (r, v, w') \<longrightarrow> quiet P w w') \<and>
     (\<forall>fd w r w'. sys_fcntl_getfl P fd w = (r, w') \<longrightarrow> quiet P w w') \<and>
     (\<forall>fd f w r w'. sys_fcntl_setfl P fd f w = (r, w') \<longrightarrow> quiet P w w')"

text \<open>
  \<open>read\<close> and \<open>write\<close> return -1 or a count no larger than the size they were given;
  \<open>read\<close> writes only to the bytes it counts; \<open>write\<close> does not write to memory at all.
\<close>

definition rw_ok :: "('w, 'z) platform_scheme \<Rightarrow> bool" where
  "rw_ok P \<longleftrightarrow>
     (\<forall>fd a n w r w'. sys_read P fd a n w = (r, w') \<longrightarrow> quiet P w w' \<and> -1 \<le> r \<and> r \<le> int n \<and>
        (\<forall>x. x < a \<or> a + max 0 r \<le> x \<longrightarrow> memory P w' x = memory P w x)) \<and>
     (\<forall>fd a n w r w'. sys_write P fd a n w = (r, w') \<longrightarrow> quiet P w w' \<and> -1 \<le> r \<and> r \<le> int n \<and>
        memory P w' = memory P w)"

text \<open>
  \<open>connect\<close> and the address conversion open and close nothing; the conversion raises an
  exception when it reports failure, and only then.
\<close>

definition connect_ok :: "('w, 'z) platform_scheme \<Rightarrow> bool" where
  "connect_ok P \<longleftrightarrow>
     (\<forall>fd sa w r w'. sys_connect P fd sa w = (r, w') \<longrightarrow> quiet P w w') \<and>
     (\<forall>ia port w r sa w'. NET_InetAddressToSockaddr P ia port w = (r, sa, w') \<longrightarrow>
        open_fds P w' = open_fds P w \<and>
        (if r = 0 then pending P w' = pending P w else pending P w' \<noteq> None))"

definition posix_ok :: "('w, 'z) platform_scheme \<Rightarrow> bool" where
  "posix_ok P \<longleftrightarrow>
     throw_ok P \<and> socket_ok P \<and> close_ok P \<and> opts_ok P \<and> rw_ok P \<and> connect_ok P"

subsection \<open>Consequences\<close>

lemma jint_of_ssize_id: "- (2 ^ 31) \<le> n \<Longrightarrow> n < 2 ^ 31 \<Longrightarrow> jint_of_ssize n = n"
  by (simp add: jint_of_ssize_def)

lemma size_t_of_jint_nonneg: "0 \<le> n \<Longrightarrow> n < 2 ^ 31 \<Longrightarrow> size_t_of_jint n = nat n"
  by (simp add: size_t_of_jint_def)

lemma quiet_refl [simp]: "quiet P w w"
  by (simp add: quiet_def)

lemma quiet_trans: "quiet P a b \<Longrightarrow> quiet P b c \<Longrightarrow> quiet P a c"
  by (simp add: quiet_def)

lemma quiet_raises: "quiet P a b \<Longrightarrow> raises P c b d \<Longrightarrow> raises P c a d"
  by (simp add: quiet_def raises_def)

lemma setsockopt_quiet:
  "posix_ok P \<Longrightarrow> sys_setsockopt P fd l n v w = (r, w') \<Longrightarrow> quiet P w w'"
  unfolding posix_ok_def opts_ok_def by metis

lemma getsockopt_quiet:
  "posix_ok P \<Longrightarrow> sys_getsockopt P fd l n w = (r, v, w') \<Longrightarrow> quiet P w w'"
  unfolding posix_ok_def opts_ok_def by metis

lemma fcntl_getfl_quiet:
  "posix_ok P \<Longrightarrow> sys_fcntl_getfl P fd w = (r, w') \<Longrightarrow> quiet P w w'"
  unfolding posix_ok_def opts_ok_def by metis

lemma fcntl_setfl_quiet:
  "posix_ok P \<Longrightarrow> sys_fcntl_setfl P fd f w = (r, w') \<Longrightarrow> quiet P w w'"
  unfolding posix_ok_def opts_ok_def by metis

lemma connect_quiet:
  "posix_ok P \<Longrightarrow> sys_connect P fd sa w = (r, w') \<Longrightarrow> quiet P w w'"
  unfolding posix_ok_def connect_ok_def by blast

lemma inet_addr_effect:
  assumes "posix_ok P" "NET_InetAddressToSockaddr P ia port w = (r, sa, w')"
  shows "open_fds P w' = open_fds P w"
    and "r = 0 \<Longrightarrow> pending P w' = pending P w"
    and "r \<noteq> 0 \<Longrightarrow> pending P w' \<noteq> None"
proof -
  from assms have "open_fds P w' = open_fds P w \<and>
      (if r = 0 then pending P w' = pending P w else pending P w' \<noteq> None)"
    unfolding posix_ok_def connect_ok_def by blast
  then show "open_fds P w' = open_fds P w"
    and "r = 0 \<Longrightarrow> pending P w' = pending P w"
    and "r \<noteq> 0 \<Longrightarrow> pending P w' \<noteq> None" by auto
qed

lemma throw_effects:
  assumes "posix_ok P"
  shows "raises P c w (JNU_ThrowByNameWithLastError P c m w)"
    and "raises P c w (JNU_ThrowByNameWithMessageAndLastError P c m w)"
    and "raises P ''java/io/IOException'' w (JNU_ThrowIOExceptionWithLastError P m w)"
    and "quiet P w (set_errno P e w)"
    and "errno P (set_errno P e w) = e"
  using assms by (auto simp: posix_ok_def throw_ok_def)

lemma socket_effects:
  assumes "posix_ok P" "sys_socket P d t p w = (r, w')"
  shows "pending P w' = pending P w"
    and "0 \<le> r \<Longrightarrow> r \<notin> open_fds P w \<and> open_fds P w' = insert r (open_fds P w)"
    and "r < 0 \<Longrightarrow> open_fds P w' = open_fds P w \<and> errno P w' \<noteq> EINPROGRESS"
  using assms unfolding posix_ok_def socket_ok_def by blast+

lemma close_effects:
  assumes "posix_ok P" "sys_close P fd w = (r, w')"
  shows "pending P w' = pending P w" and "open_fds P w' = open_fds P w - {fd}"
  using assms unfolding posix_ok_def close_ok_def by blast+

lemma read_effects:
  assumes "posix_ok P" "sys_read P fd a n w = (r, w')"
  shows "quiet P w w'" and "-1 \<le> r" and "r \<le> int n"
    and "x < a \<or> a + max 0 r \<le> x \<Longrightarrow> memory P w' x = memory P w x"
  using assms unfolding posix_ok_def rw_ok_def by blast+

lemma write_effects:
  assumes "posix_ok P" "sys_write P fd a n w = (r, w')"
  shows "quiet P w w'" and "-1 \<le> r" and "r \<le> int n" and "memory P w' = memory P w"
  using assms unfolding posix_ok_def rw_ok_def by blast+

end
