(* ===== verification/SocketUtil.thy ===== *)
theory SocketUtil
  imports Platform
begin

text \<open>
  The helpers of \<open>include/socket_util.h\<close>, shared by the two native sockets, and the I/O status
  codes of \<open>include/sun_nio_ch_IOStatus.h\<close> as \<open>include/nio.h\<close> renames them.
\<close>

subsection \<open>Status codes\<close>

definition IOS_EOF :: int where "IOS_EOF = -1"
definition IOS_UNAVAILABLE :: int where "IOS_UNAVAILABLE = -2"
definition IOS_INTERRUPTED :: int where "IOS_INTERRUPTED = -3"
definition IOS_UNSUPPORTED :: int where "IOS_UNSUPPORTED = -4"
definition IOS_THROWN :: int where "IOS_THROWN = -5"
definition IOS_UNSUPPORTED_CASE :: int where "IOS_UNSUPPORTED_CASE = -6"

lemmas IOS_defs = IOS_EOF_def IOS_UNAVAILABLE_def IOS_INTERRUPTED_def IOS_UNSUPPORTED_def
  IOS_THROWN_def IOS_UNSUPPORTED_CASE_def

subsection \<open>Helpers\<close>

definition configureBlocking :: "('w, 'z) platform_scheme \<Rightarrow> int \<Rightarrow> bool \<Rightarrow> 'w \<Rightarrow> int \<times> 'w" where
  "configureBlocking P fd blocking w =
     (let (flags, w1) = sys_fcntl_getfl P fd w;
          newflags = (if blocking then flags AND NOT O_NONBLOCK else flags OR O_NONBLOCK)
      in if flags = newflags then (0, w1) else sys_fcntl_setfl P fd newflags w1)"

text \<open>The exception class the \<open>switch\<close> of \<open>handleSocketErrorWithMessage\<close> selects.\<close>

definition socket_error_class :: "int \<Rightarrow> string" where
  "socket_error_class e =
     (if e = EPROTO then ''java/net/ProtocolException''
      else if e = ECONNREFUSED \<or> e = ETIMEDOUT \<or> e = ENOTCONN then ''java/net/ConnectException''
      else if e = EHOSTUNREACH then ''java/net/NoRouteToHostException''
      else if e = EADDRINUSE \<or> e = EADDRNOTAVAIL \<or> e = EACCES then ''java/net/BindException''
      else ''java/net/SocketException'')"

definition handleSocketErrorWithMessage ::
    "('w, 'z) platform_scheme \<Rightarrow> int \<Rightarrow> string option \<Rightarrow> 'w \<Rightarrow> int \<times> 'w" where
  "handleSocketErrorWithMessage P errorValue message w =
     (if errorValue = EINPROGRESS then (0, w)
      else let xn = socket_error_class errorValue;
               w1 = set_errno P errorValue w
           in (IOS_THROWN,
               case message of
                 None \<Rightarrow> JNU_ThrowByNameWithLastError P xn ''NioSocketError'' w1
               | Some m \<Rightarrow> JNU_ThrowByNameWithMessageAndLastError P xn m w1))"

definition handleSocketError :: "('w, 'z) platform_scheme \<Rightarrow> int \<Rightarrow> 'w \<Rightarrow> int \<times> 'w" where
  "handleSocketError P errorValue w = handleSocketErrorWithMessage P errorValue None w"

definition convertReturnVal :: "('w, 'z) platform_scheme \<Rightarrow> int \<Rightarrow> bool \<Rightarrow> 'w \<Rightarrow> int \<times> 'w" where
  "convertReturnVal P n reading w =
     (if n > 0 then (n, w)
      else if n = 0 then (if reading then (IOS_EOF, w) else (0, w))
      else if errno P w = EAGAIN \<or> errno P w = EWOULDBLOCK then (IOS_UNAVAILABLE, w)
      else if errno P w = EINTR then (IOS_INTERRUPTED, w)
      else (IOS_THROWN,
            JNU_ThrowIOExceptionWithLastError P (if reading then ''Read failed'' else ''Write failed'') w))"

subsection \<open>Their behaviour\<close>

lemma handleSocketErrorWithMessage_throws:
  assumes "posix_ok P" "e \<noteq> EINPROGRESS"
    "handleSocketErrorWithMessage P e m w = (r, w')"
  shows "r = IOS_THROWN" and "raises P (socket_error_class e) w w'"
proof -
  show "r = IOS_THROWN"
    using assms(2,3) by (simp add: handleSocketErrorWithMessage_def Let_def)
  have q: "quiet P w (set_errno P e w)" by (rule throw_effects(4)[OF assms(1)])
  show "raises P (socket_error_class e) w w'"
  proof (cases m)
    case None
    with assms(2,3) have "w' = JNU_ThrowByNameWithLastError P (socket_error_class e)
        ''NioSocketError'' (set_errno P e w)"
      by (simp add: handleSocketErrorWithMessage_def Let_def)
    then show ?thesis using quiet_raises[OF q throw_effects(1)[OF assms(1)]] by simp
  next
    case (Some x)
    with assms(2,3) have "w' = JNU_ThrowByNameWithMessageAndLastError P (socket_error_class e)
        x (set_errno P e w)"
      by (simp add: handleSocketErrorWithMessage_def Let_def)
    then show ?thesis using quiet_raises[OF q throw_effects(2)[OF assms(1)]] by simp
  qed
qed

lemma handleSocketError_throws:
  assumes "posix_ok P" "e \<noteq> EINPROGRESS" "handleSocketError P e w = (r, w')"
  shows "r = IOS_THROWN" and "raises P (socket_error_class e) w w'"
  using handleSocketErrorWithMessage_throws[OF assms(1,2)] assms(3)
  by (auto simp: handleSocketError_def)

lemma configureBlocking_quiet:
  assumes "posix_ok P" "configureBlocking P fd b w = (r, w')"
  shows "quiet P w w'"
proof -
  obtain flags w1 where g: "sys_fcntl_getfl P fd w = (flags, w1)" by fastforce
  then have q1: "quiet P w w1" by (rule fcntl_getfl_quiet[OF assms(1)])
  show ?thesis
  proof (cases "flags = (if b then flags AND NOT O_NONBLOCK else flags OR O_NONBLOCK)")
    case True
    with assms(2) g have "w' = w1" by (simp add: configureBlocking_def)
    with q1 show ?thesis by simp
  next
    case False
    with assms(2) g have "sys_fcntl_setfl P fd
        (if b then flags AND NOT O_NONBLOCK else flags OR O_NONBLOCK) w1 = (r, w')"
      by (simp add: configureBlocking_def del: if_not_P split del: if_split)
    then have "quiet P w1 w'" by (rule fcntl_setfl_quiet[OF assms(1)])
    with q1 show ?thesis by (rule quiet_trans)
  qed
qed

end
