(* ===== verification/SimPlatform.thy ===== *)
theory SimPlatform
  imports Platform
begin

text \<open>
  A small concrete platform that has the documented behaviour \<open>posix_ok\<close>, used to evaluate the
  model on concrete inputs. Its record \<open>sim_conf\<close> chooses the outcome of the calls, so that the
  failing paths can be run as well.
\<close>

record sim_conf =
  cf_target :: target
  cf_ipv6 :: bool
  cf_opt_rc :: int
  cf_opt_errno :: int
  cf_connect :: "int \<times> int"
  cf_input :: "byte list"
  cf_io_fail :: "int option"
  cf_flags :: uint32

record sim_world =
  s_errno :: int
  s_fds :: "int list"
  s_exn :: "string option"
  s_mem :: "int \<Rightarrow> byte"

definition fresh_fd :: "int list \<Rightarrow> int" where
  "fresh_fd fds = fold max fds 2 + 1"

definition store :: "int \<Rightarrow> byte list \<Rightarrow> (int \<Rightarrow> byte) \<Rightarrow> int \<Rightarrow> byte" where
  "store a bs m = (\<lambda>x. if a \<le> x \<and> x < a + int (length bs) then bs ! nat (x - a) else m x)"

definition sim_read :: "sim_conf \<Rightarrow> int \<Rightarrow> int \<Rightarrow> nat \<Rightarrow> sim_world \<Rightarrow> int \<times> sim_world" where
  "sim_read c fd a n w = (case cf_io_fail c of
     Some e \<Rightarrow> (-1, w\<lparr>s_errno := e\<rparr>)
   | None \<Rightarrow> let bs = take n (cf_input c) in (int (length bs), w\<lparr>s_mem := store a bs (s_mem w)\<rparr>))"

definition sim :: "sim_conf \<Rightarrow> sim_world platform" where
  "sim c = \<lparr>
     target_os = cf_target c,
     errno = s_errno,
     open_fds = (\<lambda>w. set (s_fds w)),
     pending = s_exn,
     memory = s_mem,
     set_errno = (\<lambda>e w. w\<lparr>s_errno := e\<rparr>),
     sys_socket = (\<lambda>d t p w. (fresh_fd (s_fds w), w\<lparr>s_fds := fresh_fd (s_fds w) # s_fds w\<rparr>)),
     sys_setsockopt = (\<lambda>fd l n v w. (cf_opt_rc c, w\<lparr>s_errno := cf_opt_errno c\<rparr>)),
     sys_getsockopt = (\<lambda>fd l n w. (0, 8192, w)),
     sys_connect = (\<lambda>fd sa w. (fst (cf_connect c), w\<lparr>s_errno := snd (cf_connect c)\<rparr>)),
     sys_close = (\<lambda>fd w. (0, w\<lparr>s_fds := removeAll fd (s_fds w)\<rparr>)),
     sys_read = sim_read c,
     sys_write = (\<lambda>fd a n w. case cf_io_fail c of
        Some e \<Rightarrow> (-1, w\<lparr>s_errno := e\<rparr>) | None \<Rightarrow> (int (min n 5), w)),
     sys_fcntl_getfl = (\<lambda>fd w. (cf_flags c, w)),
     sys_fcntl_setfl = (\<lambda>fd f w. (0, w)),
     ipv6_available = (\<lambda>w. cf_ipv6 c),
     ipv4_available = (\<lambda>w. True),
     NET_InetAddressToSockaddr = (\<lambda>ia port w. (0, ia, w)),
     JNU_ThrowByNameWithLastError = (\<lambda>n m w. w\<lparr>s_exn := Some n\<rparr>),
     JNU_ThrowByNameWithMessageAndLastError = (\<lambda>n m w. w\<lparr>s_exn := Some n\<rparr>),
     JNU_ThrowIOExceptionWithLastError = (\<lambda>m w. w\<lparr>s_exn := Some ''java/io/IOException''\<rparr>) \<rparr>"

definition conf0 :: sim_conf where
  "conf0 = \<lparr>cf_target = Linux, cf_ipv6 = True, cf_opt_rc = 0, cf_opt_errno = 0,
     cf_connect = (0, 0), cf_input = [1, 2, 3], cf_io_fail = None, cf_flags = 2\<rparr>"

definition world0 :: sim_world where
  "world0 = \<lparr>s_errno = 0, s_fds = [3], s_exn = None, s_mem = (\<lambda>_. 0)\<rparr>"

lemma fold_max_ge: "(n::int) \<le> fold max xs n \<and> (\<forall>x\<in>set xs. x \<le> fold max xs n)"
  by (induction xs arbitrary: n) (auto simp: max.coboundedI1 intro: order_trans,
      (metis max.bounded_iff order_refl)+)

lemma fresh_fd: "fresh_fd xs \<notin> set xs" "0 \<le> fresh_fd xs"
  using fold_max_ge[of 2 xs] by (force simp: fresh_fd_def)+

lemma sim_posix_ok: "posix_ok (sim c)"
proof -
  have "throw_ok (sim c)" by (simp add: throw_ok_def sim_def raises_def quiet_def)
  moreover have "socket_ok (sim c)" using fresh_fd
    by (auto simp: socket_ok_def sim_def not_less[symmetric])
  moreover have "close_ok (sim c)" by (auto simp: close_ok_def sim_def)
  moreover have "opts_ok (sim c)" by (auto simp: opts_ok_def sim_def quiet_def)
  moreover have "rw_ok (sim c)"
    by (auto simp: rw_ok_def sim_def quiet_def sim_read_def store_def Let_def split: option.splits)
  moreover have "connect_ok (sim c)" by (auto simp: connect_ok_def sim_def quiet_def)
  ultimately show ?thesis by (simp add: posix_ok_def)
qed

end
