(* ===== verification/NativeSocket.thy ===== *)
theory NativeSocket
  imports SocketUtil SimPlatform
begin

text \<open>
  The plain TCP socket of the native library,
  \<open>group_gnometrading_networking_sockets_NativeSocket.cpp\<close>: one definition per JNI function.
  A \<open>jint\<close> descriptor, length or result is an \<open>int\<close>; the conversions to \<open>size_t\<close> and
  back at \<open>read\<close> and \<open>write\<close> are written out.
\<close>

subsection \<open>Option setting shared by the socket constructors\<close>

text \<open>
  \<open>if (c) { if (call < 0 && !tolerated) { fail; } }\<close> and the rest \<open>k\<close> of the body: the shape of
  every option block of the two \<open>socket\<close> functions.
\<close>

definition opt_step ::
    "bool \<Rightarrow> ('w \<Rightarrow> int \<times> 'w) \<Rightarrow> ('w \<Rightarrow> bool) \<Rightarrow> ('w \<Rightarrow> 'r) \<Rightarrow> ('w \<Rightarrow> 'r) \<Rightarrow> 'w \<Rightarrow> 'r" where
  "opt_step c call tolerated fail k w =
     (if c then let (rc, w1) = call w in if rc < 0 \<and> \<not> tolerated w1 then fail w1 else k w1
      else k w)"

text \<open>The error block: throw a \<open>SocketException\<close>, close the descriptor, return -1.\<close>

definition throw_close :: "('w, 'z) platform_scheme \<Rightarrow> int \<Rightarrow> string \<Rightarrow> 'w \<Rightarrow> int \<times> 'w" where
  "throw_close P fd msg w =
     (let w1 = JNU_ThrowByNameWithLastError P ''java/net/SocketException'' msg w;
          (_, w2) = sys_close P fd w1
      in (-1, w2))"

text \<open>The \<open>__APPLE__\<close> block: raise the send buffer of a datagram socket to a minimum.\<close>

definition apple_sndbuf :: "('w, 'z) platform_scheme \<Rightarrow> int \<Rightarrow> int \<Rightarrow> int \<Rightarrow> 'w \<Rightarrow> 'w" where
  "apple_sndbuf P domain type fd w =
     (if target_os P = Apple \<and> type = SOCK_DGRAM then
        let (rc, sz, w1) = sys_getsockopt P fd SOL_SOCKET SO_SNDBUF w;
            minSize = (if domain = AF_INET6 then 65527 else 65507)
        in if rc = 0 \<and> sz < minSize
           then snd (sys_setsockopt P fd SOL_SOCKET SO_SNDBUF minSize w1) else w1
      else w)"

text \<open>
  The option blocks in the order of the source: \<open>IPV6_V6ONLY\<close>, \<open>SO_REUSEADDR\<close>, the three
  multicast options of the \<open>__linux__\<close> section, the Apple section. \<open>fail msg\<close> is the error
  block, \<open>k\<close> what follows.
\<close>

definition socket_options ::
    "('w, 'z) platform_scheme \<Rightarrow> int \<Rightarrow> int \<Rightarrow> bool \<Rightarrow> int \<Rightarrow> (string \<Rightarrow> 'w \<Rightarrow> 'r) \<Rightarrow> ('w \<Rightarrow> 'r) \<Rightarrow> 'w \<Rightarrow> 'r" where
  "socket_options P domain type reuse fd fail k =
     (let linux = target_os P = Linux;
          noproto = (\<lambda>w. errno P w = ENOPROTOOPT);
          level = (if domain = AF_INET6 then IPPROTO_IPV6 else IPPROTO_IP) in
      (\<lambda>w. opt_step (domain = AF_INET6 \<and> ipv4_available P w)
         (sys_setsockopt P fd IPPROTO_IPV6 IPV6_V6ONLY 0) (\<lambda>_. False)
         (fail ''Unable to set IPV6_V6ONLY'')
      (opt_step reuse
         (sys_setsockopt P fd SOL_SOCKET SO_REUSEADDR 1) (\<lambda>_. False)
         (fail ''Unable to set SO_REUSEADDR'')
      (opt_step (linux \<and> type = SOCK_DGRAM)
         (sys_setsockopt P fd level IP_MULTICAST_ALL 0) noproto
         (fail ''Unable to set IP_MULTICAST_ALL'')
      (opt_step (linux \<and> domain = AF_INET6 \<and> type = SOCK_DGRAM)
         (sys_setsockopt P fd IPPROTO_IPV6 IPV6_MULTICAST_HOPS 1) (\<lambda>_. False)
         (fail ''Unable to set IPV6_MULTICAST_HOPS'')
      (opt_step (linux \<and> domain = AF_INET6 \<and> type = SOCK_DGRAM)
         (sys_setsockopt P fd IPPROTO_IPV6 IPV6_MULTICAST_ALL 0) noproto
         (fail ''Unable to set IPV6_MULTICAST_ALL'')
      (\<lambda>w'. k (apple_sndbuf P domain type fd w')))))) w))"

subsection \<open>The JNI functions\<close>

definition NativeSocket_socket ::
    "('w, 'z) platform_scheme \<Rightarrow> bool \<Rightarrow> bool \<Rightarrow> 'w \<Rightarrow> int \<times> 'w" where
  "NativeSocket_socket P stream reuse w =
     (let type = (if stream then SOCK_STREAM else SOCK_DGRAM);
          domain = (if ipv6_available P w then AF_INET6 else AF_INET);
          (fd, w1) = sys_socket P domain type 0 w
      in if fd < 0 then handleSocketError P (errno P w1) w1
         else socket_options P domain type reuse fd (throw_close P fd) (\<lambda>w2. (fd, w2)) w1)"

definition NativeSocket_connect0 ::
    "('w, 'z) platform_scheme \<Rightarrow> int \<Rightarrow> byte list \<Rightarrow> int \<Rightarrow> 'w \<Rightarrow> int \<times> 'w" where
  "NativeSocket_connect0 P fd iao port w =
     (let (rc, sa, w1) = NET_InetAddressToSockaddr P iao port w in
      if rc \<noteq> 0 then (IOS_THROWN, w1)
      else let (rv, w2) = sys_connect P fd sa w1 in
           if rv \<noteq> 0 then
             (if errno P w2 = EINPROGRESS then (IOS_UNAVAILABLE, w2)
              else if errno P w2 = EINTR then (IOS_INTERRUPTED, w2)
              else handleSocketError P (errno P w2) w2)
           else (1, w2))"

definition NativeSocket_close0 :: "('w, 'z) platform_scheme \<Rightarrow> int \<Rightarrow> 'w \<Rightarrow> 'w" where
  "NativeSocket_close0 P fd w =
     (if fd \<noteq> -1 then
        let (result, w1) = sys_close P fd w
        in if result < 0 then JNU_ThrowIOExceptionWithLastError P ''Close failed'' w1 else w1
      else w)"

text \<open>The test shared by \<open>read0\<close> and \<open>write0\<close>: is the last error a temporary one?\<close>

definition temporary_errno :: "int \<Rightarrow> bool" where
  "temporary_errno e \<longleftrightarrow> e = EAGAIN \<or> e = EWOULDBLOCK \<or> e = EINTR"

definition NativeSocket_read0 ::
    "('w, 'z) platform_scheme \<Rightarrow> int \<Rightarrow> int \<Rightarrow> int \<Rightarrow> 'w \<Rightarrow> int \<times> 'w" where
  "NativeSocket_read0 P fd address len w =
     (let (ssize, w1) = sys_read P fd address (size_t_of_jint len) w;
          n = jint_of_ssize ssize
      in if n = 0 then (-1, w1)
         else if n = -1 then (if temporary_errno (errno P w1) then (0, w1) else (-1, w1))
         else (n, w1))"

definition NativeSocket_write0 ::
    "('w, 'z) platform_scheme \<Rightarrow> int \<Rightarrow> int \<Rightarrow> int \<Rightarrow> 'w \<Rightarrow> int \<times> 'w" where
  "NativeSocket_write0 P fd address len w =
     (let (ssize, w1) = sys_write P fd address (size_t_of_jint len) w;
          n = jint_of_ssize ssize
      in if n = -1 then (if temporary_errno (errno P w1) then (0, w1) else (-1, w1))
         else (n, w1))"

definition NativeSocket_configureBlocking0 ::
    "('w, 'z) platform_scheme \<Rightarrow> int \<Rightarrow> bool \<Rightarrow> 'w \<Rightarrow> 'w" where
  "NativeSocket_configureBlocking0 P fd blocking w =
     (let (rc, w1) = configureBlocking P fd blocking w
      in if rc < 0 then JNU_ThrowIOExceptionWithLastError P ''Configure blocking failed'' w1 else w1)"

text \<open>\<open>if (setsockopt(...) < 0) JNU_ThrowIOExceptionWithLastError(env, msg);\<close>\<close>

definition set_or_throw ::
    "('w, 'z) platform_scheme \<Rightarrow> int \<Rightarrow> int \<Rightarrow> int \<Rightarrow> int \<Rightarrow> string \<Rightarrow> 'w \<Rightarrow> 'w" where
  "set_or_throw P fd level name val msg w =
     (let (rc, w1) = sys_setsockopt P fd level name val w
      in if rc < 0 then JNU_ThrowIOExceptionWithLastError P msg w1 else w1)"

definition NativeSocket_setKeepAlive0 :: "('w, 'z) platform_scheme \<Rightarrow> int \<Rightarrow> bool \<Rightarrow> 'w \<Rightarrow> 'w" where
  "NativeSocket_setKeepAlive0 P fd on =
     set_or_throw P fd SOL_SOCKET SO_KEEPALIVE (if on then 1 else 0) ''Set keep alive failed''"

definition NativeSocket_setReceiveBufferSize0 :: "('w, 'z) platform_scheme \<Rightarrow> int \<Rightarrow> int \<Rightarrow> 'w \<Rightarrow> 'w" where
  "NativeSocket_setReceiveBufferSize0 P fd sz =
     set_or_throw P fd SOL_SOCKET SO_RCVBUF sz ''Set receive buffer size failed''"

definition NativeSocket_setSendBufferSize0 :: "('w, 'z) platform_scheme \<Rightarrow> int \<Rightarrow> int \<Rightarrow> 'w \<Rightarrow> 'w" where
  "NativeSocket_setSendBufferSize0 P fd sz =
     set_or_throw P fd SOL_SOCKET SO_SNDBUF sz ''Set send buffer size failed''"

definition NativeSocket_setTcpNoDelay0 :: "('w, 'z) platform_scheme \<Rightarrow> int \<Rightarrow> bool \<Rightarrow> 'w \<Rightarrow> 'w" where
  "NativeSocket_setTcpNoDelay0 P fd on =
     set_or_throw P fd IPPROTO_TCP TCP_NODELAY (if on then 1 else 0) ''Set TCP no delay failed''"

subsection \<open>Option blocks\<close>

text \<open>
  \<open>safe_from P w R f\<close>: the code \<open>f\<close>, started in any world reached from \<open>w\<close> by quiet calls,
  ends in a result that satisfies \<open>R\<close>. An option block passes it on from its continuations.
\<close>

definition safe_from ::
    "('w, 'z) platform_scheme \<Rightarrow> 'w \<Rightarrow> ('r \<Rightarrow> bool) \<Rightarrow> ('w \<Rightarrow> 'r) \<Rightarrow> bool" where
  "safe_from P w R f \<longleftrightarrow> (\<forall>v. quiet P w v \<longrightarrow> R (f v))"

lemma safe_from_opt_step:
  assumes "posix_ok P" "safe_from P w R fail" "safe_from P w R k"
  shows "safe_from P w R (\<lambda>v. opt_step (c v) (sys_setsockopt P fd l n x) tol fail k v)"
  unfolding safe_from_def
proof (intro allI impI)
  fix v assume v: "quiet P w v"
  obtain rc v' where c: "sys_setsockopt P fd l n x v = (rc, v')" by fastforce
  have "quiet P w v'" using v setsockopt_quiet[OF assms(1) c] by (rule quiet_trans)
  with v assms(2,3) show "R (opt_step (c v) (sys_setsockopt P fd l n x) tol fail k v)"
    by (simp add: opt_step_def c safe_from_def)
qed

lemma apple_sndbuf_quiet:
  assumes "posix_ok P" shows "quiet P w (apple_sndbuf P d t fd w)"
proof -
  obtain rc sz w1 where g: "sys_getsockopt P fd SOL_SOCKET SO_SNDBUF w = (rc, sz, w1)"
    by (metis prod_cases3)
  have q: "quiet P w w1" using assms g by (rule getsockopt_quiet)
  have "quiet P w1 (snd (sys_setsockopt P fd SOL_SOCKET SO_SNDBUF v w1))" for v
    by (metis assms prod.collapse setsockopt_quiet)
  with q show ?thesis by (auto simp: apple_sndbuf_def g intro: quiet_trans)
qed

lemma safe_from_socket_options:
  assumes ok: "posix_ok P" and f: "\<And>m. safe_from P w R (fail m)" and k: "safe_from P w R k"
  shows "safe_from P w R (socket_options P d t reuse fd fail k)"
proof -
  have "safe_from P w R (\<lambda>v. k (apple_sndbuf P d t fd v))"
    using k quiet_trans[OF _ apple_sndbuf_quiet[OF ok]] by (simp add: safe_from_def)
  then show ?thesis
    unfolding socket_options_def Let_def by (intro safe_from_opt_step ok f)
qed

subsection \<open>Creating a socket\<close>

lemma throw_close_closes:
  assumes ok: "posix_ok P" and "throw_close P fd m w = (r, w')"
  shows "r = -1" and "open_fds P w' = open_fds P w - {fd}" and "pending P w' \<noteq> None"
proof -
  let ?w1 = "JNU_ThrowByNameWithLastError P ''java/net/SocketException'' m w"
  obtain rc w2 where c: "sys_close P fd ?w1 = (rc, w2)" by fastforce
  with assms(2) have "r = -1" "w' = w2" by (simp_all add: throw_close_def)
  with close_effects[OF ok c] throw_effects(1)[OF ok, of "''java/net/SocketException''" w m]
  show "r = -1" and "open_fds P w' = open_fds P w - {fd}" and "pending P w' \<noteq> None"
    by (simp_all add: raises_def)
qed

text \<open>
  (C1) \<open>NativeSocket.socket\<close> never leaks a descriptor. If it returns a descriptor, that
  descriptor is new, it is the only one the call opened, and no Java exception is pending because
  of the call; if it returns a negative value, the process has exactly the descriptors it had
  before and a Java exception is pending, whichever option of the long sequence failed.
\<close>

theorem NativeSocket_socket_no_leak:
  assumes ok: "posix_ok P" and run: "NativeSocket_socket P stream reuse w = (r, w')"
  shows "(0 \<le> r \<longrightarrow> r \<notin> open_fds P w \<and> open_fds P w' = insert r (open_fds P w)
                \<and> pending P w' = pending P w)
       \<and> (r < 0 \<longrightarrow> open_fds P w' = open_fds P w \<and> pending P w' \<noteq> None)"
proof -
  define type where "type = (if stream then SOCK_STREAM else SOCK_DGRAM)"
  define domain where "domain = (if ipv6_available P w then AF_INET6 else AF_INET)"
  obtain fd w1 where s: "sys_socket P domain type 0 w = (fd, w1)" by fastforce
  note se = socket_effects[OF ok s]
  show ?thesis
  proof (cases "fd < 0")
    case True
    with run s have h: "handleSocketError P (errno P w1) w1 = (r, w')"
      by (simp add: NativeSocket_socket_def Let_def type_def domain_def)
    from True se(3) have "errno P w1 \<noteq> EINPROGRESS" and "open_fds P w1 = open_fds P w" by auto
    with handleSocketError_throws[OF ok _ h] show ?thesis by (auto simp: raises_def IOS_defs)
  next
    case False
    let ?R = "\<lambda>x. (0 \<le> fst x \<longrightarrow> fst x = fd \<and> open_fds P (snd x) = insert fd (open_fds P w)
                \<and> pending P (snd x) = pending P w)
       \<and> (fst x < 0 \<longrightarrow> open_fds P (snd x) = open_fds P w \<and> pending P (snd x) \<noteq> None)"
    have fds: "fd \<notin> open_fds P w" "open_fds P w1 = insert fd (open_fds P w)"
      using False se(2) by auto
    have f: "safe_from P w1 ?R (throw_close P fd m)" for m
      unfolding safe_from_def
    proof (intro allI impI)
      fix v assume v: "quiet P w1 v"
      obtain r' v' where t: "throw_close P fd m v = (r', v')" by fastforce
      from throw_close_closes[OF ok t] v fds show "?R (throw_close P fd m v)"
        by (simp add: t quiet_def)
    qed
    have k: "safe_from P w1 ?R (\<lambda>v. (fd, v))"
      using False fds se(1) by (simp add: safe_from_def quiet_def)
    have "?R (socket_options P domain type reuse fd (throw_close P fd) (\<lambda>v. (fd, v)) w1)"
      using safe_from_socket_options[OF ok f k] by (simp add: safe_from_def)
    with run s False fds show ?thesis
      by (auto simp: NativeSocket_socket_def Let_def type_def domain_def)
  qed
qed

text \<open>The theorem at a run in which setting an option fails: descriptor 4 is opened and closed.\<close>

theorem NativeSocket_socket_no_leak_witness:
  "fst (NativeSocket_socket (sim (conf0\<lparr>cf_opt_rc := -1\<rparr>)) True True world0) = -1
   \<and> open_fds (sim (conf0\<lparr>cf_opt_rc := -1\<rparr>))
        (snd (NativeSocket_socket (sim (conf0\<lparr>cf_opt_rc := -1\<rparr>)) True True world0)) = {3}
   \<and> fst (NativeSocket_socket (sim conf0) True True world0) = 4"
proof -
  let ?P = "sim (conf0\<lparr>cf_opt_rc := -1\<rparr>)"
  have r: "fst (NativeSocket_socket ?P True True world0) = -1"
    by (simp add: NativeSocket_socket_def socket_options_def opt_step_def throw_close_def Let_def
        sim_def conf0_def world0_def fresh_fd_def)
  have r2: "fst (NativeSocket_socket (sim conf0) True True world0) = 4"
    by (simp add: NativeSocket_socket_def socket_options_def opt_step_def throw_close_def Let_def
        sim_def conf0_def world0_def fresh_fd_def)
  have "open_fds ?P world0 = {3}" by (simp add: sim_def world0_def)
  with r r2 NativeSocket_socket_no_leak[OF sim_posix_ok prod.collapse[symmetric],
      of "conf0\<lparr>cf_opt_rc := -1\<rparr>" True True world0]
  show ?thesis by simp
qed

subsection \<open>Connecting\<close>

text \<open>
  The outcome of \<open>NativeSocket.connect0\<close> is one of four, decided by the address conversion,
  the result of \<open>connect\<close> and \<open>errno\<close>: 1 exactly when the address converted and \<open>connect\<close>
  returned 0; \<open>IOS_UNAVAILABLE\<close> for a connection in progress and \<open>IOS_INTERRUPTED\<close> for an
  interrupted call, both without a new Java exception; \<open>IOS_THROWN\<close> otherwise, with an exception
  pending. It never returns 0, and it opens and closes no descriptor.
\<close>

theorem NativeSocket_connect0_outcome:
  assumes ok: "posix_ok P" and run: "NativeSocket_connect0 P fd iao port w = (r, w')"
    and conv: "NET_InetAddressToSockaddr P iao port w = (rc, sa, w1)"
    and conn: "sys_connect P fd sa w1 = (rv, w2)"
  shows "r = (if rc \<noteq> 0 then IOS_THROWN else if rv = 0 then 1
              else if errno P w2 = EINPROGRESS then IOS_UNAVAILABLE
              else if errno P w2 = EINTR then IOS_INTERRUPTED else IOS_THROWN)
    \<and> open_fds P w' = open_fds P w
    \<and> (if r = IOS_THROWN then pending P w' \<noteq> None else pending P w' = pending P w)"
proof -
  note a = inet_addr_effect[OF ok conv] and q = connect_quiet[OF ok conn]
  have t: "r' = IOS_THROWN \<and> open_fds P v = open_fds P w2 \<and> pending P v \<noteq> None"
    if "errno P w2 \<noteq> EINPROGRESS" "handleSocketError P (errno P w2) w2 = (r', v)" for r' v
    using handleSocketError_throws[OF ok that] by (simp add: raises_def)
  note d = run[unfolded NativeSocket_connect0_def conv conn Let_def split_beta fst_conv snd_conv]
  show ?thesis
    using d t a q by (auto simp: quiet_def IOS_defs split: if_splits)
qed

text \<open>The theorem at a refused connection.\<close>

theorem NativeSocket_connect0_outcome_witness:
  "fst (NativeSocket_connect0 (sim (conf0\<lparr>cf_connect := (-1, ECONNREFUSED)\<rparr>)) 4 [] 80 world0) = IOS_THROWN
   \<and> s_exn (snd (NativeSocket_connect0 (sim (conf0\<lparr>cf_connect := (-1, ECONNREFUSED)\<rparr>)) 4 [] 80 world0)) \<noteq> None"
proof -
  let ?c = "conf0\<lparr>cf_connect := (-1, ECONNREFUSED)\<rparr>"
  have 1: "NET_InetAddressToSockaddr (sim ?c) [] 80 world0 = (0, [], world0)" by (simp add: sim_def)
  have 2: "sys_connect (sim ?c) 4 [] world0 = (-1, world0\<lparr>s_errno := ECONNREFUSED\<rparr>)"
    by (simp add: sim_def)
  have e: "errno (sim ?c) (world0\<lparr>s_errno := ECONNREFUSED\<rparr>) = ECONNREFUSED"
    "\<And>v. pending (sim ?c) v = s_exn v" by (simp_all add: sim_def)
  note t = NativeSocket_connect0_outcome[OF sim_posix_ok prod.collapse[symmetric] 1 2]
  have r: "fst (NativeSocket_connect0 (sim ?c) 4 [] 80 world0) = IOS_THROWN" using t e by simp
  from t[THEN conjunct2, THEN conjunct2] r e(2) show ?thesis by simp
qed

subsection \<open>Reading and writing\<close>

text \<open>
  (C22) For a non-negative length, \<open>NativeSocket.read0\<close> returns a value between -1 and the length;
  it writes only to the bytes it reports, raises no exception and keeps the descriptors. It returns
  0 exactly when \<open>read\<close> failed with a temporary error, and -1 exactly when \<open>read\<close> returned 0 or
  failed otherwise.
\<close>

theorem NativeSocket_read0_contract:
  assumes ok: "posix_ok P" and len: "0 \<le> len" "len < 2 ^ 31"
    and call: "sys_read P fd a (nat len) w = (n, w1)"
    and run: "NativeSocket_read0 P fd a len w = (r, w')"
  shows "-1 \<le> r \<and> r \<le> len \<and> quiet P w w'
    \<and> (\<forall>x. x < a \<or> a + max 0 r \<le> x \<longrightarrow> memory P w' x = memory P w x)
    \<and> (r = 0 \<longleftrightarrow> n = -1 \<and> temporary_errno (errno P w1))
    \<and> (r = -1 \<longleftrightarrow> n = 0 \<or> n = -1 \<and> \<not> temporary_errno (errno P w1))"
proof -
  note e = read_effects[OF ok call]
  have n: "jint_of_ssize n = n" using e(2,3) len by (intro jint_of_ssize_id) auto
  have d: "(r, w') = (if n = 0 then (-1, w1)
      else if n = -1 then (if temporary_errno (errno P w1) then (0, w1) else (-1, w1)) else (n, w1))"
    using run by (simp add: NativeSocket_read0_def size_t_of_jint_nonneg[OF len] call n)
  then have w: "w' = w1" by (auto split: if_splits)
  have m: "max 0 r = max 0 n" using d e(2) by (auto split: if_splits)
  have "memory P w' x = memory P w x" if "x < a \<or> a + max 0 r \<le> x" for x
    using that e(4) w m by simp
  with d e(1,2,3) len w show ?thesis by (auto split: if_splits)
qed

text \<open>The theorem at a read of three available bytes into a buffer of eight.\<close>

theorem NativeSocket_read0_contract_witness:
  "posix_ok (sim conf0) \<and> fst (NativeSocket_read0 (sim conf0) 4 100 8 world0) = 3
   \<and> memory (sim conf0) (snd (NativeSocket_read0 (sim conf0) 4 100 8 world0)) 103 = 0"
proof -
  have c: "sys_read (sim conf0) 4 100 (nat 8) world0
      = (3, world0\<lparr>s_mem := store 100 [1, 2, 3] (s_mem world0)\<rparr>)"
    by (simp add: sim_def sim_read_def conf0_def)
  have v: "fst (NativeSocket_read0 (sim conf0) 4 100 8 world0) = 3"
    using c by (simp add: NativeSocket_read0_def size_t_of_jint_def jint_of_ssize_def)
  have "memory (sim conf0) world0 103 = 0" by (simp add: sim_def world0_def)
  with v NativeSocket_read0_contract[OF sim_posix_ok _ _ c prod.collapse[symmetric]]
  show ?thesis by (simp add: sim_posix_ok)
qed

text \<open>
  For a non-negative length, \<open>NativeSocket.write0\<close> returns a value between -1 and the length,
  leaves memory, descriptors and the pending exception alone, and returns -1 exactly when \<open>write\<close>
  failed with an error that is not temporary; a temporary failure is reported as 0.
\<close>

theorem NativeSocket_write0_contract:
  assumes ok: "posix_ok P" and len: "0 \<le> len" "len < 2 ^ 31"
    and call: "sys_write P fd a (nat len) w = (n, w1)"
    and run: "NativeSocket_write0 P fd a len w = (r, w')"
  shows "-1 \<le> r \<and> r \<le> len \<and> quiet P w w' \<and> memory P w' = memory P w
    \<and> (r = -1 \<longleftrightarrow> n = -1 \<and> \<not> temporary_errno (errno P w1))
    \<and> (n \<noteq> -1 \<longrightarrow> r = n) \<and> (n = -1 \<and> temporary_errno (errno P w1) \<longrightarrow> r = 0)"
proof -
  note e = write_effects[OF ok call]
  have n: "jint_of_ssize n = n" using e(2,3) len by (intro jint_of_ssize_id) auto
  have d: "(r, w') = (if n = -1 then (if temporary_errno (errno P w1) then (0, w1) else (-1, w1))
      else (n, w1))"
    using run by (simp add: NativeSocket_write0_def size_t_of_jint_nonneg[OF len] call n)
  then have "w' = w1" by (auto split: if_splits)
  with d e len show ?thesis by (auto split: if_splits)
qed

text \<open>The theorem at an interrupted write.\<close>

theorem NativeSocket_write0_contract_witness:
  "posix_ok (sim (conf0\<lparr>cf_io_fail := Some EINTR\<rparr>))
   \<and> fst (NativeSocket_write0 (sim (conf0\<lparr>cf_io_fail := Some EINTR\<rparr>)) 4 100 8 world0) = 0"
proof -
  let ?P = "sim (conf0\<lparr>cf_io_fail := Some EINTR\<rparr>)"
  have c: "sys_write ?P 4 100 (nat 8) world0 = (-1, world0\<lparr>s_errno := EINTR\<rparr>)"
    by (simp add: sim_def conf0_def)
  have "temporary_errno (errno ?P (world0\<lparr>s_errno := EINTR\<rparr>))"
    by (simp add: temporary_errno_def sim_def)
  with NativeSocket_write0_contract[OF sim_posix_ok _ _ c prod.collapse[symmetric]]
  show ?thesis by (simp add: sim_posix_ok)
qed

subsection \<open>Blocking mode\<close>

lemma nonblock_bit: "O_NONBLOCK = push_bit 11 1"
  by simp

lemma clear_nonblock: "(flags :: uint32) AND NOT O_NONBLOCK = unset_bit 11 flags"
  by (simp only: unset_bit_eq_and_not nonblock_bit)

lemma set_nonblock: "(flags :: uint32) OR O_NONBLOCK = set_bit 11 flags"
  by (simp only: set_bit_eq_or nonblock_bit)

lemma unset_bit_id_iff: "flags = unset_bit 11 (flags :: uint32) \<longleftrightarrow> \<not> bit flags 11"
proof
  show "flags = unset_bit 11 flags \<Longrightarrow> \<not> bit flags 11" by (metis bit_unset_bit_iff)
  show "\<not> bit flags 11 \<Longrightarrow> flags = unset_bit 11 flags"
    by (rule bit_word_eqI) (auto simp: bit_unset_bit_iff simp del: bit_eq_iff)
qed

lemma set_bit_id_iff: "flags = set_bit 11 (flags :: uint32) \<longleftrightarrow> bit flags 11"
proof
  have "bit (set_bit 11 flags) 11" by (simp add: bit_set_bit_iff)
  then show "flags = set_bit 11 flags \<Longrightarrow> bit flags 11" by metis
  show "bit flags 11 \<Longrightarrow> flags = set_bit 11 flags"
    by (rule bit_word_eqI) (auto simp: bit_set_bit_iff)
qed

text \<open>
  (C37) \<open>configureBlocking\<close> against a bit-level reference: it asks the kernel for the status flags
  and, if bit 11 (\<open>O_NONBLOCK\<close>) does not already have the wanted value, writes the flags back with
  exactly that bit flipped. In particular, when \<open>fcntl(F_GETFL)\<close> fails with -1 and non-blocking
  mode is asked for, the function returns 0 (success) without having set anything.
\<close>

theorem configureBlocking_reference:
  "configureBlocking P fd blocking w =
     (let (flags, w1) = sys_fcntl_getfl P fd w
      in if bit flags 11 = (\<not> blocking) then (0, w1)
         else sys_fcntl_setfl P fd (flip_bit 11 flags) w1)
   \<and> (fst (sys_fcntl_getfl P fd w) = -1 \<longrightarrow>
        configureBlocking P fd False w = (0, snd (sys_fcntl_getfl P fd w)))"
proof -
  have f: "unset_bit 11 flags = flip_bit 11 flags" if "bit flags 11" for flags :: uint32
    using that by (simp add: flip_bit_eq_if)
  have g: "set_bit 11 flags = flip_bit 11 flags" if "\<not> bit flags 11" for flags :: uint32
    using that by (simp add: flip_bit_eq_if)
  have "bit (-1 :: uint32) 11" by simp
  then show ?thesis
    unfolding configureBlocking_def clear_nonblock set_nonblock
    using f g by (auto simp: unset_bit_id_iff set_bit_id_iff Let_def split: prod.splits)
qed

text \<open>The second part at a platform whose \<open>F_GETFL\<close> fails.\<close>

theorem configureBlocking_reference_witness:
  "fst (sys_fcntl_getfl (sim (conf0\<lparr>cf_flags := -1\<rparr>)) 9 world0) = -1
   \<and> configureBlocking (sim (conf0\<lparr>cf_flags := -1\<rparr>)) 9 False world0 = (0, world0)"
proof -
  have "sys_fcntl_getfl (sim (conf0\<lparr>cf_flags := -1\<rparr>)) 9 world0 = (-1, world0)"
    by (simp add: sim_def)
  then show ?thesis
    using configureBlocking_reference[of "sim (conf0\<lparr>cf_flags := -1\<rparr>)" 9 False world0] by simp
qed

end
