(* ===== verification/NativeSSLSocket.thy ===== *)
theory NativeSSLSocket
  imports NativeSocket "HOL-Library.Monad_Syntax"
begin

text \<open>
  The TLS socket of the native library,
  \<open>group_gnometrading_networking_sockets_NativeSSLSocket.cpp\<close>. Its Java side holds a
  \<open>jlong\<close> that is the address of a heap block \<open>SSLSocketState\<close>. The model keeps the heap blocks
  explicitly, with every field of a fresh block indeterminate (\<open>None\<close>), as \<open>malloc\<close> leaves them,
  and gives the functions that follow the pointer an \<open>option\<close> result: \<open>None\<close> is undefined
  behaviour (a handle that is no live block, the value of an indeterminate field, a release of
  something not held). \<open>held\<close> lists the TLS objects the code has created and not released.
  The TLS library is a parameter of this theory: the fields of \<open>tls_platform\<close>.
\<close>

subsection \<open>State\<close>

record SSLSocketState =
  socket_fd :: "int option"
  ssl :: "int option"
  ctx :: "int option"

datatype tls_object = Ctx int | Ssl int

record 'w cstate =
  wld :: 'w
  heap :: "int \<Rightarrow> SSLSocketState option"
  brk :: int
  held :: "tls_object list"

text \<open>The TLS library and the JNI string functions, over the same worlds.\<close>

record 'w tls_platform = "'w platform" +
  malloc_ok :: "'w \<Rightarrow> bool"
  GetStringUTFChars :: "string \<Rightarrow> 'w \<Rightarrow> string \<times> 'w"
  ReleaseStringUTFChars :: "string \<Rightarrow> string \<Rightarrow> 'w \<Rightarrow> 'w"
  SSL_library_init :: "'w \<Rightarrow> 'w"
  SSL_load_error_strings :: "'w \<Rightarrow> 'w"
  SSL_CTX_new_client :: "'w \<Rightarrow> int \<times> 'w"
  SSL_CTX_free :: "int \<Rightarrow> 'w \<Rightarrow> 'w"
  SSL_new :: "int \<Rightarrow> 'w \<Rightarrow> int \<times> 'w"
  SSL_set_fd :: "int \<Rightarrow> int \<Rightarrow> 'w \<Rightarrow> 'w"
  SSL_set_tlsext_host_name :: "int \<Rightarrow> string \<Rightarrow> 'w \<Rightarrow> 'w"
  SSL_connect :: "int \<Rightarrow> 'w \<Rightarrow> int \<times> 'w"
  SSL_shutdown :: "int \<Rightarrow> 'w \<Rightarrow> 'w"
  SSL_free :: "int \<Rightarrow> 'w \<Rightarrow> 'w"
  SSL_read :: "int \<Rightarrow> int \<Rightarrow> int \<Rightarrow> 'w \<Rightarrow> int \<times> 'w"
  SSL_write :: "int \<Rightarrow> int \<Rightarrow> int \<Rightarrow> 'w \<Rightarrow> int \<times> 'w"
  SSL_get_error :: "int \<Rightarrow> int \<Rightarrow> 'w \<Rightarrow> int \<times> 'w"
  ERR_print_errors_fp :: "'w \<Rightarrow> 'w"

abbreviation (input) "SSL_ERROR_WANT_READ \<equiv> (2 :: int)"
abbreviation (input) "SSL_ERROR_WANT_WRITE \<equiv> (3 :: int)"

subsection \<open>Memory and TLS objects\<close>

definition on_wld :: "('w \<Rightarrow> 'a \<times> 'w) \<Rightarrow> 'w cstate \<Rightarrow> 'a \<times> 'w cstate" where
  "on_wld f s = (let (a, w) = f (wld s) in (a, s\<lparr>wld := w\<rparr>))"

text \<open>\<open>malloc(sizeof(SSLSocketState))\<close>: NULL, or a new block of 24 bytes with indeterminate fields.\<close>

definition malloc_state :: "('w, 'z) tls_platform_scheme \<Rightarrow> 'w cstate \<Rightarrow> int \<times> 'w cstate" where
  "malloc_state P s =
     (if malloc_ok P (wld s)
      then (brk s, s\<lparr>heap := (heap s)(brk s \<mapsto> \<lparr>socket_fd = None, ssl = None, ctx = None\<rparr>),
                     brk := brk s + 24\<rparr>)
      else (0, s))"

definition free_state :: "int \<Rightarrow> 'w cstate \<Rightarrow> 'w cstate option" where
  "free_state a s = (case heap s a of None \<Rightarrow> None | Some _ \<Rightarrow> Some (s\<lparr>heap := (heap s)(a := None)\<rparr>))"

definition acquire :: "(int \<Rightarrow> tls_object) \<Rightarrow> ('w \<Rightarrow> int \<times> 'w) \<Rightarrow> 'w cstate \<Rightarrow> int \<times> 'w cstate" where
  "acquire mk f s = (let (p, w) = f (wld s)
     in (p, s\<lparr>wld := w, held := (if p = 0 then held s else mk p # held s)\<rparr>))"

definition release :: "tls_object \<Rightarrow> ('w \<Rightarrow> 'w) \<Rightarrow> 'w cstate \<Rightarrow> 'w cstate option" where
  "release x f s = (if x \<in> set (held s) then Some (s\<lparr>wld := f (wld s), held := remove1 x (held s)\<rparr>)
                    else None)"

definition set_block :: "int \<Rightarrow> (SSLSocketState \<Rightarrow> SSLSocketState) \<Rightarrow> 'w cstate \<Rightarrow> 'w cstate" where
  "set_block a f s = s\<lparr>heap := (heap s)(a := map_option f (heap s a))\<rparr>"

subsection \<open>The JNI functions\<close>

definition NativeSSLSocket_init :: "('w, 'z) tls_platform_scheme \<Rightarrow> 'w \<Rightarrow> 'w" where
  "NativeSSLSocket_init P w = SSL_load_error_strings P (SSL_library_init P w)"

text \<open>The error blocks of \<open>socket\<close>: what is released before returning, in the source's order.\<close>

definition ssl_throw_close ::
    "('w, 'z) tls_platform_scheme \<Rightarrow> int \<Rightarrow> int \<Rightarrow> int \<Rightarrow> 'w cstate \<Rightarrow> string \<Rightarrow> 'w
     \<Rightarrow> (int \<times> 'w cstate) option" where
  "ssl_throw_close P a fd c s msg w =
     (let w1 = JNU_ThrowByNameWithLastError P ''java/net/SocketException'' msg w;
          (_, w2) = sys_close P fd w1
      in do { s1 \<leftarrow> release (Ctx c) (SSL_CTX_free P c) (s\<lparr>wld := w2\<rparr>);
              s2 \<leftarrow> free_state a s1;
              Some (-1, s2) })"

definition NativeSSLSocket_socket ::
    "('w, 'z) tls_platform_scheme \<Rightarrow> bool \<Rightarrow> bool \<Rightarrow> 'w cstate \<Rightarrow> (int \<times> 'w cstate) option" where
  "NativeSSLSocket_socket P stream reuse s =
     (let (a, s1) = malloc_state P s in
      if a = 0 then Some (on_wld (handleSocketErrorWithMessage P (-1)
                            (Some ''Failed to allocate memory for SSLSocketState'')) s1)
      else let (c, s2) = acquire Ctx (SSL_CTX_new_client P) s1;
               s3 = set_block a (\<lambda>b. b\<lparr>ctx := Some c\<rparr>) s2 in
      if c \<noteq> 0 then
        (let type = (if stream then SOCK_STREAM else SOCK_DGRAM);
             domain = (if ipv6_available P (wld s3) then AF_INET6 else AF_INET);
             (fd, s4) = on_wld (sys_socket P domain type 0) s3;
             s5 = set_block a (\<lambda>b. b\<lparr>socket_fd := Some fd\<rparr>) s4 in
         if fd < 0 then
           do { s6 \<leftarrow> release (Ctx c) (SSL_CTX_free P c) s5;
                s7 \<leftarrow> free_state a s6;
                Some (on_wld (\<lambda>w. handleSocketError P (errno P w) w) s7) }
         else socket_options P domain type reuse fd (ssl_throw_close P a fd c s5)
                (\<lambda>w. Some (a, s5\<lparr>wld := w\<rparr>)) (wld s5))
      else
        do { s4 \<leftarrow> free_state a s3;
             Some (on_wld (handleSocketErrorWithMessage P (-1)
                     (Some ''Failed to create SSL context'')) s4) })"

definition NativeSSLSocket_connect0 ::
    "('w, 'z) tls_platform_scheme \<Rightarrow> int \<Rightarrow> byte list \<Rightarrow> int \<Rightarrow> string \<Rightarrow> 'w cstate
     \<Rightarrow> (int \<times> 'w cstate) option" where
  "NativeSSLSocket_connect0 P handle iao port hostname s =
     (let (rc, sa, w1) = NET_InetAddressToSockaddr P iao port (wld s);
          s1 = s\<lparr>wld := w1\<rparr> in
      if rc \<noteq> 0 then Some (IOS_THROWN, s1)
      else do {
        st \<leftarrow> heap s1 handle;
        fd \<leftarrow> socket_fd st;
        let (rv, s2) = on_wld (sys_connect P fd sa) s1;
        if rv \<noteq> 0 then
          (if errno P (wld s2) = EINPROGRESS then Some (IOS_UNAVAILABLE, s2)
           else if errno P (wld s2) = EINTR then Some (IOS_INTERRUPTED, s2)
           else Some (on_wld (\<lambda>w. handleSocketError P (errno P w) w) s2))
        else do {
          c \<leftarrow> ctx st;
          let (p, s3) = acquire Ssl (SSL_new P c) s2;
          let s4 = set_block handle (\<lambda>b. b\<lparr>ssl := Some p\<rparr>) s3;
          if p = 0 then Some (on_wld (handleSocketErrorWithMessage P (-1)
                                (Some ''Failed to create SSL object'')) s4)
          else do {
            let (nativeString, w5) = GetStringUTFChars P hostname (SSL_set_fd P p fd (wld s4));
            let w6 = SSL_set_tlsext_host_name P p nativeString w5;
            let (hs, w7) = SSL_connect P p w6;
            if hs \<le> 0 then
              Some (on_wld (handleSocketErrorWithMessage P (-1) (Some ''SSL handshake failed''))
                     (s4\<lparr>wld := ReleaseStringUTFChars P hostname nativeString
                                  (ERR_print_errors_fp P w7)\<rparr>))
            else Some (1, s4\<lparr>wld := ReleaseStringUTFChars P hostname nativeString w7\<rparr>) } } })"

definition NativeSSLSocket_close0 ::
    "('w, 'z) tls_platform_scheme \<Rightarrow> int \<Rightarrow> 'w cstate \<Rightarrow> 'w cstate option" where
  "NativeSSLSocket_close0 P handle s =
     do { st \<leftarrow> heap s handle;
          p \<leftarrow> ssl st;
          s1 \<leftarrow> (if p \<noteq> 0 then release (Ssl p) (\<lambda>w. SSL_free P p (SSL_shutdown P p w)) s else Some s);
          fd \<leftarrow> socket_fd st;
          let (closeResult, s2) =
            (if fd \<ge> 0 then map_prod Some id (on_wld (sys_close P fd) s1) else (None, s1));
          c \<leftarrow> ctx st;
          s3 \<leftarrow> (if c \<noteq> 0 then release (Ctx c) (SSL_CTX_free P c) s2 else Some s2);
          s4 \<leftarrow> free_state handle s3;
          rc \<leftarrow> closeResult;
          Some (if rc < 0 then s4\<lparr>wld := JNU_ThrowIOExceptionWithLastError P ''Close failed'' (wld s4)\<rparr>
                else s4) }"

text \<open>The tail shared by \<open>read0\<close> and \<open>write0\<close>: turn a result of the TLS library into a \<open>jint\<close>.\<close>

definition ssl_io_result :: "('w, 'z) tls_platform_scheme \<Rightarrow> int \<Rightarrow> int \<Rightarrow> 'w \<Rightarrow> int \<times> 'w" where
  "ssl_io_result P p n w =
     (if n \<le> 0 then
        let (ssl_error, w1) = SSL_get_error P p n w in
        if ssl_error = SSL_ERROR_WANT_READ \<or> ssl_error = SSL_ERROR_WANT_WRITE \<or> errno P w1 = EINTR
        then (0, w1) else (-1, w1)
      else (n, w))"

definition NativeSSLSocket_read0 ::
    "('w, 'z) tls_platform_scheme \<Rightarrow> int \<Rightarrow> int \<Rightarrow> int \<Rightarrow> 'w cstate \<Rightarrow> (int \<times> 'w cstate) option" where
  "NativeSSLSocket_read0 P handle address len s =
     do { st \<leftarrow> heap s handle;
          p \<leftarrow> ssl st;
          Some (on_wld (\<lambda>w. let (n, w1) = SSL_read P p address len w in ssl_io_result P p n w1) s) }"

definition NativeSSLSocket_write0 ::
    "('w, 'z) tls_platform_scheme \<Rightarrow> int \<Rightarrow> int \<Rightarrow> int \<Rightarrow> 'w cstate \<Rightarrow> (int \<times> 'w cstate) option" where
  "NativeSSLSocket_write0 P handle address len s =
     do { st \<leftarrow> heap s handle;
          p \<leftarrow> ssl st;
          Some (on_wld (\<lambda>w. let (n, w1) = SSL_write P p address len w in ssl_io_result P p n w1) s) }"

text \<open>The four setters and \<open>configureBlocking0\<close> follow the handle and act on its descriptor.\<close>

definition on_fd :: "int \<Rightarrow> (int \<Rightarrow> 'w \<Rightarrow> 'w) \<Rightarrow> 'w cstate \<Rightarrow> 'w cstate option" where
  "on_fd handle f s =
     do { st \<leftarrow> heap s handle; fd \<leftarrow> socket_fd st; Some (s\<lparr>wld := f fd (wld s)\<rparr>) }"

definition NativeSSLSocket_configureBlocking0 ::
    "('w, 'z) tls_platform_scheme \<Rightarrow> int \<Rightarrow> bool \<Rightarrow> 'w cstate \<Rightarrow> 'w cstate option" where
  "NativeSSLSocket_configureBlocking0 P handle blocking =
     on_fd handle (\<lambda>fd w. let (rc, w1) = configureBlocking P fd blocking w
       in if rc < 0 then JNU_ThrowIOExceptionWithLastError P ''Configure blocking failed'' w1 else w1)"

definition NativeSSLSocket_setKeepAlive0 ::
    "('w, 'z) tls_platform_scheme \<Rightarrow> int \<Rightarrow> bool \<Rightarrow> 'w cstate \<Rightarrow> 'w cstate option" where
  "NativeSSLSocket_setKeepAlive0 P handle on = on_fd handle (\<lambda>fd.
     set_or_throw P fd SOL_SOCKET SO_KEEPALIVE (if on then 1 else 0) ''Set keep alive failed'')"

definition NativeSSLSocket_setReceiveBufferSize0 ::
    "('w, 'z) tls_platform_scheme \<Rightarrow> int \<Rightarrow> int \<Rightarrow> 'w cstate \<Rightarrow> 'w cstate option" where
  "NativeSSLSocket_setReceiveBufferSize0 P handle sz = on_fd handle (\<lambda>fd.
     set_or_throw P fd SOL_SOCKET SO_RCVBUF sz ''Set receive buffer size failed'')"

definition NativeSSLSocket_setSendBufferSize0 ::
    "('w, 'z) tls_platform_scheme \<Rightarrow> int \<Rightarrow> int \<Rightarrow> 'w cstate \<Rightarrow> 'w cstate option" where
  "NativeSSLSocket_setSendBufferSize0 P handle sz = on_fd handle (\<lambda>fd.
     set_or_throw P fd SOL_SOCKET SO_SNDBUF sz ''Set send buffer size failed'')"

definition NativeSSLSocket_setTcpNoDelay0 ::
    "('w, 'z) tls_platform_scheme \<Rightarrow> int \<Rightarrow> bool \<Rightarrow> 'w cstate \<Rightarrow> 'w cstate option" where
  "NativeSSLSocket_setTcpNoDelay0 P handle on = on_fd handle (\<lambda>fd.
     set_or_throw P fd IPPROTO_TCP TCP_NODELAY (if on then 1 else 0) ''Set TCP no delay failed'')"

subsection \<open>Documented behaviour and well-formed states\<close>

text \<open>
  The TLS library neither closes the descriptor it is given (\<open>SSL_set_fd\<close> attaches it without
  ownership) nor raises Java exceptions; releasing a context does not report a connection in
  progress; \<open>SSL_read\<close> and \<open>SSL_write\<close> report at most the
  length they were given.
\<close>

definition tls_quiet :: "('w, 'z) tls_platform_scheme \<Rightarrow> bool" where
  "tls_quiet P \<longleftrightarrow>
     (\<forall>w. quiet P w (snd (SSL_CTX_new_client P w))) \<and> (\<forall>c w. quiet P w (SSL_CTX_free P c w)) \<and>
     (\<forall>c w. errno P w \<noteq> EINPROGRESS \<longrightarrow> errno P (SSL_CTX_free P c w) \<noteq> EINPROGRESS) \<and>
     (\<forall>c w. quiet P w (snd (SSL_new P c w))) \<and> (\<forall>p w. quiet P w (SSL_free P p w)) \<and>
     (\<forall>p fd w. quiet P w (SSL_set_fd P p fd w)) \<and>
     (\<forall>p h w. quiet P w (SSL_set_tlsext_host_name P p h w)) \<and>
     (\<forall>p w. quiet P w (snd (SSL_connect P p w))) \<and> (\<forall>p w. quiet P w (SSL_shutdown P p w)) \<and>
     (\<forall>h w. quiet P w (snd (GetStringUTFChars P h w))) \<and>
     (\<forall>h n w. quiet P w (ReleaseStringUTFChars P h n w)) \<and>
     (\<forall>w. quiet P w (ERR_print_errors_fp P w)) \<and>
     (\<forall>p n w. quiet P w (snd (SSL_get_error P p n w))) \<and>
     (\<forall>p a n w r w'. SSL_read P p a n w = (r, w') \<longrightarrow> quiet P w w' \<and> r \<le> max 0 n) \<and>
     (\<forall>p a n w r w'. SSL_write P p a n w = (r, w') \<longrightarrow> quiet P w w' \<and> r \<le> max 0 n)"

definition tls_ok :: "('w, 'z) tls_platform_scheme \<Rightarrow> bool" where
  "tls_ok P \<longleftrightarrow> posix_ok P \<and> tls_quiet P"

text \<open>Live blocks lie between address 0 and the break.\<close>

definition wf_cstate :: "'w cstate \<Rightarrow> bool" where
  "wf_cstate s \<longleftrightarrow> 0 < brk s \<and> (\<forall>a b. heap s a = Some b \<longrightarrow> 0 < a \<and> a < brk s)"

lemma wf_fresh: "wf_cstate s \<Longrightarrow> heap s (brk s) = None"
  by (cases "heap s (brk s)") (auto simp: wf_cstate_def)

lemma tls_ok_posix: "tls_ok P \<Longrightarrow> posix_ok P"
  by (simp add: tls_ok_def)

lemma tls_ok_quiet:
  assumes "tls_ok P"
  shows "quiet P w (snd (SSL_CTX_new_client P w))" and "quiet P w (SSL_CTX_free P c w)"
    and "quiet P w (snd (SSL_new P c w))" and "quiet P w (SSL_free P p w)"
    and "quiet P w (SSL_set_fd P p fd w)" and "quiet P w (SSL_set_tlsext_host_name P p h w)"
    and "quiet P w (snd (SSL_connect P p w))" and "quiet P w (SSL_shutdown P p w)"
    and "quiet P w (snd (GetStringUTFChars P h w))" and "quiet P w (ReleaseStringUTFChars P h n w)"
    and "quiet P w (ERR_print_errors_fp P w)" and "quiet P w (snd (SSL_get_error P p m w))"
  using assms by (simp_all add: tls_ok_def tls_quiet_def)

lemma quiet_eqs:
  "quiet P w w' \<Longrightarrow> open_fds P w' = open_fds P w" "quiet P w w' \<Longrightarrow> pending P w' = pending P w"
  by (simp_all add: quiet_def)

text \<open>Results of an error helper run on the world of a state: nothing but the world changes.\<close>

lemma on_wld_eq: "on_wld f s = (fst (f (wld s)), s\<lparr>wld := snd (f (wld s))\<rparr>)"
  by (simp add: on_wld_def split_beta)

lemma socket_error_effect:
  assumes "posix_ok P" "e \<noteq> EINPROGRESS"
  shows "fst (handleSocketErrorWithMessage P e m w) = IOS_THROWN"
    and "open_fds P (snd (handleSocketErrorWithMessage P e m w)) = open_fds P w"
    and "pending P (snd (handleSocketErrorWithMessage P e m w)) = Some (socket_error_class e)"
  using handleSocketErrorWithMessage_throws[OF assms prod.collapse[symmetric], where m = m and w = w]
  by (simp_all add: raises_def)

subsection \<open>Creating a socket\<close>

text \<open>What \<open>socket\<close> may have done to the state \<open>s\<close> when it returns \<open>r\<close> and \<open>s'\<close>.\<close>

definition created ::
    "('w, 'z) tls_platform_scheme \<Rightarrow> 'w cstate \<Rightarrow> int \<Rightarrow> 'w cstate \<Rightarrow> int \<Rightarrow> int \<Rightarrow> bool" where
  "created P s r s' fd c \<longleftrightarrow>
     r = brk s \<and> 0 \<le> fd \<and> c \<noteq> 0 \<and> brk s' = brk s + 24 \<and>
     fd \<notin> open_fds P (wld s) \<and> open_fds P (wld s') = insert fd (open_fds P (wld s)) \<and>
     heap s' = (heap s)(r \<mapsto> \<lparr>socket_fd = Some fd, ssl = None, ctx = Some c\<rparr>) \<and>
     held s' = Ctx c # held s \<and> pending P (wld s') = pending P (wld s)"

definition undone :: "('w, 'z) tls_platform_scheme \<Rightarrow> 'w cstate \<Rightarrow> int \<Rightarrow> 'w cstate \<Rightarrow> bool" where
  "undone P s r s' \<longleftrightarrow> r < 0 \<and> heap s' = heap s \<and> held s' = held s \<and>
     open_fds P (wld s') = open_fds P (wld s) \<and> pending P (wld s') \<noteq> None"

lemma ssl_throw_close_undone:
  assumes ok: "tls_ok P" and "heap s a = Some b" "held s = Ctx c # h"
  shows "\<exists>s'. ssl_throw_close P a fd c s m w = Some (-1, s') \<and> heap s' = (heap s)(a := None)
           \<and> held s' = h \<and> open_fds P (wld s') = open_fds P w - {fd} \<and> pending P (wld s') \<noteq> None"
proof -
  let ?w1 = "JNU_ThrowByNameWithLastError P ''java/net/SocketException'' m w"
  obtain rc w2 where c: "sys_close P fd ?w1 = (rc, w2)" by fastforce
  note p = tls_ok_posix[OF ok]
  have "open_fds P w2 = open_fds P w - {fd}" "pending P w2 \<noteq> None"
    using close_effects[OF p c] throw_effects(1)[OF p, of "''java/net/SocketException''" w m]
    by (simp_all add: raises_def)
  then show ?thesis
    using assms(2,3) quiet_eqs[OF tls_ok_quiet(2)[OF ok]]
    by (simp add: ssl_throw_close_def c release_def free_state_def)
qed

lemma NativeSSLSocket_socket_outcome:
  assumes ok: "tls_ok P" and wf: "wf_cstate s"
  obtains r s' where "NativeSSLSocket_socket P stream reuse s = Some (r, s')"
    "undone P s r s' \<or> (\<exists>fd c. created P s r s' fd c)"
proof -
  note p = tls_ok_posix[OF ok]
  have f: "heap s (brk s) = None" and b: "0 < brk s"
    using wf wf_fresh by (auto simp: wf_cstate_def)
  define type where "type = (if stream then SOCK_STREAM else SOCK_DGRAM)"
  obtain c w1 where cn: "SSL_CTX_new_client P (wld s) = (c, w1)" by fastforce
  have q1: "quiet P (wld s) w1" using tls_ok_quiet(1)[OF ok, of "wld s"] cn by simp
  define domain where "domain = (if ipv6_available P w1 then AF_INET6 else AF_INET)"
  obtain fd w2 where so: "sys_socket P domain type 0 w1 = (fd, w2)" by fastforce
  note se = socket_effects[OF p so] and d = NativeSSLSocket_socket_def
  note ev = malloc_state_def acquire_def set_block_def release_def free_state_def on_wld_eq cn so
    type_def[symmetric] domain_def[symmetric]
  note err = socket_error_effect[OF p] quiet_eqs[OF q1] quiet_eqs[OF tls_ok_quiet(2)[OF ok]]
  consider (nomem) "\<not> malloc_ok P (wld s)" | (noctx) "malloc_ok P (wld s)" "c = 0"
    | (nosock) "malloc_ok P (wld s)" "c \<noteq> 0" "fd < 0"
    | (sock) "malloc_ok P (wld s)" "c \<noteq> 0" "0 \<le> fd" by linarith
  then show thesis
  proof cases
    case nomem
    show thesis
      by (rule that[OF _ disjI1])
        (use nomem err in \<open>auto simp: d ev undone_def IOS_defs\<close>)
  next
    case noctx
    show thesis
      by (rule that[OF _ disjI1])
        (use noctx err f b in \<open>auto simp: d ev undone_def IOS_defs\<close>)
  next
    case nosock
    have "errno P (SSL_CTX_free P c w2) \<noteq> EINPROGRESS"
      using ok nosock(3) se(3) by (auto simp: tls_ok_def tls_quiet_def)
    then show thesis
      by (intro that[OF _ disjI1])
        (use nosock err f b se in \<open>auto simp: d ev undone_def IOS_defs handleSocketError_def\<close>)
  next
    case sock
    let ?s = "s\<lparr>brk := brk s + 24, held := Ctx c # held s, wld := w2,
        heap := (heap s)(brk s \<mapsto> \<lparr>socket_fd = Some fd, ssl = None, ctx = Some c\<rparr>)\<rparr>"
    let ?R = "\<lambda>x. \<exists>r s'. x = Some (r, s') \<and> (undone P s r s' \<or> (\<exists>fd c. created P s r s' fd c))"
    have fds: "fd \<notin> open_fds P (wld s)" "open_fds P w2 = insert fd (open_fds P (wld s))"
      "pending P w2 = pending P (wld s)"
      using sock se quiet_eqs[OF q1] by auto
    have 1: "safe_from P w2 ?R (ssl_throw_close P (brk s) fd c ?s m)" for m
      unfolding safe_from_def
    proof (intro allI impI)
      fix v assume v: "quiet P w2 v"
      obtain s' where "ssl_throw_close P (brk s) fd c ?s m v = Some (-1, s')"
        "heap s' = (heap ?s)(brk s := None)" "held s' = held s"
        "open_fds P (wld s') = open_fds P v - {fd}" "pending P (wld s') \<noteq> None"
        using ssl_throw_close_undone[OF ok, of ?s "brk s" _ c "held s" fd m v] by auto
      with f v fds show "?R (ssl_throw_close P (brk s) fd c ?s m v)"
        by (auto simp: undone_def quiet_def fun_upd_idem_iff)
    qed
    have 2: "safe_from P w2 ?R (\<lambda>v. Some (brk s, ?s\<lparr>wld := v\<rparr>))"
      using sock fds by (auto simp: safe_from_def created_def quiet_def)
    have eq: "NativeSSLSocket_socket P stream reuse s
        = socket_options P domain type reuse fd (ssl_throw_close P (brk s) fd c ?s)
            (\<lambda>v. Some (brk s, ?s\<lparr>wld := v\<rparr>)) w2"
      using sock b by (simp add: d ev Let_def cong: if_cong)
    have "safe_from P w2 ?R (socket_options P domain type reuse fd
        (ssl_throw_close P (brk s) fd c ?s) (\<lambda>v. Some (brk s, ?s\<lparr>wld := v\<rparr>)))"
      by (rule safe_from_socket_options[OF p 1 2])
    then have "?R (NativeSSLSocket_socket P stream reuse s)"
      unfolding eq safe_from_def by (elim allE impE) simp_all
    then show thesis using that by blast
  qed
qed

lemma created_block:
  "created P s h s1 fd c \<Longrightarrow> heap s1 h = Some \<lparr>socket_fd = Some fd, ssl = None, ctx = Some c\<rparr>"
  by (simp add: created_def)

lemma socket_created:
  assumes "tls_ok P" "wf_cstate s" "NativeSSLSocket_socket P stream reuse s = Some (h, s1)" "0 < h"
  obtains fd c where "created P s h s1 fd c"
proof -
  have "undone P s h s1 \<or> (\<exists>fd c. created P s h s1 fd c)"
    by (rule NativeSSLSocket_socket_outcome[OF assms(1,2), of stream reuse]) (use assms(3) in auto)
  with assms(4) that show thesis by (auto simp: undone_def)
qed

subsection \<open>Connecting\<close>

lemma connect0_success:
  assumes ok: "tls_ok P" and st: "heap s h = Some \<lparr>socket_fd = Some fd, ssl = x, ctx = Some c\<rparr>"
    and run: "NativeSSLSocket_connect0 P h iao port host s = Some (1, s')"
  obtains p where "p \<noteq> 0" "held s' = Ssl p # held s"
    "heap s' = (heap s)(h \<mapsto> \<lparr>socket_fd = Some fd, ssl = Some p, ctx = Some c\<rparr>)"
    "quiet P (wld s) (wld s')"
proof -
  note po = tls_ok_posix[OF ok] and tq = tls_ok_quiet[OF ok]
  obtain rc sa w1 where a: "NET_InetAddressToSockaddr P iao port (wld s) = (rc, sa, w1)"
    by (metis prod_cases3)
  obtain rv w2 where cn: "sys_connect P fd sa w1 = (rv, w2)" by fastforce
  obtain p w3 where nw: "SSL_new P c w2 = (p, w3)" by fastforce
  obtain n w5 where gs: "GetStringUTFChars P host (SSL_set_fd P p fd w3) = (n, w5)" by fastforce
  obtain hs w7 where hk: "SSL_connect P p (SSL_set_tlsext_host_name P p n w5) = (hs, w7)" by fastforce
  have not1: "fst (handleSocketErrorWithMessage P e m w) \<noteq> 1" for e m w
    by (simp add: handleSocketErrorWithMessage_def Let_def IOS_defs)
  note ev = NativeSSLSocket_connect0_def on_wld_eq acquire_def set_block_def a cn nw gs hk
    st Let_def IOS_defs
  have rc: "rc = 0" using run by (auto simp: ev split: if_splits)
  have rv: "rv = 0" using run rc not1
    by (auto simp: ev handleSocketError_def split: if_splits)
  have pn: "p \<noteq> 0" using run rc rv not1 by (auto simp: ev split: if_splits)
  have hs: "0 < hs" using run rc rv pn not1 by (auto simp: ev split: if_splits)
  have s': "s' = s\<lparr>held := Ssl p # held s, heap := (heap s)(h \<mapsto>
      \<lparr>socket_fd = Some fd, ssl = Some p, ctx = Some c\<rparr>), wld := ReleaseStringUTFChars P host n w7\<rparr>"
    using run rc rv pn hs by (simp add: ev)
  have "quiet P (wld s) w1" using inet_addr_effect[OF po a] rc by (simp add: quiet_def)
  moreover note connect_quiet[OF po cn]
  moreover have "quiet P w2 w3" using tq(3)[of w2 c] nw by simp
  moreover note tq(5)[of w3 p fd]
  moreover have "quiet P (SSL_set_fd P p fd w3) w5" using tq(9)[of _ host] gs by (metis snd_conv)
  moreover note tq(6)[of w5 p n]
  moreover have "quiet P (SSL_set_tlsext_host_name P p n w5) w7" using tq(7)[of _ p] hk by (metis snd_conv)
  moreover note tq(10)[of w7 host n]
  ultimately have "quiet P (wld s) (wld s')" unfolding s' by (simp add: quiet_def)
  with pn s' show thesis by (intro that) simp_all
qed

subsection \<open>Closing\<close>

lemma close0_connected:
  assumes ok: "tls_ok P" and st: "heap s h = Some \<lparr>socket_fd = Some fd, ssl = Some p, ctx = Some c\<rparr>"
    and "0 \<le> fd" "p \<noteq> 0" "c \<noteq> 0" and held: "held s = Ssl p # Ctx c # hs"
  obtains s' where "NativeSSLSocket_close0 P h s = Some s'" "heap s' = (heap s)(h := None)"
    "held s' = hs" "open_fds P (wld s') = open_fds P (wld s) - {fd}"
proof -
  note po = tls_ok_posix[OF ok] and tq = tls_ok_quiet[OF ok]
  define w1 where "w1 = SSL_free P p (SSL_shutdown P p (wld s))"
  obtain rc w2 where cl: "sys_close P fd w1 = (rc, w2)" by fastforce
  let ?w3 = "SSL_CTX_free P c w2"
  define w4 where "w4 = (if rc < 0 then JNU_ThrowIOExceptionWithLastError P ''Close failed'' ?w3 else ?w3)"
  have run: "NativeSSLSocket_close0 P h s
      = Some (s\<lparr>held := hs, heap := (heap s)(h := None), wld := w4\<rparr>)"
    using assms(3-6) st cl
    by (simp add: NativeSSLSocket_close0_def release_def on_wld_eq free_state_def w1_def[symmetric]
        w4_def)
  have "quiet P (wld s) w1"
    unfolding w1_def using tq(8)[of "wld s" p] tq(4)[of "SSL_shutdown P p (wld s)" p]
    by (rule quiet_trans)
  then have "open_fds P w2 = open_fds P (wld s) - {fd}"
    using close_effects[OF po cl] by (simp add: quiet_def)
  then have "open_fds P w4 = open_fds P (wld s) - {fd}"
    using tq(2)[of w2 c] throw_effects(3)[OF po, of ?w3 "''Close failed''"]
    by (simp add: quiet_def raises_def w4_def)
  then show thesis by (intro that[OF run]) simp_all
qed

subsection \<open>Transfers\<close>

text \<open>A transfer between connecting and closing: the arguments of a \<open>read0\<close> or \<open>write0\<close>.\<close>

datatype transfer = Rd int int | Wr int int

fun transfer_step ::
    "('w, 'z) tls_platform_scheme \<Rightarrow> int \<Rightarrow> transfer \<Rightarrow> 'w cstate \<Rightarrow> (int \<times> 'w cstate) option" where
  "transfer_step P h (Rd a n) s = NativeSSLSocket_read0 P h a n s"
| "transfer_step P h (Wr a n) s = NativeSSLSocket_write0 P h a n s"

fun transfers ::
    "('w, 'z) tls_platform_scheme \<Rightarrow> int \<Rightarrow> transfer list \<Rightarrow> 'w cstate \<Rightarrow> 'w cstate option" where
  "transfers P h [] s = Some s"
| "transfers P h (t # ts) s = do { (_, s1) \<leftarrow> transfer_step P h t s; transfers P h ts s1 }"

lemma ssl_io_result_quiet: "tls_ok P \<Longrightarrow> quiet P w (snd (ssl_io_result P p n w))"
  using tls_ok_quiet(12)[of P w p n] by (auto simp: ssl_io_result_def Let_def split_beta)

lemma transfer_step_frame:
  assumes ok: "tls_ok P" and run: "transfer_step P h t s = Some (r, s')"
  shows "heap s' = heap s \<and> held s' = held s \<and> quiet P (wld s) (wld s')"
proof -
  have rd: "quiet P w (snd (SSL_read P p a n w))"
    and wr: "quiet P w (snd (SSL_write P p a n w))" for p a n w
    using ok unfolding tls_ok_def tls_quiet_def by (metis prod.collapse)+
  show ?thesis
    using run by (cases t) (auto simp: NativeSSLSocket_read0_def NativeSSLSocket_write0_def on_wld_eq
        split_beta bind_eq_Some_conv Let_def
        intro: quiet_trans[OF rd ssl_io_result_quiet[OF ok]] quiet_trans[OF wr ssl_io_result_quiet[OF ok]])
qed

lemma transfer_step_defined:
  assumes "heap s h = Some st" "ssl st = Some p"
  obtains r s' where "transfer_step P h t s = Some (r, s')"
  using assms by (cases t) (auto simp: NativeSSLSocket_read0_def NativeSSLSocket_write0_def on_wld_eq)

lemma transfers_frame:
  assumes ok: "tls_ok P" and "heap s h = Some st" "ssl st = Some p"
  obtains s' where "transfers P h ts s = Some s'" "heap s' = heap s" "held s' = held s"
    "quiet P (wld s) (wld s')"
  using assms(2,3)
proof (induction ts arbitrary: s thesis)
  case Nil
  then show ?case by simp
next
  case (Cons t ts)
  obtain r s1 where t: "transfer_step P h t s = Some (r, s1)"
    using Cons.prems(2,3) by (rule transfer_step_defined)
  note f = transfer_step_frame[OF ok t]
  obtain s2 where "transfers P h ts s1 = Some s2" "heap s2 = heap s1" "held s2 = held s1"
    "quiet P (wld s1) (wld s2)"
    using Cons.IH[of s1] Cons.prems(2,3) f by auto
  with t f show ?case by (intro Cons.prems(1)[of s2]) (auto intro: quiet_trans)
qed

subsection \<open>A concrete TLS platform\<close>

text \<open>
  The simulated platform with a TLS library whose handshake returns \<open>hs\<close>, for evaluating the
  model: contexts and connections are the objects 7 and 9, a read delivers one byte, and
  \<open>SSL_get_error\<close> answers \<open>err\<close>.
\<close>

definition sim_tls :: "sim_conf \<Rightarrow> bool \<Rightarrow> int \<Rightarrow> int \<Rightarrow> sim_world tls_platform" where
  "sim_tls cf mem hs err = platform.extend (sim cf) (tls_platform.fields
     (\<lambda>_. mem) (\<lambda>h w. (h, w)) (\<lambda>_ _ w. w) id id (\<lambda>w. (7, w)) (\<lambda>_ w. w) (\<lambda>_ w. (9, w))
     (\<lambda>_ _ w. w) (\<lambda>_ _ w. w) (\<lambda>_ w. (hs, w)) (\<lambda>_ w. w) (\<lambda>_ w. w)
     (\<lambda>_ _ n w. (if hs = 1 then min 1 n else -1, w)) (\<lambda>_ _ n w. (if hs = 1 then min 1 n else -1, w))
     (\<lambda>_ _ w. (err, w)) id)"

definition cstate0 :: "sim_world cstate" where
  "cstate0 = \<lparr>wld = world0, heap = (\<lambda>_. None), brk = 4096, held = []\<rparr>"

lemma sim_tls_base:
  "posix_ok (sim_tls cf mem hs err) = posix_ok (sim cf)"
  "open_fds (sim_tls cf mem hs err) w = set (s_fds w)"
  "pending (sim_tls cf mem hs err) w = s_exn w"
  by (simp_all add: sim_tls_def posix_ok_def throw_ok_def socket_ok_def close_ok_def opts_ok_def
      rw_ok_def connect_ok_def raises_def quiet_def sim_def platform.defs)

lemma sim_tls_ok: "tls_ok (sim_tls cf mem hs err)"
proof -
  have "tls_quiet (sim_tls cf mem hs err)"
    by (simp add: tls_quiet_def sim_tls_base quiet_def) (auto simp: sim_tls_def platform.defs tls_platform.defs)
  then show ?thesis by (simp add: tls_ok_def sim_tls_base sim_posix_ok)
qed

lemma cstate0_wf: "wf_cstate cstate0"
  by (simp add: wf_cstate_def cstate0_def)

lemmas sim_tls_eval = sim_tls_def sim_def conf0_def world0_def cstate0_def platform.defs
  tls_platform.defs NativeSSLSocket_socket_def NativeSSLSocket_connect0_def malloc_state_def
  acquire_def set_block_def on_wld_def socket_options_def opt_step_def apple_sndbuf_def
  ssl_throw_close_def release_def free_state_def fresh_fd_def

subsection \<open>The life cycle of a TLS socket\<close>

text \<open>
  (C3) Creating a TLS socket is all or nothing. Whatever the platform does, \<open>socket\<close> returns
  without undefined behaviour; either it returns a handle, and then it has allocated exactly one
  block, one descriptor and one context and recorded them in the block, or it returns a negative
  value with a Java exception pending, and then the heap blocks, the TLS objects and the open
  descriptors are those from before the call.
\<close>

theorem NativeSSLSocket_socket_all_or_nothing:
  assumes "tls_ok P" "wf_cstate s"
  shows "\<exists>r s'. NativeSSLSocket_socket P stream reuse s = Some (r, s') \<and>
     (undone P s r s' \<or> (\<exists>fd c. created P s r s' fd c))"
  by (rule NativeSSLSocket_socket_outcome[OF assms, of stream reuse]) blast

text \<open>The theorem at a platform on which the option call fails.\<close>

theorem NativeSSLSocket_socket_all_or_nothing_witness:
  "\<exists>s'. NativeSSLSocket_socket (sim_tls (conf0\<lparr>cf_opt_rc := -1\<rparr>) True 1 0) True True cstate0 = Some (-1, s')
      \<and> undone (sim_tls (conf0\<lparr>cf_opt_rc := -1\<rparr>) True 1 0) cstate0 (-1) s'"
proof -
  let ?P = "sim_tls (conf0\<lparr>cf_opt_rc := -1\<rparr>) True 1 0"
  obtain s' where e: "NativeSSLSocket_socket ?P True True cstate0 = Some (-1, s')"
    by (simp add: sim_tls_eval)
  with NativeSSLSocket_socket_all_or_nothing[OF sim_tls_ok cstate0_wf,
      of "conf0\<lparr>cf_opt_rc := -1\<rparr>" True 1 0 True True]
  show ?thesis by (auto simp: created_def cstate0_def)
qed

text \<open>
  (C2) A full life cycle leaks nothing and never runs into undefined behaviour: a socket that was
  created and connected, on which any sequence of \<open>read0\<close> and \<open>write0\<close> calls is then made, is
  closed by \<open>close0\<close> with the heap, the TLS objects and the open descriptors exactly as they were
  before \<open>socket\<close> was called.
\<close>

theorem tls_life_cycle_restores:
  assumes ok: "tls_ok P" and wf: "wf_cstate s"
    and created: "NativeSSLSocket_socket P stream reuse s = Some (h, s1)" "0 < h"
    and connected: "NativeSSLSocket_connect0 P h iao port host s1 = Some (1, s2)"
  shows "\<exists>s3 s4. transfers P h ts s2 = Some s3 \<and> NativeSSLSocket_close0 P h s3 = Some s4
     \<and> heap s4 = heap s \<and> held s4 = held s \<and> open_fds P (wld s4) = open_fds P (wld s)"
proof -
  obtain fd c where cr: "created P s h s1 fd c" using ok wf created by (rule socket_created)
  obtain p where p: "p \<noteq> 0" "held s2 = Ssl p # held s1" "quiet P (wld s1) (wld s2)"
    "heap s2 = (heap s1)(h \<mapsto> \<lparr>socket_fd = Some fd, ssl = Some p, ctx = Some c\<rparr>)"
    using connect0_success[OF ok created_block[OF cr] connected] by blast
  then have b2: "heap s2 h = Some \<lparr>socket_fd = Some fd, ssl = Some p, ctx = Some c\<rparr>" by simp
  obtain s3 where t: "transfers P h ts s2 = Some s3" "heap s3 = heap s2" "held s3 = held s2"
    "quiet P (wld s2) (wld s3)"
    by (rule transfers_frame[OF ok b2]) auto
  obtain s4 where "NativeSSLSocket_close0 P h s3 = Some s4" "heap s4 = (heap s3)(h := None)"
    "held s4 = held s" "open_fds P (wld s4) = open_fds P (wld s3) - {fd}"
    using close0_connected[OF ok, of s3 h fd p c "held s"] t p cr b2 by (auto simp: created_def)
  moreover have "heap s h = None" using cr wf_fresh[OF wf] by (simp add: created_def)
  ultimately show ?thesis
    using t p cr by (auto simp: created_def quiet_def fun_upd_idem_iff)
qed

theorem tls_life_cycle_restores_witness:
  "\<exists>s1 s2 s3 s4. NativeSSLSocket_socket (sim_tls conf0 True 1 0) True True cstate0 = Some (4096, s1)
     \<and> NativeSSLSocket_connect0 (sim_tls conf0 True 1 0) 4096 [] 443 ''example.org'' s1 = Some (1, s2)
     \<and> transfers (sim_tls conf0 True 1 0) 4096 [Wr 64 5, Rd 128 9] s2 = Some s3
     \<and> NativeSSLSocket_close0 (sim_tls conf0 True 1 0) 4096 s3 = Some s4
     \<and> held s4 = [] \<and> heap s4 = heap cstate0"
proof -
  let ?P = "sim_tls conf0 True 1 0"
  obtain s1 where 1: "NativeSSLSocket_socket ?P True True cstate0 = Some (4096, s1)"
    by (simp add: sim_tls_eval)
  then have "s1 = snd (the (NativeSSLSocket_socket ?P True True cstate0))" by simp
  then obtain s2 where 2: "NativeSSLSocket_connect0 ?P 4096 [] 443 ''example.org'' s1 = Some (1, s2)"
    by (simp add: sim_tls_eval)
  have "held cstate0 = []" by (simp add: cstate0_def)
  then show ?thesis
    using 1 2 tls_life_cycle_restores[OF sim_tls_ok cstate0_wf 1 _ 2, of "[Wr 64 5, Rd 128 9]"]
    by auto
qed

text \<open>
  (C36) Closing a TLS socket whose connection attempt did not get as far as the TLS handshake is
  undefined behaviour. \<open>socket\<close> allocates its block with \<open>malloc\<close> and never writes the
  \<open>ssl\<close> field, \<open>connect0\<close> writes it only after \<open>connect\<close> has returned 0, and \<open>close0\<close> branches on it:
  on every platform, \<open>close0\<close> right after \<open>socket\<close>, and \<open>close0\<close> after a \<open>connect0\<close> whose
  \<open>connect\<close> call failed, read an indeterminate pointer. The Java side calls \<open>close0\<close> in both cases.
\<close>

theorem close_before_handshake_undefined:
  assumes ok: "tls_ok P" and wf: "wf_cstate s"
    and created: "NativeSSLSocket_socket P stream reuse s = Some (h, s1)" "0 < h"
  shows "NativeSSLSocket_close0 P h s1 = None
    \<and> (\<forall>iao port host sa w1 fd rv w2 r s2.
         NET_InetAddressToSockaddr P iao port (wld s1) = (0, sa, w1) \<longrightarrow>
         map_option socket_fd (heap s1 h) = Some (Some fd) \<longrightarrow>
         sys_connect P fd sa w1 = (rv, w2) \<longrightarrow> rv \<noteq> 0 \<longrightarrow>
         NativeSSLSocket_connect0 P h iao port host s1 = Some (r, s2) \<longrightarrow>
         NativeSSLSocket_close0 P h s2 = None)"
proof -
  obtain fd0 c where cr: "created P s h s1 fd0 c" using ok wf created by (rule socket_created)
  note st = created_block[OF cr]
  have u: "NativeSSLSocket_close0 P h s' = None" if "heap s' h = heap s1 h" for s'
    using that st by (simp add: NativeSSLSocket_close0_def)
  have "heap s2 = heap s1"
    if "NET_InetAddressToSockaddr P iao port (wld s1) = (0, sa, w1)"
      "map_option socket_fd (heap s1 h) = Some (Some fd)"
      "sys_connect P fd sa w1 = (rv, w2)" "rv \<noteq> 0"
      "NativeSSLSocket_connect0 P h iao port host s1 = Some (r, s2)"
    for iao port host sa w1 fd rv w2 r s2
    using that st by (auto simp: NativeSSLSocket_connect0_def on_wld_eq Let_def split: if_splits)
  then show ?thesis using u by metis
qed

text \<open>The theorem at a refused connection.\<close>

theorem close_before_handshake_undefined_witness:
  "\<exists>s1 s2. NativeSSLSocket_socket (sim_tls (conf0\<lparr>cf_connect := (-1, ECONNREFUSED)\<rparr>) True 1 0) True True cstate0
        = Some (4096, s1)
     \<and> NativeSSLSocket_connect0 (sim_tls (conf0\<lparr>cf_connect := (-1, ECONNREFUSED)\<rparr>) True 1 0)
         4096 [] 443 ''example.org'' s1 = Some (IOS_THROWN, s2)
     \<and> NativeSSLSocket_close0 (sim_tls (conf0\<lparr>cf_connect := (-1, ECONNREFUSED)\<rparr>) True 1 0) 4096 s2 = None"
proof -
  let ?P = "sim_tls (conf0\<lparr>cf_connect := (-1, ECONNREFUSED)\<rparr>) True 1 0"
  obtain s1 where 1: "NativeSSLSocket_socket ?P True True cstate0 = Some (4096, s1)"
    by (simp add: sim_tls_eval)
  then have s1: "s1 = snd (the (NativeSSLSocket_socket ?P True True cstate0))" by simp
  then obtain s2 where 2: "NativeSSLSocket_connect0 ?P 4096 [] 443 ''example.org'' s1 = Some (IOS_THROWN, s2)"
    by (simp add: sim_tls_eval handleSocketError_def handleSocketErrorWithMessage_def Let_def)
  have a: "NET_InetAddressToSockaddr ?P [] 443 (wld s1) = (0, [], wld s1)"
    "map_option socket_fd (heap s1 4096) = Some (Some 4)"
    "sys_connect ?P 4 [] (wld s1) = (-1, (wld s1)\<lparr>s_errno := ECONNREFUSED\<rparr>)"
    using s1 by (simp_all add: sim_tls_eval)
  have "NativeSSLSocket_close0 ?P 4096 s2 = None"
    using close_before_handshake_undefined[OF sim_tls_ok cstate0_wf 1] a 2 by force
  with 1 2 show ?thesis by blast
qed

subsection \<open>Reading and writing\<close>

text \<open>
  (C23) On a connected handle, \<open>read0\<close> and \<open>write0\<close> of the TLS socket are defined, return a value
  between -1 and the length, keep heap, TLS objects, descriptors and the pending exception, return
  the library's count when it is positive, 0 when it is not and the library wants to read or write
  or \<open>errno\<close> is \<open>EINTR\<close>, and -1 otherwise. Unlike the plain socket, the test of \<open>errno\<close> is made
  whatever the TLS error was.
\<close>

theorem NativeSSLSocket_io_contract:
  assumes ok: "tls_ok P" and st: "heap s h = Some st" "ssl st = Some p" and len: "0 \<le> len"
    and call: "(n, w1) = (case t of Rd a l \<Rightarrow> SSL_read P p a len (wld s) | Wr a l \<Rightarrow> SSL_write P p a len (wld s))"
    and t: "t = Rd a len \<or> t = Wr a len"
    and err: "SSL_get_error P p n w1 = (e, w2)"
  shows "\<exists>r s'. transfer_step P h t s = Some (r, s') \<and> -1 \<le> r \<and> r \<le> len
     \<and> heap s' = heap s \<and> held s' = held s \<and> quiet P (wld s) (wld s')
     \<and> r = (if 0 < n then n
            else if e = SSL_ERROR_WANT_READ \<or> e = SSL_ERROR_WANT_WRITE \<or> errno P w2 = EINTR then 0
            else -1)"
proof -
  obtain r s' where run: "transfer_step P h t s = Some (r, s')"
    using st by (rule transfer_step_defined)
  have n: "n \<le> len"
  proof (cases t)
    case (Rd a l)
    with call have "SSL_read P p a len (wld s) = (n, w1)" by simp
    then have "n \<le> max 0 len" using ok unfolding tls_ok_def tls_quiet_def by blast
    with len show ?thesis by simp
  next
    case (Wr a l)
    with call have "SSL_write P p a len (wld s) = (n, w1)" by simp
    then have "n \<le> max 0 len" using ok unfolding tls_ok_def tls_quiet_def by blast
    with len show ?thesis by simp
  qed
  have r: "r = (if 0 < n then n
            else if e = SSL_ERROR_WANT_READ \<or> e = SSL_ERROR_WANT_WRITE \<or> errno P w2 = EINTR then 0
            else -1)"
    using run t st call[symmetric] err
    by (auto simp: NativeSSLSocket_read0_def NativeSSLSocket_write0_def on_wld_eq ssl_io_result_def
        Let_def split: if_splits)
  then have "-1 \<le> r \<and> r \<le> len" using n len by (auto split: if_splits)
  with r run transfer_step_frame[OF ok run] show ?thesis by blast
qed

text \<open>The theorem at a read that ends with a stale \<open>EINTR\<close> in \<open>errno\<close> and no data.\<close>

theorem NativeSSLSocket_io_contract_witness:
  "\<exists>s'. transfer_step (sim_tls conf0 True 0 5) 4096 (Rd 64 8)
      (cstate0\<lparr>heap := [4096 \<mapsto> \<lparr>socket_fd = Some 4, ssl = Some 9, ctx = Some 7\<rparr>],
               wld := world0\<lparr>s_errno := EINTR\<rparr>\<rparr>) = Some (0, s')"
proof -
  let ?P = "sim_tls conf0 True 0 5"
  let ?s = "cstate0\<lparr>heap := [4096 \<mapsto> \<lparr>socket_fd = Some 4, ssl = Some 9, ctx = Some 7\<rparr>],
               wld := world0\<lparr>s_errno := EINTR\<rparr>\<rparr>"
  have 1: "heap ?s 4096 = Some \<lparr>socket_fd = Some 4, ssl = Some 9, ctx = Some 7\<rparr>" by simp
  have 2: "(-1, wld ?s) = (case Rd 64 8 of Rd a l \<Rightarrow> SSL_read ?P 9 a 8 (wld ?s)
      | Wr a l \<Rightarrow> SSL_write ?P 9 a 8 (wld ?s))"
    by (simp add: sim_tls_def platform.defs tls_platform.defs)
  have 3: "SSL_get_error ?P 9 (-1) (wld ?s) = (5, wld ?s)"
    by (simp add: sim_tls_def platform.defs tls_platform.defs)
  have 4: "errno ?P (wld ?s) = EINTR" by (simp add: sim_tls_def platform.defs sim_def)
  from NativeSSLSocket_io_contract[OF sim_tls_ok 1 _ _ 2 _ 3] 4 show ?thesis by auto
qed

end
