(* ===== verification/Bytes.thy ===== *)
theory Bytes
  imports Prelude
begin

text \<open>
  Big-endian byte strings: the value of a string, the string of a value, and the word-level loop
  \<open>result <<= 8; result |= byte;\<close> that the readers of the byte-string library use. The readers
  and the writers are related through these two functions.
\<close>

definition be_val :: "byte list \<Rightarrow> nat" where
  "be_val bs = foldl (\<lambda>v b. 256 * v + unat b) 0 bs"

fun be_bytes :: "nat \<Rightarrow> nat \<Rightarrow> byte list" where
  "be_bytes 0 v = []"
| "be_bytes (Suc n) v = be_bytes n (v div 256) @ [of_nat v]"

text \<open>The loop of \<open>cbs_get_u\<close> and its relatives.\<close>

definition load_be :: "byte list \<Rightarrow> uint64" where
  "load_be bs = foldl (\<lambda>r b. push_bit 8 r OR ucast b) 0 bs"

lemma be_val_Nil [simp, value_simps]: "be_val [] = 0"
  by (simp add: be_val_def)

lemma be_val_snoc [simp, value_simps]: "be_val (bs @ [b]) = 256 * be_val bs + unat b"
  by (simp add: be_val_def)

lemma be_val_singleton [simp, value_simps]: "be_val [b] = unat b"
  by (simp add: be_val_def)

lemma be_val_append: "be_val (as @ bs) = 256 ^ length bs * be_val as + be_val bs"
  by (induction bs rule: rev_induct)
    (simp_all add: be_val_snoc[symmetric] append_assoc[symmetric] algebra_simps del: append_assoc)

lemma be_val_Cons: "be_val (b # bs) = 256 ^ length bs * unat b + be_val bs"
  using be_val_append[of "[b]" bs] by simp

lemma byte_lt_256: "unat (b :: byte) < 256"
  using unsigned_less[of b, where ?'a = nat] by simp

lemma be_val_bound: "be_val bs < 256 ^ length bs"
proof (induction bs rule: rev_induct)
  case (snoc b bs)
  have "256 * be_val bs + unat b < 256 * (be_val bs + 1)" using byte_lt_256[of b] by simp
  also have "\<dots> \<le> 256 * 256 ^ length bs" using snoc by simp
  finally show ?case by simp
qed simp

lemma length_be_bytes [simp]: "length (be_bytes n v) = n"
  by (induction n v rule: be_bytes.induct) simp_all

lemma unat_of_nat_byte: "unat (of_nat v :: byte) = v mod 256"
  by (simp add: unat_of_nat)

lemma be_val_be_bytes_mod: "be_val (be_bytes n v) = v mod 256 ^ n"
proof (induction n v rule: be_bytes.induct)
  case (2 n v)
  have "v mod (256 ^ n * 256) = 256 * (v div 256 mod 256 ^ n) + v mod 256"
    by (metis mod_mult2_eq mult.commute)
  with 2 show ?case by (simp add: unat_of_nat_byte mult.commute)
qed simp

lemma be_val_be_bytes [simp]: "v < 256 ^ n \<Longrightarrow> be_val (be_bytes n v) = v"
  by (simp add: be_val_be_bytes_mod)

lemma be_bytes_be_val [simp]: "be_bytes (length bs) (be_val bs) = bs"
proof (induction bs rule: rev_induct)
  case (snoc b bs)
  have "(256 * be_val bs + unat b) div 256 = be_val bs" using byte_lt_256[of b] by simp
  moreover have "(of_nat (256 * be_val bs + unat b) :: byte) = b"
    by (metis be_val_snoc mod_mult_self2_is_0 add.commute mod_mult_self4 mod_less byte_lt_256
        unat_of_nat_byte word_unat_eq_iff)
  ultimately show ?case using snoc by simp
qed simp

lemma be_val_inj: "length as = length bs \<Longrightarrow> be_val as = be_val bs \<Longrightarrow> as = bs"
  by (metis be_bytes_be_val)

text \<open>One step of the word-level loop is one step of the value.\<close>

lemma shift_or_byte: "(push_bit 8 r OR ucast (b :: byte) :: uint64) = 256 * r + ucast b"
proof -
  have "push_bit 8 r AND (ucast b :: uint64) = 0"
    by (rule bit_word_eqI) (auto simp: bit_simps dest: bit_imp_le_length)
  then have "push_bit 8 r OR (ucast b :: uint64) = push_bit 8 r + ucast b"
    by (simp add: disjunctive_add_eq_or)
  then show ?thesis by (simp add: push_bit_eq_mult)
qed

lemma of_nat_unat_byte: "(of_nat (unat (b :: byte)) :: uint64) = ucast b"
  by (simp add: word_unat_eq_iff unat_of_nat unsigned_ucast_eq take_bit_nat_eq_self
      order_less_le_trans[OF byte_lt_256])

lemma load_be_eq: "load_be bs = of_nat (be_val bs)"
  by (induction bs rule: rev_induct)
    (simp_all add: load_be_def be_val_def shift_or_byte of_nat_unat_byte)

lemma unat_load_be: "length bs \<le> 8 \<Longrightarrow> unat (load_be bs) = be_val bs"
proof -
  assume "length bs \<le> 8"
  then have "(256 :: nat) ^ length bs \<le> 256 ^ 8" by (intro power_increasing) simp_all
  with be_val_bound[of bs] have "be_val bs < 2 ^ 64" by simp
  then show ?thesis by (simp add: load_be_eq unat_of_nat)
qed

subsection \<open>Masks of a byte\<close>

lemma unat_and_mask: "unat ((w :: 'a::len word) AND mask n) = unat w mod 2 ^ n"
  by (simp add: take_bit_eq_mask[symmetric] unsigned_take_bit_eq)
    (simp add: take_bit_eq_mod)

lemma unat_and_7f: "unat ((b :: byte) AND 0x7f) = unat b mod 128"
  using unat_and_mask[of b 7] by (simp add: mask_eq_exp_minus_1)

lemma unat_and_1f: "unat ((b :: byte) AND 0x1f) = unat b mod 32"
  using unat_and_mask[of b 5] by (simp add: mask_eq_exp_minus_1)

lemma and_80_iff: "(b :: byte) AND 0x80 = 0 \<longleftrightarrow> unat b < 128"
proof -
  have "b AND 0x80 = 0 \<longleftrightarrow> \<not> bit b 7" using and_exp_eq_0_iff_not_bit[of b 7] by simp
  also have "bit b 7 = bit (unat b) 7" by (simp add: bit_unsigned_iff)
  also have "\<dots> = odd (unat b div 128)" by (simp add: bit_iff_odd)
  also have "\<dots> \<longleftrightarrow> 128 \<le> unat b"
  proof -
    have "unat b div 128 = 0 \<or> unat b div 128 = 1" using byte_lt_256[of b] by auto
    then show ?thesis by (auto simp: div_eq_0_iff)
  qed
  finally show ?thesis by auto
qed

lemma unat_drop_bit: "unat (drop_bit n (w :: 'a::len word)) = unat w div 2 ^ n"
  by (simp add: unsigned_drop_bit_eq) (simp add: drop_bit_eq_div take_bit_nat_eq_self)

lemma drop_bit_eq_0_iff: "drop_bit n (w :: 'a::len word) = 0 \<longleftrightarrow> unat w < 2 ^ n"
  by (simp add: word_unat_eq_iff unat_drop_bit div_eq_0_iff)

text \<open>Shifting in the seven value bits of a base-128 digit.\<close>

lemma unat_shift7:
  assumes "unat (v :: uint64) < 2 ^ 57"
  shows "unat (push_bit 7 v OR ucast ((b :: byte) AND 0x7f)) = 128 * unat v + unat b mod 128"
proof -
  have m: "(0x7f :: byte) = mask 7" by (simp add: mask_eq_exp_minus_1)
  have "push_bit 7 v AND (ucast (b AND 0x7f) :: uint64) = 0"
    unfolding m by (rule bit_word_eqI) (auto simp: bit_simps)
  then have "push_bit 7 v OR (ucast (b AND 0x7f) :: uint64) = 128 * v + ucast (b AND 0x7f)"
    by (simp add: disjunctive_add_eq_or[symmetric] push_bit_eq_mult)
  moreover have "unat (ucast (b AND 0x7f) :: uint64) = unat b mod 128"
    by (simp add: unat_and_7f unsigned_ucast_eq take_bit_nat_eq_self)
  moreover have "unat (128 * v) = 128 * unat v" using assms by (simp add: unat_word_ariths)
  ultimately show ?thesis using assms by (simp add: unat_word_ariths)
qed

text \<open>Bytes and words of a value, with an injection the simplifier leaves alone.\<close>

definition byte_of :: "nat \<Rightarrow> byte" where
  "byte_of n = of_nat n"

definition u64_of :: "nat \<Rightarrow> uint64" where
  "u64_of n = of_nat n"

lemma unat_byte_of: "unat (byte_of n) = n mod 256"
  by (simp add: byte_of_def unat_of_nat_byte)

lemma byte_of_unat [simp]: "byte_of (unat b) = b"
  by (simp add: word_unat_eq_iff unat_byte_of byte_lt_256)

lemma unat_u64_of: "unat (u64_of n) = n mod 2 ^ 64"
  by (simp add: u64_of_def unat_of_nat)

lemma u64_lt: "unat (v :: uint64) < 2 ^ 64"
  using unsigned_less[of v, where ?'a = nat] by simp

lemma u64_of_unat [simp]: "u64_of (unat v) = v"
  using u64_lt[of v] by (simp add: word_unat_eq_iff unat_u64_of)

lemma u64_eq_u64_of: "unat v = n \<Longrightarrow> v = u64_of n"
  by (metis u64_of_unat)

lemma byte_eq_byte_of: "unat b = n \<Longrightarrow> b = byte_of n"
  by (metis byte_of_unat)

lemma byte_of_eq_iff: "m < 256 \<Longrightarrow> n < 256 \<Longrightarrow> byte_of m = byte_of n \<longleftrightarrow> m = n"
  by (metis mod_less unat_byte_of)

text \<open>Complements and signed readings.\<close>

lemma unat_not: "unat (NOT (w :: 'a::len word)) = 2 ^ LENGTH('a) - 1 - unat w"
proof -
  have "NOT w = - 1 - w" by (simp add: not_eq_complement)
  moreover have "unat (- 1 :: 'a word) = 2 ^ LENGTH('a) - 1"
    by (simp add: unsigned_minus_1_eq_mask mask_eq_exp_minus_1)
  ultimately show ?thesis using unat_sub[of w "- 1"] by simp
qed

lemma sint_shift: "sint (w :: uint64) = (int (unat w) + 2 ^ 63) mod 2 ^ 64 - 2 ^ 63"
proof -
  have "sint w = take_bit 64 (uint w + 2 ^ 63) - 2 ^ 63"
    unfolding sint_uint signed_take_bit_eq_take_bit_shift by simp
  then show ?thesis by (simp only: uint_nat take_bit_eq_mod)
qed

lemma sint_small: assumes "unat (w :: uint64) < 2 ^ 63" shows "sint w = int (unat w)"
proof -
  have *: "(x + 2 ^ 63) mod 2 ^ 64 = x + 2 ^ 63" if "0 \<le> x" "x < 2 ^ 63" for x :: int
    using that by simp
  have "int (unat w) < int (2 ^ 63)" using assms by (simp only: of_nat_less_iff)
  then show ?thesis using *[of "int (unat w)"] unfolding sint_shift by simp
qed

lemma sint_large: assumes "2 ^ 63 \<le> unat (w :: uint64)" shows "sint w = int (unat w) - 2 ^ 64"
proof -
  have *: "(x + 2 ^ 63) mod 2 ^ 64 = x - 2 ^ 63" if "2 ^ 63 \<le> x" "x < 2 ^ 64" for x :: int
    using that by (subst mod_pos_geq) simp_all
  have "int (unat w) < int (2 ^ 64)" "int (2 ^ 63) \<le> int (unat w)"
    using unsigned_less[of w, where ?'a = nat] assms by (simp_all only: of_nat_less_iff of_nat_le_iff) simp
  then show ?thesis using *[of "int (unat w)"] unfolding sint_shift by simp
qed

end
