(* ===== verification/CBS.thy ===== *)
theory CBS
  imports Bytes
begin

text \<open>
  The byte-string reader of BoringSSL, \<open>crypto/bytestring/cbs.cc\<close>: every parser of the TLS
  library, from record headers to certificates, is written over it. A \<open>CBS\<close> (a pointer and a
  length) is the list of the bytes it has left. \<open>size_t\<close> values are \<open>nat\<close>; the one addition the
  code checks for overflow is checked here as well, at 64 bits. Functions that take a
  \<open>const CBS *\<close> work on a copy and are plain functions of the bytes.
\<close>

type_synonym cbs = "byte list"

subsection \<open>Constants of \<open>openssl/bytestring.h\<close>\<close>

type_synonym asn1_tag = uint32

abbreviation (input) "CBS_ASN1_TAG_SHIFT \<equiv> (24 :: nat)"
abbreviation (input) "CBS_ASN1_CONSTRUCTED \<equiv> (0x20000000 :: asn1_tag)"
abbreviation (input) "CBS_ASN1_TAG_NUMBER_MASK \<equiv> (0x1fffffff :: asn1_tag)"
abbreviation (input) "CBS_ASN1_BOOLEAN \<equiv> (1 :: asn1_tag)"
abbreviation (input) "CBS_ASN1_INTEGER \<equiv> (2 :: asn1_tag)"
abbreviation (input) "CBS_ASN1_BITSTRING \<equiv> (3 :: asn1_tag)"
abbreviation (input) "CBS_ASN1_OCTETSTRING \<equiv> (4 :: asn1_tag)"
abbreviation (input) "CBS_ASN1_SEQUENCE \<equiv> (0x20000010 :: asn1_tag)"
abbreviation (input) "UINT64_MAX \<equiv> (0xffffffffffffffff :: uint64)"

subsection \<open>Bytes and fixed-width integers\<close>

definition cbs_get :: "nat \<Rightarrow> (cbs, byte list) op" where
  "cbs_get n = (\<lambda>s. if length s < n then (None, s) else (Some (take n s), drop n s))"

definition CBS_skip :: "nat \<Rightarrow> (cbs, unit) op" where
  "CBS_skip len = op_bind (cbs_get len) (\<lambda>_. op_ret ())"

text \<open>\<open>CBS_stow\<close> and \<open>CBS_strdup\<close> copy into fresh memory: \<open>mem_ok\<close> is the outcome of the allocation.\<close>

definition CBS_stow :: "bool \<Rightarrow> cbs \<Rightarrow> byte list option" where
  "CBS_stow mem_ok s = (if length s = 0 then Some [] else if mem_ok then Some s else None)"

definition CBS_strdup :: "bool \<Rightarrow> cbs \<Rightarrow> byte list option" where
  "CBS_strdup mem_ok s = (if mem_ok then Some (takeWhile (\<lambda>b. b \<noteq> 0) s) else None)"

definition CBS_contains_zero_byte :: "cbs \<Rightarrow> bool" where
  "CBS_contains_zero_byte s \<longleftrightarrow> 0 \<in> set s"

definition CBS_mem_equal :: "cbs \<Rightarrow> byte list \<Rightarrow> bool" where
  "CBS_mem_equal s data = (if length data \<noteq> length s then False else s = data)"

definition cbs_get_u :: "nat \<Rightarrow> (cbs, uint64) op" where
  "cbs_get_u len = op_bind (cbs_get len) (\<lambda>data. op_ret (load_be data))"

definition CBS_get_u8 :: "(cbs, byte) op" where
  "CBS_get_u8 = op_bind (cbs_get 1) (\<lambda>v. op_ret (v ! 0))"

definition CBS_get_u16 :: "(cbs, uint16) op" where
  "CBS_get_u16 = op_bind (cbs_get_u 2) (\<lambda>v. op_ret (ucast v))"

definition CRYPTO_bswap2 :: "uint16 \<Rightarrow> uint16" where
  "CRYPTO_bswap2 x = drop_bit 8 x OR push_bit 8 x"

definition CRYPTO_bswap4 :: "uint32 \<Rightarrow> uint32" where
  "CRYPTO_bswap4 x =
     (let y = drop_bit 16 x OR push_bit 16 x
      in drop_bit 8 (y AND 0xff00ff00) OR push_bit 8 (y AND 0x00ff00ff))"

definition CRYPTO_bswap8 :: "uint64 \<Rightarrow> uint64" where
  "CRYPTO_bswap8 x =
     ucast (CRYPTO_bswap4 (ucast (drop_bit 32 x))) OR push_bit 32 (ucast (CRYPTO_bswap4 (ucast x)))"

definition CBS_get_u16le :: "(cbs, uint16) op" where
  "CBS_get_u16le = op_bind CBS_get_u16 (\<lambda>v. op_ret (CRYPTO_bswap2 v))"

definition CBS_get_u24 :: "(cbs, uint32) op" where
  "CBS_get_u24 = op_bind (cbs_get_u 3) (\<lambda>v. op_ret (ucast v))"

definition CBS_get_u32 :: "(cbs, uint32) op" where
  "CBS_get_u32 = op_bind (cbs_get_u 4) (\<lambda>v. op_ret (ucast v))"

definition CBS_get_u32le :: "(cbs, uint32) op" where
  "CBS_get_u32le = op_bind CBS_get_u32 (\<lambda>v. op_ret (CRYPTO_bswap4 v))"

definition CBS_get_u64 :: "(cbs, uint64) op" where
  "CBS_get_u64 = cbs_get_u 8"

definition CBS_get_u64le :: "(cbs, uint64) op" where
  "CBS_get_u64le = op_bind (cbs_get_u 8) (\<lambda>v. op_ret (CRYPTO_bswap8 v))"

definition CBS_get_last_u8 :: "(cbs, byte) op" where
  "CBS_get_last_u8 = (\<lambda>s. if length s = 0 then (None, s) else (Some (s ! (length s - 1)), take (length s - 1) s))"

definition CBS_get_bytes :: "nat \<Rightarrow> (cbs, cbs) op" where
  "CBS_get_bytes len = op_bind (cbs_get len) (\<lambda>v. op_ret v)"

definition CBS_copy_bytes :: "nat \<Rightarrow> (cbs, byte list) op" where
  "CBS_copy_bytes len = op_bind (cbs_get len) (\<lambda>v. op_ret v)"

definition cbs_get_length_prefixed :: "nat \<Rightarrow> (cbs, cbs) op" where
  "cbs_get_length_prefixed len_len = op_bind (cbs_get_u len_len) (\<lambda>len. CBS_get_bytes (unat len))"

definition CBS_get_u8_length_prefixed :: "(cbs, cbs) op" where
  "CBS_get_u8_length_prefixed = cbs_get_length_prefixed 1"

definition CBS_get_u16_length_prefixed :: "(cbs, cbs) op" where
  "CBS_get_u16_length_prefixed = cbs_get_length_prefixed 2"

definition CBS_get_u24_length_prefixed :: "(cbs, cbs) op" where
  "CBS_get_u24_length_prefixed = cbs_get_length_prefixed 3"

definition CBS_get_until_first :: "byte \<Rightarrow> (cbs, cbs) op" where
  "CBS_get_until_first c = (\<lambda>s.
     if c \<notin> set s then (None, s) else CBS_get_bytes (length (takeWhile (\<lambda>b. b \<noteq> c) s)) s)"

definition OPENSSL_isdigit :: "byte \<Rightarrow> bool" where
  "OPENSSL_isdigit c \<longleftrightarrow> 0x30 \<le> c \<and> c \<le> 0x39"

text \<open>The loop of \<open>CBS_get_u64_decimal\<close> with its variables \<open>v\<close> and \<open>seen_digit\<close>.\<close>

fun u64_decimal_loop :: "uint64 \<Rightarrow> bool \<Rightarrow> cbs \<Rightarrow> uint64 option \<times> cbs" where
  "u64_decimal_loop v seen_digit [] = (if seen_digit then (Some v, []) else (None, []))"
| "u64_decimal_loop v seen_digit (c # s) =
     (if \<not> OPENSSL_isdigit c then (if seen_digit then (Some v, c # s) else (None, c # s))
      else if (v = 0 \<and> seen_digit) \<or> v > UINT64_MAX div 10 \<or> v * 10 > UINT64_MAX - ucast (c - 0x30)
      then (None, s)
      else u64_decimal_loop (v * 10 + ucast (c - 0x30)) True s)"

definition CBS_get_u64_decimal :: "(cbs, uint64) op" where
  "CBS_get_u64_decimal = u64_decimal_loop 0 False"

subsection \<open>ASN.1 headers\<close>

fun base128_loop :: "uint64 \<Rightarrow> cbs \<Rightarrow> uint64 option \<times> cbs" where
  "base128_loop v [] = (None, [])"
| "base128_loop v (b # s) =
     (if drop_bit (64 - 7) v \<noteq> 0 then (None, s)
      else if v = 0 \<and> b = 0x80 then (None, s)
      else let v' = push_bit 7 v OR ucast (b AND 0x7f)
           in if b AND 0x80 \<noteq> 0 then base128_loop v' s else (Some v', s))"

definition parse_base128_integer :: "(cbs, uint64) op" where
  "parse_base128_integer = base128_loop 0"

definition parse_asn1_tag :: "(cbs, asn1_tag) op" where
  "parse_asn1_tag =
     op_bind CBS_get_u8 (\<lambda>tag_byte.
       let tag = push_bit CBS_ASN1_TAG_SHIFT (ucast tag_byte AND 0xe0);
           finish = (\<lambda>tag_number :: asn1_tag.
             let tag' = tag OR tag_number
             in op_guard (tag' AND NOT CBS_ASN1_CONSTRUCTED \<noteq> 0) (op_ret tag'))
       in if tag_byte AND 0x1f = 0x1f
          then op_bind parse_base128_integer (\<lambda>v.
                 op_guard (\<not> (v > ucast CBS_ASN1_TAG_NUMBER_MASK \<or> v < 0x1f)) (finish (ucast v)))
          else finish (ucast (tag_byte AND 0x1f)))"

text \<open>
  What \<open>cbs_get_any_asn1_element\<close> puts into its out-parameters: the element with its header, the
  tag, the header length, and, for BER, whether a non-DER form was used and whether the length is
  indefinite. The header is parsed on a copy: a failure leaves the object untouched.
\<close>

record asn1_element =
  el_bytes :: cbs
  el_tag :: asn1_tag
  el_header_len :: nat
  el_ber_found :: bool
  el_indefinite :: bool

definition take_element :: "nat \<Rightarrow> asn1_tag \<Rightarrow> nat \<Rightarrow> bool \<Rightarrow> bool \<Rightarrow> (cbs, asn1_element) op" where
  "take_element len tag header_len ber_found indefinite =
     op_bind (CBS_get_bytes len) (\<lambda>out. op_ret
       \<lparr>el_bytes = out, el_tag = tag, el_header_len = header_len, el_ber_found = ber_found,
        el_indefinite = indefinite\<rparr>)"

definition cbs_get_any_asn1_element :: "bool \<Rightarrow> (cbs, asn1_element) op" where
  "cbs_get_any_asn1_element ber_ok = (\<lambda>cbs.
     case op_bind parse_asn1_tag (\<lambda>tag. op_bind CBS_get_u8 (\<lambda>lb. op_ret (tag, lb))) cbs of
       (None, _) \<Rightarrow> (None, cbs)
     | (Some (tag, length_byte), header) \<Rightarrow>
         let header_len = length cbs - length header in
         if length_byte AND 0x80 = 0 then
           take_element (unat length_byte + header_len) tag header_len False False cbs
         else
           let num_bytes = unat (length_byte AND 0x7f) in
           if ber_ok \<and> tag AND CBS_ASN1_CONSTRUCTED \<noteq> 0 \<and> num_bytes = 0 then
             take_element header_len tag header_len True True cbs
           else if num_bytes = 0 \<or> num_bytes > 4 then (None, cbs)
           else (case cbs_get_u num_bytes header of
               (None, _) \<Rightarrow> (None, cbs)
             | (Some len64, _) \<Rightarrow>
                 let nonminimal = len64 < 128 \<or> drop_bit ((num_bytes - 1) * 8) len64 = 0;
                     len = unat len64 in
                 if nonminimal \<and> \<not> ber_ok then (None, cbs)
                 else if (len + header_len + num_bytes) mod 2 ^ 64 < len then (None, cbs)
                 else take_element (len + header_len + num_bytes) tag (header_len + num_bytes)
                        nonminimal False cbs))"

definition CBS_get_any_asn1_element :: "(cbs, asn1_element) op" where
  "CBS_get_any_asn1_element = cbs_get_any_asn1_element False"

definition CBS_get_any_ber_asn1_element :: "(cbs, asn1_element) op" where
  "CBS_get_any_ber_asn1_element = cbs_get_any_asn1_element True"

definition CBS_get_any_asn1 :: "(cbs, cbs \<times> asn1_tag) op" where
  "CBS_get_any_asn1 = op_bind CBS_get_any_asn1_element (\<lambda>e.
     case CBS_skip (el_header_len e) (el_bytes e) of
       (None, _) \<Rightarrow> op_fail
     | (Some _, out) \<Rightarrow> op_ret (out, el_tag e))"

definition cbs_get_asn1 :: "asn1_tag \<Rightarrow> bool \<Rightarrow> (cbs, cbs) op" where
  "cbs_get_asn1 tag_value skip_header =
     op_bind CBS_get_any_asn1_element (\<lambda>e. op_guard (el_tag e = tag_value)
       (if skip_header then
          (case CBS_skip (el_header_len e) (el_bytes e) of
             (None, _) \<Rightarrow> op_fail | (Some _, out) \<Rightarrow> op_ret out)
        else op_ret (el_bytes e)))"

definition CBS_get_asn1 :: "asn1_tag \<Rightarrow> (cbs, cbs) op" where
  "CBS_get_asn1 tag_value = cbs_get_asn1 tag_value True"

definition CBS_get_asn1_element :: "asn1_tag \<Rightarrow> (cbs, cbs) op" where
  "CBS_get_asn1_element tag_value = cbs_get_asn1 tag_value False"

definition CBS_peek_asn1_tag :: "asn1_tag \<Rightarrow> cbs \<Rightarrow> bool" where
  "CBS_peek_asn1_tag tag_value cbs \<longleftrightarrow> op_peek parse_asn1_tag cbs = Some tag_value"

subsection \<open>ASN.1 values\<close>

text \<open>\<open>Some negative\<close> when the contents are a minimal INTEGER, as \<open>CBS_is_valid_asn1_integer\<close> reports it.\<close>

definition CBS_is_valid_asn1_integer :: "cbs \<Rightarrow> bool option" where
  "CBS_is_valid_asn1_integer cbs =
     (case cbs of
        [] \<Rightarrow> None
      | first_byte # copy \<Rightarrow>
          (let is_negative = first_byte AND 0x80 \<noteq> 0 in
           case copy of
             [] \<Rightarrow> Some is_negative
           | second_byte # _ \<Rightarrow>
               if (first_byte = 0 \<and> second_byte AND 0x80 = 0) \<or>
                  (first_byte = 0xff \<and> second_byte AND 0x80 \<noteq> 0)
               then None else Some is_negative))"

definition CBS_is_unsigned_asn1_integer :: "cbs \<Rightarrow> bool" where
  "CBS_is_unsigned_asn1_integer cbs \<longleftrightarrow> CBS_is_valid_asn1_integer cbs = Some False"

text \<open>The accumulation loop of \<open>CBS_get_asn1_uint64\<close>: it stops when the next shift would overflow.\<close>

fun load_u64_checked :: "uint64 \<Rightarrow> byte list \<Rightarrow> uint64 option" where
  "load_u64_checked out [] = Some out"
| "load_u64_checked out (b # bs) =
     (if drop_bit 56 out \<noteq> 0 then None else load_u64_checked (push_bit 8 out OR ucast b) bs)"

definition CBS_get_asn1_uint64 :: "(cbs, uint64) op" where
  "CBS_get_asn1_uint64 = op_bind (CBS_get_asn1 CBS_ASN1_INTEGER) (\<lambda>bytes.
     op_guard (CBS_is_unsigned_asn1_integer bytes)
       (case load_u64_checked 0 bytes of None \<Rightarrow> op_fail | Some v \<Rightarrow> op_ret v))"

definition CBS_get_asn1_int64 :: "(cbs, int) op" where
  "CBS_get_asn1_int64 = op_bind (CBS_get_asn1 CBS_ASN1_INTEGER) (\<lambda>bytes.
     case CBS_is_valid_asn1_integer bytes of
       None \<Rightarrow> op_fail
     | Some is_negative \<Rightarrow>
         op_guard (length bytes \<le> 8)
           (let sign_extend = replicate (8 - length bytes) (if is_negative then 0xff else 0) @ bytes
            in op_ret (sint (load_be sign_extend))))"

definition CBS_get_asn1_bool :: "(cbs, bool) op" where
  "CBS_get_asn1_bool = op_bind (CBS_get_asn1 CBS_ASN1_BOOLEAN) (\<lambda>bytes.
     op_guard (length bytes = 1)
       (let value = bytes ! 0 in op_guard (value = 0 \<or> value = 0xff) (op_ret (value \<noteq> 0))))"

definition CBS_get_optional_asn1 :: "asn1_tag \<Rightarrow> (cbs, cbs option) op" where
  "CBS_get_optional_asn1 tag = (\<lambda>cbs.
     if CBS_peek_asn1_tag tag cbs then op_bind (CBS_get_asn1 tag) (\<lambda>out. op_ret (Some out)) cbs
     else (Some None, cbs))"

text \<open>\<open>whole p child\<close>: run \<open>p\<close> on the child and require that nothing is left of it.\<close>

definition whole :: "(cbs, 'a) op \<Rightarrow> cbs \<Rightarrow> 'a option" where
  "whole p child = (case p child of (Some a, []) \<Rightarrow> Some a | _ \<Rightarrow> None)"

definition op_option :: "'a option \<Rightarrow> ('s, 'a) op" where
  "op_option x = (case x of None \<Rightarrow> op_fail | Some a \<Rightarrow> op_ret a)"

definition CBS_get_optional_asn1_octet_string :: "asn1_tag \<Rightarrow> (cbs, cbs \<times> bool) op" where
  "CBS_get_optional_asn1_octet_string tag = op_bind (CBS_get_optional_asn1 tag) (\<lambda>child.
     case child of
       Some c \<Rightarrow> op_bind (op_option (whole (CBS_get_asn1 CBS_ASN1_OCTETSTRING) c)) (\<lambda>out. op_ret (out, True))
     | None \<Rightarrow> op_ret ([], False))"

definition CBS_get_optional_asn1_uint64 :: "asn1_tag \<Rightarrow> uint64 \<Rightarrow> (cbs, uint64) op" where
  "CBS_get_optional_asn1_uint64 tag default_value = op_bind (CBS_get_optional_asn1 tag) (\<lambda>child.
     case child of
       Some c \<Rightarrow> op_option (whole CBS_get_asn1_uint64 c)
     | None \<Rightarrow> op_ret default_value)"

definition CBS_get_optional_asn1_bool :: "asn1_tag \<Rightarrow> bool \<Rightarrow> (cbs, bool) op" where
  "CBS_get_optional_asn1_bool tag default_value = op_bind (CBS_get_optional_asn1 tag) (\<lambda>child.
     case child of
       Some c \<Rightarrow> op_bind (op_option (whole (CBS_get_asn1 CBS_ASN1_BOOLEAN) c)) (\<lambda>child2.
         op_guard (length child2 = 1)
           (let boolean = child2 ! 0
            in if boolean = 0 then op_ret False
               else if boolean = 0xff then op_ret True else op_fail))
     | None \<Rightarrow> op_ret default_value)"

definition CBS_is_valid_asn1_bitstring :: "cbs \<Rightarrow> bool" where
  "CBS_is_valid_asn1_bitstring cbs =
     (case CBS_get_u8 cbs of
        (None, _) \<Rightarrow> False
      | (Some num_unused_bits, rest) \<Rightarrow>
          if num_unused_bits > 7 then False
          else if num_unused_bits = 0 then True
          else (case CBS_get_last_u8 rest of
                  (None, _) \<Rightarrow> False
                | (Some last_byte, _) \<Rightarrow> last_byte AND (push_bit (unat num_unused_bits) 1 - 1) = 0))"

definition CBS_asn1_bitstring_has_bit :: "cbs \<Rightarrow> uint32 \<Rightarrow> bool" where
  "CBS_asn1_bitstring_has_bit cbs bitno =
     (if \<not> CBS_is_valid_asn1_bitstring cbs then False
      else let byte_num = drop_bit 3 bitno + 1; bit_num = 7 - unat (bitno AND 7)
           in unat byte_num < length cbs \<and> cbs ! unat byte_num AND push_bit bit_num 1 \<noteq> 0)"

text \<open>The loop of \<open>CBS_is_valid_asn1_oid\<close>: \<open>prev\<close> is the byte before, 0 at the start.\<close>

fun oid_bytes_ok :: "byte \<Rightarrow> cbs \<Rightarrow> bool" where
  "oid_bytes_ok prev [] \<longleftrightarrow> prev AND 0x80 = 0"
| "oid_bytes_ok prev (v # s) \<longleftrightarrow> \<not> (prev AND 0x80 = 0 \<and> v = 0x80) \<and> oid_bytes_ok v s"

definition CBS_is_valid_asn1_oid :: "cbs \<Rightarrow> bool" where
  "CBS_is_valid_asn1_oid cbs = (if length cbs = 0 then False else oid_bytes_ok 0 cbs)"

end
