(* ===== verification/Der.thy ===== *)
theory Der
  imports CBS
begin

text \<open>
  The distinguished encoding of ASN.1 elements as a specification, and the theorems that relate the
  reader \<open>CBS\<close> to it: the reader accepts every DER element and returns its parts, and it accepts
  nothing else.
\<close>

subsection \<open>Base-128 integers\<close>

fun b128_hi :: "nat \<Rightarrow> byte list" where
  "b128_hi v = (if v = 0 then [] else b128_hi (v div 128) @ [byte_of (128 + v mod 128)])"

declare b128_hi.simps [simp del]

definition base128_bytes :: "nat \<Rightarrow> byte list" where
  "base128_bytes v = b128_hi (v div 128) @ [byte_of (v mod 128)]"

lemma b128_hi_0 [simp]: "b128_hi 0 = []"
  by (simp add: b128_hi.simps)

lemma b128_hi_step: "v \<noteq> 0 \<Longrightarrow> b128_hi v = b128_hi (v div 128) @ [byte_of (128 + v mod 128)]"
  by (subst b128_hi.simps) simp

lemma mod_128_hi: "128 \<le> x \<Longrightarrow> x < 256 \<Longrightarrow> 128 + x mod 128 = (x :: nat)"
  by (simp add: le_mod_geq)

text \<open>One iteration of the loop on a continuation byte and on the last byte.\<close>

lemma isdigit_iff: "OPENSSL_isdigit c \<longleftrightarrow> 48 \<le> unat c \<and> unat c \<le> 57"
  by (simp add: OPENSSL_isdigit_def word_le_nat_alt)

lemma base128_loop_cont:
  assumes "unat v < 2 ^ 57" "128 \<le> unat b" "\<not> (v = 0 \<and> b = 0x80)"
  shows "base128_loop v (b # s) = base128_loop (u64_of (128 * unat v + unat b mod 128)) s"
proof -
  have "push_bit 7 v OR ucast (b AND 0x7f) = u64_of (128 * unat v + unat b mod 128)"
    by (rule u64_eq_u64_of[OF unat_shift7[OF assms(1)]])
  moreover have "b AND 0x80 \<noteq> 0" using assms(2) by (simp add: and_80_iff)
  ultimately show ?thesis using assms by (auto simp: drop_bit_eq_0_iff)
qed

lemma base128_loop_last:
  assumes "unat v < 2 ^ 57" "unat b < 128"
  shows "base128_loop v (b # s) = (Some (u64_of (128 * unat v + unat b)), s)"
proof -
  have "push_bit 7 v OR ucast (b AND 0x7f) = u64_of (128 * unat v + unat b)"
    using unat_shift7[OF assms(1), of b] assms(2) by (intro u64_eq_u64_of) simp
  moreover have "b AND 0x80 = 0" "b \<noteq> 0x80" using assms(2) by (auto simp: and_80_iff)
  ultimately show ?thesis using assms by (simp add: drop_bit_eq_0_iff)
qed

lemma base128_loop_hi:
  "v < 2 ^ 57 \<Longrightarrow> base128_loop 0 (b128_hi v @ s) = base128_loop (u64_of v) s"
proof (induction v arbitrary: s rule: b128_hi.induct)
  case (1 v)
  show ?case
  proof (cases "v = 0")
    case True
    then show ?thesis by (simp add: u64_of_def)
  next
    case False
    let ?u = "u64_of (v div 128)" and ?b = "byte_of (128 + v mod 128)"
    have u: "unat ?u = v div 128" and b: "unat ?b = 128 + v mod 128"
      using 1(2) by (simp_all add: unat_u64_of unat_byte_of)
    have nz: "\<not> (?u = 0 \<and> ?b = 0x80)"
    proof
      assume "?u = 0 \<and> ?b = 0x80"
      then have "v div 128 = 0" "128 + v mod 128 = 128" using u b by (metis unat_0, simp)
      with False show False by simp
    qed
    have "base128_loop 0 (b128_hi v @ s) = base128_loop ?u (?b # s)"
      using 1(1)[OF False] 1(2) by (simp add: b128_hi_step[OF False])
    also have "\<dots> = base128_loop (u64_of (128 * unat ?u + unat ?b mod 128)) s"
      using u b nz 1(2) by (intro base128_loop_cont) auto
    also have "128 * unat ?u + unat ?b mod 128 = v" using u b by simp
    finally show ?thesis .
  qed
qed

lemma parse_base128_bytes:
  assumes "v < 2 ^ 64"
  shows "parse_base128_integer (base128_bytes v @ s) = (Some (u64_of v), s)"
proof -
  have v: "v div 128 < 2 ^ 57" using assms by simp
  let ?u = "u64_of (v div 128)"
  have u: "unat ?u = v div 128" and b: "unat (byte_of (v mod 128)) = v mod 128"
    using v by (simp_all add: unat_u64_of unat_byte_of)
  have "parse_base128_integer (base128_bytes v @ s) = base128_loop ?u (byte_of (v mod 128) # s)"
    using base128_loop_hi[OF v] by (simp add: parse_base128_integer_def base128_bytes_def)
  also have "\<dots> = (Some (u64_of v), s)"
    using base128_loop_last[of ?u "byte_of (v mod 128)" s] u b v by simp
  finally show ?thesis .
qed

lemma base128_loop_Some:
  "base128_loop v s = (Some r, t) \<Longrightarrow> \<exists>bs. s = bs @ t \<and> b128_hi (unat v) @ bs = base128_bytes (unat r)"
proof (induction v s rule: base128_loop.induct)
  case (2 v b s)
  have v: "unat v < 2 ^ 57" and nz: "\<not> (v = 0 \<and> b = 0x80)"
    using 2(2) by (auto simp: drop_bit_eq_0_iff split: if_splits)
  show ?case
  proof (cases "128 \<le> unat b")
    case True
    let ?v' = "128 * unat v + unat b mod 128"
    have eq: "push_bit 7 v OR ucast (b AND 0x7f) = u64_of ?v'"
      by (rule u64_eq_u64_of[OF unat_shift7[OF v]])
    have nz': "?v' \<noteq> 0"
    proof
      assume "?v' = 0"
      then have "unat v = 0" "unat b mod 128 = 0" by auto
      moreover have "unat b < 256" by (rule byte_lt_256)
      ultimately have "v = 0" "unat b = 128" using True by (simp_all add: unat_eq_0) arith
      then show False using nz by (simp add: word_unat_eq_iff)
    qed
    have un: "unat (u64_of ?v') = ?v'" using v by (simp add: unat_u64_of)
    have "base128_loop (u64_of ?v') s = (Some r, t)"
      using 2(2) base128_loop_cont[OF v True nz] by simp
    then obtain bs where bs: "s = bs @ t" "b128_hi ?v' @ bs = base128_bytes (unat r)"
      using 2(1) v nz True eq un by (auto simp: drop_bit_eq_0_iff and_80_iff)
    have "128 + unat b mod 128 = unat b" using True byte_lt_256[of b] by (rule mod_128_hi)
    then have "b128_hi ?v' = b128_hi (unat v) @ [b]" using b128_hi_step[OF nz'] by simp
    with bs show ?thesis by (intro exI[of _ "b # bs"]) simp
  next
    case False
    then have "r = u64_of (128 * unat v + unat b)" "s = t"
      using 2(2) base128_loop_last[OF v, of b s] by auto
    moreover have "unat (u64_of (128 * unat v + unat b)) = 128 * unat v + unat b"
      using v False by (simp add: unat_u64_of)
    ultimately show ?thesis
      using False by (intro exI[of _ "[b]"]) (simp add: base128_bytes_def)
  qed
qed simp

lemma parse_base128_Some:
  "parse_base128_integer s = (Some r, t) \<Longrightarrow> s = base128_bytes (unat r) @ t"
  using base128_loop_Some[of 0 s r t] by (auto simp: parse_base128_integer_def)

subsection \<open>Tags\<close>

definition der_tag :: "asn1_tag \<Rightarrow> byte list" where
  "der_tag t =
     (let bits = 32 * (unat t div 2 ^ 29); n = unat t mod 2 ^ 29
      in if 31 \<le> n then byte_of (bits + 31) # base128_bytes n else [byte_of (bits + n)])"

text \<open>[UNIVERSAL 0] is reserved and rejected.\<close>

definition tag_ok :: "asn1_tag \<Rightarrow> bool" where
  "tag_ok t \<longleftrightarrow> t AND NOT CBS_ASN1_CONSTRUCTED \<noteq> 0"

lemma tag_bits_word: "(push_bit 24 (ucast (tb :: byte) AND 0xe0) :: asn1_tag) = push_bit 29 (ucast (drop_bit 5 tb))"
proof -
  have e0: "(0xe0 :: asn1_tag) = push_bit 5 (mask 3)" by (simp add: mask_eq_exp_minus_1)
  show ?thesis
    unfolding e0 by (rule bit_word_eqI) (auto simp: bit_simps dest: bit_imp_le_length)
qed

lemma unat_tag_bits: "unat (push_bit 24 (ucast (tb :: byte) AND 0xe0) :: asn1_tag) = 2 ^ 29 * (unat tb div 32)"
proof -
  have "unat (ucast (drop_bit 5 tb) :: asn1_tag) = unat tb div 32"
    using byte_lt_256[of tb]
    by (simp add: unsigned_ucast_eq unat_drop_bit[of 5, simplified] take_bit_nat_eq_self)
  then show ?thesis
    using byte_lt_256[of tb] unfolding tag_bits_word
    by (simp add: push_bit_eq_mult unat_word_ariths)
qed

lemma unat_tag:
  assumes "unat (n :: asn1_tag) < 2 ^ 29"
  shows "unat (push_bit 24 (ucast (tb :: byte) AND 0xe0) OR n) = 2 ^ 29 * (unat tb div 32) + unat n"
proof -
  have "\<not> bit n k" if "29 \<le> k" for k
  proof -
    have "n = take_bit 29 n"
      using assms by (simp add: word_unat_eq_iff unsigned_take_bit_eq take_bit_nat_eq_self)
    then show ?thesis using that by (metis bit_take_bit_iff not_less)
  qed
  then have "push_bit 29 (ucast (drop_bit 5 tb)) AND n = 0"
    by (intro bit_word_eqI) (auto simp: bit_simps)
  then have "push_bit 24 (ucast tb AND 0xe0) OR n = push_bit 24 (ucast tb AND 0xe0) + n"
    unfolding tag_bits_word by (simp add: disjunctive_add_eq_or)
  moreover have "2 ^ 29 * (unat tb div 32) + unat n < 2 ^ 32"
  proof -
    have "unat tb div 32 \<le> 7" using byte_lt_256[of tb] by simp
    with assms show ?thesis by simp
  qed
  ultimately show ?thesis by (simp only: unat_word_ariths unat_tag_bits) simp
qed

lemma CBS_get_u8_Cons [simp]: "CBS_get_u8 (b # s) = (Some b, s)"
  by (simp add: CBS_get_u8_def op_bind_def cbs_get_def)

lemma CBS_get_u8_Nil [simp]: "CBS_get_u8 [] = (None, [])"
  by (simp add: CBS_get_u8_def op_bind_def cbs_get_def)

lemma CBS_get_u8_Some: "CBS_get_u8 s = (Some b, t) \<longleftrightarrow> s = b # t"
  by (cases s) auto

definition tag_word :: "byte \<Rightarrow> asn1_tag \<Rightarrow> asn1_tag" where
  "tag_word tb n = push_bit 24 (ucast tb AND 0xe0) OR n"

lemma parse_asn1_tag_Cons:
  "parse_asn1_tag (tb # s) =
     (if unat tb mod 32 = 31
      then op_bind parse_base128_integer (\<lambda>v. op_guard (31 \<le> unat v \<and> unat v < 2 ^ 29)
             (op_guard (tag_ok (tag_word tb (ucast v))) (op_ret (tag_word tb (ucast v))))) s
      else let t = tag_word tb (ucast (tb AND 0x1f)) in op_guard (tag_ok t) (op_ret t) s)"
proof -
  have 1: "tb AND 0x1f = 0x1f \<longleftrightarrow> unat tb mod 32 = 31"
    by (simp add: word_unat_eq_iff unat_and_1f)
  have 2: "(\<not> (v > ucast CBS_ASN1_TAG_NUMBER_MASK \<or> v < 0x1f)) = (31 \<le> unat v \<and> unat v < 2 ^ 29)"
    for v :: uint64 by (auto simp: word_less_nat_alt)
  show ?thesis
    by (simp add: parse_asn1_tag_def op_bind_Some[where p = CBS_get_u8, OF CBS_get_u8_Cons] Let_def 1
        tag_word_def tag_ok_def 2[simplified] cong: if_cong)
qed

lemma unat_tag_word_num:
  assumes "unat (v :: uint64) < 2 ^ 29"
  shows "unat (tag_word tb (ucast v)) = 2 ^ 29 * (unat tb div 32) + unat v"
proof -
  have "unat (ucast v :: asn1_tag) = unat v"
    using assms by (simp add: unsigned_ucast_eq take_bit_nat_eq_self)
  then show ?thesis using unat_tag[of "ucast v" tb] assms by (simp add: tag_word_def)
qed

lemma unat_tag_word_byte:
  "unat (tag_word tb (ucast (tb AND 0x1f))) = 2 ^ 29 * (unat tb div 32) + unat tb mod 32"
proof -
  have "unat (ucast (tb AND 0x1f) :: asn1_tag) = unat tb mod 32"
    using byte_lt_256[of tb] by (simp add: unsigned_ucast_eq unat_and_1f take_bit_nat_eq_self)
  then show ?thesis using unat_tag[of "ucast (tb AND 0x1f)" tb] by (simp add: tag_word_def)
qed

lemma der_tag_of_parts:
  assumes "unat t = 2 ^ 29 * k + n" "n < 2 ^ 29"
  shows "der_tag t = (if 31 \<le> n then byte_of (32 * k + 31) # base128_bytes n else [byte_of (32 * k + n)])"
  using assms by (simp add: der_tag_def Let_def)

lemma parse_asn1_tag_der:
  assumes "tag_ok t" shows "parse_asn1_tag (der_tag t @ s) = (Some t, s)"
proof -
  define k where "k = unat t div 2 ^ 29"
  define n where "n = unat t mod 2 ^ 29"
  have k: "k < 8" using unsigned_less[of t, where ?'a = nat] by (simp add: k_def)
  have t: "unat t = 2 ^ 29 * k + n" and n: "n < 2 ^ 29" by (simp_all add: k_def n_def)
  show ?thesis
  proof (cases "31 \<le> n")
    case True
    let ?tb = "byte_of (32 * k + 31)"
    have tb: "unat ?tb = 32 * k + 31" using k by (simp add: unat_byte_of)
    have u: "unat (u64_of n) = n" using n by (simp add: unat_u64_of)
    have "tag_word ?tb (ucast (u64_of n)) = t"
      using unat_tag_word_num[of "u64_of n" ?tb] u n tb t by (simp add: word_unat_eq_iff)
    moreover have "parse_base128_integer (base128_bytes n @ s) = (Some (u64_of n), s)"
      using n by (intro parse_base128_bytes) simp
    ultimately show ?thesis
      using True n u tb assms der_tag_of_parts[OF t n]
      by (simp add: parse_asn1_tag_Cons op_bind_Some)
  next
    case False
    let ?tb = "byte_of (32 * k + n)"
    have tb: "unat ?tb = 32 * k + n" using k False by (simp add: unat_byte_of)
    have "tag_word ?tb (ucast (?tb AND 0x1f)) = t"
      using unat_tag_word_byte[of ?tb] tb t False by (simp add: word_unat_eq_iff)
    then show ?thesis
      using False n tb assms der_tag_of_parts[OF t n] by (simp add: parse_asn1_tag_Cons)
  qed
qed

lemma length_b128_hi: "v < 128 ^ k \<Longrightarrow> length (b128_hi v) \<le> k"
proof (induction k arbitrary: v)
  case (Suc k)
  show ?case
  proof (cases "v = 0")
    case False
    have "v div 128 < 128 ^ k" using Suc.prems by (simp add: less_mult_imp_div_less mult.commute)
    then show ?thesis using Suc.IH[of "v div 128"] by (simp add: b128_hi_step[OF False])
  qed simp
qed simp

lemma length_der_tag: "length (der_tag t) \<le> 6"
proof -
  have "unat t mod 2 ^ 29 < 2 ^ 29" by simp
  then have "unat t mod 2 ^ 29 div 128 < 128 ^ 4" by simp
  then show ?thesis
    using length_b128_hi[of "unat t mod 2 ^ 29 div 128" 4] by (simp add: der_tag_def Let_def base128_bytes_def)
qed

lemma parse_asn1_tag_Some:
  assumes "parse_asn1_tag s = (Some t, u)" shows "s = der_tag t @ u" and "tag_ok t"
proof -
  obtain tb s' where s: "s = tb # s'"
    using assms by (cases s) (auto simp: parse_asn1_tag_def op_bind_def)
  have d: "32 * (unat tb div 32) + unat tb mod 32 = unat tb" by simp
  have "s = der_tag t @ u \<and> tag_ok t"
  proof (cases "unat tb mod 32 = 31")
    case True
    obtain v where v: "parse_base128_integer s' = (Some v, u)" "31 \<le> unat v" "unat v < 2 ^ 29"
      "tag_ok t" "t = tag_word tb (ucast v)"
      using assms True by (auto simp: s parse_asn1_tag_Cons op_elims)
    have "s' = base128_bytes (unat v) @ u" using v(1) by (rule parse_base128_Some)
    moreover have "der_tag t = tb # base128_bytes (unat v)"
      using der_tag_of_parts[of t "unat tb div 32" "unat v"] v unat_tag_word_num[OF v(3), of tb] d True
      by (metis byte_of_unat)
    ultimately show ?thesis using s v(4) by simp
  next
    case False
    then have t: "t = tag_word tb (ucast (tb AND 0x1f))" "tag_ok t" "u = s'"
      using assms by (auto simp: s parse_asn1_tag_Cons op_elims Let_def)
    have "unat tb mod 32 < 32" by simp
    with False have "unat tb mod 32 < 31" by linarith
    then have "der_tag t = [tb]"
      using der_tag_of_parts[of t "unat tb div 32" "unat tb mod 32"] unat_tag_word_byte[of tb] t d by simp
    with s t show ?thesis by simp
  qed
  then show "s = der_tag t @ u" and "tag_ok t" by auto
qed

subsection \<open>Lengths and elements\<close>

text \<open>The number of length octets after the first: 0 for the short form.\<close>

definition len_octets :: "nat \<Rightarrow> nat" where
  "len_octets n = (if n < 2 ^ 7 then 0 else if n < 2 ^ 8 then 1 else if n < 2 ^ 16 then 2
     else if n < 2 ^ 24 then 3 else 4)"

definition der_len :: "nat \<Rightarrow> byte list" where
  "der_len n = (if n < 128 then [byte_of n]
                else byte_of (128 + len_octets n) # be_bytes (len_octets n) n)"

definition der_header :: "asn1_tag \<Rightarrow> nat \<Rightarrow> byte list" where
  "der_header t n = der_tag t @ der_len n"

definition der_element :: "asn1_tag \<Rightarrow> byte list \<Rightarrow> byte list" where
  "der_element t c = der_header t (length c) @ c"

lemma length_der_len: "length (der_len n) = 1 + len_octets n"
  by (simp add: der_len_def len_octets_def)

lemma len_octets_bounds:
  assumes "128 \<le> n" "n < 2 ^ 32"
  shows "1 \<le> len_octets n" and "len_octets n \<le> 4" and "n < 256 ^ len_octets n"
    and "256 ^ (len_octets n - 1) \<le> n"
  using assms by (auto simp: len_octets_def)

lemma len_octets_unique:
  assumes "128 \<le> n" "n < 256 ^ k" "256 ^ (k - 1) \<le> n" "1 \<le> k" "k \<le> 4"
  shows "len_octets n = k"
proof -
  consider "k = 1" | "k = 2" | "k = 3" | "k = 4" using assms(4,5) by linarith
  then show ?thesis by cases (use assms in \<open>simp_all add: len_octets_def\<close>)
qed

lemma cbs_get_append: "cbs_get (length bs) (bs @ s) = (Some bs, s)"
  by (simp add: cbs_get_def)

lemma cbs_get_Some: "cbs_get n s = (Some bs, t) \<longleftrightarrow> s = bs @ t \<and> length bs = n"
  by (auto simp: cbs_get_def)

lemma CBS_get_bytes_eq: "CBS_get_bytes n = cbs_get n"
  by (rule ext) (simp add: CBS_get_bytes_def op_bind_def split: prod.splits option.splits)

lemma cbs_get_u_append: "cbs_get_u (length bs) (bs @ s) = (Some (load_be bs), s)"
  by (simp add: cbs_get_u_def op_bind_def cbs_get_append)

lemma cbs_get_u_Some:
  "cbs_get_u n s = (Some v, t) \<longleftrightarrow> (\<exists>bs. s = bs @ t \<and> length bs = n \<and> v = load_be bs)"
  by (auto simp: cbs_get_u_def op_elims cbs_get_Some)

lemma take_element_append:
  "take_element (length bs) t h f i (bs @ s) =
     (Some \<lparr>el_bytes = bs, el_tag = t, el_header_len = h, el_ber_found = f, el_indefinite = i\<rparr>, s)"
  by (simp add: take_element_def op_bind_def CBS_get_bytes_eq cbs_get_append)

lemma take_element_Some:
  "take_element n t h f i s = (Some e, u) \<longleftrightarrow> (\<exists>bs. s = bs @ u \<and> length bs = n \<and>
     e = \<lparr>el_bytes = bs, el_tag = t, el_header_len = h, el_ber_found = f, el_indefinite = i\<rparr>)"
  by (auto simp: take_element_def op_elims CBS_get_bytes_eq cbs_get_Some)

lemma header_parse:
  "tag_ok t \<Longrightarrow> op_bind parse_asn1_tag (\<lambda>tag. op_bind CBS_get_u8 (\<lambda>lb. op_ret (tag, lb)))
     (der_tag t @ lb # s) = (Some (t, lb), s)"
  by (simp add: op_bind_def parse_asn1_tag_der)

lemma header_parse_Some:
  assumes "op_bind parse_asn1_tag (\<lambda>tag. op_bind CBS_get_u8 (\<lambda>lb. op_ret (tag, lb))) s = (Some (t, lb), u)"
  shows "s = der_tag t @ lb # u" and "tag_ok t"
  using assms parse_asn1_tag_Some by (auto simp: op_elims CBS_get_u8_Some)

text \<open>The two forms of the length, as the reader distinguishes them.\<close>

lemma get_element_short:
  assumes "tag_ok t" "unat lb < 128"
  shows "cbs_get_any_asn1_element ber (der_tag t @ lb # s) =
    take_element (unat lb + (length (der_tag t) + 1)) t (length (der_tag t) + 1) False False
      (der_tag t @ lb # s)"
  using assms by (simp add: cbs_get_any_asn1_element_def header_parse and_80_iff)

lemma get_element_long:
  assumes "tag_ok t" "128 \<le> unat lb" "unat lb - 128 = k" "1 \<le> k" "k \<le> 4" "length bs = k"
  shows "cbs_get_any_asn1_element False (der_tag t @ lb # bs @ s) =
    (if be_val bs < 128 \<or> be_val bs < 256 ^ (k - 1) then (None, der_tag t @ lb # bs @ s)
     else take_element (be_val bs + (length (der_tag t) + 1) + k) t (length (der_tag t) + 1 + k)
            False False (der_tag t @ lb # bs @ s))"
proof -
  have k: "unat (lb AND 0x7f) = k"
    using mod_128_hi[OF assms(2) byte_lt_256] assms(3) by (simp add: unat_and_7f)
  have v: "unat (load_be bs) = be_val bs" using assms(5,6) by (intro unat_load_be) simp
  have small: "load_be bs < 128 \<longleftrightarrow> be_val bs < 128" by (simp add: word_less_nat_alt v)
  have "(2 :: nat) ^ ((k - 1) * 8) = 256 ^ (k - 1)" by (simp add: power_mult mult.commute[of _ 8])
  then have shift: "drop_bit ((k - 1) * 8) (load_be bs) = 0 \<longleftrightarrow> be_val bs < 256 ^ (k - 1)"
    by (simp add: drop_bit_eq_0_iff v)
  show ?thesis
  proof (cases "be_val bs < 128 \<or> be_val bs < 256 ^ (k - 1)")
    case True
    then show ?thesis
      using assms k by (simp add: cbs_get_any_asn1_element_def header_parse and_80_iff
          cbs_get_u_append[of bs, unfolded assms(6)] small shift[unfolded One_nat_def] Let_def)
  next
    case False
    have "(256 :: nat) ^ k \<le> 256 ^ 4" using assms(5) by (intro power_increasing) simp_all
    then have "be_val bs + (length (der_tag t) + 1) + k < 2 ^ 64"
      using be_val_bound[of bs] length_der_tag[of t] assms(5,6) by simp
    then have "\<not> (be_val bs + (length (der_tag t) + 1) + k) mod 2 ^ 64 < be_val bs"
      by (simp only: mod_less)
    then show ?thesis
      using assms k False by (simp add: cbs_get_any_asn1_element_def header_parse and_80_iff
          cbs_get_u_append[of bs, unfolded assms(6)] small shift[unfolded One_nat_def] Let_def v)
  qed
qed

text \<open>What the reader reports of the element with tag \<open>t\<close> and contents \<open>c\<close>.\<close>

definition element_of :: "asn1_tag \<Rightarrow> byte list \<Rightarrow> asn1_element" where
  "element_of t c =
     \<lparr>el_bytes = der_element t c, el_tag = t, el_header_len = length (der_header t (length c)),
      el_ber_found = False, el_indefinite = False\<rparr>"

lemma get_element_der:
  assumes t: "tag_ok t" and c: "length c < 2 ^ 32"
  shows "CBS_get_any_asn1_element (der_element t c @ s) = (Some (element_of t c), s)"
proof (cases "length c < 128")
  case True
  have lb: "unat (byte_of (length c)) = length c" using True by (simp add: unat_byte_of)
  have "der_element t c @ s = der_tag t @ byte_of (length c) # c @ s"
    using True by (simp add: der_element_def der_header_def der_len_def)
  moreover have "length (der_element t c) = length c + (length (der_tag t) + 1)"
    using True by (simp add: der_element_def der_header_def der_len_def)
  moreover have "length (der_header t (length c)) = length (der_tag t) + 1"
    using True by (simp add: der_header_def der_len_def)
  ultimately show ?thesis
    using get_element_short[OF t, of "byte_of (length c)" False "c @ s"] True lb
      take_element_append[of "der_element t c" t _ False False s]
    by (simp add: CBS_get_any_asn1_element_def element_of_def add.commute)
next
  case False
  let ?n = "length c"
  let ?k = "len_octets ?n" let ?lb = "byte_of (128 + ?k)" let ?bs = "be_bytes ?k ?n"
  have k: "1 \<le> ?k" "?k \<le> 4" "?n < 256 ^ ?k" "256 ^ (?k - 1) \<le> ?n"
    using len_octets_bounds[of ?n] False c by simp_all
  have lb: "unat ?lb = 128 + ?k" using k by (simp add: unat_byte_of)
  have v: "be_val ?bs = ?n" using k by simp
  have split: "der_element t c @ s = der_tag t @ ?lb # ?bs @ c @ s"
    using False by (simp add: der_element_def der_header_def der_len_def)
  have hl: "length (der_header t ?n) = length (der_tag t) + 1 + ?k"
    using False by (simp add: der_header_def der_len_def)
  then have el: "length (der_element t c) = ?n + (length (der_tag t) + 1) + ?k"
    by (simp add: der_element_def)
  have "cbs_get_any_asn1_element False (der_tag t @ ?lb # ?bs @ c @ s) =
    take_element (length (der_element t c)) t (length (der_header t ?n)) False False (der_element t c @ s)"
    using get_element_long[OF t, of ?lb ?k ?bs "c @ s"] k lb v False hl el split by (simp add: ac_simps)
  then show ?thesis
    unfolding CBS_get_any_asn1_element_def split element_of_def
    by (simp only: split[symmetric] take_element_append)
qed

lemma der_element_pos: "der_element t c \<noteq> []"
  by (simp add: der_element_def der_header_def der_tag_def Let_def)

lemma append_split_at:
  assumes "pre @ rest = bs @ u" "length bs = n + length pre"
  obtains c where "rest = c @ u" "bs = pre @ c" "length c = n"
  using assms by (auto simp: append_eq_append_conv2)

lemma get_element_Some:
  assumes "CBS_get_any_asn1_element s = (Some e, u)"
  obtains t c where "s = der_element t c @ u" "tag_ok t" "length c < 2 ^ 32" "e = element_of t c"
proof -
  let ?hd = "op_bind parse_asn1_tag (\<lambda>tag. op_bind CBS_get_u8 (\<lambda>lb. op_ret (tag, lb)))"
  obtain t lb h where hd: "?hd s = (Some (t, lb), h)"
    using assms
    by (cases "?hd s"; cases "fst (?hd s)") (auto simp: CBS_get_any_asn1_element_def cbs_get_any_asn1_element_def)
  have s: "s = der_tag t @ lb # h" and t: "tag_ok t" using header_parse_Some[OF hd] by auto
  show thesis
  proof (cases "unat lb < 128")
    case True
    then have "take_element (unat lb + (length (der_tag t) + 1)) t (length (der_tag t) + 1) False False s = (Some e, u)"
      using assms get_element_short[OF t True, of False h] s by (simp add: CBS_get_any_asn1_element_def)
    then obtain bs where bs: "s = bs @ u" "length bs = unat lb + (length (der_tag t) + 1)"
      and e: "e = \<lparr>el_bytes = bs, el_tag = t, el_header_len = length (der_tag t) + 1,
                  el_ber_found = False, el_indefinite = False\<rparr>"
      by (auto simp: take_element_Some)
    obtain c where c: "h = c @ u" "bs = (der_tag t @ [lb]) @ c" "length c = unat lb"
      by (rule append_split_at[of "der_tag t @ [lb]" h bs u "unat lb"]) (use s bs in auto)
    have "der_header t (length c) = der_tag t @ [lb]"
      using True c(3) by (simp add: der_header_def der_len_def)
    with c e s t True show thesis
      by (intro that[of t c]) (auto simp: der_element_def element_of_def)
  next
    case False
    define k where "k = unat lb - 128"
    have k': "unat (lb AND 0x7f) = k"
      using False mod_128_hi[of "unat lb"] byte_lt_256[of lb] by (simp add: unat_and_7f k_def)
    have k: "1 \<le> k" "k \<le> 4"
      using assms False hd k'
      by (auto simp: CBS_get_any_asn1_element_def cbs_get_any_asn1_element_def and_80_iff Let_def
          split: if_splits)
    obtain v r where "cbs_get_u k h = (Some v, r)"
      using assms False hd k' k
      by (cases "cbs_get_u k h"; cases "fst (cbs_get_u k h)")
        (auto simp: CBS_get_any_asn1_element_def cbs_get_any_asn1_element_def and_80_iff Let_def)
    then obtain ls where ls: "h = ls @ r" "length ls = k" by (auto simp: cbs_get_u_Some)
    let ?n = "be_val ls"
    note long = get_element_long[OF t _ k_def[symmetric] k ls(2), of r]
    have run: "cbs_get_any_asn1_element False (der_tag t @ lb # ls @ r) = (Some e, u)"
      using assms s ls by (simp add: CBS_get_any_asn1_element_def)
    have n: "128 \<le> ?n" "256 ^ (k - 1) \<le> ?n"
      using run long False by (auto split: if_splits)
    obtain bs where bs: "s = bs @ u" "length bs = ?n + (length (der_tag t) + 1) + k"
      and e: "e = \<lparr>el_bytes = bs, el_tag = t, el_header_len = length (der_tag t) + 1 + k,
                  el_ber_found = False, el_indefinite = False\<rparr>"
      using run long False n s ls by (auto simp: take_element_Some)
    obtain c where c: "r = c @ u" "bs = (der_tag t @ lb # ls) @ c" "length c = ?n"
      by (rule append_split_at[of "der_tag t @ lb # ls" r bs u ?n]) (use s bs ls in auto)
    have nk: "?n < 256 ^ k" using be_val_bound[of ls] ls(2) by simp
    have lo: "len_octets ?n = k" by (rule len_octets_unique[OF n(1) nk n(2) k])
    have "be_bytes k ?n = ls" using be_bytes_be_val[of ls] ls(2) by simp
    moreover have "byte_of (128 + k) = lb" using False by (simp add: k_def)
    ultimately have "der_header t (length c) = der_tag t @ lb # ls"
      using n(1) lo c(3) by (simp add: der_header_def der_len_def)
    moreover have "?n < 2 ^ 32"
      using nk power_increasing[of k 4 "256 :: nat"] k(2) by simp
    ultimately show thesis
      using c e s t ls by (intro that[of t c]) (auto simp: der_element_def element_of_def)
  qed
qed

lemma take_element_None: "take_element n t h f i s = (None, u) \<Longrightarrow> u = s"
  by (auto simp: take_element_def op_bind_def CBS_get_bytes_eq cbs_get_def split: if_splits)

lemma get_element_None: "cbs_get_any_asn1_element ber s = (None, u) \<Longrightarrow> u = s"
  by (auto simp: cbs_get_any_asn1_element_def Let_def dest: take_element_None
      split: prod.splits option.splits if_splits)

subsection \<open>Typed getters\<close>

lemma skip_header: "CBS_skip (length (der_header t (length c))) (der_element t c) = (Some (), c)"
  by (simp add: CBS_skip_def der_element_def op_bind_def cbs_get_append)

lemma CBS_get_any_asn1_der:
  "tag_ok t \<Longrightarrow> length c < 2 ^ 32 \<Longrightarrow> CBS_get_any_asn1 (der_element t c @ s) = (Some (c, t), s)"
  by (simp add: CBS_get_any_asn1_def op_bind_def get_element_der element_of_def skip_header)

lemma CBS_get_asn1_der:
  "tag_ok t \<Longrightarrow> length c < 2 ^ 32 \<Longrightarrow> CBS_get_asn1 t (der_element t c @ s) = (Some c, s)"
  by (simp add: CBS_get_asn1_def cbs_get_asn1_def op_bind_def get_element_der element_of_def skip_header)

lemma CBS_get_asn1_element_der:
  "tag_ok t \<Longrightarrow> length c < 2 ^ 32 \<Longrightarrow>
   CBS_get_asn1_element t (der_element t c @ s) = (Some (der_element t c), s)"
  by (simp add: CBS_get_asn1_element_def cbs_get_asn1_def op_bind_def get_element_der element_of_def)

lemma CBS_get_asn1_Some:
  assumes "CBS_get_asn1 t s = (Some c, u)"
  shows "s = der_element t c @ u" and "tag_ok t" and "length c < 2 ^ 32"
proof -
  obtain e u' where e: "CBS_get_any_asn1_element s = (Some e, u')"
    and r: "op_guard (el_tag e = t) (case CBS_skip (el_header_len e) (el_bytes e) of
              (None, _) \<Rightarrow> op_fail | (Some _, out) \<Rightarrow> op_ret out) u' = (Some c, u)"
    using assms by (auto simp: CBS_get_asn1_def cbs_get_asn1_def op_elims)
  obtain t' c' where *: "s = der_element t' c' @ u'" "tag_ok t'" "length c' < 2 ^ 32" "e = element_of t' c'"
    by (rule get_element_Some[OF e])
  then have "t' = t" "c' = c" "u' = u"
    using r by (auto simp: op_elims element_of_def skip_header)
  with * show "s = der_element t c @ u" and "tag_ok t" and "length c < 2 ^ 32" by auto
qed

lemma CBS_get_any_asn1_Some:
  assumes "CBS_get_any_asn1 s = (Some (c, t), u)"
  shows "s = der_element t c @ u" and "tag_ok t" and "length c < 2 ^ 32"
proof -
  obtain e u' where e: "CBS_get_any_asn1_element s = (Some e, u')"
    and r: "(case CBS_skip (el_header_len e) (el_bytes e) of
              (None, _) \<Rightarrow> op_fail | (Some _, out) \<Rightarrow> op_ret (out, el_tag e)) u' = (Some (c, t), u)"
    using assms by (auto simp: CBS_get_any_asn1_def op_elims)
  obtain t' c' where *: "s = der_element t' c' @ u'" "tag_ok t'" "length c' < 2 ^ 32" "e = element_of t' c'"
    by (rule get_element_Some[OF e])
  then have "t' = t" "c' = c" "u' = u"
    using r by (auto simp: element_of_def skip_header)
  with * show "s = der_element t c @ u" and "tag_ok t" and "length c < 2 ^ 32" by auto
qed

text \<open>The tag that is peeked at is the tag that is read.\<close>

lemma peek_asn1_tag_der: "tag_ok t \<Longrightarrow> CBS_peek_asn1_tag t' (der_element t c @ s) \<longleftrightarrow> t = t'"
  by (simp add: CBS_peek_asn1_tag_def op_peek_def der_element_def der_header_def parse_asn1_tag_der)

end
