(* ===== verification/CBB.thy ===== *)
theory CBB
  imports Der
begin

text \<open>
  The byte-string writer of BoringSSL, \<open>crypto/bytestring/cbb.cc\<close>. A top-level \<open>CBB\<close> owns the
  buffer; \<open>cbb->child\<close> chains it to the child whose length prefix is pending, that child to its own
  child, and so on, and all of them write to the one buffer. The model keeps the buffer and that
  chain, outermost child first. An object of the chain is named by its depth: 0 is the top-level
  object and \<open>d + 1\<close> the child of the object at depth \<open>d\<close>. The memory is modelled as it is, \<open>cap\<close>
  bytes of which the first \<open>len\<close> are valid, so that every store of the code is a store at an
  index. \<open>size_t\<close> values are \<open>nat\<close> and their additions wrap at 64 bits.
\<close>

subsection \<open>Data\<close>

record cbb_buffer =
  buf :: "byte list"
  len :: nat
  cap :: nat
  can_resize :: bool
  error :: bool

record cbb_child =
  offset :: nat
  pending_len_len :: nat
  pending_is_asn1 :: bool

record cbb =
  base :: cbb_buffer
  kids :: "cbb_child list"

text \<open>
  The allocator: whether a request for \<open>n\<close> bytes succeeds, and what fresh memory holds. Every
  theorem holds for all allocators.
\<close>

record heap =
  alloc_ok :: "nat \<Rightarrow> bool"
  fresh :: "nat \<Rightarrow> byte"

definition realloc_mem :: "heap \<Rightarrow> byte list \<Rightarrow> nat \<Rightarrow> byte list option" where
  "realloc_mem h b n =
     (if alloc_ok h n then Some (take n b @ map (fresh h) [length b..<n]) else None)"

text \<open>\<open>memcpy\<close> to an index of the buffer.\<close>

definition write_at :: "nat \<Rightarrow> byte list \<Rightarrow> byte list \<Rightarrow> byte list" where
  "write_at p bs b = take p b @ bs @ drop (p + length bs) b"

definition size_add :: "nat \<Rightarrow> nat \<Rightarrow> nat" where
  "size_add a b = (a + b) mod 2 ^ 64"

subsection \<open>Initialisation\<close>

definition cbb_init :: "byte list \<Rightarrow> nat \<Rightarrow> bool \<Rightarrow> cbb" where
  "cbb_init b n resize =
     \<lparr>base = \<lparr>buf = b, len = 0, cap = n, can_resize = resize, error = False\<rparr>, kids = []\<rparr>"

definition CBB_init :: "heap \<Rightarrow> nat \<Rightarrow> cbb option" where
  "CBB_init h initial_capacity =
     (if alloc_ok h initial_capacity
      then Some (cbb_init (map (fresh h) [0..<initial_capacity]) initial_capacity True)
      else if initial_capacity > 0 then None
      else Some (cbb_init [] 0 True))"

definition CBB_init_fixed :: "byte list \<Rightarrow> cbb" where
  "CBB_init_fixed memory = cbb_init memory (length memory) False"

subsection \<open>The buffer\<close>

text \<open>On success the result is \<open>*out\<close>, the index of the reserved space.\<close>

definition cbb_buffer_reserve :: "heap \<Rightarrow> nat \<Rightarrow> (cbb_buffer, nat) op" where
  "cbb_buffer_reserve h n = (\<lambda>bs.
     let newlen = size_add (len bs) n in
     if newlen < len bs then (None, bs\<lparr>error := True\<rparr>)
     else if newlen > cap bs then
       (if \<not> can_resize bs then (None, bs\<lparr>error := True\<rparr>)
        else
          let newcap0 = size_add (cap bs) (cap bs);
              newcap = if newcap0 < cap bs \<or> newcap0 < newlen then newlen else newcap0
          in case realloc_mem h (buf bs) newcap of
               None \<Rightarrow> (None, bs\<lparr>error := True\<rparr>)
             | Some newbuf \<Rightarrow> (Some (len bs), bs\<lparr>buf := newbuf, cap := newcap\<rparr>))
     else (Some (len bs), bs))"

definition cbb_buffer_add :: "heap \<Rightarrow> nat \<Rightarrow> (cbb_buffer, nat) op" where
  "cbb_buffer_add h n = op_bind (cbb_buffer_reserve h n) (\<lambda>p bs. (Some p, bs\<lparr>len := len bs + n\<rparr>))"

text \<open>
  The loop that stores an integer, last byte first, at indices \<open>p\<close> to \<open>p + n - 1\<close>; it returns
  what is left of the integer.
\<close>

fun store_be :: "nat \<Rightarrow> nat \<Rightarrow> uint64 \<Rightarrow> byte list \<Rightarrow> uint64 \<times> byte list" where
  "store_be p 0 v b = (v, b)"
| "store_be p (Suc i) v b = store_be p i (drop_bit 8 v) (b[p + i := ucast v])"

subsection \<open>Flushing\<close>

text \<open>The length octets of an ASN.1 child: \<open>len_len\<close>, \<open>initial_length_byte\<close> and what \<open>len\<close> becomes.\<close>

definition asn1_length_form :: "nat \<Rightarrow> (nat \<times> byte \<times> nat) option" where
  "asn1_length_form n =
     (if n > 0xfffffffe then None
      else if n > 0xffffff then Some (5, 0x80 OR 4, n)
      else if n > 0xffff then Some (4, 0x80 OR 3, n)
      else if n > 0xff then Some (3, 0x80 OR 2, n)
      else if n > 0x7f then Some (2, 0x80 OR 1, n)
      else Some (1, byte_of n, 0))"

text \<open>Storing the pending length prefix of \<open>n\<close> bytes at \<open>p\<close>, and the check that it fits.\<close>

definition store_prefix :: "nat \<Rightarrow> nat \<Rightarrow> nat \<Rightarrow> (cbb_buffer, unit) op" where
  "store_prefix p n v = (\<lambda>bs.
     case store_be p n (u64_of v) (buf bs) of (rest, b) \<Rightarrow>
       (if rest \<noteq> 0 then None else Some (), bs\<lparr>buf := b\<rparr>))"

definition close_asn1 :: "heap \<Rightarrow> cbb_child \<Rightarrow> nat \<Rightarrow> nat \<Rightarrow> (cbb_buffer, unit) op" where
  "close_asn1 h child child_start n =
     (case asn1_length_form n of
        None \<Rightarrow> op_fail
      | Some (len_len, initial_length_byte, n') \<Rightarrow>
          op_bind (if len_len \<noteq> 1
                   then op_bind (cbb_buffer_add h (len_len - 1)) (\<lambda>_ bs.
                          (Some (), bs\<lparr>buf := write_at (child_start + (len_len - 1))
                                       (take n (drop child_start (buf bs))) (buf bs)\<rparr>))
                   else op_ret ()) (\<lambda>_ bs.
            store_prefix (offset child + 1) (len_len - 1) n'
              (bs\<lparr>buf := (buf bs)[offset child := initial_length_byte]\<rparr>)))"

definition close_child :: "heap \<Rightarrow> cbb_child \<Rightarrow> (cbb_buffer, unit) op" where
  "close_child h child = (\<lambda>bs.
     let child_start = size_add (offset child) (pending_len_len child) in
     if child_start < offset child \<or> len bs < child_start then (None, bs)
     else let n = len bs - child_start in
       if pending_is_asn1 child then close_asn1 h child child_start n bs
       else store_prefix (offset child) (pending_len_len child) n bs)"

text \<open>
  \<open>CBB_flush\<close> on the object whose chain of children is the list: it recurses into the child,
  then writes the child's prefix; any failure sets the error bit.
\<close>

fun flush_chain :: "heap \<Rightarrow> cbb_child list \<Rightarrow> (cbb_buffer, unit) op" where
  "flush_chain h [] = (\<lambda>bs. if error bs then (None, bs) else (Some (), bs))"
| "flush_chain h (child # chain) = (\<lambda>bs.
     if error bs then (None, bs)
     else case op_bind (flush_chain h chain) (\<lambda>_. close_child h child) bs of
            (None, bs') \<Rightarrow> (None, bs'\<lparr>error := True\<rparr>)
          | (Some _, bs') \<Rightarrow> (Some (), bs'))"

definition CBB_flush :: "heap \<Rightarrow> nat \<Rightarrow> (cbb, unit) op" where
  "CBB_flush h d = (\<lambda>st.
     if length (kids st) < d \<or> error (base st) then (None, st)
     else case flush_chain h (drop d (kids st)) (base st) of
            (r, bs) \<Rightarrow> (r, st\<lparr>base := bs, kids := take d (kids st)\<rparr>))"

definition cbb_on_error :: "nat \<Rightarrow> cbb \<Rightarrow> cbb" where
  "cbb_on_error d st = st\<lparr>base := (base st)\<lparr>error := True\<rparr>, kids := take d (kids st)\<rparr>"

text \<open>A block of calls whose failure goes to the label \<open>err\<close>.\<close>

definition or_error :: "nat \<Rightarrow> (cbb, unit) op \<Rightarrow> (cbb, unit) op" where
  "or_error d p = (\<lambda>st. case p st of (None, st') \<Rightarrow> (None, cbb_on_error d st') | r \<Rightarrow> r)"

text \<open>An operation of the buffer as an operation of the object.\<close>

definition on_base :: "(cbb_buffer, 'a) op \<Rightarrow> (cbb, 'a) op" where
  "on_base p = (\<lambda>st. case p (base st) of (r, bs) \<Rightarrow> (r, st\<lparr>base := bs\<rparr>))"

text \<open>\<open>CBB_data\<close> and \<open>CBB_len\<close>; they may only be called with no child open.\<close>

definition data_start :: "nat \<Rightarrow> cbb \<Rightarrow> nat" where
  "data_start d st = (case d of 0 \<Rightarrow> 0
     | Suc i \<Rightarrow> offset (kids st ! i) + pending_len_len (kids st ! i))"

definition CBB_len :: "nat \<Rightarrow> cbb \<Rightarrow> nat" where
  "CBB_len d st = len (base st) - data_start d st"

definition CBB_data :: "nat \<Rightarrow> cbb \<Rightarrow> byte list" where
  "CBB_data d st = take (CBB_len d st) (drop (data_start d st) (buf (base st)))"

text \<open>\<open>CBB_finish\<close> on the top-level object: the contents, and the object without its buffer.\<close>

definition CBB_finish :: "heap \<Rightarrow> nat \<Rightarrow> (cbb, byte list) op" where
  "CBB_finish h d = (if d > 0 then op_fail
     else op_bind (CBB_flush h 0) (\<lambda>_ st.
       (Some (take (len (base st)) (buf (base st))), st\<lparr>base := (base st)\<lparr>buf := []\<rparr>\<rparr>)))"

subsection \<open>Children\<close>

text \<open>On success the new child is the object at depth \<open>d + 1\<close>.\<close>

definition cbb_add_child :: "heap \<Rightarrow> nat \<Rightarrow> nat \<Rightarrow> bool \<Rightarrow> (cbb, unit) op" where
  "cbb_add_child h d len_len is_asn1 = (\<lambda>st.
     case cbb_buffer_add h len_len (base st) of
       (None, bs) \<Rightarrow> (None, st\<lparr>base := bs\<rparr>)
     | (Some p, bs) \<Rightarrow>
         (Some (), st\<lparr>base := bs\<lparr>buf := write_at p (replicate len_len 0) (buf bs)\<rparr>,
            kids := kids st @ [\<lparr>offset = len (base st), pending_len_len = len_len,
                               pending_is_asn1 = is_asn1\<rparr>]\<rparr>))"

definition cbb_add_length_prefixed :: "heap \<Rightarrow> nat \<Rightarrow> nat \<Rightarrow> (cbb, unit) op" where
  "cbb_add_length_prefixed h d len_len =
     op_bind (CBB_flush h d) (\<lambda>_. cbb_add_child h d len_len False)"

definition CBB_add_u8_length_prefixed :: "heap \<Rightarrow> nat \<Rightarrow> (cbb, unit) op" where
  "CBB_add_u8_length_prefixed h d = cbb_add_length_prefixed h d 1"

definition CBB_add_u16_length_prefixed :: "heap \<Rightarrow> nat \<Rightarrow> (cbb, unit) op" where
  "CBB_add_u16_length_prefixed h d = cbb_add_length_prefixed h d 2"

definition CBB_add_u24_length_prefixed :: "heap \<Rightarrow> nat \<Rightarrow> (cbb, unit) op" where
  "CBB_add_u24_length_prefixed h d = cbb_add_length_prefixed h d 3"

text \<open>
  \<open>CBB_discard_child\<close>: the child and its children are dropped; the contents return to what they
  were before it was opened.
\<close>

definition CBB_discard_child :: "nat \<Rightarrow> cbb \<Rightarrow> cbb" where
  "CBB_discard_child d st =
     (if length (kids st) \<le> d then st
      else st\<lparr>base := (base st)\<lparr>len := offset (kids st ! d)\<rparr>, kids := take d (kids st)\<rparr>)"

subsection \<open>Bytes and fixed-width integers\<close>

definition CBB_add_space :: "heap \<Rightarrow> nat \<Rightarrow> nat \<Rightarrow> (cbb, nat) op" where
  "CBB_add_space h d n = op_bind (CBB_flush h d) (\<lambda>_. on_base (cbb_buffer_add h n))"

definition store :: "nat \<Rightarrow> byte list \<Rightarrow> cbb \<Rightarrow> cbb" where
  "store p data st = st\<lparr>base := (base st)\<lparr>buf := write_at p data (buf (base st))\<rparr>\<rparr>"

definition CBB_add_bytes :: "heap \<Rightarrow> nat \<Rightarrow> byte list \<Rightarrow> (cbb, unit) op" where
  "CBB_add_bytes h d data =
     op_bind (CBB_add_space h d (length data)) (\<lambda>p st. (Some (), store p data st))"

definition CBB_add_zeros :: "heap \<Rightarrow> nat \<Rightarrow> nat \<Rightarrow> (cbb, unit) op" where
  "CBB_add_zeros h d n =
     op_bind (CBB_add_space h d n) (\<lambda>p st. (Some (), store p (replicate n 0) st))"

definition CBB_reserve :: "heap \<Rightarrow> nat \<Rightarrow> nat \<Rightarrow> (cbb, nat) op" where
  "CBB_reserve h d n = op_bind (CBB_flush h d) (\<lambda>_. on_base (cbb_buffer_reserve h n))"

definition CBB_did_write :: "nat \<Rightarrow> nat \<Rightarrow> (cbb, unit) op" where
  "CBB_did_write d n = (\<lambda>st.
     let newlen = size_add (len (base st)) n in
     if d < length (kids st) \<or> newlen < len (base st) \<or> newlen > cap (base st) then (None, st)
     else (Some (), st\<lparr>base := (base st)\<lparr>len := newlen\<rparr>\<rparr>))"

definition cbb_add_u :: "heap \<Rightarrow> nat \<Rightarrow> uint64 \<Rightarrow> nat \<Rightarrow> (cbb, unit) op" where
  "cbb_add_u h d v len_len = op_bind (CBB_add_space h d len_len) (\<lambda>p st.
     case store_be p len_len v (buf (base st)) of (rest, b) \<Rightarrow>
       let st' = st\<lparr>base := (base st)\<lparr>buf := b\<rparr>\<rparr>
       in if rest \<noteq> 0 then (None, cbb_on_error d st') else (Some (), st'))"

definition CBB_add_u8 :: "heap \<Rightarrow> nat \<Rightarrow> byte \<Rightarrow> (cbb, unit) op" where
  "CBB_add_u8 h d value = cbb_add_u h d (ucast value) 1"

definition CBB_add_u16 :: "heap \<Rightarrow> nat \<Rightarrow> uint16 \<Rightarrow> (cbb, unit) op" where
  "CBB_add_u16 h d value = cbb_add_u h d (ucast value) 2"

definition CBB_add_u16le :: "heap \<Rightarrow> nat \<Rightarrow> uint16 \<Rightarrow> (cbb, unit) op" where
  "CBB_add_u16le h d value = CBB_add_u16 h d (CRYPTO_bswap2 value)"

definition CBB_add_u24 :: "heap \<Rightarrow> nat \<Rightarrow> uint32 \<Rightarrow> (cbb, unit) op" where
  "CBB_add_u24 h d value = cbb_add_u h d (ucast value) 3"

definition CBB_add_u32 :: "heap \<Rightarrow> nat \<Rightarrow> uint32 \<Rightarrow> (cbb, unit) op" where
  "CBB_add_u32 h d value = cbb_add_u h d (ucast value) 4"

definition CBB_add_u32le :: "heap \<Rightarrow> nat \<Rightarrow> uint32 \<Rightarrow> (cbb, unit) op" where
  "CBB_add_u32le h d value = CBB_add_u32 h d (CRYPTO_bswap4 value)"

definition CBB_add_u64 :: "heap \<Rightarrow> nat \<Rightarrow> uint64 \<Rightarrow> (cbb, unit) op" where
  "CBB_add_u64 h d value = cbb_add_u h d value 8"

definition CBB_add_u64le :: "heap \<Rightarrow> nat \<Rightarrow> uint64 \<Rightarrow> (cbb, unit) op" where
  "CBB_add_u64le h d value = CBB_add_u64 h d (CRYPTO_bswap8 value)"

subsection \<open>ASN.1 elements\<close>

text \<open>\<open>for each x of the list: if (!f(x)) return 0;\<close>\<close>

fun op_each :: "('a \<Rightarrow> ('s, unit) op) \<Rightarrow> 'a list \<Rightarrow> ('s, unit) op" where
  "op_each f [] = op_ret ()"
| "op_each f (x # xs) = op_bind (f x) (\<lambda>_. op_each f xs)"

fun base128_len :: "uint64 \<Rightarrow> nat \<Rightarrow> nat" where
  "base128_len copy 0 = 0"
| "base128_len copy (Suc fuel) = (if copy > 0 then 1 + base128_len (drop_bit 7 copy) fuel else 0)"

definition base128_digit :: "uint64 \<Rightarrow> nat \<Rightarrow> byte" where
  "base128_digit v i =
     (let b = ucast (drop_bit (7 * i) v) AND 0x7f in if i \<noteq> 0 then b OR 0x80 else b)"

text \<open>Ten shifts by seven bits empty a 64-bit integer: the counting loop needs no more fuel.\<close>

definition add_base128_integer :: "heap \<Rightarrow> nat \<Rightarrow> uint64 \<Rightarrow> (cbb, unit) op" where
  "add_base128_integer h d v =
     (let n = base128_len v 10; len_len = if n = 0 then 1 else n
      in op_each (\<lambda>i. CBB_add_u8 h d (base128_digit v i)) (rev [0..<len_len]))"

definition CBB_add_asn1 :: "heap \<Rightarrow> nat \<Rightarrow> asn1_tag \<Rightarrow> (cbb, unit) op" where
  "CBB_add_asn1 h d tag = op_bind (CBB_flush h d) (\<lambda>_.
     let tag_bits = (ucast (drop_bit CBS_ASN1_TAG_SHIFT tag) AND 0xe0) :: byte;
         tag_number = tag AND CBS_ASN1_TAG_NUMBER_MASK
     in op_bind (if tag_number \<ge> 0x1f
                 then op_bind (CBB_add_u8 h d (tag_bits OR 0x1f)) (\<lambda>_.
                        add_base128_integer h d (ucast tag_number))
                 else CBB_add_u8 h d (tag_bits OR ucast tag_number)) (\<lambda>_.
          cbb_add_child h d 1 True))"

fun uint64_loop :: "heap \<Rightarrow> nat \<Rightarrow> uint64 \<Rightarrow> bool \<Rightarrow> nat list \<Rightarrow> (cbb, bool) op" where
  "uint64_loop h d value started [] = op_ret started"
| "uint64_loop h d value started (i # is) =
     (let b = (ucast (drop_bit (8 * (7 - i)) value AND 0xff) :: byte) in
      if \<not> started \<and> b = 0 then uint64_loop h d value False is
      else op_bind (if \<not> started \<and> b AND 0x80 \<noteq> 0 then CBB_add_u8 h d 0 else op_ret ()) (\<lambda>_.
             op_bind (CBB_add_u8 h d b) (\<lambda>_. uint64_loop h d value True is)))"

definition CBB_add_asn1_uint64_with_tag :: "heap \<Rightarrow> nat \<Rightarrow> uint64 \<Rightarrow> asn1_tag \<Rightarrow> (cbb, unit) op" where
  "CBB_add_asn1_uint64_with_tag h d value tag =
     op_bind (or_error d (op_bind (CBB_add_asn1 h d tag) (\<lambda>_.
       op_bind (uint64_loop h (d + 1) value False [0..<8]) (\<lambda>started.
         if \<not> started then CBB_add_u8 h (d + 1) 0 else op_ret ())))) (\<lambda>_.
     CBB_flush h d)"

definition CBB_add_asn1_uint64 :: "heap \<Rightarrow> nat \<Rightarrow> uint64 \<Rightarrow> (cbb, unit) op" where
  "CBB_add_asn1_uint64 h d value = CBB_add_asn1_uint64_with_tag h d value CBS_ASN1_INTEGER"

text \<open>The bytes of an integer in memory, least significant first, and the loop over sign bytes.\<close>

definition le_bytes8 :: "uint64 \<Rightarrow> byte list" where
  "le_bytes8 v = map (\<lambda>i. ucast (drop_bit (8 * i) v)) [0..<8]"

fun int64_start :: "byte list \<Rightarrow> nat \<Rightarrow> nat" where
  "int64_start bytes 0 = 0"
| "int64_start bytes (Suc n) =
     (if bytes ! Suc n = 0xff \<and> bytes ! n AND 0x80 \<noteq> 0 then int64_start bytes n else Suc n)"

definition CBB_add_asn1_int64_with_tag :: "heap \<Rightarrow> nat \<Rightarrow> uint64 \<Rightarrow> asn1_tag \<Rightarrow> (cbb, unit) op" where
  "CBB_add_asn1_int64_with_tag h d value tag =
     (if sint value \<ge> 0 then CBB_add_asn1_uint64_with_tag h d value tag
      else
        let bytes = le_bytes8 value; start = int64_start bytes 7
        in op_bind (or_error d (op_bind (CBB_add_asn1 h d tag) (\<lambda>_.
             op_each (\<lambda>i. CBB_add_u8 h (d + 1) (bytes ! i)) (rev [0..<start + 1])))) (\<lambda>_.
           CBB_flush h d))"

definition CBB_add_asn1_int64 :: "heap \<Rightarrow> nat \<Rightarrow> uint64 \<Rightarrow> (cbb, unit) op" where
  "CBB_add_asn1_int64 h d value = CBB_add_asn1_int64_with_tag h d value CBS_ASN1_INTEGER"

definition CBB_add_asn1_octet_string :: "heap \<Rightarrow> nat \<Rightarrow> byte list \<Rightarrow> (cbb, unit) op" where
  "CBB_add_asn1_octet_string h d data =
     or_error d (op_bind (CBB_add_asn1 h d CBS_ASN1_OCTETSTRING) (\<lambda>_.
       op_bind (CBB_add_bytes h (d + 1) data) (\<lambda>_. CBB_flush h d)))"

definition CBB_add_asn1_bool :: "heap \<Rightarrow> nat \<Rightarrow> bool \<Rightarrow> (cbb, unit) op" where
  "CBB_add_asn1_bool h d value =
     or_error d (op_bind (CBB_add_asn1 h d CBS_ASN1_BOOLEAN) (\<lambda>_.
       op_bind (CBB_add_u8 h (d + 1) (if value then 0xff else 0)) (\<lambda>_. CBB_flush h d)))"

subsection \<open>Object identifiers from text\<close>

text \<open>\<open>dot\<close> may only be missing at the end of the text, and nothing may end with it.\<close>

definition parse_dotted_decimal :: "(cbs, uint64) op" where
  "parse_dotted_decimal = op_bind CBS_get_u64_decimal (\<lambda>out s.
     case CBS_get_u8 s of
       (None, s') \<Rightarrow> (Some out, s')
     | (Some dot, s') \<Rightarrow> (if dot = 0x2e \<and> length s' > 0 then Some out else None, s'))"

lemma u64_decimal_loop_shrinks:
  "u64_decimal_loop v seen s = (Some r, t) \<Longrightarrow> length t \<le> length s \<and> (\<not> seen \<longrightarrow> length t < length s)"
  by (induction v seen s rule: u64_decimal_loop.induct) (auto split: if_splits)

lemma parse_dotted_decimal_shrinks:
  assumes "parse_dotted_decimal s = (Some v, t)" shows "length t < length s"
proof -
  obtain u where u: "u64_decimal_loop 0 False s = (Some v, u)" "length t \<le> length u"
    using assms
    by (auto simp: parse_dotted_decimal_def CBS_get_u64_decimal_def op_bind_def CBS_get_u8_def
        cbs_get_def split: prod.splits option.splits if_splits)
  then show ?thesis using u64_decimal_loop_shrinks[OF u(1)] by simp
qed

text \<open>The loop over the remaining components of the text \<open>s\<close>.\<close>

function oid_components :: "heap \<Rightarrow> nat \<Rightarrow> cbs \<Rightarrow> (cbb, unit) op" where
  "oid_components h d s =
     (if length s = 0 then op_ret ()
      else case parse_dotted_decimal s of
             (None, _) \<Rightarrow> op_fail
           | (Some a, t) \<Rightarrow> op_bind (add_base128_integer h d a) (\<lambda>_. oid_components h d t))"
  by pat_completeness auto

termination
  by (relation "measure (\<lambda>(h, d, s). length s)") (auto intro: parse_dotted_decimal_shrinks[OF sym])

declare oid_components.simps [simp del]

definition CBB_add_asn1_oid_from_text :: "heap \<Rightarrow> nat \<Rightarrow> byte list \<Rightarrow> (cbb, unit) op" where
  "CBB_add_asn1_oid_from_text h d text = op_bind (CBB_flush h d) (\<lambda>_.
     case op_bind parse_dotted_decimal (\<lambda>a. op_bind parse_dotted_decimal (\<lambda>b. op_ret (a, b))) text of
       (None, _) \<Rightarrow> op_fail
     | (Some (a, b), s) \<Rightarrow>
         if a > 2 \<or> (a < 2 \<and> b > 39) \<or> b > UINT64_MAX - 80 then op_fail
         else op_bind (add_base128_integer h d (40 * a + b)) (\<lambda>_. oid_components h d s))"

subsection \<open>SET OF\<close>

text \<open>The sign of \<open>memcmp\<close> on two equally long strings, and the comparison of two elements.\<close>

fun memcmp :: "byte list \<Rightarrow> byte list \<Rightarrow> int" where
  "memcmp (a # as) (b # bs) = (if a = b then memcmp as bs else if a < b then -1 else 1)"
| "memcmp _ _ = 0"

definition compare_set_of_element :: "cbs \<Rightarrow> cbs \<Rightarrow> int" where
  "compare_set_of_element a b =
     (let min_len = min (length a) (length b); ret = memcmp (take min_len a) (take min_len b)
      in if ret \<noteq> 0 then ret else if length a = length b then 0 else if length a < length b then -1 else 1)"

text \<open>
  \<open>qsort\<close> promises a sorted rearrangement; strings that compare equal are equal, so the result does
  not depend on how it sorts. It is modelled by insertion.
\<close>

fun qsort_insert :: "('a \<Rightarrow> 'a \<Rightarrow> int) \<Rightarrow> 'a \<Rightarrow> 'a list \<Rightarrow> 'a list" where
  "qsort_insert cmp x [] = [x]"
| "qsort_insert cmp x (y # ys) = (if cmp x y \<le> 0 then x # y # ys else y # qsort_insert cmp x ys)"

definition qsort :: "('a \<Rightarrow> 'a \<Rightarrow> int) \<Rightarrow> 'a list \<Rightarrow> 'a list" where
  "qsort cmp xs = foldr (qsort_insert cmp) xs []"

text \<open>The loop \<open>while (CBS_len(&cbs) != 0)\<close> over the elements; \<open>None\<close> when one does not parse.\<close>

lemma el_bytes_shrinks: "CBS_get_any_asn1_element s = (Some e, t) \<Longrightarrow> length t < length s"
  by (erule get_element_Some) (simp add: der_element_pos)

function set_of_children :: "cbs \<Rightarrow> cbs list option" where
  "set_of_children s =
     (if length s = 0 then Some []
      else case CBS_get_any_asn1_element s of
             (None, _) \<Rightarrow> None
           | (Some e, t) \<Rightarrow> map_option (Cons (el_bytes e)) (set_of_children t))"
  by pat_completeness auto

termination
  by (relation "measure length") (auto intro: el_bytes_shrinks[OF sym])

declare set_of_children.simps [simp del]

text \<open>\<open>sizeof(CBS)\<close> is 16: a pointer and a length.\<close>

definition CBB_flush_asn1_set_of :: "heap \<Rightarrow> nat \<Rightarrow> (cbb, unit) op" where
  "CBB_flush_asn1_set_of h d = op_bind (CBB_flush h d) (\<lambda>_ st.
     case set_of_children (CBB_data d st) of
       None \<Rightarrow> (None, st)
     | Some children \<Rightarrow>
         if length children < 2 then (Some (), st)
         else if \<not> alloc_ok h (CBB_len d st) \<or> \<not> alloc_ok h (length children * 16) then (None, st)
         else (Some (), snd (foldl (\<lambda>(off, st) c. (off + length c, store off c st))
                 (data_start d st, st) (qsort compare_set_of_element children))))"

end
