(* ===== verification/Codec.thy ===== *)
theory Codec
  imports Prelude
begin

text \<open>
  The contract between a writer and a reader of one kind of value: reading what was written
  returns the value and leaves the rest, and nothing else is accepted. Every wire format of the
  library that has a single encoding per value satisfies it, and what a protocol needs of such a
  format (no encoding is a prefix of another, a sequence of values is read back as written) is
  proved once here.
\<close>

locale codec =
  fixes valid :: "'a \<Rightarrow> bool" and enc :: "'a \<Rightarrow> byte list" and dec :: "(byte list, 'a) op"
  assumes dec_enc: "valid v \<Longrightarrow> dec (enc v @ s) = (Some v, s)"
    and dec_valid: "dec s = (Some v, t) \<Longrightarrow> valid v"
    and dec_bytes: "dec s = (Some v, t) \<Longrightarrow> s = enc v @ t"
begin

lemma dec_iff: "dec s = (Some v, t) \<longleftrightarrow> valid v \<and> s = enc v @ t"
  using dec_enc dec_valid dec_bytes by metis

lemma enc_prefix_free: "valid v \<Longrightarrow> valid w \<Longrightarrow> enc v @ s = enc w @ t \<Longrightarrow> v = w \<and> s = t"
  by (metis dec_enc option.inject prod.inject)

lemma enc_inj: "valid v \<Longrightarrow> valid w \<Longrightarrow> enc v = enc w \<Longrightarrow> v = w"
  using enc_prefix_free[of v w "[]" "[]"] by simp

text \<open>Reading and then continuing with \<open>f\<close>, on what was written.\<close>

lemma bind_enc: "valid v \<Longrightarrow> op_bind dec f (enc v @ s) = f v s"
  by (simp add: op_bind_def dec_enc)

end

text \<open>Formats whose encodings are never empty: a sequence of values needs no separators.\<close>

locale framed_codec = codec +
  assumes enc_nonempty: "valid v \<Longrightarrow> enc v \<noteq> []"
begin

lemma dec_shrinks: "dec s = (Some v, t) \<Longrightarrow> length t < length s"
  using dec_valid dec_bytes enc_nonempty by (metis length_append length_greater_0_conv less_add_same_cancel2)

lemma enc_list_inj:
  "list_all valid vs \<Longrightarrow> list_all valid ws \<Longrightarrow> concat (map enc vs) = concat (map enc ws) \<Longrightarrow> vs = ws"
proof (induction vs arbitrary: ws)
  case Nil
  then show ?case using enc_nonempty by (cases ws) auto
next
  case (Cons v vs)
  then obtain w ws' where ws: "ws = w # ws'" using enc_nonempty by (cases ws) auto
  then have "v = w \<and> concat (map enc vs) = concat (map enc ws')"
    using Cons.prems by (intro enc_prefix_free) auto
  then show ?case using Cons ws by auto
qed

end

text \<open>A codec run on the values of another type, through an injection of its values.\<close>

lemma codec_map:
  assumes "codec valid enc dec" and inv: "\<And>a. valid' a \<Longrightarrow> valid (g a) \<and> f (g a) = a"
    and inv': "\<And>b. valid b \<Longrightarrow> valid' (f b) \<and> g (f b) = b"
  shows "codec valid' (\<lambda>a. enc (g a)) (op_bind dec (\<lambda>b. op_ret (f b)))"
  by (rule codec.intro)
    (auto simp: op_bind_def codec.dec_enc[OF assms(1)] codec.dec_iff[OF assms(1)] inv inv'
      split: prod.splits option.splits)

end
