(* ===== verification/CBS_Codec.thy ===== *)
theory CBS_Codec
  imports Der Codec
begin

text \<open>
  The readers of \<open>cbs.cc\<close> as codecs: fixed-width integers, length-prefixed strings, DER elements
  and the DER types built on them. Each interpretation says that the reader returns what the
  encoding holds, consumes exactly that, and accepts no other bytes.
\<close>

subsection \<open>Fixed-width integers\<close>

lemma codec_get_u:
  assumes "n \<le> 8"
  shows "codec (\<lambda>v. unat v < 256 ^ n) (\<lambda>v. be_bytes n (unat v)) (cbs_get_u n)"
proof (rule codec.intro)
  fix v :: uint64 and s
  assume "unat v < 256 ^ n"
  then have "unat (load_be (be_bytes n (unat v))) = unat v"
    using assms by (subst unat_load_be) simp_all
  then show "cbs_get_u n (be_bytes n (unat v) @ s) = (Some v, s)"
    using cbs_get_u_append[of "be_bytes n (unat v)" s] by (simp add: word_unat_eq_iff)
next
  fix s v t
  assume "cbs_get_u n s = (Some v, t)"
  then obtain bs where bs: "s = bs @ t" "length bs = n" "v = load_be bs" by (auto simp: cbs_get_u_Some)
  then have v: "unat v = be_val bs" using assms by (simp add: unat_load_be)
  then show "unat v < 256 ^ n" using be_val_bound[of bs] bs by simp
  show "s = be_bytes n (unat v) @ t" using bs v be_bytes_be_val[of bs] by simp
qed

lemma codec_get_word:
  assumes "n * 8 = LENGTH('a::len)" "n \<le> 8"
  shows "codec (\<lambda>v. True) (\<lambda>v :: 'a word. be_bytes n (unat v)) (op_bind (cbs_get_u n) (\<lambda>v. op_ret (ucast v)))"
proof -
  have p: "(256 :: nat) ^ n = 2 ^ LENGTH('a)" by (simp add: assms(1)[symmetric] power_mult mult.commute[of n])
  have le: "LENGTH('a) \<le> 64" using assms by simp
  have up: "unat (ucast v :: uint64) = unat v" for v :: "'a word"
  proof -
    have "unat v < 2 ^ 64"
      by (rule order.strict_trans2[OF unsigned_less power_increasing[OF le]]) simp
    then show ?thesis by (simp add: unsigned_ucast_eq take_bit_nat_eq_self)
  qed
  have down: "(ucast (ucast v :: 'a word) :: uint64) = v" if "unat v < 256 ^ n" for v
    using that by (simp add: word_unat_eq_iff up p) (simp add: unsigned_ucast_eq take_bit_nat_eq_self)
  have "codec (\<lambda>v. True) (\<lambda>v :: 'a word. be_bytes n (unat (ucast v :: uint64)))
      (op_bind (cbs_get_u n) (\<lambda>v. op_ret (ucast v)))"
  proof (rule codec_map[OF codec_get_u[OF assms(2)]])
    fix a :: "'a word"
    have "unat (ucast (ucast a :: uint64) :: 'a word) = unat a"
      by (subst unsigned_ucast_eq) (simp add: up take_bit_nat_eq_self)
    then show "unat (ucast a :: uint64) < 256 ^ n \<and> ucast (ucast a :: uint64) = a"
      by (simp add: up p word_unat_eq_iff)
  qed (simp add: down)
  then show ?thesis by (simp add: up)
qed

interpretation u16: codec "\<lambda>v. True" "\<lambda>v. be_bytes 2 (unat v)" CBS_get_u16
  unfolding CBS_get_u16_def by (rule codec_get_word) simp_all

interpretation u32: codec "\<lambda>v. True" "\<lambda>v. be_bytes 4 (unat v)" CBS_get_u32
  unfolding CBS_get_u32_def by (rule codec_get_word) simp_all

interpretation u64: codec "\<lambda>v. unat v < 256 ^ 8" "\<lambda>v. be_bytes 8 (unat v)" CBS_get_u64
  unfolding CBS_get_u64_def by (rule codec_get_u) simp

interpretation u8: framed_codec "\<lambda>v. True" "\<lambda>v. [v]" CBS_get_u8
  by unfold_locales (auto simp: CBS_get_u8_Some)

lemma ucast_u24: "unat v < 256 ^ 3 \<Longrightarrow> (ucast (ucast (v :: uint64) :: uint32) :: uint64) = v"
  by (simp add: word_unat_eq_iff unsigned_ucast_eq unsigned_take_bit_eq take_bit_nat_eq_self)

lemma unat_ucast_32_64: "unat (ucast (v :: uint32) :: uint64) = unat v"
  using unsigned_less[of v, where ?'a = nat] by (simp add: unsigned_ucast_eq take_bit_nat_eq_self)

lemma unat_ucast_64_32: "unat v < 2 ^ 32 \<Longrightarrow> unat (ucast (v :: uint64) :: uint32) = unat v"
  by (simp add: unsigned_ucast_eq take_bit_nat_eq_self)

lemma codec_u24: "codec (\<lambda>v. unat v < 256 ^ 3) (\<lambda>v. be_bytes 3 (unat v)) CBS_get_u24"
proof -
  have "codec (\<lambda>v :: uint32. unat v < 256 ^ 3) (\<lambda>v. be_bytes 3 (unat (ucast v :: uint64))) CBS_get_u24"
    unfolding CBS_get_u24_def
    by (rule codec_map[OF codec_get_u])
      (auto simp: unat_ucast_32_64 unat_ucast_64_32 ucast_u24 word_unat_eq_iff)
  then show ?thesis by (simp add: unat_ucast_32_64)
qed

interpretation u24: codec "\<lambda>v. unat v < 256 ^ 3" "\<lambda>v. be_bytes 3 (unat v)" CBS_get_u24
  by (rule codec_u24)

subsection \<open>Length-prefixed strings\<close>

definition prefixed :: "nat \<Rightarrow> byte list \<Rightarrow> byte list" where
  "prefixed n c = be_bytes n (length c) @ c"

lemma codec_prefixed:
  assumes "1 \<le> n" "n \<le> 8"
  shows "framed_codec (\<lambda>c. length c < 256 ^ n) (prefixed n) (cbs_get_length_prefixed n)"
proof -
  note u = codec_get_u[OF assms(2)]
  have p: "(256 :: nat) ^ n \<le> 2 ^ 64"
    using power_increasing[OF assms(2), of "256 :: nat"] by simp
  show ?thesis
  proof (intro framed_codec.intro codec.intro framed_codec_axioms.intro)
    fix c :: "byte list" and s
    assume c: "length c < 256 ^ n"
    then have l: "unat (u64_of (length c)) = length c" using p by (simp add: unat_u64_of)
    then show "cbs_get_length_prefixed n (prefixed n c @ s) = (Some c, s)"
      using codec.bind_enc[OF u, of "u64_of (length c)" "\<lambda>len. cbs_get (unat len)" "c @ s"] c
      by (simp add: cbs_get_length_prefixed_def prefixed_def CBS_get_bytes_eq cbs_get_append)
    show "prefixed n c \<noteq> []"
      using assms(1) length_be_bytes[of n "length c"] by (auto simp: prefixed_def simp del: length_be_bytes)
  next
    fix s c t
    assume "cbs_get_length_prefixed n s = (Some c, t)"
    then obtain v u' where v: "cbs_get_u n s = (Some v, u')" "u' = c @ t" "length c = unat v"
      by (auto simp: cbs_get_length_prefixed_def op_elims CBS_get_bytes_eq cbs_get_Some)
    then show "length c < 256 ^ n" "s = prefixed n c @ t"
      by (auto simp: codec.dec_iff[OF u] prefixed_def)
  qed
qed

interpretation u8_prefixed: framed_codec "\<lambda>c. length c < 256 ^ 1" "prefixed 1" CBS_get_u8_length_prefixed
  unfolding CBS_get_u8_length_prefixed_def by (rule codec_prefixed) simp_all

interpretation u16_prefixed: framed_codec "\<lambda>c. length c < 256 ^ 2" "prefixed 2" CBS_get_u16_length_prefixed
  unfolding CBS_get_u16_length_prefixed_def by (rule codec_prefixed) simp_all

interpretation u24_prefixed: framed_codec "\<lambda>c. length c < 256 ^ 3" "prefixed 3" CBS_get_u24_length_prefixed
  unfolding CBS_get_u24_length_prefixed_def by (rule codec_prefixed) simp_all

subsection \<open>DER elements\<close>

interpretation asn1: framed_codec "\<lambda>(c, t). tag_ok t \<and> length c < 2 ^ 32" "\<lambda>(c, t). der_element t c"
  CBS_get_any_asn1
proof (unfold_locales, goal_cases)
  case (1 v s) then show ?case by (auto simp: CBS_get_any_asn1_der)
next
  case (2 s v t) then show ?case by (cases v) (auto dest: CBS_get_any_asn1_Some)
next
  case (3 s v t) then show ?case by (cases v) (auto dest: CBS_get_any_asn1_Some)
next
  case (4 v) then show ?case by (cases v) (simp add: der_element_pos)
qed

lemma codec_asn1:
  "codec (\<lambda>c. tag_ok t \<and> length c < 2 ^ 32) (der_element t) (CBS_get_asn1 t)"
  by (rule codec.intro) (auto simp: CBS_get_asn1_der dest: CBS_get_asn1_Some)

subsection \<open>INTEGER\<close>

text \<open>The number of contents octets of a non-negative integer, and the octets.\<close>

fun uint_len :: "nat \<Rightarrow> nat" where
  "uint_len n = (if n < 128 then 1 else Suc (uint_len (n div 256)))"

declare uint_len.simps [simp del]

definition uint_contents :: "nat \<Rightarrow> byte list" where
  "uint_contents n = be_bytes (uint_len n) n"

lemma uint_len_small: "n < 128 \<Longrightarrow> uint_len n = 1"
  by (simp add: uint_len.simps)

lemma uint_len_eqI:
  "n < 128 * 256 ^ k \<Longrightarrow> k = 0 \<or> 128 * 256 ^ (k - 1) \<le> n \<Longrightarrow> uint_len n = Suc k"
proof (induction k arbitrary: n)
  case 0
  then show ?case by (simp add: uint_len_small)
next
  case (Suc k)
  have "(1 :: nat) \<le> 256 ^ k" by simp
  then have n: "128 \<le> n" using Suc.prems(2) by (simp add: le_trans[of 128 "128 * 256 ^ k" n])
  have "uint_len (n div 256) = Suc k"
  proof (rule Suc.IH)
    show "n div 256 < 128 * 256 ^ k" using Suc.prems(1) by (simp add: less_mult_imp_div_less ac_simps)
    show "k = 0 \<or> 128 * 256 ^ (k - 1) \<le> n div 256"
      using Suc.prems(2) by (cases k) (simp_all add: less_eq_div_iff_mult_less_eq ac_simps)
  qed
  then show ?case using n by (subst uint_len.simps) simp
qed

lemma uint_len_bound: "n < 128 * 256 ^ (uint_len n - 1)"
proof (induction n rule: uint_len.induct)
  case (1 n)
  show ?case
  proof (cases "n < 128")
    case False
    have "1 \<le> uint_len (n div 256)" by (subst uint_len.simps) simp
    then have "256 * 256 ^ (uint_len (n div 256) - 1) = (256 :: nat) ^ uint_len (n div 256)"
      by (metis One_nat_def Suc_le_D diff_Suc_Suc diff_zero power_Suc)
    then show ?thesis using 1[OF False] False by (subst uint_len.simps) simp
  qed (simp add: uint_len_small)
qed

lemma uint_len_pos: "1 \<le> uint_len n"
  by (subst uint_len.simps) simp

lemma uint_len_le: "n < 128 * 256 ^ k \<Longrightarrow> uint_len n \<le> Suc k"
proof (induction k arbitrary: n)
  case 0
  then show ?case by (simp add: uint_len_small)
next
  case (Suc k)
  have "n div 256 < 128 * 256 ^ k" using Suc.prems by (simp add: less_mult_imp_div_less ac_simps)
  then show ?case using Suc.IH by (subst uint_len.simps) simp
qed

lemma be_val_uint_contents [simp]: "be_val (uint_contents n) = n"
proof -
  have "(256 :: nat) ^ uint_len n = 256 * 256 ^ (uint_len n - 1)"
    using uint_len_pos[of n] by (metis Suc_diff_1 less_eq_Suc_le One_nat_def power_Suc)
  then have "n < 256 ^ uint_len n" using uint_len_bound[of n] by simp
  then show ?thesis by (simp add: uint_contents_def)
qed

lemma length_uint_contents [simp]: "length (uint_contents n) = uint_len n"
  by (simp add: uint_contents_def)

text \<open>The check on the first two octets says that the octets are the shortest for their value.\<close>

lemma unsigned_integer_contents: "CBS_is_unsigned_asn1_integer bs \<longleftrightarrow> bs = uint_contents (be_val bs)"
proof
  assume ok: "CBS_is_unsigned_asn1_integer bs"
  have "uint_len (be_val bs) = length bs"
  proof (cases bs)
    case (Cons b bs')
    note outer = this
    have b: "unat b < 128"
      using ok Cons by (auto simp: CBS_is_unsigned_asn1_integer_def CBS_is_valid_asn1_integer_def
          and_80_iff Let_def split: list.splits if_splits)
    have hi: "be_val bs < 128 * 256 ^ length bs'"
    proof -
      have "be_val bs < 256 ^ length bs' * unat b + 256 ^ length bs'"
        using be_val_bound[of bs'] Cons by (simp add: be_val_Cons)
      also have "\<dots> \<le> 256 ^ length bs' * 128" using b by (metis Suc_leI add.commute mult_Suc_right mult_le_mono2)
      finally show ?thesis by simp
    qed
    have lo: "length bs' = 0 \<or> 128 * 256 ^ (length bs' - 1) \<le> be_val bs"
    proof (cases bs')
      case (Cons c cs)
      have "b \<noteq> 0 \<or> 128 \<le> unat c"
        using ok outer Cons by (auto simp: CBS_is_unsigned_asn1_integer_def
            CBS_is_valid_asn1_integer_def and_80_iff Let_def split: if_splits)
      then have "128 \<le> 256 * unat b + unat c" by (auto simp: unat_eq_0[symmetric] simp del: unat_eq_0)
      then have "128 * 256 ^ length cs \<le> (256 * unat b + unat c) * 256 ^ length cs" by (rule mult_le_mono1)
      then show ?thesis using outer Cons by (simp add: be_val_Cons algebra_simps)
    qed simp
    show ?thesis using uint_len_eqI[OF hi lo] Cons by simp
  qed (use ok in \<open>simp add: CBS_is_unsigned_asn1_integer_def CBS_is_valid_asn1_integer_def\<close>)
  then show "bs = uint_contents (be_val bs)" by (metis be_bytes_be_val uint_contents_def)
next
  assume eq: "bs = uint_contents (be_val bs)"
  then have len: "length bs = uint_len (be_val bs)" by (metis length_uint_contents)
  then obtain b bs' where bs: "bs = b # bs'" using uint_len_pos[of "be_val bs"] by (cases bs) auto
  have "be_val bs < 128 * 256 ^ length bs'" using uint_len_bound[of "be_val bs"] len[symmetric] bs by simp
  then have b: "unat b < 128"
    using bs by (metis add_lessD1 be_val_Cons mult.commute mult_less_cancel2)
  have "\<not> (b = 0 \<and> unat c < 128)" if c: "bs' = c # cs" for c cs
  proof
    assume small: "b = 0 \<and> unat c < 128"
    have "be_val bs = 256 ^ length cs * unat c + be_val cs" using small bs c by (simp add: be_val_Cons)
    also have "\<dots> < 256 ^ length cs * Suc (unat c)" using be_val_bound[of cs] by simp
    also have "\<dots> \<le> 256 ^ length cs * 128" using small by (intro mult_le_mono2) simp
    finally have hi: "be_val bs < 128 * 256 ^ length cs" by simp
    show False using uint_len_le[OF hi] len bs c by simp
  qed
  then show "CBS_is_unsigned_asn1_integer bs"
    using b bs by (auto simp: CBS_is_unsigned_asn1_integer_def CBS_is_valid_asn1_integer_def
        and_80_iff Let_def split: list.splits)
qed

lemma load_u64_checked_eq:
  "load_u64_checked out bs =
     (if 256 ^ length bs * unat out + be_val bs < 2 ^ 64
      then Some (u64_of (256 ^ length bs * unat out + be_val bs)) else None)"
proof (induction bs arbitrary: out)
  case Nil
  then show ?case using u64_lt[of out] by simp
next
  case (Cons b bs)
  let ?n = "length bs" and ?out' = "push_bit 8 out OR ucast b :: uint64"
  have sum: "256 ^ length (b # bs) * unat out + be_val (b # bs) =
      256 ^ ?n * (256 * unat out + unat b) + be_val bs"
    by (simp add: be_val_Cons algebra_simps)
  show ?case
  proof (cases "unat out < 2 ^ 56")
    case True
    have "unat ?out' = 256 * unat out + unat b"
      using True byte_lt_256[of b] unfolding shift_or_byte
      by (simp add: unat_word_ariths unsigned_ucast_eq take_bit_nat_eq_self)
    then show ?thesis using Cons.IH[of ?out'] True sum by (simp add: drop_bit_eq_0_iff)
  next
    case False
    have "1 * 2 ^ 64 \<le> 256 ^ ?n * (256 * unat out + unat b)"
      using False by (intro mult_le_mono) auto
    then show ?thesis using False unfolding sum by (simp add: drop_bit_eq_0_iff)
  qed
qed

lemma codec_asn1_uint64:
  "codec (\<lambda>v. True) (\<lambda>v. der_element CBS_ASN1_INTEGER (uint_contents (unat v))) CBS_get_asn1_uint64"
proof (rule codec.intro)
  fix v :: uint64 and s
  have "length (uint_contents (unat v)) < 2 ^ 32"
    using uint_len_le[of "unat v" 8] u64_lt[of v] by simp
  then show "CBS_get_asn1_uint64 (der_element CBS_ASN1_INTEGER (uint_contents (unat v)) @ s) = (Some v, s)"
    using u64_lt[of v]
    by (simp add: CBS_get_asn1_uint64_def op_bind_def CBS_get_asn1_der tag_ok_def
        unsigned_integer_contents load_u64_checked_eq)
next
  fix s t and v :: uint64
  assume "CBS_get_asn1_uint64 s = (Some v, t)"
  then obtain c where c: "CBS_get_asn1 CBS_ASN1_INTEGER s = (Some c, t)" "CBS_is_unsigned_asn1_integer c"
    "load_u64_checked 0 c = Some v"
    by (auto simp: CBS_get_asn1_uint64_def op_elims split: option.splits)
  then have "unat v = be_val c"
    by (auto simp: load_u64_checked_eq unat_u64_of split: if_splits)
  then show "s = der_element CBS_ASN1_INTEGER (uint_contents (unat v)) @ t"
    using CBS_get_asn1_Some(1)[OF c(1)] c(2) unsigned_integer_contents by simp
qed simp

text \<open>Negative integers: the octets of the complement, complemented.\<close>

definition int_contents :: "int \<Rightarrow> byte list" where
  "int_contents v = (if v \<ge> 0 then uint_contents (nat v) else map (\<lambda>b. NOT b) (uint_contents (nat (- v - 1))))"

lemma unat_not_byte: "unat (NOT (b :: byte)) = 255 - unat b"
  using unat_not[of b] by simp

lemma be_val_not: "be_val (map (\<lambda>b. NOT b) bs) + be_val bs = 256 ^ length bs - 1"
proof (induction bs)
  case (Cons b bs)
  have "unat (NOT b) + unat b = 255" using byte_lt_256[of b] by (simp add: unat_not_byte)
  then have "256 ^ length bs * unat (NOT b) + 256 ^ length bs * unat b = 256 ^ length bs * 255"
    by (metis distrib_left)
  moreover have "(1 :: nat) \<le> 256 ^ length bs" by simp
  ultimately show ?case using Cons by (simp add: be_val_Cons)
qed simp

lemma not_byte_iffs:
  "NOT (b :: byte) = 0 \<longleftrightarrow> b = 0xff" "NOT b = 0xff \<longleftrightarrow> b = 0" "NOT b AND 0x80 = 0 \<longleftrightarrow> b AND 0x80 \<noteq> 0"
  using byte_lt_256[of b] by (auto simp: word_unat_eq_iff[of "NOT b"] word_unat_eq_iff[of b]
      unat_not_byte and_80_iff)

lemma negative_integer_complement:
  "CBS_is_valid_asn1_integer bs = Some True \<longleftrightarrow> CBS_is_valid_asn1_integer (map (\<lambda>b. NOT b) bs) = Some False"
  by (auto simp: CBS_is_valid_asn1_integer_def Let_def not_byte_iffs split: list.splits)

lemma int_contents_valid: "CBS_is_valid_asn1_integer (int_contents v) = Some (v < 0)"
proof -
  have "CBS_is_valid_asn1_integer (uint_contents n) = Some False" for n
    using unsigned_integer_contents[of "uint_contents n"] by (simp add: CBS_is_unsigned_asn1_integer_def)
  then show ?thesis
    by (simp add: int_contents_def negative_integer_complement[THEN iffD2] comp_def)
qed

lemma int_contents_complete:
  assumes "CBS_is_valid_asn1_integer bs = Some neg" obtains v where "bs = int_contents v"
proof (cases neg)
  case True
  let ?n = "be_val (map (\<lambda>b. NOT b) bs)"
  have "map (\<lambda>b. NOT b) bs = uint_contents ?n"
    using assms True negative_integer_complement unsigned_integer_contents CBS_is_unsigned_asn1_integer_def
    by metis
  then have "map (\<lambda>b. NOT b) (uint_contents ?n) = bs" by (metis (no_types, lifting) bit.double_compl map_idI map_map comp_def)
  then show thesis by (intro that[of "- int ?n - 1"]) (simp add: int_contents_def)
next
  case False
  then have "bs = uint_contents (be_val bs)"
    using assms unsigned_integer_contents CBS_is_unsigned_asn1_integer_def by metis
  then show thesis by (intro that[of "int (be_val bs)"]) (simp add: int_contents_def)
qed

lemma uint_len_le_8_iff: "uint_len n \<le> 8 \<longleftrightarrow> n < 2 ^ 63"
proof
  assume "uint_len n \<le> 8"
  then have "(256 :: nat) ^ (uint_len n - 1) \<le> 256 ^ 7" by (intro power_increasing) simp_all
  then show "n < 2 ^ 63" using uint_len_bound[of n] by simp
qed (use uint_len_le[of n 7] in simp)

lemma length_int_contents_iff: "length (int_contents v) \<le> 8 \<longleftrightarrow> - (2 ^ 63) \<le> v \<and> v < 2 ^ 63"
  by (auto simp: int_contents_def uint_len_le_8_iff nat_less_iff)

lemma be_val_replicate_0: "be_val (replicate k 0 @ bs) = be_val bs"
  by (induction k) (simp_all add: be_val_Cons)

lemma sint_sign_extend:
  assumes "length (int_contents v) \<le> 8"
  shows "sint (load_be (replicate (8 - length (int_contents v)) (if v < 0 then 0xff else 0) @ int_contents v)) = v"
proof (cases "v < 0")
  case False
  have v: "nat v < 2 ^ 63" using assms False by (auto simp: length_int_contents_iff nat_less_iff)
  have "unat (load_be (replicate (8 - length (int_contents v)) 0 @ int_contents v)) = nat v"
    using assms False by (subst unat_load_be) (simp_all add: be_val_replicate_0 int_contents_def)
  then show ?thesis using v False by (simp add: sint_small)
next
  case True
  let ?n = "nat (- v - 1)" and ?k = "8 - length (int_contents v)"
  let ?bs = "replicate ?k 0xff @ int_contents v"
  have n: "?n < 2 ^ 63" using assms True by (auto simp: length_int_contents_iff nat_less_iff)
  have "map (\<lambda>b. NOT b) ?bs = replicate ?k 0 @ uint_contents ?n"
    using True by (simp add: int_contents_def comp_def)
  then have "?n + be_val ?bs = 2 ^ 64 - 1"
    using be_val_not[of ?bs] assms by (simp add: be_val_replicate_0 del: map_append)
  moreover have "unat (load_be ?bs) = be_val ?bs" using assms by (intro unat_load_be) simp
  ultimately have u: "unat (load_be ?bs) + ?n = 2 ^ 64 - 1" by simp
  have "sint (load_be ?bs) = int (unat (load_be ?bs)) - 2 ^ 64"
    using u n by (intro sint_large) simp
  moreover have "int (unat (load_be ?bs)) + int ?n = 2 ^ 64 - 1" using arg_cong[OF u, of int] by simp
  ultimately show ?thesis using True by simp
qed

lemma codec_asn1_int64:
  "codec (\<lambda>v. - (2 ^ 63) \<le> v \<and> v < 2 ^ 63) (\<lambda>v. der_element CBS_ASN1_INTEGER (int_contents v))
     CBS_get_asn1_int64"
proof -
  have *: "CBS_get_asn1_int64 s = (Some v, t) \<longleftrightarrow>
      - (2 ^ 63) \<le> v \<and> v < 2 ^ 63 \<and> s = der_element CBS_ASN1_INTEGER (int_contents v) @ t" (is "_ \<longleftrightarrow> ?r v")
    for s v t
  proof
    assume "CBS_get_asn1_int64 s = (Some v, t)"
    then obtain c neg where c: "CBS_get_asn1 CBS_ASN1_INTEGER s = (Some c, t)"
      "CBS_is_valid_asn1_integer c = Some neg" "length c \<le> 8"
      "v = sint (load_be (replicate (8 - length c) (if neg then 0xff else 0) @ c))"
      by (auto simp: CBS_get_asn1_int64_def op_elims Let_def split: option.splits)
    obtain w where w: "c = int_contents w" by (rule int_contents_complete[OF c(2)])
    then have "v = w" using c sint_sign_extend[of w] int_contents_valid[of w] by auto
    then show "?r v" using w c length_int_contents_iff CBS_get_asn1_Some(1)[OF c(1)] by auto
  next
    assume r: "?r v"
    then have l: "length (int_contents v) \<le> 8" by (simp add: length_int_contents_iff)
    then have "CBS_get_asn1 CBS_ASN1_INTEGER s = (Some (int_contents v), t)"
      using r CBS_get_asn1_der[of CBS_ASN1_INTEGER "int_contents v" t] by (simp add: tag_ok_def)
    then show "CBS_get_asn1_int64 s = (Some v, t)"
      using l sint_sign_extend[OF l]
      by (simp add: CBS_get_asn1_int64_def op_bind_def int_contents_valid Let_def)
  qed
  show ?thesis by (rule codec.intro) (auto simp: *)
qed

lemma codec_asn1_bool:
  "codec (\<lambda>v. True) (\<lambda>v. der_element CBS_ASN1_BOOLEAN [if v then 0xff else 0]) CBS_get_asn1_bool"
proof (rule codec.intro)
  fix v s
  show "CBS_get_asn1_bool (der_element CBS_ASN1_BOOLEAN [if v then 0xff else 0] @ s) = (Some v, s)"
    by (simp add: CBS_get_asn1_bool_def op_bind_def CBS_get_asn1_der tag_ok_def Let_def)
next
  fix s v t
  assume "CBS_get_asn1_bool s = (Some v, t)"
  then obtain c where c: "CBS_get_asn1 CBS_ASN1_BOOLEAN s = (Some c, t)" "length c = 1"
    "c ! 0 = 0 \<or> c ! 0 = 0xff" "v = (c ! 0 \<noteq> 0)"
    by (auto simp: CBS_get_asn1_bool_def op_elims Let_def)
  then have "c = [if v then 0xff else 0]" by (cases c) auto
  then show "s = der_element CBS_ASN1_BOOLEAN [if v then 0xff else 0] @ t"
    using CBS_get_asn1_Some(1)[OF c(1)] by simp
qed simp

interpretation asn1_uint64: codec "\<lambda>v. True"
  "\<lambda>v. der_element CBS_ASN1_INTEGER (uint_contents (unat v))" CBS_get_asn1_uint64
  by (rule codec_asn1_uint64)

interpretation asn1_int64: codec "\<lambda>v. - (2 ^ 63) \<le> v \<and> v < 2 ^ 63"
  "\<lambda>v. der_element CBS_ASN1_INTEGER (int_contents v)" CBS_get_asn1_int64
  by (rule codec_asn1_int64)

interpretation asn1_bool: codec "\<lambda>v. True"
  "\<lambda>v. der_element CBS_ASN1_BOOLEAN [if v then 0xff else 0]" CBS_get_asn1_bool
  by (rule codec_asn1_bool)

subsection \<open>Properties\<close>

text \<open>(C13) The DER reader is exact: it returns an element precisely when the input starts with the
  distinguished encoding of that element, and it consumes that encoding and nothing else. Non-minimal
  lengths, indefinite lengths, the reserved tag and truncated input are all rejected.\<close>

theorem der_reader_exact:
  "CBS_get_any_asn1_element s = (Some e, rest) \<longleftrightarrow>
     (\<exists>t c. tag_ok t \<and> length c < 2 ^ 32 \<and> s = der_element t c @ rest \<and> e = element_of t c)"
proof
  assume "CBS_get_any_asn1_element s = (Some e, rest)"
  then show "\<exists>t c. tag_ok t \<and> length c < 2 ^ 32 \<and> s = der_element t c @ rest \<and> e = element_of t c"
    by (rule get_element_Some) blast
qed (auto simp: get_element_der)

text \<open>No DER element is a prefix of another: two elements at the start of the same bytes are the same
  element.\<close>

theorem der_prefix_free:
  assumes "tag_ok t" "tag_ok u" "length c < 2 ^ 32" "length d < 2 ^ 32"
    and "der_element t c @ s = der_element u d @ r"
  shows "t = u \<and> c = d \<and> s = r"
  using asn1.enc_prefix_free[of "(c, t)" "(d, u)" s r] assms by simp

theorem der_prefix_free_witness: "der_element 4 [1] @ [7] \<noteq> der_element 4 [2] @ [7]"
  using der_prefix_free[of 4 4 "[1]" "[2]" "[7]" "[7]"] by (auto simp: tag_ok_def)

text \<open>The fixed-width readers are exact: each returns a value precisely when the input starts with
  the value's big-endian bytes.\<close>

theorem fixed_width_readers_exact:
  "(CBS_get_u16 s = (Some a, r) \<longleftrightarrow> s = be_bytes 2 (unat a) @ r) \<and>
   (CBS_get_u24 s = (Some b, r) \<longleftrightarrow> unat b < 256 ^ 3 \<and> s = be_bytes 3 (unat b) @ r) \<and>
   (CBS_get_u32 s = (Some c, r) \<longleftrightarrow> s = be_bytes 4 (unat c) @ r) \<and>
   (CBS_get_u64 s = (Some d, r) \<longleftrightarrow> s = be_bytes 8 (unat d) @ r)"
  using u64_lt[of d] by (simp add: u16.dec_iff u24.dec_iff u32.dec_iff u64.dec_iff)

text \<open>The INTEGER readers are exact: a value is returned precisely when the input starts with the
  shortest two's-complement encoding of it, and the value fits.\<close>

theorem integer_readers_exact:
  "(CBS_get_asn1_uint64 s = (Some v, r) \<longleftrightarrow> s = der_element CBS_ASN1_INTEGER (uint_contents (unat v)) @ r) \<and>
   (CBS_get_asn1_int64 s = (Some i, r) \<longleftrightarrow>
      (- (2 ^ 63) \<le> i \<and> i < 2 ^ 63) \<and> s = der_element CBS_ASN1_INTEGER (int_contents i) @ r)"
  by (simp only: asn1_uint64.dec_iff asn1_int64.dec_iff simp_thms)

text \<open>Length-prefixed strings: read precisely when the prefix states the length of what follows.\<close>

theorem length_prefixed_reader_exact:
  "(CBS_get_u8_length_prefixed s = (Some c, r) \<longleftrightarrow> length c < 2 ^ 8 \<and> s = prefixed 1 c @ r) \<and>
   (CBS_get_u16_length_prefixed s = (Some c, r) \<longleftrightarrow> length c < 2 ^ 16 \<and> s = prefixed 2 c @ r) \<and>
   (CBS_get_u24_length_prefixed s = (Some c, r) \<longleftrightarrow> length c < 2 ^ 24 \<and> s = prefixed 3 c @ r)"
  by (simp add: u8_prefixed.dec_iff u16_prefixed.dec_iff u24_prefixed.dec_iff)

end
