(* ===== verification/CBB_Spec.thy ===== *)
theory CBB_Spec
  imports CBB CBS_Codec
begin

text \<open>
  The specification of the byte-string writer and the proof that \<open>cbb.cc\<close> implements it. The
  specification knows nothing of buffers, offsets and reserved prefix bytes: it is a stack of open
  strings, each with the form of the length prefix it will get, and closing a string appends its
  encoding to the one below.
\<close>

subsection \<open>The specification\<close>

datatype prefix = Plain nat | Asn1

text \<open>The length prefix of \<open>m\<close> bytes of contents, when it exists.\<close>

fun encode_prefix :: "prefix \<Rightarrow> nat \<Rightarrow> byte list option" where
  "encode_prefix (Plain n) m = (if m < 256 ^ n then Some (be_bytes n m) else None)"
| "encode_prefix Asn1 m = (if m \<le> 0xfffffffe then Some (der_len m) else None)"

text \<open>A stack of open strings, outermost first; the bottom is the top-level object.\<close>

type_synonym levels = "(prefix \<times> byte list) list"

fun close_levels :: "levels \<Rightarrow> byte list option" where
  "close_levels [] = Some []"
| "close_levels ((k, c) # lv) =
     (case close_levels lv of
        None \<Rightarrow> None
      | Some x \<Rightarrow> map_option (\<lambda>p. p @ c @ x) (encode_prefix k (length (c @ x))))"

definition append_last :: "byte list \<Rightarrow> levels \<Rightarrow> levels" where
  "append_last x lv = butlast lv @ [(fst (last lv), snd (last lv) @ x)]"

definition spec_flush :: "nat \<Rightarrow> levels \<Rightarrow> levels option" where
  "spec_flush d lv = (if d < length lv
     then map_option (\<lambda>x. append_last x (take (Suc d) lv)) (close_levels (drop (Suc d) lv)) else None)"

definition spec_add :: "nat \<Rightarrow> byte list \<Rightarrow> levels \<Rightarrow> levels option" where
  "spec_add d x lv = map_option (append_last x) (spec_flush d lv)"

definition spec_open :: "nat \<Rightarrow> prefix \<Rightarrow> levels \<Rightarrow> levels option" where
  "spec_open d k lv = map_option (\<lambda>lv'. lv' @ [(k, [])]) (spec_flush d lv)"

subsection \<open>Memory\<close>

lemma length_write_at [simp]: "p + length x \<le> length b \<Longrightarrow> length (write_at p x b) = length b"
  by (simp add: write_at_def)

lemma take_write_at:
  "p + length x \<le> n \<Longrightarrow> n \<le> length b \<Longrightarrow> take n (write_at p x b) = write_at p x (take n b)"
  by (simp add: write_at_def min_absorb1 drop_take)

lemma write_at_end: "length xs = p \<Longrightarrow> length ys = length x \<Longrightarrow> write_at p x (xs @ ys @ zs) = xs @ x @ zs"
  by (simp add: write_at_def)

lemma write_at_snoc:
  assumes "p + length xs < length b"
  shows "write_at p xs (b[p + length xs := x]) = write_at p (xs @ [x]) b"
proof -
  have "drop (p + length xs) (b[p + length xs := x]) = x # drop (Suc (p + length xs)) b"
    using assms by (simp add: upd_conv_take_nth_drop)
  moreover have "take p (b[p + length xs := x]) = take p b" by simp
  ultimately show ?thesis by (simp add: write_at_def)
qed

lemma update_write_at: "p < length b \<Longrightarrow> b[p := x] = write_at p [x] b"
  by (simp add: write_at_def upd_conv_take_nth_drop)

lemma store_be_eq:
  "p + n \<le> length b \<Longrightarrow> store_be p n v b = (drop_bit (8 * n) v, write_at p (be_bytes n (unat v)) b)"
proof (induction n arbitrary: v b)
  case 0
  then show ?case by (simp add: write_at_def)
next
  case (Suc n)
  have v: "(of_nat (unat v) :: byte) = ucast v"
    by (simp add: word_unat_eq_iff unat_of_nat_byte unsigned_ucast_eq take_bit_eq_mod)
  have "store_be p (Suc n) v b =
      (drop_bit (8 * n) (drop_bit 8 v), write_at p (be_bytes n (unat (drop_bit 8 v))) (b[p + n := ucast v]))"
    using Suc by simp
  also have "write_at p (be_bytes n (unat (drop_bit 8 v))) (b[p + n := ucast v]) =
      write_at p (be_bytes (Suc n) (unat v)) b"
    using write_at_snoc[of p "be_bytes n (unat v div 256)" b "ucast v"] Suc.prems
    by (simp add: unat_drop_bit v)
  finally show ?case by (simp add: add.commute)
qed

subsection \<open>The buffer\<close>

definition wf_buf :: "cbb_buffer \<Rightarrow> bool" where
  "wf_buf bs \<longleftrightarrow> length (buf bs) = cap bs \<and> len bs \<le> cap bs \<and> cap bs < 2 ^ 64"

text \<open>The valid bytes.\<close>

definition data :: "cbb_buffer \<Rightarrow> byte list" where
  "data bs = take (len bs) (buf bs)"

text \<open>A buffer that can hold \<open>n\<close> bytes, or grow to.\<close>

definition room :: "heap \<Rightarrow> cbb_buffer \<Rightarrow> nat \<Rightarrow> bool" where
  "room h bs n \<longleftrightarrow> n < 2 ^ 64 \<and> (n \<le> cap bs \<or> can_resize bs \<and> (\<forall>m. alloc_ok h m))"

text \<open>What no operation changes or shrinks.\<close>

definition extends :: "cbb_buffer \<Rightarrow> cbb_buffer \<Rightarrow> bool" where
  "extends bs bs' \<longleftrightarrow> can_resize bs' = can_resize bs \<and> cap bs \<le> cap bs' \<and> (\<not> can_resize bs \<longrightarrow> cap bs' = cap bs)"

lemma extends_refl [simp]: "extends bs bs" and extends_trans: "extends a b \<Longrightarrow> extends b c \<Longrightarrow> extends a c"
  by (auto simp: extends_def)

lemma room_extends: "room h bs n \<Longrightarrow> extends bs bs' \<Longrightarrow> m \<le> n \<Longrightarrow> room h bs' m"
  by (auto simp: room_def extends_def)

lemma length_data: "wf_buf bs \<Longrightarrow> length (data bs) = len bs"
  by (simp add: wf_buf_def data_def)

lemma wf_data_bound: "wf_buf bs \<Longrightarrow> length (data bs) < 2 ^ 64"
  by (simp add: wf_buf_def data_def)

lemma size_add_ok: "a < 2 ^ 64 \<Longrightarrow> b < 2 ^ 64 \<Longrightarrow> \<not> size_add a b < a \<longleftrightarrow> a + b < 2 ^ 64 "
  by (auto simp: size_add_def mod_if)

lemma size_add_eq: "a + b < 2 ^ 64 \<Longrightarrow> size_add a b = a + b"
  by (simp add: size_add_def)

lemma size_add_lt: "size_add a b < 2 ^ 64"
  by (simp add: size_add_def)

lemma buffer_reserve_Some:
  assumes wf: "wf_buf bs" and n: "n < 2 ^ 64" and run: "cbb_buffer_reserve h n bs = (Some p, bs')"
  shows "p = len bs \<and> wf_buf bs' \<and> len bs + n \<le> cap bs' \<and> len bs' = len bs \<and>
    data bs' = data bs \<and> extends bs bs' \<and> error bs' = error bs"
proof -
  let ?newlen = "size_add (len bs) n"
  have lt: "len bs < 2 ^ 64" using wf by (simp add: wf_buf_def)
  have "\<not> ?newlen < len bs" using run by (auto simp: cbb_buffer_reserve_def Let_def split: if_splits)
  then have nl: "?newlen = len bs + n" and nb: "len bs + n < 2 ^ 64"
    using size_add_ok[OF lt n] size_add_eq by auto
  show ?thesis
  proof (cases "?newlen > cap bs")
    case False
    then show ?thesis using run nl wf by (auto simp: cbb_buffer_reserve_def Let_def)
  next
    case True
    define nc where "nc = (let c = size_add (cap bs) (cap bs) in if c < cap bs \<or> c < ?newlen then ?newlen else c)"
    have nc: "?newlen \<le> nc" "nc < 2 ^ 64" using size_add_lt by (auto simp: nc_def Let_def)
    have "can_resize bs" "alloc_ok h nc" "p = len bs"
      and bs': "bs' = bs\<lparr>buf := take nc (buf bs) @ map (fresh h) [length (buf bs)..<nc], cap := nc\<rparr>"
      using run True nl nb
      by (auto simp: cbb_buffer_reserve_def Let_def realloc_mem_def nc_def split: if_splits)
    then show ?thesis
      using wf nc nl True by (auto simp: wf_buf_def data_def extends_def)
  qed
qed

lemma buffer_reserve_room:
  assumes "wf_buf bs" "room h bs (len bs + n)"
  shows "fst (cbb_buffer_reserve h n bs) = Some (len bs)"
proof -
  have "len bs + n < 2 ^ 64" "len bs + n \<le> cap bs \<or> can_resize bs \<and> (\<forall>m. alloc_ok h m)"
    using assms(2) by (auto simp: room_def)
  then show ?thesis by (auto simp: cbb_buffer_reserve_def Let_def size_add_eq realloc_mem_def)
qed

lemma buffer_reserve_None:
  "cbb_buffer_reserve h n bs = (None, bs') \<Longrightarrow> error bs'"
  by (auto simp: cbb_buffer_reserve_def Let_def split: if_splits option.splits)

lemma buffer_add_Some:
  assumes wf: "wf_buf bs" and n: "n < 2 ^ 64" and run: "cbb_buffer_add h n bs = (Some p, bs')"
  shows "p = len bs \<and> wf_buf bs' \<and> len bs' = len bs + n \<and> take (len bs) (buf bs') = data bs \<and>
    extends bs bs' \<and> error bs' = error bs"
proof -
  obtain b1 where b1: "cbb_buffer_reserve h n bs = (Some p, b1)" "bs' = b1\<lparr>len := len b1 + n\<rparr>"
    using run by (auto simp: cbb_buffer_add_def op_elims)
  show ?thesis
    using buffer_reserve_Some[OF wf n b1(1)] b1(2) by (auto simp: wf_buf_def data_def extends_def)
qed

lemma buffer_add_room:
  "wf_buf bs \<Longrightarrow> room h bs (len bs + n) \<Longrightarrow> fst (cbb_buffer_add h n bs) = Some (len bs)"
  using buffer_reserve_room[of bs h n]
  by (auto simp: cbb_buffer_add_def op_bind_def split: prod.splits option.splits)

lemma buffer_add_None: "cbb_buffer_add h n bs = (None, bs') \<Longrightarrow> error bs'"
  by (auto simp: cbb_buffer_add_def op_bind_def dest: buffer_reserve_None split: prod.splits option.splits)

subsection \<open>Closing a child\<close>

text \<open>A store into the valid bytes.\<close>

lemma data_write_at:
  assumes "wf_buf bs" "data bs = r @ old @ y" "length old = length x" "p = length r"
  shows "data (bs\<lparr>buf := write_at p x (buf bs)\<rparr>) = r @ x @ y"
    and "wf_buf (bs\<lparr>buf := write_at p x (buf bs)\<rparr>)"
proof -
  have l: "p + length x \<le> len bs" using assms length_data[OF assms(1)] by simp
  then have "data (bs\<lparr>buf := write_at p x (buf bs)\<rparr>) = write_at p x (data bs)"
    using assms(1) by (simp add: data_def wf_buf_def take_write_at)
  then show "data (bs\<lparr>buf := write_at p x (buf bs)\<rparr>) = r @ x @ y"
    using assms(2-4) by (simp add: write_at_def)
  show "wf_buf (bs\<lparr>buf := write_at p x (buf bs)\<rparr>)"
    using assms(1) l by (simp add: wf_buf_def)
qed

lemma store_prefix_eq:
  assumes wf: "wf_buf bs" and d: "data bs = r @ pre @ y" "length pre = n" "p = length r" and v: "v < 2 ^ 64"
  shows "store_prefix p n v bs =
    (if v < 256 ^ n then Some () else None, bs\<lparr>buf := write_at p (be_bytes n v) (buf bs)\<rparr>)"
proof -
  have "p + n \<le> length (buf bs)"
    using d length_data[OF wf] wf by (simp add: wf_buf_def)
  moreover have "drop_bit (8 * n) (u64_of v) = 0 \<longleftrightarrow> v < 256 ^ n"
    using v by (simp add: drop_bit_eq_0_iff unat_u64_of power_mult)
  ultimately show ?thesis using v by (simp add: store_prefix_def store_be_eq unat_u64_of)
qed

text \<open>The length forms of the writer are those of the specification.\<close>

lemma asn1_length_form_eq:
  "asn1_length_form n = (if n > 0xfffffffe then None
     else Some (1 + len_octets n, if n < 128 then byte_of n else byte_of (128 + len_octets n), if n < 128 then 0 else n))"
  by (auto simp: asn1_length_form_def len_octets_def byte_of_def)

definition closed_to :: "cbb_buffer \<Rightarrow> byte list \<Rightarrow> cbb_buffer \<Rightarrow> bool" where
  "closed_to bs x bs' \<longleftrightarrow> wf_buf bs' \<and> data bs' = x \<and> extends bs bs' \<and> error bs' = error bs"

lemma extends_buf [simp]: "extends (bs\<lparr>buf := b\<rparr>) bs' = extends bs bs'" "extends bs (bs'\<lparr>buf := b\<rparr>) = extends bs bs'"
  by (simp_all add: extends_def)

lemma close_asn1_short:
  assumes wf: "wf_buf bs" and d: "data bs = r @ [b] @ y" and off: "offset child = length r"
    and n: "length y < 128"
  shows "\<exists>bs'. close_asn1 h child start (length y) bs = (Some (), bs') \<and>
    closed_to bs (r @ der_len (length y) @ y) bs'"
proof -
  let ?bs = "bs\<lparr>buf := write_at (length r) [byte_of (length y)] (buf bs)\<rparr>"
  have "length r < length (buf bs)" using length_data[OF wf] d wf by (simp add: wf_buf_def)
  then have u: "(buf bs)[length r := byte_of (length y)] = write_at (length r) [byte_of (length y)] (buf bs)"
    by (rule update_write_at)
  have "len_octets (length y) = 0" using n by (simp add: len_octets_def)
  then have "close_asn1 h child start (length y) bs = (Some (), ?bs)"
    using n off u by (simp add: close_asn1_def asn1_length_form_eq op_bind_def store_prefix_def u64_of_def)
  moreover have "closed_to bs (r @ der_len (length y) @ y) ?bs"
    using data_write_at[OF wf d, of "[byte_of (length y)]" "length r"] n
    by (simp add: closed_to_def der_len_def)
  ultimately show ?thesis by blast
qed

text \<open>The long form: the buffer grows, the contents move, the length goes in.\<close>

lemma close_asn1_long:
  assumes wf: "wf_buf bs" and d: "data bs = r @ [b] @ y" and off: "offset child = length r"
    and start: "start = length r + 1" and n: "128 \<le> length y" "length y \<le> 0xfffffffe"
    and k: "k = len_octets (length y)"
  shows "case cbb_buffer_add h k bs of
      (None, bs') \<Rightarrow> close_asn1 h child start (length y) bs = (None, bs')
    | (Some _, _) \<Rightarrow> \<exists>bs'. close_asn1 h child start (length y) bs = (Some (), bs') \<and>
        closed_to bs (r @ der_len (length y) @ y) bs'"
proof (cases "cbb_buffer_add h k bs")
  case (Pair res b1)
  let ?lb = "byte_of (128 + k)"
  have kb: "1 \<le> k" "k \<le> 4" "length y < 256 ^ k"
    using len_octets_bounds[of "length y"] n k by simp_all
  have form: "asn1_length_form (length y) = Some (1 + k, ?lb, length y)"
    using n k by (simp add: asn1_length_form_eq)
  show ?thesis
  proof (cases res)
    case None
    then show ?thesis using Pair form kb by (simp add: close_asn1_def op_bind_def)
  next
    case (Some p)
    have lenbs: "len bs = length r + 1 + length y" using length_data[OF wf] d by simp
    have b1: "wf_buf b1" "len b1 = len bs + k" "take (len bs) (buf b1) = r @ [b] @ y" "extends bs b1"
      "error b1 = error bs"
      using buffer_add_Some[OF wf, of k h p b1] Pair Some kb d by auto
    obtain z where z: "data b1 = r @ [b] @ y @ z" "length z = k"
    proof
      have "take (len bs) (data b1) = r @ [b] @ y" using b1(2,3) by (simp add: data_def)
      then show "data b1 = r @ [b] @ y @ drop (len bs) (data b1)"
        by (metis append.assoc append_take_drop_id)
      show "length (drop (len bs) (data b1)) = k" using length_data[OF b1(1)] b1(2) by simp
    qed
    have "take (length y) (drop start (data b1)) = y" using z(1) start by simp
    moreover have "take (length y) (drop start (data b1)) = take (length y) (drop start (buf b1))"
      using b1(2) lenbs start by (simp add: data_def drop_take min_def)
    ultimately have moved: "take (length y) (drop start (buf b1)) = y" by simp
    obtain w w' where yz: "y @ z = w @ w'" "length w = k" "length w' = length y"
    proof
      show "y @ z = take k (y @ z) @ drop k (y @ z)" by (rule append_take_drop_id[symmetric])
      show "length (take k (y @ z)) = k" "length (drop k (y @ z)) = length y" using z(2) by simp_all
    qed
    define b2 where "b2 = b1\<lparr>buf := write_at (start + k) y (buf b1)\<rparr>"
    have d1: "data b1 = (r @ [b] @ w) @ w' @ []" using z(1) yz(1) by simp
    have b2: "data b2 = (r @ [b] @ w) @ y @ []" "wf_buf b2"
      using data_write_at[OF b1(1) d1, of y "start + k"] yz(2,3) start by (simp_all add: b2_def)
    define b3 where "b3 = b2\<lparr>buf := write_at (length r) [?lb] (buf b2)\<rparr>"
    have b3: "data b3 = r @ [?lb] @ w @ y" "wf_buf b3"
      using data_write_at[OF b2(2), of r "[b]" "w @ y" "[?lb]" "length r"] b2(1) by (simp_all add: b3_def)
    have upd: "(buf b2)[length r := ?lb] = write_at (length r) [?lb] (buf b2)"
      using length_data[OF b2(2)] b2 by (intro update_write_at) (simp add: wf_buf_def)
    let ?b4 = "b3\<lparr>buf := write_at (length r + 1) (be_bytes k (length y)) (buf b3)\<rparr>"
    have st: "store_prefix (length r + 1) k (length y) b3 = (Some (), ?b4)"
      using store_prefix_eq[OF b3(2), of "r @ [?lb]" w y k "length r + 1" "length y"] b3(1) yz(2) kb n by simp
    have "close_asn1 h child start (length y) bs = (Some (), ?b4)"
      using Pair Some form kb off st upd moved
      by (simp add: close_asn1_def op_bind_def b2_def[symmetric] b3_def[symmetric])
    moreover have "closed_to bs (r @ der_len (length y) @ y) ?b4"
      using data_write_at[OF b3(2), of "r @ [?lb]" w y "be_bytes k (length y)" "length r + 1"] b3(1) yz(2)
        b1(4,5) n k
      by (simp add: closed_to_def der_len_def b3_def b2_def)
    ultimately show ?thesis using Pair Some by auto
  qed
qed

subsection \<open>Flushing\<close>

definition kind :: "cbb_child \<Rightarrow> prefix" where
  "kind c = (if pending_is_asn1 c then Asn1 else Plain (pending_len_len c))"

definition wf_child :: "cbb_child \<Rightarrow> bool" where
  "wf_child c \<longleftrightarrow> pending_len_len c \<le> 8 \<and> (pending_is_asn1 c \<longrightarrow> pending_len_len c = 1)"

lemma close_child_Some:
  assumes wf: "wf_buf bs" and c: "wf_child c" and d: "data bs = r @ pre @ y"
    and pre: "length pre = pending_len_len c" and off: "offset c = length r"
    and run: "close_child h c bs = (Some (), bs')"
  shows "\<exists>p. encode_prefix (kind c) (length y) = Some p \<and> closed_to bs (r @ p @ y) bs'"
proof -
  have n: "length r + length pre + length y < 2 ^ 64" and l: "len bs = length r + length pre + length y"
    using wf_data_bound[OF wf] length_data[OF wf] d by simp_all
  have start: "size_add (offset c) (pending_len_len c) = length r + length pre"
    using n off pre by (simp add: size_add_eq)
  show ?thesis
  proof (cases "pending_is_asn1 c")
    case False
    then have "store_prefix (offset c) (pending_len_len c) (length y) bs = (Some (), bs')"
      using run start l off by (simp add: close_child_def Let_def split: if_splits)
    then have "length y < 256 ^ length pre" "bs' = bs\<lparr>buf := write_at (length r) (be_bytes (length pre) (length y)) (buf bs)\<rparr>"
      using store_prefix_eq[OF wf d pre off, of "length y"] n off pre by (auto split: if_splits)
    then show ?thesis
      using False data_write_at[OF wf d, of "be_bytes (length pre) (length y)" "length r"] pre
      by (simp add: kind_def closed_to_def)
  next
    case True
    then obtain b where b: "pre = [b]" using pre c by (auto simp: wf_child_def length_Suc_conv)
    have run': "close_asn1 h c (length r + 1) (length y) bs = (Some (), bs')"
      using run start l off True b by (simp add: close_child_def Let_def split: if_splits)
    then have y: "length y \<le> 0xfffffffe"
      by (auto simp: close_asn1_def asn1_length_form_eq split: if_splits)
    have "closed_to bs (r @ der_len (length y) @ y) bs'"
    proof (cases "length y < 128")
      case True
      then show ?thesis using close_asn1_short[OF wf _ off True, of b h "length r + 1"] d b run' by auto
    next
      case False
      then show ?thesis
        using close_asn1_long[OF wf _ off refl _ y refl, of b h] d b run'
        by (auto split: prod.splits option.splits)
    qed
    then show ?thesis using True y by (simp add: kind_def)
  qed
qed

lemma close_child_room:
  assumes wf: "wf_buf bs" and c: "wf_child c" and d: "data bs = r @ pre @ y"
    and pre: "length pre = pending_len_len c" and off: "offset c = length r"
    and p: "encode_prefix (kind c) (length y) = Some p" and room: "room h bs (length r + length p + length y)"
  shows "fst (close_child h c bs) = Some ()"
proof -
  have n: "length r + length pre + length y < 2 ^ 64" and l: "len bs = length r + length pre + length y"
    using wf_data_bound[OF wf] length_data[OF wf] d by simp_all
  have start: "size_add (offset c) (pending_len_len c) = length r + length pre"
    using n off pre by (simp add: size_add_eq)
  show ?thesis
  proof (cases "pending_is_asn1 c")
    case False
    then have "fst (store_prefix (offset c) (pending_len_len c) (length y) bs) = Some ()"
      using store_prefix_eq[OF wf d pre off, of "length y"] n p pre by (simp add: kind_def split: if_splits)
    then show ?thesis
      using start l off pre False by (simp add: close_child_def Let_def)
  next
    case True
    then obtain b where b: "pre = [b]" using pre c by (auto simp: wf_child_def length_Suc_conv)
    have y: "length y \<le> 0xfffffffe" "p = der_len (length y)"
      using p True by (auto simp: kind_def split: if_splits)
    have "fst (close_asn1 h c (length r + 1) (length y) bs) = Some ()"
    proof (cases "length y < 128")
      case True
      then show ?thesis using close_asn1_short[OF wf _ off True, of b h "length r + 1"] d b by auto
    next
      case False
      have "len bs + len_octets (length y) = length r + length p + length y"
        using l b y by (simp add: length_der_len)
      then have "fst (cbb_buffer_add h (len_octets (length y)) bs) = Some (len bs)"
        using buffer_add_room[OF wf, of h "len_octets (length y)"] room by simp
      then show ?thesis
        using close_asn1_long[OF wf _ off refl _ y(1) refl, of b h] d b False
        by (auto split: prod.splits option.splits)
    qed
    then show ?thesis
      using start l off True b by (simp add: close_child_def Let_def)
  qed
qed

text \<open>How a chain of children lies in the buffer, from position \<open>p\<close> on.\<close>

fun chain_repr :: "nat \<Rightarrow> cbb_child list \<Rightarrow> levels \<Rightarrow> byte list \<Rightarrow> bool" where
  "chain_repr p [] lv d \<longleftrightarrow> lv = [] \<and> d = []"
| "chain_repr p (c # cs) lv d \<longleftrightarrow> wf_child c \<and> offset c = p \<and>
     (\<exists>pre x d' lv'. d = pre @ x @ d' \<and> length pre = pending_len_len c \<and> lv = (kind c, x) # lv' \<and>
        chain_repr (p + length pre + length x) cs lv' d')"

lemma chain_repr_ConsI:
  "wf_child c \<Longrightarrow> offset c = p \<Longrightarrow> length pre = pending_len_len c \<Longrightarrow>
   chain_repr (p + length pre + length x) cs lv d \<Longrightarrow> chain_repr p (c # cs) ((kind c, x) # lv) (pre @ x @ d)"
  unfolding chain_repr.simps by (intro conjI exI[of _ pre] exI[of _ x] exI[of _ d] exI[of _ lv]) auto

lemma chain_repr_ConsE:
  assumes "chain_repr p (c # cs) lv d"
  obtains pre x d' lv' where "d = pre @ x @ d'" "length pre = pending_len_len c" "lv = (kind c, x) # lv'"
    "chain_repr (p + length pre + length x) cs lv' d'" "wf_child c" "offset c = p"
  using assms by auto

declare chain_repr.simps(2) [simp del]

lemma flush_chain_Some:
  assumes "wf_buf bs" "data bs = r @ d" "chain_repr (length r) cs lv d" "\<not> error bs"
    "flush_chain h cs bs = (Some (), bs')"
  shows "\<exists>x. close_levels lv = Some x \<and> closed_to bs (r @ x) bs'"
  using assms
proof (induction cs arbitrary: r d lv bs')
  case Nil
  then show ?case by (auto simp: closed_to_def)
next
  case (Cons c cs)
  obtain pre x d' lv' where *: "d = pre @ x @ d'" "length pre = pending_len_len c" "lv = (kind c, x) # lv'"
    "chain_repr (length (r @ pre @ x)) cs lv' d'" "wf_child c" "offset c = length r"
    by (rule chain_repr_ConsE[OF Cons.prems(3)]) (auto simp: add.assoc)
  obtain b1 where b1: "flush_chain h cs bs = (Some (), b1)" "close_child h c b1 = (Some (), bs')"
    using Cons.prems(4,5) by (auto simp: op_bind_def split: prod.splits option.splits if_splits)
  have "data bs = (r @ pre @ x) @ d'" using Cons.prems(2) * by simp
  then obtain x' where x': "close_levels lv' = Some x'" "closed_to bs ((r @ pre @ x) @ x') b1"
    using Cons.IH[OF Cons.prems(1) _ *(4) Cons.prems(4) b1(1)] by auto
  have "wf_buf b1" "data b1 = r @ pre @ (x @ x')" using x'(2) by (auto simp: closed_to_def)
  from close_child_Some[OF this(1) *(5) this(2) *(2,6) b1(2)]
  obtain p where "encode_prefix (kind c) (length (x @ x')) = Some p" "closed_to b1 (r @ p @ x @ x') bs'"
    by auto
  then show ?case using x' *(3) by (auto simp: closed_to_def intro: extends_trans)
qed

lemma flush_chain_None: "flush_chain h cs bs = (None, bs') \<Longrightarrow> error bs'"
  by (cases cs) (auto split: prod.splits option.splits if_splits)

lemma flush_chain_room:
  assumes "wf_buf bs" "data bs = r @ d" "chain_repr (length r) cs lv d" "\<not> error bs"
    "close_levels lv = Some x" "room h bs (length r + length x)"
  shows "fst (flush_chain h cs bs) = Some ()"
  using assms
proof (induction cs arbitrary: r d lv x)
  case (Cons c cs)
  obtain pre y d' lv' where *: "d = pre @ y @ d'" "length pre = pending_len_len c" "lv = (kind c, y) # lv'"
    "chain_repr (length (r @ pre @ y)) cs lv' d'" "wf_child c" "offset c = length r"
    by (rule chain_repr_ConsE[OF Cons.prems(3)]) (auto simp: add.assoc)
  obtain x' p where x': "close_levels lv' = Some x'" "encode_prefix (kind c) (length (y @ x')) = Some p"
    "x = p @ y @ x'"
    using Cons.prems(5) *(3) by (auto split: option.splits)
  have le: "length pre \<le> length p"
    using x'(2) *(2,5) by (auto simp: kind_def wf_child_def length_der_len split: if_splits)
  have eq: "data bs = (r @ pre @ y) @ d'" using Cons.prems(2) * by simp
  have "room h bs (length (r @ pre @ y) + length x')"
    using room_extends[OF Cons.prems(6) extends_refl] le x'(3) by simp
  from Cons.IH[OF Cons.prems(1) eq *(4) Cons.prems(4) x'(1) this]
  obtain b1 where b1: "flush_chain h cs bs = (Some (), b1)" by (metis old.unit.exhaust prod.collapse)
  have c1: "closed_to bs ((r @ pre @ y) @ x') b1"
    using flush_chain_Some[OF Cons.prems(1) eq *(4) Cons.prems(4) b1] x'(1) by simp
  have "fst (close_child h c b1) = Some ()"
  proof (rule close_child_room[OF _ *(5) _ *(2,6) x'(2)])
    show "wf_buf b1" "data b1 = r @ pre @ (y @ x')" using c1 by (auto simp: closed_to_def)
    show "room h b1 (length r + length p + length (y @ x'))"
      using room_extends[OF Cons.prems(6)] c1 x'(3) by (simp add: closed_to_def)
  qed
  then show ?case using b1 Cons.prems(4) by (auto simp: op_bind_def split: prod.splits option.splits)
qed simp

subsection \<open>Representation of the stack of open strings\<close>

text \<open>The top-level object as a child without a prefix.\<close>

definition root_child :: cbb_child where
  "root_child = \<lparr>offset = 0, pending_len_len = 0, pending_is_asn1 = False\<rparr>"

definition rep :: "cbb \<Rightarrow> levels \<Rightarrow> bool" where
  "rep st lv \<longleftrightarrow> wf_buf (base st) \<and> \<not> error (base st) \<and>
     chain_repr 0 (root_child # kids st) lv (data (base st))"

text \<open>The bytes the stack takes up, reserved prefixes included.\<close>

fun prefix_size :: "prefix \<Rightarrow> nat" where
  "prefix_size (Plain n) = n"
| "prefix_size Asn1 = 1"

definition lv_size :: "levels \<Rightarrow> nat" where
  "lv_size lv = sum_list (map (\<lambda>(k, c). prefix_size k + length c) lv)"

lemma lv_size_append: "lv_size (as @ bs) = lv_size as + lv_size bs"
  by (simp add: lv_size_def)

lemma wf_child_prefix_size: "wf_child c \<Longrightarrow> prefix_size (kind c) = pending_len_len c"
  by (simp add: wf_child_def kind_def)

lemma chain_repr_length: "chain_repr p cs lv d \<Longrightarrow> length lv = length cs \<and> lv_size lv = length d"
proof (induction cs arbitrary: p lv d)
  case (Cons c cs)
  show ?case
    by (rule chain_repr_ConsE[OF Cons.prems]) (use Cons.IH in \<open>auto simp: lv_size_def wf_child_prefix_size\<close>)
qed (simp add: lv_size_def)

lemma rep_length: "rep st lv \<Longrightarrow> length lv = Suc (length (kids st))"
  unfolding rep_def using chain_repr_length by fastforce

lemma rep_size: "rep st lv \<Longrightarrow> lv_size lv = len (base st)"
  unfolding rep_def using chain_repr_length length_data by fastforce

lemma chain_repr_split:
  "chain_repr p cs lv d \<Longrightarrow> \<exists>d1 d2. d = d1 @ d2 \<and> chain_repr p (take n cs) (take n lv) d1 \<and>
     chain_repr (p + length d1) (drop n cs) (drop n lv) d2"
proof (induction n arbitrary: p cs lv d)
  case (Suc n)
  show ?case
  proof (cases cs)
    case (Cons c cs')
    obtain pre x d' lv' where *: "d = pre @ x @ d'" "length pre = pending_len_len c" "lv = (kind c, x) # lv'"
      "chain_repr (p + length pre + length x) cs' lv' d'" "wf_child c" "offset c = p"
      using Suc.prems unfolding Cons by (rule chain_repr_ConsE)
    from Suc.IH[OF *(4)] obtain d1 d2 where
      "d' = d1 @ d2" "chain_repr (p + length pre + length x) (take n cs') (take n lv') d1"
      "chain_repr (p + length pre + length x + length d1) (drop n cs') (drop n lv') d2" by blast
    then show ?thesis
      using * Cons by (intro exI[of _ "pre @ x @ d1"] exI[of _ d2]) (auto simp: add.assoc intro!: chain_repr_ConsI)
  qed (use Suc.prems in simp)
qed simp

lemma append_last_Cons: "lv \<noteq> [] \<Longrightarrow> append_last x (l # lv) = l # append_last x lv"
  by (simp add: append_last_def)

lemma chain_repr_append:
  "chain_repr p cs lv d \<Longrightarrow> cs \<noteq> [] \<Longrightarrow> chain_repr p cs (append_last x lv) (d @ x)"
proof (induction cs arbitrary: p lv d)
  case (Cons c cs)
  obtain pre y d' lv' where *: "d = pre @ y @ d'" "length pre = pending_len_len c" "lv = (kind c, y) # lv'"
    "chain_repr (p + length pre + length y) cs lv' d'" "wf_child c" "offset c = p"
    using Cons.prems(1) by (rule chain_repr_ConsE)
  show ?case
  proof (cases "cs = []")
    case True
    then have "chain_repr p (c # cs) ((kind c, y @ x) # []) (pre @ (y @ x) @ [])"
      using * by (intro chain_repr_ConsI) auto
    then show ?thesis using * True by (simp add: append_last_def)
  next
    case False
    have "lv' \<noteq> []" using chain_repr_length[OF *(4)] False by auto
    then show ?thesis
      using chain_repr_ConsI[OF *(5,6,2) Cons.IH[OF *(4) False]] * by (simp add: append_last_Cons)
  qed
qed simp

lemma chain_repr_open:
  "chain_repr p cs lv d \<Longrightarrow> wf_child c \<Longrightarrow> offset c = p + length d \<Longrightarrow> length pre = pending_len_len c \<Longrightarrow>
   chain_repr p (cs @ [c]) (lv @ [(kind c, [])]) (d @ pre)"
proof (induction cs arbitrary: p lv d)
  case Nil
  then show ?case using chain_repr_ConsI[of c p pre "[]" "[]" "[]" "[]"] by simp
next
  case (Cons c' cs)
  obtain pre' y d' lv' where *: "d = pre' @ y @ d'" "length pre' = pending_len_len c'" "lv = (kind c', y) # lv'"
    "chain_repr (p + length pre' + length y) cs lv' d'" "wf_child c'" "offset c' = p"
    using Cons.prems(1) by (rule chain_repr_ConsE)
  have "chain_repr (p + length pre' + length y) (cs @ [c]) (lv' @ [(kind c, [])]) (d' @ pre)"
    using Cons.IH[OF *(4) Cons.prems(2) _ Cons.prems(4)] Cons.prems(3) * by simp
  then show ?case using chain_repr_ConsI[OF *(5,6,2)] * by simp
qed

lemma lv_size_append_last: "lv \<noteq> [] \<Longrightarrow> lv_size (append_last x lv) = lv_size lv + length x"
  by (cases lv rule: rev_cases) (auto simp: append_last_def lv_size_def)

lemma length_append_last [simp]: "lv \<noteq> [] \<Longrightarrow> length (append_last x lv) = length lv"
  by (simp add: append_last_def)

lemma prefix_size_le: "encode_prefix k m = Some p \<Longrightarrow> prefix_size k \<le> length p"
  by (cases k) (auto simp: length_der_len split: if_splits)

lemma close_levels_size: "close_levels lv = Some x \<Longrightarrow> lv_size lv \<le> length x"
proof (induction lv arbitrary: x)
  case (Cons l lv)
  obtain k c where l: "l = (k, c)" by (cases l)
  obtain x' p where "close_levels lv = Some x'" "encode_prefix k (length (c @ x')) = Some p" "x = p @ c @ x'"
    using Cons.prems l by (auto split: option.splits)
  then show ?case using Cons.IH prefix_size_le[of k _ p] l by (fastforce simp: lv_size_def)
qed (simp add: lv_size_def)

subsection \<open>Simulation\<close>

text \<open>
  An operation of the writer implements an operation of the specification: when it succeeds, so
  does the specification, with the state it represents; when the specification succeeds and the
  buffer has room for the result, the operation succeeds.
\<close>

definition implements :: "heap \<Rightarrow> (cbb, 'a) op \<Rightarrow> (levels \<Rightarrow> levels option) \<Rightarrow> bool" where
  "implements h p P \<longleftrightarrow>
     (\<forall>lv lv'. P lv = Some lv' \<longrightarrow> lv_size lv \<le> lv_size lv') \<and>
     (\<forall>st lv. rep st lv \<longrightarrow>
        (\<forall>r st'. p st = (Some r, st') \<longrightarrow>
           (\<exists>lv'. P lv = Some lv' \<and> rep st' lv' \<and> extends (base st) (base st'))) \<and>
        (\<forall>lv'. P lv = Some lv' \<longrightarrow> room h (base st) (lv_size lv') \<longrightarrow> fst (p st) \<noteq> None))"

lemma implementsI:
  assumes "\<And>lv lv'. P lv = Some lv' \<Longrightarrow> lv_size lv \<le> lv_size lv'"
    and "\<And>st lv r st'. rep st lv \<Longrightarrow> p st = (Some r, st') \<Longrightarrow>
      \<exists>lv'. P lv = Some lv' \<and> rep st' lv' \<and> extends (base st) (base st')"
    and "\<And>st lv lv'. rep st lv \<Longrightarrow> P lv = Some lv' \<Longrightarrow> room h (base st) (lv_size lv') \<Longrightarrow> fst (p st) \<noteq> None"
  shows "implements h p P"
  using assms unfolding implements_def by blast

lemma implements_Some:
  assumes "implements h p P" "rep st lv" "p st = (Some r, st')"
  obtains lv' where "P lv = Some lv'" "rep st' lv'" "extends (base st) (base st')"
  using assms unfolding implements_def by blast

lemma implements_mono: "implements h p P \<Longrightarrow> P lv = Some lv' \<Longrightarrow> lv_size lv \<le> lv_size lv'"
  unfolding implements_def by blast

lemma implements_room:
  assumes "implements h p P" "rep st lv" "P lv = Some lv'" "room h (base st) (lv_size lv')"
  obtains r st' where "p st = (Some r, st')" "rep st' lv'" "extends (base st) (base st')"
proof -
  obtain r st' where run: "p st = (Some r, st')"
    using assms unfolding implements_def by (metis option.exhaust prod.collapse)
  then show thesis using implements_Some[OF assms(1,2) run] assms(3) that by auto
qed

lemma implements_bind:
  assumes p: "implements h p P" and q: "\<And>a. implements h (q a) Q"
  shows "implements h (op_bind p q) (\<lambda>lv. Option.bind (P lv) Q)"
proof (rule implementsI)
  fix lv lv' assume "Option.bind (P lv) Q = Some lv'"
  then show "lv_size lv \<le> lv_size lv'"
    using implements_mono[OF p] implements_mono[OF q] by (fastforce simp: bind_eq_Some_conv)
next
  fix st lv r st'
  assume st: "rep st lv" and "op_bind p q st = (Some r, st')"
  then obtain a s1 where run: "p st = (Some a, s1)" "q a s1 = (Some r, st')" by (auto simp: op_elims)
  obtain lv1 where 1: "P lv = Some lv1" "rep s1 lv1" "extends (base st) (base s1)"
    by (rule implements_Some[OF p st run(1)])
  obtain lv2 where "Q lv1 = Some lv2" "rep st' lv2" "extends (base s1) (base st')"
    by (rule implements_Some[OF q 1(2) run(2)])
  with 1 show "\<exists>lv'. Option.bind (P lv) Q = Some lv' \<and> rep st' lv' \<and> extends (base st) (base st')"
    by (auto intro: extends_trans)
next
  fix st lv lv'
  assume st: "rep st lv" and "Option.bind (P lv) Q = Some lv'" and room: "room h (base st) (lv_size lv')"
  then obtain lv1 where 1: "P lv = Some lv1" "Q lv1 = Some lv'" by (auto simp: bind_eq_Some_conv)
  have "room h (base st) (lv_size lv1)"
    using room_extends[OF room extends_refl] implements_mono[OF q 1(2)] by blast
  then obtain a s1 where s1: "p st = (Some a, s1)" "rep s1 lv1" "extends (base st) (base s1)"
    by (rule implements_room[OF p st 1(1)])
  then obtain r st' where "q a s1 = (Some r, st')"
    using implements_room[OF q s1(2) 1(2)] room_extends[OF room s1(3)] by blast
  with s1 show "fst (op_bind p q st) \<noteq> None" by (simp add: op_bind_def)
qed

lemma implements_ret: "implements h (op_ret a) Some"
  by (rule implementsI) auto

lemma implements_or_error: assumes p: "implements h p P" shows "implements h (or_error d p) P"
proof (rule implementsI)
  show "lv_size lv \<le> lv_size lv'" if "P lv = Some lv'" for lv lv' by (rule implements_mono[OF p that])
next
  fix st lv r st'
  assume st: "rep st lv" and run: "or_error d p st = (Some r, st')"
  then have "p st = (Some r, st')" by (auto simp: or_error_def split: prod.splits option.splits)
  then show "\<exists>lv'. P lv = Some lv' \<and> rep st' lv' \<and> extends (base st) (base st')"
    using implements_Some[OF p st] by metis
next
  fix st lv lv'
  assume "rep st lv" "P lv = Some lv'" "room h (base st) (lv_size lv')"
  then obtain r st' where "p st = (Some r, st')" by (rule implements_room[OF p])
  then show "fst (or_error d p st) \<noteq> None" by (simp add: or_error_def)
qed

subsection \<open>The operations implement the specification\<close>

lemma spec_flush_mono: assumes "spec_flush d lv = Some lv'" shows "lv_size lv \<le> lv_size lv'"
proof -
  obtain x where x: "d < length lv" "close_levels (drop (Suc d) lv) = Some x"
    "lv' = append_last x (take (Suc d) lv)"
    using assms by (auto simp: spec_flush_def split: if_splits)
  have "lv_size lv = lv_size (take (Suc d) lv) + lv_size (drop (Suc d) lv)"
    using lv_size_append[of "take (Suc d) lv" "drop (Suc d) lv"] by simp
  moreover have "take (Suc d) lv \<noteq> []" using x(1) by auto
  ultimately show ?thesis using close_levels_size[OF x(2)] x(3) by (simp add: lv_size_append_last)
qed

lemma rep_split:
  assumes "rep st lv" "d \<le> length (kids st)"
  obtains d1 d2 where "data (base st) = d1 @ d2"
    "chain_repr 0 (root_child # take d (kids st)) (take (Suc d) lv) d1"
    "chain_repr (length d1) (drop d (kids st)) (drop (Suc d) lv) d2"
  using chain_repr_split[of 0 "root_child # kids st" lv "data (base st)" "Suc d"] assms that
  by (auto simp: rep_def)

lemma rep_appended:
  assumes "rep st lv" "closed_to (base st) (data (base st) @ x) bs'"
  shows "rep (st\<lparr>base := bs'\<rparr>) (append_last x lv)"
  using assms chain_repr_append[of 0 "root_child # kids st" lv "data (base st)" x]
  by (auto simp: rep_def closed_to_def)

lemma CBB_flush_Some:
  assumes "rep st lv" "CBB_flush h d st = (Some (), st')"
  obtains lv' where "spec_flush d lv = Some lv'" "rep st' lv'" "extends (base st) (base st')"
    "length (kids st') = d" "length lv' = Suc d"
proof -
  have d: "d \<le> length (kids st)" using assms(2) by (auto simp: CBB_flush_def split: if_splits)
  obtain d1 d2 where *: "data (base st) = d1 @ d2"
    "chain_repr 0 (root_child # take d (kids st)) (take (Suc d) lv) d1"
    "chain_repr (length d1) (drop d (kids st)) (drop (Suc d) lv) d2"
    by (rule rep_split[OF assms(1) d])
  obtain bs where run: "flush_chain h (drop d (kids st)) (base st) = (Some (), bs)"
    and st': "st' = st\<lparr>base := bs, kids := take d (kids st)\<rparr>"
    using assms(2) by (auto simp: CBB_flush_def split: if_splits prod.splits)
  have wf: "wf_buf (base st)" "\<not> error (base st)" using assms(1) by (auto simp: rep_def)
  obtain x where x: "close_levels (drop (Suc d) lv) = Some x" "closed_to (base st) (d1 @ x) bs"
    using flush_chain_Some[OF wf(1) *(1,3) wf(2) run] by auto
  have "d < length lv" using rep_length[OF assms(1)] d by simp
  then have f: "spec_flush d lv = Some (append_last x (take (Suc d) lv))"
    using x(1) by (simp add: spec_flush_def)
  have "rep st' (append_last x (take (Suc d) lv))"
    using chain_repr_append[OF *(2), of x] x(2) st' wf(2) by (auto simp: rep_def closed_to_def)
  moreover have "take (Suc d) lv \<noteq> []" using \<open>d < length lv\<close> by auto
  ultimately show thesis using that f x(2) st' d \<open>d < length lv\<close> by (auto simp: closed_to_def)
qed

lemma implements_flush: "implements h (CBB_flush h d) (spec_flush d)"
proof (rule implementsI)
  fix st lv lv'
  assume st: "rep st lv" and spec: "spec_flush d lv = Some lv'" and room: "room h (base st) (lv_size lv')"
  obtain x where x: "d < length lv" "close_levels (drop (Suc d) lv) = Some x"
    "lv' = append_last x (take (Suc d) lv)"
    using spec by (auto simp: spec_flush_def split: if_splits)
  have d: "d \<le> length (kids st)" using x(1) rep_length[OF st] by simp
  obtain d1 d2 where *: "data (base st) = d1 @ d2"
    "chain_repr 0 (root_child # take d (kids st)) (take (Suc d) lv) d1"
    "chain_repr (length d1) (drop d (kids st)) (drop (Suc d) lv) d2"
    by (rule rep_split[OF st d])
  have "take (Suc d) lv \<noteq> []" using x(1) by auto
  then have sz: "lv_size lv' = length d1 + length x"
    using chain_repr_length[OF *(2)] x(3) by (simp add: lv_size_append_last)
  have wf: "wf_buf (base st)" "\<not> error (base st)" using st by (auto simp: rep_def)
  have "fst (flush_chain h (drop d (kids st)) (base st)) = Some ()"
    using flush_chain_room[OF wf(1) *(1,3) wf(2) x(2)] room sz by simp
  then show "fst (CBB_flush h d st) \<noteq> None"
    using d wf(2) by (auto simp: CBB_flush_def split: prod.splits)
qed (auto simp: spec_flush_mono elim: CBB_flush_Some)

text \<open>Reserving space at the end and filling it.\<close>

lemma on_base_Some [op_elims]:
  "on_base p st = (Some r, st') \<longleftrightarrow> (\<exists>b. p (base st) = (Some r, b) \<and> st' = st\<lparr>base := b\<rparr>)"
  by (auto simp: on_base_def split: prod.splits)

lemma buffer_add_write:
  assumes wf: "wf_buf bs" and x: "length x < 2 ^ 64" and run: "cbb_buffer_add h (length x) bs = (Some p, b1)"
  shows "p = len bs" and "p + length x \<le> length (buf b1)"
    and "closed_to bs (data bs @ x) (b1\<lparr>buf := write_at p x (buf b1)\<rparr>)"
proof -
  have *: "p = len bs" "wf_buf b1" "len b1 = len bs + length x" "take (len bs) (buf b1) = data bs"
    "extends bs b1" "error b1 = error bs"
    using buffer_add_Some[OF wf x run] by auto
  then show "p = len bs" and "p + length x \<le> length (buf b1)" by (auto simp: wf_buf_def)
  obtain z where z: "data b1 = data bs @ z @ []" "length z = length x"
  proof
    have "take (len bs) (data b1) = data bs" using *(3,4) by (simp add: data_def)
    then show "data b1 = data bs @ drop (len bs) (data b1) @ []"
      by (metis append_Nil2 append_take_drop_id)
    show "length (drop (len bs) (data b1)) = length x" using length_data[OF *(2)] *(3) by simp
  qed
  show "closed_to bs (data bs @ x) (b1\<lparr>buf := write_at p x (buf b1)\<rparr>)"
    using data_write_at[OF *(2) z(1,2), of p] *(1,5,6) length_data[OF wf] by (simp add: closed_to_def)
qed

lemma implements_add_space:
  assumes x: "length x < 2 ^ 64"
    and wr: "\<And>p st. ok \<Longrightarrow> p + length x \<le> length (buf (base st)) \<Longrightarrow> w p st = (Some (), store p x st)"
    and no: "\<And>p st. \<not> ok \<Longrightarrow> p + length x \<le> length (buf (base st)) \<Longrightarrow> fst (w p st) = None"
  shows "implements h (op_bind (CBB_add_space h d (length x)) w) (\<lambda>lv. if ok then spec_add d x lv else None)"
proof (rule implementsI)
  fix lv lv' assume "(if ok then spec_add d x lv else None) = Some lv'"
  then obtain l1 where "spec_flush d lv = Some l1" "lv' = append_last x l1" "l1 \<noteq> []"
    by (auto simp: spec_add_def spec_flush_def append_last_def split: if_splits)
  then show "lv_size lv \<le> lv_size lv'" using spec_flush_mono by (fastforce simp: lv_size_append_last)
next
  fix st lv r st'
  assume st: "rep st lv" and run: "op_bind (CBB_add_space h d (length x)) w st = (Some r, st')"
  then obtain s1 p b1 where s1: "CBB_flush h d st = (Some (), s1)"
    "cbb_buffer_add h (length x) (base s1) = (Some p, b1)" "w p (s1\<lparr>base := b1\<rparr>) = (Some r, st')"
    by (auto simp: CBB_add_space_def op_elims)
  obtain l1 where l1: "spec_flush d lv = Some l1" "rep s1 l1" "extends (base st) (base s1)"
    by (rule CBB_flush_Some[OF st s1(1)])
  have wf: "wf_buf (base s1)" using l1(2) by (simp add: rep_def)
  note bw = buffer_add_write[OF wf x s1(2)]
  have "ok" using no[of p "s1\<lparr>base := b1\<rparr>"] bw(2) s1(3) by fastforce
  moreover have "st' = store p x (s1\<lparr>base := b1\<rparr>)"
    using wr[of p "s1\<lparr>base := b1\<rparr>"] calculation bw(2) s1(3) by auto
  ultimately show "\<exists>lv'. (if ok then spec_add d x lv else None) = Some lv' \<and> rep st' lv' \<and> extends (base st) (base st')"
    using rep_appended[OF l1(2) bw(3)] l1(1,3) bw(3)
    by (auto simp: spec_add_def store_def closed_to_def intro: extends_trans)
next
  fix st lv lv'
  assume st: "rep st lv" and spec: "(if ok then spec_add d x lv else None) = Some lv'"
    and room: "room h (base st) (lv_size lv')"
  obtain l1 where l1: "spec_flush d lv = Some l1" "lv' = append_last x l1" "l1 \<noteq> []" and "ok"
    using spec by (auto simp: spec_add_def spec_flush_def append_last_def split: if_splits)
  have sz: "lv_size lv' = lv_size l1 + length x" using l1 by (simp add: lv_size_append_last)
  obtain s1 where s1: "CBB_flush h d st = (Some (), s1)" "rep s1 l1" "extends (base st) (base s1)"
    using implements_room[OF implements_flush st l1(1)] room_extends[OF room extends_refl] sz
    by (metis le_add1 old.unit.exhaust)
  have wf: "wf_buf (base s1)" using s1(2) by (simp add: rep_def)
  have "room h (base s1) (len (base s1) + length x)"
    using room_extends[OF room s1(3)] rep_size[OF s1(2)] sz by simp
  then obtain b1 where b1: "cbb_buffer_add h (length x) (base s1) = (Some (len (base s1)), b1)"
    using buffer_add_room[OF wf] by (metis prod.collapse)
  then show "fst (op_bind (CBB_add_space h d (length x)) w st) \<noteq> None"
    using s1(1) wr[of "len (base s1)" "s1\<lparr>base := b1\<rparr>"] buffer_add_write(2)[OF wf x b1] \<open>ok\<close>
    by (simp add: CBB_add_space_def op_bind_def on_base_def)
qed

lemma implements_add_bytes: "length x < 2 ^ 64 \<Longrightarrow> implements h (CBB_add_bytes h d x) (spec_add d x)"
  using implements_add_space[of x True "\<lambda>p st. (Some (), store p x st)" h d] by (simp add: CBB_add_bytes_def)

lemma implements_add_zeros: "n < 2 ^ 64 \<Longrightarrow> implements h (CBB_add_zeros h d n) (spec_add d (replicate n 0))"
  using implements_add_space[of "replicate n 0" True "\<lambda>p st. (Some (), store p (replicate n 0) st)" h d]
  by (simp add: CBB_add_zeros_def)

lemma implements_add_u:
  assumes "n \<le> 8"
  shows "implements h (cbb_add_u h d v n) (\<lambda>lv. if unat v < 256 ^ n then spec_add d (be_bytes n (unat v)) lv else None)"
proof -
  let ?w = "\<lambda>p st. case store_be p n v (buf (base st)) of (rest, b) \<Rightarrow>
       let st' = st\<lparr>base := (base st)\<lparr>buf := b\<rparr>\<rparr>
       in if rest \<noteq> 0 then (None, cbb_on_error d st') else (Some (), st')"
  have z: "drop_bit (8 * n) v = 0 \<longleftrightarrow> unat v < 256 ^ n" by (simp add: drop_bit_eq_0_iff power_mult)
  show ?thesis
    unfolding cbb_add_u_def
    by (rule implements_add_space[of "be_bytes n (unat v)" "unat v < 256 ^ n" ?w h d, simplified])
      (use assms in \<open>simp_all add: store_be_eq z store_def\<close>)
qed

lemma implements_add_u8: "implements h (CBB_add_u8 h d b) (spec_add d [b])"
proof -
  have u: "unat (ucast b :: uint64) = unat b"
    using byte_lt_256[of b] by (simp add: unsigned_ucast_eq take_bit_nat_eq_self)
  then show ?thesis
    using implements_add_u[of 1 h d "ucast b"] byte_lt_256[of b] by (simp add: CBB_add_u8_def)
qed

definition spec_push :: "prefix \<Rightarrow> levels \<Rightarrow> levels option" where
  "spec_push k lv = Some (lv @ [(k, [])])"

lemma implements_add_child:
  assumes "n \<le> 8" "asn1 \<longrightarrow> n = 1" "k = (if asn1 then Asn1 else Plain n)"
  shows "implements h (cbb_add_child h d n asn1) (spec_push k)"
proof -
  have size: "lv_size (lv @ [(k, [])]) = lv_size lv + n" for lv
    using assms by (auto simp: lv_size_def)
  show ?thesis
  proof (rule implementsI)
    fix st lv r st'
    assume st: "rep st lv" and run: "cbb_add_child h d n asn1 st = (Some r, st')"
    obtain p b1 where b1: "cbb_buffer_add h (length (replicate n (0::byte))) (base st) = (Some p, b1)"
      using run by (auto simp: cbb_add_child_def split: prod.splits option.splits)
    let ?c = "\<lparr>offset = len (base st), pending_len_len = n, pending_is_asn1 = asn1\<rparr>"
    have st': "st' = st\<lparr>base := b1\<lparr>buf := write_at p (replicate n 0) (buf b1)\<rparr>, kids := kids st @ [?c]\<rparr>"
      using run b1 by (auto simp: cbb_add_child_def)
    have wf: "wf_buf (base st)" using st by (simp add: rep_def)
    have cl: "closed_to (base st) (data (base st) @ replicate n 0) (b1\<lparr>buf := write_at p (replicate n 0) (buf b1)\<rparr>)"
      using buffer_add_write(3)[OF wf _ b1] assms(1) by simp
    have "wf_child ?c" "kind ?c = k" using assms by (auto simp: wf_child_def kind_def)
    then have "chain_repr 0 ((root_child # kids st) @ [?c]) (lv @ [(k, [])]) (data (base st) @ replicate n 0)"
      using chain_repr_open[of 0 "root_child # kids st" lv "data (base st)" ?c "replicate n 0"] st length_data[OF wf]
      by (simp add: rep_def)
    then have "rep st' (lv @ [(k, [])])" using cl st st' by (auto simp: rep_def closed_to_def)
    then show "\<exists>lv'. spec_push k lv = Some lv' \<and> rep st' lv' \<and> extends (base st) (base st')"
      using cl st' by (auto simp: spec_push_def closed_to_def)
  next
    fix st lv lv'
    assume st: "rep st lv" and "spec_push k lv = Some lv'" "room h (base st) (lv_size lv')"
    then have "room h (base st) (len (base st) + n)"
      using size[of lv] rep_size[OF st] by (auto simp: spec_push_def)
    then show "fst (cbb_add_child h d n asn1 st) \<noteq> None"
      using buffer_add_room[of "base st" h n] st
      by (auto simp: cbb_add_child_def rep_def split: prod.splits option.splits)
  qed (auto simp: spec_push_def size)
qed

subsection \<open>Laws of the specification\<close>

lemma append_last_append [simp]: "append_last y (append_last x lv) = append_last (x @ y) lv"
  by (simp add: append_last_def)

lemma append_last_Nil [simp]: "lv \<noteq> [] \<Longrightarrow> append_last [] lv = lv"
  by (simp add: append_last_def)

lemma spec_flush_length: "spec_flush d lv = Some lv' \<Longrightarrow> length lv' = Suc d"
  by (auto simp: spec_flush_def append_last_def split: if_splits)

lemma spec_flush_id: "length lv = Suc d \<Longrightarrow> spec_flush d lv = Some lv"
  by (cases lv) (auto simp: spec_flush_def)

lemma spec_flush_add: "Option.bind (spec_flush d lv) (spec_add d x) = spec_add d x lv"
  by (cases "spec_flush d lv") (auto simp: spec_add_def spec_flush_id dest: spec_flush_length)

lemma spec_add_length: "spec_add d x lv = Some lv' \<Longrightarrow> length lv' = Suc d"
  by (auto simp: spec_add_def append_last_def dest: spec_flush_length)

lemma spec_add_add: "Option.bind (spec_add d x lv) (spec_add d y) = spec_add d (x @ y) lv"
proof (cases "spec_flush d lv")
  case (Some l1)
  have l: "length l1 = Suc d" by (rule spec_flush_length[OF Some])
  then have "l1 \<noteq> []" by auto
  then show ?thesis using Some l by (simp add: spec_add_def spec_flush_id)
qed (simp add: spec_add_def)

text \<open>A child opened, filled and closed is its encoding appended.\<close>

lemma spec_child:
  assumes "length lv = Suc d"
  shows "Option.bind (spec_push k lv) (\<lambda>lv. Option.bind (spec_add (Suc d) x lv) (spec_flush d)) =
    Option.bind (encode_prefix k (length x)) (\<lambda>p. Some (append_last (p @ x) lv))"
proof -
  let ?l = "lv @ [(k, [])]"
  have "spec_add (Suc d) x ?l = Some (lv @ [(k, x)])"
    using assms by (simp add: spec_add_def spec_flush_id append_last_def)
  moreover have "spec_flush d (lv @ [(k, x)]) =
      map_option (\<lambda>y. append_last y lv) (map_option (\<lambda>p. p @ x) (encode_prefix k (length x)))"
    using assms by (simp add: spec_flush_def)
  ultimately show ?thesis by (cases "encode_prefix k (length x)") (simp_all add: spec_push_def)
qed

end
