(* ===== verification/CBB_Asn1.thy ===== *)
theory CBB_Asn1
  imports CBB_Spec
begin

text \<open>
  The ASN.1 writers of \<open>cbb.cc\<close> against the DER specification: tags in base 128, elements, INTEGER
  in its shortest form, OCTET STRING and BOOLEAN. What they append is what the readers of \<open>cbs.cc\<close>
  decode.
\<close>

subsection \<open>Sequences of single bytes\<close>

lemma op_bind_assoc: "op_bind (op_bind p f) g = op_bind p (\<lambda>a. op_bind (f a) g)"
  by (rule ext) (auto simp: op_bind_def split: prod.splits option.splits)

lemma op_bind_ret [simp]: "op_bind (op_ret a) f = f a" "op_bind (Pair (Some a)) f = f a"
  by (rule ext, simp add: op_bind_def)+

lemma op_bind_ret_right [simp]: "op_bind p op_ret = p" "op_bind p (\<lambda>_ :: unit. op_ret ()) = p"
  by (rule ext, auto simp: op_bind_def split: prod.splits option.splits)+

lemma op_each_append: "op_each f (xs @ ys) = op_bind (op_each f xs) (\<lambda>_. op_each f ys)"
  by (induction xs) (simp_all add: op_bind_assoc)

lemma op_each_map: "op_each f (map g xs) = op_each (\<lambda>x. f (g x)) xs"
  by (induction xs) simp_all

lemma implements_each_u8:
  "xs \<noteq> [] \<Longrightarrow> implements h (op_each (CBB_add_u8 h d) xs) (spec_add d xs)"
proof (induction xs)
  case (Cons x xs)
  show ?case
  proof (cases xs)
    case Nil
    then show ?thesis using implements_add_u8[of h d x] by simp
  next
    case (Cons y ys)
    then have "implements h (op_each (CBB_add_u8 h d) xs) (spec_add d xs)" using Cons.IH by simp
    from implements_bind[OF implements_add_u8[of h d x] this] show ?thesis
      by (simp add: spec_add_add)
  qed
qed simp

subsection \<open>Base-128 integers and tags\<close>

lemma base128_len_0 [simp]: "base128_len 0 n = 0"
  by (cases n) simp_all

lemma base128_digits:
  "w < 128 ^ n \<Longrightarrow>
   map (\<lambda>i. byte_of (128 + w div 128 ^ i mod 128)) (rev [0..<base128_len (u64_of w) n]) = b128_hi w"
  if "w < 2 ^ 64" for w
  using that
proof (induction n arbitrary: w)
  case (Suc n)
  show ?case
  proof (cases "w = 0")
    case True
    then show ?thesis by (simp add: u64_of_def)
  next
    case False
    have u: "unat (u64_of w) = w" using Suc.prems by (simp add: unat_u64_of)
    then have pos: "u64_of w > 0" using False by (metis unat_0 word_gt_0)
    have shift: "drop_bit 7 (u64_of w) = u64_of (w div 128)"
      by (rule u64_eq_u64_of) (simp add: unat_drop_bit u)
    let ?k = "base128_len (u64_of (w div 128)) n"
    have upt: "rev [0..<Suc ?k] = map Suc (rev [0..<?k]) @ [0]"
      by (simp add: rev_map[symmetric] map_Suc_upt upt_conv_Cons del: upt_Suc)
    have "w div 128 < 128 ^ n" using Suc.prems by (simp add: less_mult_imp_div_less mult.commute)
    then have "map (\<lambda>i. byte_of (128 + w div 128 div 128 ^ i mod 128)) (rev [0..<?k]) = b128_hi (w div 128)"
      using Suc by simp
    then show ?thesis
      using pos shift False by (simp add: upt b128_hi_step[OF False] div_mult2_eq comp_def del: upt_Suc)
  qed
qed simp

lemma base128_digit_eq:
  "base128_digit v i = byte_of ((if i = 0 then 0 else 128) + unat v div 128 ^ i mod 128)"
proof -
  let ?b = "ucast (drop_bit (7 * i) v) AND 0x7f :: byte"
  have "unat (ucast (drop_bit (7 * i) v) :: byte) = unat v div 128 ^ i mod 256"
    by (simp add: unsigned_ucast_eq unat_drop_bit take_bit_eq_mod power_mult)
  then have u: "unat ?b = unat v div 128 ^ i mod 128"
    by (simp add: unat_and_7f mod_mod_cancel)
  have "?b AND 0x80 = 0" by (simp add: and.assoc)
  then have "?b OR 0x80 = ?b + 0x80" by (simp add: disjunctive_add_eq_or)
  then have "unat (?b OR 0x80) = unat ?b + 128" using u by (simp add: unat_word_ariths)
  then have "?b OR 0x80 = byte_of (128 + unat v div 128 ^ i mod 128)" using u by (intro byte_eq_byte_of) simp
  moreover have "?b = byte_of (unat v div 128 ^ i mod 128)" using u by (rule byte_eq_byte_of)
  ultimately show ?thesis unfolding base128_digit_def Let_def by (simp only: if_distrib split: if_splits) simp
qed

lemma implements_base128:
  "implements h (add_base128_integer h d v) (spec_add d (base128_bytes (unat v)))"
proof -
  define n where "n = base128_len v 10"
  let ?len = "if n = 0 then 1 else n"
  have v: "u64_of (unat v) = v" by simp
  have "map (base128_digit v) (rev [0..<?len]) = base128_bytes (unat v)"
  proof (cases "v = 0")
    case True
    then show ?thesis by (simp add: n_def base128_digit_eq base128_bytes_def b128_hi.simps)
  next
    case False
    have pos: "v > 0" using False by (simp add: word_gt_0)
    let ?k = "base128_len (u64_of (unat v div 128)) 9"
    have shift: "drop_bit 7 v = u64_of (unat v div 128)" by (rule u64_eq_u64_of) (simp add: unat_drop_bit)
    have n: "n = Suc ?k" using pos shift base128_len.simps(2)[of v 9] by (simp add: n_def)
    have "unat v div 128 < 128 ^ 9" using u64_lt[of v] by simp
    then have "map (\<lambda>i. byte_of (128 + unat v div 128 div 128 ^ i mod 128)) (rev [0..<?k]) = b128_hi (unat v div 128)"
      using base128_digits[of "unat v div 128" 9] u64_lt[of v] by simp
    moreover have "rev [0..<Suc ?k] = map Suc (rev [0..<?k]) @ [0]"
      by (simp add: rev_map[symmetric] map_Suc_upt upt_conv_Cons del: upt_Suc)
    ultimately show ?thesis
      using n by (simp add: base128_digit_eq base128_bytes_def div_mult2_eq comp_def del: upt_Suc)
  qed
  moreover have "add_base128_integer h d v = op_each (CBB_add_u8 h d) (map (base128_digit v) (rev [0..<?len]))"
    by (simp add: add_base128_integer_def Let_def n_def op_each_map)
  ultimately show ?thesis by (simp add: implements_each_u8 base128_bytes_def)
qed

lemma tag_parts:
  fixes t :: asn1_tag
  shows "unat (ucast (drop_bit 24 t) AND 0xe0 :: byte) = 32 * (unat t div 2 ^ 29)"
    and "unat (t AND CBS_ASN1_TAG_NUMBER_MASK) = unat t mod 2 ^ 29"
proof -
  show "unat (t AND CBS_ASN1_TAG_NUMBER_MASK) = unat t mod 2 ^ 29"
    using unat_and_mask[of t 29] by (simp add: mask_eq_exp_minus_1)
  have e0: "(0xe0 :: byte) = push_bit 5 (mask 3)" by (simp add: mask_eq_exp_minus_1)
  have "(ucast (drop_bit 24 t) AND 0xe0 :: byte) = push_bit 5 (ucast (drop_bit 29 t))"
    unfolding e0 by (rule bit_word_eqI) (auto simp: bit_simps dest: bit_imp_le_length)
  moreover have "unat t div 2 ^ 29 < 8" using unsigned_less[of t, where ?'a = nat] by simp
  then have "unat (ucast (drop_bit 29 t) :: byte) = unat t div 2 ^ 29"
    by (simp add: unsigned_ucast_eq unat_drop_bit take_bit_nat_eq_self)
  ultimately show "unat (ucast (drop_bit 24 t) AND 0xe0 :: byte) = 32 * (unat t div 2 ^ 29)"
    using \<open>unat t div 2 ^ 29 < 8\<close> by (simp add: push_bit_eq_mult unat_word_ariths)
qed

lemma unat_or_disjoint:
  assumes "unat (a :: byte) = 32 * k" "k < 8" "unat (b :: byte) < 32" shows "unat (a OR b) = 32 * k + unat b"
proof -
  have a: "a = push_bit 5 (of_nat k)"
    using assms(1,2) by (simp add: word_unat_eq_iff push_bit_eq_mult unat_word_ariths unat_of_nat)
  have "b = take_bit 5 b"
    using assms(3) by (simp add: word_unat_eq_iff unsigned_take_bit_eq take_bit_nat_eq_self)
  then have "\<not> bit b m" if "5 \<le> m" for m using that by (metis bit_take_bit_iff not_less)
  then have "a AND b = 0" unfolding a by (intro bit_word_eqI) (auto simp: bit_simps)
  then have "a OR b = a + b" by (simp add: disjunctive_add_eq_or)
  then show ?thesis using assms by (simp add: unat_word_ariths)
qed

definition spec_asn1 :: "nat \<Rightarrow> asn1_tag \<Rightarrow> levels \<Rightarrow> levels option" where
  "spec_asn1 d t lv = Option.bind (spec_add d (der_tag t) lv) (spec_push Asn1)"

lemma implements_asn1: "implements h (CBB_add_asn1 h d t) (spec_asn1 d t)"
proof -
  let ?bits = "ucast (drop_bit 24 t) AND 0xe0 :: byte" and ?num = "t AND CBS_ASN1_TAG_NUMBER_MASK"
  define k where "k = unat t div 2 ^ 29"
  have k: "k < 8" using unsigned_less[of t, where ?'a = nat] by (simp add: k_def)
  have bits: "unat ?bits = 32 * k" using tag_parts(1)[of t] by (simp add: k_def)
  have num: "unat ?num = unat t mod 2 ^ 29" by (rule tag_parts(2))
  have lt: "unat ?num < 2 ^ 29" using num by simp
  have t: "unat t = 2 ^ 29 * k + unat ?num" using num by (simp add: k_def)
  let ?tag = "if ?num \<ge> 0x1f
     then op_bind (CBB_add_u8 h d (?bits OR 0x1f)) (\<lambda>_. add_base128_integer h d (ucast ?num))
     else CBB_add_u8 h d (?bits OR ucast ?num)"
  have tag: "implements h ?tag (spec_add d (der_tag t))"
  proof (cases "31 \<le> unat ?num")
    case True
    have "?bits OR 0x1f = byte_of (32 * k + 31)"
      using unat_or_disjoint[OF bits k, of "0x1f"] by (intro byte_eq_byte_of) simp
    moreover have "unat (ucast ?num :: uint64) = unat ?num" by (rule unat_ucast_32_64)
    ultimately have "der_tag t = [?bits OR 0x1f] @ base128_bytes (unat (ucast ?num :: uint64))"
      using der_tag_of_parts[OF t lt] True by simp
    then show ?thesis
      using implements_bind[OF implements_add_u8[of h d "?bits OR 0x1f"] implements_base128[of h d "ucast ?num"]] True
      by (simp add: spec_add_add word_le_nat_alt)
  next
    case False
    have "unat (ucast ?num :: byte) = unat ?num"
      using False by (simp add: unsigned_ucast_eq take_bit_nat_eq_self)
    then have "?bits OR ucast ?num = byte_of (32 * k + unat ?num)"
      using unat_or_disjoint[OF bits k, of "ucast ?num"] False by (intro byte_eq_byte_of) simp
    then have "der_tag t = [?bits OR ucast ?num]" using der_tag_of_parts[OF t lt] False by simp
    then show ?thesis
      using implements_add_u8[of h d "?bits OR ucast ?num"] False by (simp add: word_le_nat_alt)
  qed
  have "implements h (CBB_add_asn1 h d t)
      (\<lambda>lv. Option.bind (spec_flush d lv) (\<lambda>lv. Option.bind (spec_add d (der_tag t) lv) (spec_push Asn1)))"
    unfolding CBB_add_asn1_def Let_def
    by (intro implements_bind implements_flush tag implements_add_child) simp_all
  moreover have "Option.bind (spec_flush d lv) (\<lambda>lv. Option.bind (spec_add d (der_tag t) lv) (spec_push Asn1)) =
      spec_asn1 d t lv" for lv
    using spec_flush_add[of d lv "der_tag t"] by (simp add: spec_asn1_def bind_assoc[symmetric])
  ultimately show ?thesis by simp
qed

text \<open>An element written through a child is the element appended.\<close>

lemma spec_element:
  "Option.bind (spec_asn1 d t lv) (\<lambda>lv. Option.bind (spec_add (Suc d) x lv) (spec_flush d)) =
     (if length x \<le> 0xfffffffe then spec_add d (der_element t x) lv else None)"
proof (cases "spec_add d (der_tag t) lv")
  case (Some l1)
  note len = spec_add_length[OF Some]
  have e: "spec_add d (der_element t x) lv = Some (append_last (der_len (length x) @ x) l1)"
    using spec_add_add[of d "der_tag t" lv "der_len (length x) @ x"] Some len
    by (simp add: der_element_def der_header_def spec_add_def[of d _ l1] spec_flush_id)
  have a: "spec_asn1 d t lv = spec_push Asn1 l1" using Some by (simp add: spec_asn1_def)
  show ?thesis unfolding a e spec_child[OF len] by simp
qed (use spec_add_add[of d "der_tag t" lv "der_len (length x) @ x"] in
      \<open>simp add: spec_asn1_def der_element_def der_header_def\<close>)

lemma implements_element:
  assumes "implements h body (spec_add (Suc d) x)"
  shows "implements h (op_bind (CBB_add_asn1 h d t) (\<lambda>_. op_bind body (\<lambda>_. CBB_flush h d)))
    (\<lambda>lv. if length x \<le> 0xfffffffe then spec_add d (der_element t x) lv else None)"
  using implements_bind[OF implements_asn1[of h d t] implements_bind[OF assms implements_flush[of h d]]]
  by (simp add: spec_element)

lemma implements_asn1_octet_string:
  "length x < 2 ^ 64 \<Longrightarrow> implements h (CBB_add_asn1_octet_string h d x)
     (\<lambda>lv. if length x \<le> 0xfffffffe then spec_add d (der_element CBS_ASN1_OCTETSTRING x) lv else None)"
  unfolding CBB_add_asn1_octet_string_def
  by (intro implements_or_error implements_element) (simp add: implements_add_bytes)

lemma implements_asn1_bool:
  "implements h (CBB_add_asn1_bool h d v) (spec_add d (der_element CBS_ASN1_BOOLEAN [if v then 0xff else 0]))"
  using implements_or_error[OF implements_element[OF implements_add_u8[of h "Suc d" "if v then 0xff else 0"],
      of CBS_ASN1_BOOLEAN], of d]
  by (simp add: CBB_add_asn1_bool_def)

subsection \<open>INTEGER\<close>

text \<open>The octets the loop over the eight bytes of the value writes.\<close>

fun emit :: "bool \<Rightarrow> byte list \<Rightarrow> byte list" where
  "emit started [] = []"
| "emit started (b # bs) =
     (if \<not> started \<and> b = 0 then emit False bs
      else (if \<not> started \<and> b AND 0x80 \<noteq> 0 then [0] else []) @ b # emit True bs)"

definition value_byte :: "uint64 \<Rightarrow> nat \<Rightarrow> byte" where
  "value_byte v i = ucast (drop_bit (8 * (7 - i)) v AND 0xff)"

lemma uint64_loop_eq:
  "uint64_loop h d v started is =
     op_bind (op_each (CBB_add_u8 h d) (emit started (map (value_byte v) is)))
       (\<lambda>_. op_ret (started \<or> (\<exists>i\<in>set is. value_byte v i \<noteq> 0)))"
  by (induction h d v started "is" rule: uint64_loop.induct)
    (auto simp: Let_def value_byte_def[symmetric] op_bind_assoc)

lemma emit_True [simp]: "emit True bs = bs"
  by (induction bs) simp_all

lemma be_val_0_Cons [simp]: "be_val (0 # bs) = be_val bs"
  by (simp add: be_val_Cons)

lemma be_val_emit: "be_val (emit False bs) = be_val bs"
  by (induction bs) auto

lemma padded_unsigned:
  assumes "b \<noteq> 0" shows "CBS_is_unsigned_asn1_integer ((if b AND 0x80 \<noteq> 0 then [0] else []) @ b # bs)"
proof (cases "b AND 0x80 = 0")
  case True
  then have "b \<noteq> 0xff" by auto
  then show ?thesis
    using assms True
    by (simp add: CBS_is_unsigned_asn1_integer_def CBS_is_valid_asn1_integer_def split: list.splits)
qed (simp add: CBS_is_unsigned_asn1_integer_def CBS_is_valid_asn1_integer_def)

lemma emit_unsigned: "emit False bs \<noteq> [] \<Longrightarrow> CBS_is_unsigned_asn1_integer (emit False bs)"
proof (induction bs)
  case (Cons b bs)
  then show ?case using padded_unsigned[of b bs] by (cases "b = 0") simp_all
qed simp

lemma uint_contents_0: "uint_contents 0 = [0]"
  by (simp add: uint_contents_def uint_len_small)

lemma emit_Nil_iff: "emit False bs = [] \<longleftrightarrow> (\<forall>b\<in>set bs. b = 0)"
  by (induction bs) auto

lemma emit_contents:
  "(if \<exists>b\<in>set bs. b \<noteq> 0 then emit False bs else emit False bs @ [0]) = uint_contents (be_val bs)"
proof (cases "\<exists>b\<in>set bs. b \<noteq> 0")
  case True
  then have "CBS_is_unsigned_asn1_integer (emit False bs)" by (intro emit_unsigned) (simp add: emit_Nil_iff)
  then show ?thesis using True unsigned_integer_contents[of "emit False bs"] by (simp add: be_val_emit)
next
  case False
  then have "emit False bs = []" by (simp add: emit_Nil_iff)
  moreover have "be_val bs = 0" using be_val_emit[of bs] calculation by simp
  ultimately show ?thesis using False uint_contents_0 by auto
qed

lemma be_bytes_map: "be_bytes n v = map (\<lambda>i. of_nat (v div 256 ^ (n - 1 - i))) [0..<n]"
proof (induction n arbitrary: v)
  case (Suc n)
  have "(of_nat (v div 256 div 256 ^ (n - 1 - i)) :: byte) = of_nat (v div 256 ^ (n - i))" if "i < n" for i
  proof -
    have "(256 :: nat) ^ (n - i) = 256 * 256 ^ (n - 1 - i)"
      using that by (metis One_nat_def Suc_diff_Suc diff_Suc_eq_diff_pred power_Suc)
    then show ?thesis by (simp add: div_mult2_eq)
  qed
  then show ?case using Suc by simp
qed simp

lemma value_byte_eq: "value_byte v i = of_nat (unat v div 256 ^ (7 - i))"
proof -
  have "unat (ucast (drop_bit (8 * (7 - i)) v AND 0xff) :: byte) = unat (drop_bit (8 * (7 - i)) v AND 0xff) mod 256"
    by (simp add: unsigned_ucast_eq take_bit_eq_mod)
  also have "unat (drop_bit (8 * (7 - i)) v AND 0xff) = unat (drop_bit (8 * (7 - i)) v) mod 256"
    using unat_and_mask[of "drop_bit (8 * (7 - i)) v" 8] by (simp add: mask_eq_exp_minus_1)
  also have "unat (drop_bit (8 * (7 - i)) v) = unat v div 256 ^ (7 - i)"
    by (simp add: unat_drop_bit power_mult)
  finally show ?thesis by (simp add: value_byte_def word_unat_eq_iff unat_of_nat_byte)
qed

lemma value_bytes: "map (value_byte v) [0..<8] = be_bytes 8 (unat v)"
  by (simp add: be_bytes_map value_byte_eq)

lemma uint64_body:
  "op_bind (uint64_loop h d v False [0..<8]) (\<lambda>started. if \<not> started then CBB_add_u8 h d 0 else op_ret ()) =
     op_each (CBB_add_u8 h d) (uint_contents (unat v))"
proof -
  have "(256 :: nat) ^ 8 = 2 ^ 64" by simp
  then have v: "be_val (be_bytes 8 (unat v)) = unat v" using u64_lt[of v] by (intro be_val_be_bytes) simp
  have ex: "(\<exists>i\<in>set [0..<8]. value_byte v i \<noteq> 0) \<longleftrightarrow> (\<exists>b\<in>set (be_bytes 8 (unat v)). b \<noteq> 0)"
    unfolding value_bytes[symmetric] by auto
  show ?thesis
    unfolding uint64_loop_eq op_bind_assoc value_bytes ex
    using emit_contents[of "be_bytes 8 (unat v)", unfolded v, symmetric]
    by (simp add: op_each_append)
qed

lemma implements_element_err:
  assumes "implements h body (spec_add (Suc d) x)"
  shows "implements h (op_bind (or_error d (op_bind (CBB_add_asn1 h d t) (\<lambda>_. body))) (\<lambda>_. CBB_flush h d))
    (\<lambda>lv. if length x \<le> 0xfffffffe then spec_add d (der_element t x) lv else None)"
  using implements_bind[OF implements_or_error[OF implements_bind[OF implements_asn1[of h d t] assms]]
      implements_flush[of h d], of d]
  by (simp add: spec_element bind_assoc)

lemma uint_contents_short: "n < 2 ^ 64 \<Longrightarrow> length (uint_contents n) \<le> 9"
  using uint_len_le[of n 8] by simp

lemma uint_contents_nonempty: "uint_contents n \<noteq> []"
  using uint_len_pos[of n] by (metis length_uint_contents list.size(3) not_one_le_zero)

lemma implements_asn1_uint64_with_tag:
  "implements h (CBB_add_asn1_uint64_with_tag h d v t) (spec_add d (der_element t (uint_contents (unat v))))"
  using implements_element_err[OF implements_each_u8[OF uint_contents_nonempty[of "unat v"]], of h d t]
    uint_contents_short[OF u64_lt[of v]]
  unfolding CBB_add_asn1_uint64_with_tag_def uint64_body by simp

text \<open>The loop over redundant sign bytes.\<close>

lemma int64_start_props:
  "int64_start bs n \<le> n"
  "int64_start bs n < i \<Longrightarrow> i \<le> n \<Longrightarrow> bs ! i = 0xff"
  "int64_start bs n < n \<Longrightarrow> bs ! int64_start bs n AND 0x80 \<noteq> 0"
  "int64_start bs n = Suc m \<Longrightarrow> bs ! Suc m \<noteq> 0xff \<or> bs ! m AND 0x80 = 0"
proof (induction n)
  case (Suc n)
  { case 1 then show ?case using Suc.IH(1) by simp }
  { case 2 then show ?case using Suc.IH(2) by (cases "i = Suc n") (auto split: if_splits) }
  { case 3 then show ?case using Suc.IH(1,3) by (cases "int64_start bs n = n") (auto split: if_splits) }
  { case 4 then show ?case using Suc.IH(4) by (auto split: if_splits) }
qed simp_all

lemma rev_le_bytes8: "map (\<lambda>i. le_bytes8 v ! i) (rev [0..<8]) = be_bytes 8 (unat v)"
proof -
  have "le_bytes8 v ! i = value_byte v (7 - i)" if "i < 8" for i
  proof -
    have "unat (ucast (drop_bit (8 * i) v) :: byte) = unat v div 256 ^ i mod 256"
      by (simp add: unsigned_ucast_eq take_bit_eq_mod unat_drop_bit power_mult)
    then show ?thesis
      using that by (simp add: le_bytes8_def value_byte_eq word_unat_eq_iff unat_of_nat_byte)
  qed
  then have "map (\<lambda>i. le_bytes8 v ! i) (rev [0..<8]) = map (\<lambda>i. value_byte v (7 - i)) (rev [0..<8])" by simp
  also have "\<dots> = map (value_byte v) [0..<8]" by (intro nth_equalityI) (auto simp: rev_nth)
  finally show ?thesis by (simp only: value_bytes)
qed

lemma load_be_bytes8: "load_be (be_bytes 8 (unat v)) = v"
proof -
  have "(256 :: nat) ^ 8 = 2 ^ 64" by simp
  then have "be_val (be_bytes 8 (unat v)) = unat v" using u64_lt[of v] by (intro be_val_be_bytes) simp
  then show ?thesis by (simp add: load_be_eq)
qed

lemma negative_top_bit: assumes "sint (v :: uint64) < 0" shows "le_bytes8 v ! 7 AND 0x80 \<noteq> 0"
proof -
  have "2 ^ 63 \<le> unat v" using assms sint_small[of v] by (cases "unat v < 2 ^ 63") auto
  then have "128 \<le> unat v div 256 ^ 7" by (simp add: less_eq_div_iff_mult_less_eq)
  moreover have "unat v div 256 ^ 7 < 256" using u64_lt[of v] by simp
  moreover have "unat (le_bytes8 v ! 7) = unat v div 256 ^ 7 mod 256"
    by (simp add: le_bytes8_def unsigned_ucast_eq take_bit_eq_mod unat_drop_bit)
  ultimately show ?thesis by (simp add: and_80_iff)
qed

lemma negative_contents:
  assumes neg: "sint (v :: uint64) < 0" and s: "s = int64_start (le_bytes8 v) 7"
  shows "map (\<lambda>i. le_bytes8 v ! i) (rev [0..<s + 1]) = int_contents (sint v)" (is "?c = _")
proof -
  let ?b = "\<lambda>i. le_bytes8 v ! i"
  note p = int64_start_props[of "le_bytes8 v" 7, folded s]
  have top: "?b s AND 0x80 \<noteq> 0" using p(1,3) negative_top_bit[OF neg] by (cases "s = 7") auto
  have valid: "CBS_is_valid_asn1_integer ?c = Some True"
  proof (cases s)
    case (Suc m)
    have "?b s \<noteq> 0xff \<or> ?b m AND 0x80 = 0" using p(4) Suc by simp
    moreover have "?b s \<noteq> 0" using top by auto
    ultimately show ?thesis using top Suc by (auto simp: CBS_is_valid_asn1_integer_def)
  qed (use top in \<open>simp add: CBS_is_valid_asn1_integer_def\<close>)
  obtain w where w: "?c = int_contents w" by (rule int_contents_complete[OF valid])
  have lt: "w < 0" using valid int_contents_valid[of w] unfolding w by simp
  have split: "rev [0..<8] = rev [s + 1..<8] @ rev [0..<s + 1]"
    using p(1) upt_add_eq_append[of 0 "s + 1" "7 - s"] by (simp del: upt_Suc)
  have "map ?b (rev [s + 1..<8]) = replicate (7 - s) 0xff"
    using p(2) by (intro nth_equalityI) (auto simp: rev_nth)
  then have "be_bytes 8 (unat v) = replicate (8 - length ?c) 0xff @ ?c"
    using rev_le_bytes8[of v] p(1) unfolding split by (simp del: upt_Suc)
  then have "sint v = w"
    using sint_sign_extend[of w] load_be_bytes8[of v] lt p(1) unfolding w[symmetric] by simp
  then show ?thesis using w by simp
qed

lemma implements_asn1_int64_with_tag:
  "implements h (CBB_add_asn1_int64_with_tag h d v t) (spec_add d (der_element t (int_contents (sint v))))"
proof (cases "sint v \<ge> 0")
  case True
  then have "sint v = int (unat v)"
    using sint_small[of v] sint_large[of v] unsigned_less[of v, where ?'a = int]
    by (cases "unat v < 2 ^ 63") auto
  then show ?thesis
    using True implements_asn1_uint64_with_tag[of h d v t]
    by (simp add: CBB_add_asn1_int64_with_tag_def int_contents_def)
next
  case False
  let ?s = "int64_start (le_bytes8 v) 7" and ?b = "\<lambda>i. le_bytes8 v ! i"
  have c: "map ?b (rev [0..<?s + 1]) = int_contents (sint v)" using False by (intro negative_contents) simp_all
  have body: "op_each (\<lambda>i. CBB_add_u8 h (d + 1) (?b i)) (rev [0..<?s + 1]) =
      op_each (CBB_add_u8 h (Suc d)) (int_contents (sint v))"
    using op_each_map[of "CBB_add_u8 h (d + 1)" ?b "rev [0..<?s + 1]"] unfolding c by simp
  have "int_contents (sint v) \<noteq> []" unfolding c[symmetric] by simp
  moreover have "length (int_contents (sint v)) \<le> 8"
    using int64_start_props(1)[of "le_bytes8 v" 7] arg_cong[OF c, of length] by simp
  ultimately show ?thesis
    using implements_element_err[OF implements_each_u8, of "int_contents (sint v)" h d t] False
    unfolding CBB_add_asn1_int64_with_tag_def Let_def body by simp
qed

end
