(* ===== verification/CBB_Props.thy ===== *)
theory CBB_Props
  imports CBB_Asn1
begin

text \<open>
  What a client of the byte-string writer gets: a build is a sequence of calls on a fresh object
  and \<open>CBB_finish\<close>. The theorems compare it with the stack specification, for buffers that grow and
  for buffers of fixed size, and with the readers of \<open>cbs.cc\<close>.
\<close>

subsection \<open>Builds\<close>

text \<open>The calls a client makes, each with the depth of the object it is made on.\<close>

datatype cbb_call =
    AddBytes nat "byte list"
  | AddZeros nat nat
  | AddU nat nat uint64
  | OpenPrefixed nat nat
  | OpenAsn1 nat asn1_tag
  | AddUint64 nat uint64 asn1_tag
  | AddInt64 nat uint64 asn1_tag
  | AddOctetString nat "byte list"
  | AddBool nat bool
  | Flush nat

fun run_call :: "heap \<Rightarrow> cbb_call \<Rightarrow> (cbb, unit) op" where
  "run_call h (AddBytes d x) = CBB_add_bytes h d x"
| "run_call h (AddZeros d n) = CBB_add_zeros h d n"
| "run_call h (AddU d n v) = cbb_add_u h d v n"
| "run_call h (OpenPrefixed d n) = cbb_add_length_prefixed h d n"
| "run_call h (OpenAsn1 d t) = CBB_add_asn1 h d t"
| "run_call h (AddUint64 d v t) = CBB_add_asn1_uint64_with_tag h d v t"
| "run_call h (AddInt64 d v t) = CBB_add_asn1_int64_with_tag h d v t"
| "run_call h (AddOctetString d x) = CBB_add_asn1_octet_string h d x"
| "run_call h (AddBool d v) = CBB_add_asn1_bool h d v"
| "run_call h (Flush d) = CBB_flush h d"

text \<open>Arguments a caller can pass: sizes are \<open>size_t\<close>, integers and prefixes have at most eight bytes.\<close>

fun call_ok :: "cbb_call \<Rightarrow> bool" where
  "call_ok (AddBytes d x) \<longleftrightarrow> length x < 2 ^ 64"
| "call_ok (AddZeros d n) \<longleftrightarrow> n < 2 ^ 64"
| "call_ok (AddU d n v) \<longleftrightarrow> n \<le> 8"
| "call_ok (OpenPrefixed d n) \<longleftrightarrow> n \<le> 8"
| "call_ok (AddOctetString d x) \<longleftrightarrow> length x < 2 ^ 64"
| "call_ok _ \<longleftrightarrow> True"

fun spec_call :: "cbb_call \<Rightarrow> levels \<Rightarrow> levels option" where
  "spec_call (AddBytes d x) = spec_add d x"
| "spec_call (AddZeros d n) = spec_add d (replicate n 0)"
| "spec_call (AddU d n v) = (\<lambda>lv. if unat v < 256 ^ n then spec_add d (be_bytes n (unat v)) lv else None)"
| "spec_call (OpenPrefixed d n) = spec_open d (Plain n)"
| "spec_call (OpenAsn1 d t) = spec_asn1 d t"
| "spec_call (AddUint64 d v t) = spec_add d (der_element t (uint_contents (unat v)))"
| "spec_call (AddInt64 d v t) = spec_add d (der_element t (int_contents (sint v)))"
| "spec_call (AddOctetString d x) = (\<lambda>lv.
     if length x \<le> 0xfffffffe then spec_add d (der_element CBS_ASN1_OCTETSTRING x) lv else None)"
| "spec_call (AddBool d v) = spec_add d (der_element CBS_ASN1_BOOLEAN [if v then 0xff else 0])"
| "spec_call (Flush d) = spec_flush d"

fun spec_calls :: "cbb_call list \<Rightarrow> levels \<Rightarrow> levels option" where
  "spec_calls [] lv = Some lv"
| "spec_calls (c # cs) lv = Option.bind (spec_call c lv) (spec_calls cs)"

definition build :: "heap \<Rightarrow> cbb_call list \<Rightarrow> (cbb, byte list) op" where
  "build h cs = op_bind (op_each (run_call h) cs) (\<lambda>_. CBB_finish h 0)"

definition spec_build :: "cbb_call list \<Rightarrow> byte list option" where
  "spec_build cs = map_option (\<lambda>lv. snd (lv ! 0)) (Option.bind (spec_calls cs [(Plain 0, [])]) (spec_flush 0))"

lemma implements_length_prefixed:
  assumes "n \<le> 8" shows "implements h (cbb_add_length_prefixed h d n) (spec_open d (Plain n))"
proof -
  have "implements h (cbb_add_child h d n False) (spec_push (Plain n))"
    using assms by (intro implements_add_child) auto
  from implements_bind[OF implements_flush[of h d] this]
  have "implements h (cbb_add_length_prefixed h d n) (\<lambda>lv. Option.bind (spec_flush d lv) (spec_push (Plain n)))"
    by (simp add: cbb_add_length_prefixed_def)
  moreover have "Option.bind (spec_flush d lv) (spec_push (Plain n)) = spec_open d (Plain n) lv" for lv
    by (cases "spec_flush d lv") (simp_all add: spec_open_def spec_push_def)
  ultimately show ?thesis by simp
qed

lemmas implements_ops = implements_add_bytes implements_add_zeros implements_add_u
  implements_length_prefixed implements_asn1 implements_asn1_uint64_with_tag
  implements_asn1_int64_with_tag implements_asn1_octet_string implements_asn1_bool implements_flush

lemma implements_call: "call_ok c \<Longrightarrow> implements h (run_call h c) (spec_call c)"
  by (cases c) (simp_all only: call_ok.simps run_call.simps spec_call.simps implements_ops)

lemma implements_calls: "list_all call_ok cs \<Longrightarrow> implements h (op_each (run_call h) cs) (spec_calls cs)"
proof (induction cs)
  case Nil
  have "spec_calls [] = Some" by (rule ext) simp
  then show ?case by (simp only: op_each.simps implements_ret)
next
  case (Cons c cs)
  have "spec_calls (c # cs) = (\<lambda>lv. Option.bind (spec_call c lv) (spec_calls cs))" by (rule ext) simp
  then show ?case using Cons implements_bind[OF implements_call[of c h], of "\<lambda>_. op_each (run_call h) cs"] by simp
qed

lemma rep_init: "length b = n \<Longrightarrow> n < 2 ^ 64 \<Longrightarrow> rep (cbb_init b n r) [(Plain 0, [])]"
  using chain_repr_ConsI[of root_child 0 "[]" "[]" "[]" "[]" "[]"]
  by (simp add: rep_def cbb_init_def wf_buf_def data_def root_child_def wf_child_def kind_def)

lemma rep_root: assumes "rep st [(k, x)]" shows "data (base st) = x"
proof -
  have "chain_repr 0 (root_child # kids st) [(k, x)] (data (base st))" using assms by (simp add: rep_def)
  then obtain pre y d' lv' where "data (base st) = pre @ y @ d'" "length pre = pending_len_len root_child"
    "[(k, x)] = (kind root_child, y) # lv'" "chain_repr (0 + length pre + length y) (kids st) lv' d'"
    by (rule chain_repr_ConsE)
  then show ?thesis using chain_repr_length[of _ "kids st" "[]" d'] by (simp add: root_child_def lv_size_def)
qed

text \<open>\<open>CBB_finish\<close> after calls that implement \<open>P\<close>.\<close>

lemma build_Some:
  assumes p: "implements h p P" and st: "rep st lv" and run: "op_bind p (\<lambda>_. CBB_finish h 0) st = (Some out, st')"
  shows "map_option (\<lambda>lv. snd (lv ! 0)) (Option.bind (P lv) (spec_flush 0)) = Some out" and "length out \<le> cap (base st')"
    and "extends (base st) (base st')"
proof -
  obtain r s1 s2 where s: "p st = (Some r, s1)" "CBB_flush h 0 s1 = (Some (), s2)"
    "out = take (len (base s2)) (buf (base s2))" "st' = s2\<lparr>base := (base s2)\<lparr>buf := []\<rparr>\<rparr>"
    using run by (auto simp: op_elims CBB_finish_def)
  obtain l1 where l1: "P lv = Some l1" "rep s1 l1" "extends (base st) (base s1)"
    by (rule implements_Some[OF p st s(1)])
  obtain l2 where l2: "spec_flush 0 l1 = Some l2" "rep s2 l2" "extends (base s1) (base s2)" "length l2 = Suc 0"
    by (rule CBB_flush_Some[OF l1(2) s(2)])
  obtain k x where x: "l2 = [(k, x)]" using l2(4) by (cases l2) auto
  then have "data (base s2) = x" using rep_root l2(2) by blast
  then show "map_option (\<lambda>lv. snd (lv ! 0)) (Option.bind (P lv) (spec_flush 0)) = Some out"
    using l1(1) l2(1) x s(3) by (simp add: data_def)
  have "wf_buf (base s2)" using l2(2) by (simp add: rep_def)
  then show "length out \<le> cap (base st')" using s(3,4) by (auto simp: wf_buf_def)
  show "extends (base st) (base st')" using extends_trans[OF l1(3) l2(3)] s(4) by simp
qed

lemma build_room:
  assumes p: "implements h p P" and st: "rep st lv" and spec: "Option.bind (P lv) (spec_flush 0) = Some [(k, out)]"
    and room: "room h (base st) (prefix_size k + length out)"
  shows "fst (op_bind p (\<lambda>_. CBB_finish h 0) st) = Some out"
proof -
  have sz: "lv_size [(k, out)] = prefix_size k + length out" by (simp add: lv_size_def)
  from implements_room[OF implements_bind[OF p implements_flush[of h 0]] st spec]
  obtain r s2 where s2: "op_bind p (\<lambda>_. CBB_flush h 0) st = (Some r, s2)" "rep s2 [(k, out)]"
    using room sz by auto
  have "op_bind p (\<lambda>_. CBB_finish h 0) = op_bind (op_bind p (\<lambda>_. CBB_flush h 0)) (\<lambda>_ st.
       (Some (take (len (base st)) (buf (base st))), st\<lparr>base := (base st)\<lparr>buf := []\<rparr>\<rparr>))"
    by (simp add: op_bind_assoc CBB_finish_def)
  then show ?thesis using s2 rep_root[OF s2(2)] by (simp add: op_bind_def data_def)
qed

lemma spec_flush_0: "spec_flush 0 lv = Some l2 \<Longrightarrow> \<exists>x. l2 = [(fst (lv ! 0), x)]"
  by (cases lv) (auto simp: spec_flush_def append_last_def)

text \<open>No call changes the bottom of the stack but by appending to it.\<close>

lemma append_last_bottom:
  "lv \<noteq> [] \<Longrightarrow> append_last x lv \<noteq> [] \<and> fst (append_last x lv ! 0) = fst (lv ! 0)"
  by (cases lv rule: rev_cases) (auto simp: append_last_def nth_append)

lemma spec_flush_bottom:
  assumes "spec_flush d lv = Some l" shows "l \<noteq> [] \<and> fst (l ! 0) = fst (lv ! 0)"
proof -
  obtain x where "d < length lv" "l = append_last x (take (Suc d) lv)"
    using assms by (auto simp: spec_flush_def split: if_splits)
  then show ?thesis using append_last_bottom[of "take (Suc d) lv" x] by (cases lv) auto
qed

lemma spec_add_bottom:
  assumes "spec_add d x lv = Some l" shows "l \<noteq> [] \<and> fst (l ! 0) = fst (lv ! 0)"
proof -
  obtain l1 where "spec_flush d lv = Some l1" "l = append_last x l1" using assms by (auto simp: spec_add_def)
  then show ?thesis using append_last_bottom[of l1 x] spec_flush_bottom[of d lv l1] by simp
qed

lemma spec_push_bottom: "l \<noteq> [] \<Longrightarrow> spec_push k l = Some l' \<Longrightarrow> l' \<noteq> [] \<and> fst (l' ! 0) = fst (l ! 0)"
  by (auto simp: spec_push_def nth_append)

lemma spec_call_bottom: "spec_call c lv = Some l \<Longrightarrow> l \<noteq> [] \<and> fst (l ! 0) = fst (lv ! 0)"
  by (cases c)
    (auto simp: spec_open_def spec_asn1_def nth_append bind_eq_Some_conv dest: spec_flush_bottom spec_add_bottom
      dest!: spec_push_bottom[rotated] split: if_splits)

lemma spec_calls_bottom: "spec_calls cs lv = Some l \<Longrightarrow> lv \<noteq> [] \<Longrightarrow> l \<noteq> [] \<and> fst (l ! 0) = fst (lv ! 0)"
proof (induction cs arbitrary: lv)
  case (Cons c cs)
  obtain l1 where "spec_call c lv = Some l1" "spec_calls cs l1 = Some l"
    using Cons.prems(1) by (auto simp: bind_eq_Some_conv)
  then show ?case using Cons.IH spec_call_bottom by metis
qed simp

lemma spec_build_levels:
  "spec_build cs = Some out \<longleftrightarrow> Option.bind (spec_calls cs [(Plain 0, [])]) (spec_flush 0) = Some [(Plain 0, out)]"
proof
  assume "spec_build cs = Some out"
  then obtain l1 l2 where l: "spec_calls cs [(Plain 0, [])] = Some l1" "spec_flush 0 l1 = Some l2" "out = snd (l2 ! 0)"
    by (auto simp: spec_build_def bind_eq_Some_conv)
  then show "Option.bind (spec_calls cs [(Plain 0, [])]) (spec_flush 0) = Some [(Plain 0, out)]"
    using spec_flush_0[OF l(2)] spec_calls_bottom[OF l(1)] by auto
qed (simp add: spec_build_def)

lemma CBB_init_rep:
  "CBB_init h n = Some st \<Longrightarrow> n < 2 ^ 64 \<Longrightarrow> rep st [(Plain 0, [])] \<and> can_resize (base st)"
  by (auto simp: CBB_init_def rep_init split: if_splits) (auto simp: cbb_init_def)

lemma build_spec:
  assumes "list_all call_ok cs" "n < 2 ^ 64" "CBB_init h n = Some st" "build h cs st = (Some out, st')"
  shows "spec_build cs = Some out"
  using build_Some(1)[OF implements_calls[OF assms(1)], of st "[(Plain 0, [])]" h out st']
    CBB_init_rep[OF assms(3,2)] assms(4)
  by (simp add: build_def spec_build_def)

lemma build_total:
  assumes "list_all call_ok cs" "n < 2 ^ 64" "CBB_init h n = Some st"
    "spec_build cs = Some out" "length out < 2 ^ 64" "\<And>m. alloc_ok h m"
  shows "fst (build h cs st) = Some out"
  using build_room[OF implements_calls[OF assms(1), of h], of st "[(Plain 0, [])]" "Plain 0" out]
    CBB_init_rep[OF assms(3,2)] assms(4-6)
  by (simp add: build_def spec_build_levels room_def)

lemma be_bytes_numeral: "be_bytes (numeral k) v = be_bytes (pred_numeral k) (v div 256) @ [of_nat v]"
  by (subst numeral_eq_Suc) (rule be_bytes.simps(2))

lemmas spec_eval = spec_build_def spec_open_def spec_add_def spec_flush_def append_last_def
  der_element_def der_header_def der_len_def der_tag_def byte_of_def be_bytes_numeral Let_def

subsection \<open>Properties\<close>

text \<open>(C14) A build on a buffer that grows returns what the specification says, and when the allocator
  never fails and the result has a size, it does return it.\<close>

theorem cbb_build_growable:
  assumes "list_all call_ok cs" and "n < 2 ^ 64" and "CBB_init h n = Some st"
  shows "(\<forall>out st'. build h cs st = (Some out, st') \<longrightarrow> spec_build cs = Some out) \<and>
    (\<forall>out. spec_build cs = Some out \<and> length out < 2 ^ 64 \<and> (\<forall>m. alloc_ok h m) \<longrightarrow> fst (build h cs st) = Some out)"
  using build_spec[OF assms] build_total[OF assms] by blast

theorem cbb_build_growable_witness:
  "fst (build \<lparr>alloc_ok = \<lambda>_. True, fresh = \<lambda>_. 7\<rparr> [OpenPrefixed 0 2, AddBytes 1 [1, 2], AddBool 0 True]
     (cbb_init [7] 1 True)) = Some [0, 2, 1, 2, 1, 1, 0xff]"
proof -
  let ?h = "\<lparr>alloc_ok = \<lambda>_. True, fresh = \<lambda>_. 7 :: byte\<rparr>"
  let ?cs = "[OpenPrefixed 0 2, AddBytes 1 [1, 2], AddBool 0 True]"
  have "spec_build ?cs = Some [0, 2, 1, 2, 1, 1, 0xff]"
    by (simp add: spec_eval)
  moreover have "CBB_init ?h 1 = Some (cbb_init [7] 1 True)" by (simp add: CBB_init_def)
  ultimately show ?thesis using cbb_build_growable[of ?cs 1 ?h] by simp
qed

text \<open>A build into a buffer of fixed size returns exactly when the specification has a result
  that fits, and never writes beyond the buffer.\<close>

theorem cbb_build_fixed:
  assumes "list_all call_ok cs" and "length memory < 2 ^ 64"
  shows "fst (build h cs (CBB_init_fixed memory)) = Some out \<longleftrightarrow>
    spec_build cs = Some out \<and> length out \<le> length memory"
proof
  note p = implements_calls[OF assms(1), of h]
  have st: "rep (CBB_init_fixed memory) [(Plain 0, [])]"
    unfolding CBB_init_fixed_def using assms(2) by (intro rep_init) simp_all
  have fixed: "cap (base (CBB_init_fixed memory)) = length memory" "\<not> can_resize (base (CBB_init_fixed memory))"
    by (simp_all add: CBB_init_fixed_def cbb_init_def)
  {
    assume "fst (build h cs (CBB_init_fixed memory)) = Some out"
    then obtain st' where "build h cs (CBB_init_fixed memory) = (Some out, st')" by (metis prod.collapse)
    then show "spec_build cs = Some out \<and> length out \<le> length memory"
      using build_Some[OF p st, of out st'] fixed by (simp add: build_def spec_build_def extends_def)
  }
  assume "spec_build cs = Some out \<and> length out \<le> length memory"
  then show "fst (build h cs (CBB_init_fixed memory)) = Some out"
    using build_room[OF p st, of "Plain 0" out] fixed assms(2)
    by (simp add: build_def spec_build_levels room_def)
qed

theorem cbb_build_fixed_witness:
  "fst (build \<lparr>alloc_ok = \<lambda>_. False, fresh = \<lambda>_. 0\<rparr> [AddU 0 2 0x102] (CBB_init_fixed [9, 9])) = Some [1, 2] \<and>
   fst (build \<lparr>alloc_ok = \<lambda>_. False, fresh = \<lambda>_. 0\<rparr> [AddU 0 2 0x102] (CBB_init_fixed [9])) \<noteq> Some [1, 2]"
proof -
  have "spec_build [AddU 0 2 0x102] = Some [1, 2]" by (simp add: spec_eval)
  then show ?thesis
    using cbb_build_fixed[of "[AddU 0 2 0x102]" "[9, 9]" "\<lparr>alloc_ok = \<lambda>_. False, fresh = \<lambda>_. 0\<rparr>" "[1, 2]"]
      cbb_build_fixed[of "[AddU 0 2 0x102]" "[9]" "\<lparr>alloc_ok = \<lambda>_. False, fresh = \<lambda>_. 0\<rparr>" "[1, 2]"]
    by simp
qed

text \<open>Once the error bit is set, every call fails and leaves the contents alone.\<close>

theorem cbb_error_sticky:
  assumes "error (base st)" and "run_call h c st = (r, st')"
  shows "r = None \<and> error (base st') \<and> buf (base st') = buf (base st) \<and> len (base st') = len (base st)"
proof -
  have flush: "CBB_flush h d st = (None, st)" for d using assms(1) by (simp add: CBB_flush_def)
  have space: "CBB_add_space h d n st = (None, st)" for d n by (simp add: CBB_add_space_def op_bind_def flush)
  have asn1: "CBB_add_asn1 h d t st = (None, st)" for d t by (simp add: CBB_add_asn1_def op_bind_def flush)
  have then_flush: "op_bind (CBB_flush h d) f st = (None, st)" for d and f :: "unit \<Rightarrow> (cbb, unit) op"
    by (simp add: op_bind_def flush)
  have then_space: "op_bind (CBB_add_space h d n) f st = (None, st)" for d n and f :: "nat \<Rightarrow> (cbb, unit) op"
    by (simp add: op_bind_def space)
  have err: "op_bind (or_error d (op_bind (CBB_add_asn1 h d t) f)) g st = (None, cbb_on_error d st)" for d t f g
    by (simp add: op_bind_def or_error_def asn1)
  have err': "or_error d (op_bind (CBB_add_asn1 h d t) f) st = (None, cbb_on_error d st)" for d t f
    by (simp add: op_bind_def or_error_def asn1)
  note defs = CBB_add_bytes_def CBB_add_zeros_def cbb_add_u_def cbb_add_length_prefixed_def
    CBB_add_asn1_uint64_with_tag_def CBB_add_asn1_int64_with_tag_def CBB_add_asn1_octet_string_def
    CBB_add_asn1_bool_def cbb_on_error_def Let_def
  show ?thesis
    using assms
    by (cases c) (auto simp: defs flush asn1 err err' then_flush then_space split: if_splits)
qed

theorem cbb_error_sticky_witness:
  "fst (run_call \<lparr>alloc_ok = \<lambda>_. True, fresh = \<lambda>_. 0\<rparr> (AddU 0 1 5) (cbb_on_error 0 (cbb_init [1, 2] 2 True))) = None"
proof -
  let ?st = "cbb_on_error 0 (cbb_init [1, 2] 2 True)" and ?h = "\<lparr>alloc_ok = \<lambda>_. True, fresh = \<lambda>_. 0\<rparr>"
  have "error (base ?st)" by (simp add: cbb_on_error_def)
  from cbb_error_sticky[OF this, of ?h "AddU 0 1 5" "fst (run_call ?h (AddU 0 1 5) ?st)"
      "snd (run_call ?h (AddU 0 1 5) ?st)"]
  show ?thesis by simp
qed

text \<open>Reading \<open>n\<close> values in a row.\<close>

fun read_n :: "(cbs, 'a) op \<Rightarrow> nat \<Rightarrow> (cbs, 'a list) op" where
  "read_n p 0 = op_ret []"
| "read_n p (Suc n) = op_bind p (\<lambda>v. op_bind (read_n p n) (\<lambda>vs. op_ret (v # vs)))"

lemma read_n_codec:
  assumes "codec valid enc dec"
  shows "list_all valid vs \<Longrightarrow> read_n dec (length vs) (concat (map enc vs) @ s) = (Some vs, s)"
  by (induction vs) (simp_all add: codec.dec_enc[OF assms] op_bind_def)

lemma spec_calls_ints:
  "spec_calls (map (\<lambda>v. AddInt64 1 v t) vs) [l, (Asn1, c)] =
     Some [l, (Asn1, c @ concat (map (\<lambda>v. der_element t (int_contents (sint v))) vs))]"
  by (induction vs arbitrary: c) (simp_all add: spec_add_def spec_flush_def append_last_def)

text \<open>A SEQUENCE of integers written with the writer is read back by the reader: the same
  integers, in order, and nothing left over.\<close>

theorem asn1_integers_round_trip:
  assumes "CBB_init h n = Some st" and "n < 2 ^ 64"
    and "build h (OpenAsn1 0 CBS_ASN1_SEQUENCE # map (\<lambda>v. AddInt64 1 v CBS_ASN1_INTEGER) vs) st = (Some out, st')"
  shows "\<exists>contents. CBS_get_asn1 CBS_ASN1_SEQUENCE (out @ s) = (Some contents, s) \<and>
    read_n CBS_get_asn1_int64 (length vs) contents = (Some (map sint vs), [])"
proof -
  let ?t = "CBS_ASN1_INTEGER" and ?q = "CBS_ASN1_SEQUENCE"
  let ?cs = "OpenAsn1 0 ?q # map (\<lambda>v. AddInt64 1 v ?t) vs"
  let ?c = "concat (map (\<lambda>v. der_element ?t (int_contents v)) (map sint vs))"
  have "list_all call_ok ?cs" by (simp add: list_all_iff)
  then have spec: "spec_build ?cs = Some out" by (rule build_spec[OF _ assms(2,1,3)])
  have opened: "spec_asn1 0 ?q [(Plain 0, [])] = Some [(Plain 0, der_tag ?q), (Asn1, [])]"
    by (simp add: spec_asn1_def spec_add_def spec_flush_def append_last_def spec_push_def)
  have "out = der_element ?q ?c \<and> length ?c \<le> 0xfffffffe"
    using spec
    by (auto simp: spec_build_def opened spec_calls_ints[unfolded One_nat_def] spec_flush_def append_last_def
        der_element_def der_header_def comp_def split: if_splits)
  then have "CBS_get_asn1 ?q (out @ s) = (Some ?c, s)" using CBS_get_asn1_der[of ?q ?c s] by (simp add: tag_ok_def)
  moreover have "list_all (\<lambda>v. - (2 ^ 63) \<le> v \<and> v < 2 ^ 63) (map sint vs)"
    using sint_greater_eq[where ?'a = 64] sint_less[where ?'a = 64] by (simp add: list_all_iff)
  then have "read_n CBS_get_asn1_int64 (length vs) ?c = (Some (map sint vs), [])"
    using read_n_codec[OF codec_asn1_int64, of "map sint vs" "[]"] by simp
  ultimately show ?thesis by blast
qed

theorem asn1_integers_round_trip_witness:
  "\<exists>out contents. CBS_get_asn1 CBS_ASN1_SEQUENCE (out @ [9]) = (Some contents, [9]) \<and>
     read_n CBS_get_asn1_int64 (length [300, - 1 :: uint64]) contents = (Some (map sint [300, - 1 :: uint64]), [])"
proof -
  let ?h = "\<lparr>alloc_ok = \<lambda>_. True, fresh = \<lambda>_. 0 :: byte\<rparr>" and ?vs = "[300, - 1 :: uint64]"
  let ?cs = "OpenAsn1 0 CBS_ASN1_SEQUENCE # map (\<lambda>v. AddInt64 1 v CBS_ASN1_INTEGER) ?vs"
  have init: "CBB_init ?h 0 = Some (cbb_init [] 0 True)" by (simp add: CBB_init_def)
  obtain out where out: "spec_build ?cs = Some out" "length out < 2 ^ 64"
    by (simp add: spec_eval spec_asn1_def spec_push_def int_contents_def uint_contents_def uint_len.simps)
  have "fst (build ?h ?cs (cbb_init [] 0 True)) = Some out"
    using out by (intro build_total[OF _ _ init]) simp_all
  then obtain st' where "build ?h ?cs (cbb_init [] 0 True) = (Some out, st')" by (metis prod.collapse)
  moreover have "(0 :: nat) < 2 ^ 64" by simp
  ultimately show ?thesis using asn1_integers_round_trip[OF init, of ?vs out _ "[9]"] by blast
qed

text \<open>A length-prefixed string is read back as written.\<close>

theorem length_prefixed_round_trip:
  assumes "CBB_init h n = Some st" and "n < 2 ^ 64" and "1 \<le> k" and "k \<le> 3" and "length x < 2 ^ 64"
    and "build h [OpenPrefixed 0 k, AddBytes 1 x] st = (Some out, st')"
  shows "cbs_get_length_prefixed k (out @ s) = (Some x, s)"
proof -
  have "spec_build [OpenPrefixed 0 k, AddBytes 1 x] = Some out"
    using assms(4,5) by (intro build_spec[OF _ assms(2,1,6)]) simp
  then have "out = prefixed k x \<and> length x < 256 ^ k"
    by (auto simp: spec_build_def spec_open_def spec_add_def spec_flush_def append_last_def prefixed_def
        split: if_splits)
  then show ?thesis using codec.dec_enc[OF framed_codec.axioms(1)[OF codec_prefixed], of k x s] assms(3,4) by simp
qed

theorem length_prefixed_round_trip_witness:
  "\<exists>out. cbs_get_length_prefixed 2 (out @ [9]) = (Some [1, 2, 3], [9])"
proof -
  let ?h = "\<lparr>alloc_ok = \<lambda>_. True, fresh = \<lambda>_. 0 :: byte\<rparr>" and ?cs = "[OpenPrefixed 0 2, AddBytes 1 [1, 2, 3]]"
  have init: "CBB_init ?h 0 = Some (cbb_init [] 0 True)" by (simp add: CBB_init_def)
  have "spec_build ?cs = Some [0, 3, 1, 2, 3]" by (simp add: spec_eval)
  then have "fst (build ?h ?cs (cbb_init [] 0 True)) = Some [0, 3, 1, 2, 3]"
    by (intro build_total[OF _ _ init]) simp_all
  then obtain st' where "build ?h ?cs (cbb_init [] 0 True) = (Some [0, 3, 1, 2, 3], st')" by (metis prod.collapse)
  from length_prefixed_round_trip[OF init _ _ _ _ this, of "[9]"] show ?thesis
    by (intro exI[of _ "[0, 3, 1, 2, 3]"]) simp
qed

end
