(* ===== verification/Oid_Text.thy ===== *)
theory Oid_Text
  imports CBB_Props
begin

text \<open>
  Object identifiers as text: \<open>CBS_asn1_oid_to_text\<close> of \<open>crypto/bytestring/cbs.cc\<close>, which writes its result
  through the byte-string writer, and its round trip with \<open>CBB_add_asn1_oid_from_text\<close>.
\<close>

text \<open>\<open>snprintf\<close> with the format \<open>%llu\<close>.\<close>

fun decimal :: "nat \<Rightarrow> byte list" where
  "decimal n = (if n < 10 then [byte_of (48 + n)] else decimal (n div 10) @ [byte_of (48 + n mod 10)])"

declare decimal.simps [simp del]

definition add_decimal :: "heap \<Rightarrow> nat \<Rightarrow> uint64 \<Rightarrow> (cbb, unit) op" where
  "add_decimal h d v = CBB_add_bytes h d (decimal (unat v))"

lemma parse_base128_shrinks: "parse_base128_integer s = (Some v, t) \<Longrightarrow> length t < length s"
  by (drule parse_base128_Some) (simp add: base128_bytes_def)

text \<open>The loop over the components after the first.\<close>

function oid_text_loop :: "heap \<Rightarrow> cbs \<Rightarrow> (cbb, unit) op" where
  "oid_text_loop h copy =
     (if length copy \<noteq> 0 then
        (case parse_base128_integer copy of
           (None, _) \<Rightarrow> op_fail
         | (Some v, copy') \<Rightarrow>
             op_bind (CBB_add_u8 h 0 0x2e) (\<lambda>_. op_bind (add_decimal h 0 v) (\<lambda>_. oid_text_loop h copy')))
      else op_ret ())"
  by pat_completeness auto
termination by (relation "measure (\<lambda>(_, copy). length copy)") (auto intro: parse_base128_shrinks[OF sym])

declare oid_text_loop.simps [simp del]

definition first_component :: "heap \<Rightarrow> uint64 \<Rightarrow> (cbb, unit) op" where
  "first_component h v =
     (if v \<ge> 80 then op_bind (CBB_add_bytes h 0 [0x32, 0x2e]) (\<lambda>_. add_decimal h 0 (v - 80))
      else op_bind (add_decimal h 0 (v div 40)) (\<lambda>_. op_bind (CBB_add_u8 h 0 0x2e) (\<lambda>_. add_decimal h 0 (v mod 40))))"

text \<open>The text with its terminating \<open>NUL\<close>; \<open>None\<close> for \<open>NULL\<close>.\<close>

definition CBS_asn1_oid_to_text :: "heap \<Rightarrow> cbs \<Rightarrow> byte list option" where
  "CBS_asn1_oid_to_text h cbs =
     (case CBB_init h 32 of
        None \<Rightarrow> None
      | Some cbb \<Rightarrow>
          (case parse_base128_integer cbs of
             (None, _) \<Rightarrow> None
           | (Some v, copy) \<Rightarrow>
               fst (op_bind (first_component h v) (\<lambda>_. op_bind (oid_text_loop h copy) (\<lambda>_.
                    op_bind (CBB_add_u8 h 0 0) (\<lambda>_. CBB_finish h 0))) cbb)))"

subsection \<open>Decimal numbers\<close>

lemma decimal_digit:
  assumes "10 * unat v + k < 2 ^ 64" "k < 10" "v = 0 \<longrightarrow> \<not> seen"
  shows "u64_decimal_loop v seen (byte_of (48 + k) # s) = u64_decimal_loop (u64_of (10 * unat v + k)) True s"
proof -
  have c: "unat (byte_of (48 + k)) = 48 + k" using assms(2) by (simp add: unat_byte_of)
  have d: "unat (byte_of (48 + k) - 0x30) = k"
    using c assms(2) by (simp add: unat_sub word_le_nat_alt)
  have u: "unat (ucast (byte_of (48 + k) - 0x30 :: byte) :: uint64) = k"
    using d assms(2) by (simp add: unsigned_ucast_eq take_bit_nat_eq_self)
  have m: "unat (v * 10) = 10 * unat v" using assms(1) by (simp add: unat_word_ariths)
  have "unat v \<le> 0xffffffffffffffff div 10" using assms(1) by simp
  then have g1: "\<not> v > UINT64_MAX div 10" by (simp add: word_less_nat_alt unat_div)
  define x where "x = (ucast (byte_of (48 + k) - 0x30 :: byte) :: uint64)"
  have x: "unat x = k" using u by (simp add: x_def)
  have "x \<le> UINT64_MAX" using x assms(2) by (simp add: word_le_nat_alt)
  then have "unat (UINT64_MAX - x) = 0xffffffffffffffff - k" using x by (simp add: unat_sub)
  then have g2: "\<not> v * 10 > UINT64_MAX - x"
    unfolding word_less_nat_alt m using assms(1) by simp
  have "unat (v * 10 + x) = 10 * unat v + k"
    using m x assms(1) by (simp add: unat_word_ariths)
  then have e: "v * 10 + x = u64_of (10 * unat v + k)" by (rule u64_eq_u64_of)
  have dg: "OPENSSL_isdigit (byte_of (48 + k))" using c assms(2) by (simp add: isdigit_iff)
  show ?thesis using dg g1 g2 assms(3) unfolding u64_decimal_loop.simps x_def[symmetric] e by auto
qed

lemma decimal_loop:
  "n < 2 ^ 64 \<Longrightarrow> u64_decimal_loop 0 False (decimal n @ s) = u64_decimal_loop (u64_of n) True s"
proof (induction n arbitrary: s rule: decimal.induct)
  case (1 n)
  show ?case
  proof (cases "n < 10")
    case True
    then show ?thesis using decimal_digit[of 0 n False s] by (simp add: decimal.simps[of n])
  next
    case False
    let ?u = "u64_of (n div 10)"
    have u: "unat ?u = n div 10" using 1(2) by (simp add: unat_u64_of)
    have v: "10 * (n div 10) + n mod 10 = n" by simp
    have "?u \<noteq> 0" using u False by (auto simp: word_unat_eq_iff)
    then have "u64_decimal_loop ?u True (byte_of (48 + n mod 10) # s) = u64_decimal_loop (u64_of n) True s"
      using decimal_digit[of ?u "n mod 10" True s] 1(2) unfolding u v by simp
    then show ?thesis using 1(1)[OF False, of "byte_of (48 + n mod 10) # s"] 1(2) False by (simp add: decimal.simps[of n])
  qed
qed

lemma parse_dotted_last: "n < 2 ^ 64 \<Longrightarrow> parse_dotted_decimal (decimal n) = (Some (u64_of n), [])"
  using decimal_loop[of n "[]"]
  by (simp add: parse_dotted_decimal_def CBS_get_u64_decimal_def op_bind_def CBS_get_u8_def cbs_get_def)

lemma parse_dotted_more:
  assumes "n < 2 ^ 64" "t \<noteq> []"
  shows "parse_dotted_decimal (decimal n @ 0x2e # t) = (Some (u64_of n), t)"
  using decimal_loop[OF assms(1), of "0x2e # t"] assms(2)
  by (simp add: parse_dotted_decimal_def CBS_get_u64_decimal_def op_bind_def CBS_get_u8_def cbs_get_def isdigit_iff)

lemma decimal_nonempty: "decimal n \<noteq> []"
  by (subst decimal.simps) simp

subsection \<open>Components\<close>

fun dotted :: "nat list \<Rightarrow> byte list" where
  "dotted [] = []"
| "dotted [n] = decimal n"
| "dotted (n # m # ns) = decimal n @ 0x2e # dotted (m # ns)"

lemma dotted_Cons: "ns \<noteq> [] \<Longrightarrow> dotted (n # ns) = decimal n @ 0x2e # dotted ns"
  by (cases ns) simp_all

lemma dotted_nonempty: "ns \<noteq> [] \<Longrightarrow> dotted ns \<noteq> []"
  by (cases ns rule: dotted.cases) (simp_all add: decimal_nonempty)

lemma parse_dotted_Cons:
  "n < 2 ^ 64 \<Longrightarrow> parse_dotted_decimal (dotted (n # ns)) = (Some (u64_of n), dotted ns)"
  by (cases ns) (simp_all add: parse_dotted_last parse_dotted_more dotted_nonempty)

text \<open>The two numbers the first integer stands for.\<close>

definition split_first :: "nat \<Rightarrow> nat list" where
  "split_first v = (if v \<ge> 80 then [2, v - 80] else [v div 40, v mod 40])"

lemma oid_components_dotted:
  "(\<forall>n \<in> set ns. n < 2 ^ 64) \<Longrightarrow> oid_components h d (dotted ns) = op_each (\<lambda>n. add_base128_integer h d (u64_of n)) ns"
proof (induction ns)
  case Nil
  then show ?case by (subst oid_components.simps) simp
next
  case (Cons n ns)
  then show ?case
    using parse_dotted_Cons[of n ns] dotted_nonempty[of "n # ns"] by (subst oid_components.simps) simp
qed

lemma split_first_bound: "v < 2 ^ 64 \<Longrightarrow> \<forall>n \<in> set (split_first v). n < 2 ^ 64"
  by (auto simp: split_first_def)

lemma split_first_nonempty [simp]: "split_first v \<noteq> []"
  by (simp add: split_first_def)

lemma oid_from_dotted:
  assumes "v < 2 ^ 64" "\<forall>n \<in> set ns. n < 2 ^ 64"
  shows "CBB_add_asn1_oid_from_text h d (dotted (split_first v @ ns)) =
    op_bind (CBB_flush h d) (\<lambda>_. op_each (\<lambda>n. add_base128_integer h d (u64_of n)) (v # ns))"
proof -
  obtain a b where ab: "split_first v = [a, b]" "a \<le> 2" "a < 2 \<longrightarrow> b \<le> 39" "b \<le> 0xffffffffffffffff - 80" "40 * a + b = v"
  proof (cases "v \<ge> 80")
    case True
    then show thesis using that[of 2 "v - 80"] assms(1) by (simp add: split_first_def)
  next
    case False
    then show thesis using that[of "v div 40" "v mod 40"] by (simp add: split_first_def)
  qed
  have small: "a < 2 ^ 64" "b < 2 ^ 64" using ab by simp_all
  have u: "unat (u64_of a) = a" "unat (u64_of b) = b" using small by (simp_all add: unat_u64_of)
  have g: "(u64_of a > 2 \<or> (u64_of a < 2 \<and> u64_of b > 39) \<or> u64_of b > UINT64_MAX - 80) = False"
    using ab by (auto simp: word_less_nat_alt u)
  have e: "40 * u64_of a + u64_of b = u64_of v" by (simp add: u64_of_def flip: ab(5))
  have p: "op_bind parse_dotted_decimal (\<lambda>a. op_bind parse_dotted_decimal (\<lambda>b. op_ret (a, b))) (dotted ([a, b] @ ns)) =
      (Some (u64_of a, u64_of b), dotted ns)"
    using parse_dotted_Cons[OF small(1), of "b # ns"] parse_dotted_Cons[OF small(2), of ns] by (simp add: op_bind_def)
  show ?thesis
    unfolding CBB_add_asn1_oid_from_text_def ab(1) p prod.case option.case g if_False e oid_components_dotted[OF assms(2)] by simp
qed

subsection \<open>Writing\<close>

lemma implements_seq:
  assumes "implements h p (spec_add d x)" "implements h q (spec_add d y)"
  shows "implements h (op_bind p (\<lambda>_. q)) (spec_add d (x @ y))"
  using implements_bind[OF assms(1), of "\<lambda>_. q" "spec_add d y"] assms(2) by (simp add: spec_add_add)

lemma implements_each:
  assumes "\<And>x. x \<in> set xs \<Longrightarrow> implements h (f x) (spec_add d (g x))" "xs \<noteq> []"
  shows "implements h (op_each f xs) (spec_add d (concat (map g xs)))"
  using assms
proof (induction xs)
  case (Cons x xs)
  show ?case
  proof (cases "xs = []")
    case True
    then show ?thesis using Cons.prems(1)[of x] by simp
  next
    case False
    then show ?thesis
      using implements_seq[OF Cons.prems(1)[of x], of "op_each f xs"] Cons.IH Cons.prems(1) by simp
  qed
qed simp

lemma length_decimal: "n < 10 ^ Suc k \<Longrightarrow> length (decimal n) \<le> Suc k"
proof (induction k arbitrary: n)
  case (Suc k)
  then show ?case by (subst decimal.simps) (simp add: less_mult_imp_div_less)
qed (simp add: decimal.simps)

lemma length_decimal_20: "n < 2 ^ 64 \<Longrightarrow> length (decimal n) \<le> 20"
  using length_decimal[of n 19] by simp

lemma implements_decimal: "implements h (add_decimal h d v) (spec_add d (decimal (unat v)))"
  unfolding add_decimal_def
  by (rule implements_add_bytes) (use length_decimal_20[of "unat v"] u64_lt[of v] in simp)

lemma implements_dot: "implements h (CBB_add_u8 h d c) (spec_add d [c])"
  by (rule implements_add_u8)

lemma implements_first: "implements h (first_component h v) (spec_add 0 (dotted (split_first (unat v))))"
proof (cases "v \<ge> 80")
  case True
  then have "unat v \<ge> 80" "unat (v - 80) = unat v - 80" by (simp_all add: word_le_nat_alt unat_sub)
  moreover have "decimal 2 = [0x32]" by (simp add: decimal.simps byte_of_def)
  ultimately show ?thesis
    using True implements_seq[OF implements_add_bytes[of "[0x32, 0x2e]" h 0] implements_decimal[of h 0 "v - 80"]]
    by (simp add: first_component_def split_first_def)
next
  case False
  then have "\<not> unat v \<ge> 80" "unat (v div 40) = unat v div 40" "unat (v mod 40) = unat v mod 40"
    by (simp_all add: word_le_nat_alt unat_div unat_mod)
  then show ?thesis
    using False implements_seq[OF implements_decimal[of h 0 "v div 40"] implements_seq[OF implements_dot implements_decimal[of h 0 "v mod 40"]]]
    by (simp add: first_component_def split_first_def)
qed

abbreviation (input) oid_contents :: "uint64 list \<Rightarrow> byte list" where
  "oid_contents vs \<equiv> concat (map (\<lambda>v. base128_bytes (unat v)) vs)"

text \<open>The loop writes a dot and a number for each integer left.\<close>

lemma oid_text_loop_each:
  "oid_text_loop h (oid_contents vs) =
     op_each (\<lambda>v. op_bind (CBB_add_u8 h 0 0x2e) (\<lambda>_. add_decimal h 0 v)) vs"
proof (induction vs)
  case (Cons v vs)
  have "parse_base128_integer (base128_bytes (unat v) @ s) = (Some v, s)" for s
    using parse_base128_bytes[OF u64_lt[of v]] by simp
  then show ?case using Cons by (subst oid_text_loop.simps) (simp add: base128_bytes_def op_bind_assoc)
qed (subst oid_text_loop.simps, simp)

lemma dotted_append: "ns \<noteq> [] \<Longrightarrow> dotted (ns @ ms) = dotted ns @ concat (map (\<lambda>m. 0x2e # decimal m) ms)"
proof (induction ns rule: dotted.induct)
  case (2 n)
  show ?case by (induction ms arbitrary: n) (simp_all add: dotted_Cons)
qed simp_all

definition oid_writer :: "heap \<Rightarrow> uint64 \<Rightarrow> uint64 list \<Rightarrow> (cbb, unit) op" where
  "oid_writer h v vs = op_bind (first_component h v) (\<lambda>_. op_bind (oid_text_loop h (oid_contents vs)) (\<lambda>_.
     CBB_add_u8 h 0 0))"

lemma implements_oid_writer: "implements h (oid_writer h v vs) (spec_add 0 (dotted (split_first (unat v) @ map unat vs) @ [0]))"
proof -
  have tail: "implements h (op_bind (oid_text_loop h (oid_contents vs)) (\<lambda>_. CBB_add_u8 h 0 0))
    (spec_add 0 (concat (map (\<lambda>v. 0x2e # decimal (unat v)) vs) @ [0]))"
  proof (cases "vs = []")
    case True
    have "oid_text_loop h [] = op_ret ()" using oid_text_loop_each[of h "[]"] by simp
    then show ?thesis using True implements_dot[of h 0 0] by (simp add: op_bind_def)
  next
    case False
    have "implements h (op_bind (CBB_add_u8 h 0 0x2e) (\<lambda>_. add_decimal h 0 v)) (spec_add 0 (0x2e # decimal (unat v)))" for v
      using implements_seq[OF implements_dot implements_decimal] by simp
    from implements_seq[OF implements_each[OF this False] implements_dot] show ?thesis by (simp add: oid_text_loop_each)
  qed
  show ?thesis
    unfolding oid_writer_def using implements_seq[OF implements_first tail] by (simp add: dotted_append comp_def)
qed

text \<open>A client that adds bytes to a fresh object and finishes it.\<close>

lemma fresh_add:
  assumes "implements h p (spec_add 0 x)" "CBB_init h n = Some st" "n < 2 ^ 64"
  shows "op_bind p (\<lambda>_. CBB_finish h 0) st = (Some out, st') \<Longrightarrow> out = x"
    and "\<forall>k. alloc_ok h k \<Longrightarrow> length x < 2 ^ 64 \<Longrightarrow> fst (op_bind p (\<lambda>_. CBB_finish h 0) st) = Some x"
proof -
  have st: "rep st [(Plain 0, [])]" "can_resize (base st)" using CBB_init_rep[OF assms(2,3)] by simp_all
  have spec: "Option.bind (spec_add 0 x [(Plain 0, [])]) (spec_flush 0) = Some [(Plain 0, x)]"
    by (simp add: spec_add_def spec_flush_def append_last_def)
  show "out = x" if "op_bind p (\<lambda>_. CBB_finish h 0) st = (Some out, st')"
    using build_Some(1)[OF assms(1) st(1) that] spec by simp
  show "fst (op_bind p (\<lambda>_. CBB_finish h 0) st) = Some x" if "\<forall>k. alloc_ok h k" "length x < 2 ^ 64"
    by (rule build_room[OF assms(1) st(1) spec]) (use st(2) that in \<open>simp add: room_def\<close>)
qed

subsection \<open>Round trip\<close>

definition oid_of_text :: "heap \<Rightarrow> byte list \<Rightarrow> (cbb, byte list) op" where
  "oid_of_text h text = op_bind (CBB_add_asn1_oid_from_text h 0 text) (\<lambda>_. CBB_finish h 0)"

lemma oid_to_text_eq:
  "CBS_asn1_oid_to_text h (oid_contents (v # vs)) =
     (case CBB_init h 32 of None \<Rightarrow> None | Some cbb \<Rightarrow> fst (op_bind (oid_writer h v vs) (\<lambda>_. CBB_finish h 0) cbb))"
  using parse_base128_bytes[OF u64_lt[of v]]
  by (simp add: CBS_asn1_oid_to_text_def oid_writer_def op_bind_assoc split: option.split)

text \<open>The text exists only for a sequence of base-128 integers.\<close>

lemma op_bind_defined: "fst (op_bind p q st) \<noteq> None \<Longrightarrow> \<exists>a st1. p st = (Some a, st1) \<and> fst (q a st1) \<noteq> None"
  by (auto simp: op_bind_def split: prod.splits option.splits)

lemma oid_text_loop_Some:
  "fst (op_bind (oid_text_loop h s) q st) \<noteq> None \<Longrightarrow> \<exists>vs. s = oid_contents vs"
proof (induction h s arbitrary: q st rule: oid_text_loop.induct)
  case (1 h s)
  show ?case
  proof (cases "s = []")
    case True
    then show ?thesis by (intro exI[of _ "[]"]) simp
  next
    case False
    obtain r t where p: "parse_base128_integer s = (r, t)" by fastforce
    obtain v where v: "r = Some v"
      using 1(2) False p by (cases r) (simp_all add: oid_text_loop.simps[of h s] op_bind_def)
    have "op_bind (oid_text_loop h s) q st = op_bind (op_bind (CBB_add_u8 h 0 0x2e) (\<lambda>_. add_decimal h 0 v))
        (\<lambda>_. op_bind (oid_text_loop h t) q) st"
      using False p v by (simp add: oid_text_loop.simps[of h s] op_bind_assoc)
    then obtain st1 where "fst (op_bind (oid_text_loop h t) q st1) \<noteq> None"
      using 1(2) op_bind_defined by metis
    then obtain vs where "t = oid_contents vs"
      using 1(1)[OF _ p[symmetric] v] False by auto
    then show ?thesis using parse_base128_Some[of s v t] p v by (intro exI[of _ "v # vs"]) simp
  qed
qed

lemma oid_to_text_Some:
  assumes "CBS_asn1_oid_to_text h cbs = Some txt"
  obtains v vs where "cbs = oid_contents (v # vs)"
    "txt = dotted (split_first (unat v) @ map unat vs) @ [0]"
proof -
  obtain st v t where st: "CBB_init h 32 = Some st" and p: "parse_base128_integer cbs = (Some v, t)"
    and run: "fst (op_bind (first_component h v) (\<lambda>_. op_bind (oid_text_loop h t) (\<lambda>_.
      op_bind (CBB_add_u8 h 0 0) (\<lambda>_. CBB_finish h 0))) st) = Some txt"
    using assms by (auto simp: CBS_asn1_oid_to_text_def split: option.splits prod.splits)
  obtain st1 where d: "fst (op_bind (oid_text_loop h t) (\<lambda>_. op_bind (CBB_add_u8 h 0 0) (\<lambda>_. CBB_finish h 0)) st1) \<noteq> None"
    using run op_bind_defined by (metis option.distinct(1))
  obtain vs where t: "t = oid_contents vs" using oid_text_loop_Some[OF d] by blast
  then have c: "cbs = oid_contents (v # vs)" using parse_base128_Some[OF p] by simp
  have "fst (op_bind (oid_writer h v vs) (\<lambda>_. CBB_finish h 0) st) = Some txt"
    using assms st unfolding c oid_to_text_eq by simp
  then obtain st' where "op_bind (oid_writer h v vs) (\<lambda>_. CBB_finish h 0) st = (Some txt, st')" by (metis prod.collapse)
  then show thesis using fresh_add(1)[OF implements_oid_writer st, of v vs "txt" st'] that c by simp
qed

lemma oid_of_dotted:
  assumes "CBB_init h n = Some st" "n < 2 ^ 64" "\<forall>k. alloc_ok h k"
    and "length (oid_contents (v # vs)) < 2 ^ 64"
  shows "fst (oid_of_text h (dotted (split_first (unat v) @ map unat vs)) st) =
    Some (oid_contents (v # vs))"
proof -
  let ?p = "op_each (\<lambda>n. add_base128_integer h 0 (u64_of n)) (unat v # map unat vs)"
  have p: "?p = op_each (add_base128_integer h 0) (v # vs)"
    using op_each_map[of "\<lambda>n. add_base128_integer h 0 (u64_of n)" unat "v # vs"] by simp
  have "implements h ?p (spec_add 0 (oid_contents (v # vs)))"
    unfolding p by (rule implements_each[OF implements_base128]) simp
  then have "implements h (op_bind (CBB_flush h 0) (\<lambda>_. ?p)) (spec_add 0 (oid_contents (v # vs)))"
    using implements_bind[OF implements_flush[of h 0], of "\<lambda>_. ?p" "spec_add 0 (oid_contents (v # vs))"]
    unfolding spec_flush_add by blast
  moreover have "CBB_add_asn1_oid_from_text h 0 (dotted (split_first (unat v) @ map unat vs)) = op_bind (CBB_flush h 0) (\<lambda>_. ?p)"
    using u64_lt by (intro oid_from_dotted) auto
  ultimately show ?thesis unfolding oid_of_text_def using fresh_add(2)[OF _ assms(1-2,3,4)] by simp
qed

lemma length_dotted: "\<forall>n \<in> set ns. n < 2 ^ 64 \<Longrightarrow> length (dotted ns) \<le> 21 * length ns"
proof (induction ns rule: dotted.induct)
  case (3 n m ns)
  then show ?case using length_decimal_20[of n] by simp
qed (use length_decimal_20 in fastforce)+

lemma oid_to_text_total:
  assumes "\<forall>k. alloc_ok h k" "length (oid_contents (v # vs)) < 2 ^ 32"
  shows "CBS_asn1_oid_to_text h (oid_contents (v # vs)) \<noteq> None"
proof -
  obtain st where st: "CBB_init h 32 = Some st" using assms(1) by (simp add: CBB_init_def)
  have "length vs \<le> length (oid_contents vs)"
    by (induction vs) (simp_all add: base128_bytes_def)
  then have "length vs < 2 ^ 32" using assms(2) by simp
  moreover have "length (dotted (split_first (unat v) @ map unat vs)) \<le> 21 * length (split_first (unat v) @ map unat vs)"
    using split_first_bound[OF u64_lt[of v]] u64_lt by (intro length_dotted) auto
  moreover have "length (split_first (unat v)) = 2" by (simp add: split_first_def)
  ultimately have "length (dotted (split_first (unat v) @ map unat vs) @ [0 :: byte]) < 2 ^ 64" by simp
  then show ?thesis
    unfolding oid_to_text_eq using st fresh_add(2)[OF implements_oid_writer st _ assms(1), of v vs] by simp
qed

text \<open>
  (C35) Object identifiers round-trip through text: with memory available \<open>CBS_asn1_oid_to_text\<close> returns a string
  exactly for the contents that are a non-empty sequence of minimal base-128 integers of 64 bits; the string ends with
  \<open>NUL\<close>, and from the text before it \<open>CBB_add_asn1_oid_from_text\<close> writes exactly those contents again.
\<close>
theorem oid_text_round_trip:
  assumes "\<forall>k. alloc_ok h k" and "length cbs < 2 ^ 32" and "CBB_init h n = Some st" and "n < 2 ^ 64"
  shows "(case CBS_asn1_oid_to_text h cbs of
      None \<Rightarrow> \<not> (\<exists>v vs. cbs = concat (map (\<lambda>v :: uint64. base128_bytes (unat v)) (v # vs)))
    | Some txt \<Rightarrow> last txt = 0 \<and> fst (oid_of_text h (butlast txt) st) = Some cbs)"
proof (cases "CBS_asn1_oid_to_text h cbs")
  case None
  have "cbs \<noteq> oid_contents (v # vs)" for v vs using oid_to_text_total[OF assms(1), of v vs] None assms(2) by blast
  then show ?thesis using None by simp
next
  case (Some t)
  obtain v vs where t: "cbs = oid_contents (v # vs)" "t = dotted (split_first (unat v) @ map unat vs) @ [0]"
    by (rule oid_to_text_Some[OF Some])
  have "length cbs < 2 ^ 64" using assms(2) by simp
  then have "fst (oid_of_text h (butlast t) st) = Some cbs" using oid_of_dotted[OF assms(3,4,1), of v vs] unfolding t by simp
  then show ?thesis using Some t(2) by simp
qed

theorem oid_text_round_trip_witness:
  "\<exists>t. CBS_asn1_oid_to_text \<lparr>alloc_ok = \<lambda>_. True, fresh = \<lambda>_. 0\<rparr> [0x2a, 0x86, 0x48] = Some t \<and>
     fst (oid_of_text \<lparr>alloc_ok = \<lambda>_. True, fresh = \<lambda>_. 0\<rparr> (butlast t) (cbb_init [] 0 True)) = Some [0x2a, 0x86, 0x48]"
proof -
  let ?h = "\<lparr>alloc_ok = \<lambda>_. True, fresh = \<lambda>_. 0 :: byte\<rparr>"
  have i: "CBB_init ?h 0 = Some (cbb_init [] 0 True)" by (simp add: CBB_init_def)
  have "[0x2a, 0x86, 0x48] = concat (map (\<lambda>v :: uint64. base128_bytes (unat v)) (42 # [840]))"
    by (simp add: base128_bytes_def b128_hi.simps byte_of_def)
  then have c: "\<exists>v vs. [0x2a, 0x86, 0x48] = concat (map (\<lambda>v :: uint64. base128_bytes (unat v)) (v # vs))" by blast
  have a: "\<forall>k. alloc_ok ?h k" "length [0x2a, 0x86, 0x48 :: byte] < 2 ^ 32" "(0 :: nat) < 2 ^ 64" by simp_all
  show ?thesis
    using oid_text_round_trip[OF a(1,2) i a(3)] c
    by (cases "CBS_asn1_oid_to_text ?h [0x2a, 0x86, 0x48]") (simp_all only: option.case simp_thms, blast)
qed

end
