(* ===== verification/PosixTime.thy ===== *)
theory PosixTime
  imports Prelude "HOL-Library.Signed_Division"
begin

text \<open>
  Conversion between broken-down UTC time and POSIX time, \<open>crypto/asn1/posix_time.cc\<close>. All values
  are \<open>int64_t\<close> or \<open>int\<close>; they are modelled as \<open>int\<close>, division as the truncating division of C, and
  the additions the code guards against overflow keep their guards.
\<close>

subsection \<open>Definitions\<close>

abbreviation (input) "SECS_PER_HOUR \<equiv> (3600 :: int)"
abbreviation (input) "SECS_PER_DAY \<equiv> (86400 :: int)"
abbreviation (input) "MIN_POSIX_TIME \<equiv> (- 62167219200 :: int)"
abbreviation (input) "MAX_POSIX_TIME \<equiv> (253402300799 :: int)"
abbreviation (input) "INT64_MAX \<equiv> (9223372036854775807 :: int)"
abbreviation (input) "INT64_MIN \<equiv> (- 9223372036854775808 :: int)"

definition is_valid_date :: "int \<Rightarrow> int \<Rightarrow> int \<Rightarrow> bool" where
  "is_valid_date year month day =
     (if day < 1 \<or> month < 1 \<or> year < 0 \<or> year > 9999 then False
      else if month \<in> {1, 3, 5, 7, 8, 10, 12} then day > 0 \<and> day \<le> 31
      else if month \<in> {4, 6, 9, 11} then day > 0 \<and> day \<le> 30
      else if month = 2 then
        (if (year smod 4 = 0 \<and> year smod 100 \<noteq> 0) \<or> year smod 400 = 0
         then day > 0 \<and> day \<le> 29 else day > 0 \<and> day \<le> 28)
      else False)"

definition is_valid_time :: "int \<Rightarrow> int \<Rightarrow> int \<Rightarrow> bool" where
  "is_valid_time hours minutes seconds =
     (\<not> (hours < 0 \<or> minutes < 0 \<or> seconds < 0 \<or> hours > 23 \<or> minutes > 59 \<or> seconds > 59))"

definition is_valid_posix_time :: "int \<Rightarrow> bool" where
  "is_valid_posix_time time \<longleftrightarrow> MIN_POSIX_TIME \<le> time \<and> time \<le> MAX_POSIX_TIME"

text \<open>The two middle parts of the conversions, from a date to days and back.\<close>

definition posix_days_from_date :: "int \<Rightarrow> int \<Rightarrow> int \<Rightarrow> int" where
  "posix_days_from_date year0 month day =
     (let year = if month \<le> 2 then year0 - 1 else year0;
          era = (if year \<ge> 0 then year else year - 399) sdiv 400;
          year_of_era = year - era * 400;
          day_of_year = (153 * (if month > 2 then month - 3 else month + 9) + 2) sdiv 5 + day - 1;
          day_of_era = year_of_era * 365 + year_of_era sdiv 4 - year_of_era sdiv 100 + day_of_year
      in era * 146097 + day_of_era - 719468)"

definition posix_time_from_utc :: "int \<Rightarrow> int \<Rightarrow> int \<Rightarrow> int \<Rightarrow> int \<Rightarrow> int \<Rightarrow> int option" where
  "posix_time_from_utc year month day hours minutes seconds =
     (if \<not> is_valid_date year month day \<or> \<not> is_valid_time hours minutes seconds then None
      else Some (posix_days_from_date year month day * SECS_PER_DAY + hours * SECS_PER_HOUR
                 + minutes * 60 + seconds))"

definition date_from_shifted_days :: "int \<Rightarrow> int \<times> int \<times> int" where
  "date_from_shifted_days days =
     (let era = (if days > 0 then days else days - 146096) sdiv 146097;
          day_of_era = days - era * 146097;
          year_of_era = (day_of_era - day_of_era sdiv 1460 + day_of_era sdiv 36524
                         - day_of_era sdiv 146096) sdiv 365;
          year = year_of_era + era * 400;
          day_of_year = day_of_era - (365 * year_of_era + year_of_era sdiv 4 - year_of_era sdiv 100);
          month_of_year = (5 * day_of_year + 2) sdiv 153;
          month = if month_of_year < 10 then month_of_year + 3 else month_of_year - 9
      in (if month \<le> 2 then year + 1 else year, month,
          day_of_year - (153 * month_of_year + 2) sdiv 5 + 1))"

definition utc_from_posix_time :: "int \<Rightarrow> (int \<times> int \<times> int \<times> int \<times> int \<times> int) option" where
  "utc_from_posix_time time =
     (if \<not> is_valid_posix_time time then None
      else
        let days0 = time sdiv SECS_PER_DAY; leftover0 = time smod SECS_PER_DAY;
            (days1, leftover) = (if leftover0 < 0 then (days0 - 1, leftover0 + SECS_PER_DAY)
                                 else (days0, leftover0));
            (year, month, day) = date_from_shifted_days (days1 + 719468);
            hours = leftover sdiv SECS_PER_HOUR;
            leftover' = leftover smod SECS_PER_HOUR
        in Some (year, month, day, hours, leftover' sdiv 60, leftover' smod 60))"

text \<open>The fields of \<open>struct tm\<close> the library uses.\<close>

record tm =
  tm_year :: int
  tm_mon :: int
  tm_mday :: int
  tm_hour :: int
  tm_min :: int
  tm_sec :: int

definition OPENSSL_tm_to_posix :: "tm \<Rightarrow> int option" where
  "OPENSSL_tm_to_posix t =
     posix_time_from_utc (tm_year t + 1900) (tm_mon t + 1) (tm_mday t) (tm_hour t) (tm_min t) (tm_sec t)"

definition OPENSSL_posix_to_tm :: "int \<Rightarrow> tm option" where
  "OPENSSL_posix_to_tm time =
     map_option (\<lambda>(year, month, day, hours, minutes, seconds).
       \<lparr>tm_year = year - 1900, tm_mon = month - 1, tm_mday = day, tm_hour = hours,
        tm_min = minutes, tm_sec = seconds\<rparr>) (utc_from_posix_time time)"

text \<open>\<open>time32\<close>: whether \<open>time_t\<close> has 32 bits.\<close>

definition OPENSSL_timegm :: "bool \<Rightarrow> tm \<Rightarrow> int option" where
  "OPENSSL_timegm time32 t =
     (case OPENSSL_tm_to_posix t of
        None \<Rightarrow> None
      | Some posix_time \<Rightarrow>
          if time32 \<and> (posix_time > 2147483647 \<or> posix_time < - 2147483648) then None
          else Some posix_time)"

definition OPENSSL_gmtime :: "int \<Rightarrow> tm option" where
  "OPENSSL_gmtime time = OPENSSL_posix_to_tm time"

definition OPENSSL_gmtime_adj :: "tm \<Rightarrow> int \<Rightarrow> int \<Rightarrow> tm option" where
  "OPENSSL_gmtime_adj t offset_day offset_sec =
     (case OPENSSL_tm_to_posix t of
        None \<Rightarrow> None
      | Some posix_time0 \<Rightarrow>
          let posix_time = posix_time0 + offset_day * SECS_PER_DAY in
          if posix_time > 0 \<and> offset_sec > INT64_MAX - posix_time then None
          else if posix_time < 0 \<and> offset_sec < INT64_MIN - posix_time then None
          else OPENSSL_posix_to_tm (posix_time + offset_sec))"

text \<open>The result is \<open>(*out_days, *out_secs)\<close>.\<close>

definition OPENSSL_gmtime_diff :: "tm \<Rightarrow> tm \<Rightarrow> (int \<times> int) option" where
  "OPENSSL_gmtime_diff from_tm to_tm =
     (case (OPENSSL_tm_to_posix to_tm, OPENSSL_tm_to_posix from_tm) of
        (Some time_to, Some time_from) \<Rightarrow>
          (let timediff = time_to - time_from
           in Some (timediff sdiv SECS_PER_DAY, timediff smod SECS_PER_DAY))
      | _ \<Rightarrow> None)"

subsection \<open>Truncating division\<close>

lemma sdiv_nonneg: "0 \<le> a \<Longrightarrow> 0 < b \<Longrightarrow> (a :: int) sdiv b = a div b"
  by (cases "a = 0") (simp_all add: signed_divide_int_def sgn_if)

lemma smod_nonneg: "0 \<le> a \<Longrightarrow> 0 < b \<Longrightarrow> (a :: int) smod b = a mod b"
  by (cases "a = 0") (simp_all add: signed_modulo_int_def sgn_if)

lemma sdiv_neg: "a \<le> 0 \<Longrightarrow> 0 < b \<Longrightarrow> (a :: int) sdiv b = - ((- a) div b)"
  by (cases "a = 0") (simp_all add: signed_divide_int_def sgn_if)

lemma neg_div_floor: assumes "0 < b" shows "- ((b - 1 - a) div b) = (a :: int) div b"
proof -
  let ?q = "a div b" and ?r = "a mod b"
  have "b - 1 - a = b * (- ?q) + (b - 1 - ?r)" using minus_div_mult_eq_mod[of a b]
    by (simp add: algebra_simps)
  then have "(b - 1 - a) div b = - ?q"
    by (rule int_div_pos_eq) (use assms pos_mod_bound[of b a] pos_mod_sign[of b a] in linarith)+
  then show ?thesis by simp
qed

text \<open>The code's way to divide rounding down.\<close>

lemma floor_sdiv:
  assumes "0 < b" "c = b - 1"
  shows "(if 0 \<le> a then a else a - c) sdiv b = (a :: int) div b"
    and "(if 0 < a then a else a - c) sdiv b = (a :: int) div b"
proof -
  have neg: "(a - c) sdiv b = a div b" if "a \<le> 0"
    using that assms sdiv_neg[of "a - c" b] neg_div_floor[OF assms(1), of a] by simp
  then show "(if 0 \<le> a then a else a - c) sdiv b = a div b" using assms(1) by (simp add: sdiv_nonneg)
  show "(if 0 < a then a else a - c) sdiv b = a div b" using neg assms(1) by (simp add: sdiv_nonneg)
qed

lemma floor_smod:
  assumes "0 < b"
  shows "(if (t :: int) smod b < 0 then (t sdiv b - 1, t smod b + b) else (t sdiv b, t smod b)) = (t div b, t mod b)"
proof (cases "0 \<le> t")
  case True
  then show ?thesis using assms by (simp add: sdiv_nonneg smod_nonneg not_less)
next
  case False
  let ?q = "(- t) div b" and ?r = "(- t) mod b"
  have sm: "t smod b = - ?r" using False assms
    by (simp add: signed_modulo_int_def sdiv_neg minus_div_mult_eq_mod[symmetric])
  have t: "t = b * (- ?q) - ?r" using mult_div_mod_eq[of b "- t"] by linarith
  have r: "0 \<le> ?r" "?r < b" using assms by simp_all
  show ?thesis
  proof (cases "?r = 0")
    case True
    then have "t = b * (- ?q) + 0" using t by simp
    then have d: "t div b = - ?q" by (rule int_div_pos_eq) (use assms in simp_all)
    moreover have "t mod b = 0" using t True d mult_div_mod_eq[of b t] by simp
    ultimately show ?thesis using sm True False assms by (simp add: sdiv_neg)
  next
    case False': False
    have "t div b = - ?q - 1"
      by (rule int_div_pos_eq[where r = "b - ?r"]) (use t r False' in \<open>simp_all add: algebra_simps\<close>)
    moreover have "t mod b = b - ?r"
    proof -
      have "b * (t div b) = b * (- ?q - 1)" using calculation by simp
      also have "\<dots> = b * (- ?q) - b" by (simp add: right_diff_distrib)
      finally have "b * (t div b) = b * (- ?q) - b" .
      then show ?thesis using t mult_div_mod_eq[of b t] by linarith
    qed
    moreover have "0 < ?r" using r False' by linarith
    ultimately show ?thesis using sm False assms by (simp add: sdiv_neg)
  qed
qed

subsection \<open>The 400-year cycle, in years that begin in March\<close>

definition leap :: "int \<Rightarrow> bool" where
  "leap y \<longleftrightarrow> (y mod 4 = 0 \<and> y mod 100 \<noteq> 0) \<or> y mod 400 = 0"

text \<open>The first day of a year of the cycle, its last day, and the code's year of a day.\<close>

definition ystart :: "int \<Rightarrow> int" where
  "ystart y = 365 * y + y div 4 - y div 100"

definition ylast :: "int \<Rightarrow> int" where
  "ylast y = ystart y + (if leap (y + 1) then 365 else 364)"

definition year_of :: "int \<Rightarrow> int" where
  "year_of d = (d - d div 1460 + d div 36524 - d div 146096) div 365"

lemma cycle_table:
  "list_all (\<lambda>y. year_of (ystart y) = y \<and> year_of (ylast y) = y \<and> 0 \<le> ystart y \<and> ylast y \<le> 146096 \<and>
     (y = 399 \<or> ystart (y + 1) = ylast y + 1)) [0..399]"
  by code_simp

lemma cycle_year:
  assumes "0 \<le> y" "y \<le> 399"
  shows "year_of (ystart y) = y" "year_of (ylast y) = y" "0 \<le> ystart y" "ylast y \<le> 146096"
    "y = 399 \<or> ystart (y + 1) = ylast y + 1"
  using cycle_table assms by (auto simp: list_all_iff)

lemma Suc_div: "0 < b \<Longrightarrow> (a + 1) div b = a div b + (if b dvd a + 1 then 1 else (0 :: int))"
proof (cases "b dvd a + 1")
  case True
  assume b: "0 < b"
  obtain k where k: "a + 1 = b * k" using True by (rule dvdE)
  have "a div b = k - 1" by (rule int_div_pos_eq[where r = "b - 1"]) (use k b in \<open>simp_all add: algebra_simps\<close>)
  then show ?thesis using True k b by simp
next
  case False
  assume b: "0 < b"
  have a: "a + 1 = b * (a div b) + (a mod b + 1)" by simp
  have "a mod b + 1 \<noteq> b" using False a by (metis dvd_add dvd_refl dvd_triv_left)
  moreover have "0 \<le> a mod b" "a mod b < b" using b by simp_all
  ultimately have "(a + 1) div b = a div b" by (intro int_div_pos_eq[OF a]) linarith+
  then show ?thesis using False by simp
qed

lemma year_of_mono_step:
  assumes "0 \<le> d" "d < 146096" shows "year_of d \<le> year_of (d + 1)"
proof -
  let ?g = "\<lambda>d :: int. d - d div 1460 + d div 36524 - d div 146096"
  have "\<not> (1460 dvd d + 1 \<and> 146096 dvd d + 1)"
  proof
    assume a: "1460 dvd d + 1 \<and> 146096 dvd d + 1"
    then have "146096 \<le> d + 1" using assms by (intro zdvd_imp_le) auto
    then have "d + 1 = 146096" using assms by simp
    with a show False by simp
  qed
  then have "?g d \<le> ?g (d + 1)" by (auto simp: Suc_div)
  then show ?thesis unfolding year_of_def by (intro zdiv_mono1) auto
qed

lemma year_of_mono: assumes "0 \<le> a" "a \<le> b" "b \<le> 146096" shows "year_of a \<le> year_of b"
  using assms(2,3)
proof (induction b rule: int_ge_induct)
  case (step b)
  then show ?case using year_of_mono_step[of b] assms(1) by simp
qed simp

lemma year_of_eq:
  assumes "0 \<le> y" "y \<le> 399" "ystart y \<le> d" "d \<le> ylast y" shows "year_of d = y"
  using year_of_mono[of "ystart y" d] year_of_mono[of d "ylast y"] cycle_year[OF assms(1,2)] assms(3,4) by simp

lemma year_cover:
  assumes "0 \<le> d" "d \<le> 146096" shows "\<exists>y. 0 \<le> y \<and> y \<le> 399 \<and> ystart y \<le> d \<and> d \<le> ylast y"
proof -
  have "\<exists>y. 0 \<le> y \<and> y \<le> n \<and> ystart y \<le> d \<and> d \<le> ylast y" if "0 \<le> n" "n \<le> 399" "d \<le> ylast n" for n
    using that
  proof (induction n rule: int_ge_induct)
    case base
    then show ?case using assms(1) by (intro exI[of _ 0]) (simp add: ystart_def)
  next
    case (step n)
    show ?case
    proof (cases "d \<le> ylast n")
      case True
      then obtain y where "0 \<le> y" "y \<le> n" "ystart y \<le> d" "d \<le> ylast y" using step by auto
      then show ?thesis by (intro exI[of _ y]) simp
    next
      case False
      then show ?thesis using step cycle_year(5)[of n] by (intro exI[of _ "n + 1"]) auto
    qed
  qed
  from this[of 399] show ?thesis using assms by (simp add: ylast_def ystart_def leap_def)
qed

text \<open>Months, counted from March: the day of the year each begins on, and its length in a leap year.\<close>

definition mstart :: "int \<Rightarrow> int" where
  "mstart k = (153 * k + 2) div 5"

definition mdays :: "int \<Rightarrow> int" where
  "mdays k = (if k = 11 then 29 else if k \<in> {1, 3, 6, 8} then 30 else 31)"

definition month_of :: "int \<Rightarrow> int" where
  "month_of d = (5 * d + 2) div 153"

lemma month_table:
  "list_all (\<lambda>d. 0 \<le> month_of d \<and> month_of d \<le> 11 \<and> mstart (month_of d) \<le> d \<and>
     d < mstart (month_of d) + mdays (month_of d)) [0..365]"
  "list_all (\<lambda>k. list_all (\<lambda>i. month_of (mstart k + i - 1) = k) [1..mdays k]) [0..11]"
  by code_simp+

lemma month_of_props:
  assumes "0 \<le> d" "d \<le> 365"
  shows "0 \<le> month_of d" "month_of d \<le> 11" "mstart (month_of d) \<le> d" "d < mstart (month_of d) + mdays (month_of d)"
  using month_table(1) assms by (auto simp: list_all_iff)

lemma month_of_eq: "0 \<le> k \<Longrightarrow> k \<le> 11 \<Longrightarrow> 1 \<le> i \<Longrightarrow> i \<le> mdays k \<Longrightarrow> month_of (mstart k + i - 1) = k"
  using month_table(2) by (auto simp: list_all_iff)

text \<open>The month counted from March, and validity in these terms.\<close>

definition mp :: "int \<Rightarrow> int" where
  "mp month = (if month > 2 then month - 3 else month + 9)"

lemma is_valid_date_iff:
  "is_valid_date y m d \<longleftrightarrow> 0 \<le> y \<and> y \<le> 9999 \<and> 1 \<le> m \<and> m \<le> 12 \<and> 1 \<le> d \<and> d \<le> mdays (mp m) \<and>
     (m = 2 \<and> d = 29 \<longrightarrow> leap y)"
proof -
  have "m < 1 \<or> 12 < m \<or> m = 1 \<or> m = 2 \<or> m = 3 \<or> m = 4 \<or> m = 5 \<or> m = 6 \<or> m = 7 \<or> m = 8 \<or> m = 9 \<or>
      m = 10 \<or> m = 11 \<or> m = 12" by presburger
  then show ?thesis
    by (elim disjE) (auto simp: is_valid_date_def mdays_def mp_def leap_def smod_nonneg)
qed

subsection \<open>Days\<close>

text \<open>The two conversions in terms of the cycle.\<close>

lemma posix_days_eq:
  assumes "is_valid_date y m d"
  shows "posix_days_from_date y m d =
    (let Y = if m \<le> 2 then y - 1 else y
     in Y div 400 * 146097 + (ystart (Y mod 400) + (mstart (mp m) + d - 1)) - 719468)"
proof -
  let ?Y = "if m \<le> 2 then y - 1 else y"
  have m: "0 \<le> mp m" using assms by (auto simp: is_valid_date_iff mp_def)
  have "(if ?Y \<ge> 0 then ?Y else ?Y - 399) sdiv 400 = ?Y div 400"
    by (rule floor_sdiv(1)) simp_all
  moreover have "?Y - ?Y div 400 * 400 = ?Y mod 400" by (rule minus_div_mult_eq_mod)
  moreover have "(153 * mp m + 2) sdiv 5 = mstart (mp m)" using m by (simp add: sdiv_nonneg mstart_def)
  moreover have "?Y mod 400 sdiv 4 = ?Y mod 400 div 4" "?Y mod 400 sdiv 100 = ?Y mod 400 div 100"
    by (simp_all add: sdiv_nonneg)
  ultimately show ?thesis
    unfolding posix_days_from_date_def Let_def mp_def[symmetric] ystart_def by simp
qed

lemma date_from_shifted_days_eq:
  "date_from_shifted_days n =
    (let e = n mod 146097; y = year_of e; dy = e - ystart y; k = month_of dy;
         month = if k < 10 then k + 3 else k - 9; year = y + n div 146097 * 400
     in (if month \<le> 2 then year + 1 else year, month, dy - mstart k + 1))"
proof -
  let ?e = "n mod 146097"
  have e: "0 \<le> ?e" "?e \<le> 146096" using pos_mod_bound[of 146097 n] by simp_all
  have era: "(if n > 0 then n else n - 146096) sdiv 146097 = n div 146097"
    by (rule floor_sdiv(2)) simp_all
  have doe: "n - n div 146097 * 146097 = ?e" by (rule minus_div_mult_eq_mod)
  obtain y where y: "0 \<le> y" "y \<le> 399" "ystart y \<le> ?e" "?e \<le> ylast y" using year_cover[OF e] by auto
  have ye: "year_of ?e = y" by (rule year_of_eq[OF y])
  have inner: "0 \<le> ?e - ?e div 1460 + ?e div 36524 - ?e div 146096"
  proof (rule ccontr)
    assume "\<not> ?thesis"
    then have "year_of ?e < 0" unfolding year_of_def by (simp add: pos_imp_zdiv_neg_iff)
    then show False using ye y(1) by simp
  qed
  have yoe: "(?e - ?e sdiv 1460 + ?e sdiv 36524 - ?e sdiv 146096) sdiv 365 = year_of ?e"
    using e inner by (simp add: sdiv_nonneg year_of_def)
  have st: "365 * year_of ?e + year_of ?e sdiv 4 - year_of ?e sdiv 100 = ystart (year_of ?e)"
    using ye y(1) by (simp add: sdiv_nonneg ystart_def)
  have dy: "0 \<le> ?e - ystart (year_of ?e)" using ye y(3) by simp
  have dy': "?e - ystart (year_of ?e) \<le> 365" using ye y(4) by (simp add: ylast_def split: if_splits)
  have moy: "(5 * (?e - ystart (year_of ?e)) + 2) sdiv 153 = month_of (?e - ystart (year_of ?e))"
    using dy by (simp add: sdiv_nonneg month_of_def)
  have ms: "(153 * month_of (?e - ystart (year_of ?e)) + 2) sdiv 5 = mstart (month_of (?e - ystart (year_of ?e)))"
    using month_of_props(1)[OF dy dy'] by (simp add: sdiv_nonneg mstart_def)
  show ?thesis unfolding date_from_shifted_days_def Let_def era doe yoe st moy ms ..
qed

lemma leap_cycle: "leap (y mod 400 + 1) = leap (y + 1)"
proof -
  have "(y mod 400 + 1) mod k = (y + 1) mod k" if "k dvd 400" for k
    using mod_mod_cancel[OF that, of y] by (metis mod_add_left_eq)
  from this[of 4] this[of 100] this[of 400]
  show ?thesis by (simp add: leap_def)
qed

lemma mstart_11: "mstart 11 = 337" and mdays_pos: "1 \<le> mdays k" and mdays_le: "mdays k \<le> 31"
  by (simp_all add: mstart_def mdays_def)

lemma day_of_year_bounds:
  assumes "is_valid_date y m d" and Y: "Y = (if m \<le> 2 then y - 1 else y)"
  shows "0 \<le> mstart (mp m) + d - 1" "ystart (Y mod 400) + (mstart (mp m) + d - 1) \<le> ylast (Y mod 400)"
proof -
  let ?k = "mp m" and ?dy = "mstart (mp m) + d - 1"
  have v: "1 \<le> m" "m \<le> 12" "1 \<le> d" "d \<le> mdays ?k" "m = 2 \<and> d = 29 \<longrightarrow> leap y"
    using assms(1) by (auto simp: is_valid_date_iff)
  have k: "0 \<le> ?k" "?k \<le> 11" using v(1,2) by (auto simp: mp_def)
  show "0 \<le> ?dy" using k(1) v(3) by (simp add: mstart_def)
  have le: "?dy \<le> 365" and eq: "?dy = 365 \<Longrightarrow> ?k = 11 \<and> d = 29"
  proof -
    have "mstart ?k \<le> 306 \<or> ?k = 11" using k by (auto simp: mstart_def)
    then show "?dy \<le> 365" "?dy = 365 \<Longrightarrow> ?k = 11 \<and> d = 29"
      using v(4) mdays_le[of ?k] by (auto simp: mstart_11 mdays_def)
  qed
  have "?dy \<le> 364 \<or> leap (Y mod 400 + 1)"
  proof (cases "?dy = 365")
    case True
    then have "m = 2" "d = 29" using eq v(2) by (auto simp: mp_def split: if_splits)
    then show ?thesis using v(5) Y leap_cycle[of Y] by simp
  qed (use le in simp)
  then show "ystart (Y mod 400) + ?dy \<le> ylast (Y mod 400)" using le by (auto simp: ylast_def)
qed

lemma days_round_trip:
  assumes "is_valid_date y m d"
  shows "date_from_shifted_days (posix_days_from_date y m d + 719468) = (y, m, d)"
proof -
  define Y where "Y = (if m \<le> 2 then y - 1 else y)"
  let ?k = "mp m" let ?dy = "mstart ?k + d - 1" let ?y = "Y mod 400" let ?e = "ystart ?y + ?dy"
  have v: "1 \<le> m" "m \<le> 12" "1 \<le> d" "d \<le> mdays ?k" using assms by (auto simp: is_valid_date_iff)
  have k: "0 \<le> ?k" "?k \<le> 11" using v(1,2) by (auto simp: mp_def)
  note dy = day_of_year_bounds[OF assms Y_def]
  have y: "0 \<le> ?y" "?y \<le> 399" using pos_mod_bound[of 400 Y] by simp_all
  have e: "0 \<le> ?e" "?e < 146097" using cycle_year(3,4)[OF y] dy by simp_all
  have n: "posix_days_from_date y m d + 719468 = Y div 400 * 146097 + ?e"
    using posix_days_eq[OF assms] by (simp add: Let_def Y_def[symmetric])
  have ne: "(Y div 400 * 146097 + ?e) mod 146097 = ?e" "(Y div 400 * 146097 + ?e) div 146097 = Y div 400"
    using e by simp_all
  have ye: "year_of ?e = ?y" using year_of_eq[OF y _ dy(2)] dy(1) by simp
  have me: "month_of ?dy = ?k" by (rule month_of_eq[OF k v(3,4)])
  have "?y + Y div 400 * 400 = Y" by simp
  then show ?thesis
    unfolding n date_from_shifted_days_eq Let_def ne ye
    using me v(1,2) by (auto simp: Y_def mp_def split: if_splits)
qed

lemma late_months: "306 \<le> d \<Longrightarrow> d \<le> 365 \<Longrightarrow> 10 \<le> month_of d" and early_months: "d \<le> 305 \<Longrightarrow> month_of d < 10"
  by (simp_all add: month_of_def)

text \<open>The days of the supported range of times.\<close>

lemma shifted_days_valid:
  assumes n: "- 60 \<le> n" "n \<le> 3652364" and date: "date_from_shifted_days n = (y, m, d)"
  shows "is_valid_date y m d" and "posix_days_from_date y m d = n - 719468"
proof -
  let ?e = "n mod 146097" and ?era = "n div 146097"
  have n_eq: "n = ?era * 146097 + ?e" by simp
  have e: "0 \<le> ?e" "?e \<le> 146096" using pos_mod_bound[of 146097 n] by simp_all
  have era: "- 1 \<le> ?era" "?era \<le> 24" using n by simp_all
  obtain yo where yo: "0 \<le> yo" "yo \<le> 399" "ystart yo \<le> ?e" "?e \<le> ylast yo" using year_cover[OF e] by auto
  define dy where "dy = ?e - ystart yo"
  define k where "k = month_of dy"
  define Y where "Y = yo + ?era * 400"
  have ye: "year_of ?e = yo" by (rule year_of_eq[OF yo])
  have dy: "0 \<le> dy" "dy \<le> 365" "dy = 365 \<Longrightarrow> leap (yo + 1)"
    using yo(3,4) by (auto simp: dy_def ylast_def split: if_splits)
  have k: "0 \<le> k" "k \<le> 11" "mstart k \<le> dy" "dy < mstart k + mdays k"
    using month_of_props[OF dy(1,2)] by (simp_all add: k_def)
  have m: "m = (if k < 10 then k + 3 else k - 9)" and y: "y = (if m \<le> 2 then Y + 1 else Y)"
    and d: "d = dy - mstart k + 1"
    using date unfolding date_from_shifted_days_eq Let_def ye dy_def[symmetric] k_def[symmetric] Y_def[symmetric]
    by auto
  have mk: "mp m = k" using m k(1,2) by (simp add: mp_def)
  have Yd: "Y div 400 = ?era" "Y mod 400 = yo" using yo(1,2) by (simp_all add: Y_def)
  have s399: "ystart 399 = 145731" by (simp add: ystart_def)
  have range: "0 \<le> y \<and> y \<le> 9999"
  proof (intro conjI)
    show "0 \<le> y"
    proof (cases "?era = - 1")
      case True
      then have "146037 \<le> ?e" using n_eq n(1) by linarith
      moreover have "yo = 399"
        using year_of_mono[of "ystart 399" ?e] cycle_year(1)[of 399] ye yo(2) e calculation s399 by simp
      ultimately have "10 \<le> k" using late_months[of dy] dy(2) s399 by (simp add: dy_def k_def)
      then show ?thesis using m y True \<open>yo = 399\<close> k(2) by (simp add: Y_def)
    qed (use y era yo(1) in \<open>simp add: Y_def\<close>)
    show "y \<le> 9999"
    proof (cases "?era = 24 \<and> yo = 399")
      case True
      then have "dy \<le> 305" using n_eq n(2) s399 by (simp add: dy_def)
      then have "k < 10" using early_months by (simp add: k_def)
      then show ?thesis using m y True k(1) by (simp add: Y_def)
    next
      case False
      then have "Y \<le> 9998" using era(2) yo(2) by (auto simp: Y_def)
      then show ?thesis using y by simp
    qed
  qed
  have "leap y" if "m = 2 \<and> d = 29"
  proof -
    have "k = 11" using that m k(1) by (auto split: if_splits)
    then have "dy = 365" using that d mstart_11 by simp
    then show ?thesis using dy(3) leap_cycle[of Y] Yd(2) y that by simp
  qed
  then show v: "is_valid_date y m d"
    using range k m d mk by (auto simp: is_valid_date_iff)
  show "posix_days_from_date y m d = n - 719468"
  proof -
    have Y: "(if m \<le> 2 then y - 1 else y) = Y" using y by simp
    have "posix_days_from_date y m d = ?era * 146097 + (ystart yo + (mstart k + d - 1)) - 719468"
      unfolding posix_days_eq[OF v] Y Let_def Yd mk ..
    then show ?thesis using n_eq dy_def d by linarith
  qed
qed

lemma posix_days_range:
  assumes "is_valid_date y m d"
  shows "- 719528 \<le> posix_days_from_date y m d" "posix_days_from_date y m d \<le> 2932896"
proof -
  define Y where "Y = (if m \<le> 2 then y - 1 else y)"
  let ?dy = "mstart (mp m) + d - 1"
  have v: "0 \<le> y" "y \<le> 9999" "1 \<le> m" "m \<le> 12" "1 \<le> d" "d \<le> mdays (mp m)"
    using assms by (auto simp: is_valid_date_iff)
  note dy = day_of_year_bounds[OF assms Y_def]
  have y4: "0 \<le> Y mod 400" "Y mod 400 \<le> 399" using pos_mod_bound[of 400 Y] by simp_all
  note cy = cycle_year[OF y4]
  have eq: "posix_days_from_date y m d = Y div 400 * 146097 + (ystart (Y mod 400) + ?dy) - 719468"
    using posix_days_eq[OF assms] by (simp add: Let_def Y_def[symmetric])
  have s399: "ystart 399 = 145731" by (simp add: ystart_def)
  show "- 719528 \<le> posix_days_from_date y m d"
  proof (cases "Y = - 1")
    case True
    then have "m \<le> 2" using v by (simp add: Y_def split: if_splits)
    then have "306 \<le> mstart (mp m)" using v(3) by (auto simp: mp_def mstart_def)
    moreover have "(- 1 :: int) mod 400 = 399" "(- 1 :: int) div 400 = - 1" by simp_all
    ultimately show ?thesis using eq True v(5) s399 by simp
  next
    case False
    then have "0 \<le> Y div 400" using v by (simp add: Y_def split: if_splits)
    then show ?thesis using eq cy(3) dy(1) by simp
  qed
  show "posix_days_from_date y m d \<le> 2932896"
  proof (cases "Y = 9999")
    case True
    then have "2 < m" using v by (auto simp: Y_def split: if_splits)
    then have "mp m = m - 3" by (simp add: mp_def)
    have "mstart (mp m) + mdays (mp m) \<le> 306"
    proof -
      have "mp m \<in> {0, 1, 2, 3, 4, 5, 6, 7, 8, 9}" using \<open>2 < m\<close> \<open>mp m = m - 3\<close> v(4) by simp presburger
      then show ?thesis by (auto simp: mstart_def mdays_def)
    qed
    then show ?thesis using eq True v(6) s399 by simp
  next
    case False
    then have Y: "Y \<le> 9998" using v by (auto simp: Y_def split: if_splits)
    let ?e = "ystart (Y mod 400) + ?dy"
    have e: "0 \<le> ?e" "?e \<le> 146096" using cy(3,4) dy by simp_all
    show ?thesis
    proof (cases "Y div 400 \<le> 23")
      case True
      then show ?thesis using eq e(2) by simp
    next
      case False
      have "Y div 400 \<le> 24" using zdiv_mono1[of Y 9998 400] Y by simp
      then have era: "Y div 400 = 24" using False by simp
      moreover have "Y mod 400 \<le> 398" using calculation Y mult_div_mod_eq[of 400 Y] by linarith
      ultimately have era: "Y div 400 = 24" "Y mod 400 \<le> 398" by simp_all
      have "year_of ?e = Y mod 400" using year_of_eq[OF y4 _ dy(2)] dy(1) by simp
      then have "\<not> ystart 399 \<le> ?e"
        using year_of_mono[of "ystart 399" ?e] cycle_year(1)[of 399] era(2) e s399 by auto
      then show ?thesis using eq era(1) s399 by simp
    qed
  qed
qed

subsection \<open>Times\<close>

lemma split_seconds:
  assumes "0 \<le> h" "h \<le> 23" "0 \<le> mi" "mi \<le> 59" "0 \<le> s" "s \<le> 59"
  shows "(D * 86400 + h * 3600 + mi * 60 + s) div 86400 = (D :: int)"
    and "(D * 86400 + h * 3600 + mi * 60 + s) mod 86400 = h * 3600 + mi * 60 + s"
    and "(h * 3600 + mi * 60 + s) div 3600 = h" "(h * 3600 + mi * 60 + s) mod 3600 = mi * 60 + s"
    and "(mi * 60 + s) div 60 = mi" "(mi * 60 + s) mod 60 = s"
proof -
  let ?x = "h * 3600 + mi * 60 + s" and ?y = "mi * 60 + s"
  have x: "?x < 86400" "0 \<le> ?x" and y: "?y < 3600" "0 \<le> ?y" using assms by simp_all
  have eq: "D * 86400 + h * 3600 + mi * 60 + s = D * 86400 + ?x" "?x = h * 3600 + ?y" by simp_all
  show "(D * 86400 + h * 3600 + mi * 60 + s) div 86400 = D"
    by (rule int_div_pos_eq[of _ _ _ ?x]) (use x in simp_all)
  show "(D * 86400 + h * 3600 + mi * 60 + s) mod 86400 = ?x"
    unfolding eq(1) using x by (simp only: mod_mult_self3 mod_pos_pos_trivial)
  show "?x div 3600 = h" by (rule int_div_pos_eq[of _ _ _ ?y]) (use y in simp_all)
  show "?x mod 3600 = ?y" unfolding eq(2) using y by (simp only: mod_mult_self3 mod_pos_pos_trivial)
  show "(mi * 60 + s) div 60 = mi" "(mi * 60 + s) mod 60 = s" using assms by simp_all
qed

lemma utc_from_posix_time_eq:
  "utc_from_posix_time t =
     (if is_valid_posix_time t
      then let (y, m, d) = date_from_shifted_days (t div 86400 + 719468); r = t mod 86400
           in Some (y, m, d, r div 3600, r mod 3600 div 60, r mod 3600 mod 60)
      else None)"
proof -
  have "0 \<le> t mod 86400" "0 \<le> t mod 86400 mod 3600" by simp_all
  then show ?thesis
    unfolding utc_from_posix_time_def Let_def floor_smod[of 86400 t, simplified]
    by (simp add: sdiv_nonneg smod_nonneg split: prod.splits)
qed

lemma posix_utc_iff:
  "utc_from_posix_time t = Some (y, m, d, h, mi, s) \<longleftrightarrow> posix_time_from_utc y m d h mi s = Some t"
proof
  assume utc: "utc_from_posix_time t = Some (y, m, d, h, mi, s)"
  let ?r = "t mod 86400"
  have v: "is_valid_posix_time t" using utc by (auto simp: utc_from_posix_time_eq split: if_splits)
  then have n: "- 60 \<le> t div 86400 + 719468" "t div 86400 + 719468 \<le> 3652364"
    using zdiv_mono1[of "- 62167219200" t 86400] zdiv_mono1[of t 253402300799 86400]
    by (simp_all add: is_valid_posix_time_def)
  have dt: "date_from_shifted_days (t div 86400 + 719468) = (y, m, d)"
    and hms: "h = ?r div 3600" "mi = ?r mod 3600 div 60" "s = ?r mod 3600 mod 60"
    using utc v by (auto simp: utc_from_posix_time_eq Let_def split: prod.splits)
  note date = shifted_days_valid[OF n dt]
  have r: "0 \<le> ?r" "?r < 86400" by simp_all
  have "is_valid_time h mi s"
  proof -
    have m3600: "0 \<le> ?r mod 3600" "?r mod 3600 \<le> 3599" using pos_mod_bound[of 3600 ?r] by simp_all
    have "0 \<le> h" "0 \<le> mi" using r(1) m3600(1) hms by (simp_all only: pos_imp_zdiv_nonneg_iff zero_less_numeral)
    moreover have "h \<le> 23" using zdiv_mono1[of ?r 86399 3600] r(2) hms(1) by simp
    moreover have "mi \<le> 59" using zdiv_mono1[of "?r mod 3600" 3599 60] m3600(2) hms(2) by simp
    moreover have "0 \<le> s" "s \<le> 59" using pos_mod_bound[of 60 "?r mod 3600"] hms(3) by simp_all
    ultimately show ?thesis by (simp add: is_valid_time_def)
  qed
  moreover have "?r = h * 3600 + mi * 60 + s"
    using hms by (metis add.assoc div_mult_mod_eq)
  then have "posix_days_from_date y m d * 86400 + h * 3600 + mi * 60 + s = t"
    using date(2) div_mult_mod_eq[of t 86400] by linarith
  ultimately show "posix_time_from_utc y m d h mi s = Some t"
    using date(1) by (simp add: posix_time_from_utc_def)
next
  assume "posix_time_from_utc y m d h mi s = Some t"
  then have v: "is_valid_date y m d" "is_valid_time h mi s"
    and t: "t = posix_days_from_date y m d * 86400 + h * 3600 + mi * 60 + s"
    by (auto simp: posix_time_from_utc_def split: if_splits)
  have hms: "0 \<le> h" "h \<le> 23" "0 \<le> mi" "mi \<le> 59" "0 \<le> s" "s \<le> 59"
    using v(2) by (auto simp: is_valid_time_def)
  have "is_valid_posix_time t"
    using posix_days_range[OF v(1)] hms t by (simp add: is_valid_posix_time_def)
  then show "utc_from_posix_time t = Some (y, m, d, h, mi, s)"
    using days_round_trip[OF v(1)] split_seconds[OF hms] t by (simp add: utc_from_posix_time_eq)
qed

text \<open>(C28) The conversions between UTC and POSIX time are inverse to each other, on the whole range from
  0000-01-01 to 9999-12-31: a time converts to a date exactly when that date converts to the time.\<close>

theorem posix_utc_inverse:
  "utc_from_posix_time t = Some (y, m, d, h, mi, s) \<longleftrightarrow> posix_time_from_utc y m d h mi s = Some t"
  by (rule posix_utc_iff)

text \<open>The calendar: the day after a date.\<close>

definition next_day :: "int \<times> int \<times> int \<Rightarrow> int \<times> int \<times> int" where
  "next_day = (\<lambda>(y, m, d).
     if is_valid_date y m (d + 1) then (y, m, d + 1) else if m < 12 then (y, m + 1, 1) else (y + 1, 1, 1))"

lemma mstart_step: "0 \<le> k \<Longrightarrow> k \<le> 10 \<Longrightarrow> mstart (k + 1) = mstart k + mdays k"
proof -
  assume "0 \<le> k" "k \<le> 10"
  then have "k = 0 \<or> k = 1 \<or> k = 2 \<or> k = 3 \<or> k = 4 \<or> k = 5 \<or> k = 6 \<or> k = 7 \<or> k = 8 \<or> k = 9 \<or> k = 10"
    by presburger
  then show ?thesis by (elim disjE) (simp_all add: mstart_def mdays_def)
qed

text \<open>The day count of the cycle at the turn of a year that begins in March.\<close>

lemma march_first:
  "Y div 400 * 146097 + ylast (Y mod 400) + 1 = (Y + 1) div 400 * 146097 + ystart ((Y + 1) mod 400)"
proof -
  have y4: "0 \<le> Y mod 400" "Y mod 400 \<le> 399" using pos_mod_bound[of 400 Y] by simp_all
  show ?thesis
  proof (cases "Y mod 400 = 399")
    case True
    define q where "q = Y div 400"
    have Y: "Y = 400 * q + 399" using True mult_div_mod_eq[of 400 Y] by (simp add: q_def)
    have "(Y + 1) div 400 = q + 1" "(Y + 1) mod 400 = 0" unfolding Y by simp_all
    then show ?thesis using True q_def by (simp add: ylast_def ystart_def leap_def)
  next
    case False
    then have "Y mod 400 + 1 < 400" using y4(2) by linarith
    then have "(Y + 1) div 400 = Y div 400"
      using mult_div_mod_eq[of 400 Y] y4(1) by (intro int_div_pos_eq[of _ _ _ "Y mod 400 + 1"]) linarith+
    moreover have "(Y + 1) mod 400 = Y mod 400 + 1"
      using calculation mult_div_mod_eq[of 400 Y] mult_div_mod_eq[of 400 "Y + 1"] by linarith
    ultimately show ?thesis using cycle_year(5)[OF y4] False by simp
  qed
qed

text \<open>The day count is the calendar's: 1970-01-01 is day 0, and the day after a valid date has the
  next number, across month ends, leap days and centuries.\<close>

theorem posix_days_calendar:
  "posix_days_from_date 1970 1 1 = 0 \<and>
   (is_valid_date y m d \<and> next_day (y, m, d) = (y', m', d') \<and> is_valid_date y' m' d' \<longrightarrow>
      posix_days_from_date y' m' d' = posix_days_from_date y m d + 1)"
proof (intro conjI impI)
  show "posix_days_from_date 1970 1 1 = 0"
    using posix_days_eq[of 1970 1 1]
    by (simp add: is_valid_date_def ystart_def mstart_def mp_def)
  assume a: "is_valid_date y m d \<and> next_day (y, m, d) = (y', m', d') \<and> is_valid_date y' m' d'"
  then have v: "is_valid_date y m d" and v': "is_valid_date y' m' d'" and nx: "next_day (y, m, d) = (y', m', d')"
    by auto
  have r: "1 \<le> m" "m \<le> 12" "1 \<le> d" "d \<le> mdays (mp m)" "m = 2 \<and> d = 29 \<longrightarrow> leap y" "0 \<le> y" "y \<le> 9999"
    using v by (auto simp: is_valid_date_iff)
  note eqs = posix_days_eq[OF v] posix_days_eq[OF v']
  show "posix_days_from_date y' m' d' = posix_days_from_date y m d + 1"
  proof (cases "is_valid_date y m (d + 1)")
    case True
    then show ?thesis using nx eqs by (auto simp: next_day_def Let_def)
  next
    case last: False
    have d': "d' = 1" using nx last by (auto simp: next_day_def split: if_splits)
    show ?thesis
    proof (cases "m = 2")
      case True
      have d: "d = (if leap y then 29 else 28)"
        using last r True by (auto simp: is_valid_date_iff mdays_def mp_def)
      have "y' = y" "m' = 3" using nx last True by (auto simp: next_day_def)
      moreover have "leap ((y - 1) mod 400 + 1) = leap y" using leap_cycle[of "y - 1"] by simp
      then have "ylast ((y - 1) mod 400) = ystart ((y - 1) mod 400) + (mstart 11 + d - 1)"
        using d by (simp add: ylast_def mstart_11)
      ultimately show ?thesis
        using eqs march_first[of "y - 1"] True d' by (simp add: Let_def mp_def mstart_def)
    next
      case False
      have d: "d = mdays (mp m)"
        using last r False by (auto simp: is_valid_date_iff)
      have "mp m' = mp m + 1 \<and> (if m' \<le> 2 then y' - 1 else y') = (if m \<le> 2 then y - 1 else y)"
        using nx last False r(1,2) by (auto simp: next_day_def mp_def split: if_splits)
      moreover have "mstart (mp m + 1) = mstart (mp m) + mdays (mp m)"
        using r(1,2) False by (intro mstart_step) (auto simp: mp_def)
      ultimately show ?thesis using eqs d d' by (simp add: Let_def)
    qed
  qed
qed

theorem posix_days_calendar_witness:
  "posix_days_from_date 2000 3 1 = posix_days_from_date 2000 2 29 + 1 \<and>
   posix_days_from_date 1900 3 1 = posix_days_from_date 1900 2 28 + 1"
  using posix_days_calendar[of 2000 2 29 2000 3 1] posix_days_calendar[of 1900 2 28 1900 3 1]
  by (simp add: next_day_def is_valid_date_iff mdays_def mp_def leap_def)

lemma tm_posix_inverse: "OPENSSL_posix_to_tm t = Some x \<longleftrightarrow> OPENSSL_tm_to_posix x = Some t"
proof
  assume "OPENSSL_posix_to_tm t = Some x"
  then obtain y m d h mi s where u: "utc_from_posix_time t = Some (y, m, d, h, mi, s)"
    and x: "x = \<lparr>tm_year = y - 1900, tm_mon = m - 1, tm_mday = d, tm_hour = h, tm_min = mi, tm_sec = s\<rparr>"
    by (auto simp: OPENSSL_posix_to_tm_def)
  then show "OPENSSL_tm_to_posix x = Some t"
    using posix_utc_iff by (simp add: OPENSSL_tm_to_posix_def)
next
  assume "OPENSSL_tm_to_posix x = Some t"
  then show "OPENSSL_posix_to_tm t = Some x"
    by (simp add: OPENSSL_tm_to_posix_def posix_utc_iff[symmetric] OPENSSL_posix_to_tm_def)
qed

text \<open>Adjusting a time moves it by exactly the given days and seconds, and the difference of the two
  times is that amount again, split into days and seconds of the same sign.\<close>

theorem gmtime_adj_diff:
  assumes "OPENSSL_gmtime_adj t days secs = Some t'"
  shows "\<exists>p. OPENSSL_tm_to_posix t = Some p \<and> OPENSSL_tm_to_posix t' = Some (p + days * 86400 + secs) \<and>
    OPENSSL_gmtime_diff t t' = Some ((days * 86400 + secs) sdiv 86400, (days * 86400 + secs) smod 86400)"
proof -
  obtain p where p: "OPENSSL_tm_to_posix t = Some p" "OPENSSL_posix_to_tm (p + days * 86400 + secs) = Some t'"
    using assms by (auto simp: OPENSSL_gmtime_adj_def Let_def split: option.splits if_splits)
  then have "OPENSSL_tm_to_posix t' = Some (p + days * 86400 + secs)" using tm_posix_inverse by simp
  with p show ?thesis by (simp add: OPENSSL_gmtime_diff_def Let_def add.assoc)
qed

theorem gmtime_adj_diff_witness:
  "OPENSSL_gmtime_diff \<lparr>tm_year = 70, tm_mon = 0, tm_mday = 1, tm_hour = 0, tm_min = 0, tm_sec = 0\<rparr>
     \<lparr>tm_year = 70, tm_mon = 0, tm_mday = 2, tm_hour = 0, tm_min = 1, tm_sec = 1\<rparr> =
   Some ((1 * 86400 + 61) sdiv 86400, (1 * 86400 + 61) smod 86400)"
proof -
  have "OPENSSL_gmtime_adj \<lparr>tm_year = 70, tm_mon = 0, tm_mday = 1, tm_hour = 0, tm_min = 0, tm_sec = 0\<rparr> 1 61 =
    Some \<lparr>tm_year = 70, tm_mon = 0, tm_mday = 2, tm_hour = 0, tm_min = 1, tm_sec = 1\<rparr>"
    by code_simp
  from gmtime_adj_diff[OF this] show ?thesis by blast
qed

end
