(* ===== verification/CBS_Time.thy ===== *)
theory CBS_Time
  imports CBS_Codec PosixTime
begin

text \<open>
  The time parsers at the end of \<open>crypto/bytestring/cbs.cc\<close>: UTCTime and GeneralizedTime as RFC 5280
  profiles them, with the timezone offsets some certificates carry. The C type \<open>int\<close> is modelled as
  \<open>int\<close>; every value is a pair of digits or a sum of a few of them.
\<close>

subsection \<open>Definitions\<close>

definition cbs_get_two_digits :: "(cbs, int) op" where
  "cbs_get_two_digits = op_bind CBS_get_u8 (\<lambda>first_digit.
     op_guard (OPENSSL_isdigit first_digit) (op_bind CBS_get_u8 (\<lambda>second_digit.
       op_guard (OPENSSL_isdigit second_digit)
         (op_ret ((int (unat first_digit) - 0x30) * 10 + (int (unat second_digit) - 0x30))))))"

definition is_valid_day :: "int \<Rightarrow> int \<Rightarrow> int \<Rightarrow> bool" where
  "is_valid_day year month day =
     (if day < 1 then False
      else if month \<in> {1, 3, 5, 7, 8, 10, 12} then day \<le> 31
      else if month \<in> {4, 6, 9, 11} then day \<le> 30
      else if month = 2 then
        (if (year smod 4 = 0 \<and> year smod 100 \<noteq> 0) \<or> year smod 400 = 0 then day \<le> 29 else day \<le> 28)
      else False)"

text \<open>The year of the two forms.\<close>

definition get_year :: "bool \<Rightarrow> (cbs, int) op" where
  "get_year is_gentime =
     (if is_gentime
      then op_bind cbs_get_two_digits (\<lambda>tmp. op_bind cbs_get_two_digits (\<lambda>tmp2. op_ret (tmp * 100 + tmp2)))
      else op_bind cbs_get_two_digits (\<lambda>tmp.
        let year0 = 1900 + tmp; year = if year0 < 1950 then year0 + 100 else year0
        in op_guard (\<not> year \<ge> 2050) (op_ret year)))"

text \<open>The fields after the year, each with its range check.\<close>

definition get_clock :: "int \<Rightarrow> (cbs, int \<times> int \<times> int \<times> int \<times> int) op" where
  "get_clock year =
     op_bind cbs_get_two_digits (\<lambda>month. op_guard (\<not> (month < 1 \<or> month > 12)) (
     op_bind cbs_get_two_digits (\<lambda>day. op_guard (is_valid_day year month day) (
     op_bind cbs_get_two_digits (\<lambda>hour. op_guard (\<not> hour > 23) (
     op_bind cbs_get_two_digits (\<lambda>minute. op_guard (\<not> minute > 59) (
     op_bind cbs_get_two_digits (\<lambda>sec. op_guard (\<not> sec > 59) (
       op_ret (month, day, hour, minute, sec)))))))))))"

text \<open>The sign of the offset for the byte after the seconds.\<close>

definition offset_sign_of :: "byte \<Rightarrow> int option" where
  "offset_sign_of tz =
     (if tz = 0x5a then Some 0 else if tz = 0x2b then Some 1 else if tz = 0x2d then Some (- 1) else None)"

definition get_offset :: "bool \<Rightarrow> int \<Rightarrow> (cbs, int) op" where
  "get_offset allow_timezone_offset offset_sign =
     (if offset_sign \<noteq> 0 then
        op_guard allow_timezone_offset (op_bind cbs_get_two_digits (\<lambda>offset_hours.
          op_guard (\<not> offset_hours > 23) (op_bind cbs_get_two_digits (\<lambda>offset_minutes.
            op_guard (\<not> offset_minutes > 59)
              (op_ret (offset_sign * (offset_hours * 3600 + offset_minutes * 60)))))))
      else op_ret 0)"

definition get_zone :: "bool \<Rightarrow> (cbs, int) op" where
  "get_zone allow = op_bind CBS_get_u8 (\<lambda>tz. op_bind (op_option (offset_sign_of tz)) (get_offset allow))"

text \<open>
  The parser works on a copy of its input. \<open>want\<close> says whether \<open>out_tm\<close> is not \<open>NULL\<close>; without it
  the offset is checked for its form but not applied.
\<close>

definition CBS_parse_rfc5280_time_internal :: "bool \<Rightarrow> bool \<Rightarrow> bool \<Rightarrow> cbs \<Rightarrow> tm option" where
  "CBS_parse_rfc5280_time_internal is_gentime allow_timezone_offset want =
     op_peek (op_bind (get_year is_gentime) (\<lambda>year.
       op_bind (get_clock year) (\<lambda>(month, day, hour, minute, sec).
       op_bind (get_zone allow_timezone_offset) (\<lambda>offset_seconds copy.
         if length copy \<noteq> 0 then (None, copy)
         else
           let t = \<lparr>tm_year = year - 1900, tm_mon = month - 1, tm_mday = day, tm_hour = hour,
                    tm_min = minute, tm_sec = sec\<rparr>
           in if want \<and> offset_seconds \<noteq> 0 then (OPENSSL_gmtime_adj t 0 offset_seconds, copy)
              else (Some t, copy)))))"

definition CBS_parse_generalized_time :: "bool \<Rightarrow> bool \<Rightarrow> cbs \<Rightarrow> tm option" where
  "CBS_parse_generalized_time want allow_timezone_offset cbs =
     CBS_parse_rfc5280_time_internal True allow_timezone_offset want cbs"

definition CBS_parse_utc_time :: "bool \<Rightarrow> bool \<Rightarrow> cbs \<Rightarrow> tm option" where
  "CBS_parse_utc_time want allow_timezone_offset cbs =
     CBS_parse_rfc5280_time_internal False allow_timezone_offset want cbs"

subsection \<open>Pairs of digits\<close>

definition two_digits :: "int \<Rightarrow> byte list" where
  "two_digits v = [byte_of (48 + nat v div 10), byte_of (48 + nat v mod 10)]"

lemma uint_byte_of: "k < 256 \<Longrightarrow> uint (byte_of k) = int k"
  by (metis mod_less uint_nat unat_byte_of)

lemma codec_two_digits: "codec (\<lambda>v. 0 \<le> v \<and> v \<le> 99) two_digits cbs_get_two_digits"
proof (rule codec.intro)
  fix v :: int and s assume v: "0 \<le> v \<and> v \<le> 99"
  have "nat v \<le> 99" using v by (simp add: nat_le_iff)
  then have "nat v div 10 \<le> 9" "nat v mod 10 \<le> 9" by linarith+
  moreover have "int (nat v div 10) * 10 + int (nat v mod 10) = v" using v by (simp add: zdiv_int zmod_int)
  ultimately show "cbs_get_two_digits (two_digits v @ s) = (Some v, s)"
    by (simp add: cbs_get_two_digits_def two_digits_def op_bind_def isdigit_iff unat_byte_of uint_byte_of)
next
  fix s v t assume run: "cbs_get_two_digits s = (Some v, t)"
  then obtain a b where s: "s = a # b # t" and a: "OPENSSL_isdigit a" "OPENSSL_isdigit b"
    and v: "v = (int (unat a) - 48) * 10 + (int (unat b) - 48)"
    by (auto simp: cbs_get_two_digits_def op_elims CBS_get_u8_Some)
  obtain i where i: "unat a = 48 + i" "i \<le> 9" using a(1) le_Suc_ex unfolding isdigit_iff by force
  obtain j where j: "unat b = 48 + j" "j \<le> 9" using a(2) le_Suc_ex unfolding isdigit_iff by force
  have nv: "nat v = i * 10 + j" using v i j by simp
  show "0 \<le> v \<and> v \<le> 99" using v i j by simp
  have "48 + nat v div 10 = unat a" "48 + nat v mod 10 = unat b" using nv i j by simp_all
  then show "s = two_digits v @ t" using s by (simp add: two_digits_def)
qed

interpretation two_digits: codec "\<lambda>v. 0 \<le> v \<and> v \<le> 99" two_digits cbs_get_two_digits
  by (rule codec_two_digits)

subsection \<open>Texts of times\<close>

text \<open>The years each form can express, and their text.\<close>

definition year_ok :: "bool \<Rightarrow> int \<Rightarrow> bool" where
  "year_ok is_gentime y \<longleftrightarrow> (if is_gentime then 0 \<le> y \<and> y \<le> 9999 else 1950 \<le> y \<and> y \<le> 2049)"

definition year_text :: "bool \<Rightarrow> int \<Rightarrow> byte list" where
  "year_text is_gentime y = (if is_gentime then two_digits (y div 100) else []) @ two_digits (y mod 100)"

lemma get_utc_year:
  "get_year False s = (Some y, t) \<longleftrightarrow>
     (\<exists>a. (0 \<le> a \<and> a \<le> 99) \<and> y = (if a < 50 then a + 2000 else a + 1900) \<and> y < 2050 \<and> s = two_digits a @ t)"
proof -
  have run: "get_year False s = (Some y, t) \<longleftrightarrow> (\<exists>a. (0 \<le> a \<and> a \<le> 99) \<and> s = two_digits a @ t \<and>
      (let year0 = 1900 + a; year = if year0 < 1950 then year0 + 100 else year0 in \<not> year \<ge> 2050 \<and> y = year))"
    unfolding get_year_def if_False op_bind_eq_Some two_digits.dec_iff Let_def op_guard_eq_Some op_ret_eq_Some
    by blast
  show ?thesis unfolding run Let_def by (rule ex_cong1) auto
qed

lemma get_year_Some: "get_year g s = (Some y, t) \<longleftrightarrow> year_ok g y \<and> s = year_text g y @ t"
proof (cases g)
  case True
  have "(\<exists>a b. (0 \<le> a \<and> a \<le> 99) \<and> (0 \<le> b \<and> b \<le> 99) \<and> y = a * 100 + b \<and> s = two_digits a @ two_digits b @ t) \<longleftrightarrow>
      0 \<le> y \<and> y \<le> 9999 \<and> s = two_digits (y div 100) @ two_digits (y mod 100) @ t" (is "?l \<longleftrightarrow> ?r")
  proof
    assume ?r
    moreover have "y div 100 \<le> 99" using calculation zdiv_mono1[of y 9999 100] by simp
    moreover have "y mod 100 \<le> 99" using pos_mod_bound[of 100 y] by simp
    moreover have "0 \<le> y div 100" using calculation by (simp add: pos_imp_zdiv_nonneg_iff)
    ultimately show ?l by (rule_tac exI[of _ "y div 100"], rule_tac exI[of _ "y mod 100"]) simp
  qed auto
  then show ?thesis
    using True by (auto simp: get_year_def op_elims two_digits.dec_iff year_ok_def year_text_def)
next
  case False
  have "(\<exists>a. (0 \<le> a \<and> a \<le> 99) \<and> y = (if a < 50 then a + 2000 else a + 1900) \<and> y < 2050 \<and> s = two_digits a @ t) \<longleftrightarrow>
      1950 \<le> y \<and> y \<le> 2049 \<and> s = two_digits (y mod 100) @ t" (is "?l \<longleftrightarrow> ?r")
  proof
    assume ?l
    then obtain a where a: "0 \<le> a" "a \<le> 99" "y = (if a < 50 then a + 2000 else a + 1900)" "s = two_digits a @ t" by auto
    have "(a + 2000) mod 100 = a mod 100" "(a + 1900) mod 100 = a mod 100"
      using mod_mult_self2[of a 100 20] mod_mult_self2[of a 100 19] by simp_all
    then have "y mod 100 = a" using a(1-3) by simp
    then show ?r using a by auto
  next
    assume r: ?r
    have m: "0 \<le> y mod 100" "y mod 100 \<le> 99" using pos_mod_bound[of 100 y] by simp_all
    have "(y - 1900) mod 100 = y mod 100" "(y - 2000) mod 100 = y mod 100"
      using mod_mult_self2[of "y - 1900" 100 19] mod_mult_self2[of "y - 2000" 100 20] by simp_all
    moreover have "y < 2000 \<Longrightarrow> (y - 1900) mod 100 = y - 1900" "\<not> y < 2000 \<Longrightarrow> (y - 2000) mod 100 = y - 2000"
      using r by (auto intro: mod_pos_pos_trivial)
    ultimately have "if y < 2000 then y = y mod 100 + 1900 \<and> 50 \<le> y mod 100 else y = y mod 100 + 2000 \<and> y mod 100 < 50"
      using r by auto
    then show ?l using r m by (intro exI[of _ "y mod 100"]) (auto split: if_splits)
  qed
  then show ?thesis
    using False get_utc_year by (simp add: year_ok_def year_text_def)
qed

definition zone_text :: "bool \<Rightarrow> int \<Rightarrow> byte list \<Rightarrow> bool" where
  "zone_text allow off z \<longleftrightarrow> z = [0x5a] \<and> off = 0 \<or>
     allow \<and> (\<exists>hh mm. 0 \<le> hh \<and> hh \<le> 23 \<and> 0 \<le> mm \<and> mm \<le> 59 \<and>
       (z = 0x2b # two_digits hh @ two_digits mm \<and> off = hh * 3600 + mm * 60 \<or>
        z = 0x2d # two_digits hh @ two_digits mm \<and> off = - (hh * 3600 + mm * 60)))"

lemma op_option_Some [op_elims]: "op_option x s = (Some a, t) \<longleftrightarrow> x = Some a \<and> t = s"
  by (cases x) (auto simp: op_option_def)

lemma get_offset_Some:
  "sg \<noteq> 0 \<Longrightarrow> get_offset allow sg s = (Some off, t) \<longleftrightarrow>
     allow \<and> (\<exists>hh mm. 0 \<le> hh \<and> hh \<le> 23 \<and> 0 \<le> mm \<and> mm \<le> 59 \<and> s = two_digits hh @ two_digits mm @ t \<and>
       off = sg * (hh * 3600 + mm * 60))"
  by (auto simp: get_offset_def op_elims two_digits.dec_iff)

lemma offset_sign_of_iff:
  "offset_sign_of tz = Some sg \<longleftrightarrow> tz = 0x5a \<and> sg = 0 \<or> tz = 0x2b \<and> sg = 1 \<or> tz = 0x2d \<and> sg = - 1"
  by (auto simp: offset_sign_of_def)

lemma get_zone_Some: "get_zone allow s = (Some off, t) \<longleftrightarrow> (\<exists>z. zone_text allow off z \<and> s = z @ t)"
proof -
  have "get_zone allow s = (Some off, t) \<longleftrightarrow>
      (\<exists>tz sg u. s = tz # u \<and> offset_sign_of tz = Some sg \<and> get_offset allow sg u = (Some off, t))"
    by (auto simp: get_zone_def op_elims CBS_get_u8_Some)
  also have "\<dots> \<longleftrightarrow> (s = 0x5a # t \<and> off = 0) \<or> (\<exists>u. s = 0x2b # u \<and> get_offset allow 1 u = (Some off, t)) \<or>
      (\<exists>u. s = 0x2d # u \<and> get_offset allow (- 1) u = (Some off, t))"
    by (auto simp: offset_sign_of_iff get_offset_def[of _ 0])
  also have "\<dots> \<longleftrightarrow> (\<exists>z. zone_text allow off z \<and> s = z @ t)"
    by (simp add: get_offset_Some zone_text_def) (auto 0 4)
  finally show ?thesis .
qed

definition local_tm :: "int \<Rightarrow> int \<Rightarrow> int \<Rightarrow> int \<Rightarrow> int \<Rightarrow> int \<Rightarrow> tm" where
  "local_tm y m d h mi s =
     \<lparr>tm_year = y - 1900, tm_mon = m - 1, tm_mday = d, tm_hour = h, tm_min = mi, tm_sec = s\<rparr>"

definition time_text :: "bool \<Rightarrow> int \<Rightarrow> int \<Rightarrow> int \<Rightarrow> int \<Rightarrow> int \<Rightarrow> int \<Rightarrow> byte list" where
  "time_text g y m d h mi s =
     year_text g y @ two_digits m @ two_digits d @ two_digits h @ two_digits mi @ two_digits s"

lemma is_valid_day_date:
  "year_ok g y \<Longrightarrow> (1 \<le> m \<and> m \<le> 12 \<and> is_valid_day y m d) \<longleftrightarrow> is_valid_date y m d"
  by (auto simp: is_valid_day_def is_valid_date_def year_ok_def split: if_splits)

lemma is_valid_day_bounds: "is_valid_day y m d \<Longrightarrow> 0 \<le> d \<and> d \<le> 99"
  by (auto simp: is_valid_day_def split: if_splits)

lemma get_clock_Some:
  assumes "year_ok g y"
  shows "get_clock y s = (Some (m, d, h, mi, sec), t) \<longleftrightarrow>
    is_valid_date y m d \<and> is_valid_time h mi sec \<and>
    s = two_digits m @ two_digits d @ two_digits h @ two_digits mi @ two_digits sec @ t"
proof -
  have "get_clock y s = (Some (m, d, h, mi, sec), t) \<longleftrightarrow>
    (1 \<le> m \<and> m \<le> 12 \<and> is_valid_day y m d) \<and> is_valid_time h mi sec \<and>
    s = two_digits m @ two_digits d @ two_digits h @ two_digits mi @ two_digits sec @ t"
    unfolding get_clock_def op_bind_eq_Some op_guard_eq_Some op_ret_eq_Some two_digits.dec_iff is_valid_time_def
    by (auto dest: is_valid_day_bounds)
  then show ?thesis using is_valid_day_date[OF assms] by simp
qed

lemma op_peek_Some: "op_peek p s = Some a \<longleftrightarrow> (\<exists>t. p s = (Some a, t))"
  by (cases "p s") (auto simp: op_peek_def)

text \<open>The offset applied to the local time, when the caller asks for the result.\<close>

definition adjusted :: "bool \<Rightarrow> int \<Rightarrow> tm \<Rightarrow> tm option" where
  "adjusted want off x = (if want \<and> off \<noteq> 0 then OPENSSL_gmtime_adj x 0 off else Some x)"

lemma parse_internal_run:
  "CBS_parse_rfc5280_time_internal g allow want s = Some t \<longleftrightarrow>
     (\<exists>y s1 m d h mi sec s2 off. get_year g s = (Some y, s1) \<and>
        get_clock y s1 = (Some (m, d, h, mi, sec), s2) \<and> get_zone allow s2 = (Some off, []) \<and>
        adjusted want off (local_tm y m d h mi sec) = Some t)"
proof -
  have fin: "(if length copy \<noteq> 0 then (None, copy)
      else if want \<and> off \<noteq> 0 then (OPENSSL_gmtime_adj x 0 off, copy) else (Some x, copy)) = (Some t, u) \<longleftrightarrow>
      copy = [] \<and> u = [] \<and> adjusted want off x = Some t" for x off and u copy :: cbs
    by (auto simp: adjusted_def)
  show ?thesis
    unfolding CBS_parse_rfc5280_time_internal_def op_peek_Some op_bind_eq_Some Let_def local_tm_def[symmetric]
      split_paired_Ex split_conv fin by blast
qed

lemma parse_internal_iff:
  "CBS_parse_rfc5280_time_internal g allow want s = Some t \<longleftrightarrow>
     (\<exists>y m d h mi sec off z. year_ok g y \<and> is_valid_date y m d \<and> is_valid_time h mi sec \<and> zone_text allow off z \<and>
        s = time_text g y m d h mi sec @ z \<and> adjusted want off (local_tm y m d h mi sec) = Some t)"
  (is "?run \<longleftrightarrow> ?spec")
proof
  assume ?run
  then obtain y s1 m d h mi sec s2 off where
    r: "get_year g s = (Some y, s1)" "get_clock y s1 = (Some (m, d, h, mi, sec), s2)" "get_zone allow s2 = (Some off, [])"
    and t: "adjusted want off (local_tm y m d h mi sec) = Some t"
    unfolding parse_internal_run by blast
  have y: "year_ok g y" "s = year_text g y @ s1" using r(1) by (auto simp: get_year_Some)
  have c: "is_valid_date y m d" "is_valid_time h mi sec"
    "s1 = two_digits m @ two_digits d @ two_digits h @ two_digits mi @ two_digits sec @ s2"
    using r(2) by (auto simp: get_clock_Some[OF y(1)])
  have "zone_text allow off s2" using r(3) by (auto simp: get_zone_Some)
  moreover have "s = time_text g y m d h mi sec @ s2" using y(2) c(3) by (simp add: time_text_def)
  ultimately show ?spec using y(1) c(1,2) t by blast
next
  assume ?spec
  then obtain y m d h mi sec off z where y: "year_ok g y" and v: "is_valid_date y m d" "is_valid_time h mi sec"
    "zone_text allow off z" "s = time_text g y m d h mi sec @ z"
    and t: "adjusted want off (local_tm y m d h mi sec) = Some t"
    by blast
  let ?s1 = "two_digits m @ two_digits d @ two_digits h @ two_digits mi @ two_digits sec @ z"
  have "get_year g s = (Some y, ?s1)" using y v(4) by (simp add: get_year_Some time_text_def)
  moreover have "get_clock y ?s1 = (Some (m, d, h, mi, sec), z)" using v by (simp add: get_clock_Some[OF y])
  moreover have "get_zone allow z = (Some off, [])" using v(3) by (auto simp: get_zone_Some)
  ultimately show ?run using t unfolding parse_internal_run by blast
qed

subsection \<open>The contract of the parsers\<close>

lemma zone_text_strict: "zone_text False off z \<longleftrightarrow> z = [0x5a] \<and> off = 0"
  by (simp add: zone_text_def)

lemma adjusted_0 [simp]: "adjusted want 0 x = Some x"
  by (simp add: adjusted_def)

lemma strict_parse_iff:
  "CBS_parse_rfc5280_time_internal g False want s = Some t \<longleftrightarrow>
     (\<exists>y m d h mi sec. year_ok g y \<and> is_valid_date y m d \<and> is_valid_time h mi sec \<and>
        s = time_text g y m d h mi sec @ [0x5a] \<and> t = local_tm y m d h mi sec)"
  unfolding parse_internal_iff zone_text_strict by (metis adjusted_0 option.inject)

text \<open>
  (C34) Without timezone offsets, the parsers of GeneralizedTime and UTCTime accept exactly the texts
  YYYYMMDDhhmmssZ (years 0 to 9999) and YYMMDDhhmmssZ (years 1950 to 2049) of a date of the calendar and a
  time of the day, and return the fields of that date and time.
\<close>
theorem strict_times_exact:
  "(CBS_parse_generalized_time want False s = Some t \<longleftrightarrow>
     (\<exists>y m d h mi sec. 0 \<le> y \<and> y \<le> 9999 \<and> is_valid_date y m d \<and> is_valid_time h mi sec \<and>
        s = two_digits (y div 100) @ two_digits (y mod 100) @ two_digits m @ two_digits d @ two_digits h @
              two_digits mi @ two_digits sec @ [0x5a] \<and> t = local_tm y m d h mi sec)) \<and>
   (CBS_parse_utc_time want False s = Some t \<longleftrightarrow>
     (\<exists>y m d h mi sec. 1950 \<le> y \<and> y \<le> 2049 \<and> is_valid_date y m d \<and> is_valid_time h mi sec \<and>
        s = two_digits (y mod 100) @ two_digits m @ two_digits d @ two_digits h @
              two_digits mi @ two_digits sec @ [0x5a] \<and> t = local_tm y m d h mi sec))"
proof (rule conjI, goal_cases)
  case 1
  show ?case
    unfolding CBS_parse_generalized_time_def strict_parse_iff year_ok_def time_text_def year_text_def
      if_True append_assoc by blast
next
  case 2
  show ?case
    unfolding CBS_parse_utc_time_def strict_parse_iff year_ok_def time_text_def year_text_def
      if_False append_assoc append_Nil by blast
qed

lemma time_text_inj:
  assumes "year_ok g y" "is_valid_date y m d" "is_valid_time h mi sec" "zone_text allow off z"
    and "year_ok g y'" "is_valid_date y' m' d'" "is_valid_time h' mi' sec'" "zone_text allow off' z'"
    and "time_text g y m d h mi sec @ z = time_text g y' m' d' h' mi' sec' @ z'"
  shows "y = y' \<and> m = m' \<and> d = d' \<and> h = h' \<and> mi = mi' \<and> sec = sec' \<and> off = off'"
proof -
  let ?s1 = "two_digits m @ two_digits d @ two_digits h @ two_digits mi @ two_digits sec @ z"
  let ?s1' = "two_digits m' @ two_digits d' @ two_digits h' @ two_digits mi' @ two_digits sec' @ z'"
  have eq: "year_text g y @ ?s1 = year_text g y' @ ?s1'" using assms(9) by (simp add: time_text_def)
  have "get_year g (year_text g y @ ?s1) = (Some y, ?s1)" "get_year g (year_text g y' @ ?s1') = (Some y', ?s1')"
    using assms(1,5) unfolding get_year_Some by blast+
  then have y: "y = y'" "?s1 = ?s1'" unfolding eq by (metis option.inject prod.inject)+
  have "get_clock y ?s1 = (Some (m, d, h, mi, sec), z)" "get_clock y ?s1' = (Some (m', d', h', mi', sec'), z')"
    using assms(2,3,6,7) unfolding y(1) get_clock_Some[OF assms(5)] by blast+
  then have c: "m = m'" "d = d'" "h = h'" "mi = mi'" "sec = sec'" "z = z'" unfolding y(2) by (simp_all only: prod.inject option.inject)
  have "get_zone allow z = (Some off, [])" "get_zone allow z' = (Some off', [])"
    using assms(4,8) by (auto simp: get_zone_Some)
  then show ?thesis using y c by simp
qed

text \<open>
  (C38) With a timezone offset the parser returns the local time shifted forward by \<open>hh:mm\<close> for '+' and
  back for '-': the POSIX time of the result is that of the written fields plus the signed offset. A
  result outside the years 0 to 9999 is refused.
\<close>
theorem offset_times_shifted:
  assumes "year_ok g y" "is_valid_date y m d" "is_valid_time h mi sec"
    and "0 \<le> oh" "oh \<le> 23" "0 \<le> om" "om \<le> 59"
    and "posix_time_from_utc y m d h mi sec = Some p"
    and "s = time_text g y m d h mi sec @ (if pos then 0x2b else 0x2d) # two_digits oh @ two_digits om"
  shows "CBS_parse_rfc5280_time_internal g True True s =
    OPENSSL_posix_to_tm (p + (if pos then oh * 3600 + om * 60 else - (oh * 3600 + om * 60)))"
proof -
  let ?off = "if pos then oh * 3600 + om * 60 else - (oh * 3600 + om * 60)"
  let ?z = "(if pos then 0x2b else 0x2d) # two_digits oh @ two_digits om"
  have z: "zone_text True ?off ?z" using assms(4-7) by (auto simp: zone_text_def)
  have tp: "OPENSSL_tm_to_posix (local_tm y m d h mi sec) = Some p"
    using assms(8) by (simp add: local_tm_def OPENSSL_tm_to_posix_def)
  have "OPENSSL_posix_to_tm p = Some (local_tm y m d h mi sec)" using tp by (simp add: tm_posix_inverse)
  moreover have "- 62167219200 \<le> p \<and> p \<le> 253402300799"
    using calculation by (auto simp: OPENSSL_posix_to_tm_def utc_from_posix_time_eq is_valid_posix_time_def split: if_splits)
  ultimately have adj: "adjusted True ?off (local_tm y m d h mi sec) = OPENSSL_posix_to_tm (p + ?off)"
    using assms(4-7) tp by (simp add: adjusted_def OPENSSL_gmtime_adj_def)
  have "CBS_parse_rfc5280_time_internal g True True s = Some t \<longleftrightarrow> OPENSSL_posix_to_tm (p + ?off) = Some t" for t
    unfolding parse_internal_iff assms(9) using time_text_inj[OF assms(1-3) z] assms(1-3) z adj by metis
  then show ?thesis by (metis option.exhaust)
qed

text \<open>12:00 on 1 January 2020 at offset +0100 is read as 13:00.\<close>
theorem offset_times_shifted_witness:
  "CBS_parse_rfc5280_time_internal False True True
     (time_text False 2020 1 1 12 0 0 @ (if True then 0x2b else 0x2d) # two_digits 1 @ two_digits 0) =
   OPENSSL_posix_to_tm (1577880000 + (if True then 1 * 3600 + 0 * 60 else - (1 * 3600 + 0 * 60))) \<and>
   OPENSSL_posix_to_tm 1577883600 = Some (local_tm 2020 1 1 13 0 0)"
proof
  have "year_ok False 2020" by (simp add: year_ok_def)
  moreover have "is_valid_date 2020 1 1" "is_valid_time 12 0 0" by code_simp+
  moreover have "posix_time_from_utc 2020 1 1 12 0 0 = Some 1577880000" by code_simp
  ultimately show "CBS_parse_rfc5280_time_internal False True True
      (time_text False 2020 1 1 12 0 0 @ (if True then 0x2b else 0x2d) # two_digits 1 @ two_digits 0) =
    OPENSSL_posix_to_tm (1577880000 + (if True then 1 * 3600 + 0 * 60 else - (1 * 3600 + 0 * 60)))"
    by (intro offset_times_shifted[of False 2020 1 1 12 0 0 1 0 1577880000]) simp_all
  show "OPENSSL_posix_to_tm 1577883600 = Some (local_tm 2020 1 1 13 0 0)" by code_simp
qed

end
