(* ===== verification/Stack.thy ===== *)
theory Stack
  imports Prelude
begin

text \<open>
  The pointer array of BoringSSL, \<open>crypto/stack/stack.cc\<close>. A pointer is an \<open>option\<close> whose \<open>None\<close> is
  \<open>NULL\<close>; the array owned by a stack is the list \<open>st_data\<close> of its \<open>num_alloc\<close> cells, of which the first
  \<open>num\<close> are valid. The comparison function is a function pointer of the caller: the model keeps it as a
  value of a type of the caller and takes the helper \<open>call_cmp_func\<close> that applies it as an argument, as
  the code does. \<open>size_t\<close> is \<open>nat\<close>; the two computations that can wrap do so explicitly.
\<close>

type_synonym 'p ptr = "'p option"

record ('c, 'p) stack_st =
  st_num :: nat
  st_data :: "'p ptr list"
  st_sorted :: bool
  st_num_alloc :: nat
  st_comp :: "'c option"

type_synonym ('c, 'p) OPENSSL_STACK = "('c, 'p) stack_st option"

text \<open>The allocator: whether a request succeeds, and what fresh cells hold. Pointers have eight bytes.\<close>

record 'p ptr_heap =
  ptr_alloc :: "nat \<Rightarrow> bool"
  ptr_fresh :: "nat \<Rightarrow> 'p ptr"

subsection \<open>Creation and access\<close>

definition kMinSize :: nat where
  "kMinSize = 4"

definition sizeof_stack_st :: nat where
  "sizeof_stack_st = 40"

definition OPENSSL_sk_new :: "'p ptr_heap \<Rightarrow> 'c option \<Rightarrow> ('c, 'p) OPENSSL_STACK" where
  "OPENSSL_sk_new h f =
     (if \<not> ptr_alloc h sizeof_stack_st then None
      else if \<not> ptr_alloc h (kMinSize * 8) then None
      else Some \<lparr>st_num = 0, st_data = replicate kMinSize None, st_sorted = False,
                 st_num_alloc = kMinSize, st_comp = f\<rparr>)"

definition OPENSSL_sk_new_null :: "'p ptr_heap \<Rightarrow> ('c, 'p) OPENSSL_STACK" where
  "OPENSSL_sk_new_null h = OPENSSL_sk_new h None"

fun OPENSSL_sk_num :: "('c, 'p) OPENSSL_STACK \<Rightarrow> nat" where
  "OPENSSL_sk_num None = 0"
| "OPENSSL_sk_num (Some sk) = st_num sk"

fun OPENSSL_sk_zero :: "('c, 'p) OPENSSL_STACK \<Rightarrow> ('c, 'p) OPENSSL_STACK" where
  "OPENSSL_sk_zero None = None"
| "OPENSSL_sk_zero (Some sk) =
     (if st_num sk = 0 then Some sk
      else Some (sk\<lparr>st_data := replicate (st_num sk) None @ drop (st_num sk) (st_data sk),
                    st_num := 0, st_sorted := False\<rparr>))"

fun OPENSSL_sk_value :: "('c, 'p) OPENSSL_STACK \<Rightarrow> nat \<Rightarrow> 'p ptr" where
  "OPENSSL_sk_value None i = None"
| "OPENSSL_sk_value (Some sk) i = (if i \<ge> st_num sk then None else st_data sk ! i)"

fun OPENSSL_sk_set :: "nat \<Rightarrow> 'p ptr \<Rightarrow> ('c, 'p) OPENSSL_STACK \<Rightarrow> 'p ptr \<times> ('c, 'p) OPENSSL_STACK" where
  "OPENSSL_sk_set i p None = (None, None)"
| "OPENSSL_sk_set i p (Some sk) =
     (if i \<ge> st_num sk then (None, Some sk) else (p, Some (sk\<lparr>st_data := (st_data sk)[i := p]\<rparr>)))"

text \<open>The loop over the elements that calls the caller's destructor on those that are not \<open>NULL\<close>.\<close>

fun free_elements :: "('p \<Rightarrow> 's \<Rightarrow> 's) \<Rightarrow> 'p ptr list \<Rightarrow> 's \<Rightarrow> 's" where
  "free_elements free_func [] s = s"
| "free_elements free_func (None # xs) s = free_elements free_func xs s"
| "free_elements free_func (Some p # xs) s = free_elements free_func xs (free_func p s)"

fun OPENSSL_sk_pop_free_ex :: "('f \<Rightarrow> 'p \<Rightarrow> 's \<Rightarrow> 's) \<Rightarrow> 'f \<Rightarrow> ('c, 'p) OPENSSL_STACK \<Rightarrow> 's \<Rightarrow> 's" where
  "OPENSSL_sk_pop_free_ex call_free_func free_func None s = s"
| "OPENSSL_sk_pop_free_ex call_free_func free_func (Some sk) s =
     free_elements (call_free_func free_func) (take (st_num sk) (st_data sk)) s"

definition call_free_func_legacy :: "('p \<Rightarrow> 's \<Rightarrow> 's) \<Rightarrow> 'p \<Rightarrow> 's \<Rightarrow> 's" where
  "call_free_func_legacy func p = func p"

definition sk_pop_free :: "('p \<Rightarrow> 's \<Rightarrow> 's) \<Rightarrow> ('c, 'p) OPENSSL_STACK \<Rightarrow> 's \<Rightarrow> 's" where
  "sk_pop_free free_func sk = OPENSSL_sk_pop_free_ex call_free_func_legacy free_func sk"

subsection \<open>Insertion and deletion\<close>

text \<open>\<open>memmove\<close> of \<open>n\<close> cells within the array.\<close>

definition move_cells :: "nat \<Rightarrow> nat \<Rightarrow> nat \<Rightarrow> 'a list \<Rightarrow> 'a list" where
  "move_cells dst src n xs = take dst xs @ take n (drop src xs) @ drop (dst + n) xs"

text \<open>The growth of the array: the new number of cells, or \<open>None\<close> when even one more cell overflows.\<close>

definition grown_alloc :: "nat \<Rightarrow> nat option" where
  "grown_alloc num_alloc =
     (let doubled = (num_alloc * 2) mod 2 ^ 64;
          new_alloc = if doubled < num_alloc \<or> (doubled * 8) mod 2 ^ 64 div 8 \<noteq> doubled
                      then (num_alloc + 1) mod 2 ^ 64 else doubled
      in if new_alloc < num_alloc \<or> (new_alloc * 8) mod 2 ^ 64 div 8 \<noteq> new_alloc then None else Some new_alloc)"

definition grow :: "'p ptr_heap \<Rightarrow> ('c, 'p) stack_st \<Rightarrow> ('c, 'p) stack_st option" where
  "grow h sk =
     (if st_num_alloc sk \<le> st_num sk + 1 then
        (case grown_alloc (st_num_alloc sk) of
           None \<Rightarrow> None
         | Some new_alloc \<Rightarrow>
             if \<not> ptr_alloc h ((new_alloc * 8) mod 2 ^ 64) then None
             else Some (sk\<lparr>st_data := st_data sk @ map (ptr_fresh h) [st_num_alloc sk..<new_alloc],
                           st_num_alloc := new_alloc\<rparr>))
      else Some sk)"

fun OPENSSL_sk_insert ::
  "'p ptr_heap \<Rightarrow> 'p ptr \<Rightarrow> nat \<Rightarrow> ('c, 'p) OPENSSL_STACK \<Rightarrow> nat \<times> ('c, 'p) OPENSSL_STACK" where
  "OPENSSL_sk_insert h p w None = (0, None)"
| "OPENSSL_sk_insert h p w (Some sk) =
     (if st_num sk \<ge> 2147483647 then (0, Some sk)
      else case grow h sk of
        None \<Rightarrow> (0, Some sk)
      | Some sk1 \<Rightarrow>
          let data = (if w \<ge> st_num sk1 then (st_data sk1)[st_num sk1 := p]
                      else (move_cells (w + 1) w (st_num sk1 - w) (st_data sk1))[w := p])
          in (st_num sk1 + 1, Some (sk1\<lparr>st_data := data, st_num := st_num sk1 + 1, st_sorted := False\<rparr>)))"

fun OPENSSL_sk_delete :: "nat \<Rightarrow> ('c, 'p) OPENSSL_STACK \<Rightarrow> 'p ptr \<times> ('c, 'p) OPENSSL_STACK" where
  "OPENSSL_sk_delete w None = (None, None)"
| "OPENSSL_sk_delete w (Some sk) =
     (if w \<ge> st_num sk then (None, Some sk)
      else
        let data = (if w \<noteq> st_num sk - 1 then move_cells w (w + 1) (st_num sk - w - 1) (st_data sk)
                    else st_data sk)
        in (st_data sk ! w, Some (sk\<lparr>st_data := data, st_num := st_num sk - 1\<rparr>)))"

text \<open>The loops over the valid cells that look for the first one with a property.\<close>

fun scan :: "('a \<Rightarrow> bool) \<Rightarrow> nat \<Rightarrow> 'a list \<Rightarrow> nat option" where
  "scan P i [] = None"
| "scan P i (x # xs) = (if P x then Some i else scan P (i + 1) xs)"

fun OPENSSL_sk_delete_ptr :: "'p ptr \<Rightarrow> ('c, 'p) OPENSSL_STACK \<Rightarrow> 'p ptr \<times> ('c, 'p) OPENSSL_STACK" where
  "OPENSSL_sk_delete_ptr p None = (None, None)"
| "OPENSSL_sk_delete_ptr p (Some sk) =
     (case scan (\<lambda>x. x = p) 0 (take (st_num sk) (st_data sk)) of
        Some i \<Rightarrow> OPENSSL_sk_delete i (Some sk)
      | None \<Rightarrow> (None, Some sk))"

text \<open>The compacting loop of \<open>OPENSSL_sk_delete_if\<close>: \<open>i\<close> reads, \<open>new_num\<close> writes, \<open>d\<close> is the caller's data.\<close>

function delete_if_loop ::
  "('p ptr \<Rightarrow> 'd \<Rightarrow> bool \<times> 'd) \<Rightarrow> nat \<Rightarrow> nat \<Rightarrow> nat \<Rightarrow> 'p ptr list \<Rightarrow> 'd \<Rightarrow> nat \<times> 'p ptr list \<times> 'd" where
  "delete_if_loop func num i new_num xs d =
     (if i < num then
        (case func (xs ! i) d of
           (del, d') \<Rightarrow>
             if \<not> del then delete_if_loop func num (i + 1) (new_num + 1) (xs[new_num := xs ! i]) d'
             else delete_if_loop func num (i + 1) new_num xs d')
      else (new_num, xs, d))"
  by pat_completeness auto
termination by (relation "measure (\<lambda>(_, num, i, _). num - i)") auto

fun OPENSSL_sk_delete_if ::
  "('f \<Rightarrow> 'p ptr \<Rightarrow> 'd \<Rightarrow> bool \<times> 'd) \<Rightarrow> 'f \<Rightarrow> 'd \<Rightarrow> ('c, 'p) OPENSSL_STACK \<Rightarrow> ('c, 'p) OPENSSL_STACK \<times> 'd" where
  "OPENSSL_sk_delete_if call_func func d None = (None, d)"
| "OPENSSL_sk_delete_if call_func func d (Some sk) =
     (case delete_if_loop (call_func func) (st_num sk) 0 0 (st_data sk) d of
        (new_num, xs, d') \<Rightarrow> (Some (sk\<lparr>st_data := xs, st_num := new_num\<rparr>), d'))"

fun OPENSSL_sk_shift :: "('c, 'p) OPENSSL_STACK \<Rightarrow> 'p ptr \<times> ('c, 'p) OPENSSL_STACK" where
  "OPENSSL_sk_shift None = (None, None)"
| "OPENSSL_sk_shift (Some sk) = (if st_num sk = 0 then (None, Some sk) else OPENSSL_sk_delete 0 (Some sk))"

text \<open>\<open>OPENSSL_sk_push\<close> reads \<open>sk->num\<close> without a check: a \<open>NULL\<close> stack is not allowed here.\<close>

definition OPENSSL_sk_push ::
  "'p ptr_heap \<Rightarrow> 'p ptr \<Rightarrow> ('c, 'p) stack_st \<Rightarrow> nat \<times> ('c, 'p) OPENSSL_STACK" where
  "OPENSSL_sk_push h p sk = OPENSSL_sk_insert h p (st_num sk) (Some sk)"

fun OPENSSL_sk_pop :: "('c, 'p) OPENSSL_STACK \<Rightarrow> 'p ptr \<times> ('c, 'p) OPENSSL_STACK" where
  "OPENSSL_sk_pop None = (None, None)"
| "OPENSSL_sk_pop (Some sk) =
     (if st_num sk = 0 then (None, Some sk) else OPENSSL_sk_delete (st_num sk - 1) (Some sk))"

fun OPENSSL_sk_dup :: "'p ptr_heap \<Rightarrow> ('c, 'p) OPENSSL_STACK \<Rightarrow> ('c, 'p) OPENSSL_STACK" where
  "OPENSSL_sk_dup h None = None"
| "OPENSSL_sk_dup h (Some sk) =
     (if \<not> ptr_alloc h sizeof_stack_st then None
      else if \<not> ptr_alloc h (8 * st_num_alloc sk) then None
      else Some \<lparr>st_num = st_num sk, st_data = st_data sk, st_sorted = st_sorted sk,
                 st_num_alloc = st_num_alloc sk, st_comp = st_comp sk\<rparr>)"

text \<open>The loop of \<open>OPENSSL_sk_deep_copy\<close>; \<open>s\<close> is the state the caller's copy and free functions act on.\<close>

function deep_copy_loop ::
  "('p \<Rightarrow> 's \<Rightarrow> 'p ptr \<times> 's) \<Rightarrow> ('p \<Rightarrow> 's \<Rightarrow> 's) \<Rightarrow> nat \<Rightarrow> ('c, 'p) stack_st \<Rightarrow> 's \<Rightarrow> ('c, 'p) OPENSSL_STACK \<times> 's" where
  "deep_copy_loop copy free_func i ret s =
     (if i < st_num ret then
        (case st_data ret ! i of
           None \<Rightarrow> deep_copy_loop copy free_func (i + 1) ret s
         | Some p \<Rightarrow>
             (case copy p s of
                (None, s') \<Rightarrow> (None, free_elements free_func (take i (st_data ret)) s')
              | (Some q, s') \<Rightarrow>
                  deep_copy_loop copy free_func (i + 1) (ret\<lparr>st_data := (st_data ret)[i := Some q]\<rparr>) s'))
      else (Some ret, s))"
  by pat_completeness auto
termination by (relation "measure (\<lambda>(_, _, i, ret, _). st_num ret - i)") auto

definition OPENSSL_sk_deep_copy ::
  "'p ptr_heap \<Rightarrow> ('g \<Rightarrow> 'p \<Rightarrow> 's \<Rightarrow> 'p ptr \<times> 's) \<Rightarrow> 'g \<Rightarrow> ('f \<Rightarrow> 'p \<Rightarrow> 's \<Rightarrow> 's) \<Rightarrow> 'f \<Rightarrow>
   ('c, 'p) OPENSSL_STACK \<Rightarrow> 's \<Rightarrow> ('c, 'p) OPENSSL_STACK \<times> 's" where
  "OPENSSL_sk_deep_copy h call_copy_func copy_func call_free_func free_func sk s =
     (case OPENSSL_sk_dup h sk of
        None \<Rightarrow> (None, s)
      | Some ret \<Rightarrow> deep_copy_loop (call_copy_func copy_func) (call_free_func free_func) 0 ret s)"

subsection \<open>Sorting and searching\<close>

definition parent_idx :: "nat \<Rightarrow> nat" where
  "parent_idx idx = (idx - 1) div 2"

definition left_idx :: "nat \<Rightarrow> nat" where
  "left_idx idx = 2 * idx + 1"

text \<open>The child \<open>next\<close> that \<open>down_heap\<close> swaps with \<open>i\<close>, or \<open>i\<close> itself.\<close>

definition next_idx :: "('a \<Rightarrow> 'a \<Rightarrow> int) \<Rightarrow> nat \<Rightarrow> nat \<Rightarrow> 'a list \<Rightarrow> nat" where
  "next_idx cmp i num xs =
     (let left = left_idx i;
          next1 = if cmp (xs ! i) (xs ! left) < 0 then left else i;
          right = left + 1
      in if right < num \<and> cmp (xs ! next1) (xs ! right) < 0 then right else next1)"

definition swap :: "nat \<Rightarrow> nat \<Rightarrow> 'a list \<Rightarrow> 'a list" where
  "swap i j xs = xs[i := xs ! j, j := xs ! i]"

lemma next_idx_cases: "next_idx cmp i num xs = i \<or> next_idx cmp i num xs = 2 * i + 1 \<or>
    next_idx cmp i num xs = 2 * i + 2 \<and> 2 * i + 2 < num"
  by (simp add: next_idx_def left_idx_def Let_def)

function down_heap :: "('a \<Rightarrow> 'a \<Rightarrow> int) \<Rightarrow> nat \<Rightarrow> nat \<Rightarrow> 'a list \<Rightarrow> 'a list" where
  "down_heap cmp i num xs =
     (if left_idx i \<ge> num then xs
      else let next = next_idx cmp i num xs
           in if i = next then xs else down_heap cmp next num (swap i next xs))"
  by pat_completeness auto
termination
proof (relation "measure (\<lambda>(_, i, num, _). num - i)", goal_cases)
  case (2 cmp i num xs k)
  then show ?case using next_idx_cases[of cmp i num xs] by (auto simp: left_idx_def)
qed simp

text \<open>\<open>for (size_t i = parent_idx(num - 1); i < num; i--)\<close>: the loop ends when \<open>i\<close> wraps below 0.\<close>

fun build_heap :: "('a \<Rightarrow> 'a \<Rightarrow> int) \<Rightarrow> nat \<Rightarrow> nat \<Rightarrow> 'a list \<Rightarrow> 'a list" where
  "build_heap cmp 0 num xs = (if 0 < num then down_heap cmp 0 num xs else xs)"
| "build_heap cmp (Suc i) num xs =
     (if Suc i < num then build_heap cmp i num (down_heap cmp (Suc i) num xs) else xs)"

text \<open>\<open>for (size_t i = num - 1; i > 0; i--)\<close>\<close>

fun extract_max :: "('a \<Rightarrow> 'a \<Rightarrow> int) \<Rightarrow> nat \<Rightarrow> 'a list \<Rightarrow> 'a list" where
  "extract_max cmp 0 xs = xs"
| "extract_max cmp (Suc i) xs = extract_max cmp i (down_heap cmp 0 (Suc i) (swap 0 (Suc i) xs))"

fun OPENSSL_sk_sort :: "('c \<Rightarrow> 'p ptr \<Rightarrow> 'p ptr \<Rightarrow> int) \<Rightarrow> ('c, 'p) OPENSSL_STACK \<Rightarrow> ('c, 'p) OPENSSL_STACK" where
  "OPENSSL_sk_sort call_cmp_func None = None"
| "OPENSSL_sk_sort call_cmp_func (Some sk) =
     (case st_comp sk of
        None \<Rightarrow> Some sk
      | Some f \<Rightarrow>
          if st_sorted sk then Some sk
          else
            let cmp = call_cmp_func f; num = st_num sk;
                data = (if num \<ge> 2
                        then extract_max cmp (num - 1) (build_heap cmp (parent_idx (num - 1)) num (st_data sk))
                        else st_data sk)
            in Some (sk\<lparr>st_data := data, st_sorted := True\<rparr>))"

fun OPENSSL_sk_is_sorted :: "('c, 'p) OPENSSL_STACK \<Rightarrow> bool" where
  "OPENSSL_sk_is_sorted None = True"
| "OPENSSL_sk_is_sorted (Some sk) = (st_sorted sk \<or> (st_comp sk \<noteq> None \<and> st_num sk < 2))"

text \<open>The binary search: \<open>cmp x\<close> compares the sought element with \<open>x\<close>.\<close>

function bsearch :: "('a \<Rightarrow> int) \<Rightarrow> nat \<Rightarrow> nat \<Rightarrow> 'a list \<Rightarrow> nat option" where
  "bsearch cmp lo hi xs =
     (if lo < hi then
        let mid = lo + (hi - lo - 1) div 2; r = cmp (xs ! mid)
        in if r > 0 then bsearch cmp (mid + 1) hi xs
           else if r < 0 then bsearch cmp lo mid xs
           else if hi - lo = 1 then Some mid
           else bsearch cmp lo (mid + 1) xs
      else None)"
  by pat_completeness auto
termination
proof (relation "measure (\<lambda>(_, lo, hi, _). hi - lo)", goal_cases)
  case (3 cmp lo hi xs mid r)
  then show ?case using div_le_dividend[of "hi - lo - 1" 2] by auto
next
  case (4 cmp lo hi xs mid r)
  then show ?case using div_less_dividend[of 2 "hi - lo - 1"] by auto
qed auto

fun OPENSSL_sk_find :: "('c \<Rightarrow> 'p ptr \<Rightarrow> 'p ptr \<Rightarrow> int) \<Rightarrow> 'p ptr \<Rightarrow> ('c, 'p) OPENSSL_STACK \<Rightarrow> nat option" where
  "OPENSSL_sk_find call_cmp_func p None = None"
| "OPENSSL_sk_find call_cmp_func p (Some sk) =
     (case st_comp sk of
        None \<Rightarrow> scan (\<lambda>x. x = p) 0 (take (st_num sk) (st_data sk))
      | Some f \<Rightarrow>
          if p = None then None
          else if \<not> OPENSSL_sk_is_sorted (Some sk)
          then scan (\<lambda>x. call_cmp_func f p x = 0) 0 (take (st_num sk) (st_data sk))
          else bsearch (call_cmp_func f p) 0 (st_num sk) (st_data sk))"

definition OPENSSL_sk_set_cmp_func ::
  "'c option \<Rightarrow> ('c, 'p) stack_st \<Rightarrow> 'c option \<times> ('c, 'p) stack_st" where
  "OPENSSL_sk_set_cmp_func f sk =
     (st_comp sk, sk\<lparr>st_sorted := (if st_comp sk \<noteq> f then False else st_sorted sk), st_comp := f\<rparr>)"

end
