(* ===== verification/Stack_Sort.thy ===== *)
theory Stack_Sort
  imports Stack "HOL-Library.Multiset" CBB
begin

text \<open>
  The in-place heap sort and the binary search of \<open>crypto/stack/stack.cc\<close>: for every comparison function
  that orders its arguments, the sort leaves a sorted rearrangement and the search finds the first match.
\<close>

subsection \<open>Comparison functions\<close>

text \<open>What \<open>sk_sort\<close> and \<open>sk_find\<close> rely on: a total preorder, reported by the sign of the result.\<close>

locale comparator =
  fixes cmp :: "'a \<Rightarrow> 'a \<Rightarrow> int"
  assumes cmp_swap: "cmp a b < 0 \<longleftrightarrow> cmp b a > 0"
    and cmp_trans: "cmp a b \<le> 0 \<Longrightarrow> cmp b c \<le> 0 \<Longrightarrow> cmp a c \<le> 0"
begin

lemma cmp_refl [simp]: "cmp a a = 0"
  using cmp_swap[of a a] by linarith

lemma cmp_total: "\<not> cmp a b < 0 \<Longrightarrow> cmp b a \<le> 0"
  using cmp_swap[of a b] by linarith

lemma cmp_eq_0_iff: "cmp a b = 0 \<longleftrightarrow> cmp a b \<le> 0 \<and> cmp b a \<le> 0"
  using cmp_swap[of a b] cmp_swap[of b a] by linarith

lemma cmp_pos_iff: "cmp a b > 0 \<longleftrightarrow> \<not> cmp a b \<le> 0"
  by linarith

end

text \<open>Sorted by a comparison function, and the two heap conditions of the sort.\<close>

definition sorted_cmp :: "('a \<Rightarrow> 'a \<Rightarrow> int) \<Rightarrow> 'a list \<Rightarrow> bool" where
  "sorted_cmp cmp xs = sorted_wrt (\<lambda>a b. cmp a b \<le> 0) xs"

definition heap_on :: "('a \<Rightarrow> 'a \<Rightarrow> int) \<Rightarrow> nat \<Rightarrow> nat \<Rightarrow> 'a list \<Rightarrow> bool" where
  "heap_on cmp lo n xs \<longleftrightarrow>
     (\<forall>j. 0 < j \<and> j < n \<and> lo \<le> parent_idx j \<longrightarrow> cmp (xs ! j) (xs ! parent_idx j) \<le> 0)"

definition heap_except :: "('a \<Rightarrow> 'a \<Rightarrow> int) \<Rightarrow> nat \<Rightarrow> nat \<Rightarrow> nat \<Rightarrow> 'a list \<Rightarrow> bool" where
  "heap_except cmp lo i n xs \<longleftrightarrow>
     (\<forall>j. 0 < j \<and> j < n \<and> lo \<le> parent_idx j \<longrightarrow>
        (if parent_idx j = i then 0 < i \<and> lo \<le> parent_idx i \<longrightarrow> cmp (xs ! j) (xs ! parent_idx i) \<le> 0
         else cmp (xs ! j) (xs ! parent_idx j) \<le> 0))"

lemma parent_eq_iff: "0 < j \<Longrightarrow> parent_idx j = i \<longleftrightarrow> j = 2 * i + 1 \<or> j = 2 * i + 2"
  by (auto simp: parent_idx_def)

lemma parent_less: "0 < j \<Longrightarrow> parent_idx j < j"
  by (auto simp: parent_idx_def)

lemma length_swap [simp]: "length (swap i j xs) = length xs"
  by (simp add: swap_def)

lemma nth_swap:
  "i < length xs \<Longrightarrow> j < length xs \<Longrightarrow>
     swap i j xs ! k = (if k = i then xs ! j else if k = j then xs ! i else xs ! k)"
  by (auto simp: swap_def nth_list_update)

lemma nth_swap0:
  "Suc i < length xs \<Longrightarrow>
     swap 0 (Suc i) xs ! k = (if k = 0 then xs ! Suc i else if k = Suc i then xs ! 0 else xs ! k)"
  by (rule nth_swap) linarith+

lemma mset_swap_eq [simp]: "i < length xs \<Longrightarrow> j < length xs \<Longrightarrow> mset (swap i j xs) = mset xs"
  using mset_swap[of j xs i] by (simp add: swap_def list_update_swap)

declare down_heap.simps [simp del]

text \<open>What \<open>down_heap\<close> keeps: the elements, and everything outside the first \<open>num\<close> cells.\<close>

lemma next_idx_less: "left_idx i < num \<Longrightarrow> next_idx cmp i num xs < num"
  using next_idx_cases[of cmp i num xs] by (auto simp: left_idx_def)

lemma down_heap_frame:
  "i < num \<Longrightarrow> num \<le> length xs \<Longrightarrow>
     mset (down_heap cmp i num xs) = mset xs \<and> length (down_heap cmp i num xs) = length xs \<and>
     (\<forall>k. num \<le> k \<longrightarrow> down_heap cmp i num xs ! k = xs ! k)"
proof (induction cmp i num xs rule: down_heap.induct)
  case (1 cmp i num xs)
  let ?k = "next_idx cmp i num xs"
  show ?case
  proof (cases "left_idx i \<ge> num \<or> i = ?k")
    case True
    then show ?thesis by (subst (1 2 3) down_heap.simps) auto
  next
    case False
    then have k: "?k < num" using next_idx_less[of i num cmp xs] by simp
    have "down_heap cmp i num xs = down_heap cmp ?k num (swap i ?k xs)"
      using False by (subst down_heap.simps) (simp add: Let_def)
    moreover have "mset (swap i ?k xs) = mset xs" "\<forall>j. num \<le> j \<longrightarrow> swap i ?k xs ! j = xs ! j"
      using 1(2,3) k by (auto simp: nth_swap)
    ultimately show ?thesis using 1(1)[OF _ refl] 1(2,3) False k by simp
  qed
qed

lemma down_heap_members:
  assumes "i < num" "num \<le> length xs" "a < num"
  shows "\<exists>j<num. down_heap cmp i num xs ! a = xs ! j"
proof -
  let ?zs = "down_heap cmp i num xs"
  have f: "mset ?zs = mset xs" "length ?zs = length xs" "\<forall>k. num \<le> k \<longrightarrow> ?zs ! k = xs ! k"
    using down_heap_frame[OF assms(1,2)] by blast+
  have "drop num ?zs = drop num xs" using f(2,3) by (auto intro!: nth_equalityI)
  moreover have "mset (take num ?zs) + mset (drop num ?zs) = mset (take num xs) + mset (drop num xs)"
    using f(1) by (simp flip: mset_append)
  ultimately have "mset (take num ?zs) = mset (take num xs)" by simp
  then have "set (take num ?zs) = set (take num xs)" by (metis set_mset_mset)
  moreover have "?zs ! a \<in> set (take num ?zs)" using assms f(2) by (metis length_take min.absorb2 nth_mem nth_take)
  ultimately obtain j where "j < length (take num xs)" "take num xs ! j = ?zs ! a" by (metis in_set_conv_nth)
  then show ?thesis using assms(2) by auto
qed

lemma build_heap_frame:
  "num \<le> length xs \<Longrightarrow>
     mset (build_heap cmp i num xs) = mset xs \<and> length (build_heap cmp i num xs) = length xs \<and>
     (\<forall>k. num \<le> k \<longrightarrow> build_heap cmp i num xs ! k = xs ! k)"
  by (induction cmp i num xs rule: build_heap.induct) (auto simp: down_heap_frame)

lemma extract_max_frame:
  "i < length xs \<Longrightarrow>
     mset (extract_max cmp i xs) = mset xs \<and> length (extract_max cmp i xs) = length xs \<and>
     (\<forall>k>i. extract_max cmp i xs ! k = xs ! k)"
proof (induction cmp i xs rule: extract_max.induct)
  case (2 cmp i xs)
  let ?ys = "swap 0 (Suc i) xs" and ?zs = "down_heap cmp 0 (Suc i) (swap 0 (Suc i) xs)"
  have "mset ?zs = mset ?ys \<and> length ?zs = length ?ys \<and> (\<forall>k. Suc i \<le> k \<longrightarrow> ?zs ! k = ?ys ! k)"
    using 2(2) by (intro down_heap_frame) simp_all
  moreover have "mset ?ys = mset xs" "length ?ys = length xs" "\<forall>k>Suc i. ?ys ! k = xs ! k"
    using 2(2) by (auto simp: nth_swap0 intro!: mset_swap_eq)
  ultimately show ?case using 2 by simp
qed simp

context comparator
begin

lemma next_idx_max:
  assumes "left_idx i < num" and k_def: "k = next_idx cmp i num xs"
  shows "cmp (xs ! i) (xs ! k) \<le> 0 \<and> cmp (xs ! (2 * i + 1)) (xs ! k) \<le> 0 \<and>
    (2 * i + 2 < num \<longrightarrow> cmp (xs ! (2 * i + 2)) (xs ! k) \<le> 0)"
proof -
  let ?l = "2 * i + 1" and ?r = "2 * i + 2"
  let ?n = "if cmp (xs ! i) (xs ! ?l) < 0 then ?l else i"
  have n: "cmp (xs ! i) (xs ! ?n) \<le> 0" "cmp (xs ! ?l) (xs ! ?n) \<le> 0" using cmp_total by auto
  have k: "k = (if ?r < num \<and> cmp (xs ! ?n) (xs ! ?r) < 0 then ?r else ?n)"
    by (simp add: k_def next_idx_def left_idx_def Let_def)
  show ?thesis
  proof (cases "?r < num \<and> cmp (xs ! ?n) (xs ! ?r) < 0")
    case True
    then have "cmp (xs ! ?n) (xs ! ?r) \<le> 0" by simp
    then show ?thesis using k True n cmp_trans by (metis cmp_refl order_refl)
  next
    case False
    then have kn: "k = ?n" unfolding k by (rule if_not_P)
    have "?r < num \<longrightarrow> cmp (xs ! ?r) (xs ! ?n) \<le> 0" using False cmp_total by blast
    then show ?thesis unfolding kn using n by blast
  qed
qed

lemma down_heap_heap:
  "i < num \<Longrightarrow> num \<le> length xs \<Longrightarrow> lo \<le> i \<Longrightarrow> heap_except cmp lo i num xs \<Longrightarrow>
     heap_on cmp lo num (down_heap cmp i num xs)"
proof (induction "num - i" arbitrary: i xs rule: less_induct)
  case less
  let ?k = "next_idx cmp i num xs"
  show ?case
  proof (cases "left_idx i \<ge> num \<or> i = ?k")
    case True
    then have run: "down_heap cmp i num xs = xs" by (subst down_heap.simps) auto
    have "cmp (xs ! j) (xs ! i) \<le> 0" if "0 < j" "j < num" "parent_idx j = i" for j
      using True that next_idx_max[of i num _ xs] by (auto simp: parent_eq_iff left_idx_def)
    then show ?thesis using less(5) unfolding run heap_on_def heap_except_def by metis
  next
    case False
    then have k: "?k < num" "i < ?k" "parent_idx ?k = i" "0 < ?k"
      using next_idx_less[of i num cmp xs] next_idx_cases[of cmp i num xs] by (auto simp: parent_idx_def)
    let ?ys = "swap i ?k xs"
    have ys: "?ys ! j = (if j = i then xs ! ?k else if j = ?k then xs ! i else xs ! j)" for j
      using less(2,3) k by (simp add: nth_swap)
    have mx: "cmp (xs ! i) (xs ! ?k) \<le> 0" "\<And>j. 0 < j \<Longrightarrow> j < num \<Longrightarrow> parent_idx j = i \<Longrightarrow> cmp (xs ! j) (xs ! ?k) \<le> 0"
      using False next_idx_max[of i num _ xs] by (auto simp: parent_eq_iff)
    have ex: "if parent_idx j = i then 0 < i \<and> lo \<le> parent_idx i \<longrightarrow> cmp (xs ! j) (xs ! parent_idx i) \<le> 0
         else cmp (xs ! j) (xs ! parent_idx j) \<le> 0" if "0 < j" "j < num" "lo \<le> parent_idx j" for j
      using less(5) that unfolding heap_except_def by blast
    have "heap_except cmp lo ?k num ?ys"
      unfolding heap_except_def
    proof (intro allI impI)
      fix j assume j: "0 < j \<and> j < num \<and> lo \<le> parent_idx j"
      have pj: "parent_idx j < j" using j parent_less by blast
      show "if parent_idx j = ?k then 0 < ?k \<and> lo \<le> parent_idx ?k \<longrightarrow> cmp (?ys ! j) (?ys ! parent_idx ?k) \<le> 0
         else cmp (?ys ! j) (?ys ! parent_idx j) \<le> 0"
      proof (cases "parent_idx j = ?k")
        case True
        then have "cmp (xs ! j) (xs ! ?k) \<le> 0" using ex[of j] j k by auto
        then show ?thesis using True k pj ys by auto
      next
        case ne: False
        consider "j = i" | "j = ?k" | "j \<noteq> i" "j \<noteq> ?k" "parent_idx j = i" | "j \<noteq> i" "j \<noteq> ?k" "parent_idx j \<noteq> i"
          by blast
        then show ?thesis
        proof cases
          case 1
          then have "cmp (xs ! ?k) (xs ! parent_idx i) \<le> 0" using ex[of ?k] j k less(4) by auto
          then show ?thesis using 1 ne pj by (simp add: ys)
        next
          case 2
          then show ?thesis using ne k mx(1) by (simp add: ys)
        next
          case 3
          then show ?thesis using ne mx(2)[of j] j by (simp add: ys)
        next
          case 4
          then show ?thesis using ne ex[of j] j by (simp add: ys)
        qed
      qed
    qed
    moreover have "num - ?k < num - i" using k less(2) by simp
    ultimately have "heap_on cmp lo num (down_heap cmp ?k num ?ys)"
      using less(1)[of ?k ?ys] less(3,4) k by simp
    moreover have "down_heap cmp i num xs = down_heap cmp ?k num ?ys"
      using False by (subst down_heap.simps) (simp add: Let_def)
    ultimately show ?thesis by simp
  qed
qed

lemma build_heap_heap:
  "i < num \<Longrightarrow> num \<le> length xs \<Longrightarrow> heap_on cmp (Suc i) num xs \<Longrightarrow> heap_on cmp 0 num (build_heap cmp i num xs)"
proof (induction i arbitrary: xs)
  case 0
  then have "heap_except cmp 0 0 num xs" by (auto simp: heap_except_def heap_on_def)
  then show ?case using 0 by (simp add: down_heap_heap)
next
  case (Suc i)
  have "heap_except cmp (Suc i) (Suc i) num xs"
    using Suc(4) parent_less[of "Suc i"] by (auto simp: heap_on_def heap_except_def)
  then have "heap_on cmp (Suc i) num (down_heap cmp (Suc i) num xs)" using Suc by (intro down_heap_heap) auto
  then show ?case using Suc down_heap_frame[of "Suc i" num xs cmp] by simp
qed

lemma heap_root_max: "heap_on cmp 0 n xs \<Longrightarrow> j < n \<Longrightarrow> cmp (xs ! j) (xs ! 0) \<le> 0"
proof (induction j rule: less_induct)
  case (less j)
  show ?case
  proof (cases "j = 0")
    case False
    then have "cmp (xs ! j) (xs ! parent_idx j) \<le> 0" using less(2,3) by (simp add: heap_on_def)
    moreover have "cmp (xs ! parent_idx j) (xs ! 0) \<le> 0" using less False parent_less[of j] by simp
    ultimately show ?thesis using cmp_trans by blast
  qed simp
qed

text \<open>The invariant of the second loop: the first \<open>i + 1\<close> cells are a heap, and from there on every cell is above all before it.\<close>

lemma extract_max_sorts:
  assumes "i < n" "n \<le> length xs" "heap_on cmp 0 (Suc i) xs"
    and "\<forall>a b. a < b \<and> i < b \<and> b < n \<longrightarrow> cmp (xs ! a) (xs ! b) \<le> 0"
  shows "\<forall>a b. a < b \<and> b < n \<longrightarrow> cmp (extract_max cmp i xs ! a) (extract_max cmp i xs ! b) \<le> 0"
  using assms
proof (induction i arbitrary: xs)
  case 0
  then show ?case by auto
next
  case (Suc i)
  let ?ys = "swap 0 (Suc i) xs"
  let ?zs = "down_heap cmp 0 (Suc i) ?ys"
  have ys: "?ys ! k = (if k = 0 then xs ! Suc i else if k = Suc i then xs ! 0 else xs ! k)" for k
    using Suc(2,3) by (intro nth_swap0) simp
  have fr: "length ?zs = length xs" "\<And>k. Suc i \<le> k \<Longrightarrow> ?zs ! k = ?ys ! k"
    using down_heap_frame[of 0 "Suc i" ?ys cmp] Suc(2,3) by simp_all
  have mem: "\<exists>j\<le>Suc i. ?zs ! a = xs ! j" if "a \<le> Suc i" for a
  proof (cases "a = Suc i")
    case True
    then show ?thesis using fr(2)[of a] ys by auto
  next
    case False
    then have "a < Suc i" "Suc i \<le> length ?ys" using that Suc(2,3) by auto
    then obtain j where "j < Suc i" "?zs ! a = ?ys ! j" using down_heap_members[of 0 "Suc i" ?ys a cmp] by auto
    then have "?zs ! a = (if j = 0 then xs ! Suc i else xs ! j)" by (simp add: ys)
    then show ?thesis using \<open>j < Suc i\<close> by (metis less_imp_le order_refl)
  qed
  have "heap_except cmp 0 0 (Suc i) ?ys"
    unfolding heap_except_def
  proof (intro allI impI)
    fix j assume j: "0 < j \<and> j < Suc i \<and> 0 \<le> parent_idx j"
    then have "cmp (xs ! j) (xs ! parent_idx j) \<le> 0" "parent_idx j < Suc i"
      using Suc(4) parent_less[of j] by (auto simp: heap_on_def)
    then show "if parent_idx j = 0 then 0 < (0::nat) \<and> 0 \<le> parent_idx 0 \<longrightarrow> cmp (?ys ! j) (?ys ! parent_idx 0) \<le> 0
        else cmp (?ys ! j) (?ys ! parent_idx j) \<le> 0"
      using j by (auto simp: ys)
  qed
  then have hp: "heap_on cmp 0 (Suc i) ?zs" using Suc(2,3) by (intro down_heap_heap) auto
  have "cmp (?zs ! a) (?zs ! b) \<le> 0" if ab: "a < b" "i < b" "b < n" for a b
  proof (cases "b = Suc i")
    case True
    obtain j where "j \<le> Suc i" "?zs ! a = xs ! j" using mem[of a] ab True by auto
    moreover have "?zs ! b = xs ! 0" using True fr(2)[of b] by (simp add: ys)
    ultimately show ?thesis using heap_root_max[OF Suc(4), of j] by simp
  next
    case False
    then have b: "?zs ! b = xs ! b" using ab fr(2)[of b] by (simp add: ys)
    have "\<exists>j<b. ?zs ! a = xs ! j"
    proof (cases "a \<le> Suc i")
      case True
      then obtain j where "j \<le> Suc i" "?zs ! a = xs ! j" using mem by blast
      moreover have "Suc i < b" using ab False by simp
      ultimately show ?thesis by (meson le_less_trans)
    next
      case a: False
      then have "?zs ! a = xs ! a" using fr(2)[of a] by (simp add: ys)
      then show ?thesis using ab by blast
    qed
    then obtain j where "j < b" "?zs ! a = xs ! j" by blast
    then show ?thesis using Suc(5) ab False b by simp
  qed
  then show ?case using Suc(1)[of ?zs] Suc(2,3) hp fr(1) by simp
qed

text \<open>The whole sort, on an array of which the first \<open>n\<close> cells are valid.\<close>

lemma heap_sort_sorted:
  assumes "2 \<le> n" "n \<le> length xs"
  defines "ys \<equiv> extract_max cmp (n - 1) (build_heap cmp (parent_idx (n - 1)) n xs)"
  shows "sorted_cmp cmp (take n ys)" and "mset (take n ys) = mset (take n xs)" and "length ys = length xs"
    and "drop n ys = drop n xs"
proof -
  let ?hs = "build_heap cmp (parent_idx (n - 1)) n xs"
  have b: "mset ?hs = mset xs" "length ?hs = length xs" "\<forall>k. n \<le> k \<longrightarrow> ?hs ! k = xs ! k"
    using build_heap_frame[OF assms(2)] by blast+
  have e: "mset ys = mset ?hs" "length ys = length ?hs" "\<forall>k>n - 1. ys ! k = ?hs ! k"
    using extract_max_frame[of "n - 1" ?hs cmp] assms(1,2) b(2) unfolding ys_def by auto
  show len: "length ys = length xs" using b e by simp
  show dr: "drop n ys = drop n xs" using b e assms(1,2) by (auto intro!: nth_equalityI)
  have "mset (take n ys) + mset (drop n ys) = mset (take n xs) + mset (drop n xs)"
    using b(1) e(1) by (simp flip: mset_append)
  then show "mset (take n ys) = mset (take n xs)" using dr by simp
  have "heap_on cmp (Suc (parent_idx (n - 1))) n xs"
    by (auto simp: heap_on_def parent_idx_def)
  then have "heap_on cmp 0 n ?hs" using assms(1,2) by (intro build_heap_heap) (auto simp: parent_idx_def)
  then have "\<forall>a b. a < b \<and> b < n \<longrightarrow> cmp (ys ! a) (ys ! b) \<le> 0"
    unfolding ys_def using assms(1,2) b(2) by (intro extract_max_sorts) auto
  then show "sorted_cmp cmp (take n ys)"
    using len assms(2) by (simp add: sorted_cmp_def sorted_wrt_iff_nth_less)
qed

end

subsection \<open>The comparison of SET OF elements\<close>

text \<open>The comparison orders strings of bytes lexicographically.\<close>

fun lex_le :: "byte list \<Rightarrow> byte list \<Rightarrow> bool" where
  "lex_le [] _ \<longleftrightarrow> True"
| "lex_le (_ # _) [] \<longleftrightarrow> False"
| "lex_le (a # as) (b # bs) \<longleftrightarrow> a < b \<or> a = b \<and> lex_le as bs"

lemma compare_Cons: "compare_set_of_element (a # as) (b # bs) =
    (if a = b then compare_set_of_element as bs else if a < b then - 1 else 1)"
  by (simp add: compare_set_of_element_def Let_def)

lemma compare_Nil:
  "compare_set_of_element [] bs = (if bs = [] then 0 else - 1)" "compare_set_of_element as [] = (if as = [] then 0 else 1)"
  by (simp_all add: compare_set_of_element_def)

lemma compare_lex: "compare_set_of_element as bs \<le> 0 \<longleftrightarrow> lex_le as bs"
  by (induction as bs rule: lex_le.induct) (auto simp: compare_Cons compare_Nil)

lemma lex_le_trans: "lex_le as bs \<Longrightarrow> lex_le bs cs \<Longrightarrow> lex_le as cs"
proof (induction as bs arbitrary: cs rule: lex_le.induct)
  case (3 a as b bs)
  then show ?case by (cases cs) auto
qed simp_all

lemma lex_le_antisym: "lex_le as bs \<Longrightarrow> lex_le bs as \<Longrightarrow> as = bs"
  by (induction as bs rule: lex_le.induct) (auto elim: lex_le.elims)

lemma compare_swap: "compare_set_of_element a b < 0 \<longleftrightarrow> compare_set_of_element b a > 0"
  by (induction a b rule: lex_le.induct) (auto simp: compare_Cons compare_Nil)

interpretation set_of: comparator compare_set_of_element
proof
  show "compare_set_of_element a b < 0 \<longleftrightarrow> compare_set_of_element b a > 0" for a b
    by (rule compare_swap)
  show "compare_set_of_element a b \<le> 0 \<Longrightarrow> compare_set_of_element b c \<le> 0 \<Longrightarrow> compare_set_of_element a c \<le> 0"
    for a b c unfolding compare_lex by (rule lex_le_trans)
qed

end
