(* ===== verification/Stack_Props.thy ===== *)
theory Stack_Props
  imports Stack_Sort "HOL-Library.Sublist"
begin

text \<open>
  The pointer array as a list: every operation of \<open>crypto/stack/stack.cc\<close> acts on the list of the valid
  pointers as its name says, whatever the growth of the array does, and the flag \<open>sorted\<close> tells the truth
  in every state that the operations other than \<open>OPENSSL_sk_set\<close> reach.
\<close>

definition elems :: "('c, 'p) stack_st \<Rightarrow> 'p ptr list" where
  "elems sk = take (st_num sk) (st_data sk)"

definition sk_wf :: "('c, 'p) stack_st \<Rightarrow> bool" where
  "sk_wf sk \<longleftrightarrow> length (st_data sk) = st_num_alloc sk \<and> st_num sk < st_num_alloc sk \<and> st_num sk \<le> 2147483647"

named_theorems sk_simps \<open>the operations on the list of valid pointers\<close>

lemma length_elems [simp]: "sk_wf sk \<Longrightarrow> length (elems sk) = st_num sk"
  by (simp add: elems_def sk_wf_def)

lemma elems_update [simp]:
  "elems (sk\<lparr>st_data := d, st_num := n\<rparr>) = take n d" "elems (sk\<lparr>st_data := d, st_num := n, st_sorted := b\<rparr>) = take n d"
  "elems (sk\<lparr>st_data := d, st_sorted := b\<rparr>) = take (st_num sk) d" "elems (sk\<lparr>st_sorted := b, st_comp := c\<rparr>) = elems sk"
  "elems (sk\<lparr>st_comp := c\<rparr>) = elems sk"
  by (simp_all add: elems_def)

subsection \<open>The interface: an indexed list of pointers\<close>

locale ptr_seq =
  fixes inv :: "'s \<Rightarrow> bool" and abs :: "'s \<Rightarrow> 'p ptr list" and count :: "'s \<Rightarrow> nat" and get :: "'s \<Rightarrow> nat \<Rightarrow> 'p ptr"
    and ins :: "'p ptr \<Rightarrow> nat \<Rightarrow> 's \<Rightarrow> nat \<times> 's" and del :: "nat \<Rightarrow> 's \<Rightarrow> 'p ptr \<times> 's"
  assumes count_abs: "inv s \<Longrightarrow> count s = length (abs s)"
    and get_abs: "inv s \<Longrightarrow> get s i = (if i < length (abs s) then abs s ! i else None)"
    and ins_abs: "inv s \<Longrightarrow> ins p w s = (r, t) \<Longrightarrow> inv t \<and>
      (if r = 0 then t = s else r = length (abs t) \<and> abs t = take w (abs s) @ p # drop w (abs s))"
    and del_abs: "inv s \<Longrightarrow> w < length (abs s) \<Longrightarrow> del w s = (q, t) \<Longrightarrow> inv t \<and>
      q = abs s ! w \<and> abs t = take w (abs s) @ drop (Suc w) (abs s)"
begin

lemma push_abs: "inv s \<Longrightarrow> ins p (count s) s = (r, t) \<Longrightarrow> r \<noteq> 0 \<Longrightarrow> inv t \<and> abs t = abs s @ [p]"
  using ins_abs[of s p "count s" r t] by (simp add: count_abs)

text \<open>Last in, first out.\<close>

lemma push_pop:
  assumes "inv s" "ins p (count s) s = (r, t)" "r \<noteq> 0"
  shows "\<exists>u. del (count t - 1) t = (p, u) \<and> inv u \<and> abs u = abs s"
proof -
  obtain q u where d: "del (count t - 1) t = (q, u)" by fastforce
  have t: "inv t" "abs t = abs s @ [p]" "count t = Suc (length (abs s))"
    using push_abs[OF assms] by (simp_all add: count_abs)
  then show ?thesis using d del_abs[OF t(1) _ d] by simp
qed

text \<open>First in, first out.\<close>

lemma push_shift:
  assumes "inv s" "abs s = q # xs" "ins p (count s) s = (r, t)" "r \<noteq> 0"
  shows "\<exists>u. del 0 t = (q, u) \<and> inv u \<and> abs u = xs @ [p]"
proof -
  obtain q' u where d: "del 0 t = (q', u)" by fastforce
  have t: "inv t" "abs t = (q # xs) @ [p]" using push_abs[OF assms(1,3,4)] assms(2) by simp_all
  then show ?thesis using d del_abs[OF t(1) _ d] by simp
qed

end

subsection \<open>The operations on the list\<close>

lemma grown_alloc_eq: "0 < n \<Longrightarrow> n \<le> 2147483648 \<Longrightarrow> grown_alloc n = Some (2 * n)"
  by (simp add: grown_alloc_def Let_def)

lemma grow_Some:
  assumes "sk_wf sk" "st_num sk < 2147483647" "grow h sk = Some sk1"
  shows "length (st_data sk1) = st_num_alloc sk1" "st_num sk1 + 1 < st_num_alloc sk1" "st_num sk1 = st_num sk"
    "elems sk1 = elems sk" "st_comp sk1 = st_comp sk"
proof -
  have g: "st_num_alloc sk \<le> st_num sk + 1 \<Longrightarrow> grown_alloc (st_num_alloc sk) = Some (2 * st_num_alloc sk)"
    using assms(1,2) by (intro grown_alloc_eq) (auto simp: sk_wf_def)
  show "length (st_data sk1) = st_num_alloc sk1" "st_num sk1 + 1 < st_num_alloc sk1" "st_num sk1 = st_num sk"
    "elems sk1 = elems sk" "st_comp sk1 = st_comp sk"
    using assms g by (auto simp: grow_def sk_wf_def elems_def split: if_splits)
qed

lemma insert_cells:
  assumes "n < length d"
  shows "take (n + 1) (if w \<ge> n then d[n := p] else (move_cells (w + 1) w (n - w) d)[w := p]) =
    take w (take n d) @ p # drop w (take n d)"
proof (cases "w \<ge> n")
  case True
  then show ?thesis using assms by (simp add: take_Suc_conv_app_nth)
next
  case False
  have "(move_cells (w + 1) w (n - w) d)[w := p] = take w d @ p # take (n - w) (drop w d) @ drop (n + 1) d"
    using False assms by (simp add: move_cells_def take_Suc_conv_app_nth list_update_append)
  moreover have "n + 1 - w = Suc (n - w)" using False by simp
  ultimately show ?thesis using False assms by (simp add: drop_take min_def)
qed

lemma length_move_cells: "dst + n \<le> length d \<Longrightarrow> src + n \<le> length d \<Longrightarrow> length (move_cells dst src n d) = length d"
  by (simp add: move_cells_def)

lemma insert_Some:
  assumes wf: "sk_wf sk" and run: "OPENSSL_sk_insert h p w (Some sk) = (r, t)"
  shows "\<exists>sk'. t = Some sk' \<and> sk_wf sk' \<and>
    (if r = 0 then sk' = sk
     else r = st_num sk + 1 \<and> st_num sk' = st_num sk + 1 \<and> elems sk' = take w (elems sk) @ p # drop w (elems sk) \<and>
       st_sorted sk' = False \<and> st_comp sk' = st_comp sk)"
proof (cases "st_num sk \<ge> 2147483647 \<or> grow h sk = None")
  case True
  then have "r = 0 \<and> t = Some sk" using run by (auto split: if_splits)
  then show ?thesis using wf by simp
next
  case False
  then obtain sk1 where g: "grow h sk = Some sk1" and lt: "st_num sk < 2147483647" by auto
  note s1 = grow_Some[OF wf lt g]
  let ?d = "if w \<ge> st_num sk1 then (st_data sk1)[st_num sk1 := p]
            else (move_cells (w + 1) w (st_num sk1 - w) (st_data sk1))[w := p]"
  have r: "r = st_num sk1 + 1" "t = Some (sk1\<lparr>st_data := ?d, st_num := st_num sk1 + 1, st_sorted := False\<rparr>)"
    using run False g by (auto simp: Let_def)
  have "take (st_num sk1 + 1) ?d = take w (elems sk) @ p # drop w (elems sk)"
    using s1(1,2) unfolding s1(4)[symmetric] elems_def[of sk1] by (intro insert_cells) simp
  moreover have "length ?d = st_num_alloc sk1" using s1(1,2) by (simp add: length_move_cells)
  ultimately show ?thesis using r s1(2,3,5) lt by (simp add: sk_wf_def)
qed

lemma delete_cells:
  assumes "w < n" "n \<le> length d"
  shows "take (n - 1) (if w \<noteq> n - 1 then move_cells w (w + 1) (n - w - 1) d else d) =
    take w (take n d) @ drop (Suc w) (take n d)"
  using assms by (auto simp: move_cells_def drop_take min_def)

lemma delete_Some:
  assumes wf: "sk_wf sk" and w: "w < st_num sk" and run: "OPENSSL_sk_delete w (Some sk) = (q, t)"
  shows "\<exists>sk'. t = Some sk' \<and> sk_wf sk' \<and> q = elems sk ! w \<and> elems sk' = take w (elems sk) @ drop (Suc w) (elems sk) \<and>
    st_sorted sk' = st_sorted sk \<and> st_comp sk' = st_comp sk"
proof -
  let ?d = "if w \<noteq> st_num sk - 1 then move_cells w (w + 1) (st_num sk - w - 1) (st_data sk) else st_data sk"
  have t: "t = Some (sk\<lparr>st_data := ?d, st_num := st_num sk - 1\<rparr>)" "q = st_data sk ! w"
    using run w by (auto simp: Let_def)
  have "take (st_num sk - 1) ?d = take w (elems sk) @ drop (Suc w) (elems sk)"
    using w wf unfolding elems_def sk_wf_def by (intro delete_cells) auto
  moreover have "length ?d = length (st_data sk)" using w wf by (auto simp: length_move_cells sk_wf_def)
  ultimately show ?thesis using t w wf by (auto simp: elems_def sk_wf_def)
qed

declare OPENSSL_sk_insert.simps(2) [simp del] OPENSSL_sk_delete.simps(2) [simp del]

lemma delete_out_of_range: "\<not> w < st_num sk \<Longrightarrow> OPENSSL_sk_delete w (Some sk) = (None, Some sk)"
  by (simp add: OPENSSL_sk_delete.simps)

definition sk_ok :: "('c, 'p) OPENSSL_STACK \<Rightarrow> bool" where
  "sk_ok s \<longleftrightarrow> (case s of None \<Rightarrow> False | Some sk \<Rightarrow> sk_wf sk)"

definition sk_list :: "('c, 'p) OPENSSL_STACK \<Rightarrow> 'p ptr list" where
  "sk_list s = (case s of None \<Rightarrow> [] | Some sk \<Rightarrow> elems sk)"

interpretation sk: ptr_seq sk_ok sk_list OPENSSL_sk_num OPENSSL_sk_value "OPENSSL_sk_insert h" OPENSSL_sk_delete for h
proof (unfold_locales, goal_cases)
  case (1 s)
  then show ?case by (auto simp: sk_ok_def sk_list_def split: option.splits)
next
  case (2 s i)
  then show ?case by (auto simp: sk_ok_def sk_list_def elems_def sk_wf_def split: option.splits)
next
  case (3 s p w r t)
  then obtain sk where "s = Some sk" "sk_wf sk" by (auto simp: sk_ok_def split: option.splits)
  then show ?case using insert_Some[of sk h p w r t] 3 by (auto simp: sk_ok_def sk_list_def split: if_splits)
next
  case (4 s w q t)
  then obtain sk where "s = Some sk" "sk_wf sk" by (auto simp: sk_ok_def split: option.splits)
  then show ?case using delete_Some[of sk w q t] 4 by (auto simp: sk_ok_def sk_list_def)
qed

subsection \<open>Searching\<close>

lemma scan_Some_iff:
  "scan P i xs = Some k \<longleftrightarrow> (\<exists>j<length xs. k = i + j \<and> P (xs ! j) \<and> (\<forall>l<j. \<not> P (xs ! l)))"
proof (induction P i xs rule: scan.induct)
  case (2 P i x xs)
  show ?case
  proof (cases "P x")
    case True
    then show ?thesis by (auto simp: nth_Cons' intro: gr0I)
  next
    case False
    then have "scan P i (x # xs) = Some k \<longleftrightarrow> (\<exists>j<length xs. k = i + 1 + j \<and> P (xs ! j) \<and> (\<forall>l<j. \<not> P (xs ! l)))"
      using 2 by simp
    also have "\<dots> \<longleftrightarrow> (\<exists>j<length (x # xs). k = i + j \<and> P ((x # xs) ! j) \<and> (\<forall>l<j. \<not> P ((x # xs) ! l)))"
      using False by (simp add: Ex_less_Suc2 All_less_Suc2)
    finally show ?thesis .
  qed
qed simp

lemma scan_None_iff: "scan P i xs = None \<longleftrightarrow> (\<forall>x\<in>set xs. \<not> P x)"
  by (induction P i xs rule: scan.induct) auto

declare bsearch.simps [simp del]

context comparator
begin

lemma sorted_le: "sorted_cmp cmp xs \<Longrightarrow> i \<le> j \<Longrightarrow> j < length xs \<Longrightarrow> cmp (xs ! i) (xs ! j) \<le> 0"
  by (cases "i = j") (auto simp: sorted_cmp_def sorted_wrt_iff_nth_less)

text \<open>
  The invariant of the binary search: everything below \<open>lo\<close> is too low, and if something from \<open>hi\<close> on
  matches then something below \<open>hi\<close> does.
\<close>

lemma bsearch_first:
  assumes "sorted_cmp cmp (take n xs)" "n \<le> length xs" "hi \<le> n"
    and "\<forall>i<lo. cmp p (xs ! i) > 0"
    and "\<forall>i. hi \<le> i \<and> i < n \<and> cmp p (xs ! i) = 0 \<longrightarrow> (\<exists>j<hi. cmp p (xs ! j) = 0)"
  shows "bsearch (cmp p) lo hi xs = scan (\<lambda>x. cmp p x = 0) 0 (take n xs)"
  using assms
proof (induction "hi - lo" arbitrary: lo hi rule: less_induct)
  case less
  have le: "cmp (xs ! i) (xs ! j) \<le> 0" if "i \<le> j" "j < n" for i j
    using sorted_le[OF less(2), of i j] that less(3) by simp
  show ?case
  proof (cases "lo < hi")
    case False
    then have "\<forall>i<n. cmp p (xs ! i) \<noteq> 0" using less(5,6) by (metis less_irrefl not_less order.strict_trans1)
    then have "scan (\<lambda>x. cmp p x = 0) 0 (take n xs) = None"
      using less(3) by (auto simp: scan_None_iff in_set_conv_nth)
    then show ?thesis using False by (simp add: bsearch.simps)
  next
    case True
    define mid where "mid = lo + (hi - lo - 1) div 2"
    have mid: "lo \<le> mid" "mid < hi" "mid < n" using True less(4) by (auto simp: mid_def)
    have run: "bsearch (cmp p) lo hi xs =
      (if cmp p (xs ! mid) > 0 then bsearch (cmp p) (mid + 1) hi xs
       else if cmp p (xs ! mid) < 0 then bsearch (cmp p) lo mid xs
       else if hi - lo = 1 then Some mid else bsearch (cmp p) lo (mid + 1) xs)"
      using True by (subst bsearch.simps) (simp add: Let_def mid_def)
    consider "cmp p (xs ! mid) > 0" | "cmp p (xs ! mid) < 0" | "cmp p (xs ! mid) = 0" "hi - lo = 1"
      | "cmp p (xs ! mid) = 0" "hi - lo \<noteq> 1" by linarith
    then show ?thesis
    proof cases
      case 1
      have "cmp p (xs ! i) > 0" if "i < mid + 1" for i
        using 1 le[of i mid] cmp_trans[of p "xs ! i" "xs ! mid"] that mid(3) by force
      then show ?thesis using 1 run less(1)[of hi "mid + 1"] less(2-6) mid by simp
    next
      case 2
      have "cmp p (xs ! i) \<noteq> 0" if "mid \<le> i" "i < n" for i
      proof
        assume "cmp p (xs ! i) = 0"
        then have "cmp (xs ! mid) p \<le> 0" using le[OF that] cmp_trans[of "xs ! mid" "xs ! i" p] cmp_eq_0_iff by blast
        then show False using 2 cmp_swap[of p "xs ! mid"] by linarith
      qed
      then have "\<forall>i. mid \<le> i \<and> i < n \<and> cmp p (xs ! i) = 0 \<longrightarrow> (\<exists>j<mid. cmp p (xs ! j) = 0)" by blast
      moreover have "mid - lo < hi - lo" using mid by simp
      ultimately show ?thesis using 2 run less(1)[of mid lo] less(2-5) mid by simp
    next
      case 3
      then have "mid = lo" by (simp add: mid_def)
      moreover have "\<forall>l<lo. cmp p (xs ! l) \<noteq> 0" using less(5) by force
      ultimately have "scan (\<lambda>x. cmp p x = 0) 0 (take n xs) = Some mid"
        using 3 less(3) mid by (auto simp: scan_Some_iff)
      then show ?thesis using 3 run by simp
    next
      case 4
      then have "mid + 1 < hi" using True div_less_dividend[of 2 "hi - lo - 1"] by (simp add: mid_def)
      moreover have "\<forall>i. mid + 1 \<le> i \<and> i < n \<and> cmp p (xs ! i) = 0 \<longrightarrow> (\<exists>j<mid + 1. cmp p (xs ! j) = 0)"
        using 4 by (auto intro!: exI[of _ mid])
      ultimately show ?thesis using 4 run less(1)[of "mid + 1" lo] less(2-6) mid True by simp
    qed
  qed
qed

end

subsection \<open>The other operations on the list\<close>

text \<open>\<open>OPENSSL_sk_delete_if\<close> keeps, in order, the pointers for which the callback returned 0.\<close>

fun kept :: "('p ptr \<Rightarrow> 'd \<Rightarrow> bool \<times> 'd) \<Rightarrow> 'p ptr list \<Rightarrow> 'd \<Rightarrow> 'p ptr list \<times> 'd" where
  "kept func [] d = ([], d)"
| "kept func (x # xs) d =
     (case func x d of (del, d') \<Rightarrow> (case kept func xs d' of (ys, d'') \<Rightarrow> (if del then ys else x # ys, d'')))"

declare delete_if_loop.simps [simp del]

lemma delete_if_loop_kept:
  assumes "new_num \<le> i" "i \<le> num" "num \<le> length xs"
  shows "\<exists>m ys d' zs. delete_if_loop func num i new_num xs d = (m, ys, d') \<and>
    kept func (drop i (take num xs)) d = (zs, d') \<and> take m ys = take new_num xs @ zs \<and>
    m = new_num + length zs \<and> m \<le> num \<and> length ys = length xs"
  using assms
proof (induction func num i new_num xs d rule: delete_if_loop.induct)
  case (1 func num i new_num xs d)
  show ?case
  proof (cases "i < num")
    case False
    then show ?thesis using 1(3-5) by (subst delete_if_loop.simps) simp
  next
    case True
    obtain del d1 where f: "func (xs ! i) d = (del, d1)" by fastforce
    have dr: "drop i (take num xs) = xs ! i # drop (Suc i) (take num xs)"
      using True 1(5) by (simp add: Cons_nth_drop_Suc[symmetric])
    show ?thesis
    proof (cases del)
      case True
      then show ?thesis using 1(2)[OF \<open>i < num\<close> f[symmetric]] 1(3-5) \<open>i < num\<close> f dr
        by (subst delete_if_loop.simps) (auto simp: Suc_le_eq)
    next
      case False
      let ?xs = "xs[new_num := xs ! i]"
      have tk: "take (Suc new_num) ?xs = take new_num xs @ [xs ! i]"
        using 1(3-5) \<open>i < num\<close> by (simp add: take_Suc_conv_app_nth)
      have "drop (Suc i) (take num ?xs) = drop (Suc i) (take num xs)"
        using 1(3) by (simp add: take_update_swap drop_update_cancel)
      moreover obtain m ys d' zs where ih: "delete_if_loop func num (i + 1) (new_num + 1) ?xs d1 = (m, ys, d')"
        "kept func (drop (i + 1) (take num ?xs)) d1 = (zs, d')" "take m ys = take (new_num + 1) ?xs @ zs"
        "m = new_num + 1 + length zs" "m \<le> num" "length ys = length ?xs"
        using 1(1)[OF \<open>i < num\<close> f[symmetric] False] 1(3-5) \<open>i < num\<close> by auto
      ultimately show ?thesis using f False \<open>i < num\<close> dr tk
        by (subst delete_if_loop.simps) auto
    qed
  qed
qed

lemma kept_subseq: "kept func xs d = (ys, d') \<Longrightarrow> subseq ys xs"
  by (induction func xs d arbitrary: ys d' rule: kept.induct) (auto split: prod.splits if_splits)

lemma delete_if_Some:
  assumes "sk_wf sk" "OPENSSL_sk_delete_if call_func func d (Some sk) = (t, d')"
  shows "\<exists>sk'. t = Some sk' \<and> sk_wf sk' \<and> kept (call_func func) (elems sk) d = (elems sk', d') \<and>
    st_sorted sk' = st_sorted sk \<and> st_comp sk' = st_comp sk"
proof -
  obtain m ys e zs where r: "delete_if_loop (call_func func) (st_num sk) 0 0 (st_data sk) d = (m, ys, e)"
    "kept (call_func func) (elems sk) d = (zs, e)" "take m ys = zs" "m \<le> st_num sk" "length ys = length (st_data sk)"
    using delete_if_loop_kept[of 0 0 "st_num sk" "st_data sk" "call_func func" d] assms(1)
    by (auto simp: sk_wf_def elems_def)
  then show ?thesis using assms by (auto simp: sk_wf_def)
qed

lemma sorted_cmp_subseq: "sorted_cmp cmp ys \<Longrightarrow> subseq xs ys \<Longrightarrow> sorted_cmp cmp xs"
  unfolding sorted_cmp_def
proof (induction ys arbitrary: xs)
  case (Cons y ys)
  from Cons(3) show ?case
  proof (cases rule: list_emb.cases)
    case (list_emb_Cons2 x xs')
    then have "sorted_wrt (\<lambda>a b. cmp a b \<le> 0) xs'" "set xs' \<subseteq> set ys"
      using Cons(1,2) by (auto elim: list_emb_set)
    then show ?thesis using list_emb_Cons2 Cons(2) by auto
  qed (use Cons(1,2) in auto)
qed (auto dest: list_emb_Nil2)

lemma sort_Some:
  assumes "sk_wf sk" "comparator (call_cmp f)" "st_comp sk = Some f" "\<not> st_sorted sk"
  shows "\<exists>sk'. OPENSSL_sk_sort call_cmp (Some sk) = Some sk' \<and> sk_wf sk' \<and> st_sorted sk' \<and> st_comp sk' = Some f \<and>
    st_num sk' = st_num sk \<and> sorted_cmp (call_cmp f) (elems sk') \<and> mset (elems sk') = mset (elems sk)"
proof (cases "st_num sk \<ge> 2")
  case True
  have "st_num sk \<le> length (st_data sk)" using assms(1) by (simp add: sk_wf_def)
  note h = comparator.heap_sort_sorted[OF assms(2) True this]
  then show ?thesis using assms True by (simp add: sk_wf_def Let_def elems_def)
next
  case False
  then have "length (elems sk) \<le> 1" using assms(1) by simp
  then have "sorted_cmp (call_cmp f) (elems sk)"
    by (cases "elems sk") (auto simp: sorted_cmp_def)
  then show ?thesis using assms False by (simp add: sk_wf_def elems_def)
qed

subsection \<open>Reachable states\<close>

text \<open>
  The states of a stack that the library's own operations reach from a new one; \<open>OPENSSL_sk_set\<close>, which
  keeps the flag, is left out. \<open>OPENSSL_sk_push\<close>, \<open>OPENSSL_sk_pop\<close> and \<open>OPENSSL_sk_shift\<close> are insertions
  and deletions.
\<close>

inductive sk_reach ::
  "'p ptr_heap \<Rightarrow> ('c \<Rightarrow> 'p ptr \<Rightarrow> 'p ptr \<Rightarrow> int) \<Rightarrow> ('c, 'p) stack_st \<Rightarrow> bool" for h call_cmp where
  new: "OPENSSL_sk_new h f = Some sk \<Longrightarrow> sk_reach h call_cmp sk"
| ins: "sk_reach h call_cmp sk \<Longrightarrow> OPENSSL_sk_insert h p w (Some sk) = (r, Some sk') \<Longrightarrow> sk_reach h call_cmp sk'"
| del: "sk_reach h call_cmp sk \<Longrightarrow> OPENSSL_sk_delete w (Some sk) = (q, Some sk') \<Longrightarrow> sk_reach h call_cmp sk'"
| del_ptr: "sk_reach h call_cmp sk \<Longrightarrow> OPENSSL_sk_delete_ptr p (Some sk) = (q, Some sk') \<Longrightarrow> sk_reach h call_cmp sk'"
| del_if: "sk_reach h call_cmp sk \<Longrightarrow> OPENSSL_sk_delete_if (\<lambda>g. g) func (d :: 'p ptr list) (Some sk) = (Some sk', d') \<Longrightarrow> sk_reach h call_cmp sk'"
| zero: "sk_reach h call_cmp sk \<Longrightarrow> OPENSSL_sk_zero (Some sk) = Some sk' \<Longrightarrow> sk_reach h call_cmp sk'"
| sort: "sk_reach h call_cmp sk \<Longrightarrow> OPENSSL_sk_sort call_cmp (Some sk) = Some sk' \<Longrightarrow> sk_reach h call_cmp sk'"
| set_cmp: "sk_reach h call_cmp sk \<Longrightarrow> OPENSSL_sk_set_cmp_func f sk = (old, sk') \<Longrightarrow> sk_reach h call_cmp sk'"
| dup: "sk_reach h call_cmp sk \<Longrightarrow> OPENSSL_sk_dup h (Some sk) = Some sk' \<Longrightarrow> sk_reach h call_cmp sk'"

definition flag_true :: "('c \<Rightarrow> 'p ptr \<Rightarrow> 'p ptr \<Rightarrow> int) \<Rightarrow> ('c, 'p) stack_st \<Rightarrow> bool" where
  "flag_true call_cmp sk \<longleftrightarrow>
     (st_sorted sk \<longrightarrow> (\<exists>f. st_comp sk = Some f \<and> sorted_cmp (call_cmp f) (elems sk)))"

lemma drop_Suc_subseq: "subseq (drop (Suc w) xs) (drop w xs)"
  by (metis drop_Suc subseq_order.refl suffix_drop suffix_imp_subseq drop_drop plus_1_eq_Suc)

lemma delete_flag:
  assumes "sk_wf sk" "flag_true call_cmp sk" "OPENSSL_sk_delete w (Some sk) = (q, Some sk')"
  shows "sk_wf sk' \<and> flag_true call_cmp sk'"
proof (cases "w < st_num sk")
  case True
  have "subseq (take w (elems sk) @ drop (Suc w) (elems sk)) (take w (elems sk) @ drop w (elems sk))"
    by (intro list_emb_append_mono) (simp_all add: drop_Suc_subseq)
  then show ?thesis
    using delete_Some[OF assms(1) True assms(3)] assms(2) by (auto simp: flag_true_def dest: sorted_cmp_subseq)
next
  case False
  then show ?thesis using assms by (simp add: delete_out_of_range)
qed

lemma sk_reach_wf:
  assumes cmp: "\<And>f. comparator (call_cmp f)"
  shows "sk_reach h call_cmp sk \<Longrightarrow> sk_wf sk \<and> flag_true call_cmp sk"
proof (induction rule: sk_reach.induct)
  case (new f sk)
  then show ?case
    by (auto simp: OPENSSL_sk_new_def sk_wf_def flag_true_def kMinSize_def split: if_splits)
next
  case (ins sk p w r sk')
  then show ?case using insert_Some[of sk h p w r "Some sk'"] by (auto simp: flag_true_def split: if_splits)
next
  case (del sk w q sk')
  then show ?case using delete_flag by blast
next
  case (del_ptr sk p q sk')
  then show ?case by (auto split: option.splits dest: delete_flag)
next
  case (del_if sk func d sk' d')
  then show ?case
    using delete_if_Some[of sk "\<lambda>g. g" func d "Some sk'" d'] kept_subseq[of func "elems sk" d "elems sk'" d']
    by (auto simp: flag_true_def dest: sorted_cmp_subseq)
next
  case (zero sk sk')
  then show ?case by (auto simp: sk_wf_def flag_true_def split: if_splits)
next
  case (sort sk sk')
  show ?case
  proof (cases "st_comp sk")
    case None
    then show ?thesis using sort by simp
  next
    case (Some f)
    show ?thesis
    proof (cases "st_sorted sk")
      case True
      then show ?thesis using sort Some by simp
    next
      case False
      then show ?thesis using sort(2,3) sort_Some[of sk call_cmp f, OF _ cmp Some False] by (auto simp: flag_true_def simp del: OPENSSL_sk_sort.simps)
    qed
  qed
next
  case (set_cmp sk f old sk')
  then show ?case by (auto simp: OPENSSL_sk_set_cmp_func_def sk_wf_def flag_true_def split: if_splits)
next
  case (dup sk sk')
  then show ?case by (auto simp: sk_wf_def flag_true_def elems_def split: if_splits)
qed

text \<open>
  In every state the operations reach, the array is well-formed (fewer valid pointers than cells, as many
  cells as the allocation holds, no more than \<open>INT_MAX\<close> pointers), and the flag \<open>sorted\<close> is set only when the
  pointers are in ascending order of the current comparison function, as the comment in \<open>struct stack_st\<close> says.
\<close>
theorem sk_invariant:
  assumes "\<forall>f. comparator (call_cmp f)" and "sk_reach h call_cmp sk"
  shows "length (st_data sk) = st_num_alloc sk \<and> st_num sk < st_num_alloc sk \<and> st_num sk \<le> 2147483647 \<and>
    (st_sorted sk \<longrightarrow> (\<exists>f. st_comp sk = Some f \<and> sorted_cmp (call_cmp f) (elems sk)))"
  using sk_reach_wf[of call_cmp h sk] assms by (simp add: sk_wf_def flag_true_def)

text \<open>
  (C29) \<open>OPENSSL_sk_sort\<close> ends, leaves the pointers in ascending order of the comparison function, and only
  rearranges them; it does nothing when there is no comparison function.
\<close>
theorem sk_sort_sorts:
  assumes "\<forall>f. comparator (call_cmp f)" and "sk_reach h call_cmp sk"
  shows "\<exists>sk'. OPENSSL_sk_sort call_cmp (Some sk) = Some sk' \<and> mset (elems sk') = mset (elems sk) \<and>
    (case st_comp sk of None \<Rightarrow> sk' = sk
     | Some f \<Rightarrow> sorted_cmp (call_cmp f) (elems sk') \<and> OPENSSL_sk_is_sorted (Some sk'))"
proof (cases "st_comp sk")
  case (Some f)
  have r: "sk_wf sk" "flag_true call_cmp sk" using sk_reach_wf[of call_cmp h sk] assms by blast+
  show ?thesis
  proof (cases "st_sorted sk")
    case True
    then show ?thesis using Some r(2) by (auto simp: flag_true_def)
  next
    case False
    then show ?thesis using Some sort_Some[OF r(1) _ Some False] assms(1) by fastforce
  qed
qed simp

text \<open>
  \<open>OPENSSL_sk_find\<close> returns the index of the first pointer that compares equal to the given one, and
  reports "not found" only when there is none, whether it searches linearly or, on a sorted stack, by
  bisection.
\<close>
theorem sk_find_first:
  assumes "\<forall>f. comparator (call_cmp f)" and "sk_reach h call_cmp sk" and "st_comp sk = Some f" and "p \<noteq> None"
  shows "case OPENSSL_sk_find call_cmp p (Some sk) of
      Some i \<Rightarrow> i < st_num sk \<and> call_cmp f p (elems sk ! i) = 0 \<and> (\<forall>j<i. call_cmp f p (elems sk ! j) \<noteq> 0)
    | None \<Rightarrow> \<forall>j. j < st_num sk \<longrightarrow> call_cmp f p (elems sk ! j) \<noteq> 0"
proof -
  have r: "sk_wf sk" "flag_true call_cmp sk" using sk_reach_wf[of call_cmp h sk] assms(1,2) by blast+
  have n: "st_num sk \<le> length (st_data sk)" using r(1) by (simp add: sk_wf_def)
  have "OPENSSL_sk_find call_cmp p (Some sk) = scan (\<lambda>x. call_cmp f p x = 0) 0 (elems sk)"
  proof (cases "OPENSSL_sk_is_sorted (Some sk)")
    case True
    have "sorted_cmp (call_cmp f) (elems sk)"
    proof (cases "st_sorted sk")
      case False
      then have "length (elems sk) \<le> 1" using True r(1) by simp
      then show ?thesis by (cases "elems sk") (auto simp: sorted_cmp_def)
    qed (use r(2) assms(3) in \<open>simp add: flag_true_def\<close>)
    then have "bsearch (call_cmp f p) 0 (st_num sk) (st_data sk) = scan (\<lambda>x. call_cmp f p x = 0) 0 (elems sk)"
      using assms(1) n unfolding elems_def by (intro comparator.bsearch_first) auto
    then show ?thesis using True assms(3,4) by auto
  qed (use assms(3,4) in \<open>auto simp: elems_def\<close>)
  then show ?thesis using r(1) by (auto simp: scan_Some_iff scan_None_iff split: option.splits)
qed

text \<open>
  A successful \<open>OPENSSL_sk_push\<close> appends; \<open>OPENSSL_sk_pop\<close> then returns the pushed pointer and restores
  the list, and \<open>OPENSSL_sk_shift\<close> returns the oldest pointer of a non-empty stack.
\<close>
theorem sk_push_pop_shift:
  assumes "sk_wf sk" and "OPENSSL_sk_push h p sk = (n, Some sk')" and "n \<noteq> 0"
  shows "elems sk' = elems sk @ [p] \<and>
    (\<exists>u. OPENSSL_sk_pop (Some sk') = (p, Some u) \<and> elems u = elems sk) \<and>
    (elems sk = q # xs \<longrightarrow> (\<exists>u. OPENSSL_sk_shift (Some sk') = (q, Some u) \<and> elems u = xs @ [p]))"
proof -
  have ok: "sk_ok (Some sk)" "OPENSSL_sk_insert h p (OPENSSL_sk_num (Some sk)) (Some sk) = (n, Some sk')"
    using assms by (simp_all add: sk_ok_def OPENSSL_sk_push_def)
  have el: "elems sk' = elems sk @ [p]" and wf': "sk_wf sk'"
    using sk.push_abs[OF ok assms(3)] by (simp_all add: sk_list_def sk_ok_def)
  then have ne: "st_num sk' \<noteq> 0" using length_elems[OF wf'] by auto
  obtain u where u: "OPENSSL_sk_delete (st_num sk' - 1) (Some sk') = (p, u)" "sk_ok u" "sk_list u = elems sk"
    using sk.push_pop[OF ok assms(3)] by (auto simp: sk_list_def)
  have "\<exists>u. OPENSSL_sk_shift (Some sk') = (q, Some u) \<and> elems u = xs @ [p]" if "elems sk = q # xs"
    using sk.push_shift[OF ok(1) _ ok(2) assms(3), of q xs] that ne
    by (auto simp: sk_list_def sk_ok_def split: option.splits)
  then show ?thesis using el u ne by (auto simp: sk_ok_def sk_list_def split: option.splits)
qed

subsection \<open>Concrete stacks\<close>

text \<open>Pointers to numbers, compared by the numbers they point to, on an allocator that never fails.\<close>

definition num_key :: "nat ptr \<Rightarrow> int" where
  "num_key p = (case p of None \<Rightarrow> - 1 | Some n \<Rightarrow> int n)"

definition num_cmp :: "unit \<Rightarrow> nat ptr \<Rightarrow> nat ptr \<Rightarrow> int" where
  "num_cmp f a b = num_key a - num_key b"

interpretation num_cmp: comparator "num_cmp f" for f
  by unfold_locales (auto simp: num_cmp_def)

definition demo_heap :: "nat ptr_heap" where
  "demo_heap = \<lparr>ptr_alloc = (\<lambda>_. True), ptr_fresh = (\<lambda>_. None)\<rparr>"

definition demo_sk :: "nat ptr list \<Rightarrow> bool \<Rightarrow> (unit, nat) stack_st" where
  "demo_sk xs b = \<lparr>st_num = length xs, st_data = xs @ replicate (4 - length xs) None, st_sorted = b, st_num_alloc = 4,
     st_comp = Some ()\<rparr>"

lemma demo_new: "OPENSSL_sk_new demo_heap (Some ()) = Some (demo_sk [] False)"
  by (simp add: OPENSSL_sk_new_def demo_heap_def demo_sk_def kMinSize_def)

lemma demo_replicate: "replicate 4 x = [x, x, x, x]" "replicate 3 x = [x, x, x]" "replicate 2 x = [x, x]"
  by (simp_all add: numeral_eq_Suc)

lemma demo_insert1: "OPENSSL_sk_insert demo_heap (Some 3) 0 (Some (demo_sk [] False)) = (1, Some (demo_sk [Some 3] False))"
  by (simp add: OPENSSL_sk_insert.simps demo_sk_def grow_def demo_replicate)

lemma demo_insert2:
  "OPENSSL_sk_insert demo_heap (Some 1) 1 (Some (demo_sk [Some 3] False)) = (2, Some (demo_sk [Some 3, Some 1] False))"
  by (simp add: OPENSSL_sk_insert.simps demo_sk_def grow_def demo_replicate)

lemma demo_reach: "sk_reach demo_heap num_cmp (demo_sk [Some 3, Some 1] False)"
  by (rule sk_reach.ins[OF sk_reach.ins[OF sk_reach.new[OF demo_new] demo_insert1] demo_insert2])

lemma demo_sort: "OPENSSL_sk_sort num_cmp (Some (demo_sk [Some 3, Some 1] False)) = Some (demo_sk [Some 1, Some 3] True)"
  by code_simp

lemma demo_sorted_reach: "sk_reach demo_heap num_cmp (demo_sk [Some 1, Some 3] True)"
  by (rule sk_reach.sort[OF demo_reach demo_sort])

theorem sk_invariant_witness:
  "sorted_cmp (num_cmp ()) (elems (demo_sk [Some 1, Some 3] True))"
  using sk_invariant[OF _ demo_sorted_reach] num_cmp.comparator_axioms by (simp add: demo_sk_def)

theorem sk_sort_sorts_witness:
  "\<exists>sk'. OPENSSL_sk_sort num_cmp (Some (demo_sk [Some 3, Some 1] False)) = Some sk' \<and>
     mset (elems sk') = mset (elems (demo_sk [Some 3, Some 1] False)) \<and> sorted_cmp (num_cmp ()) (elems sk')"
proof -
  have "st_comp (demo_sk [Some 3, Some 1] False) = Some ()" by (simp add: demo_sk_def)
  then show ?thesis using sk_sort_sorts[OF _ demo_reach] num_cmp.comparator_axioms by auto
qed

theorem sk_find_first_witness:
  "case OPENSSL_sk_find num_cmp (Some 3) (Some (demo_sk [Some 1, Some 3] True)) of
      Some i \<Rightarrow> i < 2 \<and> num_cmp () (Some 3) (elems (demo_sk [Some 1, Some 3] True) ! i) = 0
    | None \<Rightarrow> num_cmp () (Some 3) (elems (demo_sk [Some 1, Some 3] True) ! 1) \<noteq> 0"
proof -
  have "st_comp (demo_sk [Some 1, Some 3] True) = Some ()" "st_num (demo_sk [Some 1, Some 3] True) = 2"
    by (simp_all add: demo_sk_def)
  then show ?thesis
    using sk_find_first[OF _ demo_sorted_reach, of "()" "Some 3"] num_cmp.comparator_axioms
    by (auto split: option.splits)
qed

theorem sk_push_pop_shift_witness:
  "\<exists>u. OPENSSL_sk_shift (Some (demo_sk [Some 3, Some 1] False)) = (Some 3, Some u) \<and> elems u = [Some 1]"
proof -
  have "sk_wf (demo_sk [Some 3] False)" "elems (demo_sk [Some 3] False) = [Some 3]"
    by (simp_all add: sk_wf_def demo_sk_def elems_def)
  moreover have "OPENSSL_sk_push demo_heap (Some 1) (demo_sk [Some 3] False) = (2, Some (demo_sk [Some 3, Some 1] False))"
    using demo_insert2 by (simp add: OPENSSL_sk_push_def demo_sk_def)
  ultimately show ?thesis using sk_push_pop_shift[of "demo_sk [Some 3] False" demo_heap "Some 1" 2 _ "Some 3" "[]"] by simp
qed

text \<open>
  (C40) \<open>OPENSSL_sk_set\<close> does not reset the flag: after sorting a stack of two elements and replacing the first
  by a larger one, the flag still says "sorted" and \<open>OPENSSL_sk_find\<close> reports that the second element, which
  is still there, is not found.
\<close>
theorem sk_set_keeps_flag:
  "\<exists>sk. OPENSSL_sk_sort num_cmp (Some (demo_sk [Some 3, Some 1] False)) = Some sk \<and>
     (\<exists>sk'. OPENSSL_sk_set 0 (Some 5) (Some sk) = (Some 5, Some sk') \<and> OPENSSL_sk_value (Some sk') 1 = Some 3 \<and>
        OPENSSL_sk_is_sorted (Some sk') \<and> \<not> sorted_cmp (num_cmp ()) (elems sk') \<and>
        OPENSSL_sk_find num_cmp (Some 3) (Some sk') = None)"
proof -
  have "OPENSSL_sk_set 0 (Some 5) (Some (demo_sk [Some 1, Some 3] True)) = (Some 5, Some (demo_sk [Some 5, Some 3] True))"
    by (simp add: demo_sk_def)
  moreover have "OPENSSL_sk_value (Some (demo_sk [Some 5, Some 3] True)) 1 = Some 3"
    "OPENSSL_sk_is_sorted (Some (demo_sk [Some 5, Some 3] True))" by (simp_all add: demo_sk_def)
  moreover have "\<not> sorted_cmp (num_cmp ()) (elems (demo_sk [Some 5, Some 3] True))"
    by (simp add: demo_sk_def elems_def sorted_cmp_def num_cmp_def num_key_def)
  moreover have "OPENSSL_sk_find num_cmp (Some 3) (Some (demo_sk [Some 5, Some 3] True)) = None" by code_simp
  ultimately show ?thesis using demo_sort by blast
qed

subsection \<open>Deep copies\<close>

declare deep_copy_loop.simps [simp del]

abbreviation owned :: "'p ptr list \<Rightarrow> 'p multiset" where
  "owned xs \<equiv> mset (List.map_filter (\<lambda>p. p) xs)"

text \<open>What the caller's functions do to the objects that are alive.\<close>

definition copies :: "('s \<Rightarrow> 'p multiset) \<Rightarrow> ('p \<Rightarrow> 's \<Rightarrow> 'p ptr \<times> 's) \<Rightarrow> bool" where
  "copies live copy \<longleftrightarrow> (\<forall>p s. live (snd (copy p s)) = live s + owned [fst (copy p s)])"

definition frees :: "('s \<Rightarrow> 'p multiset) \<Rightarrow> ('p \<Rightarrow> 's \<Rightarrow> 's) \<Rightarrow> bool" where
  "frees live free_func \<longleftrightarrow> (\<forall>p s. live (free_func p s) = live s - {#p#})"

lemma free_elements_live: "frees live free_func \<Longrightarrow> live (free_elements free_func xs s) = live s - owned xs"
  by (induction free_func xs s rule: free_elements.induct)
    (auto simp: frees_def map_filter_simps)

lemma owned_append [simp]: "owned (xs @ ys) = owned xs + owned ys"
  by (simp add: List.map_filter_def)

lemma deep_copy_loop_live:
  assumes "copies live copy" "frees live free_func"
    and "i \<le> st_num sk" "st_num sk \<le> length (st_data sk)" "live s = before + owned (take i (st_data sk))"
    and "deep_copy_loop copy free_func i sk s = (t, s')"
  shows "case t of None \<Rightarrow> live s' = before
    | Some r \<Rightarrow> live s' = before + owned (elems r) \<and> st_num r = st_num sk \<and>
        map (\<lambda>p. p = None) (elems r) = map (\<lambda>p. p = None) (elems sk)"
  using assms
proof (induction copy free_func i sk s rule: deep_copy_loop.induct)
  case (1 copy free_func i sk s)
  show ?case
  proof (cases "i < st_num sk")
    case False
    then have "t = Some sk" "s' = s" using 1(8) by (simp_all add: deep_copy_loop.simps)
    then show ?thesis using 1(5,7) False by (simp add: elems_def)
  next
    case lt: True
    then have tk: "take (Suc i) (st_data sk) = take i (st_data sk) @ [st_data sk ! i]"
      using 1(6) by (simp add: take_Suc_conv_app_nth)
    show ?thesis
    proof (cases "st_data sk ! i")
      case None
      then show ?thesis using 1(1)[OF lt None] 1(3-8) lt tk
        by (simp add: deep_copy_loop.simps[of _ _ i] map_filter_simps)
    next
      case (Some p)
      obtain q s1 where c: "copy p s = (q, s1)" by fastforce
      have live: "live s1 = live s + owned [q]" using 1(3) c unfolding copies_def by (metis fst_conv snd_conv)
      show ?thesis
      proof (cases q)
        case None
        then show ?thesis using 1(8) lt Some c live 1(7) free_elements_live[OF 1(4)]
          by (auto simp: deep_copy_loop.simps[of _ _ i] map_filter_simps)
      next
        case q: (Some x)
        let ?sk = "sk\<lparr>st_data := (st_data sk)[i := Some x]\<rparr>"
        have run: "deep_copy_loop copy free_func (i + 1) ?sk s1 = (t, s')"
          using 1(8) lt Some c q by (simp add: deep_copy_loop.simps[of _ _ i])
        have "live s1 = before + owned (take (i + 1) (st_data ?sk))"
          using live 1(6,7) lt q by (simp add: take_Suc_conv_app_nth)
        moreover have "map (\<lambda>p. p = None) (elems ?sk) = map (\<lambda>p. p = None) (elems sk)"
          using Some lt 1(6) by (simp add: elems_def take_update_swap map_update list_update_same_conv)
        ultimately show ?thesis using 1(2)[OF lt Some c[symmetric] q] 1(3-6) lt run by (simp split: option.splits)
      qed
    qed
  qed
qed

text \<open>
  \<open>OPENSSL_sk_deep_copy\<close> leaks nothing: when it fails, at an allocation or at the copy of any element,
  every copy it had made is freed again, and when it succeeds the new stack owns exactly the objects that
  were created, one for each pointer that is not \<open>NULL\<close>.
\<close>
theorem sk_deep_copy_no_leak:
  assumes "copies live (call_copy copy_func)" "frees live (call_free free_func)" "sk_wf sk"
    and "OPENSSL_sk_deep_copy h call_copy copy_func call_free free_func (Some sk) s = (t, s')"
  shows "case t of None \<Rightarrow> live s' = live s
    | Some r \<Rightarrow> live s' = live s + owned (elems r) \<and> map (\<lambda>p. p = None) (elems r) = map (\<lambda>p. p = None) (elems sk)"
proof (cases "OPENSSL_sk_dup h (Some sk)")
  case None
  then show ?thesis using assms(4) by (auto simp: OPENSSL_sk_deep_copy_def)
next
  case (Some r)
  then have r: "st_num r = st_num sk" "st_data r = st_data sk" by (auto split: if_splits)
  have "deep_copy_loop (call_copy copy_func) (call_free free_func) 0 r s = (t, s')"
    using assms(4) Some by (simp add: OPENSSL_sk_deep_copy_def del: OPENSSL_sk_dup.simps)
  then have "case t of None \<Rightarrow> live s' = live s
    | Some r' \<Rightarrow> live s' = live s + owned (elems r') \<and> st_num r' = st_num r \<and>
        map (\<lambda>p. p = None) (elems r') = map (\<lambda>p. p = None) (elems r)"
    using assms(1-3) r by (intro deep_copy_loop_live) (auto simp: sk_wf_def map_filter_simps)
  then show ?thesis using r by (auto simp: elems_def split: option.splits)
qed

text \<open>The copy of a second element fails: the copy of the first is freed.\<close>

definition demo_copy :: "unit \<Rightarrow> nat \<Rightarrow> nat list \<Rightarrow> nat ptr \<times> nat list" where
  "demo_copy g p s = (if p < 10 then (Some (p + 100), (p + 100) # s) else (None, s))"

definition demo_free :: "unit \<Rightarrow> nat \<Rightarrow> nat list \<Rightarrow> nat list" where
  "demo_free g p s = remove1 p s"

theorem sk_deep_copy_no_leak_witness:
  "fst (OPENSSL_sk_deep_copy demo_heap demo_copy () demo_free () (Some (demo_sk [Some 1, Some 20] False)) [1, 20]) = None \<and>
   mset (snd (OPENSSL_sk_deep_copy demo_heap demo_copy () demo_free () (Some (demo_sk [Some 1, Some 20] False)) [1, 20])) =
     mset [1, 20]" (is "fst ?run = None \<and> _")
proof -
  have f: "fst ?run = None"
    by (simp add: OPENSSL_sk_deep_copy_def demo_heap_def demo_sk_def deep_copy_loop.simps demo_copy_def demo_free_def)
  have "copies mset (demo_copy ())" "frees mset (demo_free ())" "sk_wf (demo_sk [Some 1, Some 20] False)"
    by (simp_all add: copies_def frees_def demo_copy_def demo_free_def map_filter_simps sk_wf_def demo_sk_def)
  then have "case fst ?run of None \<Rightarrow> mset (snd ?run) = mset [1, 20]
    | Some r \<Rightarrow> mset (snd ?run) = mset [1, 20] + owned (elems r) \<and>
        map (\<lambda>p. p = None) (elems r) = map (\<lambda>p. p = None) (elems (demo_sk [Some 1, Some 20] False))"
    by (rule sk_deep_copy_no_leak) simp
  then show ?thesis unfolding f by simp
qed

end
