(* ===== verification/LHash.thy ===== *)
theory LHash
  imports Prelude "HOL-Library.Multiset"
begin

text \<open>
  The hash table of BoringSSL, \<open>crypto/lhash/lhash.cc\<close>, and the hash and comparison functions of the TLS
  session cache that uses it (\<open>ssl/ssl_lib.cc\<close>, \<open>ssl/ssl_session.cc\<close>). A bucket's chain of items is the list
  of its items; the pointer to a pointer that \<open>get_next_ptr_and_hash\<close> returns is a position: the bucket and
  the number of items before it, which is the length of the chain when it points to the terminating \<open>NULL\<close>.
  The table's function pointers are values of the caller's types, applied by the helpers the caller passes.
  \<open>alloc\<close> says which sizes the allocator serves.
\<close>

subsection \<open>Data\<close>

record 'p lhash_item_st =
  it_data :: 'p
  it_hash :: uint32

record ('h, 'c, 'p) lhash_st =
  num_items :: nat
  buckets :: "'p lhash_item_st list list"
  num_buckets :: nat
  callback_depth :: uint32
  lh_comp :: 'c
  lh_hash :: 'h

definition kMinNumBuckets :: nat where
  "kMinNumBuckets = 16"

definition kMaxAverageChainLength :: nat where
  "kMaxAverageChainLength = 2"

definition kMinAverageChainLength :: nat where
  "kMinAverageChainLength = 1"

abbreviation (input) "sizeof_lhash_st \<equiv> (48 :: nat)"
abbreviation (input) "sizeof_lhash_item \<equiv> (24 :: nat)"

definition OPENSSL_lh_new :: "(nat \<Rightarrow> bool) \<Rightarrow> 'h \<Rightarrow> 'c \<Rightarrow> ('h, 'c, 'p) lhash_st option" where
  "OPENSSL_lh_new alloc hash cmp =
     (if \<not> alloc sizeof_lhash_st then None
      else if \<not> alloc (kMinNumBuckets * 8) then None
      else Some \<lparr>num_items = 0, buckets = replicate kMinNumBuckets [], num_buckets = kMinNumBuckets,
                 callback_depth = 0, lh_comp = cmp, lh_hash = hash\<rparr>)"

definition OPENSSL_lh_num_items :: "('h, 'c, 'p) lhash_st \<Rightarrow> nat" where
  "OPENSSL_lh_num_items lh = num_items lh"

subsection \<open>Lookup\<close>

text \<open>The walk along a chain to the first item that matches, or to its end.\<close>

fun chain_pos :: "('p \<Rightarrow> bool) \<Rightarrow> 'p lhash_item_st list \<Rightarrow> nat" where
  "chain_pos matches [] = 0"
| "chain_pos matches (cur # rest) = (if matches (it_data cur) then 0 else Suc (chain_pos matches rest))"

definition get_next_ptr_and_hash ::
  "('h \<Rightarrow> 'p \<Rightarrow> uint32) \<Rightarrow> ('c \<Rightarrow> 'p \<Rightarrow> 'p \<Rightarrow> int) \<Rightarrow> ('h, 'c, 'p) lhash_st \<Rightarrow> 'p \<Rightarrow> uint32 \<times> nat \<times> nat" where
  "get_next_ptr_and_hash call_hash_func call_cmp_func lh data =
     (let hash = call_hash_func (lh_hash lh) data; b = unat hash mod num_buckets lh
      in (hash, b, chain_pos (\<lambda>d. call_cmp_func (lh_comp lh) d data = 0) (buckets lh ! b)))"

definition get_next_ptr_by_key ::
  "('h, 'c, 'p) lhash_st \<Rightarrow> 'k \<Rightarrow> uint32 \<Rightarrow> ('k \<Rightarrow> 'p \<Rightarrow> int) \<Rightarrow> nat \<times> nat" where
  "get_next_ptr_by_key lh key key_hash cmp_key =
     (let b = unat key_hash mod num_buckets lh
      in (b, chain_pos (\<lambda>d. cmp_key key d = 0) (buckets lh ! b)))"

text \<open>\<open>*next_ptr\<close>: the item at a position, \<open>None\<close> for \<open>NULL\<close>.\<close>

definition item_at :: "('h, 'c, 'p) lhash_st \<Rightarrow> nat \<Rightarrow> nat \<Rightarrow> 'p lhash_item_st option" where
  "item_at lh b k = (if k < length (buckets lh ! b) then Some (buckets lh ! b ! k) else None)"

definition OPENSSL_lh_retrieve ::
  "('h \<Rightarrow> 'p \<Rightarrow> uint32) \<Rightarrow> ('c \<Rightarrow> 'p \<Rightarrow> 'p \<Rightarrow> int) \<Rightarrow> ('h, 'c, 'p) lhash_st \<Rightarrow> 'p \<Rightarrow> 'p option" where
  "OPENSSL_lh_retrieve call_hash_func call_cmp_func lh data =
     (case get_next_ptr_and_hash call_hash_func call_cmp_func lh data of
        (_, b, k) \<Rightarrow> map_option it_data (item_at lh b k))"

definition OPENSSL_lh_retrieve_key ::
  "('h, 'c, 'p) lhash_st \<Rightarrow> 'k \<Rightarrow> uint32 \<Rightarrow> ('k \<Rightarrow> 'p \<Rightarrow> int) \<Rightarrow> 'p option" where
  "OPENSSL_lh_retrieve_key lh key key_hash cmp_key =
     (case get_next_ptr_by_key lh key key_hash cmp_key of
        (b, k) \<Rightarrow> map_option it_data (item_at lh b k))"

subsection \<open>Resizing\<close>

text \<open>Prepending an item to its new chain, and moving the items of all chains, first bucket first.\<close>

definition put_item :: "nat \<Rightarrow> 'p lhash_item_st list list \<Rightarrow> 'p lhash_item_st \<Rightarrow> 'p lhash_item_st list list" where
  "put_item n new_buckets cur =
     (let new_bucket = unat (it_hash cur) mod n
      in new_buckets[new_bucket := cur # new_buckets ! new_bucket])"

definition redistribute :: "nat \<Rightarrow> 'p lhash_item_st list list \<Rightarrow> 'p lhash_item_st list list" where
  "redistribute n old = foldl (foldl (put_item n)) (replicate n []) old"

definition lh_rebucket :: "(nat \<Rightarrow> bool) \<Rightarrow> ('h, 'c, 'p) lhash_st \<Rightarrow> nat \<Rightarrow> ('h, 'c, 'p) lhash_st" where
  "lh_rebucket alloc lh new_num_buckets =
     (let alloc_size = (8 * new_num_buckets) mod 2 ^ 64 in
      if alloc_size div 8 \<noteq> new_num_buckets then lh
      else if \<not> alloc alloc_size then lh
      else lh\<lparr>buckets := redistribute new_num_buckets (buckets lh), num_buckets := new_num_buckets\<rparr>)"

definition lh_maybe_resize :: "(nat \<Rightarrow> bool) \<Rightarrow> ('h, 'c, 'p) lhash_st \<Rightarrow> ('h, 'c, 'p) lhash_st" where
  "lh_maybe_resize alloc lh =
     (if callback_depth lh > 0 then lh
      else
        let avg_chain_length = num_items lh div num_buckets lh in
        if avg_chain_length > kMaxAverageChainLength then
          (let new_num_buckets = (num_buckets lh * 2) mod 2 ^ 64
           in if new_num_buckets > num_buckets lh then lh_rebucket alloc lh new_num_buckets else lh)
        else if avg_chain_length < kMinAverageChainLength \<and> num_buckets lh > kMinNumBuckets then
          (let half = num_buckets lh div 2;
               new_num_buckets = if half < kMinNumBuckets then kMinNumBuckets else half
           in lh_rebucket alloc lh new_num_buckets)
        else lh)"

subsection \<open>Insertion, deletion, iteration\<close>

text \<open>The result is the return value, \<open>*old_data\<close> and the table.\<close>

definition OPENSSL_lh_insert ::
  "(nat \<Rightarrow> bool) \<Rightarrow> ('h \<Rightarrow> 'p \<Rightarrow> uint32) \<Rightarrow> ('c \<Rightarrow> 'p \<Rightarrow> 'p \<Rightarrow> int) \<Rightarrow> 'p \<Rightarrow> ('h, 'c, 'p) lhash_st \<Rightarrow>
   bool \<times> 'p option \<times> ('h, 'c, 'p) lhash_st" where
  "OPENSSL_lh_insert alloc call_hash_func call_cmp_func data lh =
     (case get_next_ptr_and_hash call_hash_func call_cmp_func lh data of
        (hash, b, k) \<Rightarrow>
          let chain = buckets lh ! b in
          case item_at lh b k of
            Some item \<Rightarrow>
              (True, Some (it_data item),
               lh\<lparr>buckets := (buckets lh)[b := chain[k := item\<lparr>it_data := data\<rparr>]]\<rparr>)
          | None \<Rightarrow>
              if \<not> alloc sizeof_lhash_item then (False, None, lh)
              else (True, None,
                    lh_maybe_resize alloc
                      (lh\<lparr>buckets := (buckets lh)[b := chain @ [\<lparr>it_data = data, it_hash = hash\<rparr>]],
                          num_items := num_items lh + 1\<rparr>)))"

definition OPENSSL_lh_delete ::
  "(nat \<Rightarrow> bool) \<Rightarrow> ('h \<Rightarrow> 'p \<Rightarrow> uint32) \<Rightarrow> ('c \<Rightarrow> 'p \<Rightarrow> 'p \<Rightarrow> int) \<Rightarrow> 'p \<Rightarrow> ('h, 'c, 'p) lhash_st \<Rightarrow>
   'p option \<times> ('h, 'c, 'p) lhash_st" where
  "OPENSSL_lh_delete alloc call_hash_func call_cmp_func data lh =
     (case get_next_ptr_and_hash call_hash_func call_cmp_func lh data of
        (_, b, k) \<Rightarrow>
          let chain = buckets lh ! b in
          case item_at lh b k of
            None \<Rightarrow> (None, lh)
          | Some item \<Rightarrow>
              (Some (it_data item),
               lh_maybe_resize alloc
                 (lh\<lparr>buckets := (buckets lh)[b := take k chain @ drop (k + 1) chain],
                     num_items := num_items lh - 1\<rparr>)))"

text \<open>
  Iteration, for callbacks that leave the table alone: \<open>func\<close> acts on a state of the caller. The depth
  counter saturates at \<open>UINT_MAX\<close>.
\<close>

definition doall_enter :: "('h, 'c, 'p) lhash_st \<Rightarrow> ('h, 'c, 'p) lhash_st" where
  "doall_enter lh = (if callback_depth lh < 0xffffffff then lh\<lparr>callback_depth := callback_depth lh + 1\<rparr> else lh)"

definition doall_leave :: "(nat \<Rightarrow> bool) \<Rightarrow> ('h, 'c, 'p) lhash_st \<Rightarrow> ('h, 'c, 'p) lhash_st" where
  "doall_leave alloc lh =
     lh_maybe_resize alloc
       (if callback_depth lh < 0xffffffff then lh\<lparr>callback_depth := callback_depth lh - 1\<rparr> else lh)"

definition OPENSSL_lh_doall_arg ::
  "(nat \<Rightarrow> bool) \<Rightarrow> ('p \<Rightarrow> 's \<Rightarrow> 's) \<Rightarrow> ('h, 'c, 'p) lhash_st \<Rightarrow> 's \<Rightarrow> ('h, 'c, 'p) lhash_st \<times> 's" where
  "OPENSSL_lh_doall_arg alloc func lh s =
     (let lh1 = doall_enter lh;
          s' = foldl (foldl (\<lambda>st cur. func (it_data cur) st)) s (buckets lh1)
      in (doall_leave alloc lh1, s'))"

subsection \<open>The functions of the session cache\<close>

text \<open>A session, for the cache: its identifier; everything else of it is the record's extension.\<close>

record SSL_SESSION =
  session_id :: "byte list"

definition ssl_hash_session_id :: "byte list \<Rightarrow> uint32" where
  "ssl_hash_session_id sid =
     (let s = if length sid < 4 then sid @ replicate (4 - length sid) 0 else sid
      in ucast (s ! 0) OR push_bit 8 (ucast (s ! 1)) OR push_bit 16 (ucast (s ! 2)) OR push_bit 24 (ucast (s ! 3)))"

definition ssl_session_hash :: "'a SSL_SESSION_scheme \<Rightarrow> uint32" where
  "ssl_session_hash sess = ssl_hash_session_id (session_id sess)"

definition ssl_session_cmp :: "'a SSL_SESSION_scheme \<Rightarrow> 'a SSL_SESSION_scheme \<Rightarrow> int" where
  "ssl_session_cmp a b = (if session_id a = session_id b then 0 else 1)"

text \<open>The search of the internal cache in \<open>ssl_lookup_session\<close>, with its comparison of a key and a session.\<close>

definition lookup_cmp :: "byte list \<Rightarrow> 'a SSL_SESSION_scheme \<Rightarrow> int" where
  "lookup_cmp key_id sess = (if key_id = session_id sess then 0 else 1)"

definition internal_lookup ::
  "('h, 'c, 'a SSL_SESSION_scheme) lhash_st \<Rightarrow> byte list \<Rightarrow> 'a SSL_SESSION_scheme option" where
  "internal_lookup sessions sid =
     (if length sid = 0 \<or> length sid > 32 then None
      else OPENSSL_lh_retrieve_key sessions sid (ssl_hash_session_id sid) lookup_cmp)"

end
