(* ===== verification/LHash_Props.thy ===== *)
theory LHash_Props
  imports LHash Bytes
begin

text \<open>
  The hash table as a set of objects with at most one per key: the contract of the table as an interface,
  the invariant of the table with its chains and cached hashes, and that every operation keeps the one and
  meets the other, through every resizing.
\<close>

subsection \<open>The interface: a table with one object per key\<close>

locale keyed_table =
  fixes eqv :: "'p \<Rightarrow> 'p \<Rightarrow> bool" and inv :: "'s \<Rightarrow> bool" and content :: "'s \<Rightarrow> 'p set"
    and lookup :: "'s \<Rightarrow> 'p \<Rightarrow> 'p option" and ins :: "'p \<Rightarrow> 's \<Rightarrow> bool \<times> 'p option \<times> 's"
    and del :: "'p \<Rightarrow> 's \<Rightarrow> 'p option \<times> 's"
  assumes eqv_refl: "eqv x x" and eqv_sym: "eqv x y \<Longrightarrow> eqv y x" and eqv_trans: "eqv x y \<Longrightarrow> eqv y z \<Longrightarrow> eqv x z"
    and one_per_key: "inv s \<Longrightarrow> x \<in> content s \<Longrightarrow> y \<in> content s \<Longrightarrow> eqv x y \<Longrightarrow> x = y"
    and lookup_iff: "inv s \<Longrightarrow> lookup s k = Some x \<longleftrightarrow> x \<in> content s \<and> eqv x k"
    and ins_ok: "inv s \<Longrightarrow> ins d s = (True, old, t) \<Longrightarrow>
      inv t \<and> old = lookup s d \<and> content t = insert d {x \<in> content s. \<not> eqv x d}"
    and ins_fail: "inv s \<Longrightarrow> ins d s = (False, old, t) \<Longrightarrow> t = s \<and> lookup s d = None"
    and del_ok: "inv s \<Longrightarrow> del k s = (old, t) \<Longrightarrow>
      inv t \<and> old = lookup s k \<and> content t = {x \<in> content s. \<not> eqv x k}"
begin

lemma lookup_cong: "inv s \<Longrightarrow> inv t \<Longrightarrow> (\<And>x. x \<in> content s \<and> eqv x k \<longleftrightarrow> x \<in> content t \<and> eqv x k') \<Longrightarrow> lookup s k = lookup t k'"
  using lookup_iff by (metis option.exhaust)

lemma eqv_other: "eqv x k \<Longrightarrow> \<not> eqv d k \<Longrightarrow> \<not> eqv x d"
  using eqv_sym[of x d] eqv_trans[of d x k] by blast

lemma lookup_ins:
  assumes "inv s" "ins d s = (True, old, t)"
  shows "lookup t k = (if eqv d k then Some d else lookup s k)"
proof (cases "eqv d k")
  case True
  then show ?thesis using ins_ok[OF assms] by (simp add: lookup_iff)
next
  case False
  have "x \<in> content t \<and> eqv x k \<longleftrightarrow> x \<in> content s \<and> eqv x k" for x
    using ins_ok[OF assms] False eqv_other[of x k d] by auto
  then show ?thesis using False lookup_cong[of t s k k] ins_ok[OF assms] assms(1) by simp
qed

lemma lookup_del:
  assumes "inv s" "del d s = (old, t)"
  shows "lookup t k = (if eqv d k then None else lookup s k)"
proof (cases "eqv d k")
  case True
  then have "\<not> (x \<in> content t \<and> eqv x k)" for x
    using del_ok[OF assms] eqv_sym[of d k] eqv_trans[of x k d] by auto
  then show ?thesis using True del_ok[OF assms] lookup_iff by (metis option.exhaust)
next
  case False
  have "x \<in> content t \<and> eqv x k \<longleftrightarrow> x \<in> content s \<and> eqv x k" for x
    using del_ok[OF assms] False eqv_other[of x k d] by auto
  then show ?thesis using False lookup_cong[of t s k k] del_ok[OF assms] assms(1) by simp
qed

end

subsection \<open>Lists of chains\<close>

lemma mset_concat_update:
  "b < length bs \<Longrightarrow> mset (concat (bs[b := c])) + mset (bs ! b) = mset (concat bs) + mset c"
proof (induction bs arbitrary: b)
  case (Cons a bs)
  then show ?case by (cases b) (auto simp: ac_simps)
qed simp

lemma chain_pos_le: "chain_pos P c \<le> length c"
  by (induction P c rule: chain_pos.induct) auto

lemma chain_pos_found: "chain_pos P c < length c \<Longrightarrow> P (it_data (c ! chain_pos P c))"
  by (induction P c rule: chain_pos.induct) (auto split: if_splits)

lemma chain_pos_end: "chain_pos P c = length c \<longleftrightarrow> (\<forall>x\<in>set c. \<not> P (it_data x))"
  by (induction P c rule: chain_pos.induct) auto

lemma length_put_item [simp]: "length (put_item n nb x) = length nb"
  by (simp add: put_item_def Let_def)

definition in_place :: "nat \<Rightarrow> 'p lhash_item_st list list \<Rightarrow> bool" where
  "in_place n bs \<longleftrightarrow> length bs = n \<and> (\<forall>b<n. \<forall>x\<in>set (bs ! b). unat (it_hash x) mod n = b)"

lemma put_item_in_place: "0 < n \<Longrightarrow> in_place n nb \<Longrightarrow> in_place n (put_item n nb x) \<and> mset (concat (put_item n nb x)) = add_mset x (mset (concat nb))"
proof -
  assume n: "0 < n" and nb: "in_place n nb"
  let ?b = "unat (it_hash x) mod n"
  have "mset (concat (nb[?b := x # nb ! ?b])) + mset (nb ! ?b) = mset (concat nb) + mset (x # nb ! ?b)"
    using n nb by (intro mset_concat_update) (simp add: in_place_def)
  then show ?thesis using n nb by (auto simp: put_item_def Let_def in_place_def nth_list_update)
qed

lemma put_chain_in_place:
  "0 < n \<Longrightarrow> in_place n nb \<Longrightarrow> in_place n (foldl (put_item n) nb c) \<and> mset (concat (foldl (put_item n) nb c)) = mset (concat nb) + mset c"
  by (induction c arbitrary: nb) (simp_all add: put_item_in_place)

lemma redistribute_in_place:
  assumes "0 < n"
  shows "in_place n (redistribute n old) \<and> mset (concat (redistribute n old)) = mset (concat old)"
proof -
  have "in_place n nb \<Longrightarrow> in_place n (foldl (foldl (put_item n)) nb old) \<and>
    mset (concat (foldl (foldl (put_item n)) nb old)) = mset (concat nb) + mset (concat old)" for nb
    by (induction old arbitrary: nb) (simp_all add: put_chain_in_place[OF assms])
  moreover have "in_place n (replicate n [])" "concat (replicate n []) = []" by (simp_all add: in_place_def)
  ultimately show ?thesis unfolding redistribute_def by (metis append_Nil mset_append)
qed

lemma in_place_update:
  assumes "in_place n bs" "\<forall>x\<in>set (concat bs). Q x" "b < n" "\<forall>x\<in>set c. unat (it_hash x) mod n = b \<and> Q x"
  shows "in_place n (bs[b := c]) \<and> (\<forall>x\<in>set (concat (bs[b := c])). Q x)"
proof -
  have "set (bs[b := c]) \<subseteq> insert c (set bs)" by (rule set_update_subset_insert)
  then show ?thesis using assms by (auto simp: in_place_def nth_list_update)
qed

lemma in_place_nth:
  assumes "in_place n bs" "\<forall>x\<in>set (concat bs). Q x" "b < n" "x \<in> set (bs ! b)"
  shows "unat (it_hash x) mod n = b \<and> Q x"
proof -
  have "bs ! b \<in> set bs" using assms(1,3) by (simp add: in_place_def)
  then show ?thesis using assms by (auto simp: in_place_def)
qed

subsection \<open>The invariant\<close>

definition items :: "('h, 'c, 'p) lhash_st \<Rightarrow> 'p multiset" where
  "items lh = image_mset it_data (mset (concat (buckets lh)))"

definition unique :: "('p \<Rightarrow> 'p \<Rightarrow> bool) \<Rightarrow> 'p multiset \<Rightarrow> bool" where
  "unique eqv M \<longleftrightarrow> (\<forall>x y. {#x, y#} \<subseteq># M \<longrightarrow> \<not> eqv x y)"

text \<open>
  At least 16 buckets, a power of two of them; every item in the bucket of its hash, which is the hash of its
  object; no two objects with the same key; and the counter is the number of items.
\<close>

definition lh_inv ::
  "('h \<Rightarrow> 'p \<Rightarrow> uint32) \<Rightarrow> ('c \<Rightarrow> 'p \<Rightarrow> 'p \<Rightarrow> int) \<Rightarrow> 'h \<Rightarrow> 'c \<Rightarrow> ('h, 'c, 'p) lhash_st \<Rightarrow> bool" where
  "lh_inv call_hash call_cmp hf cf lh \<longleftrightarrow>
     lh_hash lh = hf \<and> lh_comp lh = cf \<and> (\<exists>k. num_buckets lh = 16 * 2 ^ k) \<and>
     in_place (num_buckets lh) (buckets lh) \<and>
     (\<forall>x\<in>set (concat (buckets lh)). it_hash x = call_hash hf (it_data x)) \<and>
     unique (\<lambda>x y. call_cmp cf x y = 0) (items lh) \<and> num_items lh = size (items lh)"

lemma lh_invD:
  assumes "lh_inv ch cc hf cf lh"
  shows "lh_hash lh = hf" "lh_comp lh = cf" "in_place (num_buckets lh) (buckets lh)"
    "\<forall>x\<in>set (concat (buckets lh)). it_hash x = ch hf (it_data x)"
    "unique (\<lambda>x y. cc cf x y = 0) (items lh)" "num_items lh = size (items lh)" "length (buckets lh) = num_buckets lh"
  using assms by (simp_all add: lh_inv_def in_place_def)

lemma items_num [simp]: "items (lh\<lparr>num_items := n\<rparr>) = items lh" "items (lh\<lparr>buckets := bs, num_items := n\<rparr>) = items (lh\<lparr>buckets := bs\<rparr>)"
  by (simp_all add: items_def)

text \<open>Changing one chain.\<close>

lemma lh_inv_update:
  assumes inv: "lh_inv ch cc hf cf lh" and b: "b < length (buckets lh)"
    and c: "\<And>x. x \<in> set c \<Longrightarrow> x \<in> set (buckets lh ! b) \<or> it_hash x = ch hf (it_data x) \<and> unat (it_hash x) mod num_buckets lh = b"
    and u: "unique (\<lambda>x y. cc cf x y = 0) (items (lh\<lparr>buckets := (buckets lh)[b := c]\<rparr>))"
      "n = size (items (lh\<lparr>buckets := (buckets lh)[b := c]\<rparr>))"
  shows "lh_inv ch cc hf cf (lh\<lparr>buckets := (buckets lh)[b := c], num_items := n\<rparr>)"
proof -
  note d = lh_invD[OF inv]
  have n: "b < num_buckets lh" using b d(7) by simp
  have "\<forall>x\<in>set c. unat (it_hash x) mod num_buckets lh = b \<and> it_hash x = ch hf (it_data x)"
    using c in_place_nth[OF d(3,4) n] by blast
  from in_place_update[OF d(3,4) n this] show ?thesis
    using inv u unfolding lh_inv_def by simp
qed

lemma lh_inv_pos: "lh_inv ch cc hf cf lh \<Longrightarrow> 0 < num_buckets lh"
  by (auto simp: lh_inv_def)

lemma lh_rebucket_inv:
  assumes "lh_inv ch cc hf cf lh" "n = 16 * 2 ^ k"
  shows "lh_inv ch cc hf cf (lh_rebucket alloc lh n) \<and> items (lh_rebucket alloc lh n) = items lh"
proof -
  have "0 < n" using assms(2) by simp
  note r = redistribute_in_place[OF this, of "buckets lh"]
  then have "set (concat (redistribute n (buckets lh))) = set (concat (buckets lh))" by (metis set_mset_mset)
  moreover have "length (concat (redistribute n (buckets lh))) = length (concat (buckets lh))" using r by (metis size_mset)
  ultimately show ?thesis using assms r unfolding lh_rebucket_def Let_def lh_inv_def items_def by auto
qed

lemma lh_maybe_resize_inv:
  assumes "lh_inv ch cc hf cf lh"
  shows "lh_inv ch cc hf cf (lh_maybe_resize alloc lh) \<and> items (lh_maybe_resize alloc lh) = items lh"
proof -
  obtain k where k: "num_buckets lh = 16 * 2 ^ k" using assms by (auto simp: lh_inv_def)
  have dbl: "(num_buckets lh * 2) mod 2 ^ 64 > num_buckets lh \<Longrightarrow> (num_buckets lh * 2) mod 2 ^ 64 = 16 * 2 ^ Suc k"
  proof -
    assume gt: "(num_buckets lh * 2) mod 2 ^ 64 > num_buckets lh"
    have "num_buckets lh * 2 = 2 ^ (k + 5)" using k by (simp add: power_add)
    then have "k + 5 < 64"
      using gt by (metis le_imp_power_dvd dvd_imp_mod_0 not_less not_less_zero)
    then have "(2::nat) ^ (k + 5) < 2 ^ 64" by (intro power_strict_increasing) simp_all
    then show ?thesis using k by (simp add: power_add)
  qed
  have half: "num_buckets lh > 16 \<Longrightarrow> \<exists>j. (if num_buckets lh div 2 < 16 then 16 else num_buckets lh div 2) = 16 * 2 ^ j"
    using k by (cases k) (auto simp: exI[of _ 0])
  show ?thesis
    using assms lh_rebucket_inv[OF assms dbl] half lh_rebucket_inv[OF assms] lh_rebucket_inv[OF assms, of 16 0]
    by (auto simp: lh_maybe_resize_def Let_def kMinNumBuckets_def)
qed

subsection \<open>The operations\<close>

text \<open>What the caller's functions have to satisfy: an equivalence, and equal hashes for equivalent objects.\<close>

locale hash_key =
  fixes call_hash :: "'h \<Rightarrow> 'p \<Rightarrow> uint32" and call_cmp :: "'c \<Rightarrow> 'p \<Rightarrow> 'p \<Rightarrow> int" and hf :: 'h and cf :: 'c
  assumes key_refl: "call_cmp cf x x = 0"
    and key_sym: "call_cmp cf x y = 0 \<Longrightarrow> call_cmp cf y x = 0"
    and key_trans: "call_cmp cf x y = 0 \<Longrightarrow> call_cmp cf y z = 0 \<Longrightarrow> call_cmp cf x z = 0"
    and key_hash: "call_cmp cf x y = 0 \<Longrightarrow> call_hash hf x = call_hash hf y"

lemma in_items: "x \<in># items lh \<longleftrightarrow> (\<exists>i\<in>set (concat (buckets lh)). x = it_data i)"
  by (auto simp: items_def)

lemma in_set_concatD: "i \<in> set (concat bs) \<Longrightarrow> \<exists>c\<in>set bs. i \<in> set c"
  by auto

lemma items_nth:
  assumes "b < length (buckets lh)" "k < length (buckets lh ! b)"
  shows "it_data (buckets lh ! b ! k) \<in># items lh"
proof -
  have "buckets lh ! b \<in> set (buckets lh)" "buckets lh ! b ! k \<in> set (buckets lh ! b)" using assms by simp_all
  then have "buckets lh ! b ! k \<in> set (concat (buckets lh))" by auto
  then show ?thesis by (auto simp: in_items)
qed

lemma items_update:
  assumes "b < length (buckets lh)"
  shows "items (lh\<lparr>buckets := (buckets lh)[b := c]\<rparr>) + image_mset it_data (mset (buckets lh ! b)) =
    items lh + image_mset it_data (mset c)"
  using arg_cong[OF mset_concat_update[OF assms, of c], of "image_mset it_data"] by (simp add: items_def)

lemma exchange_mset:
  assumes "A + B = C + add_mset d (B - {#x#})" "x \<in># B" "x \<in># C"
  shows "A = add_mset d (C - {#x#})"
proof -
  obtain B' C' where "B = add_mset x B'" "C = add_mset x C'" using assms(2,3) by (metis multi_member_split)
  then show ?thesis using assms(1) by simp
qed

lemma unique_add: "unique e M \<Longrightarrow> \<forall>x\<in>#M. \<not> e x d \<and> \<not> e d x \<Longrightarrow> unique e (add_mset d M)"
proof -
  assume u: "unique e M" and d: "\<forall>x\<in>#M. \<not> e x d \<and> \<not> e d x"
  have "\<not> e x y" if xy: "{#x, y#} \<subseteq># add_mset d M" for x y
  proof (cases "{#x, y#} \<subseteq># M")
    case False
    then have "x = d \<and> y \<in># M \<or> y = d \<and> x \<in># M"
      using xy by (auto simp: insert_subset_eq_iff subset_mset.le_add_same_cancel1 split: if_splits
          dest: in_diffD)
    then show ?thesis using d by blast
  qed (use u in \<open>auto simp: unique_def\<close>)
  then show ?thesis by (simp add: unique_def)
qed

lemma unique_diff: "unique e M \<Longrightarrow> unique e (M - N)"
  unfolding unique_def by (meson diff_subset_eq_self subset_mset.order_trans)

lemma unique_others: "unique e M \<Longrightarrow> y \<in># M \<Longrightarrow> x \<in># M - {#y#} \<Longrightarrow> \<not> e x y"
  unfolding unique_def by (metis add_mset_commute insert_subset_eq_iff single_subset_iff)

context hash_key
begin

lemma position:
  assumes inv: "lh_inv call_hash call_cmp hf cf lh"
  obtains (found) b k where "get_next_ptr_and_hash call_hash call_cmp lh d = (call_hash hf d, b, k)" "b < length (buckets lh)"
      "k < length (buckets lh ! b)" "item_at lh b k = Some (buckets lh ! b ! k)" "call_cmp cf (it_data (buckets lh ! b ! k)) d = 0"
    | (absent) b where "get_next_ptr_and_hash call_hash call_cmp lh d = (call_hash hf d, b, length (buckets lh ! b))"
      "b < length (buckets lh)" "b = unat (call_hash hf d) mod num_buckets lh"
      "item_at lh b (length (buckets lh ! b)) = None" "\<forall>x\<in>#items lh. call_cmp cf x d \<noteq> 0"
proof -
  let ?b = "unat (call_hash hf d) mod num_buckets lh" and ?P = "\<lambda>x. call_cmp cf x d = 0"
  let ?k = "chain_pos ?P (buckets lh ! ?b)"
  have run: "get_next_ptr_and_hash call_hash call_cmp lh d = (call_hash hf d, ?b, ?k)"
    using inv by (simp add: get_next_ptr_and_hash_def Let_def lh_inv_def)
  have len: "length (buckets lh) = num_buckets lh" using inv by (simp add: lh_inv_def in_place_def)
  have b: "?b < length (buckets lh)" using lh_inv_pos[OF inv] len by simp
  show ?thesis
  proof (cases "?k < length (buckets lh ! ?b)")
    case True
    then show ?thesis using found[OF run b True] chain_pos_found[OF True] by (simp add: item_at_def)
  next
    case False
    then have k: "?k = length (buckets lh ! ?b)" using chain_pos_le[of ?P "buckets lh ! ?b"] by simp
    have "call_cmp cf x d \<noteq> 0" if x: "x \<in># items lh" for x
    proof
      assume eq: "call_cmp cf x d = 0"
      obtain i where i: "i \<in> set (concat (buckets lh))" "x = it_data i" using x by (auto simp: in_items)
      then obtain c where c: "c < num_buckets lh" "i \<in> set (buckets lh ! c)" using in_set_concatD len by (metis in_set_conv_nth)
      have "c = unat (it_hash i) mod num_buckets lh" "it_hash i = call_hash hf x"
        using inv i c by (auto simp: lh_inv_def in_place_def)
      then have "c = ?b" using key_hash[OF eq] by simp
      then show False using k c(2) eq i(2) chain_pos_end[of ?P "buckets lh ! ?b"] by blast
    qed
    then show ?thesis using absent[of ?b] run b k by (simp add: item_at_def)
  qed
qed

lemma retrieve_iff:
  assumes inv: "lh_inv call_hash call_cmp hf cf lh"
  shows "OPENSSL_lh_retrieve call_hash call_cmp lh d = Some x \<longleftrightarrow> x \<in># items lh \<and> call_cmp cf x d = 0"
  using inv
proof (cases rule: position[where d = d])
  case (found b k)
  let ?i = "buckets lh ! b ! k"
  have run: "OPENSSL_lh_retrieve call_hash call_cmp lh d = Some (it_data ?i)"
    using found by (simp add: OPENSSL_lh_retrieve_def)
  have mem: "it_data ?i \<in># items lh" using found(2,3) by (rule items_nth)
  have "x = it_data ?i" if "x \<in># items lh" "call_cmp cf x d = 0"
  proof (rule ccontr)
    assume "x \<noteq> it_data ?i"
    then have "x \<in># items lh - {#it_data ?i#}" using that(1) by (simp add: in_diff_count)
    then have "call_cmp cf x (it_data ?i) \<noteq> 0" using unique_others[OF lh_invD(5)[OF inv] mem] by blast
    then show False using that(2) key_sym[OF found(5)] key_trans[of x d "it_data ?i"] by blast
  qed
  then show ?thesis using run mem found(5) by auto
next
  case (absent b)
  then show ?thesis by (auto simp: OPENSSL_lh_retrieve_def)
qed

text \<open>Replacing the object of a position.\<close>

lemma replace_inv:
  assumes inv: "lh_inv call_hash call_cmp hf cf lh" and b: "b < length (buckets lh)" "k < length (buckets lh ! b)"
    and i: "i = buckets lh ! b ! k" and eq: "call_cmp cf (it_data i) d = 0"
    and t: "t = lh\<lparr>buckets := (buckets lh)[b := (buckets lh ! b)[k := i\<lparr>it_data := d\<rparr>]]\<rparr>"
  shows "lh_inv call_hash call_cmp hf cf t \<and> items t = add_mset d (items lh - {#it_data i#})"
proof -
  let ?c = "(buckets lh ! b)[k := i\<lparr>it_data := d\<rparr>]"
  note dd = lh_invD[OF inv]
  have mem: "it_data i \<in># items lh" unfolding i using b by (rule items_nth)
  have ib: "i \<in> set (buckets lh ! b)" using b(2) i by simp
  have m: "image_mset it_data (mset ?c) = add_mset d (image_mset it_data (mset (buckets lh ! b)) - {#it_data i#})"
    using b(2) ib i by (simp add: mset_update image_mset_Diff)
  have it: "items t = add_mset d (items lh - {#it_data i#})"
    using items_update[OF b(1), of ?c] mem ib unfolding t m by (intro exchange_mset[where B = "image_mset it_data (mset (buckets lh ! b))"]) simp_all
  have others: "call_cmp cf x d \<noteq> 0 \<and> call_cmp cf d x \<noteq> 0" if "x \<in># items lh - {#it_data i#}" for x
    using unique_others[OF dd(5) mem that] eq key_sym[of x d] key_sym[of d x] key_sym[OF eq] key_trans[of x d "it_data i"] by blast
  have u: "unique (\<lambda>x y. call_cmp cf x y = 0) (items t)"
    unfolding it using dd(5) others by (intro unique_add unique_diff) auto
  have h: "it_hash i = call_hash hf (it_data i)" "unat (it_hash i) mod num_buckets lh = b"
    using in_place_nth[OF dd(3,4) _ ib] b(1) dd(7) by auto
  have "lh_inv call_hash call_cmp hf cf (lh\<lparr>buckets := (buckets lh)[b := ?c], num_items := num_items lh\<rparr>)"
  proof (rule lh_inv_update[OF inv b(1)])
    show "x \<in> set (buckets lh ! b) \<or> it_hash x = call_hash hf (it_data x) \<and> unat (it_hash x) mod num_buckets lh = b"
      if "x \<in> set ?c" for x
      using that h key_hash[OF eq] subsetD[OF set_update_subset_insert that] by auto
    show "num_items lh = size (items (lh\<lparr>buckets := (buckets lh)[b := ?c]\<rparr>))"
      using it mem dd(6) unfolding t by (simp add: size_Diff_singleton) (metis Suc_pred nonempty_has_size empty_not_add_mset multi_member_split)
  qed (use u t in simp)
  moreover have "lh\<lparr>buckets := (buckets lh)[b := ?c], num_items := num_items lh\<rparr> = t" unfolding t by simp
  ultimately show ?thesis using it by simp
qed

text \<open>Appending a new object to the chain of its hash.\<close>

lemma append_inv:
  assumes inv: "lh_inv call_hash call_cmp hf cf lh" and b: "b < length (buckets lh)"
    and hash: "b = unat (call_hash hf d) mod num_buckets lh" and abs: "\<forall>x\<in>#items lh. call_cmp cf x d \<noteq> 0"
    and t: "t = lh\<lparr>buckets := (buckets lh)[b := buckets lh ! b @ [\<lparr>it_data = d, it_hash = call_hash hf d\<rparr>]],
      num_items := num_items lh + 1\<rparr>"
  shows "lh_inv call_hash call_cmp hf cf t \<and> items t = add_mset d (items lh)"
proof -
  let ?c = "buckets lh ! b @ [\<lparr>it_data = d, it_hash = call_hash hf d\<rparr>]"
  have it: "items (lh\<lparr>buckets := (buckets lh)[b := ?c]\<rparr>) = add_mset d (items lh)"
    using items_update[OF b, of ?c] by simp
  have "\<forall>x\<in>#items lh. call_cmp cf x d \<noteq> 0 \<and> call_cmp cf d x \<noteq> 0" using abs key_sym by blast
  then have u: "unique (\<lambda>x y. call_cmp cf x y = 0) (add_mset d (items lh))"
    using lh_invD(5)[OF inv] by (intro unique_add)
  have "lh_inv call_hash call_cmp hf cf t"
    unfolding t
  proof (rule lh_inv_update[OF inv b])
    show "x \<in> set (buckets lh ! b) \<or> it_hash x = call_hash hf (it_data x) \<and> unat (it_hash x) mod num_buckets lh = b"
      if "x \<in> set ?c" for x
      using that hash by auto
  qed (use u it lh_invD(6)[OF inv] in simp_all)
  then show ?thesis using it t by simp
qed

text \<open>Unlinking an item.\<close>

lemma unlink_inv:
  assumes inv: "lh_inv call_hash call_cmp hf cf lh" and b: "b < length (buckets lh)" "k < length (buckets lh ! b)"
    and t: "t = lh\<lparr>buckets := (buckets lh)[b := take k (buckets lh ! b) @ drop (k + 1) (buckets lh ! b)],
      num_items := num_items lh - 1\<rparr>"
  shows "lh_inv call_hash call_cmp hf cf t \<and> items t = items lh - {#it_data (buckets lh ! b ! k)#}"
proof -
  let ?c = "take k (buckets lh ! b) @ drop (k + 1) (buckets lh ! b)" and ?i = "buckets lh ! b ! k"
  have mem: "it_data ?i \<in># items lh" using b by (rule items_nth)
  have m: "mset (buckets lh ! b) = add_mset ?i (mset ?c)"
    using b(2) by (metis Suc_eq_plus1 id_take_nth_drop mset.simps(2) mset_append union_mset_add_mset_right)
  have "add_mset (it_data ?i) (items (lh\<lparr>buckets := (buckets lh)[b := ?c]\<rparr>)) = items lh"
    using items_update[OF b(1), of ?c] unfolding m by simp
  then have it: "items (lh\<lparr>buckets := (buckets lh)[b := ?c]\<rparr>) = items lh - {#it_data ?i#}"
    by (metis add_mset_remove_trivial)
  have "lh_inv call_hash call_cmp hf cf t"
    unfolding t
  proof (rule lh_inv_update[OF inv b(1)])
    show "x \<in> set (buckets lh ! b) \<or> it_hash x = call_hash hf (it_data x) \<and> unat (it_hash x) mod num_buckets lh = b"
      if "x \<in> set ?c" for x
      using that by (auto dest: in_set_takeD in_set_dropD)
  qed (use it mem lh_invD(5,6)[OF inv] in \<open>simp_all add: unique_diff size_Diff_singleton\<close>)
  then show ?thesis using it t by simp
qed

lemma insert_inv:
  assumes inv: "lh_inv call_hash call_cmp hf cf lh"
    and run: "OPENSSL_lh_insert alloc call_hash call_cmp d lh = (ok, old, t)"
  shows "old = OPENSSL_lh_retrieve call_hash call_cmp lh d \<and>
    (if ok then lh_inv call_hash call_cmp hf cf t \<and>
       items t = add_mset d (case old of None \<Rightarrow> items lh | Some x \<Rightarrow> items lh - {#x#})
     else t = lh \<and> old = None)"
  using inv
proof (cases rule: position[where d = d])
  case (found b k)
  then show ?thesis
    using run replace_inv[OF inv found(2,3) refl found(5) refl] by (auto simp: OPENSSL_lh_insert_def OPENSSL_lh_retrieve_def Let_def)
next
  case (absent b)
  then show ?thesis
    using run lh_maybe_resize_inv[of call_hash call_cmp hf cf, where alloc = alloc] append_inv[OF inv absent(2,3,5) refl]
    by (auto simp: OPENSSL_lh_insert_def OPENSSL_lh_retrieve_def Let_def split: if_splits)
qed

lemma delete_inv:
  assumes inv: "lh_inv call_hash call_cmp hf cf lh"
    and run: "OPENSSL_lh_delete alloc call_hash call_cmp d lh = (old, t)"
  shows "old = OPENSSL_lh_retrieve call_hash call_cmp lh d \<and> lh_inv call_hash call_cmp hf cf t \<and>
    items t = (case old of None \<Rightarrow> items lh | Some x \<Rightarrow> items lh - {#x#})"
  using inv
proof (cases rule: position[where d = d])
  case (found b k)
  then show ?thesis
    using run lh_maybe_resize_inv[of call_hash call_cmp hf cf, where alloc = alloc] unlink_inv[OF inv found(2,3) refl]
    by (auto simp: OPENSSL_lh_delete_def OPENSSL_lh_retrieve_def Let_def)
next
  case (absent b)
  then show ?thesis using run inv by (auto simp: OPENSSL_lh_delete_def OPENSSL_lh_retrieve_def)
qed

end

text \<open>The hash table implements the interface, for every hash and comparison function of this kind.\<close>

lemma lookup_insert_content:
  assumes "unique e M" "\<And>x. e x x" "\<And>x y. e x y \<Longrightarrow> e y x" "\<And>x y z. e x y \<Longrightarrow> e y z \<Longrightarrow> e x z" "x \<in># M" "e x d"
  shows "set_mset (M - {#x#}) = {y \<in> set_mset M. \<not> e y d}"
proof -
  have "y \<in># M - {#x#} \<longleftrightarrow> y \<in># M \<and> \<not> e y d" for y
  proof
    assume y: "y \<in># M - {#x#}"
    then have "\<not> e y x" using unique_others[OF assms(1,5)] by blast
    then show "y \<in># M \<and> \<not> e y d" using y assms(3)[OF assms(6)] assms(4)[of y d x] by (auto dest: in_diffD)
  next
    assume y: "y \<in># M \<and> \<not> e y d"
    then have "y \<noteq> x" using assms(6) by blast
    then show "y \<in># M - {#x#}" using y by (simp add: in_diff_count)
  qed
  then show ?thesis by blast
qed

sublocale hash_key \<subseteq> keyed_table "\<lambda>x y. call_cmp cf x y = 0" "lh_inv call_hash call_cmp hf cf"
  "\<lambda>lh. set_mset (items lh)" "OPENSSL_lh_retrieve call_hash call_cmp" "OPENSSL_lh_insert alloc call_hash call_cmp"
  "OPENSSL_lh_delete alloc call_hash call_cmp" for alloc
proof (unfold_locales, goal_cases)
  case (1 x)
  show ?case by (rule key_refl)
next
  case (2 x y)
  then show ?case by (rule key_sym)
next
  case (3 x y z)
  then show ?case by (rule key_trans)
next
  case (4 s x y)
  show ?case
  proof (rule ccontr)
    assume "x \<noteq> y"
    then have "x \<in># items s - {#y#}" using 4(2) by (simp add: in_diff_count)
    then show False using unique_others[OF lh_invD(5)[OF 4(1)] 4(3)] 4(4) by blast
  qed
next
  case (5 s k x)
  then show ?case by (simp add: retrieve_iff)
next
  case (6 s d old t)
  note r = insert_inv[OF 6]
  show ?case
  proof (cases old)
    case None
    then have "\<forall>x\<in>#items s. call_cmp cf x d \<noteq> 0" using r retrieve_iff[OF 6(1), of d] by auto
    then show ?thesis using r None by auto
  next
    case (Some x)
    then have "x \<in># items s" "call_cmp cf x d = 0" using r retrieve_iff[OF 6(1), of d x] by auto
    note c = lookup_insert_content[OF lh_invD(5)[OF 6(1)] key_refl key_sym key_trans this]
    show ?thesis using r Some c by simp
  qed
next
  case (7 s d old t)
  then show ?case using insert_inv[OF 7] by auto
next
  case (8 s k old t)
  note r = delete_inv[OF 8]
  show ?case
  proof (cases old)
    case None
    then have "\<forall>x\<in>#items s. call_cmp cf x k \<noteq> 0" using r retrieve_iff[OF 8(1), of k] by auto
    then show ?thesis using r None by auto
  next
    case (Some x)
    then have "x \<in># items s" "call_cmp cf x k = 0" using r retrieve_iff[OF 8(1), of k x] by auto
    note c = lookup_insert_content[OF lh_invD(5)[OF 8(1)] key_refl key_sym key_trans this]
    show ?thesis using r Some c by simp
  qed
qed

interpretation sess: hash_key "\<lambda>f x. f x" "\<lambda>f x y. f x y" ssl_session_hash ssl_session_cmp
  by unfold_locales (auto simp: ssl_session_cmp_def ssl_session_hash_def split: if_splits)

subsection \<open>Sequences of calls\<close>

datatype 'p lh_call = Insert 'p | Delete 'p

fun lh_call1 where
  "lh_call1 alloc ch cc (Insert d) lh = (case OPENSSL_lh_insert alloc ch cc d lh of (_, _, t) \<Rightarrow> t)"
| "lh_call1 alloc ch cc (Delete d) lh = snd (OPENSSL_lh_delete alloc ch cc d lh)"

definition lh_run where
  "lh_run alloc ch cc calls lh = foldl (\<lambda>t c. lh_call1 alloc ch cc c t) lh calls"

text \<open>The specification: the object last inserted for the key and not deleted since.\<close>

fun spec_lookup :: "('p \<Rightarrow> 'p \<Rightarrow> bool) \<Rightarrow> 'p lh_call list \<Rightarrow> 'p \<Rightarrow> 'p option" where
  "spec_lookup eqv [] k = None"
| "spec_lookup eqv (Insert d # cs) k = (if eqv d k then Some d else spec_lookup eqv cs k)"
| "spec_lookup eqv (Delete d # cs) k = (if eqv d k then None else spec_lookup eqv cs k)"

context hash_key
begin

lemma new_inv: "OPENSSL_lh_new alloc hf cf = Some lh \<Longrightarrow> lh_inv call_hash call_cmp hf cf lh \<and> items lh = {#}"
  by (auto simp: OPENSSL_lh_new_def lh_inv_def in_place_def items_def kMinNumBuckets_def unique_def
      intro!: exI[of _ 0] split: if_splits)

lemma call1_step:
  assumes inv: "lh_inv call_hash call_cmp hf cf lh" and al: "alloc 24"
  shows "lh_inv call_hash call_cmp hf cf (lh_call1 alloc call_hash call_cmp c lh) \<and>
    OPENSSL_lh_retrieve call_hash call_cmp (lh_call1 alloc call_hash call_cmp c lh) k =
      (case c of Insert d \<Rightarrow> if call_cmp cf d k = 0 then Some d else OPENSSL_lh_retrieve call_hash call_cmp lh k
       | Delete d \<Rightarrow> if call_cmp cf d k = 0 then None else OPENSSL_lh_retrieve call_hash call_cmp lh k)"
proof (cases c)
  case (Insert d)
  obtain ok old t where r: "OPENSSL_lh_insert alloc call_hash call_cmp d lh = (ok, old, t)" by (metis prod_cases3)
  have "ok" using r al by (auto simp: OPENSSL_lh_insert_def Let_def split: prod.splits option.splits if_splits)
  then show ?thesis using r Insert ins_ok[OF inv] lookup_ins[OF inv] by auto
next
  case (Delete d)
  obtain old t where r: "OPENSSL_lh_delete alloc call_hash call_cmp d lh = (old, t)" by fastforce
  then show ?thesis using Delete del_ok[OF inv r] lookup_del[OF inv r] by simp
qed

lemma run_refines:
  assumes "OPENSSL_lh_new alloc hf cf = Some lh" "alloc 24"
  shows "lh_inv call_hash call_cmp hf cf (lh_run alloc call_hash call_cmp calls lh) \<and>
    OPENSSL_lh_retrieve call_hash call_cmp (lh_run alloc call_hash call_cmp calls lh) k =
      spec_lookup (\<lambda>x y. call_cmp cf x y = 0) (rev calls) k"
proof (induction calls arbitrary: k rule: rev_induct)
  case Nil
  have "OPENSSL_lh_retrieve call_hash call_cmp lh k = None"
    using new_inv[OF assms(1)] retrieve_iff[of lh k] by (metis empty_iff not_None_eq set_mset_empty)
  then show ?case using new_inv[OF assms(1)] by (simp add: lh_run_def)
next
  case (snoc c cs)
  then show ?case using call1_step[of "lh_run alloc call_hash call_cmp cs lh" alloc c k] assms(2)
    by (cases c) (simp_all add: lh_run_def)
qed

end

text \<open>
  (C21) The hash table is a map: after any sequence of \<open>OPENSSL_lh_insert\<close> and \<open>OPENSSL_lh_delete\<close> calls on a new
  table, through all the resizing they cause and whether or not the allocations for resizing succeed,
  \<open>OPENSSL_lh_retrieve\<close> returns for every key the object last inserted for it and not deleted since, and
  \<open>NULL\<close> when there is none.
\<close>
theorem lh_map:
  assumes "hash_key call_hash call_cmp hf cf" and "OPENSSL_lh_new alloc hf cf = Some lh" and "alloc 24"
  shows "OPENSSL_lh_retrieve call_hash call_cmp (lh_run alloc call_hash call_cmp calls lh) k =
    spec_lookup (\<lambda>x y. call_cmp cf x y = 0) (rev calls) k"
  using hash_key.run_refines[OF assms(1), of alloc lh calls k] assms(2,3) by blast

text \<open>The session cache, with two sessions of different identifiers.\<close>

theorem lh_map_witness:
  "\<exists>lh. OPENSSL_lh_new (\<lambda>n. n < 1000) ssl_session_hash ssl_session_cmp = Some lh \<and>
     OPENSSL_lh_retrieve (\<lambda>f x. f x) (\<lambda>f x y. f x y)
       (lh_run (\<lambda>n. n < 1000) (\<lambda>f x. f x) (\<lambda>f x y. f x y)
          [Insert \<lparr>session_id = [1]\<rparr>, Insert \<lparr>session_id = [2]\<rparr>, Delete \<lparr>session_id = [1]\<rparr>] lh) \<lparr>session_id = [2]\<rparr> =
     Some \<lparr>session_id = [2]\<rparr>"
proof -
  have new: "OPENSSL_lh_new (\<lambda>n. n < 1000) ssl_session_hash ssl_session_cmp =
    Some \<lparr>num_items = 0, buckets = replicate 16 [], num_buckets = 16, callback_depth = 0,
      lh_comp = ssl_session_cmp, lh_hash = ssl_session_hash\<rparr>"
    by (simp add: OPENSSL_lh_new_def kMinNumBuckets_def)
  show ?thesis
    by (rule exI, rule conjI[OF new], subst lh_map[OF sess.hash_key_axioms new]) (simp_all add: ssl_session_cmp_def)
qed

text \<open>
  The session cache returns a session for an identifier exactly when the table holds a session with that
  identifier: the search by key in \<open>ssl_lookup_session\<close>, with its own hash and comparison of a key, agrees
  with the functions the table was built with. Empty and overlong identifiers are never found.
\<close>
theorem session_cache_lookup:
  assumes "lh_inv (\<lambda>f x. f x) (\<lambda>f x y. f x y) ssl_session_hash ssl_session_cmp sessions"
  shows "internal_lookup sessions sid = Some s \<longleftrightarrow>
    0 < length sid \<and> length sid \<le> 32 \<and> s \<in># items sessions \<and> session_id s = sid"
proof -
  have "OPENSSL_lh_retrieve_key sessions sid (ssl_hash_session_id sid) lookup_cmp =
      OPENSSL_lh_retrieve (\<lambda>f x. f x) (\<lambda>f x y. f x y) sessions (s\<lparr>session_id := sid\<rparr>)"
  proof -
    have "(\<lambda>d. lookup_cmp sid d = 0) = (\<lambda>d. ssl_session_cmp d (s\<lparr>session_id := sid\<rparr>) = 0)"
      by (auto simp: lookup_cmp_def ssl_session_cmp_def)
    then show ?thesis
      using lh_invD(1,2)[OF assms]
      by (simp add: OPENSSL_lh_retrieve_key_def OPENSSL_lh_retrieve_def get_next_ptr_by_key_def get_next_ptr_and_hash_def
          Let_def ssl_session_hash_def)
  qed
  then show ?thesis
    using sess.retrieve_iff[OF assms, of "s\<lparr>session_id := sid\<rparr>" s]
    by (auto simp: internal_lookup_def ssl_session_cmp_def split: if_splits)
qed

subsection \<open>The load of the table\<close>

lemma lh_rebucket_num [simp]: "num_items (lh_rebucket alloc lh n) = num_items lh"
  "callback_depth (lh_rebucket alloc lh n) = callback_depth lh"
  by (simp_all add: lh_rebucket_def Let_def)

lemma rebucket_load:
  "8 * n < 2 ^ 64 \<Longrightarrow> num_buckets (lh_rebucket (\<lambda>_. True) lh n) = n"
  "num_buckets (lh_rebucket alloc lh n) = n \<or> num_buckets (lh_rebucket alloc lh n) = num_buckets lh"
  by (simp_all add: lh_rebucket_def Let_def)

lemma resize_load:
  assumes "num_items lh \<le> 3 * num_buckets lh" "num_items lh < 2 ^ 60" "16 \<le> num_buckets lh"
    "even (num_buckets lh)" "callback_depth lh = 0"
  shows "num_items (lh_maybe_resize (\<lambda>_. True) lh) = num_items lh \<and> callback_depth (lh_maybe_resize (\<lambda>_. True) lh) = 0 \<and>
    num_items lh < 3 * num_buckets (lh_maybe_resize (\<lambda>_. True) lh)"
proof -
  let ?n = "num_buckets lh" and ?m = "num_items lh"
  consider (full) "?m = 3 * ?n" | (sparse) "?m < ?n" "16 < ?n" | (keep) "?m < 3 * ?n" "\<not> (?m < ?n \<and> 16 < ?n)"
    using assms(1) by linarith
  then show ?thesis
  proof cases
    case full
    then have "?m div ?n = 3" "?n * 2 < 2 ^ 61" using assms(2,3) by simp_all
    then show ?thesis using assms(3,5) full
      by (simp add: lh_maybe_resize_def Let_def kMaxAverageChainLength_def rebucket_load)
  next
    case sparse
    then obtain k where k: "?n = 2 * k" using assms(4) by blast
    let ?t = "lh_rebucket (\<lambda>_. True) lh (if k < 16 then 16 else k)"
    have "lh_maybe_resize (\<lambda>_. True) lh = ?t"
      using sparse k assms(5)
      by (simp add: lh_maybe_resize_def kMaxAverageChainLength_def kMinAverageChainLength_def kMinNumBuckets_def)
    moreover have "num_buckets ?t = (if k < 16 then 16 else k) \<or> num_buckets ?t = ?n" by (rule rebucket_load(2))
    ultimately show ?thesis using sparse k assms(5) by (auto split: if_splits)
  next
    case keep
    then have "?m div ?n < 3" using assms(3) by (simp add: div_less_iff_less_mult)
    moreover have "\<not> (?m div ?n < 1 \<and> 16 < ?n)" using keep(2) assms(3) by (auto simp: div_eq_0_iff)
    ultimately have "lh_maybe_resize (\<lambda>_. True) lh = lh"
      using assms(5) by (auto simp: lh_maybe_resize_def Let_def kMaxAverageChainLength_def kMinAverageChainLength_def
          kMinNumBuckets_def)
    then show ?thesis using keep assms(5) by simp
  qed
qed

definition loaded :: "('h, 'c, 'p) lhash_st \<Rightarrow> bool" where
  "loaded lh \<longleftrightarrow> num_items lh < 3 * num_buckets lh \<and> callback_depth lh = 0"

context hash_key
begin

lemma inv_even: "lh_inv call_hash call_cmp hf cf lh \<Longrightarrow> 16 \<le> num_buckets lh \<and> even (num_buckets lh)"
  by (auto simp: lh_inv_def)

lemma call1_load:
  assumes inv: "lh_inv call_hash call_cmp hf cf lh" and ld: "loaded lh" and n: "num_items lh < 2 ^ 60 - 1"
  shows "loaded (lh_call1 (\<lambda>_. True) call_hash call_cmp c lh) \<and>
    num_items (lh_call1 (\<lambda>_. True) call_hash call_cmp c lh) \<le> num_items lh + 1"
proof -
  note ev = inv_even[OF inv]
  have r: "loaded (lh_maybe_resize (\<lambda>_. True) t) \<and> num_items (lh_maybe_resize (\<lambda>_. True) t) \<le> Suc (num_items lh)"
    if "num_items t \<le> Suc (num_items lh)" "num_buckets t = num_buckets lh" "callback_depth t = 0" for t
    using resize_load[of t] that ld n ev by (simp add: loaded_def)
  show ?thesis
  proof (cases c)
    case (Insert d)
    show ?thesis
      using inv
    proof (cases rule: position[where d = d])
      case (found b k)
      then show ?thesis using Insert ld by (simp add: OPENSSL_lh_insert_def Let_def loaded_def)
    next
      case (absent b)
      then show ?thesis using Insert ld by (simp add: OPENSSL_lh_insert_def Let_def) (rule r, simp_all add: loaded_def)
    qed
  next
    case (Delete d)
    show ?thesis
      using inv
    proof (cases rule: position[where d = d])
      case (found b k)
      then show ?thesis using Delete ld by (simp add: OPENSSL_lh_delete_def Let_def) (rule r, simp_all add: loaded_def)
    next
      case (absent b)
      then show ?thesis using Delete ld by (simp add: OPENSSL_lh_delete_def)
    qed
  qed
qed

lemma run_load:
  assumes "OPENSSL_lh_new (\<lambda>_. True) hf cf = Some lh" "length calls < 2 ^ 60"
  shows "loaded (lh_run (\<lambda>_. True) call_hash call_cmp calls lh) \<and>
    num_items (lh_run (\<lambda>_. True) call_hash call_cmp calls lh) \<le> length calls"
  using assms(2)
proof (induction calls rule: rev_induct)
  case Nil
  then show ?case using assms(1) by (auto simp: lh_run_def OPENSSL_lh_new_def loaded_def kMinNumBuckets_def)
next
  case (snoc c cs)
  have "lh_inv call_hash call_cmp hf cf (lh_run (\<lambda>_. True) call_hash call_cmp cs lh)"
    using run_refines[OF assms(1)] by simp
  from call1_load[OF this, of c] show ?case using snoc by (simp add: lh_run_def)
qed

end

text \<open>
  Chains stay short: when allocations succeed, after any sequence of fewer than \<open>2 ^ 60\<close> insertions and
  deletions the table holds fewer than three items per bucket on average, so resizing never falls behind.
\<close>
theorem lh_load_bound:
  assumes "hash_key call_hash call_cmp hf cf" and "OPENSSL_lh_new (\<lambda>_. True) hf cf = Some lh" and "length calls < 2 ^ 60"
  shows "num_items (lh_run (\<lambda>_. True) call_hash call_cmp calls lh) <
    3 * num_buckets (lh_run (\<lambda>_. True) call_hash call_cmp calls lh)"
  using hash_key.run_load[OF assms(1), of lh calls] assms(2,3) by (simp add: loaded_def)

lemma visit_chain: "foldl (\<lambda>st cur. add_mset (it_data cur) st) S c = S + image_mset it_data (mset c)"
  by (induction c arbitrary: S) simp_all

lemma visit_all: "foldl (foldl (\<lambda>st cur. add_mset (it_data cur) st)) S bs = S + image_mset it_data (mset (concat bs))"
  by (induction bs arbitrary: S) (simp_all add: visit_chain)

text \<open>
  \<open>OPENSSL_lh_doall_arg\<close> calls the callback on every item exactly once and leaves the contents of the table
  as they were, also when it resizes the table at the end.
\<close>
theorem lh_doall_once:
  assumes "lh_inv call_hash call_cmp hf cf lh" and "callback_depth lh < 0xfffffffe"
  shows "\<exists>t. OPENSSL_lh_doall_arg alloc add_mset lh {#} = (t, items lh) \<and>
    lh_inv call_hash call_cmp hf cf t \<and> items t = items lh \<and> callback_depth t = callback_depth lh"
proof -
  have "callback_depth lh < 0xffffffff" "callback_depth lh + 1 < 0xffffffff" "callback_depth lh + 1 - 1 = callback_depth lh"
    using assms(2) by (unat_arith, unat_arith, simp)
  then have leave: "doall_leave alloc (doall_enter lh) = lh_maybe_resize alloc lh" "buckets (doall_enter lh) = buckets lh"
    by (simp_all add: doall_leave_def doall_enter_def)
  have "callback_depth (lh_maybe_resize alloc lh) = callback_depth lh" by (simp add: lh_maybe_resize_def Let_def)
  then show ?thesis
    using lh_maybe_resize_inv[OF assms(1), of alloc] leave
    by (simp add: OPENSSL_lh_doall_arg_def Let_def visit_all items_def)
qed

text \<open>Witnesses: the session cache with one session.\<close>

definition demo_cache :: "(unit SSL_SESSION_scheme \<Rightarrow> uint32, unit SSL_SESSION_scheme \<Rightarrow> unit SSL_SESSION_scheme \<Rightarrow> int, unit SSL_SESSION_scheme) lhash_st" where
  "demo_cache = \<lparr>num_items = 1, buckets = (replicate 16 [])[7 := [\<lparr>it_data = \<lparr>session_id = [7]\<rparr>, it_hash = 7\<rparr>]], num_buckets = 16,
     callback_depth = 0, lh_comp = ssl_session_cmp, lh_hash = ssl_session_hash\<rparr>"

lemma demo_cache_inv: "lh_inv (\<lambda>f x. f x) (\<lambda>f x y. f x y) ssl_session_hash ssl_session_cmp demo_cache"
proof -
  have new: "OPENSSL_lh_new (\<lambda>_. True) ssl_session_hash ssl_session_cmp =
    Some \<lparr>num_items = 0, buckets = replicate 16 [], num_buckets = 16, callback_depth = 0,
      lh_comp = ssl_session_cmp, lh_hash = ssl_session_hash\<rparr>" (is "_ = Some ?lh")
    by (simp add: OPENSSL_lh_new_def kMinNumBuckets_def)
  have h: "ssl_session_hash \<lparr>session_id = [7]\<rparr> = 7"
    by code_simp
  have ins: "OPENSSL_lh_insert (\<lambda>_. True) (\<lambda>f x. f x) (\<lambda>f x y. f x y) \<lparr>session_id = [7]\<rparr> ?lh = (True, None, demo_cache)"
    by (simp add: OPENSSL_lh_insert_def get_next_ptr_and_hash_def item_at_def h Let_def lh_maybe_resize_def demo_cache_def
        kMaxAverageChainLength_def kMinNumBuckets_def)
  have "lh_inv (\<lambda>f x. f x) (\<lambda>f x y. f x y) ssl_session_hash ssl_session_cmp ?lh" using sess.new_inv[OF new] by blast
  from sess.insert_inv[OF this ins] show ?thesis by simp
qed

lemma demo_cache_items: "items demo_cache = {#\<lparr>session_id = [7]\<rparr>#}"
  using items_update[of 7 "\<lparr>num_items = 1, buckets = replicate 16 [], num_buckets = 16,
     callback_depth = 0, lh_comp = ssl_session_cmp, lh_hash = ssl_session_hash\<rparr>" "[\<lparr>it_data = \<lparr>session_id = [7]\<rparr>, it_hash = 7\<rparr>]"]
  by (simp add: demo_cache_def items_def)

theorem session_cache_lookup_witness:
  "internal_lookup demo_cache [7] = Some \<lparr>session_id = [7]\<rparr>"
  using session_cache_lookup[OF demo_cache_inv, of "[7]" "\<lparr>session_id = [7]\<rparr>"] by (simp add: demo_cache_items)

theorem lh_load_bound_witness:
  "\<exists>lh. OPENSSL_lh_new (\<lambda>_. True) ssl_session_hash ssl_session_cmp = Some lh \<and>
     num_items (lh_run (\<lambda>_. True) (\<lambda>f x. f x) (\<lambda>f x y. f x y) [Insert \<lparr>session_id = [1]\<rparr>] lh) <
     3 * num_buckets (lh_run (\<lambda>_. True) (\<lambda>f x. f x) (\<lambda>f x y. f x y) [Insert \<lparr>session_id = [1]\<rparr>] lh)"
proof -
  have new: "OPENSSL_lh_new (\<lambda>_. True) ssl_session_hash ssl_session_cmp =
    Some \<lparr>num_items = 0, buckets = replicate 16 [], num_buckets = 16, callback_depth = 0,
      lh_comp = ssl_session_cmp, lh_hash = ssl_session_hash\<rparr>"
    by (simp add: OPENSSL_lh_new_def kMinNumBuckets_def)
  show ?thesis by (rule exI, rule conjI[OF new], rule lh_load_bound[OF sess.hash_key_axioms new]) simp
qed

theorem lh_doall_once_witness:
  "\<exists>t. OPENSSL_lh_doall_arg (\<lambda>_. True) add_mset demo_cache {#} = (t, {#\<lparr>session_id = [7]\<rparr>#})"
proof -
  have "callback_depth demo_cache < 0xfffffffe" by (simp add: demo_cache_def)
  then show ?thesis using lh_doall_once[OF demo_cache_inv, of "\<lambda>_. True"] by (auto simp: demo_cache_items)
qed

end
