(* ===== verification/ConstantTime.thy ===== *)
theory ConstantTime
  imports Bytes
begin

text \<open>
  The constant-time helpers of \<open>crypto/internal.h\<close>, on the 64-bit \<open>crypto_word_t\<close>: comparisons that return a
  mask of ones or zeros without branching, and selection by such a mask. Each is shown equal to the
  conditional expression it stands for. The value barriers return their argument; that the compiled code
  runs in constant time is not a statement about values and is not modelled.
\<close>

type_synonym crypto_word = uint64

definition CONSTTIME_TRUE_W :: crypto_word where
  "CONSTTIME_TRUE_W = NOT 0"

definition value_barrier_w :: "crypto_word \<Rightarrow> crypto_word" where
  "value_barrier_w a = a"

definition constant_time_msb_w :: "crypto_word \<Rightarrow> crypto_word" where
  "constant_time_msb_w a = 0 - drop_bit 63 a"

definition constant_time_lt_w :: "crypto_word \<Rightarrow> crypto_word \<Rightarrow> crypto_word" where
  "constant_time_lt_w a b = constant_time_msb_w (a XOR ((a XOR b) OR ((a - b) XOR a)))"

definition constant_time_lt_8 :: "crypto_word \<Rightarrow> crypto_word \<Rightarrow> byte" where
  "constant_time_lt_8 a b = ucast (constant_time_lt_w a b)"

definition constant_time_ge_w :: "crypto_word \<Rightarrow> crypto_word \<Rightarrow> crypto_word" where
  "constant_time_ge_w a b = NOT (constant_time_lt_w a b)"

definition constant_time_ge_8 :: "crypto_word \<Rightarrow> crypto_word \<Rightarrow> byte" where
  "constant_time_ge_8 a b = ucast (constant_time_ge_w a b)"

definition constant_time_is_zero_w :: "crypto_word \<Rightarrow> crypto_word" where
  "constant_time_is_zero_w a = constant_time_msb_w (NOT a AND (a - 1))"

definition constant_time_is_zero_8 :: "crypto_word \<Rightarrow> byte" where
  "constant_time_is_zero_8 a = ucast (constant_time_is_zero_w a)"

definition constant_time_eq_w :: "crypto_word \<Rightarrow> crypto_word \<Rightarrow> crypto_word" where
  "constant_time_eq_w a b = constant_time_is_zero_w (a XOR b)"

definition constant_time_eq_8 :: "crypto_word \<Rightarrow> crypto_word \<Rightarrow> byte" where
  "constant_time_eq_8 a b = ucast (constant_time_eq_w a b)"

text \<open>\<open>int\<close> arguments are 32 bits wide and sign-extended by the cast.\<close>

definition constant_time_eq_int :: "32 word \<Rightarrow> 32 word \<Rightarrow> crypto_word" where
  "constant_time_eq_int a b = constant_time_eq_w (scast a) (scast b)"

definition constant_time_eq_int_8 :: "32 word \<Rightarrow> 32 word \<Rightarrow> byte" where
  "constant_time_eq_int_8 a b = constant_time_eq_8 (scast a) (scast b)"

definition constant_time_select_w :: "crypto_word \<Rightarrow> crypto_word \<Rightarrow> crypto_word \<Rightarrow> crypto_word" where
  "constant_time_select_w msk a b = (let m = value_barrier_w msk in (m AND a) OR (NOT m AND b))"

definition constant_time_select_8 :: "crypto_word \<Rightarrow> byte \<Rightarrow> byte \<Rightarrow> byte" where
  "constant_time_select_8 msk a b = (let m = ucast (value_barrier_w msk) in (m AND a) OR (NOT m AND b))"

definition constant_time_select_int :: "crypto_word \<Rightarrow> 32 word \<Rightarrow> 32 word \<Rightarrow> 32 word" where
  "constant_time_select_int msk a b = ucast (constant_time_select_w msk (scast a) (scast b))"

definition constant_time_conditional_memcpy :: "byte list \<Rightarrow> byte list \<Rightarrow> crypto_word \<Rightarrow> byte list" where
  "constant_time_conditional_memcpy dst src msk = map2 (\<lambda>i o'. constant_time_select_8 msk i o') src dst"

definition constant_time_conditional_memxor :: "byte list \<Rightarrow> byte list \<Rightarrow> crypto_word \<Rightarrow> byte list" where
  "constant_time_conditional_memxor dst src msk =
     map2 (\<lambda>o' i. o' XOR ucast (value_barrier_w msk AND ucast i)) dst src"

definition constant_time_declassify_w :: "crypto_word \<Rightarrow> crypto_word" where
  "constant_time_declassify_w v = value_barrier_w v"

subsection \<open>What they compute\<close>

lemma unat_div_63: "unat (a :: crypto_word) div 2 ^ 63 = (if 2 ^ 63 \<le> unat a then 1 else 0)"
  using u64_lt[of a] by (auto intro!: div_nat_eqI)

lemma msb_63: "bit (a :: crypto_word) 63 \<longleftrightarrow> 2 ^ 63 \<le> unat a"
proof -
  have "bit a 63 = bit (unat a) 63" by (simp add: bit_unsigned_iff)
  also have "\<dots> = odd (unat a div 2 ^ 63)" by (rule bit_iff_odd)
  finally show ?thesis unfolding unat_div_63 by simp
qed

lemma constant_time_msb: "constant_time_msb_w a = (if bit a 63 then CONSTTIME_TRUE_W else 0)"
proof -
  have "drop_bit 63 a = (if bit a 63 then 1 else 0)"
    unfolding word_unat_eq_iff unat_drop_bit unat_div_63 msb_63 by simp
  then show ?thesis by (simp add: constant_time_msb_w_def CONSTTIME_TRUE_W_def)
qed

lemma sub_msb:
  assumes "bit a 63 = bit b 63"
  shows "bit (a - b :: crypto_word) 63 \<longleftrightarrow> a < b"
proof (cases "b \<le> a")
  case True
  then have "unat (a - b) = unat a - unat b" by (rule unat_sub)
  then have "\<not> 2 ^ 63 \<le> unat (a - b)" using assms u64_lt[of a] u64_lt[of b] unfolding msb_63 by auto
  then show ?thesis using True by (simp add: msb_63)
next
  case False
  then have "unat (a - b) = unat a + 2 ^ 64 - unat b" by (simp add: unat_sub_if' word_le_nat_alt word_size)
  then show ?thesis using assms False u64_lt[of a] u64_lt[of b] unfolding msb_63 by (auto simp: word_le_nat_alt word_less_nat_alt)
qed

lemma constant_time_lt: "constant_time_lt_w a b = (if a < b then CONSTTIME_TRUE_W else 0)"
proof -
  have "bit (a XOR ((a XOR b) OR ((a - b) XOR a))) 63 \<longleftrightarrow> a < b"
  proof (cases "bit a 63 = bit b 63")
    case True
    then show ?thesis using sub_msb[OF True] by (auto simp: bit_simps)
  next
    case False
    then have "a < b \<longleftrightarrow> bit b 63" unfolding msb_63 word_less_nat_alt by auto
    then show ?thesis using False by (auto simp: bit_simps)
  qed
  then show ?thesis by (simp add: constant_time_lt_w_def constant_time_msb)
qed

lemma constant_time_is_zero: "constant_time_is_zero_w a = (if a = 0 then CONSTTIME_TRUE_W else 0)"
proof -
  have "bit (NOT a AND (a - 1)) 63 \<longleftrightarrow> a = 0"
  proof (cases "a = 0")
    case False
    then have "unat (a - 1) = unat a - 1" by (simp add: unat_minus_one)
    then have "bit (a - 1) 63 \<Longrightarrow> bit a 63" unfolding msb_63 by simp
    then show ?thesis using False by (auto simp: bit_simps)
  qed (simp add: bit_simps)
  then show ?thesis by (simp add: constant_time_is_zero_w_def constant_time_msb)
qed

lemma constant_time_eq: "constant_time_eq_w a b = (if a = b then CONSTTIME_TRUE_W else 0)"
proof -
  have "a XOR b = 0 \<longleftrightarrow> a = b" by (auto simp: bit_eq_iff bit_simps)
  then show ?thesis by (simp add: constant_time_eq_w_def constant_time_is_zero)
qed

lemma byte_ones: "(0xff :: byte) = - 1" "ucast CONSTTIME_TRUE_W = (- 1 :: byte)"
  by code_simp+

lemma constant_time_eq8: "constant_time_eq_8 a b = (if a = b then 0xff else 0)"
  by (simp add: constant_time_eq_8_def constant_time_eq byte_ones)

lemma constant_time_select8:
  "constant_time_select_8 0 a b = b" "ucast msk = (- 1 :: byte) \<Longrightarrow> constant_time_select_8 msk a b = a"
  by (simp_all add: constant_time_select_8_def value_barrier_w_def Let_def)

lemma constant_time_select:
  "constant_time_select_w CONSTTIME_TRUE_W a b = a" "constant_time_select_w 0 a b = b"
  by (simp_all add: constant_time_select_w_def CONSTTIME_TRUE_W_def value_barrier_w_def Let_def)

lemma ucast_scast_32: "ucast (scast (a :: 32 word) :: crypto_word) = a"
proof (rule bit_word_eqI)
  fix n :: nat assume "n < LENGTH(32)"
  then have "n = 31 \<or> n < 31" by auto
  then show "bit (ucast (scast a :: crypto_word) :: 32 word) n = bit a n" by (auto simp: bit_simps)
qed

lemma map2_fst: "length xs = length ys \<Longrightarrow> map2 (\<lambda>x y. x) xs ys = xs"
  by (induction xs ys rule: list_induct2) simp_all

lemma map2_snd: "length xs = length ys \<Longrightarrow> map2 (\<lambda>x y. y) xs ys = ys"
  by (induction xs ys rule: list_induct2) simp_all

lemma scast_inj: "(scast (a :: 32 word) :: crypto_word) = scast b \<longleftrightarrow> a = b"
proof
  assume "(scast a :: crypto_word) = scast b"
  then have "(ucast (scast a :: crypto_word) :: 32 word) = ucast (scast b :: crypto_word)" by simp
  then show "a = b" by (simp add: ucast_scast_32)
qed simp

text \<open>
  The branch-free formulas compute what their names say, on all inputs: the comparisons give a mask of
  ones when the relation holds and of zeros when it does not, selection by such a mask returns the first or
  the second value, and the conditional copy leaves the source or the old contents of the destination.
\<close>
theorem constant_time_correct:
  "constant_time_lt_w a b = (if a < b then NOT 0 else 0) \<and>
   constant_time_ge_w a b = (if b \<le> a then NOT 0 else 0) \<and>
   constant_time_is_zero_w a = (if a = 0 then NOT 0 else 0) \<and>
   constant_time_eq_w a b = (if a = b then NOT 0 else 0) \<and>
   constant_time_eq_int i j = (if i = j then NOT 0 else 0) \<and>
   constant_time_select_w (if c then NOT 0 else 0) a b = (if c then a else b) \<and>
   constant_time_select_8 (if c then NOT 0 else 0) x y = (if c then x else y) \<and>
   (length src = length dst \<longrightarrow> constant_time_conditional_memcpy dst src (if c then NOT 0 else 0) = (if c then src else dst))"
proof (intro conjI impI)
  show "constant_time_ge_w a b = (if b \<le> a then NOT 0 else 0)"
    by (auto simp: constant_time_ge_w_def constant_time_lt CONSTTIME_TRUE_W_def)
  show "constant_time_eq_int i j = (if i = j then NOT 0 else 0)"
    by (simp add: constant_time_eq_int_def constant_time_eq CONSTTIME_TRUE_W_def scast_inj)
  have sel8: "constant_time_select_8 (if c then NOT 0 else 0) x y = (if c then x else y)" for x y
    using byte_ones(2) by (simp add: constant_time_select8 CONSTTIME_TRUE_W_def)
  then show "constant_time_select_8 (if c then NOT 0 else 0) x y = (if c then x else y)" .
  assume "length src = length dst"
  then show "constant_time_conditional_memcpy dst src (if c then NOT 0 else 0) = (if c then src else dst)"
    unfolding constant_time_conditional_memcpy_def sel8 by (auto simp: map2_fst map2_snd)
qed (simp_all add: constant_time_lt constant_time_is_zero constant_time_eq CONSTTIME_TRUE_W_def
    constant_time_select_w_def value_barrier_w_def)

theorem constant_time_correct_witness:
  "constant_time_conditional_memcpy [1, 2] [3, 4] (if True then NOT 0 else 0) = [3, 4]"
  using constant_time_correct[of _ _ _ _ True _ _ "[3, 4]" "[1, 2]"] by simp

end
