(* ===== verification/Base64.thy ===== *)
theory Base64
  imports ConstantTime
begin

text \<open>
  Base64 encoding and decoding, \<open>crypto/base64/base64.cc\<close>: the constant-time character maps, the one-shot
  functions and the incremental ones with their context. Output is the list of bytes written; the
  terminating \<open>NUL\<close> that the encoder puts after its text is not part of the list of the incremental
  functions. \<open>size_t\<close> is \<open>nat\<close> with the wrap-around of the checked computations written out.
\<close>

subsection \<open>Characters\<close>

definition constant_time_lt_args_8 :: "byte \<Rightarrow> byte \<Rightarrow> byte" where
  "constant_time_lt_args_8 a b = ucast (constant_time_msb_w (ucast a - ucast b))"

definition constant_time_in_range_8 :: "byte \<Rightarrow> byte \<Rightarrow> byte \<Rightarrow> byte" where
  "constant_time_in_range_8 a lo hi = constant_time_lt_args_8 (a - lo) (hi - lo + 1)"

definition conv_bin2ascii :: "byte \<Rightarrow> byte" where
  "conv_bin2ascii a0 =
     (let a = a0 AND 0x3f;
          ret1 = constant_time_select_8 (ucast (constant_time_eq_8 (ucast a) 62)) 0x2b 0x2f;
          ret2 = constant_time_select_8 (ucast (constant_time_lt_args_8 a 62)) (a - 52 + 0x30) ret1;
          ret3 = constant_time_select_8 (ucast (constant_time_lt_args_8 a 52)) (a - 26 + 0x61) ret2
      in constant_time_select_8 (ucast (constant_time_lt_args_8 a 26)) (a + 0x41) ret3)"

definition base64_ascii_to_bin :: "byte \<Rightarrow> byte" where
  "base64_ascii_to_bin a =
     (let is_upper = constant_time_in_range_8 a 0x41 0x5a;
          is_lower = constant_time_in_range_8 a 0x61 0x7a;
          is_digit = constant_time_in_range_8 a 0x30 0x39;
          is_plus = constant_time_eq_8 (ucast a) 0x2b;
          is_slash = constant_time_eq_8 (ucast a) 0x2f;
          is_equals = constant_time_eq_8 (ucast a) 0x3d;
          ret = (is_upper AND (a - 0x41)) OR (is_lower AND (a - 0x61 + 26)) OR (is_digit AND (a - 0x30 + 52))
                OR (is_plus AND 62) OR (is_slash AND 63);
          is_valid = is_upper OR is_lower OR is_digit OR is_plus OR is_slash OR is_equals
      in ret OR NOT is_valid)"

subsection \<open>Encoding\<close>

definition EVP_EncodedLength :: "nat \<Rightarrow> nat option" where
  "EVP_EncodedLength len0 =
     (if (len0 + 2) mod 2 ^ 64 < len0 then None
      else let len = (len0 + 2) div 3 in
           if (len * 4) mod 2 ^ 64 div 4 \<noteq> len then None
           else let len4 = len * 4 in if (len4 + 1) mod 2 ^ 64 < len4 then None else Some (len4 + 1))"

fun encode_loop :: "byte list \<Rightarrow> byte list" where
  "encode_loop [] = []"
| "encode_loop [s0] =
     (let l = push_bit 16 (ucast s0) :: uint32
      in [conv_bin2ascii (ucast (drop_bit 18 l)), conv_bin2ascii (ucast (drop_bit 12 l)), 0x3d, 0x3d])"
| "encode_loop [s0, s1] =
     (let l = push_bit 16 (ucast s0) OR push_bit 8 (ucast s1) :: uint32
      in [conv_bin2ascii (ucast (drop_bit 18 l)), conv_bin2ascii (ucast (drop_bit 12 l)),
          conv_bin2ascii (ucast (drop_bit 6 l)), 0x3d])"
| "encode_loop (s0 # s1 # s2 # src) =
     (let l = push_bit 16 (ucast s0) OR push_bit 8 (ucast s1) OR ucast s2 :: uint32
      in conv_bin2ascii (ucast (drop_bit 18 l)) # conv_bin2ascii (ucast (drop_bit 12 l)) #
         conv_bin2ascii (ucast (drop_bit 6 l)) # conv_bin2ascii (ucast l) # encode_loop src)"

text \<open>What is written to \<open>dst\<close>, with the final \<open>NUL\<close>, and the return value.\<close>

definition EVP_EncodeBlock :: "byte list \<Rightarrow> byte list \<times> nat" where
  "EVP_EncodeBlock src = (encode_loop src @ [0], length (encode_loop src))"

record evp_encode_ctx_st =
  data_used :: nat
  ctx_data :: "byte list"
  eof_seen :: bool
  error_encountered :: bool

definition EVP_EncodeInit :: evp_encode_ctx_st where
  "EVP_EncodeInit = \<lparr>data_used = 0, ctx_data = replicate 48 0, eof_seen = False, error_encountered = False\<rparr>"

text \<open>\<open>memcpy\<close> into the context's buffer.\<close>

definition put_data :: "nat \<Rightarrow> byte list \<Rightarrow> byte list \<Rightarrow> byte list" where
  "put_data p bs d = take p d @ bs @ drop (p + length bs) d"

text \<open>
  The loop over whole lines of 48 bytes; \<open>None\<close> is the early return when \<open>total\<close> would wrap.
\<close>

function encode_lines :: "nat \<Rightarrow> byte list \<Rightarrow> byte list \<Rightarrow> byte list \<times> (nat \<times> byte list) option" where
  "encode_lines tot out inp =
     (if length inp \<ge> 48 then
        let text = encode_loop (take 48 inp); encoded = length text; out' = out @ text @ [0x0a] in
        if (tot + encoded + 1) mod 2 ^ 64 < tot then (out', None)
        else encode_lines (tot + encoded + 1) out' (drop 48 inp)
      else (out, Some (tot, inp)))"
  by pat_completeness auto
termination by (relation "measure (\<lambda>(_, _, inp). length inp)") auto

text \<open>The text written, \<open>*out_len\<close> and the context.\<close>

definition EVP_EncodeUpdate :: "byte list \<Rightarrow> evp_encode_ctx_st \<Rightarrow> byte list \<times> nat \<times> evp_encode_ctx_st" where
  "EVP_EncodeUpdate inp ctx =
     (if length inp = 0 then ([], 0, ctx)
      else if 48 - data_used ctx > length inp then
        ([], 0, ctx\<lparr>ctx_data := put_data (data_used ctx) inp (ctx_data ctx), data_used := data_used ctx + length inp\<rparr>)
      else
        let todo = 48 - data_used ctx;
            data1 = put_data (data_used ctx) (take todo inp) (ctx_data ctx);
            text1 = encode_loop data1;
            (out1, total1, inp1, ctx1) =
              (if data_used ctx \<noteq> 0
               then (text1 @ [0x0a], length text1 + 1, drop todo inp, ctx\<lparr>ctx_data := data1, data_used := 0\<rparr>)
               else ([], 0, inp, ctx))
        in case encode_lines total1 out1 inp1 of
             (out, None) \<Rightarrow> (out, 0, ctx1)
           | (out, Some (tot, rest)) \<Rightarrow>
               (out, if tot > 2147483647 then 0 else tot,
                ctx1\<lparr>ctx_data := put_data 0 rest (ctx_data ctx1), data_used := length rest\<rparr>))"

definition EVP_EncodeFinal :: "evp_encode_ctx_st \<Rightarrow> byte list \<times> nat \<times> evp_encode_ctx_st" where
  "EVP_EncodeFinal ctx =
     (if data_used ctx = 0 then ([], 0, ctx)
      else let text = encode_loop (take (data_used ctx) (ctx_data ctx))
           in (text @ [0x0a], length text + 1, ctx\<lparr>data_used := 0\<rparr>))"

subsection \<open>Decoding\<close>

definition EVP_DecodedLength :: "nat \<Rightarrow> nat option" where
  "EVP_DecodedLength len = (if len mod 4 \<noteq> 0 then None else Some (len div 4 * 3))"

definition EVP_DecodeInit :: evp_encode_ctx_st where
  "EVP_DecodeInit = \<lparr>data_used = 0, ctx_data = replicate 48 0, eof_seen = False, error_encountered = False\<rparr>"

text \<open>The bytes one quad decodes to, \<open>None\<close> for the return value 0.\<close>

definition base64_decode_quad :: "byte \<Rightarrow> byte \<Rightarrow> byte \<Rightarrow> byte \<Rightarrow> byte list option" where
  "base64_decode_quad in0 in1 in2 in3 =
     (let a = base64_ascii_to_bin in0; b = base64_ascii_to_bin in1;
          c = base64_ascii_to_bin in2; d = base64_ascii_to_bin in3 in
      if a = 0xff \<or> b = 0xff \<or> c = 0xff \<or> d = 0xff then None
      else
        let v = push_bit 18 (ucast a) OR push_bit 12 (ucast b) OR push_bit 6 (ucast c) OR ucast d :: uint32;
            padding_pattern = (if in0 = 0x3d then 8 else 0) + (if in1 = 0x3d then 4 else 0)
                              + (if in2 = 0x3d then 2 else 0) + (if in3 = 0x3d then 1 else (0 :: nat))
        in if padding_pattern = 0 then Some [ucast (drop_bit 16 v), ucast (drop_bit 8 v), ucast v]
           else if padding_pattern = 1 then Some [ucast (drop_bit 16 v), ucast (drop_bit 8 v)]
           else if padding_pattern = 3 then Some [ucast (drop_bit 16 v)]
           else None)"

definition is_space :: "byte \<Rightarrow> bool" where
  "is_space c \<longleftrightarrow> c = 0x20 \<or> c = 0x09 \<or> c = 0x0d \<or> c = 0x0a"

text \<open>
  The loop of \<open>EVP_DecodeUpdate\<close>: whether it went through, the bytes written and the context.
\<close>

fun decode_loop :: "evp_encode_ctx_st \<Rightarrow> byte list \<Rightarrow> byte list \<Rightarrow> bool \<times> byte list \<times> evp_encode_ctx_st" where
  "decode_loop ctx out [] = (True, out, ctx)"
| "decode_loop ctx out (c # cs) =
     (if is_space c then decode_loop ctx out cs
      else if eof_seen ctx then (False, out, ctx\<lparr>error_encountered := True\<rparr>)
      else
        let data = (ctx_data ctx)[data_used ctx := c];
            ctx1 = ctx\<lparr>ctx_data := data, data_used := data_used ctx + 1\<rparr> in
        if data_used ctx1 = 4 then
          (case base64_decode_quad (data ! 0) (data ! 1) (data ! 2) (data ! 3) of
             None \<Rightarrow> (False, out, ctx1\<lparr>error_encountered := True\<rparr>)
           | Some bs \<Rightarrow>
               decode_loop (ctx1\<lparr>data_used := 0, eof_seen := (if length bs < 3 then True else eof_seen ctx1)\<rparr>)
                 (out @ bs) cs)
        else decode_loop ctx1 out cs)"

text \<open>The return value, what was written, \<open>*out_len\<close> and the context.\<close>

definition EVP_DecodeUpdate :: "byte list \<Rightarrow> evp_encode_ctx_st \<Rightarrow> int \<times> byte list \<times> nat \<times> evp_encode_ctx_st" where
  "EVP_DecodeUpdate inp ctx =
     (if error_encountered ctx then (- 1, [], 0, ctx)
      else case decode_loop ctx [] inp of
        (False, out, ctx') \<Rightarrow> (- 1, out, 0, ctx')
      | (True, out, ctx') \<Rightarrow>
          if length out > 2147483647 then (- 1, out, 0, ctx'\<lparr>error_encountered := True\<rparr>)
          else (if eof_seen ctx' then 0 else 1, out, length out, ctx'))"

definition EVP_DecodeFinal :: "evp_encode_ctx_st \<Rightarrow> int" where
  "EVP_DecodeFinal ctx = (if error_encountered ctx \<or> data_used ctx \<noteq> 0 then - 1 else 1)"

fun decode_quads :: "byte list \<Rightarrow> byte list option" where
  "decode_quads [] = Some []"
| "decode_quads (a # b # c # d # rest) =
     (case base64_decode_quad a b c d of
        None \<Rightarrow> None
      | Some bs \<Rightarrow>
          if length bs \<noteq> 3 \<and> rest \<noteq> [] then None
          else map_option (\<lambda>more. bs @ more) (decode_quads rest))"
| "decode_quads _ = None"

definition EVP_DecodeBase64 :: "nat \<Rightarrow> byte list \<Rightarrow> byte list option" where
  "EVP_DecodeBase64 max_out inp =
     (if length inp mod 4 \<noteq> 0 then None
      else case EVP_DecodedLength (length inp) of
        None \<Rightarrow> None
      | Some max_len \<Rightarrow> if max_out < max_len then None else decode_quads inp)"

text \<open>The bytes written by \<open>EVP_DecodeBlock\<close>, whose number it returns; \<open>None\<close> is the return value -1.\<close>

definition EVP_DecodeBlock :: "byte list \<Rightarrow> byte list option" where
  "EVP_DecodeBlock src0 =
     (let src1 = dropWhile (\<lambda>c. c = 0x20 \<or> c = 0x09) src0; src = rev (dropWhile is_space (rev src1)) in
      case EVP_DecodedLength (length src) of
        None \<Rightarrow> None
      | Some dst_len \<Rightarrow>
          if dst_len > 2147483647 then None
          else map_option (\<lambda>dst. dst @ replicate ((3 - length dst mod 3) mod 3) 0) (EVP_DecodeBase64 dst_len src))"

end
