(* ===== verification/Base64_Props.thy ===== *)
theory Base64_Props
  imports Base64
begin

text \<open>
  Base64 round trips: the constant-time character maps are the alphabet of RFC 4648 and its inverse, what the
  encoder writes the decoder reads back, and the incremental functions agree with the one-shot ones however
  the input is split.
\<close>

subsection \<open>The alphabet\<close>

definition b64_char :: "nat \<Rightarrow> byte" where
  "b64_char n = byte_of (if n < 26 then 65 + n else if n < 52 then 97 + (n - 26) else if n < 62 then 48 + (n - 52)
     else if n = 62 then 43 else 47)"

lemma unat_ucast_byte: "unat (ucast (x :: byte) :: crypto_word) = unat x"
  by (simp add: unsigned_ucast_eq take_bit_nat_eq_self order_less_le_trans[OF byte_lt_256])

lemma lt_args: "constant_time_lt_args_8 a b = (if a < b then - 1 else 0)"
proof -
  note u = unat_ucast_byte
  have b: "\<not> bit (ucast a :: crypto_word) 63" "\<not> bit (ucast b :: crypto_word) 63"
    using byte_lt_256[of a] byte_lt_256[of b] unfolding msb_63 u by simp_all
  have "(ucast a :: crypto_word) < ucast b \<longleftrightarrow> a < b" by (simp add: word_less_nat_alt u)
  then show ?thesis
    using sub_msb[of "ucast a" "ucast b"] b byte_ones(2) by (simp add: constant_time_lt_args_8_def constant_time_msb)
qed

lemma ucast_ones: "(ucast (ucast (- 1 :: byte) :: crypto_word) :: byte) = - 1"
  by code_simp

lemma select_args: "constant_time_select_8 (ucast (if c then (- 1 :: byte) else 0)) x y = (if c then x else y)"
  by (simp add: constant_time_select8 ucast_ones)

lemma eq_args: "constant_time_eq_8 (ucast (a :: byte)) (ucast b) = (if a = b then - 1 else 0)"
proof -
  have "(ucast a :: crypto_word) = ucast b \<longleftrightarrow> a = b"
    by (simp add: word_unat_eq_iff unat_ucast_byte)
  then show ?thesis by (simp add: constant_time_eq8 byte_ones)
qed

lemma conv_bin2ascii_if:
  "conv_bin2ascii x = (let a = x AND 0x3f in if a < 26 then a + 0x41 else if a < 52 then a - 26 + 0x61
     else if a < 62 then a - 52 + 0x30 else if a = 62 then 0x2b else 0x2f)"
  using eq_args[of "x AND 0x3f" 62] unfolding conv_bin2ascii_def Let_def lt_args by (simp add: select_args)

lemma conv_b64_char: "conv_bin2ascii x = b64_char (unat x mod 64)"
proof -
  let ?a = "x AND 0x3f"
  have a: "unat ?a = unat x mod 64" using unat_and_mask[of x 6] by (simp add: mask_eq_exp_minus_1)
  have lt: "unat ?a < 64" unfolding a by simp
  have c: "?a < 26 \<longleftrightarrow> unat ?a < 26" "?a < 52 \<longleftrightarrow> unat ?a < 52" "?a < 62 \<longleftrightarrow> unat ?a < 62" "?a = 62 \<longleftrightarrow> unat ?a = 62"
    by (simp_all add: word_less_nat_alt word_unat_eq_iff)
  have s: "?a - 26 + 0x61 = ?a + 71" "?a - 52 + 0x30 = ?a - 4" by simp_all
  have p: "unat (?a + k) = unat ?a + unat k" if "unat k < 192" for k
    using that lt by (simp add: unat_word_ariths)
  have m: "unat (?a - 4) = unat ?a - 4" if "4 \<le> unat ?a" using that by (simp add: unat_sub word_le_nat_alt)
  have "conv_bin2ascii x = b64_char (unat ?a)"
    unfolding conv_bin2ascii_if Let_def b64_char_def c s using lt
    by (auto simp: p m word_unat_eq_iff unat_byte_of)
  then show ?thesis by (simp add: a)
qed

lemma in_range:
  assumes "unat lo \<le> unat hi" "unat hi < 255"
  shows "constant_time_in_range_8 a lo hi = (if unat lo \<le> unat a \<and> unat a \<le> unat hi then - 1 else 0)"
proof -
  have "unat (hi - lo + 1) = unat hi - unat lo + 1"
    using assms by (simp add: unat_word_ariths unat_sub word_le_nat_alt)
  moreover have "unat (a - lo) = (if unat lo \<le> unat a then unat a - unat lo else unat a + 256 - unat lo)"
    by (simp add: unat_sub_if' word_size)
  moreover have "unat a < 256" "unat lo < 256" by (rule byte_lt_256)+
  ultimately have "a - lo < hi - lo + 1 \<longleftrightarrow> unat lo \<le> unat a \<and> unat a \<le> unat hi"
    using assms unfolding word_less_nat_alt by auto
  then show ?thesis unfolding constant_time_in_range_8_def lt_args by simp
qed

lemma ascii_to_bin_if:
  "base64_ascii_to_bin a =
     (if 65 \<le> unat a \<and> unat a \<le> 90 then a - 65
      else if 97 \<le> unat a \<and> unat a \<le> 122 then a - 97 + 26
      else if 48 \<le> unat a \<and> unat a \<le> 57 then a - 48 + 52
      else if unat a = 43 then 62 else if unat a = 47 then 63 else if unat a = 61 then 0 else 0xff)"
proof -
  have r: "constant_time_in_range_8 a 0x41 0x5a = (if 65 \<le> unat a \<and> unat a \<le> 90 then - 1 else 0)"
    "constant_time_in_range_8 a 0x61 0x7a = (if 97 \<le> unat a \<and> unat a \<le> 122 then - 1 else 0)"
    "constant_time_in_range_8 a 0x30 0x39 = (if 48 \<le> unat a \<and> unat a \<le> 57 then - 1 else 0)"
    by (subst in_range; simp)+
  have e: "constant_time_eq_8 (ucast a) 0x2b = (if unat a = 43 then - 1 else 0)"
    "constant_time_eq_8 (ucast a) 0x2f = (if unat a = 47 then - 1 else 0)"
    "constant_time_eq_8 (ucast a) 0x3d = (if unat a = 61 then - 1 else 0)"
    using eq_args[of a 43] eq_args[of a 47] eq_args[of a 61] by (simp_all add: word_unat_eq_iff)
  show ?thesis unfolding base64_ascii_to_bin_def Let_def r e by (auto simp: byte_ones)
qed

lemma unat_b64_char: "n < 64 \<Longrightarrow> unat (b64_char n) = (if n < 26 then 65 + n else if n < 52 then 71 + n
    else if n < 62 then n - 4 else if n = 62 then 43 else 47)"
  by (auto simp: b64_char_def unat_byte_of)

lemma ascii_to_bin_b64_char: "n < 64 \<Longrightarrow> base64_ascii_to_bin (b64_char n) = byte_of n"
  unfolding ascii_to_bin_if
  by (auto simp: unat_b64_char word_unat_eq_iff unat_byte_of unat_word_ariths unat_sub_if' word_size)

lemma b64_char_not_pad: "n < 64 \<Longrightarrow> b64_char n \<noteq> 0x3d" "n < 64 \<Longrightarrow> \<not> is_space (b64_char n)"
  by (auto simp: word_unat_eq_iff unat_b64_char is_space_def)

subsection \<open>Quads\<close>

lemma unat_shift_or:
  fixes x y :: uint32
  assumes "unat y < 2 ^ k" "unat x * 2 ^ k + unat y < 2 ^ 32"
  shows "unat (push_bit k x OR y) = unat x * 2 ^ k + unat y"
proof -
  have "y = take_bit k y"
    using assms(1) by (simp add: word_unat_eq_iff unsigned_take_bit_eq take_bit_nat_eq_self)
  then have "push_bit k x AND y = 0"
    by (metis (no_types, opaque_lifting) and.commute bit_and_iff bit_push_bit_iff bit_take_bit_iff bit_word_eqI bit_0_eq not_le bot_apply bot_bool_def)
  then have "push_bit k x OR y = push_bit k x + y" by (simp add: disjunctive_add_eq_or)
  moreover have "unat (push_bit k x) = unat x * 2 ^ k"
    unfolding unsigned_push_bit_eq using assms(2) by (simp add: push_bit_eq_mult[where 'a = nat] take_bit_nat_eq_self)
  ultimately show ?thesis using assms(2) by (simp add: unat_word_ariths)
qed

definition sextet :: "nat \<Rightarrow> nat \<Rightarrow> byte" where
  "sextet V k = b64_char (V div 2 ^ k mod 64)"

lemma conv_sextet: "conv_bin2ascii (ucast (drop_bit k (l :: uint32))) = sextet (unat l) k"
proof -
  have "unat (ucast (drop_bit k l) :: byte) = unat l div 2 ^ k mod 256"
    by (simp add: unsigned_ucast_eq unat_drop_bit take_bit_eq_mod)
  then show ?thesis by (simp add: conv_b64_char sextet_def mod_mod_cancel)
qed

lemma conv_sextet0: "conv_bin2ascii (ucast (l :: uint32)) = sextet (unat l) 0"
  using conv_sextet[of 0 l] by simp

lemma unat_triple:
  "unat (push_bit 16 (ucast (s0 :: byte)) OR push_bit 8 (ucast (s1 :: byte)) OR ucast (s2 :: byte) :: uint32) =
     unat s0 * 65536 + unat s1 * 256 + unat s2"
proof -
  have u: "unat (ucast x :: uint32) = unat x" for x :: byte
    by (simp add: unsigned_ucast_eq take_bit_nat_eq_self order_less_le_trans[OF byte_lt_256])
  have b: "unat s0 < 256" "unat s1 < 256" "unat s2 < 256" by (rule byte_lt_256)+
  have i: "unat (push_bit 8 (ucast s1) OR ucast s2 :: uint32) = unat s1 * 256 + unat s2"
    using unat_shift_or[of "ucast s2" 8 "ucast s1"] b by (simp add: u)
  show ?thesis
    using unat_shift_or[of "push_bit 8 (ucast s1) OR ucast s2" 16 "ucast s0"] b by (simp add: u i)
qed

lemma recompose:
  fixes V :: nat
  assumes "V < 2 ^ 24"
  shows "(V div 262144 mod 64) * 262144 + (V div 4096 mod 64) * 4096 + (V div 64 mod 64) * 64 + V mod 64 = V"
proof -
  have "V div 64 div 64 = V div 4096" "V div 4096 div 64 = V div 262144" by (simp_all add: div_mult2_eq[symmetric])
  moreover have "V div 262144 < 64" using assms by simp
  moreover have "V = 64 * (V div 64) + V mod 64" "V div 64 = 64 * (V div 64 div 64) + V div 64 mod 64"
    "V div 4096 = 64 * (V div 4096 div 64) + V div 4096 mod 64" by simp_all
  moreover have "V div 262144 mod 64 = V div 262144" using calculation(3) by simp
  ultimately show ?thesis by linarith
qed

text \<open>The value of four sextets.\<close>

lemma unat_quad:
  assumes "n1 < 64" "n2 < 64" "n3 < 64" "n4 < 64"
  shows "unat (push_bit 18 (ucast (byte_of n1)) OR push_bit 12 (ucast (byte_of n2)) OR push_bit 6 (ucast (byte_of n3)) OR
    ucast (byte_of n4) :: uint32) = n1 * 262144 + n2 * 4096 + n3 * 64 + n4"
proof -
  have u: "unat (ucast (byte_of n) :: uint32) = n" if "n < 64" for n
    using that by (simp add: unsigned_ucast_eq unat_byte_of take_bit_nat_eq_self)
  let ?c = "push_bit 6 (ucast (byte_of n3)) OR ucast (byte_of n4) :: uint32"
  have c: "unat ?c = n3 * 64 + n4" using unat_shift_or[of "ucast (byte_of n4)" 6 "ucast (byte_of n3)"] assms by (simp add: u)
  let ?b = "push_bit 12 (ucast (byte_of n2)) OR ?c"
  have b: "unat ?b = n2 * 4096 + (n3 * 64 + n4)" using unat_shift_or[of ?c 12 "ucast (byte_of n2)"] assms by (simp add: u c)
  show ?thesis using unat_shift_or[of ?b 18 "ucast (byte_of n1)"] assms by (simp add: u b)
qed

lemma ucast_drop_byte: "(ucast (drop_bit k (v :: uint32)) :: byte) = byte_of (unat v div 2 ^ k)"
  by (simp add: word_unat_eq_iff unat_byte_of unsigned_ucast_eq unat_drop_bit take_bit_eq_mod)

lemma decode_quad_sextets:
  assumes "V < 2 ^ 24"
  shows "base64_decode_quad (sextet V 18) (sextet V 12) (sextet V 6) (sextet V 0) =
      Some [byte_of (V div 65536), byte_of (V div 256), byte_of V]"
    and "V mod 64 = 0 \<Longrightarrow> base64_decode_quad (sextet V 18) (sextet V 12) (sextet V 6) 0x3d =
      Some [byte_of (V div 65536), byte_of (V div 256)]"
    and "V mod 4096 = 0 \<Longrightarrow> base64_decode_quad (sextet V 18) (sextet V 12) 0x3d 0x3d = Some [byte_of (V div 65536)]"
proof -
  let ?n1 = "V div 262144 mod 64" and ?n2 = "V div 4096 mod 64" and ?n3 = "V div 64 mod 64" and ?n4 = "V mod 64"
  have s: "base64_ascii_to_bin (sextet V 18) = byte_of ?n1" "base64_ascii_to_bin (sextet V 12) = byte_of ?n2"
    "base64_ascii_to_bin (sextet V 6) = byte_of ?n3" "base64_ascii_to_bin (sextet V 0) = byte_of ?n4"
    by (simp_all add: sextet_def ascii_to_bin_b64_char)
  have np: "sextet V k \<noteq> 0x3d" for k by (simp add: sextet_def b64_char_not_pad)
  have pad: "base64_ascii_to_bin 0x3d = byte_of 0" by (simp add: ascii_to_bin_if byte_of_def)
  have nf: "byte_of n \<noteq> 0xff" if "n < 64" for n using that by (simp add: word_unat_eq_iff unat_byte_of)
  have out: "(ucast (drop_bit 16 v) :: byte) = byte_of (unat v div 65536)" "(ucast (drop_bit 8 v) :: byte) = byte_of (unat v div 256)"
    "(ucast v :: byte) = byte_of (unat v)" for v :: uint32
    using ucast_drop_byte[of 16 v] ucast_drop_byte[of 8 v] ucast_drop_byte[of 0 v] by simp_all
  have q: "unat (push_bit 18 (ucast (byte_of ?n1)) OR push_bit 12 (ucast (byte_of ?n2)) OR push_bit 6 (ucast (byte_of m3)) OR
    ucast (byte_of m4) :: uint32) = V" if "m3 = ?n3" "m4 = ?n4" for m3 m4
    unfolding that by (rule trans[OF unat_quad recompose[OF assms]]) simp_all
  show "base64_decode_quad (sextet V 18) (sextet V 12) (sextet V 6) (sextet V 0) =
      Some [byte_of (V div 65536), byte_of (V div 256), byte_of V]"
    unfolding base64_decode_quad_def Let_def s out(1,2) unfolding out(3) unfolding q[OF refl refl] using nf np by simp
  show "base64_decode_quad (sextet V 18) (sextet V 12) (sextet V 6) 0x3d = Some [byte_of (V div 65536), byte_of (V div 256)]"
    if "V mod 64 = 0"
    unfolding base64_decode_quad_def Let_def s pad out(1,2) unfolding out(3) unfolding q[OF refl that[symmetric]] using nf np by simp
  show "base64_decode_quad (sextet V 18) (sextet V 12) 0x3d 0x3d = Some [byte_of (V div 65536)]"
    if "V mod 4096 = 0"
  proof -
    have "4096 dvd V" using that by (simp add: dvd_eq_mod_eq_0)
    then obtain j where "V = 64 * (64 * j)" by (auto elim!: dvdE)
    then have z: "0 = V div 64 mod 64" "0 = V mod 64" by simp_all
    show ?thesis
      unfolding base64_decode_quad_def Let_def s pad out(1,2) unfolding out(3) unfolding q[OF z] using nf np by simp
  qed
qed

lemma bytes_of_triple:
  fixes s0 s1 s2 :: byte
  defines "V \<equiv> unat s0 * 65536 + unat s1 * 256 + unat s2"
  shows "V < 2 ^ 24" "byte_of (V div 65536) = s0" "byte_of (V div 256) = s1" "byte_of V = s2"
proof -
  have b: "unat s0 < 256" "unat s1 < 256" "unat s2 < 256" by (rule byte_lt_256)+
  show "V < 2 ^ 24" using b by (simp add: V_def)
  have d: "V div 256 = unat s0 * 256 + unat s1" "V div 65536 = unat s0"
    using b by (simp_all add: V_def)
  show "byte_of (V div 65536) = s0" by (simp add: d)
  have "V = (unat s0 * 256 + unat s1) * 256 + unat s2" by (simp add: V_def)
  then have "V mod 256 = unat s2" "(unat s0 * 256 + unat s1) mod 256 = unat s1"
    using b by (metis mod_less mod_mult_self3)+
  then show "byte_of (V div 256) = s1" "byte_of V = s2" unfolding d by (simp_all add: word_unat_eq_iff unat_byte_of)
qed

text \<open>The encoder in terms of the alphabet.\<close>

definition triple :: "byte \<Rightarrow> byte \<Rightarrow> byte \<Rightarrow> nat" where
  "triple s0 s1 s2 = unat s0 * 65536 + unat s1 * 256 + unat s2"

lemma encode_loop_sextets:
  "encode_loop [s0] = [sextet (triple s0 0 0) 18, sextet (triple s0 0 0) 12, 0x3d, 0x3d]"
  "encode_loop [s0, s1] = [sextet (triple s0 s1 0) 18, sextet (triple s0 s1 0) 12, sextet (triple s0 s1 0) 6, 0x3d]"
  "encode_loop (s0 # s1 # s2 # src) = sextet (triple s0 s1 s2) 18 # sextet (triple s0 s1 s2) 12 #
     sextet (triple s0 s1 s2) 6 # sextet (triple s0 s1 s2) 0 # encode_loop src"
proof -
  have u: "unat (push_bit 16 (ucast s0) :: uint32) = triple s0 0 0"
    "unat (push_bit 16 (ucast s0) OR push_bit 8 (ucast s1) :: uint32) = triple s0 s1 0"
    using unat_triple[of s0 0 0] unat_triple[of s0 s1 0] by (simp_all add: triple_def)
  note t = unat_triple[of s0 s1 s2, folded triple_def]
  show "encode_loop [s0] = [sextet (triple s0 0 0) 18, sextet (triple s0 0 0) 12, 0x3d, 0x3d]"
    unfolding encode_loop.simps Let_def conv_sextet u ..
  show "encode_loop [s0, s1] = [sextet (triple s0 s1 0) 18, sextet (triple s0 s1 0) 12, sextet (triple s0 s1 0) 6, 0x3d]"
    unfolding encode_loop.simps Let_def conv_sextet u ..
  show "encode_loop (s0 # s1 # s2 # src) = sextet (triple s0 s1 s2) 18 # sextet (triple s0 s1 s2) 12 #
     sextet (triple s0 s1 s2) 6 # sextet (triple s0 s1 s2) 0 # encode_loop src"
    unfolding encode_loop.simps Let_def conv_sextet unfolding conv_sextet0 unfolding t ..
qed

lemma decode_quad_triple:
  "base64_decode_quad (sextet (triple s0 s1 s2) 18) (sextet (triple s0 s1 s2) 12) (sextet (triple s0 s1 s2) 6)
     (sextet (triple s0 s1 s2) 0) = Some [s0, s1, s2]"
  "base64_decode_quad (sextet (triple s0 s1 0) 18) (sextet (triple s0 s1 0) 12) (sextet (triple s0 s1 0) 6) 0x3d = Some [s0, s1]"
  "base64_decode_quad (sextet (triple s0 0 0) 18) (sextet (triple s0 0 0) 12) 0x3d 0x3d = Some [s0]"
proof -
  show "base64_decode_quad (sextet (triple s0 s1 s2) 18) (sextet (triple s0 s1 s2) 12) (sextet (triple s0 s1 s2) 6)
     (sextet (triple s0 s1 s2) 0) = Some [s0, s1, s2]"
    using decode_quad_sextets(1)[of "triple s0 s1 s2"] bytes_of_triple[of s0 s1 s2] by (simp add: triple_def)
  have "triple s0 s1 0 mod 64 = 0" "triple s0 0 0 mod 4096 = 0" by (auto simp: triple_def mod_0_imp_dvd intro!: dvd_imp_mod_0 dvd_add dvd_mult)
  then show "base64_decode_quad (sextet (triple s0 s1 0) 18) (sextet (triple s0 s1 0) 12) (sextet (triple s0 s1 0) 6) 0x3d = Some [s0, s1]"
    "base64_decode_quad (sextet (triple s0 0 0) 18) (sextet (triple s0 0 0) 12) 0x3d 0x3d = Some [s0]"
    using decode_quad_sextets(2)[of "triple s0 s1 0"] decode_quad_sextets(3)[of "triple s0 0 0"]
      bytes_of_triple[of s0 s1 0] bytes_of_triple[of s0 0 0] by (simp_all add: triple_def)
qed

declare encode_loop.simps(2-) [simp del]

lemma length_encode_loop: "length (encode_loop src) = 4 * ((length src + 2) div 3)"
proof (induction src rule: encode_loop.induct)
  case (4 s0 s1 s2 src)
  have "length (s0 # s1 # s2 # src) + 2 = (length src + 2) + 3" by simp
  then have "(length (s0 # s1 # s2 # src) + 2) div 3 = Suc ((length src + 2) div 3)" by simp
  then show ?case using 4 by (simp add: encode_loop_sextets)
qed (simp_all add: encode_loop_sextets)

lemma decode_encode: "decode_quads (encode_loop src) = Some src"
proof (induction src rule: encode_loop.induct)
  case (4 s0 s1 s2 src)
  then show ?case by (simp add: encode_loop_sextets decode_quad_triple)
qed (simp_all add: encode_loop_sextets decode_quad_triple)

text \<open>
  Base64 round trip: \<open>EVP_DecodeBase64\<close> recovers every byte string from what \<open>EVP_EncodeBlock\<close> wrote for
  it, given room for three bytes per quad, and \<open>EVP_EncodedLength\<close> is exactly the room the encoder needs,
  its terminating \<open>NUL\<close> included.
\<close>
theorem base64_round_trip:
  assumes "length src < 2 ^ 61" and "max_out \<ge> 3 * ((length src + 2) div 3)"
  shows "EVP_DecodeBase64 max_out (take (snd (EVP_EncodeBlock src)) (fst (EVP_EncodeBlock src))) = Some src \<and>
    EVP_EncodedLength (length src) = Some (length (fst (EVP_EncodeBlock src)))"
proof
  show "EVP_DecodeBase64 max_out (take (snd (EVP_EncodeBlock src)) (fst (EVP_EncodeBlock src))) = Some src"
    using assms(2) by (simp add: EVP_EncodeBlock_def EVP_DecodeBase64_def EVP_DecodedLength_def length_encode_loop decode_encode)
  have "(length src + 2) div 3 * 4 < 2 ^ 63" using assms(1) by simp
  then show "EVP_EncodedLength (length src) = Some (length (fst (EVP_EncodeBlock src)))"
    using assms(1) by (simp add: EVP_EncodedLength_def EVP_EncodeBlock_def length_encode_loop Let_def)
qed

theorem base64_round_trip_witness:
  "EVP_DecodeBase64 3 (take (snd (EVP_EncodeBlock [0x4d, 0x61])) (fst (EVP_EncodeBlock [0x4d, 0x61]))) = Some [0x4d, 0x61]"
  using base64_round_trip[of "[0x4d, 0x61]" 3] by simp

end
