(* ===== verification/Base64_Stream.thy ===== *)
theory Base64_Stream
  imports Base64_Props
begin

text \<open>
  The incremental Base64 functions: however the input of \<open>EVP_EncodeUpdate\<close> is cut into chunks the text is the
  one-shot text of the whole input in lines of 48 bytes, and however that text is cut into chunks
  \<open>EVP_DecodeUpdate\<close> gives the input back.
\<close>

subsection \<open>Client runs\<close>

text \<open>What a caller collects: the first \<open>*out_len\<close> bytes of each call, then those of the final call.\<close>

fun encode_chunks :: "byte list list \<Rightarrow> evp_encode_ctx_st \<Rightarrow> byte list \<times> evp_encode_ctx_st" where
  "encode_chunks [] ctx = ([], ctx)"
| "encode_chunks (c # cs) ctx =
     (let (out, n, ctx1) = EVP_EncodeUpdate c ctx; (more, ctx2) = encode_chunks cs ctx1 in (take n out @ more, ctx2))"

definition encode_stream :: "byte list list \<Rightarrow> byte list" where
  "encode_stream cs = (let (text, ctx) = encode_chunks cs EVP_EncodeInit; (out, n, _) = EVP_EncodeFinal ctx in text @ take n out)"

fun decode_chunks :: "byte list list \<Rightarrow> evp_encode_ctx_st \<Rightarrow> (byte list \<times> evp_encode_ctx_st) option" where
  "decode_chunks [] ctx = Some ([], ctx)"
| "decode_chunks (c # cs) ctx =
     (case EVP_DecodeUpdate c ctx of (ret, out, n, ctx1) \<Rightarrow>
        if ret < 0 then None else map_option (\<lambda>(more, ctx2). (take n out @ more, ctx2)) (decode_chunks cs ctx1))"

definition decode_stream :: "byte list list \<Rightarrow> byte list option" where
  "decode_stream cs =
     (case decode_chunks cs EVP_DecodeInit of
        None \<Rightarrow> None
      | Some (out, ctx) \<Rightarrow> if EVP_DecodeFinal ctx = 1 then Some out else None)"

subsection \<open>Encoding\<close>

text \<open>The reference: the text of the whole lines, the bytes left over, and the text of all of it.\<close>

function full_lines :: "byte list \<Rightarrow> byte list" where
  "full_lines xs = (if length xs \<ge> 48 then encode_loop (take 48 xs) @ 0x0a # full_lines (drop 48 xs) else [])"
  by pat_completeness auto
termination by (relation "measure length") auto

function tail_line :: "byte list \<Rightarrow> byte list" where
  "tail_line xs = (if length xs \<ge> 48 then tail_line (drop 48 xs) else xs)"
  by pat_completeness auto
termination by (relation "measure length") auto

declare full_lines.simps [simp del] tail_line.simps [simp del] encode_lines.simps [simp del]

definition b64_lines :: "byte list \<Rightarrow> byte list" where
  "b64_lines xs = full_lines xs @ (if tail_line xs = [] then [] else encode_loop (tail_line xs) @ [0x0a])"

lemma lines_long:
  assumes "length xs \<ge> 48"
  shows "full_lines xs = encode_loop (take 48 xs) @ 0x0a # full_lines (drop 48 xs)" "tail_line xs = tail_line (drop 48 xs)"
  using assms by (simp_all add: full_lines.simps[of xs] tail_line.simps[of xs])

lemma lines_short:
  assumes "length xs < 48"
  shows "full_lines xs = []" "tail_line xs = xs"
  using assms by (simp_all add: full_lines.simps[of xs] tail_line.simps[of xs])

lemma length_tail_line: "length (tail_line xs) < 48"
  by (induction xs rule: tail_line.induct) (subst tail_line.simps, simp)

lemma length_tail_le: "length (tail_line xs) \<le> length xs"
  by (induction xs rule: tail_line.induct) (subst tail_line.simps, fastforce)

lemma lines_append:
  "full_lines (xs @ ys) = full_lines xs @ full_lines (tail_line xs @ ys) \<and> tail_line (xs @ ys) = tail_line (tail_line xs @ ys)"
proof (induction xs rule: tail_line.induct)
  case (1 xs)
  show ?case
  proof (cases "length xs \<ge> 48")
    case True
    then show ?thesis using 1[OF True] by (simp add: lines_long)
  qed (simp add: lines_short)
qed

lemma length_full_lines: "48 * length (full_lines xs) \<le> 65 * length xs"
proof (induction xs rule: full_lines.induct)
  case (1 xs)
  show ?case
  proof (cases "length xs \<ge> 48")
    case True
    then show ?thesis using 1[OF True] unfolding lines_long(1)[OF True] by (simp add: length_encode_loop)
  qed (simp add: lines_short)
qed

lemma encode_lines_full:
  assumes "tot + length (full_lines inp) < 2 ^ 64"
  shows "encode_lines tot out inp = (out @ full_lines inp, Some (tot + length (full_lines inp), tail_line inp))"
  using assms
proof (induction tot out inp rule: encode_lines.induct)
  case (1 tot out inp)
  show ?case
  proof (cases "length inp \<ge> 48")
    case True
    let ?t = "encode_loop (take 48 inp)"
    note f = lines_long[OF True]
    have w: "\<not> (tot + length ?t + 1) mod 2 ^ 64 < tot"
      using 1(2) unfolding f by simp
    have "encode_lines (tot + length ?t + 1) (out @ ?t @ [0x0a]) (drop 48 inp) =
      ((out @ ?t @ [0x0a]) @ full_lines (drop 48 inp),
       Some (tot + length ?t + 1 + length (full_lines (drop 48 inp)), tail_line (drop 48 inp)))"
      by (rule 1(1)[OF True refl refl refl w]) (use 1(2) in \<open>simp add: f\<close>)
    then show ?thesis using True w by (subst encode_lines.simps) (simp add: Let_def f del: take_append)
  qed (simp add: encode_lines.simps lines_short)
qed

text \<open>The context holds the bytes of the unfinished line.\<close>

definition enc_holds :: "evp_encode_ctx_st \<Rightarrow> byte list \<Rightarrow> bool" where
  "enc_holds ctx p \<longleftrightarrow> data_used ctx = length p \<and> length p < 48 \<and> length (ctx_data ctx) = 48 \<and> take (length p) (ctx_data ctx) = p"

lemma length_put_data: "p + length bs \<le> length d \<Longrightarrow> length (put_data p bs d) = length d"
  by (simp add: put_data_def)

lemma take_put_data: "p + length bs \<le> length d \<Longrightarrow> take (p + length bs) (put_data p bs d) = take p d @ bs"
  by (simp add: put_data_def)

lemma enc_holds_Init: "enc_holds EVP_EncodeInit []"
  by (simp add: enc_holds_def EVP_EncodeInit_def)

lemma EVP_EncodeUpdate_lines:
  assumes "enc_holds ctx p" and "length p + length inp \<le> 2 ^ 30"
  shows "\<exists>ctx1. EVP_EncodeUpdate inp ctx = (full_lines (p @ inp), length (full_lines (p @ inp)), ctx1) \<and>
    enc_holds ctx1 (tail_line (p @ inp))"
proof -
  let ?d = "ctx_data ctx"
  have p: "data_used ctx = length p" "length p < 48" "length ?d = 48" "take (length p) ?d = p"
    using assms(1) by (auto simp: enc_holds_def)
  have small: "full_lines (p @ inp) = []" "tail_line (p @ inp) = p @ inp" if "length p + length inp < 48"
    using that by (simp_all add: lines_short)
  consider "inp = []" | "inp \<noteq> []" "48 - length p > length inp" | "inp \<noteq> []" "48 - length p \<le> length inp" by fastforce
  then show ?thesis
  proof cases
    case 1
    then show ?thesis using assms(1) p small by (simp add: EVP_EncodeUpdate_def)
  next
    case 2
    then show ?thesis using p small take_put_data[of "length p" inp ?d] length_put_data[of "length p" inp ?d]
      by (simp add: EVP_EncodeUpdate_def enc_holds_def)
  next
    case 3
    let ?todo = "48 - length p"
    let ?data1 = "put_data (length p) (take ?todo inp) ?d"
    have d1: "?data1 = p @ take ?todo inp" using 3 p by (simp add: put_data_def)
    have bound: "length (full_lines (p @ inp)) \<le> 2147483647"
      using length_full_lines[of "p @ inp"] assms(2) by simp
    define inp1 where "inp1 = (if p = [] then inp else drop ?todo inp)"
    define out1 where "out1 = (if p = [] then [] else encode_loop ?data1 @ [0x0a])"
    define ctx1 where "ctx1 = (if p = [] then ctx else ctx\<lparr>ctx_data := ?data1, data_used := 0\<rparr>)"
    have l: "full_lines (p @ inp) = out1 @ full_lines inp1" "tail_line (p @ inp) = tail_line inp1"
      using 3 p lines_long[of "p @ inp"] by (cases "p = []"; simp add: out1_def inp1_def d1)+
    have "encode_lines (length out1) out1 inp1 = (full_lines (p @ inp), Some (length (full_lines (p @ inp)), tail_line (p @ inp)))"
      using encode_lines_full[of "length out1" inp1 out1] bound unfolding l by simp
    then have "EVP_EncodeUpdate inp ctx = (full_lines (p @ inp), length (full_lines (p @ inp)),
        ctx1\<lparr>ctx_data := put_data 0 (tail_line (p @ inp)) (ctx_data ctx1), data_used := length (tail_line (p @ inp))\<rparr>)"
      using 3 p bound by (cases "p = []") (simp_all add: EVP_EncodeUpdate_def out1_def inp1_def ctx1_def Let_def)
    moreover have "length (ctx_data ctx1) = 48" using 3 p by (simp add: ctx1_def d1)
    ultimately show ?thesis
      using length_tail_line[of "p @ inp"] take_put_data[of 0 "tail_line (p @ inp)" "ctx_data ctx1"]
        length_put_data[of 0 "tail_line (p @ inp)" "ctx_data ctx1"]
      by (simp add: enc_holds_def)
  qed
qed

lemma encode_chunks_lines:
  assumes "enc_holds ctx p" and "length p + length (concat cs) \<le> 2 ^ 30"
  shows "\<exists>ctx1. encode_chunks cs ctx = (full_lines (p @ concat cs), ctx1) \<and> enc_holds ctx1 (tail_line (p @ concat cs))"
  using assms
proof (induction cs arbitrary: ctx p)
  case Nil
  then show ?case by (simp add: enc_holds_def lines_short)
next
  case (Cons c cs)
  obtain ctx1 where u: "EVP_EncodeUpdate c ctx = (full_lines (p @ c), length (full_lines (p @ c)), ctx1)"
    "enc_holds ctx1 (tail_line (p @ c))"
    using EVP_EncodeUpdate_lines[OF Cons.prems(1), of c] Cons.prems(2) by auto
  have b: "length (tail_line (p @ c)) + length (concat cs) \<le> 2 ^ 30"
    using length_tail_le[of "p @ c"] Cons.prems(2) by simp
  show ?case using Cons.IH[OF u(2) b] u(1) lines_append[of "p @ c" "concat cs"] by auto
qed

lemma encode_stream_lines: "length (concat cs) \<le> 2 ^ 30 \<Longrightarrow> encode_stream cs = b64_lines (concat cs)"
  using encode_chunks_lines[OF enc_holds_Init, of cs]
  by (auto simp: encode_stream_def EVP_EncodeFinal_def b64_lines_def enc_holds_def Let_def)

subsection \<open>Decoding\<close>

text \<open>Between two quads.\<close>

definition dec_ready :: "evp_encode_ctx_st \<Rightarrow> bool" where
  "dec_ready ctx \<longleftrightarrow> data_used ctx = 0 \<and> \<not> error_encountered ctx \<and> length (ctx_data ctx) = 48"

lemma decode_loop_quad:
  assumes "dec_ready ctx" "\<not> eof_seen ctx" "\<forall>x\<in>{a, b, c, d}. \<not> is_space x" "base64_decode_quad a b c d = Some bs"
  shows "\<exists>ctx1. dec_ready ctx1 \<and> eof_seen ctx1 = (length bs < 3) \<and>
    decode_loop ctx out (a # b # c # d # cs) = decode_loop ctx1 (out @ bs) cs"
proof -
  let ?ctx1 = "ctx\<lparr>ctx_data := (ctx_data ctx)[0 := a, 1 := b, 2 := c, 3 := d], data_used := 0, eof_seen := length bs < 3\<rparr>"
  have "decode_loop ctx out (a # b # c # d # cs) = decode_loop ?ctx1 (out @ bs) cs"
    using assms by (simp add: dec_ready_def Let_def numeral_2_eq_2 numeral_3_eq_3)
  moreover have "dec_ready ?ctx1" using assms(1) by (simp add: dec_ready_def)
  ultimately show ?thesis by (intro exI[of _ ?ctx1]) simp
qed

lemma sextet_not_space: "\<not> is_space (sextet V k)"
  by (simp add: sextet_def b64_char_not_pad)

lemma pad_not_space: "\<not> is_space 0x3d"
  by (simp add: is_space_def)

lemma decode_loop_encode:
  assumes "dec_ready ctx" "\<not> eof_seen ctx"
  shows "\<exists>ctx1. dec_ready ctx1 \<and> eof_seen ctx1 = (length src mod 3 \<noteq> 0) \<and>
    decode_loop ctx out (encode_loop src @ cs) = decode_loop ctx1 (out @ src) cs"
  using assms
proof (induction src arbitrary: ctx out rule: encode_loop.induct)
  case 1
  then show ?case by auto
next
  case (2 s0)
  then show ?case using decode_loop_quad[OF 2 _ decode_quad_triple(3), of s0 out cs]
    by (simp add: encode_loop_sextets sextet_not_space pad_not_space)
next
  case (3 s0 s1)
  then show ?case using decode_loop_quad[OF 3 _ decode_quad_triple(2), of s0 s1 out cs]
    by (simp add: encode_loop_sextets sextet_not_space pad_not_space)
next
  case (4 s0 s1 s2 src)
  obtain ctx1 where c: "dec_ready ctx1" "\<not> eof_seen ctx1"
    "decode_loop ctx out (encode_loop (s0 # s1 # s2 # src) @ cs) = decode_loop ctx1 (out @ [s0, s1, s2]) (encode_loop src @ cs)"
    using decode_loop_quad[OF 4(2,3) _ decode_quad_triple(1), of s0 s1 s2 out "encode_loop src @ cs"]
    by (auto simp: encode_loop_sextets sextet_not_space)
  have m: "length (s0 # s1 # s2 # src) mod 3 = length src mod 3" using mod_add_self2[of "length src" 3] by simp
  show ?case unfolding c(3) m using 4(1)[OF refl c(1,2), of "out @ [s0, s1, s2]"] by simp
qed

lemma newline_space [simp]: "is_space 0x0a"
  by (simp add: is_space_def)

lemma decode_loop_full_lines:
  assumes "dec_ready ctx" "\<not> eof_seen ctx"
  shows "\<exists>ctx1. dec_ready ctx1 \<and> \<not> eof_seen ctx1 \<and>
    decode_loop ctx out (full_lines xs @ cs) = decode_loop ctx1 (out @ take (length xs - length (tail_line xs)) xs) cs"
  using assms
proof (induction xs arbitrary: ctx out rule: full_lines.induct)
  case (1 xs)
  show ?case
  proof (cases "length xs \<ge> 48")
    case True
    obtain ctx1 where c: "dec_ready ctx1" "\<not> eof_seen ctx1"
      "decode_loop ctx out (encode_loop (take 48 xs) @ 0x0a # full_lines (drop 48 xs) @ cs) =
       decode_loop ctx1 (out @ take 48 xs) (0x0a # full_lines (drop 48 xs) @ cs)"
      using decode_loop_encode[OF 1(2,3), of "take 48 xs" out "0x0a # full_lines (drop 48 xs) @ cs"] True by auto
    have "length (tail_line (drop 48 xs)) \<le> length xs - 48"
      using lines_append[of "drop 48 xs" "[]"] length_tail_le[of "drop 48 xs"] by simp
    then have t: "take (length xs - length (tail_line xs)) xs =
        take 48 xs @ take (length (drop 48 xs) - length (tail_line (drop 48 xs))) (drop 48 xs)"
      unfolding lines_long(2)[OF True] take_add[symmetric] using True by simp
    show ?thesis
      unfolding t using 1(1)[OF True c(1,2), of "out @ take 48 xs"] c(3) True
      by (simp add: lines_long)
  qed (use 1 in \<open>auto simp: lines_short\<close>)
qed

lemma tail_line_drop: "drop (length xs - length (tail_line xs)) xs = tail_line xs"
proof (induction xs rule: tail_line.induct)
  case (1 xs)
  show ?case
  proof (cases "length xs \<ge> 48")
    case True
    have "length xs - length (tail_line xs) = 48 + (length (drop 48 xs) - length (tail_line (drop 48 xs)))"
      unfolding lines_long(2)[OF True] using length_tail_le[of "drop 48 xs"] True by simp
    then show ?thesis using 1[OF True] unfolding lines_long(2)[OF True] by (metis drop_drop add.commute)
  qed (simp add: lines_short)
qed

lemma decode_loop_lines:
  "\<exists>ctx1. EVP_DecodeFinal ctx1 = 1 \<and> decode_loop EVP_DecodeInit [] (b64_lines xs) = (True, xs, ctx1)"
proof -
  have i: "dec_ready EVP_DecodeInit" "\<not> eof_seen EVP_DecodeInit" by (simp_all add: dec_ready_def EVP_DecodeInit_def)
  let ?done = "take (length xs - length (tail_line xs)) xs"
  let ?rest = "if tail_line xs = [] then [] else encode_loop (tail_line xs) @ [0x0a]"
  obtain ctx1 where c: "dec_ready ctx1" "\<not> eof_seen ctx1"
    "decode_loop EVP_DecodeInit [] (b64_lines xs) = decode_loop ctx1 ?done ?rest"
    using decode_loop_full_lines[OF i, of "[]" xs ?rest] by (auto simp: b64_lines_def)
  have x: "?done @ tail_line xs = xs" using tail_line_drop[of xs] by (metis append_take_drop_id)
  show ?thesis
  proof (cases "tail_line xs = []")
    case True
    then show ?thesis using c x by (auto simp: dec_ready_def EVP_DecodeFinal_def)
  next
    case False
    obtain ctx2 where "dec_ready ctx2" "decode_loop ctx1 ?done (encode_loop (tail_line xs) @ [0x0a]) = decode_loop ctx2 (?done @ tail_line xs) [0x0a]"
      using decode_loop_encode[OF c(1,2)] by blast
    then show ?thesis using c(3) x False by (auto simp: dec_ready_def EVP_DecodeFinal_def)
  qed
qed

text \<open>The loop over a text is the loop over its chunks.\<close>

lemma decode_loop_append:
  "decode_loop ctx out (xs @ ys) =
     (case decode_loop ctx out xs of (True, out1, ctx1) \<Rightarrow> decode_loop ctx1 out1 ys | r \<Rightarrow> r)"
  by (induction ctx out xs rule: decode_loop.induct) (simp_all add: Let_def split: option.split)

lemma decode_loop_out: "decode_loop ctx (out0 @ out) xs = (case decode_loop ctx out xs of (ok, out1, ctx1) \<Rightarrow> (ok, out0 @ out1, ctx1))"
  by (induction ctx out xs rule: decode_loop.induct) (simp_all add: Let_def split: option.split)

lemma decode_loop_no_error:
  "decode_loop ctx out xs = (True, out1, ctx1) \<Longrightarrow> \<not> error_encountered ctx \<Longrightarrow> \<not> error_encountered ctx1"
  by (induction ctx out xs rule: decode_loop.induct) (auto simp: Let_def split: if_splits option.splits)

lemma decode_chunks_loop:
  assumes "decode_loop ctx [] (concat cs) = (True, out, ctx1)" "\<not> error_encountered ctx" "length out \<le> 2147483647"
  shows "decode_chunks cs ctx = Some (out, ctx1)"
  using assms
proof (induction cs arbitrary: ctx out)
  case (Cons c cs)
  obtain ok out2 ctx2 where l: "decode_loop ctx [] c = (ok, out2, ctx2)" by (metis prod_cases3)
  have ok: "ok" "decode_loop ctx2 out2 (concat cs) = (True, out, ctx1)"
    using Cons.prems(1) l by (auto simp: decode_loop_append split: bool.splits)
  obtain out3 where o: "decode_loop ctx2 [] (concat cs) = (True, out3, ctx1)" "out = out2 @ out3"
    using ok(2) decode_loop_out[of ctx2 out2 "[]" "concat cs"] by (auto split: prod.splits)
  have e: "\<not> error_encountered ctx2" using decode_loop_no_error[of ctx "[]" c out2 ctx2] l ok(1) Cons.prems(2) by simp
  show ?case using Cons.IH[OF o(1) e] Cons.prems(2,3) l ok(1) o(2) by (simp add: EVP_DecodeUpdate_def)
qed simp

text \<open>
  (C30) Streaming Base64: for any way of cutting the input into chunks, \<open>EVP_EncodeUpdate\<close> and
  \<open>EVP_EncodeFinal\<close> write the one-shot encoding of the whole input in lines of 48 input bytes, each ended by a
  newline, and for any way of cutting that text into chunks \<open>EVP_DecodeUpdate\<close> and \<open>EVP_DecodeFinal\<close> accept it
  and return the input.
\<close>
theorem base64_streaming:
  assumes "length (concat chunks) \<le> 2 ^ 30" and "concat texts = encode_stream chunks"
  shows "encode_stream chunks = b64_lines (concat chunks) \<and> decode_stream texts = Some (concat chunks)"
proof
  show e: "encode_stream chunks = b64_lines (concat chunks)" by (rule encode_stream_lines[OF assms(1)])
  obtain ctx1 where c: "EVP_DecodeFinal ctx1 = 1" "decode_loop EVP_DecodeInit [] (concat texts) = (True, concat chunks, ctx1)"
    using decode_loop_lines[of "concat chunks"] assms(2) e by auto
  have "decode_chunks texts EVP_DecodeInit = Some (concat chunks, ctx1)"
    by (rule decode_chunks_loop[OF c(2)]) (use assms(1) in \<open>simp_all add: EVP_DecodeInit_def\<close>)
  then show "decode_stream texts = Some (concat chunks)" by (simp add: decode_stream_def c(1))
qed

theorem base64_streaming_witness:
  "decode_stream [[0x54, 0x57], [0x45, 0x3d, 0x0a]] = Some [0x4d, 0x61]"
proof -
  have "encode_stream [[0x4d], [0x61]] = [0x54, 0x57, 0x45, 0x3d, 0x0a]" by code_simp
  then show ?thesis using base64_streaming[of "[[0x4d], [0x61]]" "[[0x54, 0x57], [0x45, 0x3d, 0x0a]]"] by simp
qed

end
