(* ===== verification/Ssl_Buffer.thy ===== *)
theory Ssl_Buffer
  imports CBB_Spec "HOL-Library.Monad_Syntax"
begin

text \<open>
  The record buffers of the TLS library, \<open>ssl/ssl_buffer.cc\<close> and the class \<open>SSLBuffer\<close> of \<open>ssl/internal.h\<close>:
  growing and consuming a buffer, reading from the transport until a record is complete, and flushing what is to
  be sent. The transport and \<open>malloc\<close> are functions of a world, as arguments; \<open>None\<close> is \<open>abort()\<close>, an access outside
  the memory of a buffer, or a loop that does not end. The fields of a buffer are \<open>uint16_t\<close>: assignments to
  them wrap modulo \<open>2 ^ 16\<close>. Entries of the error queue are not modelled.
\<close>

abbreviation (input) "SSL3_ALIGN_PAYLOAD \<equiv> (8 :: nat)"
abbreviation (input) "SSL3_RT_HEADER_LENGTH \<equiv> (5 :: nat)"
abbreviation (input) "DTLS1_RT_MAX_HEADER_LENGTH \<equiv> (13 :: nat)"
abbreviation (input) "SSL3_RT_MAX_ENCRYPTED_LENGTH \<equiv> (16704 :: nat)"
abbreviation (input) "SSL_ERROR_WANT_READ \<equiv> (2 :: int)"
abbreviation (input) "SSL_ERROR_WANT_WRITE \<equiv> (3 :: int)"
abbreviation (input) "SSL_ERROR_ZERO_RETURN \<equiv> (6 :: int)"

subsection \<open>The environment\<close>

text \<open>
  \<open>BIO_read\<close> with a limit: the result and the bytes it stored; \<open>BIO_write\<close>; \<open>malloc\<close>: the address of the block and
  its indeterminate contents.
\<close>

record 'w transport =
  bio_read :: "nat \<Rightarrow> 'w \<Rightarrow> int \<times> byte list \<times> 'w"
  bio_write :: "byte list \<Rightarrow> 'w \<Rightarrow> int \<times> 'w"
  sys_malloc :: "nat \<Rightarrow> 'w \<Rightarrow> (nat \<times> byte list) option \<times> 'w"

subsection \<open>Buffers\<close>

text \<open>What \<open>buf_\<close> points to: nothing, the object's own inline buffer (whose 5 bytes \<open>buf_ok\<close> requires), or a block from \<open>malloc\<close>.\<close>

datatype sb_memory = Null | Inline | Malloc nat "byte list"

record SSLBuffer =
  sb_buf :: sb_memory
  sb_offset :: nat
  sb_size :: nat
  sb_cap :: nat
  sb_inline :: "byte list"

definition SSLBuffer_new :: "byte list \<Rightarrow> SSLBuffer" where
  "SSLBuffer_new inl = \<lparr>sb_buf = Null, sb_offset = 0, sb_size = 0, sb_cap = 0, sb_inline = inl\<rparr>"

definition memory :: "SSLBuffer \<Rightarrow> byte list" where
  "memory b = (case sb_buf b of Null \<Rightarrow> [] | Inline \<Rightarrow> sb_inline b | Malloc a m \<Rightarrow> m)"

definition span :: "SSLBuffer \<Rightarrow> byte list" where
  "span b = take (sb_size b) (drop (sb_offset b) (memory b))"

text \<open>Storing bytes at an index of the block a pointer refers to.\<close>

definition poke :: "nat \<Rightarrow> byte list \<Rightarrow> SSLBuffer \<Rightarrow> SSLBuffer option" where
  "poke pos bs b =
     (if bs = [] then Some b
      else if pos + length bs > length (memory b) then None
      else case sb_buf b of
        Null \<Rightarrow> None
      | Inline \<Rightarrow> Some (b\<lparr>sb_inline := write_at pos bs (sb_inline b)\<rparr>)
      | Malloc a m \<Rightarrow> Some (b\<lparr>sb_buf := Malloc a (write_at pos bs m)\<rparr>))"

definition peek_span :: "SSLBuffer \<Rightarrow> byte list option" where
  "peek_span b =
     (if sb_size b \<noteq> 0 \<and> sb_offset b + sb_size b > length (memory b) then None else Some (span b))"

definition SSLBuffer_Clear :: "SSLBuffer \<Rightarrow> SSLBuffer" where
  "SSLBuffer_Clear b = b\<lparr>sb_buf := Null, sb_offset := 0, sb_size := 0, sb_cap := 0\<rparr>"

definition new_block :: "'w transport \<Rightarrow> nat \<Rightarrow> nat \<Rightarrow> 'w \<Rightarrow> (sb_memory \<times> nat) option \<times> 'w" where
  "new_block T header_len new_cap w =
     (if new_cap \<le> 5 then (Some (Inline, 0), w)
      else case sys_malloc T (new_cap + SSL3_ALIGN_PAYLOAD - 1) w of
        (None, w1) \<Rightarrow> (None, w1)
      | (Some (addr, m), w1) \<Rightarrow>
          (Some (Malloc addr m, nat ((0 - int header_len - int addr) mod int SSL3_ALIGN_PAYLOAD)), w1))"

definition SSLBuffer_EnsureCap ::
  "'w transport \<Rightarrow> nat \<Rightarrow> nat \<Rightarrow> SSLBuffer \<Rightarrow> 'w \<Rightarrow> (bool \<times> SSLBuffer \<times> 'w) option" where
  "SSLBuffer_EnsureCap T header_len new_cap b w =
     (if new_cap > 0xffff then Some (False, b, w)
      else if sb_cap b \<ge> new_cap then Some (True, b, w)
      else case new_block T header_len new_cap w of
        (None, w1) \<Rightarrow> Some (False, b, w1)
      | (Some (new_buf, new_offset), w1) \<Rightarrow>
          do {
            contents \<leftarrow> peek_span b;
            b1 \<leftarrow> poke new_offset contents (b\<lparr>sb_buf := new_buf\<rparr>);
            Some (True, b1\<lparr>sb_offset := new_offset mod 65536, sb_cap := new_cap mod 65536\<rparr>, w1)
          })"

text \<open>\<open>cap() - size()\<close> is computed in \<open>size_t\<close>.\<close>

definition SSLBuffer_DidWrite :: "nat \<Rightarrow> SSLBuffer \<Rightarrow> SSLBuffer option" where
  "SSLBuffer_DidWrite new_size b =
     (if new_size > (2 ^ 64 + sb_cap b - sb_size b) mod 2 ^ 64 then None
      else Some (b\<lparr>sb_size := (sb_size b + new_size) mod 65536\<rparr>))"

definition SSLBuffer_Consume :: "nat \<Rightarrow> SSLBuffer \<Rightarrow> SSLBuffer option" where
  "SSLBuffer_Consume n b =
     (if n > sb_size b then None
      else Some (b\<lparr>sb_offset := (sb_offset b + n mod 65536) mod 65536,
                   sb_size := (65536 + sb_size b - n mod 65536) mod 65536,
                   sb_cap := (65536 + sb_cap b - n mod 65536) mod 65536\<rparr>))"

definition SSLBuffer_DiscardConsumed :: "SSLBuffer \<Rightarrow> SSLBuffer" where
  "SSLBuffer_DiscardConsumed b = (if sb_size b = 0 then SSLBuffer_Clear b else b)"

subsection \<open>Reading\<close>

record 'w ssl_io =
  io_dtls :: bool
  rbio_set :: bool
  wbio_set :: bool
  read_buffer :: SSLBuffer
  write_buffer :: SSLBuffer
  rwstate :: int
  io_world :: 'w

text \<open>Bytes that \<open>BIO_read\<close> stored after the contents of the read buffer.\<close>

definition took :: "int \<Rightarrow> byte list \<Rightarrow> SSLBuffer \<Rightarrow> SSLBuffer option" where
  "took ret bs b =
     do { b1 \<leftarrow> poke (sb_offset b + sb_size b) bs b;
          SSLBuffer_DidWrite (nat ret) b1 }"

definition dtls_read_buffer_next_packet :: "'w transport \<Rightarrow> 'w ssl_io \<Rightarrow> (int \<times> 'w ssl_io) option" where
  "dtls_read_buffer_next_packet T s =
     (if sb_size (read_buffer s) \<noteq> 0 then Some (- 1, s)
      else case bio_read T (sb_cap (read_buffer s)) (io_world s) of (ret, bs, w) \<Rightarrow>
        if ret \<le> 0 then Some (ret, s\<lparr>io_world := w, rwstate := SSL_ERROR_WANT_READ\<rparr>)
        else do { b \<leftarrow> took ret bs (read_buffer s);
                  Some (1, s\<lparr>io_world := w, read_buffer := b\<rparr>) })"

partial_function (option) tls_read_loop :: "'w transport \<Rightarrow> nat \<Rightarrow> 'w ssl_io \<Rightarrow> (int \<times> 'w ssl_io) option" where
  "tls_read_loop T n s =
     (if sb_size (read_buffer s) < n then
        (case bio_read T (n - sb_size (read_buffer s)) (io_world s) of (ret, bs, w) \<Rightarrow>
           if ret \<le> 0 then Some (ret, s\<lparr>io_world := w, rwstate := SSL_ERROR_WANT_READ\<rparr>)
           else do { b \<leftarrow> took ret bs (read_buffer s);
                     tls_read_loop T n (s\<lparr>io_world := w, read_buffer := b\<rparr>) })
      else Some (1, s))"

definition tls_read_buffer_extend_to :: "'w transport \<Rightarrow> nat \<Rightarrow> 'w ssl_io \<Rightarrow> (int \<times> 'w ssl_io) option" where
  "tls_read_buffer_extend_to T n s = (if n > sb_cap (read_buffer s) then Some (- 1, s) else tls_read_loop T n s)"

definition discard :: "'w ssl_io \<Rightarrow> 'w ssl_io" where
  "discard s = s\<lparr>read_buffer := SSLBuffer_DiscardConsumed (read_buffer s)\<rparr>"

definition ssl_read_buffer_extend_to :: "'w transport \<Rightarrow> nat \<Rightarrow> 'w ssl_io \<Rightarrow> (int \<times> 'w ssl_io) option" where
  "ssl_read_buffer_extend_to T n0 s0 =
     (let s = discard s0;
          n = (if io_dtls s then DTLS1_RT_MAX_HEADER_LENGTH + SSL3_RT_MAX_ENCRYPTED_LENGTH else n0) in
      do {
        (ok, b, w) \<leftarrow> SSLBuffer_EnsureCap T DTLS1_RT_MAX_HEADER_LENGTH n (read_buffer s) (io_world s);
        let s1 = s\<lparr>read_buffer := b, io_world := w\<rparr>;
        if \<not> ok then Some (- 1, s1)
        else if \<not> rbio_set s1 then Some (- 1, s1)
        else do {
          (ret, s2) \<leftarrow> (if io_dtls s1 then dtls_read_buffer_next_packet T s1 else tls_read_buffer_extend_to T n s1);
          Some (ret, if ret \<le> 0 then discard s2 else s2)
        }
      })"

datatype ssl_open_record_t =
    ssl_open_record_success | ssl_open_record_discard | ssl_open_record_partial
  | ssl_open_record_close_notify | ssl_open_record_error

text \<open>
  The result and \<open>*out_retry\<close>. \<open>send_alert\<close> is \<open>ssl_send_alert\<close> at the level \<open>fatal\<close>.
\<close>

definition ssl_handle_open_record ::
  "'w transport \<Rightarrow> (byte \<Rightarrow> 'w ssl_io \<Rightarrow> 'w ssl_io) \<Rightarrow> ssl_open_record_t \<Rightarrow> nat \<Rightarrow> byte \<Rightarrow> 'w ssl_io
   \<Rightarrow> (int \<times> bool \<times> 'w ssl_io) option" where
  "ssl_handle_open_record T send_alert ret consumed alert s =
     do {
       b \<leftarrow> (if ret \<noteq> ssl_open_record_partial then SSLBuffer_Consume consumed (read_buffer s) else Some (read_buffer s));
       let s1 = s\<lparr>read_buffer := b\<rparr>;
       let s2 = (if ret \<noteq> ssl_open_record_success then discard s1 else s1);
       case ret of
         ssl_open_record_success \<Rightarrow> Some (1, False, s2)
       | ssl_open_record_partial \<Rightarrow>
           do { (read_ret, s3) \<leftarrow> ssl_read_buffer_extend_to T consumed s2;
                Some (if read_ret \<le> 0 then (read_ret, False, s3) else (1, True, s3)) }
       | ssl_open_record_discard \<Rightarrow> Some (1, True, s2)
       | ssl_open_record_close_notify \<Rightarrow> Some (0, False, s2\<lparr>rwstate := SSL_ERROR_ZERO_RETURN\<rparr>)
       | ssl_open_record_error \<Rightarrow> Some (- 1, False, if alert \<noteq> 0 then send_alert alert s2 else s2)
     }"

subsection \<open>Writing\<close>

partial_function (option) tls_write_loop :: "'w transport \<Rightarrow> 'w ssl_io \<Rightarrow> (int \<times> 'w ssl_io) option" where
  "tls_write_loop T s =
     (if sb_size (write_buffer s) \<noteq> 0 then
        do {
          contents \<leftarrow> peek_span (write_buffer s);
          (case bio_write T contents (io_world s) of (ret, w) \<Rightarrow>
             if ret \<le> 0 then Some (ret, s\<lparr>io_world := w, rwstate := SSL_ERROR_WANT_WRITE\<rparr>)
             else do { b \<leftarrow> SSLBuffer_Consume (nat ret) (write_buffer s);
                       tls_write_loop T (s\<lparr>io_world := w, write_buffer := b\<rparr>) })
        }
      else Some (1, s\<lparr>write_buffer := SSLBuffer_Clear (write_buffer s)\<rparr>))"

definition tls_write_buffer_flush :: "'w transport \<Rightarrow> 'w ssl_io \<Rightarrow> (int \<times> 'w ssl_io) option" where
  "tls_write_buffer_flush T s = tls_write_loop T s"

definition dtls_write_buffer_flush :: "'w transport \<Rightarrow> 'w ssl_io \<Rightarrow> (int \<times> 'w ssl_io) option" where
  "dtls_write_buffer_flush T s =
     (if sb_size (write_buffer s) = 0 then Some (1, s)
      else do {
        contents \<leftarrow> peek_span (write_buffer s);
        (case bio_write T contents (io_world s) of (ret, w) \<Rightarrow>
           let s1 = s\<lparr>io_world := w, write_buffer := SSLBuffer_Clear (write_buffer s)\<rparr> in
           if ret \<le> 0 then Some (ret, s1\<lparr>rwstate := SSL_ERROR_WANT_WRITE\<rparr>) else Some (1, s1))
      })"

definition ssl_write_buffer_flush :: "'w transport \<Rightarrow> 'w ssl_io \<Rightarrow> (int \<times> 'w ssl_io) option" where
  "ssl_write_buffer_flush T s =
     (if \<not> wbio_set s then Some (- 1, s)
      else if io_dtls s then dtls_write_buffer_flush T s
      else tls_write_buffer_flush T s)"

end
