(* ===== verification/Ssl_Buffer_Props.thy ===== *)
theory Ssl_Buffer_Props
  imports Ssl_Buffer
begin

text \<open>
  The record buffers are queues of bytes: what the record layer takes out of the read buffer is what the
  transport delivered, in order and without loss, and what the transport gets of the write buffer is what was
  put into it. The contract of such a queue is the locale \<open>byte_fifo\<close>, interpreted by \<open>SSLBuffer\<close>.
\<close>

subsection \<open>Queues of bytes\<close>

locale byte_fifo =
  fixes ok :: "'b \<Rightarrow> bool" and contents :: "'b \<Rightarrow> byte list" and room :: "'b \<Rightarrow> nat"
    and put :: "int \<Rightarrow> byte list \<Rightarrow> 'b \<Rightarrow> 'b option" and remove :: "nat \<Rightarrow> 'b \<Rightarrow> 'b option"
  assumes put: "ok b \<Longrightarrow> length bs = nat r \<Longrightarrow> length (contents b) + nat r \<le> room b \<Longrightarrow>
      \<exists>b'. put r bs b = Some b' \<and> ok b' \<and> contents b' = contents b @ bs \<and> room b' = room b"
    and remove: "ok b \<Longrightarrow> n \<le> length (contents b) \<Longrightarrow>
      \<exists>b'. remove n b = Some b' \<and> ok b' \<and> contents b' = drop n (contents b) \<and> room b' = room b - n"
begin

lemma put_log:
  assumes "ok b" "length bs = nat r" "length (contents b) + nat r \<le> room b" "all = log @ contents b"
  obtains b' where "put r bs b = Some b'" "ok b'" "contents b' = contents b @ bs" "room b' = room b"
    "all @ bs = log @ contents b'"
  using put[OF assms(1-3)] assms(4) by auto

lemma remove_log:
  assumes "ok b" "n \<le> length (contents b)" "all = log @ contents b"
  obtains b' where "remove n b = Some b'" "ok b'" "contents b' = drop n (contents b)" "all = (log @ take n (contents b)) @ contents b'"
  using remove[OF assms(1,2)] assms(3) by auto

end

text \<open>
  Buffers in use. The bound on \<open>offset_ + cap_\<close> is what keeps \<open>offset_\<close> from wrapping; a capacity of at most
  \<open>0xffff - 7\<close> guarantees it.
\<close>

definition buf_ok :: "SSLBuffer \<Rightarrow> bool" where
  "buf_ok b \<longleftrightarrow> sb_size b \<le> sb_cap b \<and> sb_offset b + sb_cap b \<le> 0xffff \<and>
     sb_offset b + sb_cap b \<le> length (memory b) \<and> length (sb_inline b) = 5"

definition max_cap :: nat where
  "max_cap = 0xffff - 7"

lemma length_span: "buf_ok b \<Longrightarrow> length (span b) = sb_size b"
  by (auto simp: buf_ok_def span_def)

lemma peek_span_ok: "buf_ok b \<Longrightarrow> peek_span b = Some (span b)"
  by (auto simp: buf_ok_def peek_span_def)

lemma memory_fields [simp]:
  "memory (b\<lparr>sb_offset := x\<rparr>) = memory b" "memory (b\<lparr>sb_size := x\<rparr>) = memory b" "memory (b\<lparr>sb_cap := x\<rparr>) = memory b"
  by (cases "sb_buf b"; simp add: memory_def)+

lemma poke_ok:
  assumes "pos + length bs \<le> length (memory b)"
  obtains b' where "poke pos bs b = Some b'" "memory b' = write_at pos bs (memory b)" "sb_offset b' = sb_offset b"
    "sb_size b' = sb_size b" "sb_cap b' = sb_cap b" "length (sb_inline b') = length (sb_inline b)"
proof (cases "bs = []")
  case True
  then show thesis using that[of b] by (simp add: poke_def write_at_def)
next
  case False
  show thesis
  proof (cases "sb_buf b")
    case Null
    then show thesis using False assms by (simp add: memory_def)
  next
    case Inline
    let ?b = "b\<lparr>sb_inline := write_at pos bs (sb_inline b)\<rparr>"
    show thesis using that[of ?b] Inline False assms by (simp add: poke_def memory_def)
  next
    case (Malloc a m)
    let ?b = "b\<lparr>sb_buf := Malloc a (write_at pos bs m)\<rparr>"
    show thesis using that[of ?b] Malloc False assms by (simp add: poke_def memory_def)
  qed
qed

lemma DidWrite_ok:
  assumes "buf_ok b" "sb_size b + n \<le> sb_cap b"
  shows "SSLBuffer_DidWrite n b = Some (b\<lparr>sb_size := sb_size b + n\<rparr>)"
proof -
  have c: "sb_size b \<le> sb_cap b" "sb_cap b \<le> 0xffff" using assms(1) by (auto simp: buf_ok_def)
  then have "2 ^ 64 + sb_cap b - sb_size b = 2 ^ 64 + (sb_cap b - sb_size b)" by simp
  then have "(2 ^ 64 + sb_cap b - sb_size b) mod 2 ^ 64 = sb_cap b - sb_size b" using c by (simp only: mod_add_self1) simp
  then show ?thesis unfolding SSLBuffer_DidWrite_def using assms(2) c by simp
qed

lemma take_append_write:
  assumes "pos + n + length bs \<le> length m"
  shows "take (n + length bs) (drop pos (write_at (pos + n) bs m)) = take n (drop pos m) @ bs"
  using assms by (simp add: write_at_def drop_take)

lemma Consume_ok:
  assumes "buf_ok b" "n \<le> sb_size b"
  shows "SSLBuffer_Consume n b = Some (b\<lparr>sb_offset := sb_offset b + n, sb_size := sb_size b - n, sb_cap := sb_cap b - n\<rparr>)"
proof -
  have "n \<le> sb_cap b" "sb_offset b + n < 65536" "sb_size b - n < 65536" "sb_cap b - n < 65536" "n < 65536"
    using assms by (auto simp: buf_ok_def)
  note small = this
  have "(65536 + x - n) mod 65536 = x - n" if "n \<le> x" "x - n < 65536" for x
    using that(2) unfolding diff_add_assoc[OF that(1)] mod_add_self1 by (rule mod_less)
  then have "(65536 + sb_size b - n) mod 65536 = sb_size b - n" "(65536 + sb_cap b - n) mod 65536 = sb_cap b - n"
    using assms(2) small by blast+
  then show ?thesis using assms(2) small(2,5) by (simp add: SSLBuffer_Consume_def)
qed

interpretation sb: byte_fifo buf_ok span sb_cap took SSLBuffer_Consume
proof
  fix b and bs :: "byte list" and r
  assume b: "buf_ok b" "length bs = nat r" "length (span b) + nat r \<le> sb_cap b"
  then have fit: "sb_offset b + sb_size b + length bs \<le> length (memory b)" by (auto simp: buf_ok_def length_span)
  obtain b1 where b1: "poke (sb_offset b + sb_size b) bs b = Some b1" "memory b1 = write_at (sb_offset b + sb_size b) bs (memory b)"
    "sb_offset b1 = sb_offset b" "sb_size b1 = sb_size b" "sb_cap b1 = sb_cap b" "length (sb_inline b1) = length (sb_inline b)"
    by (rule poke_ok[OF fit])
  have ok1: "buf_ok b1" using b(1) b1 fit by (simp add: buf_ok_def)
  let ?b = "b1\<lparr>sb_size := sb_size b + nat r\<rparr>"
  have "took r bs b = Some ?b"
    using b1 b DidWrite_ok[OF ok1, of "nat r"] by (simp add: took_def length_span)
  moreover have "span ?b = span b @ bs"
    using take_append_write[of "sb_offset b" "sb_size b" bs "memory b"] fit b(2) by (simp add: span_def b1)
  moreover have "buf_ok ?b" using ok1 b b1 by (simp add: buf_ok_def length_span)
  ultimately show "\<exists>b'. took r bs b = Some b' \<and> buf_ok b' \<and> span b' = span b @ bs \<and> sb_cap b' = sb_cap b"
    using b1 by auto
next
  fix b n
  assume b: "buf_ok b" "n \<le> length (span b)"
  then have n: "n \<le> sb_size b" by (simp add: length_span)
  show "\<exists>b'. SSLBuffer_Consume n b = Some b' \<and> buf_ok b' \<and> span b' = drop n (span b) \<and> sb_cap b' = sb_cap b - n"
    using Consume_ok[OF b(1) n] b(1) n by (auto simp: buf_ok_def span_def drop_take add.commute)
qed

lemma Clear_ok: "buf_ok b \<Longrightarrow> buf_ok (SSLBuffer_Clear b) \<and> span (SSLBuffer_Clear b) = []"
  by (simp add: buf_ok_def SSLBuffer_Clear_def span_def)

lemma Discard_ok: "buf_ok b \<Longrightarrow> buf_ok (SSLBuffer_DiscardConsumed b) \<and> span (SSLBuffer_DiscardConsumed b) = span b"
  using Clear_ok[of b] length_span[of b] by (auto simp: SSLBuffer_DiscardConsumed_def)

subsection \<open>The environment\<close>

text \<open>
  What the code relies on: a positive result of \<open>BIO_read\<close> or \<open>BIO_write\<close> is the number of bytes moved, at most as
  many as asked for, a result of 0 or less moves none, and \<open>malloc\<close> returns a block of the size asked for. \<open>received\<close> and
  \<open>sent\<close> are the bytes the transport has delivered and accepted.
\<close>

definition bio_ok :: "'w transport \<Rightarrow> ('w \<Rightarrow> byte list) \<Rightarrow> ('w \<Rightarrow> byte list) \<Rightarrow> bool" where
  "bio_ok T received sent \<longleftrightarrow>
     (\<forall>n w r bs w'. bio_read T n w = (r, bs, w') \<longrightarrow> sent w' = sent w \<and>
        (if r > 0 then nat r \<le> n \<and> length bs = nat r \<and> received w' = received w @ bs else received w' = received w)) \<and>
     (\<forall>bs w r w'. bio_write T bs w = (r, w') \<longrightarrow> received w' = received w \<and>
        (if r > 0 then nat r \<le> length bs \<and> sent w' = sent w @ take (nat r) bs else sent w' = sent w)) \<and>
     (\<forall>n w r w'. sys_malloc T n w = (r, w') \<longrightarrow> received w' = received w \<and> sent w' = sent w \<and>
        (case r of None \<Rightarrow> True | Some (a, m) \<Rightarrow> length m = n))"

lemma bio_read_ok:
  assumes "bio_ok T received sent" "bio_read T n w = (r, bs, w')"
  shows "sent w' = sent w" "r > 0 \<Longrightarrow> nat r \<le> n \<and> length bs = nat r \<and> received w' = received w @ bs"
    "\<not> r > 0 \<Longrightarrow> received w' = received w"
  using assms unfolding bio_ok_def by (metis (no_types, lifting))+

lemma bio_write_ok:
  assumes "bio_ok T received sent" "bio_write T bs w = (r, w')"
  shows "received w' = received w" "r > 0 \<Longrightarrow> nat r \<le> length bs \<and> sent w' = sent w @ take (nat r) bs"
    "\<not> r > 0 \<Longrightarrow> sent w' = sent w"
  using assms unfolding bio_ok_def by (metis (no_types, lifting))+

lemma malloc_ok:
  assumes "bio_ok T received sent" "sys_malloc T n w = (r, w')"
  shows "received w' = received w" "sent w' = sent w" "r = Some (a, m) \<Longrightarrow> length m = n"
proof -
  have "\<forall>n w r w'. sys_malloc T n w = (r, w') \<longrightarrow> received w' = received w \<and> sent w' = sent w \<and>
        (case r of None \<Rightarrow> True | Some (a, m) \<Rightarrow> length m = n)"
    using assms(1) unfolding bio_ok_def by (elim conjE)
  from this[rule_format, OF assms(2)]
  show "received w' = received w" "sent w' = sent w" "r = Some (a, m) \<Longrightarrow> length m = n" by simp_all
qed

lemma EnsureCap_ok:
  assumes T: "bio_ok T received sent" and b: "buf_ok b" and cap: "new_cap \<le> max_cap"
  obtains r b' w' where "SSLBuffer_EnsureCap T header_len new_cap b w = Some (r, b', w')" "buf_ok b'" "span b' = span b"
    "r \<longrightarrow> new_cap \<le> sb_cap b'" "received w' = received w" "sent w' = sent w"
proof (cases "sb_cap b \<ge> new_cap")
  case True
  then show thesis using that[of True b w] b cap by (simp add: SSLBuffer_EnsureCap_def max_cap_def)
next
  case False
  obtain nb w1 where nb: "new_block T header_len new_cap w = (nb, w1)" by fastforce
  have w1: "received w1 = received w" "sent w1 = sent w"
    using nb malloc_ok(1,2)[OF T] by (auto simp: new_block_def split: if_splits prod.splits option.splits)
  show thesis
  proof (cases nb)
    case None
    then show thesis using that[of False b w1] b cap False nb w1 by (simp add: SSLBuffer_EnsureCap_def max_cap_def)
  next
    case (Some blk)
    obtain new_buf off where blk: "blk = (new_buf, off)" by fastforce
    let ?b = "b\<lparr>sb_buf := new_buf\<rparr>"
    have size: "sb_size b \<le> new_cap" using False b by (simp add: buf_ok_def)
    have mem: "off + new_cap \<le> length (memory ?b) \<and> off \<le> 7"
    proof (cases "new_cap \<le> 5")
      case True
      then show ?thesis using nb Some blk b by (auto simp: new_block_def memory_def buf_ok_def)
    next
      case False
      obtain a m where m: "sys_malloc T (new_cap + 8 - 1) w = (Some (a, m), w1)" "new_buf = Malloc a m"
        "off = nat ((0 - int header_len - int a) mod 8)"
        using nb Some blk False by (auto simp: new_block_def split: prod.splits option.splits)
      have "off \<le> 7" unfolding m(3) by linarith
      then show ?thesis using malloc_ok(3)[OF T m(1) refl] by (simp add: m(2) memory_def)
    qed
    have fit: "off + length (span b) \<le> length (memory ?b)" using mem size b by (simp add: length_span)
    obtain b1 where b1: "poke off (span b) ?b = Some b1" "memory b1 = write_at off (span b) (memory ?b)"
      "sb_offset b1 = sb_offset b" "sb_size b1 = sb_size b" "sb_cap b1 = sb_cap b" "length (sb_inline b1) = length (sb_inline b)"
      by (rule poke_ok[OF fit]) auto
    let ?b' = "b1\<lparr>sb_offset := off mod 65536, sb_cap := new_cap mod 65536\<rparr>"
    have small: "off mod 65536 = off" "new_cap mod 65536 = new_cap" using mem cap by (simp_all add: max_cap_def)
    have "SSLBuffer_EnsureCap T header_len new_cap b w = Some (True, ?b', w1)"
      using False cap nb Some blk b1(1) peek_span_ok[OF b] by (simp add: SSLBuffer_EnsureCap_def max_cap_def)
    moreover have "buf_ok ?b'" using b b1 mem size fit cap by (simp add: small buf_ok_def max_cap_def)
    moreover have "span ?b' = span b"
      using take_append_write[of off 0 "span b" "memory ?b"] fit b unfolding span_def[of ?b'] by (simp add: small b1 length_span)
    ultimately show thesis using that w1 by (simp add: small)
  qed
qed

subsection \<open>Reading\<close>

text \<open>
  What a call that reads does to a connection: it appends what the transport delivered to the contents of the
  read buffer and touches nothing else but \<open>rwstate\<close>.
\<close>

definition pulls :: "('w \<Rightarrow> byte list) \<Rightarrow> ('w \<Rightarrow> byte list) \<Rightarrow> 'w ssl_io \<Rightarrow> 'w ssl_io \<Rightarrow> bool" where
  "pulls received sent s s' \<longleftrightarrow>
     (\<exists>bs. received (io_world s') = received (io_world s) @ bs \<and> span (read_buffer s') = span (read_buffer s) @ bs) \<and>
     buf_ok (read_buffer s') \<and> sent (io_world s') = sent (io_world s) \<and> write_buffer s' = write_buffer s \<and>
     io_dtls s' = io_dtls s \<and> rbio_set s' = rbio_set s \<and> wbio_set s' = wbio_set s"

lemma pulls_refl: "buf_ok (read_buffer s) \<Longrightarrow> pulls received sent s s"
  by (simp add: pulls_def)

lemma pulls_trans: "pulls received sent s s1 \<Longrightarrow> pulls received sent s1 s2 \<Longrightarrow> pulls received sent s s2"
  unfolding pulls_def by (elim conjE exE, intro conjI) (rule exI, auto)

lemma pulls_discard: "buf_ok (read_buffer s) \<Longrightarrow> pulls received sent s (discard s)"
  using Discard_ok[of "read_buffer s"] by (simp add: pulls_def discard_def)

lemma pulls_rwstate [simp]: "pulls received sent s (s'\<lparr>rwstate := x\<rparr>) = pulls received sent s s'"
  by (simp add: pulls_def)

text \<open>One successful or failed \<open>BIO_read\<close>.\<close>

lemma read_failed_pulls:
  assumes "bio_ok T received sent" "bio_read T n (io_world s) = (r, bs, w)" "\<not> r > 0" "buf_ok (read_buffer s)"
  shows "pulls received sent s (s\<lparr>io_world := w\<rparr>)"
  using bio_read_ok[OF assms(1,2)] assms(3,4) by (simp add: pulls_def)

lemma read_took_pulls:
  assumes "bio_ok T received sent" "bio_read T n (io_world s) = (r, bs, w)" "r > 0" "buf_ok (read_buffer s)"
    "sb_size (read_buffer s) + n \<le> sb_cap (read_buffer s)"
  obtains b where "took r bs (read_buffer s) = Some b" "sb_cap b = sb_cap (read_buffer s)"
    "sb_size b = sb_size (read_buffer s) + nat r" "pulls received sent s (s\<lparr>io_world := w, read_buffer := b\<rparr>)"
proof -
  note bs = bio_read_ok(2)[OF assms(1,2,3)]
  have fit: "length (span (read_buffer s)) + nat r \<le> sb_cap (read_buffer s)"
    using assms(4,5) bs by (simp add: length_span)
  obtain b where b: "took r bs (read_buffer s) = Some b" "buf_ok b" "span b = span (read_buffer s) @ bs"
    "sb_cap b = sb_cap (read_buffer s)"
    using sb.put[OF assms(4) _ fit] bs by blast
  have "sb_size b = sb_size (read_buffer s) + nat r"
    using b(2,3) assms(4) bs length_span[of b] length_span[of "read_buffer s"] by simp
  then show thesis using that b bs bio_read_ok(1)[OF assms(1,2)] by (simp add: pulls_def)
qed

lemma tls_read_loop_pulls:
  assumes T: "bio_ok T received sent" and "buf_ok (read_buffer s)" "n \<le> sb_cap (read_buffer s)"
  shows "\<exists>r s'. tls_read_loop T n s = Some (r, s') \<and> pulls received sent s s' \<and> (0 < r \<longrightarrow> r = 1 \<and> n \<le> sb_size (read_buffer s'))"
  using assms(2,3)
proof (induction "n - sb_size (read_buffer s)" arbitrary: s rule: less_induct)
  case less
  show ?case
  proof (cases "sb_size (read_buffer s) < n")
    case False
    then show ?thesis using less.prems by (simp add: tls_read_loop.simps[of T n s] pulls_refl)
  next
    case True
    obtain r bs w where rd: "bio_read T (n - sb_size (read_buffer s)) (io_world s) = (r, bs, w)" by (metis prod_cases3)
    show ?thesis
    proof (cases "r > 0")
      case False
      then show ?thesis
        using read_failed_pulls[OF T rd False less.prems(1)] True rd by (simp add: tls_read_loop.simps[of T n s])
    next
      case r: True
      obtain b where b: "took r bs (read_buffer s) = Some b" "sb_cap b = sb_cap (read_buffer s)"
        "sb_size b = sb_size (read_buffer s) + nat r" "pulls received sent s (s\<lparr>io_world := w, read_buffer := b\<rparr>)"
        by (rule read_took_pulls[OF T rd r less.prems(1)]) (use True less.prems in auto)
      let ?s = "s\<lparr>io_world := w, read_buffer := b\<rparr>"
      have run: "tls_read_loop T n s = tls_read_loop T n ?s"
        using True rd r b(1) by (subst tls_read_loop.simps) simp
      have "buf_ok (read_buffer ?s)" using b(4) by (simp add: pulls_def)
      then obtain r' s' where "tls_read_loop T n ?s = Some (r', s')" "pulls received sent ?s s'"
        "0 < r' \<longrightarrow> r' = 1 \<and> n \<le> sb_size (read_buffer s')"
        using less.hyps[of ?s] b(2,3) True r less.prems(2) by force
      then show ?thesis using pulls_trans[OF b(4)] run by auto
    qed
  qed
qed

lemma dtls_read_pulls:
  assumes T: "bio_ok T received sent" and b: "buf_ok (read_buffer s)"
  shows "\<exists>r s'. dtls_read_buffer_next_packet T s = Some (r, s') \<and> pulls received sent s s' \<and> (0 < r \<longrightarrow> r = 1)"
proof (cases "sb_size (read_buffer s) = 0")
  case True
  obtain r bs w where rd: "bio_read T (sb_cap (read_buffer s)) (io_world s) = (r, bs, w)" by (metis prod_cases3)
  show ?thesis
  proof (cases "r > 0")
    case False
    then show ?thesis using read_failed_pulls[OF T rd False b] True rd by (simp add: dtls_read_buffer_next_packet_def)
  next
    case r: True
    obtain b' where "took r bs (read_buffer s) = Some b'" "pulls received sent s (s\<lparr>io_world := w, read_buffer := b'\<rparr>)"
      by (rule read_took_pulls[OF T rd r b]) (use True in auto)
    then show ?thesis using True rd r by (simp add: dtls_read_buffer_next_packet_def)
  qed
qed (simp add: dtls_read_buffer_next_packet_def pulls_refl[OF b])

lemma extend_to_pulls:
  assumes T: "bio_ok T received sent" and b: "buf_ok (read_buffer s)" and n: "n \<le> max_cap"
  shows "\<exists>r s'. ssl_read_buffer_extend_to T n s = Some (r, s') \<and> pulls received sent s s' \<and>
    (0 < r \<longrightarrow> r = 1 \<and> (\<not> io_dtls s \<longrightarrow> n \<le> sb_size (read_buffer s')))"
proof -
  define s0 where "s0 = discard s"
  have p0: "pulls received sent s s0" unfolding s0_def by (rule pulls_discard[OF b])
  then have b0: "buf_ok (read_buffer s0)" and d0: "io_dtls s0 = io_dtls s" by (simp_all add: pulls_def)
  define n1 where "n1 = (if io_dtls s0 then 13 + 16704 else n)"
  have "n1 \<le> max_cap" using n by (simp add: n1_def max_cap_def)
  then obtain ok b1 w1 where e: "SSLBuffer_EnsureCap T 13 n1 (read_buffer s0) (io_world s0) = Some (ok, b1, w1)" "buf_ok b1"
    "span b1 = span (read_buffer s0)" "ok \<longrightarrow> n1 \<le> sb_cap b1" "received w1 = received (io_world s0)" "sent w1 = sent (io_world s0)"
    by (rule EnsureCap_ok[OF T b0, where header_len = 13 and w = "io_world s0"])
  let ?s1 = "s0\<lparr>read_buffer := b1, io_world := w1\<rparr>"
  have p1: "pulls received sent s ?s1" by (rule pulls_trans[OF p0]) (simp add: pulls_def e)
  show ?thesis
  proof (cases "ok \<and> rbio_set ?s1")
    case False
    then show ?thesis using p1 e(1)
      by (cases ok) (simp_all add: ssl_read_buffer_extend_to_def s0_def[symmetric] n1_def[symmetric] Let_def)
  next
    case True
    obtain r s2 where r: "(if io_dtls ?s1 then dtls_read_buffer_next_packet T ?s1 else tls_read_buffer_extend_to T n1 ?s1) = Some (r, s2)"
      "pulls received sent ?s1 s2" "0 < r \<longrightarrow> r = 1 \<and> (\<not> io_dtls s \<longrightarrow> n \<le> sb_size (read_buffer s2))"
      using dtls_read_pulls[OF T, of ?s1] tls_read_loop_pulls[OF T, of ?s1 n1] e(2,4) True d0
      by (cases "io_dtls s") (auto simp: tls_read_buffer_extend_to_def n1_def)
    have p2: "pulls received sent s s2" by (rule pulls_trans[OF p1 r(2)])
    moreover have "pulls received sent s (discard s2)"
      by (rule pulls_trans[OF p2 pulls_discard]) (use p2 in \<open>simp add: pulls_def\<close>)
    moreover have "ssl_read_buffer_extend_to T n s = Some (r, if r \<le> 0 then discard s2 else s2)"
      using e(1)[unfolded n1_def] r(1)[unfolded n1_def] True
      by (cases "io_dtls s0") (simp_all add: ssl_read_buffer_extend_to_def s0_def[symmetric] Let_def)
    ultimately show ?thesis using r(3) by auto
  qed
qed

text \<open>
  A connection in use: the record layer extends the buffer and hands back what each record took of it. The last
  argument is the bytes taken so far.
\<close>

inductive read_reach ::
  "'w transport \<Rightarrow> (byte \<Rightarrow> 'w ssl_io \<Rightarrow> 'w ssl_io) \<Rightarrow> 'w ssl_io \<Rightarrow> 'w ssl_io \<Rightarrow> byte list \<Rightarrow> bool"
  for T send_alert s0 where
  start: "read_reach T send_alert s0 s0 []"
| extend: "read_reach T send_alert s0 s taken \<Longrightarrow> n \<le> max_cap \<Longrightarrow> ssl_read_buffer_extend_to T n s = Some (r, s') \<Longrightarrow>
    read_reach T send_alert s0 s' taken"
| more: "read_reach T send_alert s0 s taken \<Longrightarrow> n \<le> max_cap \<Longrightarrow>
    ssl_handle_open_record T send_alert ssl_open_record_partial n alert s = Some (r, retry, s') \<Longrightarrow>
    read_reach T send_alert s0 s' taken"
| opened: "read_reach T send_alert s0 s taken \<Longrightarrow> ret \<noteq> ssl_open_record_partial \<Longrightarrow> n \<le> sb_size (read_buffer s) \<Longrightarrow>
    ssl_handle_open_record T send_alert ret n alert s = Some (r, retry, s') \<Longrightarrow>
    read_reach T send_alert s0 s' (taken @ take n (span (read_buffer s)))"

text \<open>Sending an alert does not read.\<close>

definition alert_ok :: "('w \<Rightarrow> byte list) \<Rightarrow> (byte \<Rightarrow> 'w ssl_io \<Rightarrow> 'w ssl_io) \<Rightarrow> bool" where
  "alert_ok received send_alert \<longleftrightarrow>
     (\<forall>a s. read_buffer (send_alert a s) = read_buffer s \<and> received (io_world (send_alert a s)) = received (io_world s))"

definition in_step :: "('w \<Rightarrow> byte list) \<Rightarrow> 'w ssl_io \<Rightarrow> 'w ssl_io \<Rightarrow> byte list \<Rightarrow> bool" where
  "in_step received s0 s taken \<longleftrightarrow> buf_ok (read_buffer s) \<and>
     received (io_world s) = received (io_world s0) @ taken @ span (read_buffer s)"

lemma pulls_in_step: "in_step received s0 s taken \<Longrightarrow> pulls received sent s s' \<Longrightarrow> in_step received s0 s' taken"
  by (auto simp: in_step_def pulls_def)

lemma partial_eq:
  "ssl_handle_open_record T send_alert ssl_open_record_partial n alert s =
     map_option (\<lambda>(r, s'). if r \<le> 0 then (r, False, s') else (1, True, s')) (ssl_read_buffer_extend_to T n (discard s))"
  by (cases "ssl_read_buffer_extend_to T n (discard s)") (auto simp: ssl_handle_open_record_def Let_def)

lemma partial_in_step:
  assumes "bio_ok T received sent" "in_step received s0 s taken" "n \<le> max_cap"
  shows "\<exists>r retry s'. ssl_handle_open_record T send_alert ssl_open_record_partial n alert s = Some (r, retry, s') \<and>
    in_step received s0 s' taken"
proof -
  have "in_step received s0 (discard s) taken"
    by (rule pulls_in_step[OF assms(2) pulls_discard]) (use assms(2) in \<open>simp add: in_step_def\<close>)
  then obtain r s' where "ssl_read_buffer_extend_to T n (discard s) = Some (r, s')" "in_step received s0 s' taken"
    using extend_to_pulls[OF assms(1) _ assms(3), of "discard s"] pulls_in_step by (metis in_step_def)
  then show ?thesis by (cases "r \<le> 0") (auto simp: partial_eq)
qed

lemma opened_in_step:
  assumes a: "alert_ok received send_alert" and s: "in_step received s0 s taken"
    and n: "n \<le> sb_size (read_buffer s)" "ret \<noteq> ssl_open_record_partial"
  shows "\<exists>r retry s'. ssl_handle_open_record T send_alert ret n alert s = Some (r, retry, s') \<and>
    in_step received s0 s' (taken @ take n (span (read_buffer s)))"
proof -
  have s': "buf_ok (read_buffer s)" "received (io_world s) = (received (io_world s0) @ taken) @ span (read_buffer s)"
    using s by (simp_all add: in_step_def)
  obtain b where b: "SSLBuffer_Consume n (read_buffer s) = Some b" "buf_ok b"
    "received (io_world s) = ((received (io_world s0) @ taken) @ take n (span (read_buffer s))) @ span b"
    by (rule sb.remove_log[OF s'(1) _ s'(2), of n]) (use n s'(1) in \<open>auto simp: length_span\<close>)
  let ?s1 = "s\<lparr>read_buffer := b\<rparr>"
  have s1: "in_step received s0 ?s1 (taken @ take n (span (read_buffer s)))" using b by (simp add: in_step_def)
  have s2: "in_step received s0 (discard ?s1) (taken @ take n (span (read_buffer s)))"
    by (rule pulls_in_step[OF s1 pulls_discard]) (simp add: b)
  show ?thesis
    using n(2) b(1) s1 s2 a by (cases ret) (auto simp: ssl_handle_open_record_def Let_def in_step_def alert_ok_def)
qed

lemma read_reach_in_step:
  assumes "bio_ok T received sent" "alert_ok received send_alert" "in_step received s0 s0 []"
    "read_reach T send_alert s0 s taken"
  shows "in_step received s0 s taken"
  using assms(4)
proof (induction rule: read_reach.induct)
  case (extend s taken n r s')
  then have "buf_ok (read_buffer s)" by (simp add: in_step_def)
  then have "pulls received sent s s'" using extend_to_pulls[OF assms(1) _ extend.hyps(2)] extend.hyps(3) by fastforce
  then show ?case using extend.IH pulls_in_step by blast
next
  case (more s taken n alert r retry s')
  then show ?case using partial_in_step[OF assms(1) more.IH more.hyps(2)] by (metis option.inject prod.inject)
next
  case (opened s taken ret n alert r retry s')
  then show ?case using opened_in_step[OF assms(2) opened.IH] by (metis option.inject prod.inject)
qed (rule assms(3))

text \<open>
  (C15) The read buffer neither loses nor duplicates nor reorders bytes: however the transport cuts its stream and
  the record layer extends and consumes the buffer, what was taken followed by what is buffered is what the
  transport delivered; every further call returns, and a successful request for \<open>n\<close> bytes on a stream transport
  leaves at least \<open>n\<close> in the buffer.
\<close>
theorem read_buffer_stream:
  assumes "bio_ok T received sent" and "alert_ok received send_alert" and "length inl = 5"
    and "read_buffer s0 = SSLBuffer_new inl" and "read_reach T send_alert s0 s taken"
  shows "received (io_world s) = received (io_world s0) @ taken @ span (read_buffer s) \<and>
    (\<forall>n \<le> max_cap. \<exists>r s'. ssl_read_buffer_extend_to T n s = Some (r, s') \<and>
      (0 < r \<and> \<not> io_dtls s \<longrightarrow> n \<le> length (span (read_buffer s')))) \<and>
    (\<forall>ret n alert. (if ret = ssl_open_record_partial then n \<le> max_cap else n \<le> length (span (read_buffer s))) \<longrightarrow>
      ssl_handle_open_record T send_alert ret n alert s \<noteq> None)"
proof -
  have "in_step received s0 s0 []" using assms(3,4) by (simp add: in_step_def buf_ok_def SSLBuffer_new_def span_def memory_def)
  then have i: "in_step received s0 s taken" by (rule read_reach_in_step[OF assms(1,2) _ assms(5)])
  then have b: "buf_ok (read_buffer s)" by (simp add: in_step_def)
  have ext: "\<exists>r s'. ssl_read_buffer_extend_to T n s = Some (r, s') \<and> (0 < r \<and> \<not> io_dtls s \<longrightarrow> n \<le> length (span (read_buffer s')))"
    if n: "n \<le> max_cap" for n
  proof -
    obtain r s' where "ssl_read_buffer_extend_to T n s = Some (r, s')" "pulls received sent s s'"
      "0 < r \<longrightarrow> r = 1 \<and> (\<not> io_dtls s \<longrightarrow> n \<le> sb_size (read_buffer s'))"
      using extend_to_pulls[OF assms(1) b n] by blast
    then show ?thesis using length_span[of "read_buffer s'"] by (simp add: pulls_def)
  qed
  have hnd: "ssl_handle_open_record T send_alert ret n alert s \<noteq> None"
    if "if ret = ssl_open_record_partial then n \<le> max_cap else n \<le> length (span (read_buffer s))" for ret n alert
    using that partial_in_step[OF assms(1) i, of n send_alert alert] opened_in_step[OF assms(2) i, of n ret T alert] length_span[OF b]
    by (cases "ret = ssl_open_record_partial") auto
  show ?thesis using i ext hnd by (simp add: in_step_def)
qed

text \<open>
  A transport whose input arrives in given chunks and that accepts two bytes at a time; the world is the chunks left
  and the bytes delivered and accepted.
\<close>

type_synonym sim_wire = "byte list list \<times> byte list \<times> byte list"

fun sim_read :: "nat \<Rightarrow> sim_wire \<Rightarrow> int \<times> byte list \<times> sim_wire" where
  "sim_read n ([], rc, sn) = (- 1, [], ([], rc, sn))"
| "sim_read n (c # cs, rc, sn) =
     (int (length (take n c)), take n c, (if drop n c = [] then cs else drop n c # cs, rc @ take n c, sn))"

fun sim_write :: "byte list \<Rightarrow> sim_wire \<Rightarrow> int \<times> sim_wire" where
  "sim_write bs (cs, rc, sn) = (int (length (take 2 bs)), (cs, rc, sn @ take 2 bs))"

definition sim_transport :: "sim_wire transport" where
  "sim_transport = \<lparr>bio_read = sim_read, bio_write = sim_write, sys_malloc = \<lambda>n w. (Some (16, replicate n 0), w)\<rparr>"

definition sim_conn :: "byte list list \<Rightarrow> sim_wire ssl_io" where
  "sim_conn cs = \<lparr>io_dtls = False, rbio_set = True, wbio_set = True, read_buffer = SSLBuffer_new (replicate 5 0),
     write_buffer = SSLBuffer_new (replicate 5 0), rwstate = 0, io_world = (cs, [], [])\<rparr>"

lemma sim_read_ok:
  assumes "sim_read n w = (r, bs, w')"
  shows "snd (snd w') = snd (snd w) \<and> (if r > 0 then nat r \<le> n \<and> length bs = nat r \<and> fst (snd w') = fst (snd w) @ bs
    else fst (snd w') = fst (snd w))"
  using assms by (cases "(n, w)" rule: sim_read.cases) (auto split: if_splits)

lemma sim_write_ok:
  assumes "sim_write bs w = (r, w')"
  shows "fst (snd w') = fst (snd w) \<and> (if r > 0 then nat r \<le> length bs \<and> snd (snd w') = snd (snd w) @ take (nat r) bs
    else snd (snd w') = snd (snd w))"
  using assms by (cases w; cases bs) (auto simp: min_def)

lemma sim_transport_ok: "bio_ok sim_transport (\<lambda>w. fst (snd w)) (\<lambda>w. snd (snd w))"
  unfolding bio_ok_def sim_transport_def transport.simps
  by (intro conjI[OF _ conjI] allI impI, erule sim_read_ok, erule sim_write_ok) auto

theorem read_buffer_stream_witness:
  "\<exists>r s'. ssl_read_buffer_extend_to sim_transport 5 (sim_conn [[22, 3], [1, 0, 2, 9]]) = Some (r, s') \<and>
     (0 < r \<longrightarrow> 5 \<le> length (span (read_buffer s')))"
proof -
  let ?s0 = "sim_conn [[22, 3], [1, 0, 2, 9]]"
  have a: "alert_ok (\<lambda>w :: sim_wire. fst (snd w)) (\<lambda>_ s. s)" by (simp add: alert_ok_def)
  have s0: "length (replicate 5 (0 :: byte)) = 5" "read_buffer ?s0 = SSLBuffer_new (replicate 5 0)" "\<not> io_dtls ?s0"
    by (simp_all add: sim_conn_def)
  have "5 \<le> max_cap" by (simp add: max_cap_def)
  then show ?thesis using read_buffer_stream[OF sim_transport_ok a s0(1,2) read_reach.start] s0(3) by blast
qed

subsection \<open>Writing\<close>

definition accepts :: "'w transport \<Rightarrow> bool" where
  "accepts T \<longleftrightarrow> (\<forall>bs w. bs \<noteq> [] \<longrightarrow> fst (bio_write T bs w) > 0)"

definition same_bio :: "'w ssl_io \<Rightarrow> 'w ssl_io \<Rightarrow> bool" where
  "same_bio s' s \<longleftrightarrow> io_dtls s' = io_dtls s \<and> wbio_set s' = wbio_set s"

lemma Clear_Clear [simp]: "SSLBuffer_Clear (SSLBuffer_Clear b) = SSLBuffer_Clear b"
  by (simp add: SSLBuffer_Clear_def)

lemma Clear_span:
  assumes "b = SSLBuffer_Clear b"
  shows "span b = []"
proof -
  have "sb_size b = 0" using arg_cong[OF assms, of sb_size] by (simp add: SSLBuffer_Clear_def)
  then show ?thesis by (simp add: span_def)
qed

lemma tls_write_loop_flushes:
  assumes T: "bio_ok T received sent" and "buf_ok (write_buffer s)"
  shows "\<exists>r s'. tls_write_loop T s = Some (r, s') \<and> buf_ok (write_buffer s') \<and>
    sent (io_world s') @ span (write_buffer s') = sent (io_world s) @ span (write_buffer s) \<and>
    received (io_world s') = received (io_world s) \<and> read_buffer s' = read_buffer s \<and> same_bio s' s \<and>
    (if r > 0 then r = 1 \<and> write_buffer s' = SSLBuffer_Clear (write_buffer s') \<and> rwstate s' = rwstate s
     else rwstate s' = SSL_ERROR_WANT_WRITE \<and> \<not> accepts T)"
  using assms(2)
proof (induction "sb_size (write_buffer s)" arbitrary: s rule: less_induct)
  case less
  let ?b = "write_buffer s"
  show ?case
  proof (cases "sb_size ?b = 0")
    case True
    then have "span ?b = []" using length_span[OF less.prems] by simp
    then show ?thesis using True Clear_ok[OF less.prems] by (simp add: tls_write_loop.simps[of T s] same_bio_def)
  next
    case False
    obtain r w where wr: "bio_write T (span ?b) (io_world s) = (r, w)" by fastforce
    have ne: "span ?b \<noteq> []" using False length_span[OF less.prems] by auto
    show ?thesis
    proof (cases "r > 0")
      case r: False
      have "\<not> accepts T" using wr ne r unfolding accepts_def by (metis fst_conv)
      then show ?thesis
        using bio_write_ok[OF T wr] r False wr less.prems peek_span_ok[OF less.prems] by (simp add: tls_write_loop.simps[of T s] same_bio_def)
    next
      case r: True
      note ws = bio_write_ok[OF T wr] bio_write_ok(2)[OF T wr r]
      obtain b where b: "SSLBuffer_Consume (nat r) ?b = Some b" "buf_ok b" "span b = drop (nat r) (span ?b)"
        using sb.remove[OF less.prems, of "nat r"] ws by blast
      let ?s = "s\<lparr>io_world := w, write_buffer := b\<rparr>"
      have run: "tls_write_loop T s = tls_write_loop T ?s"
        using False wr r b(1) peek_span_ok[OF less.prems] by (subst tls_write_loop.simps) simp
      have "sb_size b < sb_size ?b"
        using b(2,3) r False length_span[of b] length_span[OF less.prems] by simp
      from less.hyps[of ?s] this b(2)
      obtain r' s' where s': "tls_write_loop T ?s = Some (r', s')" "buf_ok (write_buffer s')"
        "sent (io_world s') @ span (write_buffer s') = sent w @ span b"
        "received (io_world s') = received w" "read_buffer s' = read_buffer s" "same_bio s' ?s"
        "if r' > 0 then r' = 1 \<and> write_buffer s' = SSLBuffer_Clear (write_buffer s') \<and> rwstate s' = rwstate s
         else rwstate s' = SSL_ERROR_WANT_WRITE \<and> \<not> accepts T"
        by auto
      moreover have "sent w @ span b = sent (io_world s) @ span ?b" using ws b(3) by simp
      ultimately show ?thesis using run ws(1) by (auto simp: same_bio_def)
    qed
  qed
qed

text \<open>
  Flushing the write buffer of a stream connection: the call returns, what the transport accepted followed by
  what stays in the buffer is what was there before, so a flush that could not finish is continued by the next
  one; it returns 1 with an empty buffer or asks to be called again, and it always returns 1 on a transport that
  accepts at least a byte of every write.
\<close>
theorem write_flush_complete:
  assumes "bio_ok T received sent" and "buf_ok (write_buffer s)" and "wbio_set s" and "\<not> io_dtls s"
  shows "\<exists>r s'. ssl_write_buffer_flush T s = Some (r, s') \<and> buf_ok (write_buffer s') \<and>
    sent (io_world s') @ span (write_buffer s') = sent (io_world s) @ span (write_buffer s) \<and>
    (if r > 0 then r = 1 \<and> span (write_buffer s') = [] else rwstate s' = SSL_ERROR_WANT_WRITE \<and> \<not> accepts T)"
proof -
  have e: "ssl_write_buffer_flush T s = tls_write_loop T s"
    using assms(3,4) by (simp add: ssl_write_buffer_flush_def tls_write_buffer_flush_def)
  obtain r s' where "tls_write_loop T s = Some (r, s')" "buf_ok (write_buffer s')"
    "sent (io_world s') @ span (write_buffer s') = sent (io_world s) @ span (write_buffer s)"
    "if r > 0 then r = 1 \<and> write_buffer s' = SSLBuffer_Clear (write_buffer s') \<and> rwstate s' = rwstate s
     else rwstate s' = SSL_ERROR_WANT_WRITE \<and> \<not> accepts T"
    using tls_write_loop_flushes[OF assms(1,2)] by blast
  then show ?thesis unfolding e by (intro exI[of _ r] exI[of _ s']) (simp add: Clear_span split: if_splits)
qed

definition sim_writer :: "byte list \<Rightarrow> sim_wire ssl_io" where
  "sim_writer bs = (sim_conn [])\<lparr>write_buffer := \<lparr>sb_buf = Malloc 16 bs, sb_offset = 0, sb_size = length bs,
     sb_cap = length bs, sb_inline = replicate 5 0\<rparr>\<rparr>"

theorem write_flush_complete_witness:
  "\<exists>s'. ssl_write_buffer_flush sim_transport (sim_writer [1, 2, 3, 4, 5]) = Some (1, s') \<and>
     snd (snd (io_world s')) = [1, 2, 3, 4, 5]"
proof -
  let ?s = "sim_writer [1, 2, 3, 4, 5]"
  have s: "buf_ok (write_buffer ?s)" "wbio_set ?s" "\<not> io_dtls ?s" "span (write_buffer ?s) = [1, 2, 3, 4, 5]"
    "snd (snd (io_world ?s)) = []"
    by (simp_all add: sim_writer_def sim_conn_def buf_ok_def memory_def span_def)
  have "accepts sim_transport" by (auto simp: accepts_def sim_transport_def min_def)
  then show ?thesis using write_flush_complete[OF sim_transport_ok s(1-3)] s(4,5) by (auto split: if_splits)
qed

text \<open>
  (C39) \<open>EnsureCap\<close> allows capacities for which the 16-bit offset is too small. For every transport, block of memory and header length: when a new buffer gets
  room for \<open>new_cap\<close> bytes, up to the 0xffff that \<open>EnsureCap\<close> accepts, is filled, and \<open>n\<close> of the bytes are consumed, where \<open>n\<close> and the \<open>k\<close> bytes
  of slack that align the payload make 0x10000 or more, then \<open>Consume\<close> wraps \<open>offset_\<close>: the \<open>new_cap - n\<close> bytes the buffer holds next are taken
  from the start of the block, the first of them from the slack in front of the data, where \<open>malloc\<close> left it and nothing was ever stored.
\<close>
theorem consume_wraps_offset:
  assumes "sys_malloc T (new_cap + 7) w = (Some (addr, m), w1)" and "length m = new_cap + 7" and "length inl = 5"
    and "k = nat ((0 - int header_len - int addr) mod 8)" and "new_cap \<le> 0xffff" and "length bs = new_cap" and "n < new_cap" and "0x10000 \<le> k + n"
  shows "\<exists>b b1 b2. SSLBuffer_EnsureCap T header_len new_cap (SSLBuffer_new inl) w = Some (True, b, w1) \<and>
    took (int new_cap) bs b = Some b1 \<and> span b1 = bs \<and> SSLBuffer_Consume n b1 = Some b2 \<and>
    span b2 = take (new_cap - n) (drop (k + n - 0x10000) (write_at k bs m)) \<and> length (span b2) = new_cap - n \<and>
    hd (span b2) = m ! (k + n - 0x10000)"
proof -
  have k: "k < 8" using assms(4) by simp
  have cap: "5 < new_cap" using assms(7,8) k by simp
  let ?b = "\<lparr>sb_buf = Malloc addr m, sb_offset = k, sb_size = 0, sb_cap = new_cap, sb_inline = inl\<rparr>"
  let ?b1 = "?b\<lparr>sb_buf := Malloc addr (write_at k bs m), sb_size := new_cap\<rparr>"
  let ?b2 = "?b1\<lparr>sb_offset := k + n - 0x10000, sb_size := new_cap - n, sb_cap := new_cap - n\<rparr>"
  have ensure: "SSLBuffer_EnsureCap T header_len new_cap (SSLBuffer_new inl) w = Some (True, ?b, w1)"
    using assms(1,4,5) cap k add.commute[of new_cap 7]
    by (simp add: SSLBuffer_EnsureCap_def SSLBuffer_new_def new_block_def peek_span_def span_def poke_def)
  have fits: "k + new_cap \<le> length m" using assms(2) k by simp
  have fill: "took (int new_cap) bs ?b = Some ?b1"
    using fits cap assms(5,6) by (auto simp: took_def poke_def memory_def SSLBuffer_DidWrite_def)
  have whole: "length (write_at k bs m) = length m" using fits assms(6) by (simp add: length_write_at)
  have all: "span ?b1 = bs" using fits assms(6) by (simp add: span_def memory_def write_at_def)
  have wrap: "(k + n) mod 65536 = k + n - 0x10000" using assms(5,7,8) k by (simp add: le_mod_geq)
  have "(65536 + new_cap - n) mod 65536 = new_cap - n" using assms(5,7) by (simp add: le_mod_geq)
  then have consume: "SSLBuffer_Consume n ?b1 = Some ?b2" using assms(5,7) wrap by (simp add: SSLBuffer_Consume_def)
  have before: "k + n - 0x10000 < k" using assms(5,7) assms(8) by simp
  have len: "length (span ?b2) = new_cap - n" using whole assms(2) before k by (simp add: span_def memory_def min_def)
  have "hd (span ?b2) = write_at k bs m ! (k + n - 0x10000)"
    using whole assms(2,7) before k by (simp add: span_def memory_def hd_drop_conv_nth)
  also have "\<dots> = m ! (k + n - 0x10000)" using before fits by (simp add: write_at_def nth_append)
  finally show ?thesis using ensure fill all consume len by (intro exI[of _ ?b] exI[of _ ?b1] exI[of _ ?b2]) (simp add: span_def memory_def)
qed

text \<open>A transport whose \<open>malloc\<close> returns a block of ones at an address that leaves three bytes of slack for a header of five bytes.\<close>

definition ones_transport :: "unit transport" where
  "ones_transport = \<lparr>bio_read = \<lambda>_ w. (0, [], w), bio_write = \<lambda>_ w. (0, w), sys_malloc = \<lambda>n w. (Some (16, replicate n 1), w)\<rparr>"

theorem consume_wraps_offset_witness:
  "\<exists>b b1 b2. SSLBuffer_EnsureCap ones_transport 5 0xffff (SSLBuffer_new (replicate 5 0)) () = Some (True, b, ()) \<and>
    took (int 0xffff) (replicate 0xffff 0) b = Some b1 \<and> span b1 = replicate 0xffff 0 \<and> SSLBuffer_Consume 0xfffe b1 = Some b2 \<and> span b2 = [1]"
proof -
  have m: "sys_malloc ones_transport (0xffff + 7) () = (Some (16, replicate (0xffff + 7) 1), ())" by (simp add: ones_transport_def)
  obtain b b1 b2 where b: "SSLBuffer_EnsureCap ones_transport 5 0xffff (SSLBuffer_new (replicate 5 0)) () = Some (True, b, ())"
      "took (int 0xffff) (replicate 0xffff 0) b = Some b1" "span b1 = replicate 0xffff 0" "SSLBuffer_Consume 0xfffe b1 = Some b2"
    and len: "length (span b2) = 0xffff - 0xfffe" and hd: "hd (span b2) = replicate (0xffff + 7) 1 ! (3 + 0xfffe - 0x10000)"
    using consume_wraps_offset[OF m length_replicate length_replicate[of 5 0], where header_len = 5 and k = 3 and bs = "replicate 0xffff 0" and n = "0xfffe"] by auto
  have "replicate (0xffff + 7) (1 :: byte) ! (3 + 0xfffe - 0x10000) = 1" by (subst nth_replicate) simp_all
  then have "span b2 = [1]" using len hd by (cases "span b2") auto
  with b show ?thesis by blast
qed

end
