(* ===== verification/Evp_Aead.thy ===== *)
theory Evp_Aead
  imports Bytes
begin

text \<open>
  The interface of authenticated encryption, \<open>crypto/fipsmodule/cipher/aead.cc.inc\<close>. An algorithm is the table of
  methods \<open>EVP_AEAD\<close> of \<open>crypto/fipsmodule/cipher/internal.h\<close>; a null method is \<open>None\<close>. A method gets the state of
  the context and its \<open>tag_len\<close> and returns the state it leaves, because the ciphers of TLS 1.0 keep their chaining
  value there. The buffers of a call are given by their addresses, which the alias checks compare, and by their
  contents; objects do not wrap around the address space. A context value is one whose \<open>aead\<close> pointer is set:
  \<open>EVP_AEAD_CTX_init_with_direction\<close> returns \<open>None\<close> where the code clears the pointer. Entries of the error queue
  are not modelled.
\<close>

datatype evp_aead_direction_t = evp_aead_open | evp_aead_seal

record 'c EVP_AEAD =
  ae_key_len :: nat
  ae_nonce_len :: nat
  ae_overhead :: nat
  ae_max_tag_len :: nat
  ae_supports_extra_in :: bool
  ae_init :: "(byte list \<Rightarrow> nat \<Rightarrow> ('c \<times> nat) option) option"
  ae_init_with_direction :: "byte list \<Rightarrow> nat \<Rightarrow> evp_aead_direction_t \<Rightarrow> ('c \<times> nat) option"
  ae_open :: "('c \<Rightarrow> nat \<Rightarrow> nat \<Rightarrow> byte list \<Rightarrow> byte list \<Rightarrow> byte list \<Rightarrow> byte list option \<times> 'c) option"
  ae_seal_scatter ::
    "'c \<Rightarrow> nat \<Rightarrow> nat \<Rightarrow> byte list \<Rightarrow> byte list \<Rightarrow> byte list \<Rightarrow> byte list \<Rightarrow> (byte list \<times> byte list) option \<times> 'c"
  ae_open_gather :: "('c \<Rightarrow> nat \<Rightarrow> byte list \<Rightarrow> byte list \<Rightarrow> byte list \<Rightarrow> byte list \<Rightarrow> byte list option \<times> 'c) option"
  ae_get_iv :: "('c \<Rightarrow> byte list option) option"
  ae_tag_len :: "('c \<Rightarrow> nat \<Rightarrow> nat \<Rightarrow> nat \<Rightarrow> nat) option"

record 'c EVP_AEAD_CTX =
  ctx_aead :: "'c EVP_AEAD"
  ctx_state :: 'c
  ctx_tag_len :: nat

subsection \<open>Operations\<close>

definition buffers_alias :: "nat \<Rightarrow> nat \<Rightarrow> nat \<Rightarrow> nat \<Rightarrow> bool" where
  "buffers_alias a a_bytes b b_bytes \<longleftrightarrow> a + a_bytes > b \<and> b + b_bytes > a"

definition check_alias :: "nat \<Rightarrow> nat \<Rightarrow> nat \<Rightarrow> nat \<Rightarrow> bool" where
  "check_alias in_at in_len out_at out_len = (if \<not> buffers_alias in_at in_len out_at out_len then True else in_at = out_at)"

definition EVP_AEAD_nonce_length :: "'c EVP_AEAD \<Rightarrow> nat" where
  "EVP_AEAD_nonce_length aead = ae_nonce_len aead"

definition EVP_AEAD_max_overhead :: "'c EVP_AEAD \<Rightarrow> nat" where
  "EVP_AEAD_max_overhead aead = ae_overhead aead"

definition EVP_AEAD_CTX_init_with_direction ::
  "'c EVP_AEAD \<Rightarrow> byte list \<Rightarrow> nat \<Rightarrow> evp_aead_direction_t \<Rightarrow> 'c EVP_AEAD_CTX option" where
  "EVP_AEAD_CTX_init_with_direction aead key tag_len dir =
     (if length key \<noteq> ae_key_len aead then None
      else case (case ae_init aead of
                   Some init \<Rightarrow> init key tag_len
                 | None \<Rightarrow> ae_init_with_direction aead key tag_len dir) of
        None \<Rightarrow> None
      | Some (state, tag) \<Rightarrow> Some \<lparr>ctx_aead = aead, ctx_state = state, ctx_tag_len = tag\<rparr>)"

definition EVP_AEAD_CTX_init :: "'c EVP_AEAD \<Rightarrow> byte list \<Rightarrow> nat \<Rightarrow> 'c EVP_AEAD_CTX option" where
  "EVP_AEAD_CTX_init aead key tag_len =
     (case ae_init aead of
        None \<Rightarrow> None
      | Some _ \<Rightarrow> EVP_AEAD_CTX_init_with_direction aead key tag_len evp_aead_open)"

text \<open>The return value and what the output buffer holds: all of it zeros after an error.\<close>

definition EVP_AEAD_CTX_seal ::
  "'c EVP_AEAD_CTX \<Rightarrow> nat \<Rightarrow> nat \<Rightarrow> nat \<Rightarrow> byte list \<Rightarrow> byte list \<Rightarrow> byte list \<Rightarrow> (bool \<times> byte list) \<times> 'c EVP_AEAD_CTX" where
  "EVP_AEAD_CTX_seal ctx out_at max_out_len in_at nonce inp ad =
     (let error = (False, replicate max_out_len 0) in
      if (length inp + ae_overhead (ctx_aead ctx)) mod 2 ^ 64 < length inp then (error, ctx)
      else if max_out_len < length inp then (error, ctx)
      else if \<not> check_alias in_at (length inp) out_at max_out_len then (error, ctx)
      else case ae_seal_scatter (ctx_aead ctx) (ctx_state ctx) (ctx_tag_len ctx) (max_out_len - length inp) nonce inp [] ad of
        (Some (out, tag), c) \<Rightarrow> ((True, out @ tag), ctx\<lparr>ctx_state := c\<rparr>)
      | (None, c) \<Rightarrow> (error, ctx\<lparr>ctx_state := c\<rparr>))"

definition EVP_AEAD_CTX_seal_scatter ::
  "'c EVP_AEAD_CTX \<Rightarrow> nat \<Rightarrow> nat \<Rightarrow> nat \<Rightarrow> nat \<Rightarrow> byte list \<Rightarrow> byte list \<Rightarrow> byte list \<Rightarrow> byte list
   \<Rightarrow> (bool \<times> byte list \<times> byte list) \<times> 'c EVP_AEAD_CTX" where
  "EVP_AEAD_CTX_seal_scatter ctx out_at out_tag_at max_out_tag_len in_at nonce inp extra_in ad =
     (let in_len = length inp; error = (False, replicate in_len 0, replicate max_out_tag_len 0) in
      if \<not> check_alias in_at in_len out_at in_len \<or> buffers_alias out_at in_len out_tag_at max_out_tag_len \<or>
         buffers_alias in_at in_len out_tag_at max_out_tag_len then (error, ctx)
      else if \<not> ae_supports_extra_in (ctx_aead ctx) \<and> extra_in \<noteq> [] then (error, ctx)
      else case ae_seal_scatter (ctx_aead ctx) (ctx_state ctx) (ctx_tag_len ctx) max_out_tag_len nonce inp extra_in ad of
        (Some (out, tag), c) \<Rightarrow> ((True, out, tag), ctx\<lparr>ctx_state := c\<rparr>)
      | (None, c) \<Rightarrow> (error, ctx\<lparr>ctx_state := c\<rparr>))"

definition EVP_AEAD_CTX_open_gather ::
  "'c EVP_AEAD_CTX \<Rightarrow> nat \<Rightarrow> nat \<Rightarrow> byte list \<Rightarrow> byte list \<Rightarrow> byte list \<Rightarrow> byte list \<Rightarrow> (bool \<times> byte list) \<times> 'c EVP_AEAD_CTX" where
  "EVP_AEAD_CTX_open_gather ctx out_at in_at nonce inp in_tag ad =
     (let in_len = length inp; error = (False, replicate in_len 0) in
      if \<not> check_alias in_at in_len out_at in_len then (error, ctx)
      else case ae_open_gather (ctx_aead ctx) of
        None \<Rightarrow> (error, ctx)
      | Some open_gather \<Rightarrow>
          (case open_gather (ctx_state ctx) (ctx_tag_len ctx) nonce inp in_tag ad of
             (Some out, c) \<Rightarrow> ((True, out), ctx\<lparr>ctx_state := c\<rparr>)
           | (None, c) \<Rightarrow> (error, ctx\<lparr>ctx_state := c\<rparr>)))"

definition EVP_AEAD_CTX_open ::
  "'c EVP_AEAD_CTX \<Rightarrow> nat \<Rightarrow> nat \<Rightarrow> nat \<Rightarrow> byte list \<Rightarrow> byte list \<Rightarrow> byte list \<Rightarrow> (bool \<times> byte list) \<times> 'c EVP_AEAD_CTX" where
  "EVP_AEAD_CTX_open ctx out_at max_out_len in_at nonce inp ad =
     (let in_len = length inp; error = (False, replicate max_out_len 0) in
      if \<not> check_alias in_at in_len out_at max_out_len then (error, ctx)
      else case ae_open (ctx_aead ctx) of
        Some opn \<Rightarrow>
          (case opn (ctx_state ctx) (ctx_tag_len ctx) max_out_len nonce inp ad of
             (None, c) \<Rightarrow> (error, ctx\<lparr>ctx_state := c\<rparr>)
           | (Some out, c) \<Rightarrow> ((True, out), ctx\<lparr>ctx_state := c\<rparr>))
      | None \<Rightarrow>
          if in_len < ctx_tag_len ctx then (error, ctx)
          else let plaintext_len = in_len - ctx_tag_len ctx in
            if max_out_len < plaintext_len then (error, ctx)
            else (case EVP_AEAD_CTX_open_gather ctx out_at in_at nonce (take plaintext_len inp) (drop plaintext_len inp) ad of
              ((True, out), ctx1) \<Rightarrow> ((True, out), ctx1)
            | ((False, _), ctx1) \<Rightarrow> (error, ctx1)))"

definition EVP_AEAD_CTX_get_iv :: "'c EVP_AEAD_CTX \<Rightarrow> byte list option" where
  "EVP_AEAD_CTX_get_iv ctx = (case ae_get_iv (ctx_aead ctx) of None \<Rightarrow> None | Some get_iv \<Rightarrow> get_iv (ctx_state ctx))"

definition EVP_AEAD_CTX_tag_len :: "'c EVP_AEAD_CTX \<Rightarrow> nat \<Rightarrow> nat \<Rightarrow> nat option" where
  "EVP_AEAD_CTX_tag_len ctx in_len extra_in_len =
     (case ae_tag_len (ctx_aead ctx) of
        Some tag_len \<Rightarrow> Some (tag_len (ctx_state ctx) (ctx_tag_len ctx) in_len extra_in_len)
      | None \<Rightarrow>
          if (extra_in_len + ctx_tag_len ctx) mod 2 ^ 64 < extra_in_len then None
          else Some ((extra_in_len + ctx_tag_len ctx) mod 2 ^ 64))"

end
