(* ===== verification/Ssl_Versions.thy ===== *)
theory Ssl_Versions
  imports CBB_Props
begin

text \<open>
  Protocol versions of the TLS library, \<open>ssl/ssl_versions.cc\<close>: the mapping of wire versions to protocol
  versions, the configured bounds, the range a connection may use, the list it offers and the choice among
  the versions a peer offers. The records hold the fields of the C++ objects that this code reads or writes.
  Entries of the error queue are not modelled: a function that fails returns \<open>None\<close>.
\<close>

abbreviation (input) "TLS1_VERSION \<equiv> (0x0301 :: uint16)"
abbreviation (input) "TLS1_1_VERSION \<equiv> (0x0302 :: uint16)"
abbreviation (input) "TLS1_2_VERSION \<equiv> (0x0303 :: uint16)"
abbreviation (input) "TLS1_3_VERSION \<equiv> (0x0304 :: uint16)"
abbreviation (input) "DTLS1_VERSION \<equiv> (0xfeff :: uint16)"
abbreviation (input) "DTLS1_2_VERSION \<equiv> (0xfefd :: uint16)"
abbreviation (input) "DTLS1_3_VERSION \<equiv> (0xfefc :: uint16)"

abbreviation (input) "SSL_OP_NO_TLSv1 \<equiv> (0x04000000 :: uint32)"
abbreviation (input) "SSL_OP_NO_TLSv1_2 \<equiv> (0x08000000 :: uint32)"
abbreviation (input) "SSL_OP_NO_TLSv1_1 \<equiv> (0x10000000 :: uint32)"
abbreviation (input) "SSL_OP_NO_TLSv1_3 \<equiv> (0x20000000 :: uint32)"
abbreviation (input) "SSL_OP_NO_DTLSv1 \<equiv> SSL_OP_NO_TLSv1"

abbreviation (input) "SSL_AD_DECODE_ERROR \<equiv> (50 :: byte)"
abbreviation (input) "SSL_AD_PROTOCOL_VERSION \<equiv> (70 :: byte)"

subsection \<open>Wire versions\<close>

definition ssl_protocol_version_from_wire :: "uint16 \<Rightarrow> uint16 option" where
  "ssl_protocol_version_from_wire version =
     (if version \<in> {TLS1_VERSION, TLS1_1_VERSION, TLS1_2_VERSION, TLS1_3_VERSION} then Some version
      else if version = DTLS1_VERSION then Some TLS1_1_VERSION
      else if version = DTLS1_2_VERSION then Some TLS1_2_VERSION
      else if version = DTLS1_3_VERSION then Some TLS1_3_VERSION
      else None)"

record SSL_PROTOCOL_METHOD =
  is_dtls :: bool

definition kTLSVersions :: "uint16 list" where
  "kTLSVersions = [TLS1_3_VERSION, TLS1_2_VERSION, TLS1_1_VERSION, TLS1_VERSION]"

definition kDTLSVersions :: "uint16 list" where
  "kDTLSVersions = [DTLS1_3_VERSION, DTLS1_2_VERSION, DTLS1_VERSION]"

definition get_method_versions :: "SSL_PROTOCOL_METHOD \<Rightarrow> uint16 list" where
  "get_method_versions method = (if is_dtls method then kDTLSVersions else kTLSVersions)"

definition ssl_method_supports_version :: "SSL_PROTOCOL_METHOD \<Rightarrow> uint16 \<Rightarrow> bool" where
  "ssl_method_supports_version method version = list_ex (\<lambda>supported. supported = version) (get_method_versions method)"

definition kUnknownVersion :: string where
  "kUnknownVersion = ''unknown''"

definition kVersionNames :: "(uint16 \<times> string) list" where
  "kVersionNames =
     [(TLS1_3_VERSION, ''TLSv1.3''), (TLS1_2_VERSION, ''TLSv1.2''), (TLS1_1_VERSION, ''TLSv1.1''),
      (TLS1_VERSION, ''TLSv1''), (DTLS1_VERSION, ''DTLSv1''), (DTLS1_2_VERSION, ''DTLSv1.2''),
      (DTLS1_3_VERSION, ''DTLSv1.3'')]"

definition ssl_version_to_string :: "uint16 \<Rightarrow> string" where
  "ssl_version_to_string version =
     (case find (\<lambda>v. fst v = version) kVersionNames of Some v \<Rightarrow> snd v | None \<Rightarrow> kUnknownVersion)"

definition wire_version_to_api :: "uint16 \<Rightarrow> uint16" where
  "wire_version_to_api version = version"

definition api_version_to_wire :: "uint16 \<Rightarrow> uint16 option" where
  "api_version_to_wire version = (if ssl_protocol_version_from_wire version = None then None else Some version)"

subsection \<open>Configured bounds\<close>

definition set_version_bound :: "SSL_PROTOCOL_METHOD \<Rightarrow> uint16 \<Rightarrow> uint16 option" where
  "set_version_bound method version0 =
     (case api_version_to_wire version0 of
        None \<Rightarrow> None
      | Some version \<Rightarrow> if \<not> ssl_method_supports_version method version then None else Some version)"

definition set_min_version :: "SSL_PROTOCOL_METHOD \<Rightarrow> uint16 \<Rightarrow> uint16 option" where
  "set_min_version method version =
     (if version = 0 then Some (if is_dtls method then DTLS1_2_VERSION else TLS1_2_VERSION)
      else set_version_bound method version)"

definition set_max_version :: "SSL_PROTOCOL_METHOD \<Rightarrow> uint16 \<Rightarrow> uint16 option" where
  "set_max_version method version =
     (if version = 0 then Some (if is_dtls method then DTLS1_2_VERSION else TLS1_3_VERSION)
      else set_version_bound method version)"

subsection \<open>Connections\<close>

record SSL_CONFIG =
  conf_min_version :: uint16
  conf_max_version :: uint16
  conf_verify_mode :: byte

record SSL_HANDSHAKE =
  hs_min_version :: uint16
  hs_max_version :: uint16
  is_early_version :: bool
  in_early_data :: bool
  apply_jdk11_workaround :: bool
  early_session_version :: uint16
  handshake_finalized :: bool
  can_early_write :: bool
  early_data_read :: uint16
  early_data_written :: uint16
  ticket_max_early_data :: uint32

text \<open>
  \<open>config\<close> and \<open>hs\<close> are \<open>None\<close> for a null pointer; \<open>s3_version\<close> is \<open>ssl->s3->version\<close>, 0 before the
  negotiation.
\<close>

record SSL =
  ssl_method :: SSL_PROTOCOL_METHOD
  ssl_options :: uint32
  ssl_quic :: bool
  ssl_server :: bool
  ssl_config :: "SSL_CONFIG option"
  s3_version :: uint16
  s3_hs :: "SSL_HANDSHAKE option"

definition SSL_in_early_data :: "'z SSL_scheme \<Rightarrow> bool" where
  "SSL_in_early_data s = (case s3_hs s of None \<Rightarrow> False | Some hs \<Rightarrow> in_early_data hs)"

definition kProtocolVersions :: "(uint16 \<times> uint32) list" where
  "kProtocolVersions =
     [(TLS1_VERSION, SSL_OP_NO_TLSv1), (TLS1_1_VERSION, SSL_OP_NO_TLSv1_1),
      (TLS1_2_VERSION, SSL_OP_NO_TLSv1_2), (TLS1_3_VERSION, SSL_OP_NO_TLSv1_3)]"

text \<open>
  The loop over \<open>kProtocolVersions\<close>, with the version of the previous entry as \<open>prev\<close>: \<open>any_enabled\<close> and
  the bounds when it ends.
\<close>

fun range_loop :: "uint32 \<Rightarrow> uint16 \<Rightarrow> bool \<Rightarrow> uint16 \<Rightarrow> uint16 \<Rightarrow> (uint16 \<times> uint32) list \<Rightarrow> bool \<times> uint16 \<times> uint16" where
  "range_loop options prev any_enabled min_version max_version [] = (any_enabled, min_version, max_version)"
| "range_loop options prev any_enabled min_version max_version ((version, flag) # rest) =
     (if min_version > version then range_loop options version any_enabled min_version max_version rest
      else if max_version < version then (any_enabled, min_version, max_version)
      else if options AND flag = 0 then
        range_loop options version True (if \<not> any_enabled then version else min_version) max_version rest
      else if any_enabled then (any_enabled, min_version, prev)
      else range_loop options version any_enabled min_version max_version rest)"

definition ssl_get_version_range :: "SSL \<Rightarrow> SSL_CONFIG \<Rightarrow> (uint16 \<times> uint16) option" where
  "ssl_get_version_range s config =
     (let options =
        (if is_dtls (ssl_method s) then
           let o1 = ssl_options s AND NOT SSL_OP_NO_TLSv1_1
           in if o1 AND SSL_OP_NO_DTLSv1 \<noteq> 0 then o1 OR SSL_OP_NO_TLSv1_1 else o1
         else ssl_options s) in
      case (ssl_protocol_version_from_wire (conf_min_version config), ssl_protocol_version_from_wire (conf_max_version config)) of
        (Some min0, Some max_version) \<Rightarrow>
          let min_version = (if ssl_quic s \<and> min0 < TLS1_3_VERSION then TLS1_3_VERSION else min0) in
          (case range_loop options 0 False min_version max_version kProtocolVersions of
             (any_enabled, lo, hi) \<Rightarrow> if any_enabled then Some (lo, hi) else None)
      | _ \<Rightarrow> None)"

definition ssl_version :: "'z SSL_scheme \<Rightarrow> uint16" where
  "ssl_version s =
     (case s3_hs s of
        Some hs \<Rightarrow>
          if SSL_in_early_data s \<and> \<not> ssl_server s then early_session_version hs
          else if s3_version s \<noteq> 0 then s3_version s
          else if is_dtls (ssl_method s) then DTLS1_2_VERSION else TLS1_2_VERSION
      | None \<Rightarrow>
          if s3_version s \<noteq> 0 then s3_version s
          else if is_dtls (ssl_method s) then DTLS1_2_VERSION else TLS1_2_VERSION)"

definition ssl_has_final_version :: "'z SSL_scheme \<Rightarrow> bool" where
  "ssl_has_final_version s \<longleftrightarrow>
     s3_version s \<noteq> 0 \<and> (case s3_hs s of None \<Rightarrow> True | Some hs \<Rightarrow> \<not> is_early_version hs)"

definition ssl_protocol_version :: "'z SSL_scheme \<Rightarrow> uint16" where
  "ssl_protocol_version s =
     (case ssl_protocol_version_from_wire (s3_version s) of Some version \<Rightarrow> version | None \<Rightarrow> 0)"

subsection \<open>Offering and choosing\<close>

definition ssl_supports_version :: "SSL_PROTOCOL_METHOD \<Rightarrow> SSL_HANDSHAKE \<Rightarrow> uint16 \<Rightarrow> bool" where
  "ssl_supports_version method hs version =
     (if \<not> ssl_method_supports_version method version then False
      else case ssl_protocol_version_from_wire version of
        None \<Rightarrow> False
      | Some protocol_version \<Rightarrow>
          \<not> (hs_min_version hs > protocol_version \<or> protocol_version > hs_max_version hs))"

definition offers :: "SSL_PROTOCOL_METHOD \<Rightarrow> SSL_HANDSHAKE \<Rightarrow> uint16 \<Rightarrow> uint16 \<Rightarrow> bool" where
  "offers method hs extra_min_version version \<longleftrightarrow>
     ssl_supports_version method hs version \<and>
     (case ssl_protocol_version_from_wire version of
        None \<Rightarrow> False
      | Some protocol_version \<Rightarrow> protocol_version \<ge> extra_min_version)"

definition ssl_add_supported_versions :: "heap \<Rightarrow> nat \<Rightarrow> SSL_PROTOCOL_METHOD \<Rightarrow> SSL_HANDSHAKE \<Rightarrow> uint16 \<Rightarrow> (cbb, unit) op" where
  "ssl_add_supported_versions h d method hs extra_min_version =
     op_each (\<lambda>version. if offers method hs extra_min_version version then CBB_add_u16 h d version else op_ret ())
       (get_method_versions method)"

text \<open>
  The loop over the peer's list for one version, on a copy of it: \<open>None\<close> when the list turns out malformed before
  the version is found.
\<close>

lemma CBS_get_u16_shrinks: "CBS_get_u16 cbs = (Some v, rest) \<Longrightarrow> length rest < length cbs"
  using u16.dec_bytes by fastforce

function peer_offers :: "uint16 \<Rightarrow> cbs \<Rightarrow> bool option" where
  "peer_offers version copy =
     (if length copy \<noteq> 0 then
        (case CBS_get_u16 copy of
           (None, _) \<Rightarrow> None
         | (Some peer_version, copy') \<Rightarrow> if peer_version = version then Some True else peer_offers version copy')
      else Some False)"
  by pat_completeness auto
termination by (relation "measure (\<lambda>(_, copy). length copy)") (auto intro: CBS_get_u16_shrinks dest: sym)

declare peer_offers.simps [simp del]

text \<open>The version chosen, or the alert to send.\<close>

fun negotiate_loop :: "SSL_PROTOCOL_METHOD \<Rightarrow> SSL_HANDSHAKE \<Rightarrow> cbs \<Rightarrow> uint16 list \<Rightarrow> byte + uint16" where
  "negotiate_loop method hs peer_versions [] = Inl SSL_AD_PROTOCOL_VERSION"
| "negotiate_loop method hs peer_versions (version # rest) =
     (if \<not> ssl_supports_version method hs version then negotiate_loop method hs peer_versions rest
      else if version = TLS1_3_VERSION \<and> apply_jdk11_workaround hs then negotiate_loop method hs peer_versions rest
      else case peer_offers version peer_versions of
        None \<Rightarrow> Inl SSL_AD_DECODE_ERROR
      | Some True \<Rightarrow> Inr version
      | Some False \<Rightarrow> negotiate_loop method hs peer_versions rest)"

definition ssl_negotiate_version :: "SSL_PROTOCOL_METHOD \<Rightarrow> SSL_HANDSHAKE \<Rightarrow> cbs \<Rightarrow> byte + uint16" where
  "ssl_negotiate_version method hs peer_versions = negotiate_loop method hs peer_versions (get_method_versions method)"

subsection \<open>The public functions\<close>

record SSL_CTX =
  ctx_method :: SSL_PROTOCOL_METHOD
  ctx_min_version :: uint16
  ctx_max_version :: uint16

definition SSL_CTX_set_min_proto_version :: "uint16 \<Rightarrow> SSL_CTX \<Rightarrow> bool \<times> SSL_CTX" where
  "SSL_CTX_set_min_proto_version version ctx =
     (case set_min_version (ctx_method ctx) version of
        None \<Rightarrow> (False, ctx) | Some v \<Rightarrow> (True, ctx\<lparr>ctx_min_version := v\<rparr>))"

definition SSL_CTX_set_max_proto_version :: "uint16 \<Rightarrow> SSL_CTX \<Rightarrow> bool \<times> SSL_CTX" where
  "SSL_CTX_set_max_proto_version version ctx =
     (case set_max_version (ctx_method ctx) version of
        None \<Rightarrow> (False, ctx) | Some v \<Rightarrow> (True, ctx\<lparr>ctx_max_version := v\<rparr>))"

definition SSL_CTX_get_min_proto_version :: "SSL_CTX \<Rightarrow> uint16" where
  "SSL_CTX_get_min_proto_version ctx = ctx_min_version ctx"

definition SSL_CTX_get_max_proto_version :: "SSL_CTX \<Rightarrow> uint16" where
  "SSL_CTX_get_max_proto_version ctx = ctx_max_version ctx"

definition SSL_set_min_proto_version :: "uint16 \<Rightarrow> SSL \<Rightarrow> bool \<times> SSL" where
  "SSL_set_min_proto_version version s =
     (case ssl_config s of
        None \<Rightarrow> (False, s)
      | Some config \<Rightarrow>
          (case set_min_version (ssl_method s) version of
             None \<Rightarrow> (False, s)
           | Some v \<Rightarrow> (True, s\<lparr>ssl_config := Some (config\<lparr>conf_min_version := v\<rparr>)\<rparr>)))"

definition SSL_set_max_proto_version :: "uint16 \<Rightarrow> SSL \<Rightarrow> bool \<times> SSL" where
  "SSL_set_max_proto_version version s =
     (case ssl_config s of
        None \<Rightarrow> (False, s)
      | Some config \<Rightarrow>
          (case set_max_version (ssl_method s) version of
             None \<Rightarrow> (False, s)
           | Some v \<Rightarrow> (True, s\<lparr>ssl_config := Some (config\<lparr>conf_max_version := v\<rparr>)\<rparr>)))"

definition SSL_get_min_proto_version :: "SSL \<Rightarrow> uint16" where
  "SSL_get_min_proto_version s = (case ssl_config s of None \<Rightarrow> 0 | Some config \<Rightarrow> conf_min_version config)"

definition SSL_get_max_proto_version :: "SSL \<Rightarrow> uint16" where
  "SSL_get_max_proto_version s = (case ssl_config s of None \<Rightarrow> 0 | Some config \<Rightarrow> conf_max_version config)"

definition SSL_version :: "SSL \<Rightarrow> uint16" where
  "SSL_version s = wire_version_to_api (ssl_version s)"

definition SSL_get_version :: "SSL \<Rightarrow> string" where
  "SSL_get_version s = ssl_version_to_string (ssl_version s)"

text \<open>The names written to \<open>out\<close> and the number there are.\<close>

definition GetAllNames :: "nat \<Rightarrow> string list \<Rightarrow> ('t \<Rightarrow> string) \<Rightarrow> 't list \<Rightarrow> string list \<times> nat" where
  "GetAllNames max_out fixed_names name objects =
     (let n = min max_out (length fixed_names); span = min (max_out - n) (length objects)
      in (take n fixed_names @ map name (take span objects), length fixed_names + length objects))"

definition SSL_get_all_version_names :: "nat \<Rightarrow> string list \<times> nat" where
  "SSL_get_all_version_names max_out = GetAllNames max_out [kUnknownVersion] snd kVersionNames"

text \<open>The functions on sessions, over the field \<open>ssl_version\<close>.\<close>

definition SSL_SESSION_get_version :: "uint16 \<Rightarrow> string" where
  "SSL_SESSION_get_version session_version = ssl_version_to_string session_version"

definition SSL_SESSION_get_protocol_version :: "uint16 \<Rightarrow> uint16" where
  "SSL_SESSION_get_protocol_version session_version = wire_version_to_api session_version"

definition SSL_SESSION_set_protocol_version :: "uint16 \<Rightarrow> uint16 \<Rightarrow> bool \<times> uint16" where
  "SSL_SESSION_set_protocol_version version session_version =
     (case api_version_to_wire version of None \<Rightarrow> (False, session_version) | Some v \<Rightarrow> (True, v))"

definition SSL_CTX_set_record_protocol_version :: "int \<Rightarrow> bool" where
  "SSL_CTX_set_record_protocol_version version \<longleftrightarrow> version = 0"

subsection \<open>The range of versions\<close>

text \<open>
  The reference: of the versions between the bounds, skip the disabled ones and take the run of enabled ones.
\<close>

definition disabled :: "SSL \<Rightarrow> uint16 \<Rightarrow> bool" where
  "disabled s version \<longleftrightarrow>
     ssl_options s AND
       (if version = TLS1_VERSION then SSL_OP_NO_TLSv1
        else if version = TLS1_1_VERSION then (if is_dtls (ssl_method s) then SSL_OP_NO_DTLSv1 else SSL_OP_NO_TLSv1_1)
        else if version = TLS1_2_VERSION then SSL_OP_NO_TLSv1_2 else SSL_OP_NO_TLSv1_3) \<noteq> 0"

definition first_run :: "('a \<Rightarrow> bool) \<Rightarrow> 'a list \<Rightarrow> ('a \<times> 'a) option" where
  "first_run P xs = (case takeWhile P (dropWhile (\<lambda>x. \<not> P x) xs) of [] \<Rightarrow> None | ys \<Rightarrow> Some (hd ys, last ys))"

definition protocol_versions :: "uint16 list" where
  "protocol_versions = [TLS1_VERSION, TLS1_1_VERSION, TLS1_2_VERSION, TLS1_3_VERSION]"

lemma from_wire_protocol: "ssl_protocol_version_from_wire v = Some p \<Longrightarrow> p \<in> set protocol_versions"
  by (auto simp: ssl_protocol_version_from_wire_def protocol_versions_def split: if_splits)

lemma raised_bound:
  assumes "lo \<in> set protocol_versions"
  shows "filter (\<lambda>v. (if q \<and> lo < TLS1_3_VERSION then TLS1_3_VERSION else lo) \<le> v \<and> v \<le> hi) protocol_versions =
    filter (\<lambda>v. lo \<le> v \<and> v \<le> hi) (if q then [TLS1_3_VERSION] else protocol_versions)"
proof (cases q)
  case True
  have "lo \<le> TLS1_3_VERSION" "\<not> TLS1_3_VERSION \<le> lo \<longleftrightarrow> lo < TLS1_3_VERSION" using assms by (auto simp: protocol_versions_def)
  then show ?thesis using True by (cases "lo < TLS1_3_VERSION") (simp_all add: protocol_versions_def)
qed simp

lemma range_loop_run:
  assumes "lo \<in> set protocol_versions" "hi \<in> set protocol_versions"
    and P: "P TLS1_VERSION \<longleftrightarrow> options AND SSL_OP_NO_TLSv1 = 0" "P TLS1_1_VERSION \<longleftrightarrow> options AND SSL_OP_NO_TLSv1_1 = 0"
      "P TLS1_2_VERSION \<longleftrightarrow> options AND SSL_OP_NO_TLSv1_2 = 0" "P TLS1_3_VERSION \<longleftrightarrow> options AND SSL_OP_NO_TLSv1_3 = 0"
  shows "(case range_loop options 0 False lo hi kProtocolVersions of (any, l, u) \<Rightarrow> if any then Some (l, u) else None) =
    first_run P (filter (\<lambda>v. lo \<le> v \<and> v \<le> hi) protocol_versions)"
proof -
  note defs = kProtocolVersions_def first_run_def protocol_versions_def P[symmetric]
  have "lo = TLS1_VERSION \<or> lo = TLS1_1_VERSION \<or> lo = TLS1_2_VERSION \<or> lo = TLS1_3_VERSION"
    "hi = TLS1_VERSION \<or> hi = TLS1_1_VERSION \<or> hi = TLS1_2_VERSION \<or> hi = TLS1_3_VERSION"
    using assms(1,2) by (auto simp: protocol_versions_def)
  then show ?thesis
    by (elim disjE; simp add: defs;
        cases "P TLS1_VERSION"; cases "P TLS1_1_VERSION"; cases "P TLS1_2_VERSION"; cases "P TLS1_3_VERSION"; simp)
qed

text \<open>The flag of DTLS 1.0 is that of TLS 1.0, which the code moves to the entry of TLS 1.1.\<close>

lemma dtls_flags:
  fixes opts :: uint32
  defines "o1 \<equiv> opts AND NOT SSL_OP_NO_TLSv1_1"
  defines "o2 \<equiv> (if o1 AND SSL_OP_NO_DTLSv1 \<noteq> 0 then o1 OR SSL_OP_NO_TLSv1_1 else o1)"
  shows "o2 AND SSL_OP_NO_TLSv1 = opts AND SSL_OP_NO_TLSv1" "o2 AND SSL_OP_NO_TLSv1_1 = 0 \<longleftrightarrow> opts AND SSL_OP_NO_DTLSv1 = 0"
    "o2 AND SSL_OP_NO_TLSv1_2 = opts AND SSL_OP_NO_TLSv1_2" "o2 AND SSL_OP_NO_TLSv1_3 = opts AND SSL_OP_NO_TLSv1_3"
proof -
  have a: "o1 AND SSL_OP_NO_TLSv1 = opts AND SSL_OP_NO_TLSv1" "o1 AND SSL_OP_NO_TLSv1_2 = opts AND SSL_OP_NO_TLSv1_2"
    "o1 AND SSL_OP_NO_TLSv1_3 = opts AND SSL_OP_NO_TLSv1_3" "o1 AND SSL_OP_NO_TLSv1_1 = 0"
    by (simp_all add: o1_def and.assoc)
  have b: "(o1 OR SSL_OP_NO_TLSv1_1) AND SSL_OP_NO_TLSv1 = opts AND SSL_OP_NO_TLSv1"
    "(o1 OR SSL_OP_NO_TLSv1_1) AND SSL_OP_NO_TLSv1_2 = opts AND SSL_OP_NO_TLSv1_2"
    "(o1 OR SSL_OP_NO_TLSv1_1) AND SSL_OP_NO_TLSv1_3 = opts AND SSL_OP_NO_TLSv1_3"
    "(o1 OR SSL_OP_NO_TLSv1_1) AND SSL_OP_NO_TLSv1_1 \<noteq> 0"
    by (simp_all add: bit.conj_disj_distrib2 a)
  show "o2 AND SSL_OP_NO_TLSv1 = opts AND SSL_OP_NO_TLSv1" "o2 AND SSL_OP_NO_TLSv1_1 = 0 \<longleftrightarrow> opts AND SSL_OP_NO_DTLSv1 = 0"
    "o2 AND SSL_OP_NO_TLSv1_2 = opts AND SSL_OP_NO_TLSv1_2" "o2 AND SSL_OP_NO_TLSv1_3 = opts AND SSL_OP_NO_TLSv1_3"
    unfolding o2_def using a b by (cases "o1 AND SSL_OP_NO_DTLSv1 = 0"; simp)+
qed

text \<open>
  The range of versions a connection may use is the lowest run of consecutive enabled versions between the
  configured bounds, the lower bound raised to TLS 1.3 for QUIC; there is none exactly when a bound is not a
  version or every version between the bounds is disabled.
\<close>
theorem version_range_first_run:
  "ssl_get_version_range s config =
     (case (ssl_protocol_version_from_wire (conf_min_version config), ssl_protocol_version_from_wire (conf_max_version config)) of
        (Some lo, Some hi) \<Rightarrow>
          first_run (\<lambda>v. \<not> disabled s v)
            (filter (\<lambda>v. lo \<le> v \<and> v \<le> hi) (if ssl_quic s then [TLS1_3_VERSION] else protocol_versions))
      | _ \<Rightarrow> None)"
proof (cases "ssl_protocol_version_from_wire (conf_min_version config)")
  case (Some lo)
  note lo = Some
  show ?thesis
  proof (cases "ssl_protocol_version_from_wire (conf_max_version config)")
    case (Some hi)
    let ?lo = "if ssl_quic s \<and> lo < TLS1_3_VERSION then TLS1_3_VERSION else lo"
    let ?o1 = "ssl_options s AND NOT SSL_OP_NO_TLSv1_1"
    define opts where "opts = (if is_dtls (ssl_method s)
      then if ?o1 AND SSL_OP_NO_DTLSv1 \<noteq> 0 then ?o1 OR SSL_OP_NO_TLSv1_1 else ?o1 else ssl_options s)"
    have in_range: "lo \<in> set protocol_versions" "hi \<in> set protocol_versions" using lo Some by (auto dest: from_wire_protocol)
    then have "?lo \<in> set protocol_versions" by (auto simp: protocol_versions_def)
    moreover have "\<not> disabled s TLS1_VERSION \<longleftrightarrow> opts AND SSL_OP_NO_TLSv1 = 0" "\<not> disabled s TLS1_1_VERSION \<longleftrightarrow> opts AND SSL_OP_NO_TLSv1_1 = 0"
      "\<not> disabled s TLS1_2_VERSION \<longleftrightarrow> opts AND SSL_OP_NO_TLSv1_2 = 0" "\<not> disabled s TLS1_3_VERSION \<longleftrightarrow> opts AND SSL_OP_NO_TLSv1_3 = 0"
      unfolding disabled_def opts_def using dtls_flags[of "ssl_options s"] by (cases "is_dtls (ssl_method s)"; simp only: if_True if_False; simp)+
    ultimately have run: "(case range_loop opts 0 False ?lo hi kProtocolVersions of (any, l, u) \<Rightarrow> if any then Some (l, u) else None) =
        first_run (\<lambda>v. \<not> disabled s v) (filter (\<lambda>v. ?lo \<le> v \<and> v \<le> hi) protocol_versions)"
      using in_range(2) by (intro range_loop_run)
    have "ssl_get_version_range s config = first_run (\<lambda>v. \<not> disabled s v) (filter (\<lambda>v. ?lo \<le> v \<and> v \<le> hi) protocol_versions)"
      unfolding run[symmetric] ssl_get_version_range_def Let_def lo Some opts_def option.case prod.case ..
    moreover have "filter (\<lambda>v. ?lo \<le> v \<and> v \<le> hi) protocol_versions =
        filter (\<lambda>v. lo \<le> v \<and> v \<le> hi) (if ssl_quic s then [TLS1_3_VERSION] else protocol_versions)"
      using raised_bound[OF in_range(1), of "ssl_quic s" hi] by simp
    ultimately show ?thesis using lo Some by simp
  qed (simp add: ssl_get_version_range_def Let_def lo)
qed (simp add: ssl_get_version_range_def Let_def)

subsection \<open>Agreement\<close>

abbreviation (input) enc_version :: "uint16 \<Rightarrow> byte list" where
  "enc_version v \<equiv> be_bytes 2 (unat v)"

lemma peer_offers_list: "peer_offers version (concat (map enc_version vs)) = Some (version \<in> set vs)"
proof (induction vs)
  case (Cons v vs)
  then show ?case
    by (subst peer_offers.simps) (simp add: u16.dec_enc[simplified])
qed (subst peer_offers.simps, simp)

lemma add_supported_calls:
  "ssl_add_supported_versions h d method hs m =
     op_each (run_call h) (map (\<lambda>v. AddU d 2 (ucast v)) (filter (offers method hs m) (get_method_versions method)))"
proof -
  have skip: "op_bind (op_ret ()) f = f ()" for f :: "unit \<Rightarrow> (cbb, unit) op" by (rule ext) (simp add: op_bind_def)
  have "op_each (\<lambda>v. if P v then CBB_add_u16 h d v else op_ret ()) vs =
      op_each (run_call h) (map (\<lambda>v. AddU d 2 (ucast v)) (filter P vs))" for P vs
    by (induction vs) (simp_all add: skip CBB_add_u16_def)
  then show ?thesis by (simp add: ssl_add_supported_versions_def)
qed

lemma uint16_lt: "unat (v :: uint16) < 65536"
  using unsigned_less[of v] by simp

lemma unat_ucast_version: "unat (ucast (v :: uint16) :: uint64) = unat v"
  using uint16_lt[of v] by (subst unsigned_ucast_eq) (simp add: take_bit_nat_eq_self)

lemma spec_calls_versions:
  "spec_calls (map (\<lambda>v. AddU 0 2 (ucast v)) vs) [(Plain 0, x)] = Some [(Plain 0, x @ concat (map enc_version vs))]"
proof (induction vs arbitrary: x)
  case (Cons v vs)
  show ?case using Cons uint16_lt[of v] by (simp add: unat_ucast_version spec_add_def spec_flush_def append_last_def)
qed simp

text \<open>What a client offers, on a fresh buffer.\<close>

definition offer :: "heap \<Rightarrow> SSL_PROTOCOL_METHOD \<Rightarrow> SSL_HANDSHAKE \<Rightarrow> uint16 \<Rightarrow> (cbb, byte list) op" where
  "offer h method hs m = op_bind (ssl_add_supported_versions h 0 method hs m) (\<lambda>_. CBB_finish h 0)"

lemma offer_bytes:
  assumes "CBB_init h n = Some st" "n < 2 ^ 64" "offer h method hs m st = (Some out, st')"
  shows "out = concat (map enc_version (filter (offers method hs m) (get_method_versions method)))"
proof -
  let ?vs = "filter (offers method hs m) (get_method_versions method)"
  let ?cs = "map (\<lambda>v. AddU 0 2 (ucast v)) ?vs"
  have "spec_build ?cs = Some (concat (map enc_version ?vs))"
    by (simp add: spec_build_def spec_calls_versions spec_flush_def append_last_def)
  moreover have "list_all call_ok ?cs" by (simp add: list_all_iff)
  moreover have "build h ?cs st = (Some out, st')" using assms(3) by (simp add: offer_def build_def add_supported_calls)
  ultimately show ?thesis using build_spec[OF _ assms(2,1)] by force
qed

lemma offer_total:
  assumes "CBB_init h n = Some st" "n < 2 ^ 64" "\<forall>k. alloc_ok h k"
  shows "fst (offer h method hs m st) \<noteq> None"
proof -
  let ?vs = "filter (offers method hs m) (get_method_versions method)"
  let ?cs = "map (\<lambda>v. AddU 0 2 (ucast v)) ?vs"
  have "spec_build ?cs = Some (concat (map enc_version ?vs))"
    by (simp add: spec_build_def spec_calls_versions spec_flush_def append_last_def)
  moreover have "length (concat (map enc_version ?vs)) < 2 ^ 64"
    using length_filter_le[of "offers method hs m" "get_method_versions method"]
    by (simp add: length_concat sum_list_triv o_def get_method_versions_def kTLSVersions_def kDTLSVersions_def split: if_splits)
  moreover have "list_all call_ok ?cs" by (simp add: list_all_iff)
  ultimately have "fst (build h ?cs st) = Some (concat (map enc_version ?vs))"
    using build_total[OF _ assms(2,1)] assms(3) by blast
  then show ?thesis by (simp add: offer_def build_def add_supported_calls)
qed

definition usable :: "SSL_PROTOCOL_METHOD \<Rightarrow> SSL_HANDSHAKE \<Rightarrow> uint16 \<Rightarrow> bool" where
  "usable method hs v \<longleftrightarrow> ssl_supports_version method hs v \<and> \<not> (v = TLS1_3_VERSION \<and> apply_jdk11_workaround hs)"

lemma negotiate_find:
  "negotiate_loop method hs (concat (map enc_version offered)) vs =
     (case find (\<lambda>v. usable method hs v \<and> v \<in> set offered) vs of None \<Rightarrow> Inl SSL_AD_PROTOCOL_VERSION | Some v \<Rightarrow> Inr v)"
  by (induction vs) (auto simp: usable_def peer_offers_list)

lemma method_versions_decreasing:
  "sorted_wrt (\<lambda>v w. the (ssl_protocol_version_from_wire w) \<le> the (ssl_protocol_version_from_wire v)) (get_method_versions method)"
  by (simp add: get_method_versions_def kTLSVersions_def kDTLSVersions_def ssl_protocol_version_from_wire_def)

lemma find_first_Some:
  "find P xs = Some x \<Longrightarrow> sorted_wrt R xs \<Longrightarrow> reflp R \<Longrightarrow> y \<in> set xs \<Longrightarrow> P y \<Longrightarrow> R x y"
  by (induction xs) (auto split: if_splits dest: reflpD)

lemma supports_method: "ssl_supports_version method hs v \<Longrightarrow> v \<in> set (get_method_versions method)"
  by (auto simp: ssl_supports_version_def ssl_method_supports_version_def list_ex_iff split: if_splits)

definition agreed :: "SSL_PROTOCOL_METHOD \<Rightarrow> SSL_HANDSHAKE \<Rightarrow> uint16 \<Rightarrow> SSL_HANDSHAKE \<Rightarrow> byte + uint16 \<Rightarrow> bool" where
  "agreed method client m server r \<longleftrightarrow> (case r of
      Inr v \<Rightarrow> offers method client m v \<and> usable method server v \<and>
        (\<forall>w. offers method client m w \<and> usable method server w \<longrightarrow>
          the (ssl_protocol_version_from_wire w) \<le> the (ssl_protocol_version_from_wire v))
    | Inl alert \<Rightarrow> alert = SSL_AD_PROTOCOL_VERSION \<and> (\<forall>w. \<not> (offers method client m w \<and> usable method server w)))"

lemma negotiate_agreed:
  "agreed method client m server
     (ssl_negotiate_version method server (concat (map enc_version (filter (offers method client m) (get_method_versions method)))))"
proof -
  let ?vs = "get_method_versions method"
  let ?P = "\<lambda>v. usable method server v \<and> v \<in> set (filter (offers method client m) ?vs)"
  let ?R = "\<lambda>v w. the (ssl_protocol_version_from_wire w) \<le> the (ssl_protocol_version_from_wire v)"
  have P: "?P v \<longleftrightarrow> offers method client m v \<and> usable method server v" for v
    by (auto simp: usable_def dest: supports_method)
  have run: "ssl_negotiate_version method server (concat (map enc_version (filter (offers method client m) ?vs))) =
      (case find ?P ?vs of None \<Rightarrow> Inl SSL_AD_PROTOCOL_VERSION | Some v \<Rightarrow> Inr v)"
    unfolding ssl_negotiate_version_def negotiate_find ..
  show ?thesis
  proof (cases "find ?P ?vs")
    case None
    then have "\<not> ?P w" for w by (auto simp: find_None_iff usable_def dest: supports_method)
    then show ?thesis using P unfolding run None agreed_def by auto
  next
    case (Some v)
    have "?P v" using Some by (metis (mono_tags, lifting) find_Some_iff)
    moreover have "?R v w" if "?P w" for w
      by (rule find_first_Some[OF Some method_versions_decreasing _ _ that]) (use that in \<open>auto simp: reflp_def usable_def dest: supports_method\<close>)
    ultimately show ?thesis using P unfolding run Some agreed_def by simp
  qed
qed

text \<open>
  (C24) Version negotiation: a client that writes its list with \<open>ssl_add_supported_versions\<close> gets it written when
  memory is available, and from that list the server picks the highest version that the client offers and the
  server can use, or answers with the alert \<open>protocol_version\<close>, exactly when there is none.
\<close>
theorem negotiate_highest_common:
  assumes "CBB_init h n = Some st" and "n < 2 ^ 64"
  shows "(\<forall>out st'. offer h method client m st = (Some out, st') \<longrightarrow>
      agreed method client m server (ssl_negotiate_version method server out)) \<and>
    ((\<forall>k. alloc_ok h k) \<longrightarrow> fst (offer h method client m st) \<noteq> None)"
proof (intro conjI allI impI)
  fix out st' assume run: "offer h method client m st = (Some out, st')"
  show "agreed method client m server (ssl_negotiate_version method server out)"
    unfolding offer_bytes[OF assms run] by (rule negotiate_agreed)
qed (rule offer_total[OF assms])

theorem negotiate_highest_common_witness:
  "\<exists>out st'. offer \<lparr>alloc_ok = \<lambda>_. True, fresh = \<lambda>_. 0\<rparr> \<lparr>is_dtls = False\<rparr>
      \<lparr>hs_min_version = TLS1_2_VERSION, hs_max_version = TLS1_3_VERSION, is_early_version = False, in_early_data = False,
       apply_jdk11_workaround = False, early_session_version = 0, handshake_finalized = False, can_early_write = False, early_data_read = 0,
       early_data_written = 0, ticket_max_early_data = 0\<rparr> 0 (cbb_init [] 0 True) = (Some out, st') \<and>
    ssl_negotiate_version \<lparr>is_dtls = False\<rparr>
      \<lparr>hs_min_version = TLS1_VERSION, hs_max_version = TLS1_2_VERSION, is_early_version = False, in_early_data = False,
       apply_jdk11_workaround = False, early_session_version = 0, handshake_finalized = False, can_early_write = False, early_data_read = 0,
       early_data_written = 0, ticket_max_early_data = 0\<rparr> out \<noteq> Inl 50"
proof -
  let ?h = "\<lparr>alloc_ok = \<lambda>_. True, fresh = \<lambda>_. 0 :: byte\<rparr>"
  let ?hs = "\<lambda>lo hi. \<lparr>hs_min_version = lo, hs_max_version = hi, is_early_version = False, in_early_data = False,
      apply_jdk11_workaround = False, early_session_version = 0, handshake_finalized = False, can_early_write = False, early_data_read = 0,
       early_data_written = 0, ticket_max_early_data = 0\<rparr>"
  let ?run = "offer ?h \<lparr>is_dtls = False\<rparr> (?hs TLS1_2_VERSION TLS1_3_VERSION) 0 (cbb_init [] 0 True)"
  have i: "CBB_init ?h 0 = Some (cbb_init [] 0 True)" by (simp add: CBB_init_def)
  note neg = negotiate_highest_common[OF i, of "\<lparr>is_dtls = False\<rparr>" "?hs TLS1_2_VERSION TLS1_3_VERSION" 0 "?hs TLS1_VERSION TLS1_2_VERSION"]
  obtain out st' where r: "?run = (Some out, st')" using neg by (cases ?run) auto
  then have "agreed \<lparr>is_dtls = False\<rparr> (?hs TLS1_2_VERSION TLS1_3_VERSION) 0 (?hs TLS1_VERSION TLS1_2_VERSION)
      (ssl_negotiate_version \<lparr>is_dtls = False\<rparr> (?hs TLS1_VERSION TLS1_2_VERSION) out)"
    using neg by simp
  then have "ssl_negotiate_version \<lparr>is_dtls = False\<rparr> (?hs TLS1_VERSION TLS1_2_VERSION) out \<noteq> Inl 50"
    by (auto simp: agreed_def)
  then show ?thesis using r by blast
qed

end
