(* ===== verification/Ssl_Aead.thy ===== *)
theory Ssl_Aead
  imports Evp_Aead Ssl_Versions
begin

text \<open>
  The protection of records, \<open>ssl/ssl_aead_ctx.cc\<close>, with the functions of \<open>ssl/ssl_cipher.cc\<close> it calls: the choice
  of the algorithm for a cipher suite, the nonce and the additional data of a record, opening and sealing, and the
  lengths the callers use. \<open>FUZZER_MODE\<close> is off. A context of a cipher suite carries the initialised
  \<open>EVP_AEAD_CTX\<close>; the placeholders for QUIC, which cannot protect anything, are not values of the model.
  \<open>RAND_bytes\<close> is a function of a world, as an argument. Assertions and entries of the error queue are not modelled.
\<close>

abbreviation (input) "SSL_3DES \<equiv> (0x01 :: uint32)"
abbreviation (input) "SSL_AES128 \<equiv> (0x02 :: uint32)"
abbreviation (input) "SSL_AES256 \<equiv> (0x04 :: uint32)"
abbreviation (input) "SSL_AES128GCM \<equiv> (0x08 :: uint32)"
abbreviation (input) "SSL_AES256GCM \<equiv> (0x10 :: uint32)"
abbreviation (input) "SSL_CHACHA20POLY1305 \<equiv> (0x20 :: uint32)"
abbreviation (input) "SSL_SHA1 \<equiv> (1 :: uint32)"
abbreviation (input) "SSL_SHA256 \<equiv> (2 :: uint32)"
abbreviation (input) "SSL_AEAD \<equiv> (4 :: uint32)"
abbreviation (input) "SHA_DIGEST_LENGTH \<equiv> (20 :: nat)"
abbreviation (input) "SHA256_DIGEST_LENGTH \<equiv> (32 :: nat)"
abbreviation (input) "EVP_AEAD_MAX_KEY_LENGTH \<equiv> (80 :: nat)"
abbreviation (input) "EVP_AEAD_DEFAULT_TAG_LENGTH \<equiv> (0 :: nat)"

subsection \<open>Cipher suites\<close>

record SSL_CIPHER =
  algorithm_enc :: uint32
  algorithm_mac :: uint32

definition SSL_CIPHER_is_block_cipher :: "SSL_CIPHER \<Rightarrow> bool" where
  "SSL_CIPHER_is_block_cipher cipher \<longleftrightarrow> algorithm_mac cipher \<noteq> SSL_AEAD"

definition ssl_cipher_get_record_split_len :: "SSL_CIPHER \<Rightarrow> nat" where
  "ssl_cipher_get_record_split_len cipher =
     (let enc = algorithm_enc cipher in
      if enc = SSL_3DES \<or> enc = SSL_AES128 \<or> enc = SSL_AES256 then
        let block_size = (if enc = SSL_3DES then 8 else 16); ret = 1 + SHA_DIGEST_LENGTH
        in ret + (block_size - ret mod block_size)
      else 0)"

text \<open>The algorithms, by the functions that return their tables of methods.\<close>

datatype aead_name =
    EVP_aead_aes_128_gcm_tls12 | EVP_aead_aes_128_gcm_tls13 | EVP_aead_aes_256_gcm_tls12 | EVP_aead_aes_256_gcm_tls13
  | EVP_aead_chacha20_poly1305
  | EVP_aead_des_ede3_cbc_sha1_tls_implicit_iv | EVP_aead_des_ede3_cbc_sha1_tls
  | EVP_aead_aes_128_cbc_sha1_tls_implicit_iv | EVP_aead_aes_128_cbc_sha1_tls
  | EVP_aead_aes_256_cbc_sha1_tls_implicit_iv | EVP_aead_aes_256_cbc_sha1_tls
  | EVP_aead_aes_128_cbc_sha256_tls

text \<open>The algorithm, \<open>*out_mac_secret_len\<close> and \<open>*out_fixed_iv_len\<close>; \<open>methods\<close> stands for the functions above.\<close>

definition ssl_cipher_get_evp_aead ::
  "(aead_name \<Rightarrow> 'c EVP_AEAD) \<Rightarrow> SSL_CIPHER \<Rightarrow> uint16 \<Rightarrow> (aead_name \<times> nat \<times> nat) option" where
  "ssl_cipher_get_evp_aead methods cipher version =
     (let enc = algorithm_enc cipher; mac = algorithm_mac cipher in
      if mac = SSL_AEAD then
        let chosen =
          (if enc = SSL_AES128GCM then
             Some (if version < TLS1_3_VERSION then EVP_aead_aes_128_gcm_tls12 else EVP_aead_aes_128_gcm_tls13, 4)
           else if enc = SSL_AES256GCM then
             Some (if version < TLS1_3_VERSION then EVP_aead_aes_256_gcm_tls12 else EVP_aead_aes_256_gcm_tls13, 4)
           else if enc = SSL_CHACHA20POLY1305 then Some (EVP_aead_chacha20_poly1305, 12)
           else None) in
        (case chosen of
           None \<Rightarrow> None
         | Some (aead, iv_len) \<Rightarrow>
             Some (aead, 0, if version \<ge> TLS1_3_VERSION then EVP_AEAD_nonce_length (methods aead) else iv_len))
      else if mac = SSL_SHA1 then
        (if enc = SSL_3DES then
           if version = TLS1_VERSION then Some (EVP_aead_des_ede3_cbc_sha1_tls_implicit_iv, SHA_DIGEST_LENGTH, 8)
           else Some (EVP_aead_des_ede3_cbc_sha1_tls, SHA_DIGEST_LENGTH, 0)
         else if enc = SSL_AES128 then
           if version = TLS1_VERSION then Some (EVP_aead_aes_128_cbc_sha1_tls_implicit_iv, SHA_DIGEST_LENGTH, 16)
           else Some (EVP_aead_aes_128_cbc_sha1_tls, SHA_DIGEST_LENGTH, 0)
         else if enc = SSL_AES256 then
           if version = TLS1_VERSION then Some (EVP_aead_aes_256_cbc_sha1_tls_implicit_iv, SHA_DIGEST_LENGTH, 16)
           else Some (EVP_aead_aes_256_cbc_sha1_tls, SHA_DIGEST_LENGTH, 0)
         else None)
      else if mac = SSL_SHA256 then
        (if enc = SSL_AES128 then Some (EVP_aead_aes_128_cbc_sha256_tls, SHA256_DIGEST_LENGTH, 0) else None)
      else None)"

subsection \<open>Contexts\<close>

text \<open>\<open>sc_cipher\<close> is \<open>cipher_\<close> with \<open>ctx_\<close>, and \<open>None\<close> for the null cipher.\<close>

record 'c SSLAEADContext =
  sc_cipher :: "(SSL_CIPHER \<times> 'c EVP_AEAD_CTX) option"
  fixed_nonce :: "byte list"
  variable_nonce_len :: nat
  variable_nonce_included_in_record :: bool
  random_variable_nonce :: bool
  xor_fixed_nonce :: bool
  omit_length_in_ad :: bool
  ad_is_header :: bool

definition CreateNullCipher :: "'c SSLAEADContext" where
  "CreateNullCipher =
     \<lparr>sc_cipher = None, fixed_nonce = [], variable_nonce_len = 0, variable_nonce_included_in_record = False,
      random_variable_nonce = False, xor_fixed_nonce = False, omit_length_in_ad = False, ad_is_header = False\<rparr>"

definition is_null_cipher :: "'c SSLAEADContext \<Rightarrow> bool" where
  "is_null_cipher sc \<longleftrightarrow> (case sc_cipher sc of None \<Rightarrow> True | Some _ \<Rightarrow> False)"

text \<open>
  \<open>Create\<close>, when the object could be allocated. The outer \<open>None\<close> is \<open>abort()\<close>: a fixed IV that does not fit the
  nonce, or keys that do not fit \<open>merged_key\<close>. \<open>variable_nonce_len_\<close> is a \<open>uint8_t\<close>.
\<close>

definition Create ::
  "(aead_name \<Rightarrow> 'c EVP_AEAD) \<Rightarrow> evp_aead_direction_t \<Rightarrow> uint16 \<Rightarrow> SSL_CIPHER \<Rightarrow> byte list \<Rightarrow> byte list \<Rightarrow> byte list
   \<Rightarrow> 'c SSLAEADContext option option" where
  "Create methods direction version cipher enc_key mac_key fixed_iv =
     (case ssl_protocol_version_from_wire version of
        None \<Rightarrow> Some None
      | Some protocol_version \<Rightarrow>
     (case ssl_cipher_get_evp_aead methods cipher protocol_version of
        None \<Rightarrow> Some None
      | Some (aead, expected_mac_key_len, expected_fixed_iv_len) \<Rightarrow>
          if expected_fixed_iv_len \<noteq> length fixed_iv \<or> expected_mac_key_len \<noteq> length mac_key then Some None
          else let init = EVP_AEAD_CTX_init_with_direction (methods aead);
                   nonce_len = EVP_AEAD_nonce_length (methods aead) mod 256;
                   tls13 = protocol_version \<ge> TLS1_3_VERSION in
            if mac_key = [] then
              if length fixed_iv > 12 then None
              else let xor_it = (tls13 \<or> algorithm_enc cipher AND SSL_CHACHA20POLY1305 \<noteq> 0) in
              Some (case init enc_key EVP_AEAD_DEFAULT_TAG_LENGTH direction of
                None \<Rightarrow> None
              | Some ctx \<Rightarrow>
                  Some \<lparr>sc_cipher = Some (cipher, ctx), fixed_nonce = fixed_iv,
                        variable_nonce_len = (if xor_it then 8 else (256 + nonce_len - length fixed_iv) mod 256),
                        variable_nonce_included_in_record = (\<not> xor_it), random_variable_nonce = False,
                        xor_fixed_nonce = xor_it, omit_length_in_ad = False, ad_is_header = tls13\<rparr>)
            else if length mac_key + length enc_key + length fixed_iv > EVP_AEAD_MAX_KEY_LENGTH then None
            else Some (case init (mac_key @ enc_key @ fixed_iv) EVP_AEAD_DEFAULT_TAG_LENGTH direction of
                None \<Rightarrow> None
              | Some ctx \<Rightarrow>
                  Some \<lparr>sc_cipher = Some (cipher, ctx), fixed_nonce = [], variable_nonce_len = nonce_len,
                        variable_nonce_included_in_record = True, random_variable_nonce = True,
                        xor_fixed_nonce = False, omit_length_in_ad = True, ad_is_header = False\<rparr>)))"

subsection \<open>Lengths\<close>

definition ExplicitNonceLen :: "'c SSLAEADContext \<Rightarrow> nat" where
  "ExplicitNonceLen sc = (if variable_nonce_included_in_record sc then variable_nonce_len sc else 0)"

definition SuffixLen :: "'c SSLAEADContext \<Rightarrow> nat \<Rightarrow> nat \<Rightarrow> nat option" where
  "SuffixLen sc in_len extra_in_len =
     (case sc_cipher sc of
        None \<Rightarrow> Some extra_in_len
      | Some (_, ctx) \<Rightarrow> EVP_AEAD_CTX_tag_len ctx in_len extra_in_len)"

definition CiphertextLen :: "'c SSLAEADContext \<Rightarrow> nat \<Rightarrow> nat \<Rightarrow> nat option" where
  "CiphertextLen sc in_len extra_in_len =
     (case SuffixLen sc in_len extra_in_len of
        None \<Rightarrow> None
      | Some suffix_len \<Rightarrow>
          let len = (suffix_len + ExplicitNonceLen sc + in_len) mod 2 ^ 64
          in if len < in_len \<or> len \<ge> 0xffff then None else Some len)"

definition MaxOverhead :: "'c SSLAEADContext \<Rightarrow> nat" where
  "MaxOverhead sc =
     ExplicitNonceLen sc + (case sc_cipher sc of None \<Rightarrow> 0 | Some (_, ctx) \<Rightarrow> EVP_AEAD_max_overhead (ctx_aead ctx))"

text \<open>\<open>None\<close> is \<open>abort()\<close>. \<open>max_out &= ~(block_size - 1)\<close> rounds down to a multiple of the block size.\<close>

definition MaxSealInputLen :: "'c SSLAEADContext \<Rightarrow> nat \<Rightarrow> nat option" where
  "MaxSealInputLen sc max_out0 =
     (let explicit_nonce_len = ExplicitNonceLen sc in
      if max_out0 \<le> explicit_nonce_len then Some 0
      else let max_out = max_out0 - explicit_nonce_len in
      case sc_cipher sc of
        None \<Rightarrow> Some max_out
      | Some (cipher, ctx) \<Rightarrow>
          let overhead = EVP_AEAD_max_overhead (ctx_aead ctx); enc = algorithm_enc cipher in
          if SSL_CIPHER_is_block_cipher cipher then
            if enc = SSL_AES128 \<or> enc = SSL_AES256 \<or> enc = SSL_3DES then
              let block_size = (if enc = SSL_3DES then 8 else 16);
                  rounded = max_out - max_out mod block_size;
                  least = (2 ^ 64 + overhead - (block_size - 1)) mod 2 ^ 64
              in Some (if rounded \<le> least then 0 else rounded - least)
            else None
          else Some (if max_out \<le> overhead then 0 else max_out - overhead))"

subsection \<open>Opening and sealing\<close>

definition GetAdditionalData :: "'c SSLAEADContext \<Rightarrow> byte \<Rightarrow> uint16 \<Rightarrow> uint64 \<Rightarrow> nat \<Rightarrow> byte list \<Rightarrow> byte list" where
  "GetAdditionalData sc type record_version seqnum plaintext_len header =
     (if ad_is_header sc then header
      else be_bytes 8 (unat seqnum) @ [type] @ be_bytes 2 (unat record_version) @
        (if omit_length_in_ad sc then [] else be_bytes 2 plaintext_len))"

text \<open>The nonce, from its variable part: after the fixed one, or padded on the left and XORed with it.\<close>

definition assemble_nonce :: "'c SSLAEADContext \<Rightarrow> byte list \<Rightarrow> byte list" where
  "assemble_nonce sc variable =
     (if xor_fixed_nonce sc then
        map2 (XOR) (replicate (length (fixed_nonce sc) - variable_nonce_len sc) 0 @ variable) (fixed_nonce sc)
      else fixed_nonce sc @ variable)"

text \<open>Decryption is in place: the addresses of the input and the output are the same.\<close>

definition Open ::
  "'c SSLAEADContext \<Rightarrow> byte \<Rightarrow> uint16 \<Rightarrow> uint64 \<Rightarrow> byte list \<Rightarrow> byte list \<Rightarrow> byte list option \<times> 'c SSLAEADContext" where
  "Open sc type record_version seqnum header inp =
     (case sc_cipher sc of
        None \<Rightarrow> (Some inp, sc)
      | Some (cipher, ctx) \<Rightarrow>
          if \<not> omit_length_in_ad sc \<and> length inp < MaxOverhead sc then (None, sc)
          else let plaintext_len = (if omit_length_in_ad sc then 0 else length inp - MaxOverhead sc);
                   ad = GetAdditionalData sc type record_version seqnum plaintext_len header in
          if variable_nonce_included_in_record sc \<and> length inp < variable_nonce_len sc then (None, sc)
          else let variable = (if variable_nonce_included_in_record sc then take (variable_nonce_len sc) inp
                               else be_bytes 8 (unat seqnum));
                   body = (if variable_nonce_included_in_record sc then drop (variable_nonce_len sc) inp else inp);
                   nonce = assemble_nonce sc variable in
          (case EVP_AEAD_CTX_open ctx 0 (length body) 0 nonce body ad of
             ((True, out), ctx1) \<Rightarrow> (Some out, sc\<lparr>sc_cipher := Some (cipher, ctx1)\<rparr>)
           | ((False, _), ctx1) \<Rightarrow> (None, sc\<lparr>sc_cipher := Some (cipher, ctx1)\<rparr>)))"

type_synonym 'w rand = "nat \<Rightarrow> 'w \<Rightarrow> byte list option \<times> 'w"

text \<open>What is written to \<open>out_prefix\<close>, \<open>out\<close> and \<open>out_suffix\<close>.\<close>

definition SealScatter ::
  "'w rand \<Rightarrow> 'c SSLAEADContext \<Rightarrow> nat \<Rightarrow> nat \<Rightarrow> nat \<Rightarrow> byte \<Rightarrow> uint16 \<Rightarrow> uint64 \<Rightarrow> byte list \<Rightarrow> nat \<Rightarrow> byte list \<Rightarrow> byte list \<Rightarrow> 'w
   \<Rightarrow> (byte list \<times> byte list \<times> byte list) option \<times> 'c SSLAEADContext \<times> 'w" where
  "SealScatter RAND_bytes sc prefix_at out_at suffix_at type record_version seqnum header in_at inp extra_in w =
     (let prefix_len = ExplicitNonceLen sc; in_len = length inp in
      case SuffixLen sc in_len (length extra_in) of
        None \<Rightarrow> (None, sc, w)
      | Some suffix_len \<Rightarrow>
          if (in_at \<noteq> out_at \<and> buffers_alias in_at in_len out_at in_len) \<or>
             buffers_alias in_at in_len prefix_at prefix_len \<or> buffers_alias in_at in_len suffix_at suffix_len
          then (None, sc, w)
          else case sc_cipher sc of
            None \<Rightarrow> (Some ([], inp, extra_in), sc, w)
          | Some (cipher, ctx) \<Rightarrow>
              let ad = GetAdditionalData sc type record_version seqnum in_len header in
              (case (if random_variable_nonce sc then RAND_bytes (variable_nonce_len sc) w
                     else (Some (be_bytes 8 (unat seqnum)), w)) of
                 (None, w1) \<Rightarrow> (None, sc, w1)
               | (Some variable, w1) \<Rightarrow>
                   let included = variable_nonce_included_in_record sc in
                   if included \<and> buffers_alias in_at in_len prefix_at (variable_nonce_len sc) then (None, sc, w1)
                   else (case EVP_AEAD_CTX_seal_scatter ctx out_at suffix_at suffix_len in_at (assemble_nonce sc variable)
                                inp extra_in ad of
                      ((True, out, suffix), ctx1) \<Rightarrow>
                        (Some (if included then variable else [], out, suffix), sc\<lparr>sc_cipher := Some (cipher, ctx1)\<rparr>, w1)
                    | ((False, _), ctx1) \<Rightarrow> (None, sc\<lparr>sc_cipher := Some (cipher, ctx1)\<rparr>, w1))))"

text \<open>The record as it stands in \<open>out\<close>, of \<open>*out_len\<close> bytes.\<close>

definition Seal ::
  "'w rand \<Rightarrow> 'c SSLAEADContext \<Rightarrow> nat \<Rightarrow> nat \<Rightarrow> byte \<Rightarrow> uint16 \<Rightarrow> uint64 \<Rightarrow> byte list \<Rightarrow> nat \<Rightarrow> byte list \<Rightarrow> 'w
   \<Rightarrow> byte list option \<times> 'c SSLAEADContext \<times> 'w" where
  "Seal RAND_bytes sc out_at max_out_len type record_version seqnum header in_at inp w =
     (let prefix_len = ExplicitNonceLen sc; in_len = length inp in
      case SuffixLen sc in_len 0 of
        None \<Rightarrow> (None, sc, w)
      | Some suffix_len \<Rightarrow>
          let with_prefix = (in_len + prefix_len) mod 2 ^ 64; all_len = (with_prefix + suffix_len) mod 2 ^ 64 in
          if with_prefix < in_len \<or> all_len < with_prefix then (None, sc, w)
          else if all_len > max_out_len then (None, sc, w)
          else (case SealScatter RAND_bytes sc out_at (out_at + prefix_len) (out_at + prefix_len + in_len) type record_version
                       seqnum header in_at inp [] w of
                  (None, sc1, w1) \<Rightarrow> (None, sc1, w1)
                | (Some (prefix, out, suffix), sc1, w1) \<Rightarrow> (Some (prefix @ out @ suffix), sc1, w1)))"

definition GetIV :: "'c SSLAEADContext \<Rightarrow> byte list option" where
  "GetIV sc = (case sc_cipher sc of None \<Rightarrow> None | Some (_, ctx) \<Rightarrow> EVP_AEAD_CTX_get_iv ctx)"

end
