(* ===== verification/Tls_Record.thy ===== *)
theory Tls_Record
  imports Ssl_Aead Ssl_Buffer
begin

text \<open>
  The record layer of TLS, \<open>ssl/tls_record.cc\<close>, with the functions of \<open>ssl/s3_both.cc\<close> and \<open>ssl/handshake.cc\<close> on
  the handshake buffer that it consults: opening a record, with the limits on empty records, warning alerts and
  skipped early data, and sealing one, with the splitting of TLS 1.0 CBC records. The state extends that of the
  version theory by the fields of \<open>SSL\<close> and \<open>SSL3_STATE\<close> the record layer reads or writes, at their widths. Message and
  info callbacks, assertions and entries of the error queue are not modelled; a buffer object \<open>BUF_MEM\<close> is its
  contents.
\<close>

abbreviation (input) "SSL3_RT_CHANGE_CIPHER_SPEC \<equiv> (20 :: byte)"
abbreviation (input) "SSL3_RT_ALERT \<equiv> (21 :: byte)"
abbreviation (input) "SSL3_RT_HANDSHAKE \<equiv> (22 :: byte)"
abbreviation (input) "SSL3_RT_APPLICATION_DATA \<equiv> (23 :: byte)"
abbreviation (input) "SSL3_MT_CCS \<equiv> (1 :: byte)"
abbreviation (input) "SSL3_AL_WARNING \<equiv> (1 :: byte)"
abbreviation (input) "SSL3_AL_FATAL \<equiv> (2 :: byte)"
abbreviation (input) "SSL_AD_CLOSE_NOTIFY \<equiv> (0 :: byte)"
abbreviation (input) "SSL_AD_UNEXPECTED_MESSAGE \<equiv> (10 :: byte)"
abbreviation (input) "SSL_AD_BAD_RECORD_MAC \<equiv> (20 :: byte)"
abbreviation (input) "SSL_AD_RECORD_OVERFLOW \<equiv> (22 :: byte)"
abbreviation (input) "SSL_AD_ILLEGAL_PARAMETER \<equiv> (47 :: byte)"
abbreviation (input) "SSL_AD_DECRYPT_ERROR \<equiv> (51 :: byte)"
abbreviation (input) "SSL_AD_INTERNAL_ERROR \<equiv> (80 :: byte)"
abbreviation (input) "SSL_AD_USER_CANCELLED \<equiv> (90 :: byte)"
abbreviation (input) "SSL_MODE_CBC_RECORD_SPLITTING \<equiv> (0x100 :: uint32)"
abbreviation (input) "SSL_VERIFY_PEER \<equiv> (1 :: byte)"
abbreviation (input) "SSL3_VERSION_MAJOR \<equiv> (3 :: uint16)"
abbreviation (input) "SSL3_RT_MAX_PLAIN_LENGTH \<equiv> (16384 :: nat)"

definition kMaxEmptyRecords :: byte where
  "kMaxEmptyRecords = 32"

definition kMaxEarlyDataSkipped :: nat where
  "kMaxEarlyDataSkipped = 16384"

definition kMaxWarningAlerts :: byte where
  "kMaxWarningAlerts = 4"

subsection \<open>State\<close>

datatype ssl_shutdown_t = ssl_shutdown_none | ssl_shutdown_close_notify | ssl_shutdown_error

record 'c ssl_rec = SSL +
  ssl_mode :: uint32
  max_cert_list :: uint32
  aead_read_ctx :: "'c SSLAEADContext"
  aead_write_ctx :: "'c SSLAEADContext"
  read_sequence :: uint64
  write_sequence :: uint64
  read_shutdown :: ssl_shutdown_t
  early_data_skipped :: uint16
  empty_record_count :: byte
  warning_alert_count :: byte
  skip_early :: bool
  hs_buf :: "byte list option"
  has_message :: bool
  is_v2_hello :: bool

text \<open>The result of opening a record, with \<open>*out_type\<close> and \<open>*out\<close>, or \<open>*out_alert\<close>, where the code sets them.\<close>

datatype open_record =
    Record_success byte "byte list" | Record_discard | Record_partial | Record_close_notify | Record_error byte

definition ret_of :: "open_record \<Rightarrow> ssl_open_record_t" where
  "ret_of r =
     (case r of
        Record_success _ _ \<Rightarrow> ssl_open_record_success
      | Record_discard \<Rightarrow> ssl_open_record_discard
      | Record_partial \<Rightarrow> ssl_open_record_partial
      | Record_close_notify \<Rightarrow> ssl_open_record_close_notify
      | Record_error _ \<Rightarrow> ssl_open_record_error)"

subsection \<open>The handshake buffer\<close>

definition SSL_in_init :: "'z SSL_scheme \<Rightarrow> bool" where
  "SSL_in_init s = (case s3_hs s of None \<Rightarrow> False | Some hs \<Rightarrow> \<not> handshake_finalized hs)"

record SSLMessage =
  msg_type :: byte
  msg_body :: "byte list"
  msg_raw :: "byte list"
  msg_is_v2_hello :: bool

text \<open>The message, or \<open>*out_bytes_needed\<close>.\<close>

definition parse_message :: "('c, 'z) ssl_rec_scheme \<Rightarrow> nat + SSLMessage" where
  "parse_message s =
     (case hs_buf s of
        None \<Rightarrow> Inl 4
      | Some contents \<Rightarrow>
          (case op_bind CBS_get_u8 (\<lambda>type. op_bind CBS_get_u24 (\<lambda>msg_len. op_ret (type, msg_len))) contents of
             (None, _) \<Rightarrow> Inl 4
           | (Some (type, msg_len), cbs) \<Rightarrow>
               (case CBS_get_bytes (unat msg_len) cbs of
                  (None, _) \<Rightarrow> Inl (unat (4 + msg_len))
                | (Some body, _) \<Rightarrow>
                    Inr \<lparr>msg_type = type, msg_body = body, msg_raw = take (unat (4 + msg_len)) contents,
                         msg_is_v2_hello = is_v2_hello s\<rparr>)))"

text \<open>During the handshake \<open>config\<close> is not null.\<close>

definition ssl_max_handshake_message_len :: "('c, 'z) ssl_rec_scheme \<Rightarrow> nat" where
  "ssl_max_handshake_message_len s =
     (let kMaxMessageLen = 16384;
          verify_peer = (case ssl_config s of None \<Rightarrow> False | Some config \<Rightarrow> conf_verify_mode config AND SSL_VERIFY_PEER \<noteq> 0) in
      if SSL_in_init s then
        if (\<not> ssl_server s \<or> verify_peer) \<and> kMaxMessageLen < unat (max_cert_list s) then unat (max_cert_list s)
        else kMaxMessageLen
      else if ssl_protocol_version s < TLS1_3_VERSION then 0
      else if ssl_server s then 1
      else kMaxMessageLen)"

text \<open>\<open>None\<close> when a record may be opened, and otherwise the alert.\<close>

definition tls_can_accept_handshake_data :: "('c, 'z) ssl_rec_scheme \<Rightarrow> byte option" where
  "tls_can_accept_handshake_data s =
     (case parse_message s of
        Inr _ \<Rightarrow> Some SSL_AD_INTERNAL_ERROR
      | Inl bytes_needed \<Rightarrow>
          if bytes_needed > 4 + ssl_max_handshake_message_len s then Some SSL_AD_ILLEGAL_PARAMETER else None)"

definition tls_has_unprocessed_handshake_data :: "('c, 'z) ssl_rec_scheme \<Rightarrow> bool" where
  "tls_has_unprocessed_handshake_data s =
     (let msg_len = (if has_message s then (case parse_message s of Inr msg \<Rightarrow> length (msg_raw msg) | Inl _ \<Rightarrow> 0) else 0)
      in case hs_buf s of None \<Rightarrow> False | Some contents \<Rightarrow> length contents > msg_len)"

subsection \<open>Opening\<close>

definition ssl_needs_record_splitting :: "('c, 'z) ssl_rec_scheme \<Rightarrow> bool" where
  "ssl_needs_record_splitting s \<longleftrightarrow>
     (case sc_cipher (aead_write_ctx s) of
        None \<Rightarrow> False
      | Some (cipher, _) \<Rightarrow>
          ssl_protocol_version s < TLS1_1_VERSION \<and> ssl_mode s AND SSL_MODE_CBC_RECORD_SPLITTING \<noteq> 0 \<and>
          SSL_CIPHER_is_block_cipher cipher)"

definition ssl_record_prefix_len :: "('c, 'z) ssl_rec_scheme \<Rightarrow> nat" where
  "ssl_record_prefix_len s = SSL3_RT_HEADER_LENGTH + ExplicitNonceLen (aead_read_ctx s)"

text \<open>\<open>early_data_skipped\<close> is a \<open>uint16_t\<close>; the comparisons are on \<open>size_t\<close>.\<close>

definition skip_early_data :: "nat \<Rightarrow> ('c, 'z) ssl_rec_scheme \<Rightarrow> open_record \<times> ('c, 'z) ssl_rec_scheme" where
  "skip_early_data consumed s =
     (let sum = early_data_skipped s + of_nat consumed;
          skipped = (if unat sum < consumed then of_nat (kMaxEarlyDataSkipped + 1) else sum);
          s1 = s\<lparr>early_data_skipped := skipped\<rparr> in
      if unat skipped > kMaxEarlyDataSkipped then (Record_error SSL_AD_UNEXPECTED_MESSAGE, s1) else (Record_discard, s1))"

definition tls_record_version :: "'z SSL_scheme \<Rightarrow> uint16" where
  "tls_record_version s =
     (if s3_version s = 0 then TLS1_VERSION
      else if ssl_protocol_version s \<ge> TLS1_3_VERSION then TLS1_2_VERSION else s3_version s)"

definition ssl_process_alert :: "byte list \<Rightarrow> ('c, 'z) ssl_rec_scheme \<Rightarrow> open_record \<times> ('c, 'z) ssl_rec_scheme" where
  "ssl_process_alert inp s =
     (case inp of
        [alert_level, alert_descr] \<Rightarrow>
          if alert_level = SSL3_AL_WARNING then
            if alert_descr = SSL_AD_CLOSE_NOTIFY then (Record_close_notify, s\<lparr>read_shutdown := ssl_shutdown_close_notify\<rparr>)
            else if ssl_has_final_version s \<and> ssl_protocol_version s \<ge> TLS1_3_VERSION \<and> alert_descr \<noteq> SSL_AD_USER_CANCELLED
            then (Record_error SSL_AD_DECODE_ERROR, s)
            else let s1 = s\<lparr>warning_alert_count := warning_alert_count s + 1\<rparr> in
              if warning_alert_count s1 > kMaxWarningAlerts then (Record_error SSL_AD_UNEXPECTED_MESSAGE, s1)
              else (Record_discard, s1)
          else if alert_level = SSL3_AL_FATAL then (Record_error 0, s)
          else (Record_error SSL_AD_ILLEGAL_PARAMETER, s)
      | _ \<Rightarrow> (Record_error SSL_AD_DECODE_ERROR, s))"

text \<open>The loop over the padding of a TLS 1.3 record, from the end: the inner type and the contents.\<close>

function strip_padding :: "byte list \<Rightarrow> (byte \<times> byte list) option" where
  "strip_padding out =
     (if out = [] then None
      else let type = last out; out1 = butlast out in if type = 0 then strip_padding out1 else Some (type, out1))"
  by pat_completeness auto
termination by (relation "measure length") auto

declare strip_padding.simps [simp del]

text \<open>The part of \<open>tls_open_record\<close> after decryption: the checks of the plaintext \<open>out\<close> of a record of the outer type \<open>type\<close>.\<close>

definition tls_opened :: "byte \<Rightarrow> byte list \<Rightarrow> ('c, 'z) ssl_rec_scheme \<Rightarrow> open_record \<times> ('c, 'z) ssl_rec_scheme" where
  "tls_opened type0 out0 s0 =
     (let s = s0\<lparr>skip_early := False, read_sequence := read_sequence s0 + 1\<rparr>;
          has_padding = (\<not> is_null_cipher (aead_read_ctx s) \<and> ssl_protocol_version s \<ge> TLS1_3_VERSION);
          plaintext_limit = (if has_padding then SSL3_RT_MAX_PLAIN_LENGTH + 1 else SSL3_RT_MAX_PLAIN_LENGTH) in
      if length out0 > plaintext_limit then (Record_error SSL_AD_RECORD_OVERFLOW, s)
      else if has_padding \<and> type0 \<noteq> SSL3_RT_APPLICATION_DATA then (Record_error SSL_AD_DECODE_ERROR, s)
      else case (if has_padding then strip_padding out0 else Some (type0, out0)) of
        None \<Rightarrow> (Record_error SSL_AD_DECRYPT_ERROR, s)
      | Some (type, out) \<Rightarrow>
          let s1 = s\<lparr>empty_record_count := (if out = [] then empty_record_count s + 1 else 0)\<rparr> in
          if out = [] \<and> empty_record_count s1 > kMaxEmptyRecords then (Record_error SSL_AD_UNEXPECTED_MESSAGE, s1)
          else if type = SSL3_RT_ALERT then ssl_process_alert out s1
          else if type \<noteq> SSL3_RT_HANDSHAKE \<and> tls_has_unprocessed_handshake_data s1
          then (Record_error SSL_AD_UNEXPECTED_MESSAGE, s1)
          else (Record_success type out, s1\<lparr>warning_alert_count := 0\<rparr>))"

definition get_record_header :: "(cbs, byte \<times> uint16 \<times> uint16) op" where
  "get_record_header =
     op_bind CBS_get_u8 (\<lambda>type. op_bind CBS_get_u16 (\<lambda>version. op_bind CBS_get_u16 (\<lambda>ciphertext_len.
       op_ret (type, version, ciphertext_len))))"

text \<open>The result, \<open>*out_consumed\<close> and the state.\<close>

definition tls_open_record :: "byte list \<Rightarrow> ('c, 'z) ssl_rec_scheme \<Rightarrow> open_record \<times> nat \<times> ('c, 'z) ssl_rec_scheme" where
  "tls_open_record inp s =
     (if read_shutdown s = ssl_shutdown_close_notify then (Record_close_notify, 0, s)
      else case tls_can_accept_handshake_data s of
        Some alert \<Rightarrow> (Record_error alert, 0, s)
      | None \<Rightarrow>
     (case get_record_header inp of
        (None, _) \<Rightarrow> (Record_partial, SSL3_RT_HEADER_LENGTH, s)
      | (Some (type, version, ciphertext_len), cbs) \<Rightarrow>
          let version_ok = (if is_null_cipher (aead_read_ctx s) then drop_bit 8 version = SSL3_VERSION_MAJOR
                            else version = tls_record_version s) in
          if \<not> version_ok then (Record_error SSL_AD_PROTOCOL_VERSION, 0, s)
          else if unat ciphertext_len > SSL3_RT_MAX_ENCRYPTED_LENGTH then (Record_error SSL_AD_RECORD_OVERFLOW, 0, s)
          else (case CBS_get_bytes (unat ciphertext_len) cbs of
            (None, _) \<Rightarrow> (Record_partial, SSL3_RT_HEADER_LENGTH + unat ciphertext_len, s)
          | (Some body, rest) \<Rightarrow>
              let header = take SSL3_RT_HEADER_LENGTH inp; consumed = length inp - length rest in
              if ssl_has_final_version s \<and> ssl_protocol_version s \<ge> TLS1_3_VERSION \<and> SSL_in_init s \<and>
                 type = SSL3_RT_CHANGE_CIPHER_SPEC \<and> body = [SSL3_MT_CCS]
              then let s1 = s\<lparr>empty_record_count := empty_record_count s + 1\<rparr> in
                if empty_record_count s1 > kMaxEmptyRecords then (Record_error SSL_AD_UNEXPECTED_MESSAGE, consumed, s1)
                else (Record_discard, consumed, s1)
              else if skip_early s \<and> is_null_cipher (aead_read_ctx s) \<and> type = SSL3_RT_APPLICATION_DATA
              then (case skip_early_data consumed s of (r, s1) \<Rightarrow> (r, consumed, s1))
              else if read_sequence s + 1 = 0 then (Record_error SSL_AD_INTERNAL_ERROR, consumed, s)
              else (case Open (aead_read_ctx s) type version (read_sequence s) header body of
                (None, sc) \<Rightarrow>
                  let s1 = s\<lparr>aead_read_ctx := sc\<rparr> in
                  if skip_early s1 \<and> \<not> is_null_cipher (aead_read_ctx s1)
                  then (case skip_early_data consumed s1 of (r, s2) \<Rightarrow> (r, consumed, s2))
                  else (Record_error SSL_AD_BAD_RECORD_MAC, consumed, s1)
              | (Some out, sc) \<Rightarrow>
                  (case tls_opened type out (s\<lparr>aead_read_ctx := sc\<rparr>) of (r, s1) \<Rightarrow> (r, consumed, s1))))))"

subsection \<open>Sealing\<close>

definition record_extra_in :: "byte \<Rightarrow> ('c, 'z) ssl_rec_scheme \<Rightarrow> byte list" where
  "record_extra_in type s =
     (if \<not> is_null_cipher (aead_write_ctx s) \<and> ssl_protocol_version s \<ge> TLS1_3_VERSION then [type] else [])"

text \<open>What is written to \<open>out_prefix\<close> (the header and the explicit nonce), \<open>out\<close> and \<open>out_suffix\<close>.\<close>

definition do_seal_record ::
  "'w rand \<Rightarrow> nat \<Rightarrow> nat \<Rightarrow> nat \<Rightarrow> byte \<Rightarrow> nat \<Rightarrow> byte list \<Rightarrow> ('c, 'z) ssl_rec_scheme \<Rightarrow> 'w
   \<Rightarrow> (byte list \<times> byte list \<times> byte list) option \<times> ('c, 'z) ssl_rec_scheme \<times> 'w" where
  "do_seal_record RAND_bytes prefix_at out_at suffix_at type in_at inp s w =
     (let aead = aead_write_ctx s; extra_in = record_extra_in type s in
      case (SuffixLen aead (length inp) (length extra_in), CiphertextLen aead (length inp) (length extra_in)) of
        (Some _, Some ciphertext_len) \<Rightarrow>
          let outer_type = (if extra_in \<noteq> [] then SSL3_RT_APPLICATION_DATA else type);
              record_version = tls_record_version s;
              header = [outer_type] @ be_bytes 2 (unat record_version) @ be_bytes 2 ciphertext_len in
          if write_sequence s + 1 = 0 then (None, s, w)
          else (case SealScatter RAND_bytes aead (prefix_at + SSL3_RT_HEADER_LENGTH) out_at suffix_at outer_type record_version
                       (write_sequence s) header in_at inp extra_in w of
                  (None, sc, w1) \<Rightarrow> (None, s\<lparr>aead_write_ctx := sc\<rparr>, w1)
                | (Some (nonce, out, suffix), sc, w1) \<Rightarrow>
                    (Some (header @ nonce, out, suffix), s\<lparr>aead_write_ctx := sc, write_sequence := write_sequence s + 1\<rparr>, w1))
      | _ \<Rightarrow> (None, s, w))"

definition splits :: "('c, 'z) ssl_rec_scheme \<Rightarrow> byte \<Rightarrow> nat \<Rightarrow> bool" where
  "splits s type in_len \<longleftrightarrow> type = SSL3_RT_APPLICATION_DATA \<and> in_len > 1 \<and> ssl_needs_record_splitting s"

definition write_cipher_split_len :: "('c, 'z) ssl_rec_scheme \<Rightarrow> nat" where
  "write_cipher_split_len s =
     (case sc_cipher (aead_write_ctx s) of None \<Rightarrow> 0 | Some (cipher, _) \<Rightarrow> ssl_cipher_get_record_split_len cipher)"

definition tls_seal_scatter_prefix_len :: "('c, 'z) ssl_rec_scheme \<Rightarrow> byte \<Rightarrow> nat \<Rightarrow> nat" where
  "tls_seal_scatter_prefix_len s type in_len =
     (if splits s type in_len then SSL3_RT_HEADER_LENGTH + write_cipher_split_len s + (SSL3_RT_HEADER_LENGTH - 1)
      else SSL3_RT_HEADER_LENGTH + ExplicitNonceLen (aead_write_ctx s))"

definition tls_seal_scatter_suffix_len :: "('c, 'z) ssl_rec_scheme \<Rightarrow> byte \<Rightarrow> nat \<Rightarrow> nat option" where
  "tls_seal_scatter_suffix_len s type in_len =
     SuffixLen (aead_write_ctx s) (if splits s type in_len then in_len - 1 else in_len) (length (record_extra_in type s))"

text \<open>
  Memory, for the output: its contents by address. \<open>write_mem a bs mem\<close> is the memory after the bytes \<open>bs\<close> were copied to the address \<open>a\<close>.
\<close>

type_synonym store = "nat \<Rightarrow> byte"

definition write_mem :: "nat \<Rightarrow> byte list \<Rightarrow> store \<Rightarrow> store" where
  "write_mem a bs mem = (\<lambda>i. if a \<le> i \<and> i < a + length bs then bs ! (i - a) else mem i)"

definition bytes_at :: "store \<Rightarrow> nat \<Rightarrow> nat \<Rightarrow> byte list" where
  "bytes_at mem a n = map mem [a..<a + n]"

text \<open>What \<open>do_seal_record\<close> writes to its three pointers.\<close>

definition store_record :: "nat \<Rightarrow> nat \<Rightarrow> nat \<Rightarrow> byte list \<times> byte list \<times> byte list \<Rightarrow> store \<Rightarrow> store" where
  "store_record prefix_at out_at suffix_at = (\<lambda>(prefix, out, suffix) mem.
     write_mem suffix_at suffix (write_mem out_at out (write_mem prefix_at prefix mem)))"

text \<open>
  Splitting, the record of the first byte and four bytes of the next header go to \<open>out_prefix\<close> and the last byte
  of that header goes to \<open>out\<close>. \<open>tmp_prefix_at\<close> is the address of the local \<open>tmp_prefix\<close>, which is kept apart from the memory \<open>mem\<close>.
  The result is the memory, where the call succeeds.
\<close>

definition tls_seal_scatter_record ::
  "'w rand \<Rightarrow> nat \<Rightarrow> store \<Rightarrow> nat \<Rightarrow> nat \<Rightarrow> nat \<Rightarrow> byte \<Rightarrow> nat \<Rightarrow> byte list \<Rightarrow> ('c, 'z) ssl_rec_scheme \<Rightarrow> 'w
   \<Rightarrow> store option \<times> ('c, 'z) ssl_rec_scheme \<times> 'w" where
  "tls_seal_scatter_record RAND_bytes tmp_prefix_at mem prefix_at out_at suffix_at type in_at inp s w =
     (if splits s type (length inp) then
        let split_body_at = prefix_at + SSL3_RT_HEADER_LENGTH; split_suffix_at = split_body_at + 1 in
        (case do_seal_record RAND_bytes prefix_at split_body_at split_suffix_at type in_at (take 1 inp) s w of
           (None, s1, w1) \<Rightarrow> (None, s1, w1)
         | (Some split_record, s1, w1) \<Rightarrow>
             let mem1 = store_record prefix_at split_body_at split_suffix_at split_record mem in
             (case SuffixLen (aead_write_ctx s1) 1 0 of
                None \<Rightarrow> (None, s1, w1)
              | Some split_record_suffix_len \<Rightarrow>
                  let split_record_len = SSL3_RT_HEADER_LENGTH + 1 + split_record_suffix_len in
                  (case do_seal_record RAND_bytes tmp_prefix_at (out_at + 1) suffix_at type (in_at + 1) (drop 1 inp) s1 w1 of
                     (None, s2, w2) \<Rightarrow> (None, s2, w2)
                   | (Some (tmp_prefix, out, suffix), s2, w2) \<Rightarrow>
                       let mem2 = write_mem suffix_at suffix (write_mem (out_at + 1) out mem1);
                           mem3 = write_mem (prefix_at + split_record_len) (take (SSL3_RT_HEADER_LENGTH - 1) tmp_prefix) mem2;
                           mem4 = write_mem out_at (take 1 (drop (SSL3_RT_HEADER_LENGTH - 1) tmp_prefix)) mem3 in
                       (Some mem4, s2, w2))))
      else (case do_seal_record RAND_bytes prefix_at out_at suffix_at type in_at inp s w of
              (None, s1, w1) \<Rightarrow> (None, s1, w1)
            | (Some sealed, s1, w1) \<Rightarrow> (Some (store_record prefix_at out_at suffix_at sealed mem), s1, w1)))"

text \<open>\<open>*out_len\<close> and the memory, where the call succeeds; \<open>mem\<close> is the memory before.\<close>

definition tls_seal_record ::
  "'w rand \<Rightarrow> nat \<Rightarrow> store \<Rightarrow> nat \<Rightarrow> nat \<Rightarrow> byte \<Rightarrow> nat \<Rightarrow> byte list \<Rightarrow> ('c, 'z) ssl_rec_scheme \<Rightarrow> 'w
   \<Rightarrow> (nat \<times> store) option \<times> ('c, 'z) ssl_rec_scheme \<times> 'w" where
  "tls_seal_record RAND_bytes tmp_prefix_at mem out_at max_out_len type in_at inp s w =
     (let in_len = length inp in
      if buffers_alias in_at in_len out_at max_out_len then (None, s, w)
      else let prefix_len = tls_seal_scatter_prefix_len s type in_len in
      (case tls_seal_scatter_suffix_len s type in_len of
         None \<Rightarrow> (None, s, w)
       | Some suffix_len \<Rightarrow>
           let with_prefix = (in_len + prefix_len) mod 2 ^ 64; all_len = (with_prefix + suffix_len) mod 2 ^ 64 in
           if with_prefix < in_len \<or> all_len < with_prefix then (None, s, w)
           else if max_out_len < all_len then (None, s, w)
           else (case tls_seal_scatter_record RAND_bytes tmp_prefix_at mem out_at (out_at + prefix_len) (out_at + prefix_len + in_len)
                        type in_at inp s w of
                   (None, s1, w1) \<Rightarrow> (None, s1, w1)
                 | (Some mem1, s1, w1) \<Rightarrow> (Some (all_len, mem1), s1, w1))))"

definition SSL_max_seal_overhead :: "('c, 'z) ssl_rec_scheme \<Rightarrow> nat" where
  "SSL_max_seal_overhead s =
     (let ret = SSL3_RT_HEADER_LENGTH + MaxOverhead (aead_write_ctx s) +
        (if \<not> is_null_cipher (aead_write_ctx s) \<and> ssl_protocol_version s \<ge> TLS1_3_VERSION then 1 else 0)
      in if ssl_needs_record_splitting s then ret * 2 else ret)"

end
