(* ===== verification/Ssl_Aead_Props.thy ===== *)
theory Ssl_Aead_Props
  imports Ssl_Aead
begin

text \<open>
  What the record layer relies on in an algorithm of \<open>EVP_AEAD\<close>, as the interface \<open>aead_pair\<close>, and what the
  contexts of \<open>ssl/ssl_aead_ctx.cc\<close> make of it: the receiver's context opens what the sender's context sealed, when the
  two were created alike and are asked for the same record, and the lengths announced in advance are those produced.
\<close>

subsection \<open>The interface\<close>

text \<open>
  \<open>paired w r\<close>: \<open>w\<close> was initialised for sealing and \<open>r\<close> for opening, with the same key, and they have processed the
  same messages. An algorithm opens what it sealed, in the length it announces, which exceeds the plaintext by
  at most its overhead. The messages are those of records, of less than \<open>2 ^ 16\<close> bytes.
\<close>

locale aead_pair =
  fixes paired :: "'c EVP_AEAD_CTX \<Rightarrow> 'c EVP_AEAD_CTX \<Rightarrow> bool"
  assumes seal_open:
      "\<lbrakk>paired w r; length inp + length extra < 2 ^ 16; EVP_AEAD_CTX_tag_len w (length inp) (length extra) = Some n;
        EVP_AEAD_CTX_seal_scatter w out_at tag_at n in_at nonce inp extra ad = ((True, out, tag), w')\<rbrakk>
       \<Longrightarrow> \<exists>r'. EVP_AEAD_CTX_open r 0 (length out + length tag) 0 nonce (out @ tag) ad = ((True, inp @ extra), r') \<and> paired w' r'"
    and seal_length:
      "\<lbrakk>paired w r; length inp + length extra < 2 ^ 16; EVP_AEAD_CTX_tag_len w (length inp) (length extra) = Some n;
        EVP_AEAD_CTX_seal_scatter w out_at tag_at n in_at nonce inp extra ad = ((True, out, tag), w')\<rbrakk>
       \<Longrightarrow> length out = length inp \<and> length tag = n"
    and tag_bound: "\<lbrakk>paired w r; EVP_AEAD_CTX_tag_len w i e = Some n\<rbrakk> \<Longrightarrow> n \<le> EVP_AEAD_max_overhead (ctx_aead w) + e"
    and same_overhead: "paired w r \<Longrightarrow> EVP_AEAD_max_overhead (ctx_aead r) = EVP_AEAD_max_overhead (ctx_aead w)"

text \<open>An algorithm that announces the same overhead for every message.\<close>

definition fixed_overhead :: "'c EVP_AEAD_CTX \<Rightarrow> bool" where
  "fixed_overhead w \<longleftrightarrow> ae_tag_len (ctx_aead w) = None \<and> ctx_tag_len w = ae_overhead (ctx_aead w) \<and> ae_overhead (ctx_aead w) < 256"

lemma fixed_overhead_tag:
  assumes "fixed_overhead w" and "EVP_AEAD_CTX_tag_len w i e = Some n"
  shows "n = EVP_AEAD_max_overhead (ctx_aead w) + e"
proof -
  define t where "t = ae_overhead (ctx_aead w)"
  have n: "n = (e + t) mod 2 ^ 64" "e \<le> n" and t: "t < 256"
    using assms by (auto simp: fixed_overhead_def EVP_AEAD_CTX_tag_len_def t_def split: if_splits)
  have "e < 2 ^ 64" using n by (metis le_less_trans mod_less_divisor zero_less_numeral zero_less_power)
  moreover have "\<not> 2 ^ 64 \<le> e + t"
  proof
    assume "2 ^ 64 \<le> e + t"
    then have "n = e + t - 2 ^ 64" using n t \<open>e < 2 ^ 64\<close> by (simp add: le_mod_geq)
    then show False using n(2) t \<open>2 ^ 64 \<le> e + t\<close> by simp
  qed
  ultimately show ?thesis using n by (simp add: EVP_AEAD_max_overhead_def t_def)
qed

lemma seal_scatter_keeps:
  assumes "EVP_AEAD_CTX_seal_scatter w oa ta n ia nonce inp extra ad = (r, w')"
  shows "ctx_aead w' = ctx_aead w \<and> ctx_tag_len w' = ctx_tag_len w"
  using assms by (auto simp: EVP_AEAD_CTX_seal_scatter_def Let_def split: if_splits prod.splits option.splits)

subsection \<open>Contexts of the two ends\<close>

text \<open>What \<open>Create\<close> leaves in the nonce fields.\<close>

definition nonce_ok :: "'c SSLAEADContext \<Rightarrow> bool" where
  "nonce_ok sc \<longleftrightarrow>
     (if random_variable_nonce sc then variable_nonce_included_in_record sc else variable_nonce_len sc = 8) \<and>
     (if xor_fixed_nonce sc then variable_nonce_len sc \<le> length (fixed_nonce sc) \<and> \<not> variable_nonce_included_in_record sc else True)"

text \<open>\<open>a\<close> seals and \<open>b\<close> opens. The overhead is fixed unless the length is left out of the additional data.\<close>

definition sc_paired ::
  "('c EVP_AEAD_CTX \<Rightarrow> 'c EVP_AEAD_CTX \<Rightarrow> bool) \<Rightarrow> 'c SSLAEADContext \<Rightarrow> 'c SSLAEADContext \<Rightarrow> bool" where
  "sc_paired paired a b \<longleftrightarrow>
     b\<lparr>sc_cipher := sc_cipher a\<rparr> = a \<and>
     (case (sc_cipher a, sc_cipher b) of
        (None, None) \<Rightarrow> \<not> variable_nonce_included_in_record a
      | (Some (c, w), Some (d, r)) \<Rightarrow>
          c = d \<and> paired w r \<and> nonce_ok a \<and> (\<not> omit_length_in_ad a \<longrightarrow> fixed_overhead w)
      | _ \<Rightarrow> False)"

lemma sc_paired_same:
  assumes "sc_paired paired a b"
  shows "b = a\<lparr>sc_cipher := sc_cipher b\<rparr>"
proof -
  have "b = b\<lparr>sc_cipher := sc_cipher a\<rparr>\<lparr>sc_cipher := sc_cipher b\<rparr>" by simp
  also have "b\<lparr>sc_cipher := sc_cipher a\<rparr> = a" using assms by (simp add: sc_paired_def)
  finally show ?thesis .
qed

lemma sc_paired_null:
  assumes "sc_paired paired a b" and "sc_cipher a = None"
  shows "b = a \<and> \<not> variable_nonce_included_in_record a"
proof -
  have "sc_cipher b = None \<and> \<not> variable_nonce_included_in_record a"
    using assms by (auto simp: sc_paired_def split: option.splits)
  then show ?thesis using sc_paired_same[OF assms(1)] assms(2) by (metis SSLAEADContext.surjective SSLAEADContext.update_convs(1))
qed

lemma sc_paired_cipher:
  assumes "sc_paired paired a b" and "sc_cipher a = Some (c, w)"
  obtains r where "b = a\<lparr>sc_cipher := Some (c, r)\<rparr>" and "paired w r" and "nonce_ok a"
    and "\<not> omit_length_in_ad a \<longrightarrow> fixed_overhead w"
proof -
  obtain r where "sc_cipher b = Some (c, r)" "paired w r" "nonce_ok a"
    "\<not> omit_length_in_ad a \<longrightarrow> fixed_overhead w"
    using assms by (auto simp: sc_paired_def split: option.splits)
  then show thesis using sc_paired_same[OF assms(1)] by (intro that) simp_all
qed

lemma sc_paired_cipherI:
  assumes "sc_cipher a = Some (c, w)" and "paired w r" and "nonce_ok a"
    and "\<not> omit_length_in_ad a \<longrightarrow> fixed_overhead w"
  shows "sc_paired paired a (a\<lparr>sc_cipher := Some (c, r)\<rparr>)"
  using assms by (simp add: sc_paired_def)

definition rand_ok :: "'w rand \<Rightarrow> bool" where
  "rand_ok RAND_bytes \<longleftrightarrow> (\<forall>n w bs w'. RAND_bytes n w = (Some bs, w') \<longrightarrow> length bs = n)"

lemma assemble_nonce_state [simp]: "assemble_nonce (sc\<lparr>sc_cipher := c\<rparr>) v = assemble_nonce sc v"
  by (simp add: assemble_nonce_def)

lemma GetAdditionalData_state [simp]: "GetAdditionalData (sc\<lparr>sc_cipher := c\<rparr>) t v q n h = GetAdditionalData sc t v q n h"
  by (simp add: GetAdditionalData_def)

lemma ExplicitNonceLen_state [simp]: "ExplicitNonceLen (sc\<lparr>sc_cipher := c\<rparr>) = ExplicitNonceLen sc"
  by (simp add: ExplicitNonceLen_def)

lemma nonce_ok_state [simp]: "nonce_ok (sc\<lparr>sc_cipher := c\<rparr>) = nonce_ok sc"
  by (simp add: nonce_ok_def)

text \<open>The additional data of the two ends agree: the opener recovers the length of the plaintext from the overhead.\<close>

lemma additional_data_agrees:
  assumes "ad_is_header sc \<or> omit_length_in_ad sc \<or> n = m"
  shows "GetAdditionalData sc t v q n h = GetAdditionalData sc t v q m h"
  using assms by (auto simp: GetAdditionalData_def)

text \<open>Inversion of a successful call of \<open>SealScatter\<close> with a cipher.\<close>

lemma SealScatter_cipher:
  assumes "SealScatter rand a prefix_at out_at suffix_at type v q header in_at inp extra w0 = (Some (prefix, out, suffix), a', w1)"
    and "sc_cipher a = Some (c, w)"
  obtains n variable w' where "EVP_AEAD_CTX_tag_len w (length inp) (length extra) = Some n"
    and "(if random_variable_nonce a then rand (variable_nonce_len a) w0 else (Some (be_bytes 8 (unat q)), w0)) = (Some variable, w1)"
    and "EVP_AEAD_CTX_seal_scatter w out_at suffix_at n in_at (assemble_nonce a variable) inp extra
          (GetAdditionalData a type v q (length inp) header) = ((True, out, suffix), w')"
    and "prefix = (if variable_nonce_included_in_record a then variable else [])"
    and "a' = a\<lparr>sc_cipher := Some (c, w')\<rparr>"
proof -
  obtain n where n: "EVP_AEAD_CTX_tag_len w (length inp) (length extra) = Some n"
    using assms by (cases "EVP_AEAD_CTX_tag_len w (length inp) (length extra)") (auto simp: SealScatter_def SuffixLen_def)
  define draw where "draw = (if random_variable_nonce a then rand (variable_nonce_len a) w0 else (Some (be_bytes 8 (unat q)), w0))"
  define alias1 where "alias1 \<longleftrightarrow> (in_at \<noteq> out_at \<and> buffers_alias in_at (length inp) out_at (length inp)) \<or>
    buffers_alias in_at (length inp) prefix_at (ExplicitNonceLen a) \<or> buffers_alias in_at (length inp) suffix_at n"
  define alias2 where "alias2 \<longleftrightarrow> variable_nonce_included_in_record a \<and> buffers_alias in_at (length inp) prefix_at (variable_nonce_len a)"
  have run: "SealScatter rand a prefix_at out_at suffix_at type v q header in_at inp extra w0 =
      (if alias1 then (None, a, w0) else
       case draw of (None, w1) \<Rightarrow> (None, a, w1)
       | (Some variable, w1) \<Rightarrow> if alias2 then (None, a, w1) else
          (case EVP_AEAD_CTX_seal_scatter w out_at suffix_at n in_at (assemble_nonce a variable) inp extra
                  (GetAdditionalData a type v q (length inp) header) of
             ((True, out, suffix), ctx1) \<Rightarrow>
               (Some (if variable_nonce_included_in_record a then variable else [], out, suffix), a\<lparr>sc_cipher := Some (c, ctx1)\<rparr>, w1)
           | ((False, _), ctx1) \<Rightarrow> (None, a\<lparr>sc_cipher := Some (c, ctx1)\<rparr>, w1)))"
    unfolding SealScatter_def SuffixLen_def Let_def draw_def alias1_def alias2_def assms(2)
    by (simp only: option.case prod.case n)
  show thesis
    using assms(1) unfolding run
    by (cases draw) (auto split: if_splits option.splits prod.splits bool.splits intro!: that[OF n] simp: draw_def)
qed

lemma SealScatter_null:
  assumes "sc_cipher a = None"
    and "SealScatter rand a prefix_at out_at suffix_at type v q header in_at inp extra w0 = (Some (prefix, out, suffix), a', w1)"
  shows "prefix = [] \<and> out = inp \<and> suffix = extra \<and> a' = a"
  using assms(2) unfolding SealScatter_def SuffixLen_def Let_def assms(1) option.case by (simp split: if_splits)

text \<open>Sealing changes nothing but the state of the algorithm.\<close>

lemma SealScatter_keeps:
  assumes "SealScatter rand a prefix_at out_at suffix_at type v q header in_at inp extra w0 = (Some (prefix, out, suffix), a', w1)"
  shows "a' = a\<lparr>sc_cipher := sc_cipher a'\<rparr> \<and> MaxOverhead a' = MaxOverhead a \<and>
    map_option fst (sc_cipher a') = map_option fst (sc_cipher a)"
proof (cases "sc_cipher a")
  case None
  then show ?thesis using SealScatter_null[OF None assms] by simp
next
  case (Some p)
  then obtain c w where c: "sc_cipher a = Some (c, w)" by (cases p) simp
  obtain n variable w' where "EVP_AEAD_CTX_tag_len w (length inp) (length extra) = Some n"
    and "(if random_variable_nonce a then rand (variable_nonce_len a) w0 else (Some (be_bytes 8 (unat q)), w0)) = (Some variable, w1)"
    and e: "EVP_AEAD_CTX_seal_scatter w out_at suffix_at n in_at (assemble_nonce a variable) inp extra
          (GetAdditionalData a type v q (length inp) header) = ((True, out, suffix), w')"
    and "prefix = (if variable_nonce_included_in_record a then variable else [])"
    and a': "a' = a\<lparr>sc_cipher := Some (c, w')\<rparr>"
    by (rule SealScatter_cipher[OF assms c])
  then show ?thesis using c seal_scatter_keeps[OF e] by (simp add: MaxOverhead_def)
qed

text \<open>Opening, once the lengths are known to be sufficient.\<close>

lemma Open_cipher:
  assumes c: "sc_cipher b = Some (c, r)" and len: "omit_length_in_ad b \<or> length (prefix @ body) \<ge> MaxOverhead b"
    and prefix: "length prefix = ExplicitNonceLen b" and nonce: "nonce_ok b"
    and ad: "ad = GetAdditionalData b type v q (if omit_length_in_ad b then 0 else length (prefix @ body) - MaxOverhead b) header"
    and variable: "variable = (if variable_nonce_included_in_record b then prefix else be_bytes 8 (unat q))"
    and opened: "EVP_AEAD_CTX_open r 0 (length body) 0 (assemble_nonce b variable) body ad = ((True, out), r')"
  shows "Open b type v q header (prefix @ body) = (Some out, b\<lparr>sc_cipher := Some (c, r')\<rparr>)"
proof (cases "variable_nonce_included_in_record b")
  case True
  then have "length prefix = variable_nonce_len b" using prefix by (simp add: ExplicitNonceLen_def)
  then show ?thesis using c len opened True unfolding Open_def Let_def ad variable by auto
next
  case False
  then have "prefix = []" using prefix by (simp add: ExplicitNonceLen_def)
  then show ?thesis using c len opened False unfolding Open_def Let_def ad variable by auto
qed

context aead_pair
begin

lemma seal_scatter_length:
  assumes "sc_paired paired a b" and "rand_ok rand" and "length inp + length extra < 2 ^ 16"
    and "SealScatter rand a prefix_at out_at suffix_at type v q header in_at inp extra w0 = (Some (prefix, out, suffix), a', w1)"
  shows "length prefix = ExplicitNonceLen a \<and> length out = length inp \<and>
    SuffixLen a (length inp) (length extra) = Some (length suffix)"
proof (cases "sc_cipher a")
  case None
  then show ?thesis using sc_paired_null[OF assms(1) None] SealScatter_null[OF None assms(4)]
    by (simp add: SuffixLen_def ExplicitNonceLen_def)
next
  case (Some p)
  then obtain c w where c: "sc_cipher a = Some (c, w)" by (cases p) simp
  obtain r where r: "paired w r" "nonce_ok a" using sc_paired_cipher[OF assms(1) c] by metis
  obtain n variable w' where n: "EVP_AEAD_CTX_tag_len w (length inp) (length extra) = Some n"
    and v: "(if random_variable_nonce a then rand (variable_nonce_len a) w0 else (Some (be_bytes 8 (unat q)), w0)) = (Some variable, w1)"
    and e: "EVP_AEAD_CTX_seal_scatter w out_at suffix_at n in_at (assemble_nonce a variable) inp extra
          (GetAdditionalData a type v q (length inp) header) = ((True, out, suffix), w')"
    and p: "prefix = (if variable_nonce_included_in_record a then variable else [])"
    and "a' = a\<lparr>sc_cipher := Some (c, w')\<rparr>"
    by (rule SealScatter_cipher[OF assms(4) c])
  have "length variable = variable_nonce_len a"
    using v r(2) assms(2) by (auto simp: rand_ok_def nonce_ok_def split: if_splits)
  moreover have "length out = length inp \<and> length suffix = n" using seal_length[OF r(1) assms(3) n e] .
  ultimately show ?thesis using p n c by (simp add: ExplicitNonceLen_def SuffixLen_def)
qed

lemma suffix_bound:
  assumes "sc_paired paired a b" and "SuffixLen a i e = Some n"
  shows "ExplicitNonceLen a + n \<le> MaxOverhead a + e"
proof (cases "sc_cipher a")
  case (Some p)
  then obtain c w where c: "sc_cipher a = Some (c, w)" by (cases p) simp
  obtain r where "paired w r" using sc_paired_cipher[OF assms(1) c] by metis
  then show ?thesis using tag_bound[of w r i e n] assms(2) c by (simp add: SuffixLen_def MaxOverhead_def)
qed (use assms(2) in \<open>simp add: SuffixLen_def MaxOverhead_def\<close>)

text \<open>The contexts of the two ends: what one seals the other opens, and they stay paired.\<close>

lemma Open_SealScatter:
  assumes ab: "sc_paired paired a b" and rand: "rand_ok rand" and extra: "extra = [] \<or> ad_is_header a \<and> sc_cipher a \<noteq> None"
    and small: "length inp + length extra < 2 ^ 16"
    and seal: "SealScatter rand a prefix_at out_at suffix_at type v q header in_at inp extra w0 = (Some (prefix, out, suffix), a', w1)"
  shows "\<exists>b'. Open b type v q header (prefix @ out @ suffix) = (Some (inp @ extra), b') \<and> sc_paired paired a' b'"
proof (cases "sc_cipher a")
  case None
  then have "b = a" using sc_paired_null[OF ab] by simp
  moreover have "prefix = []" "out = inp" "suffix = extra" "a' = a"
    using SealScatter_null[OF None seal] by simp_all
  ultimately show ?thesis using ab extra None by (auto simp: Open_def)
next
  case (Some p)
  then obtain c w where c: "sc_cipher a = Some (c, w)" by (cases p) simp
  obtain r where b: "b = a\<lparr>sc_cipher := Some (c, r)\<rparr>" and r: "paired w r" "nonce_ok a"
    and fixed: "\<not> omit_length_in_ad a \<longrightarrow> fixed_overhead w"
    by (rule sc_paired_cipher[OF ab c])
  obtain n variable w' where n: "EVP_AEAD_CTX_tag_len w (length inp) (length extra) = Some n"
    and v: "(if random_variable_nonce a then rand (variable_nonce_len a) w0 else (Some (be_bytes 8 (unat q)), w0)) = (Some variable, w1)"
    and e: "EVP_AEAD_CTX_seal_scatter w out_at suffix_at n in_at (assemble_nonce a variable) inp extra
          (GetAdditionalData a type v q (length inp) header) = ((True, out, suffix), w')"
    and p: "prefix = (if variable_nonce_included_in_record a then variable else [])"
    and a': "a' = a\<lparr>sc_cipher := Some (c, w')\<rparr>"
    by (rule SealScatter_cipher[OF seal c])
  have lens: "length prefix = ExplicitNonceLen a" "length out = length inp" "length suffix = n"
    using seal_scatter_length[OF ab rand small seal] n c by (simp_all add: SuffixLen_def)
  obtain r' where o: "EVP_AEAD_CTX_open r 0 (length (out @ suffix)) 0 (assemble_nonce a variable) (out @ suffix)
      (GetAdditionalData a type v q (length inp) header) = ((True, inp @ extra), r')" and w': "paired w' r'"
    using seal_open[OF r(1) small n e] by auto
  have over: "MaxOverhead b = MaxOverhead a" using c same_overhead[OF r(1)] by (simp add: MaxOverhead_def b)
  have variable: "variable = (if variable_nonce_included_in_record b then prefix else be_bytes 8 (unat q))"
    using p v r(2) by (auto simp: b nonce_ok_def split: if_splits)
  have fits: "MaxOverhead a + length inp + length extra = length (prefix @ out @ suffix)" if "\<not> omit_length_in_ad a"
    using that fixed lens c fixed_overhead_tag[OF _ n] by (simp add: MaxOverhead_def)
  have "Open b type v q header (prefix @ out @ suffix) = (Some (inp @ extra), b\<lparr>sc_cipher := Some (c, r')\<rparr>)"
  proof (rule Open_cipher[OF _ _ _ _ refl variable])
    show "omit_length_in_ad b \<or> length (prefix @ out @ suffix) \<ge> MaxOverhead b"
      using fits unfolding over by (cases "omit_length_in_ad a") (simp_all add: b)
    have same: "GetAdditionalData b type v q (if omit_length_in_ad b then 0 else length (prefix @ out @ suffix) - MaxOverhead b) header =
        GetAdditionalData a type v q (length inp) header"
      unfolding b GetAdditionalData_state
      by (rule additional_data_agrees)
        (use fits over extra in \<open>cases "omit_length_in_ad a"; cases "ad_is_header a"; simp add: b; linarith\<close>)
    show "EVP_AEAD_CTX_open r 0 (length (out @ suffix)) 0 (assemble_nonce b variable) (out @ suffix)
      (GetAdditionalData b type v q (if omit_length_in_ad b then 0 else length (prefix @ out @ suffix) - MaxOverhead b) header) =
      ((True, inp @ extra), r')"
      unfolding same using o by (simp add: b)
  qed (use lens r(2) in \<open>simp_all add: b\<close>)
  moreover have same: "fixed_overhead w' \<longleftrightarrow> fixed_overhead w" using seal_scatter_keeps[OF e] by (simp add: fixed_overhead_def)
  moreover from same have "sc_paired paired a' (a'\<lparr>sc_cipher := Some (c, r')\<rparr>)"
    using w' fixed r(2) by (intro sc_paired_cipherI[where w = w']) (simp_all add: a')
  ultimately show ?thesis by (simp add: a' b)
qed

end

end
