(* ===== verification/Tls_Cbc.thy ===== *)
theory Tls_Cbc
  imports Ssl_Aead_Props
begin

text \<open>
  The lengths of the CBC ciphers of TLS 1.0, \<open>aead_tls_tag_len\<close> of \<open>crypto/cipher/e_tls.cc\<close>, and what the splitting of records relies
  on: that \<open>ssl_cipher_get_record_split_len\<close> is the length of the record body of one byte. The ciphers themselves are not
  modelled; the size of the MAC and the block size are arguments.
\<close>

text \<open>\<open>HMAC_size\<close>, whether the cipher is in CBC mode, and its block size. The sum is computed in \<open>size_t\<close>.\<close>

definition aead_tls_tag_len :: "nat \<Rightarrow> bool \<Rightarrow> nat \<Rightarrow> nat \<Rightarrow> nat \<Rightarrow> nat" where
  "aead_tls_tag_len hmac_len cbc_mode block_size in_len extra_in_len =
     (if \<not> cbc_mode then hmac_len
      else let pad_len = block_size - (in_len + hmac_len) mod 2 ^ 64 mod block_size in hmac_len + pad_len)"

text \<open>The algorithm is one of the CBC ciphers with HMAC-SHA1 of \<open>e_tls.cc\<close>, for a block of the given size.\<close>

definition cbc_sha1 :: "nat \<Rightarrow> 'c EVP_AEAD \<Rightarrow> bool" where
  "cbc_sha1 block_size aead \<longleftrightarrow> ae_tag_len aead = Some (\<lambda>_ _. aead_tls_tag_len SHA_DIGEST_LENGTH True block_size)"

definition cbc_block_size :: "SSL_CIPHER \<Rightarrow> nat" where
  "cbc_block_size cipher = (if algorithm_enc cipher = SSL_3DES then 8 else 16)"

text \<open>
  What \<open>tls_seal_scatter_record\<close> asserts of a context that may have to split records: no explicit nonce, and a CBC cipher with
  HMAC-SHA1.
\<close>

definition splittable :: "uint16 \<Rightarrow> 'c SSLAEADContext \<Rightarrow> bool" where
  "splittable version sc \<longleftrightarrow>
     (case sc_cipher sc of
        None \<Rightarrow> True
      | Some (cipher, ctx) \<Rightarrow>
          version < TLS1_1_VERSION \<and> SSL_CIPHER_is_block_cipher cipher \<longrightarrow>
          ExplicitNonceLen sc = 0 \<and> algorithm_enc cipher \<in> {SSL_3DES, SSL_AES128, SSL_AES256} \<and>
          cbc_sha1 (cbc_block_size cipher) (ctx_aead ctx))"

lemma split_len_exact:
  assumes "algorithm_enc cipher \<in> {SSL_3DES, SSL_AES128, SSL_AES256}"
  shows "ssl_cipher_get_record_split_len cipher = 1 + aead_tls_tag_len SHA_DIGEST_LENGTH True (cbc_block_size cipher) 1 0"
  using assms by (auto simp: ssl_cipher_get_record_split_len_def aead_tls_tag_len_def cbc_block_size_def Let_def)

text \<open>The lengths of the suffix and of a record body of one byte, with the MAC and the padding.\<close>

lemma splittable_suffix:
  assumes "splittable version sc" and "map_option fst (sc_cipher sc) = Some cipher" and "version < TLS1_1_VERSION" and "SSL_CIPHER_is_block_cipher cipher"
  shows "ExplicitNonceLen sc = 0" and "SuffixLen sc i e = Some (aead_tls_tag_len SHA_DIGEST_LENGTH True (cbc_block_size cipher) i e)"
    and "ssl_cipher_get_record_split_len cipher = 1 + aead_tls_tag_len SHA_DIGEST_LENGTH True (cbc_block_size cipher) 1 0"
  using assms split_len_exact[of cipher]
  by (auto simp: splittable_def cbc_sha1_def SuffixLen_def EVP_AEAD_CTX_tag_len_def)

text \<open>Sealing keeps it, as it keeps the cipher and the algorithm.\<close>

lemma SealScatter_splittable:
  assumes "SealScatter rand a prefix_at out_at suffix_at type v q header in_at inp extra w0 = (Some (prefix, out, suffix), a', w1)"
  shows "splittable version a' = splittable version a"
proof (cases "sc_cipher a")
  case None
  then show ?thesis using SealScatter_null[OF None assms] by simp
next
  case (Some p)
  then obtain c w where c: "sc_cipher a = Some (c, w)" by (cases p) simp
  obtain n variable w' where "EVP_AEAD_CTX_tag_len w (length inp) (length extra) = Some n"
    and "(if random_variable_nonce a then rand (variable_nonce_len a) w0 else (Some (be_bytes 8 (unat q)), w0)) = (Some variable, w1)"
    and e: "EVP_AEAD_CTX_seal_scatter w out_at suffix_at n in_at (assemble_nonce a variable) inp extra
          (GetAdditionalData a type v q (length inp) header) = ((True, out, suffix), w')"
    and "prefix = (if variable_nonce_included_in_record a then variable else [])"
    and a': "a' = a\<lparr>sc_cipher := Some (c, w')\<rparr>"
    by (rule SealScatter_cipher[OF assms c])
  then show ?thesis using seal_scatter_keeps[OF e] by (simp add: splittable_def c)
qed

text \<open>
  The tables of \<open>e_tls.cc\<close> for TLS 1.0, whose initialisation vector is implicit. \<open>Create\<close> leaves a context that can split records, unless
  it is asked for a cipher with HMAC-SHA256, which none of the suites for TLS 1.0 has.
\<close>

definition cbc_methods :: "(aead_name \<Rightarrow> 'c EVP_AEAD) \<Rightarrow> bool" where
  "cbc_methods methods \<longleftrightarrow>
     cbc_sha1 8 (methods EVP_aead_des_ede3_cbc_sha1_tls_implicit_iv) \<and> ae_nonce_len (methods EVP_aead_des_ede3_cbc_sha1_tls_implicit_iv) = 0 \<and>
     cbc_sha1 16 (methods EVP_aead_aes_128_cbc_sha1_tls_implicit_iv) \<and> ae_nonce_len (methods EVP_aead_aes_128_cbc_sha1_tls_implicit_iv) = 0 \<and>
     cbc_sha1 16 (methods EVP_aead_aes_256_cbc_sha1_tls_implicit_iv) \<and> ae_nonce_len (methods EVP_aead_aes_256_cbc_sha1_tls_implicit_iv) = 0"

lemma init_aead: "EVP_AEAD_CTX_init_with_direction aead key tag_len dir = Some ctx \<Longrightarrow> ctx_aead ctx = aead"
  by (auto simp: EVP_AEAD_CTX_init_with_direction_def split: if_splits option.splits)

lemma Create_splittable:
  assumes "cbc_methods methods" and "algorithm_mac cipher \<noteq> SSL_SHA256"
    and "Create methods dir TLS1_VERSION cipher enc_key mac_key fixed_iv = Some (Some sc)"
  shows "splittable TLS1_VERSION sc"
proof (cases "SSL_CIPHER_is_block_cipher cipher")
  case True
  then have mac: "algorithm_mac cipher \<noteq> SSL_AEAD" by (simp add: SSL_CIPHER_is_block_cipher_def)
  have v: "ssl_protocol_version_from_wire TLS1_VERSION = Some TLS1_VERSION" by (simp add: ssl_protocol_version_from_wire_def)
  obtain aead iv_len where a: "ssl_cipher_get_evp_aead methods cipher TLS1_VERSION = Some (aead, SHA_DIGEST_LENGTH, iv_len)"
    and enc: "algorithm_enc cipher \<in> {SSL_3DES, SSL_AES128, SSL_AES256}"
    and m: "cbc_sha1 (cbc_block_size cipher) (methods aead)" "ae_nonce_len (methods aead) = 0"
    using assms mac unfolding Create_def v option.case
    by (auto simp: ssl_cipher_get_evp_aead_def cbc_methods_def cbc_block_size_def Let_def split: if_splits option.splits)
  have "\<exists>ctx. EVP_AEAD_CTX_init_with_direction (methods aead) (mac_key @ enc_key @ fixed_iv) EVP_AEAD_DEFAULT_TAG_LENGTH dir = Some ctx \<and>
      sc_cipher sc = Some (cipher, ctx) \<and> ExplicitNonceLen sc = 0"
    using assms(3) m(2) unfolding Create_def v a option.case prod.case Let_def
    by (auto simp: EVP_AEAD_nonce_length_def ExplicitNonceLen_def split: if_splits option.splits)
  then show ?thesis using enc m(1) by (auto simp: splittable_def dest!: init_aead)
next
  case False
  have "map_option fst (sc_cipher sc) = Some cipher"
    using assms(3) unfolding Create_def by (auto simp: Let_def split: if_splits option.splits prod.splits)
  then show ?thesis using False by (auto simp: splittable_def)
qed

end
