(* ===== verification/Tls_Record_Props.thy ===== *)
theory Tls_Record_Props
  imports Tls_Record Tls_Cbc CBS_Codec
begin

text \<open>
  The record layer from end to end: what one connection seals, its peer opens, record by record and as a stream,
  for every algorithm that satisfies the interface \<open>aead_pair\<close>, and what the peer can send at most without being
  cut off.
\<close>

subsection \<open>Record headers and padding\<close>

definition record_header :: "byte \<times> uint16 \<times> uint16 \<Rightarrow> byte list" where
  "record_header = (\<lambda>(type, version, n). [type] @ be_bytes 2 (unat version) @ be_bytes 2 (unat n))"

interpretation rec_header: framed_codec "\<lambda>_. True" record_header get_record_header
proof
  fix v s show "get_record_header (record_header v @ s) = (Some v, s)"
    by (cases v) (simp add: get_record_header_def record_header_def op_bind_def u8.dec_enc[simplified] u16.dec_enc[simplified])
next
  fix s v t assume "get_record_header s = (Some v, t)"
  then show "s = record_header v @ t"
    by (auto simp: get_record_header_def record_header_def op_elims u8.dec_iff u16.dec_iff)
qed (auto simp: record_header_def)

lemma length_record_header [simp]: "length (record_header v) = 5"
  by (cases v) (simp add: record_header_def)

text \<open>The bytes of one record: a header and the body whose length the header gives.\<close>

definition one_record :: "byte list \<Rightarrow> bool" where
  "one_record bs \<longleftrightarrow> (\<exists>type v n body. bs = record_header (type, v, n) @ body \<and> unat n = length body)"

text \<open>The padding loop takes off the zeros at the end and the type before them.\<close>

lemma strip_padding_zeros: "t \<noteq> 0 \<Longrightarrow> strip_padding (xs @ t # replicate n 0) = Some (t, xs)"
proof (induction n)
  case 0
  then show ?case by (simp add: strip_padding.simps)
next
  case (Suc n)
  have "xs @ t # replicate (Suc n) 0 = (xs @ t # replicate n 0) @ [0]" by (simp add: replicate_append_same)
  then show ?case using Suc by (subst strip_padding.simps) (simp add: butlast_append)
qed

lemma strip_padding_iff: "strip_padding out = Some (t, xs) \<longleftrightarrow> t \<noteq> 0 \<and> (\<exists>n. out = xs @ t # replicate n 0)"
proof
  show "strip_padding out = Some (t, xs) \<Longrightarrow> t \<noteq> 0 \<and> (\<exists>n. out = xs @ t # replicate n 0)"
  proof (induction out rule: strip_padding.induct)
    case (1 out)
    show ?case
    proof (cases "out = []")
      case False
      show ?thesis
      proof (cases "last out = 0")
        case True
        then obtain n where "t \<noteq> 0" "butlast out = xs @ t # replicate n 0"
          using 1 False by (auto simp: strip_padding.simps[of out])
        then have "out = xs @ t # replicate (Suc n) 0"
          using append_butlast_last_id[OF False] True by (simp add: replicate_append_same[symmetric])
        then show ?thesis using \<open>t \<noteq> 0\<close> by blast
      next
        case non0: False
        then have "t = last out" "xs = butlast out" using 1(2) False by (simp_all add: strip_padding.simps[of out] Let_def)
        then show ?thesis using non0 False by (intro conjI exI[of _ 0]) simp_all
      qed
    qed (use 1(2) in \<open>simp add: strip_padding.simps\<close>)
  qed
qed (auto simp: strip_padding_zeros)

subsection \<open>Two ends in step\<close>

lemma same_version: "s3_version r = s3_version s \<Longrightarrow> ssl_protocol_version r = ssl_protocol_version s"
  by (simp add: ssl_protocol_version_def)

lemma same_record_version: "s3_version r = s3_version s \<Longrightarrow> tls_record_version r = tls_record_version s"
  using same_version[of r s] by (simp add: tls_record_version_def)

text \<open>
  The context for sealing at one end and the context for opening at the other are paired and at the same
  sequence number; both ends run the same version of TLS, and the contexts of TLS 1.0 are those for which records can be split.
\<close>

definition synced ::
  "('c EVP_AEAD_CTX \<Rightarrow> 'c EVP_AEAD_CTX \<Rightarrow> bool) \<Rightarrow> ('c, 'y) ssl_rec_scheme \<Rightarrow> ('c, 'z) ssl_rec_scheme \<Rightarrow> bool" where
  "synced paired s r \<longleftrightarrow>
     sc_paired paired (aead_write_ctx s) (aead_read_ctx r) \<and> write_sequence s = read_sequence r \<and>
     s3_version r = s3_version s \<and> s3_version s \<in> {0, TLS1_VERSION, TLS1_1_VERSION, TLS1_2_VERSION, TLS1_3_VERSION} \<and>
     (ssl_protocol_version s \<ge> TLS1_3_VERSION \<longrightarrow> is_null_cipher (aead_write_ctx s) \<or> ad_is_header (aead_write_ctx s)) \<and>
     MaxOverhead (aead_write_ctx s) < 320 \<and> splittable (ssl_protocol_version s) (aead_write_ctx s)"

text \<open>The receiver is between messages and neither closed nor skipping early data.\<close>

definition receiving :: "('c, 'z) ssl_rec_scheme \<Rightarrow> bool" where
  "receiving r \<longleftrightarrow>
     read_shutdown r \<noteq> ssl_shutdown_close_notify \<and> tls_can_accept_handshake_data r = None \<and>
     \<not> tls_has_unprocessed_handshake_data r \<and> \<not> skip_early r"

lemma parse_message_same: "hs_buf q = hs_buf r \<Longrightarrow> is_v2_hello q = is_v2_hello r \<Longrightarrow> parse_message q = parse_message r"
  unfolding parse_message_def by (simp only:)

lemma parse_message_update:
  "parse_message (r\<lparr>aead_read_ctx := c\<rparr>) = parse_message r" "parse_message (r\<lparr>skip_early := b\<rparr>) = parse_message r"
  "parse_message (r\<lparr>read_sequence := q\<rparr>) = parse_message r" "parse_message (r\<lparr>empty_record_count := n\<rparr>) = parse_message r"
  "parse_message (r\<lparr>warning_alert_count := n\<rparr>) = parse_message r"
  by (rule parse_message_same; simp)+

lemma max_message_len_update:
  "ssl_max_handshake_message_len (r\<lparr>aead_read_ctx := c\<rparr>) = ssl_max_handshake_message_len r"
  "ssl_max_handshake_message_len (r\<lparr>skip_early := b\<rparr>) = ssl_max_handshake_message_len r"
  "ssl_max_handshake_message_len (r\<lparr>read_sequence := q\<rparr>) = ssl_max_handshake_message_len r"
  "ssl_max_handshake_message_len (r\<lparr>empty_record_count := n\<rparr>) = ssl_max_handshake_message_len r"
  "ssl_max_handshake_message_len (r\<lparr>warning_alert_count := n\<rparr>) = ssl_max_handshake_message_len r"
  by (simp_all add: ssl_max_handshake_message_len_def SSL_in_init_def ssl_protocol_version_def)

lemma can_accept_update [simp]:
  "tls_can_accept_handshake_data (r\<lparr>aead_read_ctx := c\<rparr>) = tls_can_accept_handshake_data r"
  "tls_can_accept_handshake_data (r\<lparr>skip_early := b\<rparr>) = tls_can_accept_handshake_data r"
  "tls_can_accept_handshake_data (r\<lparr>read_sequence := q\<rparr>) = tls_can_accept_handshake_data r"
  "tls_can_accept_handshake_data (r\<lparr>empty_record_count := n\<rparr>) = tls_can_accept_handshake_data r"
  "tls_can_accept_handshake_data (r\<lparr>warning_alert_count := n\<rparr>) = tls_can_accept_handshake_data r"
  unfolding tls_can_accept_handshake_data_def parse_message_update max_message_len_update by simp_all

lemma unprocessed_update [simp]:
  "tls_has_unprocessed_handshake_data (r\<lparr>aead_read_ctx := c\<rparr>) = tls_has_unprocessed_handshake_data r"
  "tls_has_unprocessed_handshake_data (r\<lparr>skip_early := b\<rparr>) = tls_has_unprocessed_handshake_data r"
  "tls_has_unprocessed_handshake_data (r\<lparr>read_sequence := q\<rparr>) = tls_has_unprocessed_handshake_data r"
  "tls_has_unprocessed_handshake_data (r\<lparr>empty_record_count := n\<rparr>) = tls_has_unprocessed_handshake_data r"
  "tls_has_unprocessed_handshake_data (r\<lparr>warning_alert_count := n\<rparr>) = tls_has_unprocessed_handshake_data r"
  unfolding tls_has_unprocessed_handshake_data_def parse_message_update by simp_all

lemma tls_record_version_major:
  "s3_version s \<in> {0, TLS1_VERSION, TLS1_1_VERSION, TLS1_2_VERSION, TLS1_3_VERSION} \<Longrightarrow>
   drop_bit 8 (tls_record_version s) = SSL3_VERSION_MAJOR"
  by (auto simp: tls_record_version_def ssl_protocol_version_def ssl_protocol_version_from_wire_def)

text \<open>Inversion of a successful \<open>do_seal_record\<close>.\<close>

lemma do_seal_record_cases:
  assumes "do_seal_record rand prefix_at out_at suffix_at type in_at inp s w = (Some (prefix, out, suffix), s', w')"
  obtains n outer header nonce sc where
    "CiphertextLen (aead_write_ctx s) (length inp) (length (record_extra_in type s)) = Some n"
    and "outer = (if record_extra_in type s \<noteq> [] then SSL3_RT_APPLICATION_DATA else type)"
    and "header = record_header (outer, tls_record_version s, of_nat n)" and "prefix = header @ nonce"
    and "write_sequence s + 1 \<noteq> 0"
    and "SealScatter rand (aead_write_ctx s) (prefix_at + 5) out_at suffix_at outer (tls_record_version s) (write_sequence s)
      header in_at inp (record_extra_in type s) w = (Some (nonce, out, suffix), sc, w')"
    and "s' = s\<lparr>aead_write_ctx := sc, write_sequence := write_sequence s + 1\<rparr>"
proof -
  let ?extra = "record_extra_in type s"
  obtain k n where k: "SuffixLen (aead_write_ctx s) (length inp) (length ?extra) = Some k"
    and n: "CiphertextLen (aead_write_ctx s) (length inp) (length ?extra) = Some n"
    using assms by (auto simp: do_seal_record_def Let_def split: option.splits)
  then have "n < 65535" by (auto simp: CiphertextLen_def Let_def split: if_splits)
  then have n': "unat (of_nat n :: uint16) = n" by (simp add: unat_of_nat)
  define outer where "outer = (if ?extra \<noteq> [] then SSL3_RT_APPLICATION_DATA else type)"
  define header where "header = record_header (outer, tls_record_version s, of_nat n)"
  define run where "run = SealScatter rand (aead_write_ctx s) (prefix_at + 5) out_at suffix_at outer (tls_record_version s)
    (write_sequence s) header in_at inp ?extra w"
  have h: "[outer] @ be_bytes 2 (unat (tls_record_version s)) @ be_bytes 2 n = header"
    by (simp add: header_def record_header_def n')
  have eq: "do_seal_record rand prefix_at out_at suffix_at type in_at inp s w =
    (if write_sequence s + 1 = 0 then (None, s, w)
     else case run of (None, sc, w1) \<Rightarrow> (None, s\<lparr>aead_write_ctx := sc\<rparr>, w1)
       | (Some (nonce, out, suffix), sc, w1) \<Rightarrow>
           (Some (header @ nonce, out, suffix), s\<lparr>aead_write_ctx := sc, write_sequence := write_sequence s + 1\<rparr>, w1))"
    unfolding do_seal_record_def Let_def k n outer_def[symmetric] run_def by (simp only: option.case prod.case h)
  obtain res sc w1 where run: "run = (res, sc, w1)" by (cases run)
  then obtain nonce where "res = Some (nonce, out, suffix)" "prefix = header @ nonce" "w1 = w'"
    "s' = s\<lparr>aead_write_ctx := sc, write_sequence := write_sequence s + 1\<rparr>" "write_sequence s + 1 \<noteq> 0"
    using assms unfolding eq by (cases res) (auto split: if_splits)
  then show thesis using run unfolding run_def by (intro that[OF n outer_def header_def]) simp_all
qed

subsection \<open>One record\<close>

lemma version_accepted:
  assumes "synced paired s r"
  shows "if is_null_cipher (aead_read_ctx r) then drop_bit 8 (tls_record_version s) = SSL3_VERSION_MAJOR
    else tls_record_version s = tls_record_version r"
  using assms same_record_version[of r s] by (auto simp: synced_def intro: tls_record_version_major)

lemma open_framed:
  assumes "receiving r" and "if is_null_cipher (aead_read_ctx r) then drop_bit 8 v = SSL3_VERSION_MAJOR else v = tls_record_version r"
    and "unat n = length body" and "length body \<le> SSL3_RT_MAX_ENCRYPTED_LENGTH" and "type \<noteq> SSL3_RT_CHANGE_CIPHER_SPEC"
    and "read_sequence r + 1 \<noteq> 0"
    and "Open (aead_read_ctx r) type v (read_sequence r) (record_header (type, v, n)) body = (Some out, sc)"
  shows "tls_open_record (record_header (type, v, n) @ body @ rest) r =
    (case tls_opened type out (r\<lparr>aead_read_ctx := sc\<rparr>) of (res, r1) \<Rightarrow> (res, 5 + length body, r1))"
proof -
  have "get_record_header (record_header (type, v, n) @ body @ rest) = (Some (type, v, n), body @ rest)"
    by (rule rec_header.dec_enc) simp
  moreover have "CBS_get_bytes (unat n) (body @ rest) = (Some body, rest)"
    unfolding assms(3) CBS_get_bytes_eq by (rule cbs_get_append)
  moreover have "\<not> unat n > SSL3_RT_MAX_ENCRYPTED_LENGTH" using assms(3,4) by simp
  ultimately show ?thesis
    using assms(1,2,5,6,7) by (simp add: tls_open_record_def receiving_def Let_def)
qed

lemma open_short:
  assumes "receiving r" and "if is_null_cipher (aead_read_ctx r) then drop_bit 8 v = SSL3_VERSION_MAJOR else v = tls_record_version r"
    and "unat n = length body" and "length body \<le> SSL3_RT_MAX_ENCRYPTED_LENGTH"
    and z: "record_header (type, v, n) @ body = p @ z" "z \<noteq> []"
  shows "\<exists>k. tls_open_record p r = (Record_partial, k, r) \<and> length p < k \<and> k \<le> length (record_header (type, v, n) @ body)"
proof (cases "length p < 5")
  case True
  have "get_record_header p \<noteq> (Some h, t)" for h t
    using rec_header.dec_bytes[of p h t] True by (metis length_append length_record_header not_add_less1)
  then obtain t where "get_record_header p = (None, t)" by (cases "get_record_header p") (metis option.exhaust)
  then show ?thesis using assms(1) True by (simp add: tls_open_record_def receiving_def)
next
  case False
  have split: "p = record_header (type, v, n) @ drop 5 p"
  proof -
    have "take 5 p = record_header (type, v, n)" using arg_cong[OF z(1), of "take 5"] False by simp
    then show ?thesis by (metis append_take_drop_id)
  qed
  have short: "length p < 5 + length body" using z(2) arg_cong[OF z(1), of length] by (cases z) simp_all
  then have "cbs_get (unat n) (drop 5 p) = (None, drop 5 p)" using assms(3) False by (auto simp: cbs_get_def)
  moreover have "get_record_header p = (Some (type, v, n), drop 5 p)" by (subst split) (rule rec_header.dec_enc, simp)
  moreover have "\<not> unat n > SSL3_RT_MAX_ENCRYPTED_LENGTH" using assms(3,4) by simp
  ultimately show ?thesis
    using assms(1,2,3) short by (simp add: tls_open_record_def receiving_def CBS_get_bytes_eq)
qed

lemma tls_opened_success:
  assumes "receiving r" and "type \<in> {SSL3_RT_HANDSHAKE, SSL3_RT_APPLICATION_DATA}" and "body \<noteq> []" and "length body \<le> SSL3_RT_MAX_PLAIN_LENGTH"
    and "padded = (\<not> is_null_cipher (aead_read_ctx r) \<and> ssl_protocol_version r \<ge> TLS1_3_VERSION)"
    and "outer = (if padded then SSL3_RT_APPLICATION_DATA else type)" and "out = body @ (if padded then [type] else [])"
  shows "\<exists>n k. tls_opened outer out r =
    (Record_success type body, r\<lparr>skip_early := False, read_sequence := read_sequence r + 1, empty_record_count := n, warning_alert_count := k\<rparr>)"
proof -
  have v: "ssl_protocol_version (r\<lparr>skip_early := b, read_sequence := q\<rparr>) = ssl_protocol_version r" for b q
    by (simp add: ssl_protocol_version_def)
  have "strip_padding (body @ [type]) = Some (type, body)"
    using assms(2) strip_padding_zeros[of type body 0] by auto
  then show ?thesis
  proof (cases padded)
    case True
    then have "\<not> is_null_cipher (aead_read_ctx r)" "ssl_protocol_version r \<ge> TLS1_3_VERSION" "outer = SSL3_RT_APPLICATION_DATA" "out = body @ [type]"
      using assms(5-7) by simp_all
    then show ?thesis using assms(1-4) \<open>strip_padding (body @ [type]) = Some (type, body)\<close>
      by (intro exI[of _ 0]) (auto simp: tls_opened_def Let_def v receiving_def)
  next
    case False
    have "outer = type" "out = body" using assms(6,7) False by simp_all
    moreover have "is_null_cipher (aead_read_ctx r) \<or> \<not> ssl_protocol_version r \<ge> TLS1_3_VERSION" using assms(5) False by blast
    moreover have "type \<noteq> SSL3_RT_ALERT" using assms(2) by auto
    ultimately show ?thesis using assms(1,3,4)
      by (intro exI[of _ 0]) (elim disjE; simp add: tls_opened_def Let_def v receiving_def)
  qed
qed

lemma receiving_opened:
  "receiving r \<Longrightarrow> receiving (r\<lparr>aead_read_ctx := sc, skip_early := False, read_sequence := q, empty_record_count := n, warning_alert_count := k\<rparr>)"
  by (simp add: receiving_def)

context aead_pair
begin

lemma ciphertext_length:
  assumes "sc_paired paired a b" and "rand_ok rand" and "MaxOverhead a < 320" and "length inp \<le> SSL3_RT_MAX_PLAIN_LENGTH" and "length extra \<le> 1"
    and "CiphertextLen a (length inp) (length extra) = Some n"
    and "SealScatter rand a prefix_at out_at suffix_at type v q header in_at inp extra w = (Some (nonce, out, suffix), a', w')"
  shows "n = length (nonce @ out @ suffix) \<and> n \<le> SSL3_RT_MAX_ENCRYPTED_LENGTH"
proof -
  have "length inp + length extra < 2 ^ 16" using assms(4,5) by simp
  note lens = seal_scatter_length[OF assms(1,2) this assms(7)]
  have "ExplicitNonceLen a + length suffix \<le> MaxOverhead a + length extra" using suffix_bound[OF assms(1)] lens by blast
  then have "length suffix + ExplicitNonceLen a + length inp \<le> SSL3_RT_MAX_ENCRYPTED_LENGTH" using assms(3,4,5) by simp
  then show ?thesis using assms(6) lens by (auto simp: CiphertextLen_def Let_def split: if_splits)
qed

lemma open_sealed:
  assumes sync: "synced paired s r" and recv: "receiving r" and rand: "rand_ok rand"
    and type: "type \<in> {SSL3_RT_HANDSHAKE, SSL3_RT_APPLICATION_DATA}" and body: "inp \<noteq> []" "length inp \<le> SSL3_RT_MAX_PLAIN_LENGTH"
    and seal: "do_seal_record rand prefix_at out_at suffix_at type in_at inp s w = (Some (prefix, out, suffix), s', w')"
  shows "\<exists>r'. (\<forall>rest. tls_open_record ((prefix @ out @ suffix) @ rest) r = (Record_success type inp, length (prefix @ out @ suffix), r')) \<and>
    (\<forall>p z. prefix @ out @ suffix = p @ z \<longrightarrow> z \<noteq> [] \<longrightarrow>
      (\<exists>k. tls_open_record p r = (Record_partial, k, r) \<and> length p < k \<and> k \<le> length (prefix @ out @ suffix))) \<and>
    synced paired s' r' \<and> receiving r'"
proof -
  let ?extra = "record_extra_in type s" and ?a = "aead_write_ctx s" and ?b = "aead_read_ctx r"
  obtain n outer header nonce sc where n: "CiphertextLen ?a (length inp) (length ?extra) = Some n"
    and outer: "outer = (if ?extra \<noteq> [] then SSL3_RT_APPLICATION_DATA else type)"
    and header: "header = record_header (outer, tls_record_version s, of_nat n)" and prefix: "prefix = header @ nonce"
    and seq: "write_sequence s + 1 \<noteq> 0"
    and run: "SealScatter rand ?a (prefix_at + 5) out_at suffix_at outer (tls_record_version s) (write_sequence s)
      header in_at inp ?extra w = (Some (nonce, out, suffix), sc, w')"
    and s': "s' = s\<lparr>aead_write_ctx := sc, write_sequence := write_sequence s + 1\<rparr>"
    by (rule do_seal_record_cases[OF seal])
  have ab: "sc_paired paired ?a ?b" and ver: "s3_version r = s3_version s" and q: "write_sequence s = read_sequence r"
    and small: "MaxOverhead ?a < 320" using sync by (auto simp: synced_def)
  have null: "is_null_cipher ?b = is_null_cipher ?a" using ab by (auto simp: sc_paired_def is_null_cipher_def split: option.splits)
  have ad: "?extra = [] \<or> ad_is_header ?a \<and> sc_cipher ?a \<noteq> None"
    using sync by (auto simp: synced_def record_extra_in_def is_null_cipher_def split: option.splits)
  have e1: "length ?extra \<le> 1" by (simp add: record_extra_in_def)
  have size: "length inp + length ?extra < 2 ^ 16" using body(2) e1 by simp
  have len: "n = length (nonce @ out @ suffix)" "n \<le> SSL3_RT_MAX_ENCRYPTED_LENGTH"
    using ciphertext_length[OF ab rand small body(2) e1 n run] by simp_all
  have n16: "unat (of_nat n :: uint16) = length (nonce @ out @ suffix)"
    using len(2) unfolding len(1)[symmetric] by (simp add: unat_of_nat)
  obtain b' where opened: "Open ?b outer (tls_record_version s) (read_sequence r) header (nonce @ out @ suffix) = (Some (inp @ ?extra), b')"
    and b': "sc_paired paired sc b'"
    using Open_SealScatter[OF ab rand ad size run] unfolding q by blast
  let ?r = "r\<lparr>aead_read_ctx := b'\<rparr>"
  note kept = SealScatter_keeps[OF run]
  have same: "ad_is_header sc = ad_is_header ?a" by (subst conjunct1[OF kept]) simp
  have nulls: "is_null_cipher sc = is_null_cipher ?a"
    using conjunct2[OF conjunct2[OF kept]] by (cases "sc_cipher sc"; cases "sc_cipher ?a") (simp_all add: is_null_cipher_def)
  have bn: "is_null_cipher b' = is_null_cipher ?a"
    using b' nulls by (auto simp: sc_paired_def is_null_cipher_def split: option.splits)
  have whole: "tls_open_record (record_header (outer, tls_record_version s, of_nat n) @ (nonce @ out @ suffix) @ rest) r =
    (case tls_opened outer (inp @ ?extra) ?r of (res, r1) \<Rightarrow> (res, 5 + length (nonce @ out @ suffix), r1))" for rest
    using len type outer seq q opened[unfolded header] version_accepted[OF sync]
    by (intro open_framed[OF recv _ n16]) auto
  have "receiving ?r" using recv by (simp add: receiving_def)
  note success = tls_opened_success[OF this type body _ outer, of "inp @ ?extra"]
  have "(?extra \<noteq> []) = (\<not> is_null_cipher (aead_read_ctx ?r) \<and> ssl_protocol_version ?r \<ge> TLS1_3_VERSION)"
    using bn same_version[of ?r s] ver by (simp add: record_extra_in_def)
  moreover have "inp @ ?extra = inp @ (if ?extra \<noteq> [] then [type] else [])" by (simp add: record_extra_in_def)
  ultimately obtain k l where "tls_opened outer (inp @ ?extra) ?r = (Record_success type inp,
      ?r\<lparr>skip_early := False, read_sequence := read_sequence ?r + 1, empty_record_count := k, warning_alert_count := l\<rparr>)"
    using success by blast
  moreover have "synced paired s' (?r\<lparr>skip_early := False, read_sequence := read_sequence ?r + 1, empty_record_count := k, warning_alert_count := l\<rparr>)" for k l
    using b' sync kept same nulls q SealScatter_splittable[OF run] by (simp add: synced_def s' ssl_protocol_version_def)
  moreover have "\<exists>k. tls_open_record p r = (Record_partial, k, r) \<and> length p < k \<and> k \<le> length (prefix @ out @ suffix)"
    if "prefix @ out @ suffix = p @ z" "z \<noteq> []" for p z
    using open_short[OF recv version_accepted[OF sync] n16, of outer p z] len that by (simp add: prefix header)
  ultimately show ?thesis using whole receiving_opened[OF recv] by (simp add: prefix header)
qed

text \<open>The lengths of what \<open>do_seal_record\<close> writes, and what it leaves for the next record.\<close>

lemma do_seal_length:
  assumes ab: "sc_paired paired (aead_write_ctx s) b" and rand: "rand_ok rand" and small: "length inp \<le> SSL3_RT_MAX_PLAIN_LENGTH"
    and ad: "record_extra_in type s = [] \<or> ad_is_header (aead_write_ctx s) \<and> sc_cipher (aead_write_ctx s) \<noteq> None"
    and over: "MaxOverhead (aead_write_ctx s) < 320"
    and seal: "do_seal_record rand prefix_at out_at suffix_at type in_at inp s w = (Some (prefix, out, suffix), s', w')"
  shows "length prefix = 5 + ExplicitNonceLen (aead_write_ctx s)" and "length out = length inp"
    and "SuffixLen (aead_write_ctx s) (length inp) (length (record_extra_in type s)) = Some (length suffix)"
    and "ExplicitNonceLen (aead_write_ctx s) + length suffix \<le> MaxOverhead (aead_write_ctx s) + length (record_extra_in type s)"
    and "\<exists>b'. sc_paired paired (aead_write_ctx s') b'" and "MaxOverhead (aead_write_ctx s') = MaxOverhead (aead_write_ctx s)"
    and "ExplicitNonceLen (aead_write_ctx s') = ExplicitNonceLen (aead_write_ctx s)"
    and "ssl_protocol_version s' = ssl_protocol_version s"
    and "map_option fst (sc_cipher (aead_write_ctx s')) = map_option fst (sc_cipher (aead_write_ctx s))"
    and "splittable v (aead_write_ctx s') = splittable v (aead_write_ctx s)"
    and "one_record (prefix @ out @ suffix)"
proof -
  let ?extra = "record_extra_in type s" and ?a = "aead_write_ctx s"
  obtain n outer header nonce sc where n: "CiphertextLen ?a (length inp) (length ?extra) = Some n"
    and "outer = (if ?extra \<noteq> [] then SSL3_RT_APPLICATION_DATA else type)"
    and header: "header = record_header (outer, tls_record_version s, of_nat n)" and prefix: "prefix = header @ nonce"
    and "write_sequence s + 1 \<noteq> 0"
    and run: "SealScatter rand ?a (prefix_at + 5) out_at suffix_at outer (tls_record_version s) (write_sequence s)
      header in_at inp ?extra w = (Some (nonce, out, suffix), sc, w')"
    and s': "s' = s\<lparr>aead_write_ctx := sc, write_sequence := write_sequence s + 1\<rparr>"
    by (rule do_seal_record_cases[OF seal])
  have size: "length inp + length ?extra < 2 ^ 16" using small by (simp add: record_extra_in_def)
  note lens = seal_scatter_length[OF ab rand size run]
  show "length prefix = 5 + ExplicitNonceLen ?a" "length out = length inp" and sfx: "SuffixLen ?a (length inp) (length ?extra) = Some (length suffix)"
    using lens by (simp_all add: prefix header)
  show "ExplicitNonceLen ?a + length suffix \<le> MaxOverhead ?a + length ?extra" using suffix_bound[OF ab] lens by blast
  show "\<exists>b'. sc_paired paired (aead_write_ctx s') b'" using Open_SealScatter[OF ab rand ad size run] by (auto simp: s')
  note kept = SealScatter_keeps[OF run]
  show "MaxOverhead (aead_write_ctx s') = MaxOverhead ?a" "map_option fst (sc_cipher (aead_write_ctx s')) = map_option fst (sc_cipher ?a)"
    using kept by (simp_all add: s')
  show "ExplicitNonceLen (aead_write_ctx s') = ExplicitNonceLen ?a"
  proof -
    have "ExplicitNonceLen sc = ExplicitNonceLen ?a" by (subst conjunct1[OF kept]) simp
    then show ?thesis by (simp add: s')
  qed
  show "ssl_protocol_version s' = ssl_protocol_version s" by (simp add: s' ssl_protocol_version_def)
  show "splittable v (aead_write_ctx s') = splittable v ?a" using SealScatter_splittable[OF run] by (simp add: s')
  have "length suffix + ExplicitNonceLen ?a + length inp < 2 ^ 16 - 1" using suffix_bound[OF ab sfx] over small by (simp add: record_extra_in_def split: if_splits)
  then have "unat (of_nat n :: uint16) = length (nonce @ out @ suffix)"
    using n lens by (auto simp: CiphertextLen_def sfx unat_of_nat Let_def split: if_splits)
  then show "one_record (prefix @ out @ suffix)"
    unfolding one_record_def prefix header by (intro exI[of _ outer] exI[of _ "tls_record_version s"] exI[of _ "of_nat n"] exI[of _ "nonce @ out @ suffix"]) simp
qed

end

end
