(* ===== verification/Tls_Stream.thy ===== *)
theory Tls_Stream
  imports Tls_Record_Props
begin

text \<open>
  A connection as a state machine: one end seals application data, the bytes are in flight, and the other end opens
  records from whatever part of them has arrived. In every reachable state the data delivered, followed by the
  data of the records in flight, is the data sent, in order, also when the sender splits records.
\<close>

subsection \<open>The output in memory\<close>

lemma length_bytes_at [simp]: "length (bytes_at mem a n) = n"
  by (simp add: bytes_at_def)

lemma bytes_at_add: "bytes_at mem a (i + j) = bytes_at mem a i @ bytes_at mem (a + i) j"
  using upt_add_eq_append[of a "a + i" j] by (simp add: bytes_at_def add.assoc)

lemma bytes_at_written: "b = a \<Longrightarrow> n = length bs \<Longrightarrow> bytes_at (write_mem a bs mem) b n = bs"
  by (rule nth_equalityI) (simp_all add: bytes_at_def write_mem_def)

lemma bytes_at_apart: "a + length bs \<le> b \<or> b + n \<le> a \<Longrightarrow> bytes_at (write_mem a bs mem) b n = bytes_at mem b n"
  by (auto simp: bytes_at_def write_mem_def)

lemma write_mem_apart: "i < a \<or> a + length bs \<le> i \<Longrightarrow> write_mem a bs mem i = mem i"
  by (auto simp: write_mem_def)

lemma store_record_contiguous:
  "bytes_at (store_record a (a + length p) (a + length p + length x) (p, x, y) mem) a (length p + length x + length y) = p @ x @ y"
  "\<not> (a \<le> i \<and> i < a + (length p + length x + length y)) \<Longrightarrow>
   store_record a (a + length p) (a + length p + length x) (p, x, y) mem i = mem i"
  by (auto simp: store_record_def bytes_at_add bytes_at_written bytes_at_apart write_mem_apart)

text \<open>Two records back to back, written in the order of \<open>tls_seal_scatter_record\<close>.\<close>

lemma split_records_contiguous:
  fixes a :: nat and h x y h' x' y' :: "byte list" and mem :: store
  assumes "length h = 5" and "length x = 1" and "length h' = 5"
  defines "body_at \<equiv> a + 5 + 1 + length y + 4"
  defines "mem1 \<equiv> store_record a (a + 5) (a + 5 + 1) (h, x, y) mem"
  defines "mem2 \<equiv> write_mem (body_at + 1 + length x') y' (write_mem (body_at + 1) x' mem1)"
  defines "mem4 \<equiv> write_mem body_at (take 1 (drop 4 h')) (write_mem (a + (5 + 1 + length y)) (take 4 h') mem2)"
  shows "bytes_at mem4 a (6 + length y + (5 + length x' + length y')) = (h @ x @ y) @ (h' @ x' @ y')"
    and "\<not> (a \<le> i \<and> i < a + (6 + length y + (5 + length x' + length y'))) \<Longrightarrow> mem4 i = mem i"
proof -
  let ?b = "a + (5 + 1 + length y)"
  have l: "length (take 4 h') = 4" "length (take 1 (drop 4 h')) = 1" using assms(3) by simp_all
  have first: "bytes_at mem4 a (5 + 1 + length y) = h @ x @ y"
    using store_record_contiguous(1)[of a h x y mem] assms(1,2) l unfolding mem4_def mem2_def mem1_def body_at_def
    by (simp add: bytes_at_apart)
  have h: "bytes_at mem4 ?b 4 = take 4 h'" "bytes_at mem4 (?b + 4) 1 = take 1 (drop 4 h')"
    using l unfolding mem4_def body_at_def by (simp_all add: bytes_at_written bytes_at_apart)
  have "take 4 h' @ take 1 (drop 4 h') = h'" using assms(3) append_take_drop_id[of 4 h'] by simp
  then have hh: "bytes_at mem4 ?b 5 = h'" using bytes_at_add[of mem4 ?b 4 1] h by simp
  have xx: "bytes_at mem4 (?b + 5) (length x') = x'" and yy: "bytes_at mem4 (?b + 5 + length x') (length y') = y'"
    using l unfolding mem4_def mem2_def body_at_def by (simp_all add: bytes_at_written bytes_at_apart)
  have "bytes_at mem4 a ((5 + 1 + length y) + (5 + length x' + length y')) = (h @ x @ y) @ (h' @ x' @ y')"
    unfolding bytes_at_add[of mem4 a "5 + 1 + length y"] bytes_at_add[of mem4 ?b] bytes_at_add[of mem4 ?b 5] first hh xx
    using yy by (simp add: add.assoc)
  then show "bytes_at mem4 a (6 + length y + (5 + length x' + length y')) = (h @ x @ y) @ (h' @ x' @ y')" by simp
  show "mem4 i = mem i" if "\<not> (a \<le> i \<and> i < a + (6 + length y + (5 + length x' + length y')))"
    using that assms(1,2) l unfolding mem4_def mem2_def mem1_def body_at_def store_record_def by (auto simp: write_mem_apart)
qed

subsection \<open>Records in flight\<close>

lemma synced_extra:
  assumes "synced paired s r"
  shows "record_extra_in type s = [] \<or> ad_is_header (aead_write_ctx s) \<and> sc_cipher (aead_write_ctx s) \<noteq> None"
  using assms by (auto simp: synced_def record_extra_in_def is_null_cipher_def split: option.splits)

lemma old_no_extra: "ssl_protocol_version s < TLS1_1_VERSION \<Longrightarrow> record_extra_in type s = []"
  using order.strict_trans2[of "ssl_protocol_version s" TLS1_1_VERSION TLS1_3_VERSION] by (auto simp: record_extra_in_def)

lemma splits_cipher:
  assumes "splits s type n"
  obtains cipher where "map_option fst (sc_cipher (aead_write_ctx s)) = Some cipher" and "write_cipher_split_len s = ssl_cipher_get_record_split_len cipher"
    and "ssl_protocol_version s < TLS1_1_VERSION" and "SSL_CIPHER_is_block_cipher cipher" and "record_extra_in type s = []" and "1 < n"
    and "ssl_needs_record_splitting s"
proof -
  obtain cipher ctx where c: "sc_cipher (aead_write_ctx s) = Some (cipher, ctx)" "ssl_protocol_version s < TLS1_1_VERSION" "SSL_CIPHER_is_block_cipher cipher"
    using assms by (auto simp: splits_def ssl_needs_record_splitting_def split: option.splits)
  then show thesis using that[of cipher] assms old_no_extra[OF c(2)] by (simp add: splits_def write_cipher_split_len_def)
qed

context aead_pair
begin

text \<open>
  Sealing produces one record, or two of which the first holds one byte. The first \<open>*out_len\<close> bytes of the output are these records
  without a gap, and nothing else is written.
\<close>

lemma tls_seal_record_cases:
  assumes sync: "synced paired s r" and rand: "rand_ok rand" and small: "length inp \<le> SSL3_RT_MAX_PLAIN_LENGTH"
    and seal: "tls_seal_record rand tmp mem out_at max_out type in_at inp s w = (Some (n, mem'), s', w')"
  obtains (one) body_at suffix_at prefix out suffix
      where "do_seal_record rand out_at body_at suffix_at type in_at inp s w = (Some (prefix, out, suffix), s', w')"
        and "bytes_at mem' out_at n = prefix @ out @ suffix" and "\<not> splits s type (length inp)"
        and "\<And>i. \<not> (out_at \<le> i \<and> i < out_at + n) \<Longrightarrow> mem' i = mem i"
    | (two) body_at suffix_at prefix1 out1 suffix1 s1 w1 body2_at suffix2_at prefix2 out2 suffix2
      where "do_seal_record rand out_at body_at suffix_at type in_at (take 1 inp) s w = (Some (prefix1, out1, suffix1), s1, w1)"
        and "do_seal_record rand tmp body2_at suffix2_at type (in_at + 1) (drop 1 inp) s1 w1 = (Some (prefix2, out2, suffix2), s', w')"
        and "bytes_at mem' out_at n = (prefix1 @ out1 @ suffix1) @ (prefix2 @ out2 @ suffix2)" and "splits s type (length inp)"
        and "\<And>i. \<not> (out_at \<le> i \<and> i < out_at + n) \<Longrightarrow> mem' i = mem i"
proof -
  let ?a = "aead_write_ctx s" and ?in_len = "length inp"
  have ab: "sc_paired paired ?a (aead_read_ctx r)" and over: "MaxOverhead ?a < 320" and sp: "splittable (ssl_protocol_version s) ?a"
    using sync by (simp_all add: synced_def)
  note extra = synced_extra[OF sync, of type]
  define prefix_len where "prefix_len = tls_seal_scatter_prefix_len s type ?in_len"
  obtain suffix_len where suffix_len: "tls_seal_scatter_suffix_len s type ?in_len = Some suffix_len"
    and n: "n = ((?in_len + prefix_len) mod 2 ^ 64 + suffix_len) mod 2 ^ 64"
    and run: "tls_seal_scatter_record rand tmp mem out_at (out_at + prefix_len) (out_at + prefix_len + ?in_len) type in_at inp s w = (Some mem', s', w')"
    using seal unfolding tls_seal_record_def Let_def prefix_len_def by (auto split: if_splits option.splits prod.splits)
  have bound: "n = ?in_len + prefix_len + suffix_len" if "prefix_len < 1000" "suffix_len < 1000" using that small n by simp
  show thesis
  proof (cases "splits s type ?in_len")
    case False
    obtain prefix out suffix where rec: "do_seal_record rand out_at (out_at + prefix_len) (out_at + prefix_len + ?in_len) type in_at inp s w =
        (Some (prefix, out, suffix), s', w')"
      and mem': "mem' = store_record out_at (out_at + prefix_len) (out_at + prefix_len + ?in_len) (prefix, out, suffix) mem"
      using run False unfolding tls_seal_scatter_record_def by (auto split: option.splits prod.splits)
    note lens = do_seal_length[OF ab rand small extra over rec]
    have "suffix_len = length suffix" "prefix_len = length prefix"
      using suffix_len lens(1,3) False by (simp_all add: tls_seal_scatter_suffix_len_def prefix_len_def tls_seal_scatter_prefix_len_def)
    moreover have "length suffix < 1000" "length prefix < 1000" using lens(1,4) over by (auto simp: record_extra_in_def split: if_splits)
    ultimately have n': "n = length prefix + length out + length suffix" using bound lens(2) by simp
    have at: "mem' = store_record out_at (out_at + length prefix) (out_at + length prefix + length out) (prefix, out, suffix) mem"
      using mem' \<open>prefix_len = length prefix\<close> lens(2) by simp
    show thesis using one[OF rec _ False] store_record_contiguous[where a = out_at and p = prefix and x = out and y = suffix and mem = mem] unfolding n' at by blast
  next
    case True
    obtain cipher where c: "map_option fst (sc_cipher ?a) = Some cipher" "write_cipher_split_len s = ssl_cipher_get_record_split_len cipher"
      "ssl_protocol_version s < TLS1_1_VERSION" "SSL_CIPHER_is_block_cipher cipher" and e: "record_extra_in type s = []" and "1 < ?in_len"
      by (rule splits_cipher[OF True])
    define tag where "tag = aead_tls_tag_len SHA_DIGEST_LENGTH True (cbc_block_size cipher)"
    note sfx = splittable_suffix[OF sp c(1,3,4), folded tag_def]
    obtain h1 x1 y1 s1 w1 k h2 x2 y2
      where rec1: "do_seal_record rand out_at (out_at + 5) (out_at + 5 + 1) type in_at (take 1 inp) s w = (Some (h1, x1, y1), s1, w1)"
        and k: "SuffixLen (aead_write_ctx s1) 1 0 = Some k"
        and rec2: "do_seal_record rand tmp (out_at + prefix_len + 1) (out_at + prefix_len + ?in_len) type (in_at + 1) (drop 1 inp) s1 w1 =
          (Some (h2, x2, y2), s', w')"
        and mem': "mem' = write_mem (out_at + prefix_len) (take 1 (drop 4 h2)) (write_mem (out_at + (5 + 1 + k)) (take 4 h2)
          (write_mem (out_at + prefix_len + ?in_len) y2 (write_mem (out_at + prefix_len + 1) x2 (store_record out_at (out_at + 5) (out_at + 5 + 1) (h1, x1, y1) mem))))"
      using run True unfolding tls_seal_scatter_record_def Let_def by (auto split: option.splits prod.splits)
    have l1: "length (take 1 inp) \<le> SSL3_RT_MAX_PLAIN_LENGTH" "length (drop 1 inp) \<le> SSL3_RT_MAX_PLAIN_LENGTH" "length (take 1 inp) = 1"
      using small \<open>1 < ?in_len\<close> by simp_all
    note lens1 = do_seal_length[OF ab rand l1(1) extra over rec1]
    obtain b' where b': "sc_paired paired (aead_write_ctx s1) b'" using lens1(5) by blast
    have v1: "ssl_protocol_version s1 < TLS1_1_VERSION" using lens1(8) c(3) by simp
    have e1: "record_extra_in type s1 = []" by (rule old_no_extra[OF v1])
    have over1: "MaxOverhead (aead_write_ctx s1) < 320" using lens1(6) over by simp
    note lens2 = do_seal_length[OF b' rand l1(2) disjI1[OF e1] over1 rec2]
    have c1: "map_option fst (sc_cipher (aead_write_ctx s1)) = Some cipher" using lens1(9) c(1) by simp
    have sp1: "splittable (ssl_protocol_version s1) (aead_write_ctx s1)" using sp lens1(8,10) by simp
    note sfx1 = splittable_suffix[OF sp1 c1 v1 c(4), folded tag_def]
    have y: "length y1 = tag 1 0" "k = tag 1 0" "length y2 = tag (?in_len - 1) 0" "suffix_len = tag (?in_len - 1) 0"
      using lens1(3) lens2(3) k suffix_len l1(3) sfx(2) sfx1(2) e e1 True by (simp_all add: tls_seal_scatter_suffix_len_def)
    have x: "length h1 = 5" "length x1 = 1" "length h2 = 5" "length x2 = ?in_len - 1"
      using lens1(1,2) lens2(1,2) l1(3) sfx(1) sfx1(1) by simp_all
    have p: "prefix_len = 5 + 1 + length y1 + 4"
      using True c(2) sfx(3) y(1) by (simp add: prefix_len_def tls_seal_scatter_prefix_len_def)
    have "length y1 < 500" "length y2 < 500" using lens1(4) lens2(4) over over1 e e1 by simp_all
    then have n': "n = 6 + length y1 + (5 + length x2 + length y2)" using bound p y(3,4) x(4) \<open>1 < ?in_len\<close> by simp
    have at: "mem' = write_mem (out_at + 5 + 1 + length y1 + 4) (take 1 (drop 4 h2)) (write_mem (out_at + (5 + 1 + length y1)) (take 4 h2)
        (write_mem (out_at + 5 + 1 + length y1 + 4 + 1 + length x2) y2 (write_mem (out_at + 5 + 1 + length y1 + 4 + 1) x2
          (store_record out_at (out_at + 5) (out_at + 5 + 1) (h1, x1, y1) mem))))"
      using mem' y(1,2) x(4) p \<open>1 < ?in_len\<close> by (simp add: ac_simps)
    show thesis using two[OF rec1 rec2 _ True] split_records_contiguous[OF x(1-3), where a = out_at and y = y1 and x' = x2 and y' = y2 and mem = mem] unfolding n' at by blast
  qed
qed

end

text \<open>
  \<open>flight r wire cs s\<close>: the receiver \<open>r\<close>, on the bytes \<open>wire\<close>, opens records with the contents \<open>cs\<close> one by one, and is
  then in step with the sender \<open>s\<close>. As long as a record is incomplete, it asks for more bytes.
\<close>

inductive flight ::
  "('c EVP_AEAD_CTX \<Rightarrow> 'c EVP_AEAD_CTX \<Rightarrow> bool) \<Rightarrow> ('c, 'z) ssl_rec_scheme \<Rightarrow> byte list \<Rightarrow> byte list list \<Rightarrow> ('c, 'y) ssl_rec_scheme \<Rightarrow> bool"
  for paired where
  landed: "synced paired s r \<Longrightarrow> receiving r \<Longrightarrow> flight paired r [] [] s"
| framed: "\<lbrakk>\<And>rest. tls_open_record (bs @ rest) r = (Record_success SSL3_RT_APPLICATION_DATA c, length bs, r');
    \<And>p z. bs = p @ z \<Longrightarrow> z \<noteq> [] \<Longrightarrow> \<exists>n. tls_open_record p r = (Record_partial, n, r) \<and> length p < n \<and> n \<le> length bs; bs \<noteq> [];
    flight paired r' wire cs s\<rbrakk> \<Longrightarrow> flight paired r (bs @ wire) (c # cs) s"

inductive_cases flight_Nil: "flight paired r [] cs s"
inductive_cases flight_NilE: "flight paired r wire [] s"

lemma flight_synced:
  fixes r :: "('c, 'z) ssl_rec_scheme"
  assumes "flight paired r wire cs s"
  shows "\<exists>r' :: ('c, 'z) ssl_rec_scheme. synced paired s r'"
  using assms by (induction rule: flight.induct) auto

context aead_pair
begin

lemma flight_one:
  assumes "synced paired s r" and "receiving r" and "rand_ok rand" and "inp \<noteq> []" and "length inp \<le> SSL3_RT_MAX_PLAIN_LENGTH"
    and "do_seal_record rand prefix_at out_at suffix_at SSL3_RT_APPLICATION_DATA in_at inp s w = (Some (prefix, out, suffix), s', w')"
  shows "flight paired r (prefix @ out @ suffix) [inp] s'"
proof -
  have "SSL3_RT_APPLICATION_DATA \<in> {SSL3_RT_HANDSHAKE, SSL3_RT_APPLICATION_DATA}" by simp
  then obtain r' where r': "\<And>rest. tls_open_record ((prefix @ out @ suffix) @ rest) r =
        (Record_success SSL3_RT_APPLICATION_DATA inp, length (prefix @ out @ suffix), r')"
      "\<And>p z. prefix @ out @ suffix = p @ z \<Longrightarrow> z \<noteq> [] \<Longrightarrow>
        \<exists>k. tls_open_record p r = (Record_partial, k, r) \<and> length p < k \<and> k \<le> length (prefix @ out @ suffix)"
      "synced paired s' r'" "receiving r'"
    using open_sealed[OF assms(1-3) _ assms(4-6)] by blast
  have "prefix \<noteq> []" using do_seal_record_cases[OF assms(6)] by (metis append_is_Nil_conv length_0_conv length_record_header zero_neq_numeral)
  then show ?thesis using flight.framed[OF r'(1,2) _ flight.landed[OF r'(3,4)]] by simp
qed

lemma flight_append:
  assumes "flight paired r wire cs s" and "rand_ok rand" and "inp \<noteq> []" and "length inp \<le> SSL3_RT_MAX_PLAIN_LENGTH"
    and "do_seal_record rand prefix_at out_at suffix_at SSL3_RT_APPLICATION_DATA in_at inp s w = (Some (prefix, out, suffix), s', w')"
  shows "flight paired r (wire @ prefix @ out @ suffix) (cs @ [inp]) s'"
  using assms(1,5)
proof (induction rule: flight.induct)
  case (landed s r)
  then show ?case using flight_one[OF landed(1,2) assms(2-4)] by simp
next
  case (framed bs r c r' wire cs s)
  then show ?case using flight.framed[OF framed(1-3) framed.IH] by simp
qed

lemma flight_sealed:
  fixes r :: "('c, 'z) ssl_rec_scheme"
  assumes "flight paired r wire cs s" and "rand_ok rand" and "inp \<noteq> []" and "length inp \<le> SSL3_RT_MAX_PLAIN_LENGTH"
    and seal: "tls_seal_record rand tmp mem out_at max_out SSL3_RT_APPLICATION_DATA in_at inp s w = (Some (n, mem'), s', w')"
  shows "\<exists>new. concat new = inp \<and> [] \<notin> set new \<and> flight paired r (wire @ bytes_at mem' out_at n) (cs @ new) s'"
proof -
  obtain r1 :: "('c, 'z) ssl_rec_scheme" where sync: "synced paired s r1" using flight_synced[OF assms(1)] by blast
  show ?thesis using sync assms(2,4) seal
  proof (cases rule: tls_seal_record_cases)
    case one
    then show ?thesis using flight_append[OF assms(1-4) one(1)] assms(3) by (intro exI[of _ "[inp]"]) simp
  next
    case (two body_at suffix_at prefix1 out1 suffix1 s1 w1 body2_at suffix2_at prefix2 out2 suffix2)
    have "take 1 inp \<noteq> []" "length (take 1 inp) \<le> SSL3_RT_MAX_PLAIN_LENGTH" "drop 1 inp \<noteq> []" "length (drop 1 inp) \<le> SSL3_RT_MAX_PLAIN_LENGTH"
      using assms(3,4) two(4) by (auto simp: splits_def)
    then have "flight paired r ((wire @ prefix1 @ out1 @ suffix1) @ prefix2 @ out2 @ suffix2) ((cs @ [take 1 inp]) @ [drop 1 inp]) s'"
      by (intro flight_append[OF flight_append[OF assms(1,2) _ _ two(1)] assms(2) _ _ two(2)])
    then show ?thesis using two(3) \<open>take 1 inp \<noteq> []\<close> \<open>drop 1 inp \<noteq> []\<close> by (intro exI[of _ "[take 1 inp, drop 1 inp]"]) simp
  qed
qed

end

subsection \<open>The connection\<close>

text \<open>
  \<open>channel s wire r sent got\<close> is reachable: the sender has sealed the data \<open>sent\<close>, the bytes \<open>wire\<close> are in flight and
  the receiver has opened records with the data \<open>got\<close>. The receiver sees only the bytes \<open>avail\<close> that have arrived.
\<close>

inductive channel ::
  "('c EVP_AEAD_CTX \<Rightarrow> 'c EVP_AEAD_CTX \<Rightarrow> bool) \<Rightarrow> 'w rand \<Rightarrow> ('c, 'y) ssl_rec_scheme \<Rightarrow> byte list \<Rightarrow> ('c, 'z) ssl_rec_scheme
   \<Rightarrow> byte list \<Rightarrow> byte list \<Rightarrow> bool"
  for paired RAND_bytes where
  established: "synced paired s r \<Longrightarrow> receiving r \<Longrightarrow> channel paired RAND_bytes s [] r [] []"
| sent: "\<lbrakk>channel paired RAND_bytes s wire r sent got; msg \<noteq> []; length msg \<le> SSL3_RT_MAX_PLAIN_LENGTH;
    tls_seal_record RAND_bytes tmp mem out_at max_out SSL3_RT_APPLICATION_DATA in_at msg s w = (Some (n, mem'), s', w')\<rbrakk>
    \<Longrightarrow> channel paired RAND_bytes s' (wire @ bytes_at mem' out_at n) r (sent @ msg) got"
| arrived: "\<lbrakk>channel paired RAND_bytes s (avail @ later) r sent got;
    tls_open_record avail r = (Record_success type msg, n, r')\<rbrakk>
    \<Longrightarrow> channel paired RAND_bytes s (drop n avail @ later) r' sent (got @ msg)"

text \<open>When a record opens on the bytes that have arrived, it is the next one in flight.\<close>

lemma flight_arrived:
  assumes "flight paired r (avail @ later) cs s" and "tls_open_record avail r = (Record_success type msg, n, r')"
  shows "\<exists>cs'. cs = msg # cs' \<and> flight paired r' (drop n avail @ later) cs' s \<and> type = SSL3_RT_APPLICATION_DATA \<and> n \<le> length avail"
  using assms(1)
proof cases
  case landed
  then have "avail = []" by simp
  then show ?thesis using assms(2) \<open>receiving r\<close> by (simp add: tls_open_record_def receiving_def get_record_header_def op_bind_def CBS_get_u8_def cbs_get_def)
next
  case (framed bs c r2 wire cs')
  show ?thesis
  proof (cases "length avail < length bs")
    case True
    then have "take (length avail) bs = avail" using arg_cong[OF framed(1), of "take (length avail)"] by simp
    then have "bs = avail @ drop (length avail) bs" by (metis append_take_drop_id)
    moreover have "drop (length avail) bs \<noteq> []" using True by simp
    ultimately show ?thesis using framed(4) assms(2) by fastforce
  next
    case False
    then have "take (length bs) avail = bs" and wire: "wire = drop (length bs) avail @ later"
      using arg_cong[OF framed(1), of "take (length bs)"] arg_cong[OF framed(1), of "drop (length bs)"] by simp_all
    then have avail: "avail = bs @ drop (length bs) avail" by (metis append_take_drop_id)
    have "tls_open_record avail r = (Record_success SSL3_RT_APPLICATION_DATA c, length bs, r2)"
      using framed(3)[of "drop (length bs) avail"] avail by simp
    then show ?thesis using assms(2) framed wire False by auto
  qed
qed

context aead_pair
begin

lemma channel_flight:
  assumes "channel paired rand s wire r sent got" and "rand_ok rand"
  shows "\<exists>cs. sent = got @ concat cs \<and> flight paired r wire cs s"
  using assms(1)
proof (induction rule: channel.induct)
  case (established s r)
  then show ?case using flight.landed by force
next
  case (sent s wire r sent got msg tmp mem out_at max_out in_at w n mem' s' w')
  then obtain cs new where "sent = got @ concat cs" "concat new = msg" "flight paired r (wire @ bytes_at mem' out_at n) (cs @ new) s'"
    using flight_sealed[OF _ assms(2) sent(2,3,4)] by blast
  then show ?case by (intro exI[of _ "cs @ new"]) simp
next
  case (arrived s avail later r sent got type msg n r')
  obtain cs where cs: "sent = got @ concat cs" and f: "flight paired r (avail @ later) cs s" using arrived.IH by blast
  obtain cs' where "cs = msg # cs'" "flight paired r' (drop n avail @ later) cs' s" using flight_arrived[OF f arrived(2)] by blast
  then show ?case using cs by auto
qed

end

end
