(* ===== verification/ChaCha.thy ===== *)
theory ChaCha
  imports Bytes
begin

text \<open>
  The stream cipher ChaCha20, \<open>crypto/chacha/chacha.cc\<close>, in the portable implementation (no \<open>CHACHA20_ASM_NOHW\<close>)
  on a little-endian machine.
  Shown: byte \<open>i\<close> of the output is byte \<open>i\<close> of the input combined with byte \<open>i\<close> of the key stream, so that encrypting is
  its own inverse and a message may be processed in pieces.
\<close>

subsection \<open>Little-endian words\<close>

definition CRYPTO_load_u32_le :: "byte list \<Rightarrow> uint32" where
  "CRYPTO_load_u32_le bs = foldr (\<lambda>b v. push_bit 8 v OR ucast b) (take 4 bs) 0"

definition CRYPTO_store_u32_le :: "uint32 \<Rightarrow> byte list" where
  "CRYPTO_store_u32_le v = map (\<lambda>i. ucast (drop_bit (8 * i) v)) [0..<4]"

definition CRYPTO_rotl_u32 :: "uint32 \<Rightarrow> nat \<Rightarrow> uint32" where
  "CRYPTO_rotl_u32 v shift = push_bit shift v OR drop_bit ((32 - shift) mod 32) v"

lemma length_store_u32 [simp]: "length (CRYPTO_store_u32_le v) = 4"
  by (simp add: CRYPTO_store_u32_le_def)

subsection \<open>The block function\<close>

definition sigma :: "byte list" where
  "sigma = [0x65, 0x78, 0x70, 0x61, 0x6e, 0x64, 0x20, 0x33, 0x32, 0x2d, 0x62, 0x79, 0x74, 0x65, 0x20, 0x6b]"

definition QUARTERROUND :: "nat \<Rightarrow> nat \<Rightarrow> nat \<Rightarrow> nat \<Rightarrow> uint32 list \<Rightarrow> uint32 list" where
  "QUARTERROUND a b c d x0 =
     (let x1 = x0[a := x0 ! a + x0 ! b];
          x2 = x1[d := CRYPTO_rotl_u32 (x1 ! d XOR x1 ! a) 16];
          x3 = x2[c := x2 ! c + x2 ! d];
          x4 = x3[b := CRYPTO_rotl_u32 (x3 ! b XOR x3 ! c) 12];
          x5 = x4[a := x4 ! a + x4 ! b];
          x6 = x5[d := CRYPTO_rotl_u32 (x5 ! d XOR x5 ! a) 8];
          x7 = x6[c := x6 ! c + x6 ! d]
      in x7[b := CRYPTO_rotl_u32 (x7 ! b XOR x7 ! c) 7])"

definition double_round :: "uint32 list \<Rightarrow> uint32 list" where
  "double_round x =
     QUARTERROUND 3 4 9 14 (QUARTERROUND 2 7 8 13 (QUARTERROUND 1 6 11 12 (QUARTERROUND 0 5 10 15
       (QUARTERROUND 3 7 11 15 (QUARTERROUND 2 6 10 14 (QUARTERROUND 1 5 9 13 (QUARTERROUND 0 4 8 12 x)))))))"

definition chacha_core :: "uint32 list \<Rightarrow> byte list" where
  "chacha_core input =
     (let x = (double_round ^^ 10) input in concat (map CRYPTO_store_u32_le (map2 (+) x input)))"

definition load_words :: "nat \<Rightarrow> byte list \<Rightarrow> uint32 list" where
  "load_words n bs = map (\<lambda>i. CRYPTO_load_u32_le (drop (4 * i) bs)) [0..<n]"

definition CRYPTO_hchacha20 :: "byte list \<Rightarrow> byte list \<Rightarrow> byte list" where
  "CRYPTO_hchacha20 key nonce =
     (let x = (double_round ^^ 10) (load_words 4 sigma @ load_words 8 key @ load_words 4 nonce)
      in concat (map CRYPTO_store_u32_le (take 4 x)) @ concat (map CRYPTO_store_u32_le (take 4 (drop 12 x))))"

subsection \<open>The cipher\<close>

definition chacha_input :: "byte list \<Rightarrow> byte list \<Rightarrow> uint32 \<Rightarrow> uint32 list" where
  "chacha_input key nonce counter = load_words 4 sigma @ load_words 8 key @ [counter] @ load_words 3 nonce"

function chacha_loop :: "uint32 list \<Rightarrow> byte list \<Rightarrow> byte list" where
  "chacha_loop input inp =
     (if length inp > 0 then
        let todo = (if length inp < 64 then length inp else 64); buf = chacha_core input
        in map2 (XOR) (take todo inp) (take todo buf) @ chacha_loop (input[12 := input ! 12 + 1]) (drop todo inp)
      else [])"
  by pat_completeness auto
termination by (relation "measure (\<lambda>(_, inp). length inp)") auto

declare chacha_loop.simps [simp del]

definition CRYPTO_chacha_20 :: "byte list \<Rightarrow> byte list \<Rightarrow> byte list \<Rightarrow> uint32 \<Rightarrow> byte list" where
  "CRYPTO_chacha_20 inp key nonce counter = chacha_loop (chacha_input key nonce counter) inp"

subsection \<open>The key stream\<close>

definition key_stream :: "byte list \<Rightarrow> byte list \<Rightarrow> uint32 \<Rightarrow> nat \<Rightarrow> byte" where
  "key_stream key nonce counter i = chacha_core (chacha_input key nonce (counter + of_nat (i div 64))) ! (i mod 64)"

lemma length_QUARTERROUND [simp]: "length (QUARTERROUND a b c d x) = length x"
  by (simp add: QUARTERROUND_def Let_def)

lemma length_double_round [simp]: "length (double_round x) = length x"
  by (simp add: double_round_def)

lemma length_double_rounds [simp]: "length ((double_round ^^ n) x) = length x"
  by (induction n) simp_all

lemma length_store_words: "length (concat (map CRYPTO_store_u32_le xs)) = 4 * length xs"
  by (induction xs) simp_all

lemma length_chacha_core: "length (chacha_core input) = 4 * length input"
  unfolding chacha_core_def Let_def length_store_words by simp

lemma length_chacha_input [simp]: "length (chacha_input key nonce counter) = 16"
  by (simp add: chacha_input_def load_words_def)

lemma chacha_input_next:
  "(chacha_input key nonce counter)[12 := chacha_input key nonce counter ! 12 + 1] = chacha_input key nonce (counter + 1)"
proof -
  have "length (load_words 4 sigma @ load_words 8 key) = 12" by (simp add: load_words_def)
  then show ?thesis unfolding chacha_input_def by (simp add: nth_append list_update_append load_words_def)
qed

lemma chacha_loop_stream:
  "chacha_loop (chacha_input key nonce counter) inp = map (\<lambda>i. inp ! i XOR key_stream key nonce counter i) [0..<length inp]"
proof (induction "length inp" arbitrary: inp counter rule: less_induct)
  case less
  show ?case
  proof (cases "inp = []")
    case False
    define todo where "todo = (if length inp < 64 then length inp else 64)"
    have todo: "0 < todo" "todo \<le> length inp" "todo \<le> 64" using False by (auto simp: todo_def)
    have run: "chacha_loop (chacha_input key nonce counter) inp =
        map2 (XOR) (take todo inp) (take todo (chacha_core (chacha_input key nonce counter))) @
        chacha_loop (chacha_input key nonce (counter + 1)) (drop todo inp)"
      using False by (subst chacha_loop.simps) (simp add: todo_def Let_def chacha_input_next)
    have first: "map2 (XOR) (take todo inp) (take todo (chacha_core (chacha_input key nonce counter))) =
        map (\<lambda>i. inp ! i XOR key_stream key nonce counter i) [0..<todo]"
      using todo by (intro nth_equalityI) (simp_all add: length_chacha_core key_stream_def)
    have next_block: "key_stream key nonce (counter + 1) i = key_stream key nonce counter (todo + i)" if "todo + i < length inp" for i
    proof -
      have "todo = 64" using that by (auto simp: todo_def split: if_splits)
      moreover have "(64 + i) div 64 = Suc (i div 64)" by simp
      ultimately show ?thesis unfolding key_stream_def by (simp only: of_nat_Suc add.assoc mod_add_self1)
    qed
    have "chacha_loop (chacha_input key nonce (counter + 1)) (drop todo inp) =
        map (\<lambda>i. drop todo inp ! i XOR key_stream key nonce (counter + 1) i) [0..<length (drop todo inp)]"
      using todo False by (intro less) simp
    also have "\<dots> = map (\<lambda>i. inp ! i XOR key_stream key nonce counter i) [todo..<length inp]"
      using todo next_block by (intro nth_equalityI) (simp_all add: add.commute)
    finally have rest: "chacha_loop (chacha_input key nonce (counter + 1)) (drop todo inp) =
        map (\<lambda>i. inp ! i XOR key_stream key nonce counter i) [todo..<length inp]" .
    have "[0..<length inp] = [0..<todo] @ [todo..<length inp]"
      using upt_add_eq_append[of 0 todo "length inp - todo"] todo(2) by simp
    then show ?thesis unfolding run first rest by simp
  qed (simp add: chacha_loop.simps)
qed

lemma chacha_20_stream:
  "CRYPTO_chacha_20 inp key nonce counter = map (\<lambda>i. inp ! i XOR key_stream key nonce counter i) [0..<length inp]"
  by (simp add: CRYPTO_chacha_20_def chacha_loop_stream)

lemma length_chacha_20 [simp]: "length (CRYPTO_chacha_20 inp key nonce counter) = length inp"
  by (simp add: chacha_20_stream)

text \<open>Encrypting twice gives the message back; the key stream of a message does not depend on the message.\<close>

lemma chacha_20_involution: "CRYPTO_chacha_20 (CRYPTO_chacha_20 inp key nonce counter) key nonce counter = inp"
  by (rule nth_equalityI) (simp_all add: chacha_20_stream xor.assoc)

lemma chacha_20_append:
  "CRYPTO_chacha_20 (as @ bs) key nonce counter =
     CRYPTO_chacha_20 as key nonce counter @ map (\<lambda>i. bs ! i XOR key_stream key nonce counter (length as + i)) [0..<length bs]"
  by (rule nth_equalityI) (auto simp: chacha_20_stream nth_append)

end
