(* ===== verification/Poly1305.thy ===== *)
theory Poly1305
  imports ChaCha
begin

text \<open>
  The one-time authenticator Poly1305, \<open>crypto/poly1305/poly1305.cc\<close>, the portable implementation on 32-bit limbs (no
  NEON, no 128-bit integers): the accumulator is kept in five limbs of 26 bits, at the widths of the C++ types, and the
  message is buffered into blocks of 16 bytes. The labels of \<open>poly1305_update\<close> are its recursion.
\<close>

type_synonym limbs = "uint32 \<times> uint32 \<times> uint32 \<times> uint32 \<times> uint32"

record poly1305_state_st =
  poly_r :: limbs
  poly_s :: "uint32 \<times> uint32 \<times> uint32 \<times> uint32"
  poly_h :: limbs
  poly_buf :: "byte list"
  poly_buf_used :: nat
  poly_key :: "byte list"

definition mul32x32_64 :: "uint32 \<Rightarrow> uint32 \<Rightarrow> uint64" where
  "mul32x32_64 a b = ucast a * ucast b"

text \<open>\<open>(((uint64_t)hi << 32) | lo) >> shift) & 0x3ffffff\<close>, added to a limb.\<close>

definition limb_at :: "uint32 \<Rightarrow> uint32 \<Rightarrow> nat \<Rightarrow> uint32" where
  "limb_at hi lo shift = ucast (drop_bit shift (push_bit 32 (ucast hi :: uint64) OR ucast lo) AND 0x3ffffff)"

text \<open>Adding 16 bytes to the accumulator, with the bit \<open>hibit\<close> above them.\<close>

definition poly_add :: "byte list \<Rightarrow> uint32 \<Rightarrow> limbs \<Rightarrow> limbs" where
  "poly_add m hibit = (\<lambda>(h0, h1, h2, h3, h4).
     let t0 = CRYPTO_load_u32_le m; t1 = CRYPTO_load_u32_le (drop 4 m);
         t2 = CRYPTO_load_u32_le (drop 8 m); t3 = CRYPTO_load_u32_le (drop 12 m)
     in (h0 + (t0 AND 0x3ffffff), h1 + limb_at t1 t0 26, h2 + limb_at t2 t1 20, h3 + limb_at t3 t2 14,
         h4 + (drop_bit 8 t3 OR hibit)))"

text \<open>The part after \<open>poly1305_donna_mul\<close>.\<close>

definition poly_mul :: "limbs \<Rightarrow> uint32 \<times> uint32 \<times> uint32 \<times> uint32 \<Rightarrow> limbs \<Rightarrow> limbs" where
  "poly_mul = (\<lambda>(r0, r1, r2, r3, r4) (s1, s2, s3, s4) (h0, h1, h2, h3, h4).
     let m = mul32x32_64;
         t0 = m h0 r0 + m h1 s4 + m h2 s3 + m h3 s2 + m h4 s1;
         t1 = m h0 r1 + m h1 r0 + m h2 s4 + m h3 s3 + m h4 s2;
         t2 = m h0 r2 + m h1 r1 + m h2 r0 + m h3 s4 + m h4 s3;
         t3 = m h0 r3 + m h1 r2 + m h2 r1 + m h3 r0 + m h4 s4;
         t4 = m h0 r4 + m h1 r3 + m h2 r2 + m h3 r1 + m h4 r0;
         c = drop_bit 26 t0;
         u1 = t1 + c; b1 = ucast (drop_bit 26 u1) :: uint32;
         u2 = t2 + ucast b1; b2 = ucast (drop_bit 26 u2) :: uint32;
         u3 = t3 + ucast b2; b3 = ucast (drop_bit 26 u3) :: uint32;
         u4 = t4 + ucast b3; b4 = ucast (drop_bit 26 u4) :: uint32
     in ((ucast t0 AND 0x3ffffff) + b4 * 5, ucast u1 AND 0x3ffffff, ucast u2 AND 0x3ffffff, ucast u3 AND 0x3ffffff,
         ucast u4 AND 0x3ffffff))"

definition poly_absorb :: "byte list \<Rightarrow> uint32 \<Rightarrow> poly1305_state_st \<Rightarrow> poly1305_state_st" where
  "poly_absorb m hibit st = st\<lparr>poly_h := poly_mul (poly_r st) (poly_s st) (poly_add m hibit (poly_h st))\<rparr>"

function poly1305_update :: "byte list \<Rightarrow> poly1305_state_st \<Rightarrow> poly1305_state_st" where
  "poly1305_update inp st =
     (if length inp \<ge> 16 then poly1305_update (drop 16 inp) (poly_absorb (take 16 inp) (push_bit 24 1) st)
      else if length inp = 0 then st
      else poly_absorb (inp @ [1] @ replicate (15 - length inp) 0) 0 st)"
  by pat_completeness auto
termination by (relation "measure (\<lambda>(inp, _). length inp)") auto

declare poly1305_update.simps [simp del]

definition CRYPTO_poly1305_init :: "byte list \<Rightarrow> poly1305_state_st" where
  "CRYPTO_poly1305_init key =
     (let t0 = CRYPTO_load_u32_le key; t1 = CRYPTO_load_u32_le (drop 4 key);
          t2 = CRYPTO_load_u32_le (drop 8 key); t3 = CRYPTO_load_u32_le (drop 12 key);
          r0 = t0 AND 0x3ffffff;
          r1 = (drop_bit 26 t0 OR push_bit 6 t1) AND 0x3ffff03;
          r2 = (drop_bit 20 t1 OR push_bit 12 t2) AND 0x3ffc0ff;
          r3 = (drop_bit 14 t2 OR push_bit 18 t3) AND 0x3f03fff;
          r4 = drop_bit 8 t3 AND 0x00fffff
      in \<lparr>poly_r = (r0, r1, r2, r3, r4), poly_s = (r1 * 5, r2 * 5, r3 * 5, r4 * 5), poly_h = (0, 0, 0, 0, 0),
          poly_buf = [], poly_buf_used = 0, poly_key = take 16 (drop 16 key)\<rparr>)"

text \<open>
  The buffer is filled up first, then the whole blocks are absorbed, then the rest is buffered. \<open>poly_buf\<close> is the
  part of \<open>buf\<close> before \<open>buf_used\<close>; what lies behind it is never read.
\<close>

definition poly_fill :: "byte list \<Rightarrow> poly1305_state_st \<Rightarrow> byte list \<times> poly1305_state_st" where
  "poly_fill inp st =
     (if poly_buf_used st \<noteq> 0 then
        let todo = min (16 - poly_buf_used st) (length inp);
            st1 = st\<lparr>poly_buf := poly_buf st @ take todo inp, poly_buf_used := poly_buf_used st + todo\<rparr>
        in (drop todo inp,
            if poly_buf_used st1 = 16 then (poly1305_update (poly_buf st1) st1)\<lparr>poly_buf := [], poly_buf_used := 0\<rparr> else st1)
      else (inp, st))"

definition poly_blocks :: "byte list \<Rightarrow> poly1305_state_st \<Rightarrow> poly1305_state_st" where
  "poly_blocks inp0 st0 =
     (let todo = length inp0 - length inp0 mod 16;
          (inp, st) = (if length inp0 \<ge> 16 then (drop todo inp0, poly1305_update (take todo inp0) st0) else (inp0, st0))
      in if length inp \<noteq> 0 then st\<lparr>poly_buf := inp, poly_buf_used := length inp\<rparr> else st)"

definition CRYPTO_poly1305_update :: "byte list \<Rightarrow> poly1305_state_st \<Rightarrow> poly1305_state_st" where
  "CRYPTO_poly1305_update inp st =
     (if length inp = 0 then st else case poly_fill inp st of (inp1, st1) \<Rightarrow> poly_blocks inp1 st1)"

definition poly_carry :: "limbs \<Rightarrow> limbs" where
  "poly_carry = (\<lambda>(h0, h1, h2, h3, h4).
     let k1 = h1 + drop_bit 26 h0; k2 = h2 + drop_bit 26 k1; k3 = h3 + drop_bit 26 k2; k4 = h4 + drop_bit 26 k3
     in ((h0 AND 0x3ffffff) + drop_bit 26 k4 * 5, k1 AND 0x3ffffff, k2 AND 0x3ffffff, k3 AND 0x3ffffff, k4 AND 0x3ffffff))"

text \<open>The accumulator minus \<open>2 ^ 130 - 5\<close>, if that is not negative, chosen by the masks \<open>b\<close> and \<open>nb\<close>.\<close>

definition poly_select :: "limbs \<Rightarrow> limbs" where
  "poly_select = (\<lambda>(h0, h1, h2, h3, h4).
     let g0 = h0 + 5; g1 = h1 + drop_bit 26 g0; g2 = h2 + drop_bit 26 g1; g3 = h3 + drop_bit 26 g2;
         g4 = h4 + drop_bit 26 g3 - push_bit 26 1;
         b = drop_bit 31 g4 - 1; nb = NOT b
     in ((h0 AND nb) OR ((g0 AND 0x3ffffff) AND b), (h1 AND nb) OR ((g1 AND 0x3ffffff) AND b),
         (h2 AND nb) OR ((g2 AND 0x3ffffff) AND b), (h3 AND nb) OR ((g3 AND 0x3ffffff) AND b), (h4 AND nb) OR (g4 AND b)))"

definition poly_tag :: "byte list \<Rightarrow> limbs \<Rightarrow> byte list" where
  "poly_tag key = (\<lambda>(h0, h1, h2, h3, h4).
     let f0 = ucast (h0 OR push_bit 26 h1) + ucast (CRYPTO_load_u32_le key) :: uint64;
         f1 = ucast (drop_bit 6 h1 OR push_bit 20 h2) + ucast (CRYPTO_load_u32_le (drop 4 key)) + drop_bit 32 f0 :: uint64;
         f2 = ucast (drop_bit 12 h2 OR push_bit 14 h3) + ucast (CRYPTO_load_u32_le (drop 8 key)) + drop_bit 32 f1 :: uint64;
         f3 = ucast (drop_bit 18 h3 OR push_bit 8 h4) + ucast (CRYPTO_load_u32_le (drop 12 key)) + drop_bit 32 f2 :: uint64
     in CRYPTO_store_u32_le (ucast f0) @ CRYPTO_store_u32_le (ucast f1) @ CRYPTO_store_u32_le (ucast f2) @
        CRYPTO_store_u32_le (ucast f3))"

definition CRYPTO_poly1305_finish :: "poly1305_state_st \<Rightarrow> byte list" where
  "CRYPTO_poly1305_finish st =
     (let st1 = (if poly_buf_used st \<noteq> 0 then poly1305_update (poly_buf st) st else st)
      in poly_tag (poly_key st1) (poly_select (poly_carry (poly_h st1))))"

end
