(* ===== verification/Poly1305_Props.thy ===== *)
theory Poly1305_Props
  imports Poly1305
begin

text \<open>
  Poly1305 against its definition: a message is evaluated as a polynomial modulo \<open>2 ^ 130 - 5\<close>. The limbs never
  overflow, the buffering does not show, and the tag is the defined one except for a few values of the accumulator, for
  which the last carry of the implementation is lost.
\<close>

abbreviation (input) "P1305 \<equiv> (2 ^ 130 - 5 :: nat)"

subsection \<open>Arithmetic on limbs\<close>

definition val5 :: "nat \<Rightarrow> nat \<Rightarrow> nat \<Rightarrow> nat \<Rightarrow> nat \<Rightarrow> nat" where
  "val5 a b c d e = a + 2 ^ 26 * b + 2 ^ 52 * c + 2 ^ 78 * d + 2 ^ 104 * e"

lemma mod_div_26: "(x :: nat) = x mod 2 ^ 26 + 2 ^ 26 * (x div 2 ^ 26)"
  by simp

text \<open>Multiplication modulo \<open>2 ^ 130 - 5\<close>: the products above the fifth limb return at the bottom, times 5.\<close>

lemma val5_mult:
  "val5 h0 h1 h2 h3 h4 * val5 r0 r1 r2 r3 r4 =
     val5 (h0 * r0 + h1 * (5 * r4) + h2 * (5 * r3) + h3 * (5 * r2) + h4 * (5 * r1))
       (h0 * r1 + h1 * r0 + h2 * (5 * r4) + h3 * (5 * r3) + h4 * (5 * r2))
       (h0 * r2 + h1 * r1 + h2 * r0 + h3 * (5 * r4) + h4 * (5 * r3))
       (h0 * r3 + h1 * r2 + h2 * r1 + h3 * r0 + h4 * (5 * r4))
       (h0 * r4 + h1 * r3 + h2 * r2 + h3 * r1 + h4 * r0) +
     P1305 * (h1 * r4 + h2 * r3 + h3 * r2 + h4 * r1 + 2 ^ 26 * (h2 * r4 + h3 * r3 + h4 * r2) +
       2 ^ 52 * (h3 * r4 + h4 * r3) + 2 ^ 78 * (h4 * r4))"
  by (simp add: val5_def algebra_simps)

text \<open>One pass of carries, the last one returning at the bottom.\<close>

lemma val5_carry:
  assumes "t0 = l0 + 2 ^ 26 * c0" "t1 + c0 = l1 + 2 ^ 26 * c1" "t2 + c1 = l2 + 2 ^ 26 * c2" "t3 + c2 = l3 + 2 ^ 26 * c3" "t4 + c3 = l4 + 2 ^ 26 * c4"
  shows "val5 t0 t1 t2 t3 t4 = val5 (l0 + 5 * c4) l1 l2 l3 l4 + P1305 * c4"
  using assms unfolding val5_def by simp

subsection \<open>Words\<close>

lemma unat_uint32_lt: "unat (v :: uint32) < 2 ^ 32"
  using unsigned_less[of v, where ?'a = nat] by simp

lemma unat_ucast_64 [simp]: "unat (ucast (v :: uint32) :: uint64) = unat v"
  by (simp add: unsigned_ucast_eq take_bit_nat_eq_self order_less_le_trans[OF unat_uint32_lt])

lemma unat_ucast_32: "unat (ucast (v :: uint64) :: uint32) = unat v mod 2 ^ 32"
  by (simp add: unsigned_ucast_eq take_bit_eq_mod)

lemma unat_and_limb: "unat ((v :: uint32) AND 0x3ffffff) = unat v mod 2 ^ 26"
  using unat_and_mask[of v 26] by (simp add: mask_eq_exp_minus_1)

lemma unat_mul32: "unat (mul32x32_64 a b) = unat a * unat b"
proof -
  have "unat a * unat b < 2 ^ 32 * 2 ^ 32" using unat_uint32_lt[of a] unat_uint32_lt[of b] by (intro mult_strict_mono) simp_all
  then show ?thesis unfolding mul32x32_64_def unat_word_ariths unat_ucast_64 by simp
qed

lemma unat_add64: "unat (a :: uint64) + unat b < 2 ^ 64 \<Longrightarrow> unat (a + b) = unat a + unat b"
  by (simp add: unat_word_ariths)

lemma unat_add32: "unat (a :: uint32) + unat b < 2 ^ 32 \<Longrightarrow> unat (a + b) = unat a + unat b"
  by (simp add: unat_word_ariths)

lemma unat_mul5: "5 * unat (a :: uint32) < 2 ^ 32 \<Longrightarrow> unat (a * 5) = 5 * unat a"
  by (simp add: unat_word_ariths)

lemma unat_add5:
  assumes "unat (a :: uint64) + unat b + unat c + unat d + unat e < 2 ^ 64"
  shows "unat (a + b + c + d + e) = unat a + unat b + unat c + unat d + unat e"
  using assms by (simp add: unat_add64)

text \<open>The low limb and the carry of a 64-bit sum.\<close>

lemma limb_and_carry:
  assumes "unat (t :: uint64) < 2 ^ 58"
  shows "unat (ucast t AND 0x3ffffff :: uint32) = unat t mod 2 ^ 26" and "unat (ucast (drop_bit 26 t) :: uint32) = unat t div 2 ^ 26"
proof -
  have "(2 :: nat) ^ 26 dvd 2 ^ 32" by (intro le_imp_power_dvd) simp
  then show "unat (ucast t AND 0x3ffffff :: uint32) = unat t mod 2 ^ 26"
    unfolding unat_and_limb unat_ucast_32 by (rule mod_mod_cancel)
  have "unat t div 2 ^ 26 < 2 ^ 32" using assms by (simp add: div_less_iff_less_mult)
  then show "unat (ucast (drop_bit 26 t) :: uint32) = unat t div 2 ^ 26"
    unfolding unat_ucast_32 unat_drop_bit by (rule mod_less)
qed

lemma carry_into:
  assumes "unat (u :: uint64) < 2 ^ 58" and "unat (t :: uint64) < 63 * 2 ^ 52"
  shows "unat (t + ucast (ucast (drop_bit 26 u) :: uint32)) = unat t + unat u div 2 ^ 26"
    and "unat (t + ucast (ucast (drop_bit 26 u) :: uint32)) < 2 ^ 58"
proof -
  have "unat u div 2 ^ 26 < 2 ^ 32" using assms(1) by (simp add: div_less_iff_less_mult)
  then show "unat (t + ucast (ucast (drop_bit 26 u) :: uint32)) = unat t + unat u div 2 ^ 26"
      "unat (t + ucast (ucast (drop_bit 26 u) :: uint32)) < 2 ^ 58"
    using assms(2) limb_and_carry(2)[OF assms(1)] by (subst unat_add64; simp)+
qed

subsection \<open>Multiplication\<close>

definition limbs_val :: "limbs \<Rightarrow> nat" where
  "limbs_val = (\<lambda>(a, b, c, d, e). val5 (unat a) (unat b) (unat c) (unat d) (unat e))"

text \<open>The clamped multiplier, the accumulator after a multiplication and after a block was added to it.\<close>

definition r_ok :: "limbs \<Rightarrow> bool" where
  "r_ok = (\<lambda>(a, b, c, d, e). unat a < 2 ^ 26 \<and> unat b < 2 ^ 26 \<and> unat c < 2 ^ 26 \<and> unat d < 2 ^ 26 \<and> unat e < 2 ^ 20)"

definition h_ok :: "limbs \<Rightarrow> bool" where
  "h_ok = (\<lambda>(a, b, c, d, e). unat a < 42 * 2 ^ 26 \<and> unat b < 2 ^ 26 \<and> unat c < 2 ^ 26 \<and> unat d < 2 ^ 26 \<and> unat e < 2 ^ 26)"

definition sum_ok :: "limbs \<Rightarrow> bool" where
  "sum_ok = (\<lambda>(a, b, c, d, e). unat a < 43 * 2 ^ 26 \<and> unat b < 2 ^ 27 \<and> unat c < 2 ^ 27 \<and> unat d < 2 ^ 27 \<and> unat e < 3 * 2 ^ 25)"

definition times5 :: "limbs \<Rightarrow> uint32 \<times> uint32 \<times> uint32 \<times> uint32" where
  "times5 = (\<lambda>(r0, r1, r2, r3, r4). (r1 * 5, r2 * 5, r3 * 5, r4 * 5))"

lemma product_bounds:
  fixes h0 h1 h2 h3 h4 r0 r1 r2 r3 r4 :: nat
  assumes "h0 < 43 * 2 ^ 26" "h1 < 2 ^ 27" "h2 < 2 ^ 27" "h3 < 2 ^ 27" "h4 < 3 * 2 ^ 25"
    "r0 < 2 ^ 26" "r1 < 2 ^ 26" "r2 < 2 ^ 26" "r3 < 2 ^ 26" "r4 < 2 ^ 20"
  shows "h0 * r0 + h1 * (5 * r4) + h2 * (5 * r3) + h3 * (5 * r2) + h4 * (5 * r1) < 72 * 2 ^ 52"
    "h0 * r1 + h1 * r0 + h2 * (5 * r4) + h3 * (5 * r3) + h4 * (5 * r2) < 63 * 2 ^ 52"
    "h0 * r2 + h1 * r1 + h2 * r0 + h3 * (5 * r4) + h4 * (5 * r3) < 63 * 2 ^ 52"
    "h0 * r3 + h1 * r2 + h2 * r1 + h3 * r0 + h4 * (5 * r4) < 63 * 2 ^ 52"
    "5 * (h0 * r4 + h1 * r3 + h2 * r2 + h3 * r1 + h4 * r0) + 2 ^ 40 < 41 * 2 ^ 52"
proof -
  note h = assms(1-5)[THEN less_imp_le] and r = assms(6-10)[THEN less_imp_le]
  have r5: "5 * r1 \<le> 5 * 2 ^ 26" "5 * r2 \<le> 5 * 2 ^ 26" "5 * r3 \<le> 5 * 2 ^ 26" "5 * r4 \<le> 5 * 2 ^ 20" using r by simp_all
  note m = mult_le_mono
  show "h0 * r0 + h1 * (5 * r4) + h2 * (5 * r3) + h3 * (5 * r2) + h4 * (5 * r1) < 72 * 2 ^ 52"
    using m[OF h(1) r(1)] m[OF h(2) r5(4)] m[OF h(3) r5(3)] m[OF h(4) r5(2)] m[OF h(5) r5(1)] by simp
  show "h0 * r1 + h1 * r0 + h2 * (5 * r4) + h3 * (5 * r3) + h4 * (5 * r2) < 63 * 2 ^ 52"
    using m[OF h(1) r(2)] m[OF h(2) r(1)] m[OF h(3) r5(4)] m[OF h(4) r5(3)] m[OF h(5) r5(2)] by simp
  show "h0 * r2 + h1 * r1 + h2 * r0 + h3 * (5 * r4) + h4 * (5 * r3) < 63 * 2 ^ 52"
    using m[OF h(1) r(3)] m[OF h(2) r(2)] m[OF h(3) r(1)] m[OF h(4) r5(4)] m[OF h(5) r5(3)] by simp
  show "h0 * r3 + h1 * r2 + h2 * r1 + h3 * r0 + h4 * (5 * r4) < 63 * 2 ^ 52"
    using m[OF h(1) r(4)] m[OF h(2) r(3)] m[OF h(3) r(2)] m[OF h(4) r(1)] m[OF h(5) r5(4)] by simp
  show "5 * (h0 * r4 + h1 * r3 + h2 * r2 + h3 * r1 + h4 * r0) + 2 ^ 40 < 41 * 2 ^ 52"
    using m[OF h(1) r(5)] m[OF h(2) r(4)] m[OF h(3) r(3)] m[OF h(4) r(2)] m[OF h(5) r(1)] by simp
qed

text \<open>No sum of products and no carry overflows, and the result is the product modulo \<open>2 ^ 130 - 5\<close>.\<close>

lemma poly_mul_correct:
  assumes "sum_ok h" and "r_ok r"
  shows "h_ok (poly_mul r (times5 r) h) \<and> (\<exists>q. limbs_val h * limbs_val r = limbs_val (poly_mul r (times5 r) h) + P1305 * q)"
proof -
  obtain h0 h1 h2 h3 h4 where h: "h = (h0, h1, h2, h3, h4)" by (cases h)
  obtain r0 r1 r2 r3 r4 where r: "r = (r0, r1, r2, r3, r4)" by (cases r)
  have hb: "unat h0 < 43 * 2 ^ 26" "unat h1 < 2 ^ 27" "unat h2 < 2 ^ 27" "unat h3 < 2 ^ 27" "unat h4 < 3 * 2 ^ 25"
    and rb: "unat r0 < 2 ^ 26" "unat r1 < 2 ^ 26" "unat r2 < 2 ^ 26" "unat r3 < 2 ^ 26" "unat r4 < 2 ^ 20"
    using assms by (simp_all add: sum_ok_def r_ok_def h r)
  have s: "unat (r1 * 5) = 5 * unat r1" "unat (r2 * 5) = 5 * unat r2" "unat (r3 * 5) = 5 * unat r3" "unat (r4 * 5) = 5 * unat r4"
    using rb by (simp_all add: unat_mul5)
  let ?m = mul32x32_64
  define t0 where "t0 = ?m h0 r0 + ?m h1 (r4 * 5) + ?m h2 (r3 * 5) + ?m h3 (r2 * 5) + ?m h4 (r1 * 5)"
  define t1 where "t1 = ?m h0 r1 + ?m h1 r0 + ?m h2 (r4 * 5) + ?m h3 (r3 * 5) + ?m h4 (r2 * 5)"
  define t2 where "t2 = ?m h0 r2 + ?m h1 r1 + ?m h2 r0 + ?m h3 (r4 * 5) + ?m h4 (r3 * 5)"
  define t3 where "t3 = ?m h0 r3 + ?m h1 r2 + ?m h2 r1 + ?m h3 r0 + ?m h4 (r4 * 5)"
  define t4 where "t4 = ?m h0 r4 + ?m h1 r3 + ?m h2 r2 + ?m h3 r1 + ?m h4 r0"
  note bounds = product_bounds[OF hb rb]
  note sums = unat_mul32 s
  have T0: "unat t0 = unat h0 * unat r0 + unat h1 * (5 * unat r4) + unat h2 * (5 * unat r3) + unat h3 * (5 * unat r2) + unat h4 * (5 * unat r1)"
    unfolding t0_def using bounds(1) by (subst unat_add5; simp add: sums)
  have T1: "unat t1 = unat h0 * unat r1 + unat h1 * unat r0 + unat h2 * (5 * unat r4) + unat h3 * (5 * unat r3) + unat h4 * (5 * unat r2)"
    unfolding t1_def using bounds(2) by (subst unat_add5; simp add: sums)
  have T2: "unat t2 = unat h0 * unat r2 + unat h1 * unat r1 + unat h2 * unat r0 + unat h3 * (5 * unat r4) + unat h4 * (5 * unat r3)"
    unfolding t2_def using bounds(3) by (subst unat_add5; simp add: sums)
  have T3: "unat t3 = unat h0 * unat r3 + unat h1 * unat r2 + unat h2 * unat r1 + unat h3 * unat r0 + unat h4 * (5 * unat r4)"
    unfolding t3_def using bounds(4) by (subst unat_add5; simp add: sums)
  have T4: "unat t4 = unat h0 * unat r4 + unat h1 * unat r3 + unat h2 * unat r2 + unat h3 * unat r1 + unat h4 * unat r0"
    unfolding t4_def using bounds(5) by (subst unat_add5; simp add: sums)
  have b0: "unat t0 < 72 * 2 ^ 52" and b1: "unat t1 < 63 * 2 ^ 52" and b2: "unat t2 < 63 * 2 ^ 52" and b3: "unat t3 < 63 * 2 ^ 52"
    and b4: "5 * unat t4 + 2 ^ 40 < 41 * 2 ^ 52"
    using bounds unfolding T0 T1 T2 T3 T4 by blast+
  have low: "unat (ucast t0 AND 0x3ffffff :: uint32) = unat t0 mod 2 ^ 26"
    unfolding unat_and_limb unat_ucast_32 by (rule mod_mod_cancel) (intro le_imp_power_dvd, simp)
  define u1 where "u1 = t1 + drop_bit 26 t0"
  have "unat (drop_bit 26 t0) < 72 * 2 ^ 26" unfolding unat_drop_bit using b0 by (simp add: div_less_iff_less_mult)
  then have u1: "unat u1 = unat t1 + unat t0 div 2 ^ 26" and "unat u1 < 2 ^ 58" unfolding u1_def
    using b1 by (subst unat_add64; simp add: unat_drop_bit)+
  define u2 where "u2 = t2 + ucast (ucast (drop_bit 26 u1) :: uint32)"
  note u2 = carry_into[OF \<open>unat u1 < 2 ^ 58\<close> b2, folded u2_def]
  define u3 where "u3 = t3 + ucast (ucast (drop_bit 26 u2) :: uint32)"
  note u3 = carry_into[OF u2(2) b3, folded u3_def]
  define u4 where "u4 = t4 + ucast (ucast (drop_bit 26 u3) :: uint32)"
  have "unat t4 < 63 * 2 ^ 52" using b4 by simp
  note u4 = carry_into[OF u3(2) this, folded u4_def]
  note l1 = limb_and_carry[OF \<open>unat u1 < 2 ^ 58\<close>] and l2 = limb_and_carry[OF u2(2)] and l3 = limb_and_carry[OF u3(2)]
    and l4 = limb_and_carry[OF u4(2)]
  define k0 where "k0 = (ucast t0 AND 0x3ffffff) + ucast (drop_bit 26 u4) * (5 :: uint32)"
  have "unat u3 div 2 ^ 26 < 2 ^ 32" using u3(2) by (simp add: div_less_iff_less_mult)
  then have "5 * unat u4 < 41 * 2 ^ 52" using b4 u4(1) by simp
  then have top: "5 * (unat u4 div 2 ^ 26) < 41 * 2 ^ 26" by simp
  have "unat (ucast (drop_bit 26 u4) * (5 :: uint32)) = 5 * (unat u4 div 2 ^ 26)"
    using top l4(2) by (subst unat_mul5) simp_all
  then have k0: "unat k0 = unat t0 mod 2 ^ 26 + 5 * (unat u4 div 2 ^ 26)" "unat k0 < 42 * 2 ^ 26"
    unfolding k0_def using top low mod_less_divisor[of "2 ^ 26" "unat t0"] by (subst unat_add32; simp)+
  have result: "poly_mul r (times5 r) h = (k0, ucast u1 AND 0x3ffffff, ucast u2 AND 0x3ffffff, ucast u3 AND 0x3ffffff, ucast u4 AND 0x3ffffff)"
    unfolding poly_mul_def times5_def h r Let_def prod.case k0_def u4_def u3_def u2_def u1_def t0_def t1_def t2_def t3_def t4_def by (rule refl)
  have carried: "val5 (unat t0) (unat t1) (unat t2) (unat t3) (unat t4) =
      val5 (unat t0 mod 2 ^ 26 + 5 * (unat u4 div 2 ^ 26)) (unat u1 mod 2 ^ 26) (unat u2 mod 2 ^ 26) (unat u3 mod 2 ^ 26) (unat u4 mod 2 ^ 26) +
      P1305 * (unat u4 div 2 ^ 26)"
    by (rule val5_carry[where ?c0.0 = "unat t0 div 2 ^ 26" and ?c1.0 = "unat u1 div 2 ^ 26" and ?c2.0 = "unat u2 div 2 ^ 26" and ?c3.0 = "unat u3 div 2 ^ 26"])
      (use u1 u2(1) u3(1) u4(1) in simp_all)
  have "h_ok (poly_mul r (times5 r) h)" unfolding result using k0 l1 l2 l3 l4 by (simp add: h_ok_def)
  moreover have "limbs_val (poly_mul r (times5 r) h) =
      val5 (unat t0 mod 2 ^ 26 + 5 * (unat u4 div 2 ^ 26)) (unat u1 mod 2 ^ 26) (unat u2 mod 2 ^ 26) (unat u3 mod 2 ^ 26) (unat u4 mod 2 ^ 26)"
    unfolding result limbs_val_def prod.case k0 l1 l2 l3 l4 by (rule refl)
  moreover have "\<exists>q. limbs_val h * limbs_val r = val5 (unat t0) (unat t1) (unat t2) (unat t3) (unat t4) + P1305 * q"
    unfolding limbs_val_def h r prod.case val5_mult T0 T1 T2 T3 T4 by (rule exI, rule refl)
  then obtain q where "limbs_val h * limbs_val r = val5 (unat t0) (unat t1) (unat t2) (unat t3) (unat t4) + P1305 * q" by blast
  ultimately have "limbs_val h * limbs_val r = limbs_val (poly_mul r (times5 r) h) + P1305 * (unat u4 div 2 ^ 26 + q)"
    unfolding carried by (simp only: distrib_left add.assoc)
  then show ?thesis using \<open>h_ok (poly_mul r (times5 r) h)\<close> by blast
qed

subsection \<open>Adding a block\<close>

definition le_val :: "byte list \<Rightarrow> nat" where
  "le_val bs = be_val (rev bs)"

lemma le_val_Nil [simp]: "le_val [] = 0"
  by (simp add: le_val_def)

lemma le_val_Cons [simp]: "le_val (b # bs) = unat b + 256 * le_val bs"
  by (simp add: le_val_def)

lemma le_val_append: "le_val (as @ bs) = le_val as + 256 ^ length as * le_val bs"
  by (induction as) simp_all

lemma le_val_zeros [simp]: "le_val (replicate n 0) = 0"
  by (induction n) simp_all

lemma le_val_bound: "le_val bs < 256 ^ length bs"
  using be_val_bound[of "rev bs"] by (simp add: le_val_def)

lemma unat_or_add: "(a :: 'a::len word) AND b = 0 \<Longrightarrow> unat (a OR b) = unat a + unat b"
proof -
  assume d: "a AND b = 0"
  have "unat (a OR b) = unat (a + b)" using d by (simp add: disjunctive_add_eq_or)
  moreover have "unat a AND unat b = unat (a AND b)" by (simp add: unsigned_and_eq)
  then have "unat a + unat b = unat a OR unat b" using d by (simp add: disjunctive_add_eq_or)
  then have "unat a + unat b = unat (a OR b)" by (simp add: unsigned_or_eq)
  ultimately show ?thesis by simp
qed

lemma low_high_disjoint:
  assumes "unat (lo :: 'a::len word) < 2 ^ n"
  shows "lo AND push_bit n hi = 0"
proof (rule bit_word_eqI)
  fix k assume "k < LENGTH('a)"
  have "\<not> bit lo k" if "n \<le> k"
  proof -
    have "drop_bit n lo = 0" using assms by (simp add: drop_bit_eq_0_iff)
    then have "\<not> bit (drop_bit n lo) (k - n)" by simp
    then show ?thesis using that by (simp add: bit_drop_bit_eq)
  qed
  then show "bit (lo AND push_bit n hi) k = bit 0 k" by (auto simp: bit_and_iff bit_push_bit_iff)
qed

lemma unat_join:
  assumes "unat (lo :: 'a::len word) < 2 ^ n"
  shows "unat (lo OR push_bit n hi) = unat lo + unat (push_bit n hi)"
  by (rule unat_or_add[OF low_high_disjoint[OF assms]])

lemma unat_push_bit: "unat (push_bit n (w :: 'a::len word)) = (2 ^ n * unat w) mod 2 ^ LENGTH('a)"
  unfolding unsigned_push_bit_eq unfolding take_bit_eq_mod push_bit_eq_mult by (simp only: mult.commute)

lemma unat_load_fold:
  "length bs \<le> 4 \<Longrightarrow> unat (foldr (\<lambda>b v. push_bit 8 v OR ucast b) bs (0 :: uint32)) = le_val bs"
proof (induction bs)
  case (Cons b bs)
  have "le_val bs < 256 ^ length bs" by (rule le_val_bound)
  also have "(256 :: nat) ^ length bs \<le> 256 ^ 3" using Cons by (intro power_increasing) simp_all
  finally have small: "le_val bs < 2 ^ 24" by simp
  have b: "unat (ucast b :: uint32) = unat b"
    by (simp add: unsigned_ucast_eq take_bit_nat_eq_self order_less_le_trans[OF byte_lt_256])
  have "unat (ucast b :: uint32) < 2 ^ 8" using byte_lt_256[of b] b by simp
  then have "unat (ucast b OR push_bit 8 v :: uint32) = unat b + unat (push_bit 8 v)" for v by (simp add: unat_join b)
  then show ?case using Cons small by (simp add: or.commute unat_push_bit)
qed simp

lemma unat_load_u32: "unat (CRYPTO_load_u32_le bs) = le_val (take 4 bs)"
  by (simp add: CRYPTO_load_u32_le_def unat_load_fold)

lemma le_val_split: "n \<le> length m \<Longrightarrow> le_val m = le_val (take n m) + 256 ^ n * le_val (drop n m)"
  using le_val_append[of "take n m" "drop n m"] by simp

lemma le_val_words:
  assumes "length m = 16"
  shows "le_val m = le_val (take 4 m) + 2 ^ 32 * le_val (take 4 (drop 4 m)) + 2 ^ 64 * le_val (take 4 (drop 8 m)) + 2 ^ 96 * le_val (take 4 (drop 12 m))"
  using le_val_split[of 4 m] le_val_split[of 4 "drop 4 m"] le_val_split[of 4 "drop 8 m"] assms by simp

text \<open>The limbs of a block are its digits to the base \<open>2 ^ 26\<close>.\<close>

lemma digit_split:
  fixes lo hi :: nat
  assumes "lo < 2 ^ 32" and "a + s = 32" and "a + k = 26"
  shows "((lo + 2 ^ 32 * hi) div 2 ^ s) mod 2 ^ 26 = lo div 2 ^ s + 2 ^ a * (hi mod 2 ^ k)"
proof -
  have "(2 :: nat) ^ 32 = 2 ^ s * 2 ^ a" unfolding power_add[symmetric] using assms(2) by (simp add: add.commute)
  then have "lo + 2 ^ 32 * hi = lo + 2 ^ s * (2 ^ a * hi)" by (simp only: mult.assoc)
  moreover have "(lo + 2 ^ s * (2 ^ a * hi)) div 2 ^ s = lo div 2 ^ s + 2 ^ a * hi" by simp
  ultimately have d: "(lo + 2 ^ 32 * hi) div 2 ^ s = lo div 2 ^ s + 2 ^ a * hi" by (simp only:)
  have small: "lo div 2 ^ s < 2 ^ a"
    using assms(1) unfolding \<open>2 ^ 32 = 2 ^ s * 2 ^ a\<close> by (simp add: div_less_iff_less_mult mult.commute)
  have "(2 :: nat) ^ 26 = 2 ^ a * 2 ^ k" unfolding power_add[symmetric] assms(3) ..
  then have "(lo div 2 ^ s + 2 ^ a * hi) mod 2 ^ 26 = 2 ^ a * ((lo div 2 ^ s + 2 ^ a * hi) div 2 ^ a mod 2 ^ k) + (lo div 2 ^ s + 2 ^ a * hi) mod 2 ^ a"
    by (simp only: mod_mult2_eq)
  then show ?thesis unfolding d using small by simp
qed

lemma unat_limb_at:
  "unat (limb_at hi lo s) = ((unat lo + 2 ^ 32 * unat hi) div 2 ^ s) mod 2 ^ 26"
proof -
  have lo: "unat (ucast lo :: uint64) < 2 ^ 32" using unat_uint32_lt by simp
  have hi: "2 ^ 32 * unat hi < 2 ^ 64" using unat_uint32_lt[of hi] by simp
  have joined: "unat (push_bit 32 (ucast hi) OR ucast lo :: uint64) = unat lo + 2 ^ 32 * unat hi"
    using unat_join[OF lo, of "ucast hi"] hi by (simp add: or.commute unat_push_bit)
  have limb: "unat ((x :: uint64) AND 0x3ffffff) = unat x mod 2 ^ 26" for x
    using unat_and_mask[of x 26] by (simp add: mask_eq_exp_minus_1)
  show ?thesis unfolding limb_at_def unat_ucast_32 limb unat_drop_bit joined by simp
qed

lemma val5_digits:
  assumes "t0 = l0 + 2 ^ 26 * a0" "t1 = m1 + 2 ^ 20 * a1" "t2 = m2 + 2 ^ 14 * a2" "t3 = m3 + 2 ^ 8 * l4"
  shows "val5 l0 (a0 + 2 ^ 6 * m1) (a1 + 2 ^ 12 * m2) (a2 + 2 ^ 18 * m3) l4 = t0 + 2 ^ 32 * t1 + 2 ^ 64 * t2 + 2 ^ 96 * t3"
  using assms by (simp add: val5_def)

lemma block_digits:
  fixes t0 t1 t2 t3 :: nat
  assumes "t0 < 2 ^ 32" "t1 < 2 ^ 32" "t2 < 2 ^ 32" "t3 < 2 ^ 32"
  shows "val5 (t0 mod 2 ^ 26) ((t0 + 2 ^ 32 * t1) div 2 ^ 26 mod 2 ^ 26) ((t1 + 2 ^ 32 * t2) div 2 ^ 20 mod 2 ^ 26)
    ((t2 + 2 ^ 32 * t3) div 2 ^ 14 mod 2 ^ 26) (t3 div 2 ^ 8) = t0 + 2 ^ 32 * t1 + 2 ^ 64 * t2 + 2 ^ 96 * t3"
proof -
  have d: "(t0 + 2 ^ 32 * t1) div 2 ^ 26 mod 2 ^ 26 = t0 div 2 ^ 26 + 2 ^ 6 * (t1 mod 2 ^ 20)" by (rule digit_split[OF assms(1)]) simp_all
  have e: "(t1 + 2 ^ 32 * t2) div 2 ^ 20 mod 2 ^ 26 = t1 div 2 ^ 20 + 2 ^ 12 * (t2 mod 2 ^ 14)" by (rule digit_split[OF assms(2)]) simp_all
  have f: "(t2 + 2 ^ 32 * t3) div 2 ^ 14 mod 2 ^ 26 = t2 div 2 ^ 14 + 2 ^ 18 * (t3 mod 2 ^ 8)" by (rule digit_split[OF assms(3)]) simp_all
  show ?thesis unfolding d e f by (rule val5_digits) simp_all
qed

lemma val5_add:
  "val5 (a0 + b0) (a1 + b1) (a2 + b2) (a3 + b3) (a4 + (b4 + x)) = val5 a0 a1 a2 a3 a4 + (val5 b0 b1 b2 b3 b4 + 2 ^ 104 * x)"
  by (simp add: val5_def)

lemma poly_add_correct:
  assumes "h_ok h" and "length m = 16" and "hibit = 0 \<or> hibit = push_bit 24 1"
  shows "sum_ok (poly_add m hibit h) \<and> limbs_val (poly_add m hibit h) = limbs_val h + (le_val m + 2 ^ 104 * unat hibit)"
proof -
  obtain h0 h1 h2 h3 h4 where h: "h = (h0, h1, h2, h3, h4)" by (cases h)
  have hb: "unat h0 < 42 * 2 ^ 26" "unat h1 < 2 ^ 26" "unat h2 < 2 ^ 26" "unat h3 < 2 ^ 26" "unat h4 < 2 ^ 26"
    using assms(1) by (simp_all add: h_ok_def h)
  define t0 where "t0 = CRYPTO_load_u32_le m"
  define t1 where "t1 = CRYPTO_load_u32_le (drop 4 m)"
  define t2 where "t2 = CRYPTO_load_u32_le (drop 8 m)"
  define t3 where "t3 = CRYPTO_load_u32_le (drop 12 m)"
  have le: "le_val m = unat t0 + 2 ^ 32 * unat t1 + 2 ^ 64 * unat t2 + 2 ^ 96 * unat t3"
    unfolding le_val_words[OF assms(2)] t0_def t1_def t2_def t3_def unat_load_u32 ..
  have t3: "unat (drop_bit 8 t3) < 2 ^ 24" unfolding unat_drop_bit using unat_uint32_lt[of t3] by (simp add: div_less_iff_less_mult)
  have hi: "unat (drop_bit 8 t3 OR hibit) = unat t3 div 2 ^ 8 + unat hibit" "unat hibit \<le> 2 ^ 24"
    using assms(3) unat_join[OF t3, of 1] by (auto simp: unat_drop_bit)
  have lim: "unat (t0 AND 0x3ffffff) < 2 ^ 26" "unat (limb_at a b k) < 2 ^ 26" for a b k by (simp_all add: unat_and_limb unat_limb_at)
  have u: "unat (h0 + (t0 AND 0x3ffffff)) = unat h0 + unat t0 mod 2 ^ 26"
    "unat (h1 + limb_at t1 t0 26) = unat h1 + unat (limb_at t1 t0 26)" "unat (h2 + limb_at t2 t1 20) = unat h2 + unat (limb_at t2 t1 20)"
    "unat (h3 + limb_at t3 t2 14) = unat h3 + unat (limb_at t3 t2 14)"
    "unat (h4 + (drop_bit 8 t3 OR hibit)) = unat h4 + (unat t3 div 2 ^ 8 + unat hibit)"
    using hb lim(1) lim(2)[of t1 t0 26] lim(2)[of t2 t1 20] lim(2)[of t3 t2 14] hi unat_uint32_lt[of t3]
    by (subst unat_add32; simp add: unat_and_limb)+
  have result: "poly_add m hibit h = (h0 + (t0 AND 0x3ffffff), h1 + limb_at t1 t0 26, h2 + limb_at t2 t1 20, h3 + limb_at t3 t2 14,
      h4 + (drop_bit 8 t3 OR hibit))"
    by (simp add: poly_add_def h t0_def t1_def t2_def t3_def Let_def)
  have "unat t3 div 2 ^ 8 < 2 ^ 24" using t3 by (simp add: unat_drop_bit)
  then have "sum_ok (poly_add m hibit h)" unfolding result sum_ok_def prod.case u 
    using hb lim(2)[of t1 t0 26] lim(2)[of t2 t1 20] lim(2)[of t3 t2 14] hi(2) mod_less_divisor[of "2 ^ 26" "unat t0"] by simp
  moreover have "limbs_val (poly_add m hibit h) = val5 (unat h0 + unat t0 mod 2 ^ 26) (unat h1 + unat (limb_at t1 t0 26))
      (unat h2 + unat (limb_at t2 t1 20)) (unat h3 + unat (limb_at t3 t2 14)) (unat h4 + (unat t3 div 2 ^ 8 + unat hibit))"
    unfolding result limbs_val_def prod.case u ..
  then have "limbs_val (poly_add m hibit h) = limbs_val h + (le_val m + 2 ^ 104 * unat hibit)"
    unfolding val5_add le block_digits[OF unat_uint32_lt unat_uint32_lt unat_uint32_lt unat_uint32_lt, symmetric] unat_limb_at
    by (simp only: limbs_val_def h prod.case)
  ultimately show ?thesis by blast
qed

subsection \<open>The buffer\<close>

text \<open>Setting the buffer commutes with absorbing.\<close>

definition with_buf :: "byte list \<Rightarrow> poly1305_state_st \<Rightarrow> poly1305_state_st" where
  "with_buf bs st = st\<lparr>poly_buf := bs, poly_buf_used := length bs\<rparr>"

lemma poly1305_update_append:
  "16 dvd length as \<Longrightarrow> poly1305_update (as @ bs) st = poly1305_update bs (poly1305_update as st)"
proof (induction as st rule: poly1305_update.induct)
  case (1 as st)
  show ?case
  proof (cases "length as \<ge> 16")
    case True
    then have "16 dvd length (drop 16 as)" using 1(2) by (simp add: dvd_diff_nat)
    then show ?thesis using 1(1)[OF True] True by (simp add: poly1305_update.simps[of "as @ bs"] poly1305_update.simps[of as])
  next
    case False
    then have "as = []" using 1(2) by (cases as) (auto dest: dvd_imp_le)
    then show ?thesis by (simp add: poly1305_update.simps[of "[]"])
  qed
qed

lemma poly1305_update_with_buf: "poly1305_update m (with_buf bs st) = with_buf bs (poly1305_update m st)"
proof (induction m st rule: poly1305_update.induct)
  case (1 m st)
  have absorb: "poly_absorb x hib (with_buf bs st) = with_buf bs (poly_absorb x hib st)" for x hib
    by (simp add: poly_absorb_def with_buf_def)
  show ?case using 1 by (simp add: poly1305_update.simps[of m] absorb)
qed

text \<open>\<open>st\<close> is reached from \<open>st0\<close> by any number of updates with the bytes \<open>msg\<close> in all.\<close>

definition holds :: "poly1305_state_st \<Rightarrow> poly1305_state_st \<Rightarrow> byte list \<Rightarrow> bool" where
  "holds st0 st msg \<longleftrightarrow>
     (\<exists>pre rest. msg = pre @ rest \<and> 16 dvd length pre \<and> length rest < 16 \<and> st = with_buf rest (poly1305_update pre st0))"

lemma holds_init: "poly_buf st0 = [] \<Longrightarrow> poly_buf_used st0 = 0 \<Longrightarrow> holds st0 st0 []"
  by (auto simp: holds_def with_buf_def poly1305_update.simps[of "[]"])

text \<open>Absorbing the whole blocks of \<open>inp\<close> and buffering the rest.\<close>

lemma holds_blocks:
  assumes "16 dvd length pre" and "st = with_buf [] (poly1305_update pre st0)"
  shows "holds st0 (poly_blocks inp st) (pre @ inp)"
proof -
  define todo where "todo = length inp - length inp mod 16"
  have run: "poly_blocks inp st = with_buf (drop todo inp) (poly1305_update (pre @ take todo inp) st0)"
  proof (cases "length inp \<ge> 16")
    case True
    have "poly_blocks inp st = with_buf (drop todo inp) (poly1305_update (take todo inp) st)"
      unfolding assms(2) poly1305_update_with_buf using True
      by (simp add: poly_blocks_def Let_def todo_def[symmetric] poly1305_update_with_buf) (simp add: with_buf_def)
    then show ?thesis unfolding assms(2) poly1305_update_with_buf poly1305_update_append[OF assms(1)] by (simp add: with_buf_def)
  next
    case False
    then have "todo = 0" by (simp add: todo_def)
    then show ?thesis using False by (simp add: poly_blocks_def Let_def assms(2)) (simp add: with_buf_def)
  qed
  have "16 dvd length (pre @ take todo inp)" using assms(1) by (simp add: todo_def minus_mod_eq_mult_div)
  moreover have "length (drop todo inp) < 16" by (simp add: todo_def)
  ultimately show ?thesis unfolding holds_def run by (intro exI[of _ "pre @ take todo inp"] exI[of _ "drop todo inp"]) simp
qed

lemma holds_update:
  assumes "holds st0 st msg"
  shows "holds st0 (CRYPTO_poly1305_update inp st) (msg @ inp)"
proof (cases "inp = []")
  case False
  obtain pre rest where msg: "msg = pre @ rest" "16 dvd length pre" "length rest < 16" and st: "st = with_buf rest (poly1305_update pre st0)"
    using assms by (auto simp: holds_def)
  have run: "CRYPTO_poly1305_update inp st = (case poly_fill inp st of (inp1, st1) \<Rightarrow> poly_blocks inp1 st1)"
    using False by (simp add: CRYPTO_poly1305_update_def)
  have used: "poly_buf st = rest" "poly_buf_used st = length rest" by (simp_all add: st with_buf_def)
  consider (empty) "rest = []" | (short) "rest \<noteq> []" "length rest + length inp < 16" | (full) "rest \<noteq> []" "length rest + length inp \<ge> 16"
    by linarith
  then show ?thesis
  proof cases
    case empty
    then have "poly_fill inp st = (inp, st)" by (simp add: poly_fill_def used)
    then show ?thesis using holds_blocks[OF msg(2), of st st0 inp] run st msg(1) empty by simp
  next
    case short
    then have "poly_fill inp st = ([], st\<lparr>poly_buf := rest @ inp, poly_buf_used := length rest + length inp\<rparr>)"
      by (simp add: poly_fill_def used Let_def)
    then have "CRYPTO_poly1305_update inp st = with_buf (rest @ inp) (poly1305_update pre st0)"
      unfolding run by (simp add: poly_blocks_def st with_buf_def)
    then show ?thesis unfolding holds_def using msg(1,2) short(2) by (intro exI[of _ pre] exI[of _ "rest @ inp"]) simp
  next
    case full
    define todo where "todo = 16 - length rest"
    have fits: "min todo (length inp) = todo" using full(2) by (simp add: todo_def)
    have "poly_fill inp st = (drop todo inp, with_buf [] (poly1305_update (rest @ take todo inp) (with_buf (rest @ take todo inp) st)))"
      using full msg(3) fits unfolding poly_fill_def used Let_def todo_def[symmetric] fits
      by (simp add: with_buf_def todo_def)
    then have "CRYPTO_poly1305_update inp st =
        poly_blocks (drop todo inp) (with_buf [] (poly1305_update (rest @ take todo inp) (with_buf (rest @ take todo inp) st)))"
      by (simp add: run)
    also have "with_buf [] (poly1305_update (rest @ take todo inp) (with_buf (rest @ take todo inp) st)) =
        with_buf [] (poly1305_update ((pre @ rest) @ take todo inp) st0)"
      unfolding st poly1305_update_with_buf append_assoc poly1305_update_append[OF msg(2)] by (simp add: with_buf_def)
    finally have "CRYPTO_poly1305_update inp st = poly_blocks (drop todo inp) (with_buf [] (poly1305_update ((pre @ rest) @ take todo inp) st0))" .
    moreover have "16 dvd length ((pre @ rest) @ take todo inp)" using msg(2,3) full(2) by (simp add: todo_def)
    ultimately have "holds st0 (CRYPTO_poly1305_update inp st) (((pre @ rest) @ take todo inp) @ drop todo inp)"
      using holds_blocks by metis
    then show ?thesis using msg(1) by simp
  qed
qed (use assms in \<open>simp add: CRYPTO_poly1305_update_def\<close>)

text \<open>The tag depends on the bytes, not on how they were divided among the calls.\<close>

lemma holds_finish:
  assumes "holds st0 st msg"
  shows "CRYPTO_poly1305_finish st =
    poly_tag (poly_key st0) (poly_select (poly_carry (poly_h (poly1305_update msg st0))))"
proof -
  obtain pre rest where msg: "msg = pre @ rest" "16 dvd length pre" and st: "st = with_buf rest (poly1305_update pre st0)"
    using assms by (auto simp: holds_def)
  have key: "poly_key (poly1305_update m s) = poly_key s" for m s
    by (induction m s rule: poly1305_update.induct) (subst poly1305_update.simps, simp add: poly_absorb_def)
  have h: "poly_h (with_buf b s) = poly_h s" and k: "poly_key (with_buf b s) = poly_key s" for b s by (simp_all add: with_buf_def)
  have u: "poly_buf_used (with_buf b s) = length b" "poly_buf (with_buf b s) = b" for b s by (simp_all add: with_buf_def)
  show ?thesis
    unfolding CRYPTO_poly1305_finish_def Let_def st u poly1305_update_with_buf msg(1) poly1305_update_append[OF msg(2)]
    by (cases "rest = []") (simp_all add: key h k poly1305_update.simps[of "[]"])
qed

subsection \<open>The accumulator\<close>

text \<open>The definition: the blocks, each with a 1 above it, as a polynomial in \<open>r\<close>.\<close>

function poly_acc :: "nat \<Rightarrow> nat \<Rightarrow> byte list \<Rightarrow> nat" where
  "poly_acc r a m = (if m = [] then a else poly_acc r ((a + le_val (take 16 m @ [1])) * r mod P1305) (drop 16 m))"
  by pat_completeness auto
termination by (relation "measure (\<lambda>(_, _, m). length m)") auto

declare poly_acc.simps [simp del]

definition state_ok :: "poly1305_state_st \<Rightarrow> bool" where
  "state_ok st \<longleftrightarrow> r_ok (poly_r st) \<and> poly_s st = times5 (poly_r st) \<and> h_ok (poly_h st)"

lemma mod_step: "((x mod n + y) * r) mod n = ((x + y) * r) mod (n :: nat)"
  by (metis mod_add_left_eq mod_mult_left_eq)

lemma poly_absorb_correct:
  assumes "state_ok st" and "length m = 16" and "hibit = 0 \<or> hibit = push_bit 24 1"
  shows "state_ok (poly_absorb m hibit st) \<and>
    limbs_val (poly_h (poly_absorb m hibit st)) mod P1305 =
      ((limbs_val (poly_h st) mod P1305 + (le_val m + 2 ^ 104 * unat hibit)) * limbs_val (poly_r st)) mod P1305"
proof -
  have ok: "r_ok (poly_r st)" "poly_s st = times5 (poly_r st)" "h_ok (poly_h st)" using assms(1) by (simp_all add: state_ok_def)
  note added = poly_add_correct[OF ok(3) assms(2,3)]
  obtain q where mult: "h_ok (poly_mul (poly_r st) (times5 (poly_r st)) (poly_add m hibit (poly_h st)))"
    and q: "limbs_val (poly_add m hibit (poly_h st)) * limbs_val (poly_r st) =
      limbs_val (poly_mul (poly_r st) (times5 (poly_r st)) (poly_add m hibit (poly_h st))) + P1305 * q"
    using poly_mul_correct[OF conjunct1[OF added] ok(1)] by blast
  have "limbs_val (poly_mul (poly_r st) (times5 (poly_r st)) (poly_add m hibit (poly_h st))) mod P1305 =
      (limbs_val (poly_add m hibit (poly_h st)) * limbs_val (poly_r st)) mod P1305"
    unfolding q by (simp only: mod_mult_self2)
  also have "\<dots> = ((limbs_val (poly_h st) mod P1305 + (le_val m + 2 ^ 104 * unat hibit)) * limbs_val (poly_r st)) mod P1305"
    unfolding conjunct2[OF added] mod_step ..
  finally show ?thesis using ok mult by (simp add: poly_absorb_def state_ok_def)
qed

lemma poly1305_update_correct:
  "state_ok st \<Longrightarrow> state_ok (poly1305_update m st) \<and>
    limbs_val (poly_h (poly1305_update m st)) mod P1305 = poly_acc (limbs_val (poly_r st)) (limbs_val (poly_h st) mod P1305) m"
proof (induction m st rule: poly1305_update.induct)
  case (1 m st)
  have r: "poly_r (poly_absorb x hib st) = poly_r st" for x hib by (simp add: poly_absorb_def)
  show ?case
  proof (cases "length m \<ge> 16")
    case True
    define st1 where "st1 = poly_absorb (take 16 m) (push_bit 24 1) st"
    have block: "le_val (take 16 m) + 2 ^ 104 * unat (push_bit 24 1 :: uint32) = le_val (take 16 m @ [1])"
      using True by (simp add: le_val_append)
    have step: "state_ok st1" "limbs_val (poly_h st1) mod P1305 =
        ((limbs_val (poly_h st) mod P1305 + le_val (take 16 m @ [1])) * limbs_val (poly_r st)) mod P1305"
      using poly_absorb_correct[OF 1(2), of "take 16 m" "push_bit 24 1"] True unfolding block st1_def by simp_all
    have "poly1305_update m st = poly1305_update (drop 16 m) st1" unfolding st1_def using True by (subst poly1305_update.simps) simp
    moreover have "m \<noteq> []" "poly_r st1 = poly_r st" using True by (auto simp: st1_def r)
    ultimately show ?thesis using 1(1)[OF True, folded st1_def, OF step(1)]
      unfolding step(2) by (subst poly_acc.simps) (simp only: if_False)
  next
    case short: False
    show ?thesis
    proof (cases "m = []")
      case False
      let ?p = "m @ [1] @ replicate (15 - length m) 0"
      have "le_val ?p + 2 ^ 104 * unat (0 :: uint32) = le_val (take 16 m @ [1])" using short by (simp add: le_val_append)
      moreover have "length ?p = 16" using short by simp
      ultimately show ?thesis using poly_absorb_correct[OF 1(2), of ?p 0] short False
        by (simp add: poly1305_update.simps[of m] poly_acc.simps[of _ _ m] poly_acc.simps[of _ _ "[]"])
    qed (use 1(2) in \<open>simp add: poly1305_update.simps[of "[]"] poly_acc.simps[of _ _ "[]"]\<close>)
  qed
qed

end
