(* ===== verification/Poly1305_Tag.thy ===== *)
theory Poly1305_Tag
  imports Poly1305_Props
begin

text \<open>
  The two ends of Poly1305: the clamped multiplier taken from the key, and the tag computed from the accumulator. With
  the multiplication of the previous theory they give the correctness of the authenticator, and the accumulators for
  which it fails.
\<close>

subsection \<open>The multiplier\<close>

lemma and_digits:
  fixes a b x y :: nat
  assumes "a < 2 ^ 26" "b < 2 ^ 26"
  shows "(a + 2 ^ 26 * x) AND (b + 2 ^ 26 * y) = (a AND b) + 2 ^ 26 * (x AND y)"
proof -
  have t: "take_bit 26 (c + 2 ^ 26 * z) = c" and d: "drop_bit 26 (c + 2 ^ 26 * z) = z" if "c < 2 ^ 26" for c z :: nat
    using that by (simp_all add: take_bit_eq_mod drop_bit_eq_div)
  let ?z = "(a + 2 ^ 26 * x) AND (b + 2 ^ 26 * y)"
  have "?z = take_bit 26 ?z + 2 ^ 26 * drop_bit 26 ?z" unfolding take_bit_eq_mod drop_bit_eq_div by (rule mod_div_26)
  also have "take_bit 26 ?z = a AND b" unfolding take_bit_and t[OF assms(1)] t[OF assms(2)] ..
  also have "drop_bit 26 ?z = x AND y" unfolding drop_bit_and d[OF assms(1)] d[OF assms(2)] ..
  finally show ?thesis .
qed

lemma val5_nest: "val5 a b c d e = a + 2 ^ 26 * (b + 2 ^ 26 * (c + 2 ^ 26 * (d + 2 ^ 26 * e)))"
  by (simp add: val5_def)

lemma val5_and:
  assumes "a < 2 ^ 26" "b < 2 ^ 26" "c < 2 ^ 26" "d < 2 ^ 26" "a' < 2 ^ 26" "b' < 2 ^ 26" "c' < 2 ^ 26" "d' < 2 ^ 26"
  shows "val5 a b c d e AND val5 a' b' c' d' e' = val5 (a AND a') (b AND b') (c AND c') (d AND d') (e AND e')"
  unfolding val5_nest by (simp only: and_digits[OF assms(1,5)] and_digits[OF assms(2,6)] and_digits[OF assms(3,7)] and_digits[OF assms(4,8)])

lemma unat_and: "unat ((a :: 'a::len word) AND b) = unat a AND unat b"
  by (simp add: unsigned_and_eq)

lemma add_mod_cancel: "((x :: nat) + y mod 2 ^ 32) mod 2 ^ 26 = (x + y) mod 2 ^ 26"
proof -
  have "y mod 2 ^ 32 mod 2 ^ 26 = y mod 2 ^ 26" by (rule mod_mod_cancel) (intro le_imp_power_dvd, simp)
  then show ?thesis by (metis mod_add_right_eq)
qed

lemma unat_limb_join:
  assumes "a + s = 32" and "a + k = 26"
  shows "unat ((drop_bit s lo OR push_bit a hi :: uint32) AND 0x3ffffff) = unat (limb_at hi lo s)"
proof -
  have p: "(2 :: nat) ^ 32 = 2 ^ s * 2 ^ a" unfolding power_add[symmetric] using assms(1) by (simp add: add.commute)
  have small: "unat (drop_bit s lo) < 2 ^ a"
    unfolding unat_drop_bit using unat_uint32_lt[of lo] unfolding p by (simp add: div_less_iff_less_mult mult.commute)
  have "unat (drop_bit s lo OR push_bit a hi) = unat lo div 2 ^ s + (2 ^ a * unat hi) mod 2 ^ 32"
    unfolding unat_join[OF small] unat_drop_bit unat_push_bit by simp
  moreover have "(unat lo div 2 ^ s + (2 ^ a * unat hi) mod 2 ^ 32) mod 2 ^ 26 = (unat lo div 2 ^ s + 2 ^ a * unat hi) mod 2 ^ 26"
    by (rule add_mod_cancel)
  moreover have "(unat lo + 2 ^ 32 * unat hi) div 2 ^ s = unat lo div 2 ^ s + 2 ^ a * unat hi" unfolding p mult.assoc by simp
  ultimately show ?thesis unfolding unat_and_limb unat_limb_at by (simp only:)
qed

lemma unat_limb_masked:
  assumes "a + s = 32" and "a + k = 26" and m: "0x3ffffff AND m = (m :: uint32)"
  shows "unat ((drop_bit s lo OR push_bit a hi) AND m) = unat (limb_at hi lo s) AND unat m"
proof -
  have "(drop_bit s lo OR push_bit a hi) AND m = ((drop_bit s lo OR push_bit a hi) AND 0x3ffffff) AND m"
    using m by (simp only: and.assoc)
  then show ?thesis by (simp only: unat_and[of _ m] unat_limb_join[OF assms(1,2)])
qed

definition clamp :: nat where
  "clamp = 0x0ffffffc0ffffffc0ffffffc0fffffff"

lemma init_correct:
  assumes "length key = 32"
  shows "state_ok (CRYPTO_poly1305_init key) \<and>
    limbs_val (poly_r (CRYPTO_poly1305_init key)) = le_val (take 16 key) AND clamp \<and> limbs_val (poly_h (CRYPTO_poly1305_init key)) = 0"
proof -
  define t0 where "t0 = CRYPTO_load_u32_le key"
  define t1 where "t1 = CRYPTO_load_u32_le (drop 4 key)"
  define t2 where "t2 = CRYPTO_load_u32_le (drop 8 key)"
  define t3 where "t3 = CRYPTO_load_u32_le (drop 12 key)"
  define l0 where "l0 = unat (t0 AND 0x3ffffff)"
  define l1 where "l1 = unat (limb_at t1 t0 26)"
  define l2 where "l2 = unat (limb_at t2 t1 20)"
  define l3 where "l3 = unat (limb_at t3 t2 14)"
  define l4 where "l4 = unat (drop_bit 8 t3)"
  define r where "r = (t0 AND 0x3ffffff, (drop_bit 26 t0 OR push_bit 6 t1) AND 0x3ffff03, (drop_bit 20 t1 OR push_bit 12 t2) AND 0x3ffc0ff,
    (drop_bit 14 t2 OR push_bit 18 t3) AND 0x3f03fff, drop_bit 8 t3 AND 0x00fffff)"
  have init: "CRYPTO_poly1305_init key = \<lparr>poly_r = r, poly_s = times5 r, poly_h = (0, 0, 0, 0, 0), poly_buf = [], poly_buf_used = 0,
      poly_key = take 16 (drop 16 key)\<rparr>"
    unfolding CRYPTO_poly1305_init_def Let_def r_def times5_def prod.case t0_def t1_def t2_def t3_def by (rule refl)
  have r1: "unat ((drop_bit 26 t0 OR push_bit 6 t1) AND 0x3ffff03 :: uint32) = l1 AND 0x3ffff03"
    using unat_limb_masked[of 6 26 20 "0x3ffff03"] by (simp add: l1_def)
  have r2: "unat ((drop_bit 20 t1 OR push_bit 12 t2) AND 0x3ffc0ff :: uint32) = l2 AND 0x3ffc0ff"
    using unat_limb_masked[of 12 20 14 "0x3ffc0ff"] by (simp add: l2_def)
  have r3: "unat ((drop_bit 14 t2 OR push_bit 18 t3) AND 0x3f03fff :: uint32) = l3 AND 0x3f03fff"
    using unat_limb_masked[of 18 14 8 "0x3f03fff"] by (simp add: l3_def)
  have r0: "unat (t0 AND 0x3ffffff) = l0 AND 0x3ffffff" and r4: "unat (drop_bit 8 t3 AND 0x00fffff) = l4 AND 0xfffff"
    by (simp_all add: l0_def l4_def unat_and)
  have "le_val (take 16 key) = unat t0 + 2 ^ 32 * unat t1 + 2 ^ 64 * unat t2 + 2 ^ 96 * unat t3"
    using le_val_words[of "take 16 key"] assms unfolding t0_def t1_def t2_def t3_def unat_load_u32 by (simp add: drop_take)
  then have digits: "le_val (take 16 key) = val5 l0 l1 l2 l3 l4"
    unfolding l0_def l1_def l2_def l3_def l4_def unat_and_limb unat_limb_at unat_drop_bit
    using block_digits[OF unat_uint32_lt unat_uint32_lt unat_uint32_lt unat_uint32_lt, of t0 t1 t2 t3] by (simp only:)
  have lim: "l0 < 2 ^ 26" "l1 < 2 ^ 26" "l2 < 2 ^ 26" "l3 < 2 ^ 26" by (simp_all add: l0_def l1_def l2_def l3_def unat_and_limb unat_limb_at)
  have c: "clamp = val5 0x3ffffff 0x3ffff03 0x3ffc0ff 0x3f03fff 0xfffff" by (simp add: clamp_def val5_def)
  have "le_val (take 16 key) AND clamp = val5 (l0 AND 0x3ffffff) (l1 AND 0x3ffff03) (l2 AND 0x3ffc0ff) (l3 AND 0x3f03fff) (l4 AND 0xfffff)"
    unfolding digits c by (rule val5_and[OF lim]) simp_all
  then have "limbs_val r = le_val (take 16 key) AND clamp" unfolding r_def limbs_val_def prod.case r0 r1 r2 r3 r4 by simp
  moreover have below: "unat (x AND m) \<le> unat m" for x m :: uint32 by (simp add: word_le_nat_alt[symmetric] word_and_le1)
  have "r_ok r" unfolding r_def r_ok_def prod.case
    using below[of t0 "0x3ffffff"] below[of "drop_bit 26 t0 OR push_bit 6 t1" "0x3ffff03"] below[of "drop_bit 20 t1 OR push_bit 12 t2" "0x3ffc0ff"]
      below[of "drop_bit 14 t2 OR push_bit 18 t3" "0x3f03fff"] below[of "drop_bit 8 t3" "0x00fffff"]
    unfolding r0 r1 r2 r3 r4 by simp
  moreover have "h_ok (0, 0, 0, 0, 0)" "limbs_val (0, 0, 0, 0, 0) = 0" by (simp_all add: h_ok_def limbs_val_def val5_def)
  ultimately show ?thesis by (simp add: init state_ok_def)
qed

subsection \<open>The final reduction\<close>

text \<open>
  After the carries the limbs have 26 bits, except that the lowest has one more when the accumulator exceeded
  \<open>2 ^ 130\<close>; then only the two lowest limbs are not 0.
\<close>

definition carried_ok :: "limbs \<Rightarrow> bool" where
  "carried_ok = (\<lambda>(a, b, c, d, e). unat b < 2 ^ 26 \<and> unat c < 2 ^ 26 \<and> unat d < 2 ^ 26 \<and> unat e < 2 ^ 26 \<and>
     (unat a < 2 ^ 26 \<or> unat a < 2 ^ 26 + 5 \<and> unat b < 42 \<and> c = 0 \<and> d = 0 \<and> e = 0))"

lemma unat_carry_add: "unat (x :: uint32) < 2 ^ 27 \<Longrightarrow> unat (x + drop_bit 26 y) = unat x + unat y div 2 ^ 26"
proof -
  assume "unat x < 2 ^ 27"
  moreover have "unat y div 2 ^ 26 < 2 ^ 6" using unat_uint32_lt[of y] by (simp add: div_less_iff_less_mult)
  ultimately show ?thesis by (subst unat_add32) (simp_all add: unat_drop_bit)
qed

text \<open>The carries on numbers: if one leaves the top, the limbs above the second are used up.\<close>

lemma carry_chain:
  fixes h0 h1 h2 h3 h4 :: nat
  assumes "h0 < 42 * 2 ^ 26" "h1 < 2 ^ 26" "h2 < 2 ^ 26" "h3 < 2 ^ 26" "h4 < 2 ^ 26"
    and k: "k1 = h1 + h0 div 2 ^ 26" "k2 = h2 + k1 div 2 ^ 26" "k3 = h3 + k2 div 2 ^ 26" "k4 = h4 + k3 div 2 ^ 26"
  shows "k1 < 2 ^ 26 + 42 \<and> k2 \<le> 2 ^ 26 \<and> k3 \<le> 2 ^ 26 \<and> k4 \<le> 2 ^ 26" and "k4 div 2 ^ 26 \<le> 1"
    and "k4 div 2 ^ 26 \<noteq> 0 \<Longrightarrow> k1 mod 2 ^ 26 < 42 \<and> k2 mod 2 ^ 26 = 0 \<and> k3 mod 2 ^ 26 = 0 \<and> k4 mod 2 ^ 26 = 0"
proof -
  have top: "x div 2 ^ 26 = (if x < 2 ^ 26 then 0 else 1)" if "x < 2 ^ 27" for x :: nat
    using that by (simp add: div_eq_0_iff div_nat_eqI)
  have "h0 div 2 ^ 26 < 42" using assms(1) by (simp add: div_less_iff_less_mult)
  then have k1: "k1 < 2 ^ 26 + 42" using assms(2) k(1) by simp
  then have k2: "k2 \<le> 2 ^ 26" using assms(3) k(2) top[of k1] by simp
  then have k3: "k3 \<le> 2 ^ 26" using assms(4) k(3) top[of k2] by simp
  then have k4: "k4 \<le> 2 ^ 26" using assms(5) k(4) top[of k3] by simp
  show "k1 < 2 ^ 26 + 42 \<and> k2 \<le> 2 ^ 26 \<and> k3 \<le> 2 ^ 26 \<and> k4 \<le> 2 ^ 26" using k1 k2 k3 k4 by simp
  show "k4 div 2 ^ 26 \<le> 1" using k4 top[of k4] by simp
  assume "k4 div 2 ^ 26 \<noteq> 0"
  then have "k4 = 2 ^ 26" using k4 by (simp add: div_eq_0_iff)
  moreover from this have "k3 = 2 ^ 26" using k(4) k3 assms(5) top[of k3] by (auto split: if_splits)
  moreover from this have "k2 = 2 ^ 26" using k(3) k2 assms(4) top[of k2] by (auto split: if_splits)
  moreover from this have "\<not> k1 < 2 ^ 26" using k(2) k1 assms(3) top[of k1] by (auto split: if_splits)
  then have "k1 mod 2 ^ 26 < 42" using k1 by (simp add: le_mod_geq)
  ultimately show "k1 mod 2 ^ 26 < 42 \<and> k2 mod 2 ^ 26 = 0 \<and> k3 mod 2 ^ 26 = 0 \<and> k4 mod 2 ^ 26 = 0" by simp
qed

lemma poly_carry_correct:
  assumes "h_ok h"
  shows "carried_ok (poly_carry h) \<and> (\<exists>q. limbs_val h = limbs_val (poly_carry h) + P1305 * q)"
proof -
  obtain h0 h1 h2 h3 h4 where h: "h = (h0, h1, h2, h3, h4)" by (cases h)
  have hb: "unat h0 < 42 * 2 ^ 26" "unat h1 < 2 ^ 26" "unat h2 < 2 ^ 26" "unat h3 < 2 ^ 26" "unat h4 < 2 ^ 26"
    using assms by (simp_all add: h_ok_def h)
  define k1 where "k1 = h1 + drop_bit 26 h0"
  define k2 where "k2 = h2 + drop_bit 26 k1"
  define k3 where "k3 = h3 + drop_bit 26 k2"
  define k4 where "k4 = h4 + drop_bit 26 k3"
  have u: "unat k1 = unat h1 + unat h0 div 2 ^ 26" "unat k2 = unat h2 + unat k1 div 2 ^ 26" "unat k3 = unat h3 + unat k2 div 2 ^ 26"
    "unat k4 = unat h4 + unat k3 div 2 ^ 26"
    unfolding k1_def k2_def k3_def k4_def by (rule unat_carry_add, use hb in simp)+
  note chain = carry_chain[OF hb u]
  define c0 where "c0 = (h0 AND 0x3ffffff) + drop_bit 26 k4 * 5"
  have "unat (drop_bit 26 k4 * 5) = 5 * (unat k4 div 2 ^ 26)" using chain(2) by (subst unat_mul5) (simp_all add: unat_drop_bit)
  then have c0: "unat c0 = unat h0 mod 2 ^ 26 + 5 * (unat k4 div 2 ^ 26)"
    unfolding c0_def using chain(2) mod_less_divisor[of "2 ^ 26" "unat h0"] by (subst unat_add32) (simp_all add: unat_and_limb)
  have result: "poly_carry h = (c0, k1 AND 0x3ffffff, k2 AND 0x3ffffff, k3 AND 0x3ffffff, k4 AND 0x3ffffff)"
    unfolding poly_carry_def h Let_def prod.case c0_def k4_def k3_def k2_def k1_def by (rule refl)
  have "carried_ok (poly_carry h)"
  proof (cases "unat k4 div 2 ^ 26 = 0")
    case True
    then show ?thesis unfolding result carried_ok_def prod.case unat_and_limb c0 by simp
  next
    case False
    then have "k2 AND 0x3ffffff = 0" "k3 AND 0x3ffffff = 0" "k4 AND 0x3ffffff = 0"
      using chain(3) unfolding word_unat_eq_iff unat_and_limb by simp_all
    moreover have one: "unat k4 div 2 ^ 26 = 1" using False chain(2) by linarith
    moreover have "unat h0 mod 2 ^ 26 < 2 ^ 26" by simp
    ultimately show ?thesis unfolding result carried_ok_def prod.case unat_and_limb c0 one using chain(3)[OF False] by simp
  qed
  moreover have "limbs_val h = limbs_val (poly_carry h) + P1305 * (unat k4 div 2 ^ 26)"
    unfolding result unfolding limbs_val_def h prod.case unat_and_limb c0
    by (rule val5_carry[where ?c0.0 = "unat h0 div 2 ^ 26" and ?c1.0 = "unat k1 div 2 ^ 26" and ?c2.0 = "unat k2 div 2 ^ 26" and ?c3.0 = "unat k3 div 2 ^ 26"])
      (use u in simp_all)
  ultimately show ?thesis by blast
qed

text \<open>The choice between the accumulator and the accumulator minus \<open>2 ^ 130 - 5\<close>.\<close>

lemma val5_top:
  assumes "a < 2 ^ 26" "b < 2 ^ 26" "c < 2 ^ 26" "d < 2 ^ 26"
  shows "2 ^ 130 \<le> val5 a b c d e \<longleftrightarrow> 2 ^ 26 \<le> e"
  using assms unfolding val5_def by auto

lemma carry_exact:
  assumes "g0 = l0 + 2 ^ 26 * c0" "h1 + c0 = l1 + 2 ^ 26 * c1" "h2 + c1 = l2 + 2 ^ 26 * c2" "h3 + c2 = l3 + 2 ^ 26 * c3"
  shows "val5 g0 h1 h2 h3 h4 = val5 l0 l1 l2 l3 (h4 + c3)"
  using assms unfolding val5_def by simp

definition limbs_ok :: "limbs \<Rightarrow> bool" where
  "limbs_ok = (\<lambda>(a, b, c, d, e). unat a < 2 ^ 26 \<and> unat b < 2 ^ 26 \<and> unat c < 2 ^ 26 \<and> unat d < 2 ^ 26 \<and> unat e < 2 ^ 26)"

lemma poly_select_correct:
  assumes "carried_ok h"
  shows "limbs_val (poly_select h) = limbs_val h mod P1305 \<and> (limbs_ok (poly_select h) \<or> poly_select h = h)"
proof -
  obtain h0 h1 h2 h3 h4 where h: "h = (h0, h1, h2, h3, h4)" by (cases h)
  have hb: "unat h0 < 2 ^ 26 + 5" "unat h1 < 2 ^ 26" "unat h2 < 2 ^ 26" "unat h3 < 2 ^ 26" "unat h4 < 2 ^ 26"
    using assms by (auto simp: carried_ok_def h)
  define g0 where "g0 = h0 + 5"
  define g1 where "g1 = h1 + drop_bit 26 g0"
  define g2 where "g2 = h2 + drop_bit 26 g1"
  define g3 where "g3 = h3 + drop_bit 26 g2"
  define g4 where "g4 = h4 + drop_bit 26 g3"
  have u0: "unat g0 = unat h0 + 5" unfolding g0_def using hb(1) by (subst unat_add32) simp_all
  have u: "unat g1 = unat h1 + unat g0 div 2 ^ 26" "unat g2 = unat h2 + unat g1 div 2 ^ 26" "unat g3 = unat h3 + unat g2 div 2 ^ 26"
    "unat g4 = unat h4 + unat g3 div 2 ^ 26"
    unfolding g1_def g2_def g3_def g4_def by (rule unat_carry_add, use hb in simp)+
  have "unat g0 < 42 * 2 ^ 26" using u0 hb(1) by simp
  note chain = carry_chain[OF this hb(2-5) u]
  define V where "V = limbs_val h"
  have V5: "V + 5 = val5 (unat g0 mod 2 ^ 26) (unat g1 mod 2 ^ 26) (unat g2 mod 2 ^ 26) (unat g3 mod 2 ^ 26) (unat g4)"
  proof -
    have "V + 5 = val5 (unat g0) (unat h1) (unat h2) (unat h3) (unat h4)" by (simp add: V_def limbs_val_def h val5_def u0)
    also have "\<dots> = val5 (unat g0 mod 2 ^ 26) (unat g1 mod 2 ^ 26) (unat g2 mod 2 ^ 26) (unat g3 mod 2 ^ 26) (unat h4 + unat g3 div 2 ^ 26)"
      by (rule carry_exact[where ?c0.0 = "unat g0 div 2 ^ 26" and ?c1.0 = "unat g1 div 2 ^ 26" and ?c2.0 = "unat g2 div 2 ^ 26"]) (use u in simp_all)
    finally show ?thesis unfolding u(4) .
  qed
  have top: "2 ^ 130 \<le> V + 5 \<longleftrightarrow> 2 ^ 26 \<le> unat g4" unfolding V5 by (rule val5_top) simp_all
  define b where "b = drop_bit 31 (g4 - push_bit 26 1) - 1"
  have result: "poly_select h = ((h0 AND NOT b) OR ((g0 AND 0x3ffffff) AND b), (h1 AND NOT b) OR ((g1 AND 0x3ffffff) AND b),
      (h2 AND NOT b) OR ((g2 AND 0x3ffffff) AND b), (h3 AND NOT b) OR ((g3 AND 0x3ffffff) AND b), (h4 AND NOT b) OR ((g4 - push_bit 26 1) AND b))"
    unfolding poly_select_def h Let_def prod.case b_def g4_def g3_def g2_def g1_def g0_def by (rule refl)
  show ?thesis
  proof (cases "2 ^ 26 \<le> unat g4")
    case True
    then have g4: "unat g4 = 2 ^ 26" using chain(1) by simp
    then have "g4 = push_bit 26 1" by (simp add: word_unat_eq_iff)
    then have "g4 - push_bit 26 1 = 0" by simp
    then have sel: "poly_select h = (g0 AND 0x3ffffff, g1 AND 0x3ffffff, g2 AND 0x3ffffff, g3 AND 0x3ffffff, 0)"
      unfolding result b_def by simp
    have "limbs_val (poly_select h) + 2 ^ 130 = V + 5" unfolding V5 sel limbs_val_def prod.case unat_and_limb g4 by (simp add: val5_def)
    moreover have "V < 2 ^ 130" using assms hb unfolding V_def limbs_val_def val5_def by (auto simp: carried_ok_def h)
    moreover have "2 ^ 130 \<le> V + 5" using top True by simp
    ultimately have "limbs_val (poly_select h) = V mod P1305" by (simp add: le_mod_geq)
    then show ?thesis unfolding V_def sel limbs_ok_def by (simp add: unat_and_limb)
  next
    case False
    then have "unat (g4 - push_bit 26 1) = unat g4 + 2 ^ 32 - 2 ^ 26" by (simp add: unat_sub_if')
    then have "unat (g4 - push_bit 26 1) div 2 ^ 31 = 1" using False by (intro div_nat_eqI) simp_all
    then have "drop_bit 31 (g4 - push_bit 26 1) = 1" by (simp add: word_unat_eq_iff unat_drop_bit)
    then have "poly_select h = h" unfolding result b_def by (simp add: h)
    moreover have "V < P1305" using top False by simp
    ultimately show ?thesis by (simp add: V_def)
  qed
qed

subsection \<open>The tag\<close>

text \<open>The words of the tag are digits to the base \<open>2 ^ 32\<close>; the carry of the lowest limb must not meet the next one.\<close>

definition joinable :: "limbs \<Rightarrow> bool" where
  "joinable = (\<lambda>(a, b, c, d, e). unat a < 2 ^ 26 \<or> even (unat b))"

lemma join_low:
  assumes "unat a < 2 ^ 26 \<or> unat a < 2 ^ 27 \<and> even (unat b)"
  shows "unat (a OR push_bit 26 b :: uint32) = unat a + (2 ^ 26 * unat b) mod 2 ^ 32"
proof (cases "unat a < 2 ^ 26")
  case True
  show ?thesis unfolding unat_join[OF True] unat_push_bit by simp
next
  case False
  then have a: "unat a < 2 ^ 27" "even (unat b)" using assms by simp_all
  have eq: "push_bit 26 b = push_bit 27 (drop_bit 1 b)"
    unfolding word_unat_eq_iff unat_push_bit unat_drop_bit using a(2) by (auto simp: mult.assoc elim!: evenE)
  have "unat (a OR push_bit 27 (drop_bit 1 b)) = unat a + unat (push_bit 27 (drop_bit 1 b))" using a(1) by (rule unat_join)
  then show ?thesis unfolding eq[symmetric] unat_push_bit by simp
qed

lemma unat_word_join:
  assumes "unat lo < 2 ^ (s + n)"
  shows "unat (drop_bit s lo OR push_bit n hi :: uint32) = unat lo div 2 ^ s + (2 ^ n * unat hi) mod 2 ^ 32"
proof -
  have "unat (drop_bit s lo) < 2 ^ n"
    unfolding unat_drop_bit using assms by (simp add: div_less_iff_less_mult power_add mult.commute)
  then show ?thesis unfolding unat_join[OF \<open>unat (drop_bit s lo) < 2 ^ n\<close>] unat_push_bit by (simp add: unat_drop_bit)
qed

lemma mult_mod_32: "m + n = 32 \<Longrightarrow> (2 ^ m * x) mod 2 ^ 32 = 2 ^ m * (x mod (2 :: nat) ^ n)"
proof -
  assume "m + n = 32"
  then have "(2 :: nat) ^ 32 = 2 ^ m * 2 ^ n" unfolding power_add[symmetric] by simp
  then show ?thesis by (simp only: mult_mod_right)
qed

lemma val5_words:
  assumes "b = b0 + 2 ^ 6 * b1" "c = c0 + 2 ^ 12 * c1" "d = d0 + 2 ^ 18 * d1" "e = e0 + 2 ^ 24 * e1"
  shows "val5 a b c d e = (a + 2 ^ 26 * b0) + 2 ^ 32 * (b1 + 2 ^ 20 * c0) + 2 ^ 64 * (c1 + 2 ^ 14 * d0) + 2 ^ 96 * (d1 + 2 ^ 8 * e0) + 2 ^ 128 * e1"
  using assms by (simp add: val5_def)

lemma word_sum:
  assumes "f0 = F0 + K0" "f0 = w0 + 2 ^ 32 * c0" "f1 = F1 + K1 + c0" "f1 = w1 + 2 ^ 32 * c1"
    "f2 = F2 + K2 + c1" "f2 = w2 + 2 ^ 32 * c2" "f3 = F3 + K3 + c2" "f3 = w3 + 2 ^ 32 * c3"
  shows "w0 + 2 ^ 32 * w1 + 2 ^ 64 * w2 + 2 ^ 96 * w3 + 2 ^ 128 * (c3 :: nat) =
    (F0 + 2 ^ 32 * F1 + 2 ^ 64 * F2 + 2 ^ 96 * F3) + (K0 + 2 ^ 32 * K1 + 2 ^ 64 * K2 + 2 ^ 96 * K3)"
  using assms by simp

lemma le_val_store [simp]: "le_val (CRYPTO_store_u32_le v) = unat v"
proof -
  have s: "CRYPTO_store_u32_le v = [ucast v, ucast (drop_bit 8 v), ucast (drop_bit 16 v), ucast (drop_bit 24 v)]"
    by (simp add: CRYPTO_store_u32_le_def upt_rec)
  have u: "unat (ucast (w :: uint32) :: byte) = unat w mod 2 ^ 8" for w by (simp add: unsigned_ucast_eq take_bit_eq_mod)
  have "unat v div 2 ^ 24 < 2 ^ 8" using unat_uint32_lt[of v] by (simp add: div_less_iff_less_mult)
  moreover have d: "unat v div 2 ^ n = (unat v div 2 ^ n) mod 2 ^ 8 + 256 * (unat v div 2 ^ (n + 8))" for n
    by (simp add: power_add div_mult2_eq)
  have "unat v = unat v mod 2 ^ 8 + 256 * (unat v div 2 ^ 8)" by simp
  ultimately show ?thesis unfolding s using d[of 8] d[of 16] by (simp add: u unat_drop_bit)
qed

lemma length_poly_tag [simp]: "length (poly_tag key h) = 16"
  by (cases h) (simp add: poly_tag_def Let_def)

lemma poly_tag_correct:
  assumes "carried_ok h" and "joinable h" and "length key = 16"
  shows "le_val (poly_tag key h) = (limbs_val h + le_val key) mod 2 ^ 128"
proof -
  obtain a b c d e where h: "h = (a, b, c, d, e)" by (cases h)
  define F0 where "F0 = (a OR push_bit 26 b)"
  define F1 where "F1 = (drop_bit 6 b OR push_bit 20 c)"
  define F2 where "F2 = (drop_bit 12 c OR push_bit 14 d)"
  define F3 where "F3 = (drop_bit 18 d OR push_bit 8 e)"
  define f0 where "f0 = (ucast F0 + ucast (CRYPTO_load_u32_le key) :: uint64)"
  define f1 where "f1 = (ucast F1 + ucast (CRYPTO_load_u32_le (drop 4 key)) + drop_bit 32 f0 :: uint64)"
  define f2 where "f2 = (ucast F2 + ucast (CRYPTO_load_u32_le (drop 8 key)) + drop_bit 32 f1 :: uint64)"
  define f3 where "f3 = (ucast F3 + ucast (CRYPTO_load_u32_le (drop 12 key)) + drop_bit 32 f2 :: uint64)"
  have tag: "poly_tag key h = CRYPTO_store_u32_le (ucast f0) @ CRYPTO_store_u32_le (ucast f1) @ CRYPTO_store_u32_le (ucast f2) @ CRYPTO_store_u32_le (ucast f3)"
    unfolding poly_tag_def h Let_def prod.case f3_def f2_def f1_def f0_def F0_def F1_def F2_def F3_def by (rule refl)
  have lim: "unat a < 2 ^ 26 \<or> unat a < 2 ^ 27 \<and> even (unat b)" "unat b < 2 ^ 26" "unat c < 2 ^ 26" "unat d < 2 ^ 26" "unat e < 2 ^ 26"
    using assms(1,2) by (auto simp: carried_ok_def joinable_def h)
  have "unat F0 = unat a + 2 ^ 26 * (unat b mod 2 ^ 6)" unfolding F0_def join_low[OF lim(1)] by (simp only: mult_mod_32[of 26 6])
  moreover have "unat F1 = unat b div 2 ^ 6 + 2 ^ 20 * (unat c mod 2 ^ 12)"
    unfolding F1_def using lim(2) by (subst unat_word_join) (simp_all add: mult_mod_32[of 20 12, simplified])
  moreover have "unat F2 = unat c div 2 ^ 12 + 2 ^ 14 * (unat d mod 2 ^ 18)"
    unfolding F2_def using lim(3) by (subst unat_word_join) (simp_all add: mult_mod_32[of 14 18, simplified])
  moreover have "unat F3 = unat d div 2 ^ 18 + 2 ^ 8 * (unat e mod 2 ^ 24)"
    unfolding F3_def using lim(4) by (subst unat_word_join) (simp_all add: mult_mod_32[of 8 24, simplified])
  ultimately have "limbs_val h = unat F0 + 2 ^ 32 * unat F1 + 2 ^ 64 * unat F2 + 2 ^ 96 * unat F3 + 2 ^ 128 * (unat e div 2 ^ 24)"
    unfolding limbs_val_def h prod.case by (simp only:) (rule val5_words; simp)
  moreover have "le_val key = unat (CRYPTO_load_u32_le key) + 2 ^ 32 * unat (CRYPTO_load_u32_le (drop 4 key)) +
      2 ^ 64 * unat (CRYPTO_load_u32_le (drop 8 key)) + 2 ^ 96 * unat (CRYPTO_load_u32_le (drop 12 key))"
    unfolding unat_load_u32 by (rule le_val_words[OF assms(3)])
  moreover have add3: "unat (ucast x + ucast y + drop_bit 32 z :: uint64) = unat x + unat y + unat z div 2 ^ 32" for x y :: uint32 and z :: uint64
  proof -
    have "unat z div 2 ^ 32 < 2 ^ 32" using unsigned_less[of z] by (simp add: div_less_iff_less_mult)
    then show ?thesis using unat_uint32_lt[of x] unat_uint32_lt[of y] by (simp add: unat_add64 unat_drop_bit)
  qed
  have f: "unat f1 = unat F1 + unat (CRYPTO_load_u32_le (drop 4 key)) + unat f0 div 2 ^ 32"
      "unat f2 = unat F2 + unat (CRYPTO_load_u32_le (drop 8 key)) + unat f1 div 2 ^ 32"
      "unat f3 = unat F3 + unat (CRYPTO_load_u32_le (drop 12 key)) + unat f2 div 2 ^ 32"
    unfolding f1_def f2_def f3_def by (rule add3)+
  have f0: "unat f0 = unat F0 + unat (CRYPTO_load_u32_le key)"
    unfolding f0_def using unat_uint32_lt[of F0] unat_uint32_lt[of "CRYPTO_load_u32_le key"] by (simp add: unat_add64)
  have split: "unat x = unat x mod 2 ^ 32 + 2 ^ 32 * (unat x div 2 ^ 32)" for x :: uint64 by simp
  have words: "le_val (poly_tag key h) = unat f0 mod 2 ^ 32 + 2 ^ 32 * (unat f1 mod 2 ^ 32) + 2 ^ 64 * (unat f2 mod 2 ^ 32) + 2 ^ 96 * (unat f3 mod 2 ^ 32)"
    unfolding tag by (simp add: le_val_append unat_ucast_32)
  have "le_val (poly_tag key h) + 2 ^ 128 * (unat f3 div 2 ^ 32) =
      (unat F0 + 2 ^ 32 * unat F1 + 2 ^ 64 * unat F2 + 2 ^ 96 * unat F3) +
      (unat (CRYPTO_load_u32_le key) + 2 ^ 32 * unat (CRYPTO_load_u32_le (drop 4 key)) +
       2 ^ 64 * unat (CRYPTO_load_u32_le (drop 8 key)) + 2 ^ 96 * unat (CRYPTO_load_u32_le (drop 12 key)))"
    unfolding words by (rule word_sum[OF f0 split f(1) split f(2) split f(3) split])
  ultimately have "limbs_val h + le_val key = le_val (poly_tag key h) + 2 ^ 128 * (unat f3 div 2 ^ 32 + unat e div 2 ^ 24)"
    by (simp only: distrib_left add.assoc add.commute add.left_commute)
  then have "(limbs_val h + le_val key) mod 2 ^ 128 = le_val (poly_tag key h) mod 2 ^ 128" by (simp only: mod_mult_self2)
  then show ?thesis using le_val_bound[of "poly_tag key h"] by simp
qed

lemma limbs_ok_carried: "limbs_ok h \<Longrightarrow> carried_ok h \<and> joinable h"
  by (auto simp: limbs_ok_def carried_ok_def joinable_def)

subsection \<open>Correctness\<close>

text \<open>
  The authenticator of RFC 8439: the message as a polynomial in the clamped first half of the key, reduced, plus the
  second half of the key.
\<close>

definition poly1305_value :: "byte list \<Rightarrow> byte list \<Rightarrow> nat" where
  "poly1305_value key msg = poly_acc (le_val (take 16 key) AND clamp) 0 msg"

definition poly1305_spec :: "byte list \<Rightarrow> byte list \<Rightarrow> byte list" where
  "poly1305_spec key msg = rev (be_bytes 16 ((poly1305_value key msg + le_val (take 16 (drop 16 key))) mod 2 ^ 128))"

text \<open>The values for which the tag is computed from a lowest limb that overlaps the next one.\<close>

definition carry_lost :: "nat \<Rightarrow> bool" where
  "carry_lost v \<longleftrightarrow> v mod 2 ^ 26 < 5 \<and> 2 \<le> v div 2 ^ 26 \<and> v div 2 ^ 26 \<le> 42 \<and> even (v div 2 ^ 26)"

lemma carried_value:
  assumes "carried_ok h" and "\<not> joinable h"
  shows "carry_lost (limbs_val h)"
proof -
  obtain a b c d e where h: "h = (a, b, c, d, e)" by (cases h)
  have b: "unat b < 42" "odd (unat b)" and a: "2 ^ 26 \<le> unat a" "unat a < 2 ^ 26 + 5" and z: "c = 0" "d = 0" "e = 0"
    using assms by (auto simp: carried_ok_def joinable_def h)
  obtain x where x: "unat a = x + 2 ^ 26" "x < 5" using a le_Suc_ex[OF a(1)] by auto
  have v: "limbs_val h = x + 2 ^ 26 * (unat b + 1)" by (simp add: limbs_val_def h z x val5_def)
  have "limbs_val h mod 2 ^ 26 = x" "limbs_val h div 2 ^ 26 = unat b + 1" unfolding v using x(2) by (simp_all only: mod_mult_self2) simp_all
  moreover have "2 \<le> unat b + 1" using b(2) by (cases "unat b") simp_all
  ultimately show ?thesis using x b by (simp add: carry_lost_def)
qed

lemma le_val_inj: "length x = 16 \<Longrightarrow> length y = 16 \<Longrightarrow> le_val x = le_val y \<Longrightarrow> x = y"
  unfolding le_val_def using be_val_inj[of "rev x" "rev y"] by simp

lemma poly1305_tag:
  assumes "length key = 32" and "holds (CRYPTO_poly1305_init key) st msg" and "\<not> carry_lost (poly1305_value key msg)"
  shows "CRYPTO_poly1305_finish st = poly1305_spec key msg"
proof -
  let ?st0 = "CRYPTO_poly1305_init key"
  note init = init_correct[OF assms(1)]
  have upd: "state_ok (poly1305_update msg ?st0)" "limbs_val (poly_h (poly1305_update msg ?st0)) mod P1305 = poly1305_value key msg"
    using poly1305_update_correct[of ?st0 msg] init by (simp_all add: poly1305_value_def)
  define h where "h = poly_carry (poly_h (poly1305_update msg ?st0))"
  obtain q where h: "carried_ok h" "limbs_val (poly_h (poly1305_update msg ?st0)) = limbs_val h + P1305 * q"
    using poly_carry_correct[of "poly_h (poly1305_update msg ?st0)"] upd(1) unfolding h_def state_ok_def by blast
  then have v: "limbs_val (poly_select h) = poly1305_value key msg"
    using poly_select_correct[OF h(1)] upd(2) by simp
  have "carried_ok (poly_select h)" using poly_select_correct[OF h(1)] h(1) limbs_ok_carried[of "poly_select h"] by auto
  moreover from this have "joinable (poly_select h)" using carried_value[of "poly_select h"] assms(3) v by auto
  moreover have "poly_key ?st0 = take 16 (drop 16 key)" by (simp add: CRYPTO_poly1305_init_def Let_def)
  ultimately have "le_val (CRYPTO_poly1305_finish st) = (poly1305_value key msg + le_val (take 16 (drop 16 key))) mod 2 ^ 128"
    using poly_tag_correct[of "poly_select h" "take 16 (drop 16 key)"] assms(1) v unfolding holds_finish[OF assms(2)] h_def[symmetric] by simp
  then show ?thesis
    by (intro le_val_inj) (simp_all add: holds_finish[OF assms(2)] poly1305_spec_def le_val_def)
qed

lemma holds_fold: "holds st0 st msg \<Longrightarrow> holds st0 (fold CRYPTO_poly1305_update pieces st) (msg @ concat pieces)"
  by (induction pieces arbitrary: st msg) (use holds_update in fastforce)+

lemma holds_pieces: "holds (CRYPTO_poly1305_init key) (fold CRYPTO_poly1305_update pieces (CRYPTO_poly1305_init key)) (concat pieces)"
proof -
  have "holds (CRYPTO_poly1305_init key) (CRYPTO_poly1305_init key) []"
    by (rule holds_init) (simp_all add: CRYPTO_poly1305_init_def Let_def)
  then show ?thesis using holds_fold[of _ _ "[]"] by simp
qed

text \<open>
  (C32) The state of Poly1305 stays well-formed: after any number of updates with pieces of any lengths the limbs of
  the multiplier are within their 26 bits (the highest 20), their multiples by 5 are in step with them, every limb of the accumulator is
  within the width for which the sums of five products fit 64 bits (the lowest below \<open>42 * 2 ^ 26\<close>, the others
  below \<open>2 ^ 26\<close>), and fewer than 16 bytes are buffered.
\<close>

theorem poly1305_state_type:
  assumes "length key = 32"
  shows "let st = fold CRYPTO_poly1305_update pieces (CRYPTO_poly1305_init key)
    in state_ok st \<and> poly_buf_used st = length (poly_buf st) \<and> poly_buf_used st < 16"
proof -
  obtain pre rest where st: "length rest < 16"
      "fold CRYPTO_poly1305_update pieces (CRYPTO_poly1305_init key) = with_buf rest (poly1305_update pre (CRYPTO_poly1305_init key))"
    using holds_pieces[of key pieces] by (auto simp: holds_def)
  have "state_ok (poly1305_update pre (CRYPTO_poly1305_init key))" using poly1305_update_correct init_correct[OF assms] by blast
  then show ?thesis unfolding st(2) Let_def using st(1) by (simp add: state_ok_def with_buf_def)
qed

theorem poly1305_state_type_witness:
  "let st = fold CRYPTO_poly1305_update [[1, 2], [], [3]] (CRYPTO_poly1305_init (1 # replicate 31 0))
   in state_ok st \<and> poly_buf_used st = length (poly_buf st) \<and> poly_buf_used st < 16"
  by (rule poly1305_state_type) simp

text \<open>
  (C8) Poly1305 is computed correctly except when a carry is lost. For every key of 32 bytes and every message, given to
  \<open>CRYPTO_poly1305_update\<close> in any number of pieces of any lengths, the tag is the one of RFC 8439, unless the reduced
  value of the polynomial is one of the 105 for which \<open>CRYPTO_poly1305_finish\<close> may drop a carry.
\<close>

theorem poly1305_correct:
  assumes "length key = 32" and "\<not> carry_lost (poly1305_value key (concat pieces))"
  shows "CRYPTO_poly1305_finish (fold CRYPTO_poly1305_update pieces (CRYPTO_poly1305_init key)) = poly1305_spec key (concat pieces)"
  by (rule poly1305_tag[OF assms(1) holds_pieces assms(2)])

theorem poly1305_correct_witness:
  "CRYPTO_poly1305_finish (fold CRYPTO_poly1305_update [[1, 2], [], [3]] (CRYPTO_poly1305_init (1 # replicate 31 0))) =
     poly1305_spec (1 # replicate 31 0) [1, 2, 3]"
proof -
  have "poly1305_value (1 # replicate 31 0) [1, 2, 3] = 0x1030201"
    by (simp add: poly1305_value_def clamp_def poly_acc.simps[of _ _ "[1, 2, 3]"] poly_acc.simps[of _ _ "[]"])
  then show ?thesis using poly1305_correct[of "1 # replicate 31 0" "[[1, 2], [], [3]]"] by (simp add: carry_lost_def)
qed

text \<open>
  (C33) The dropped carry. With this key the polynomial of this message of one block has the value \<open>2 ^ 27\<close>
  modulo \<open>2 ^ 130 - 5\<close>; the final reduction leaves the lowest limb at \<open>2 ^ 26\<close> or more, \<open>f0 = h0 | (h1 << 26)\<close> joins the two
  limbs by OR instead of adding them, and the tag is not the one of RFC 8439.
\<close>

theorem poly1305_lost_carry:
  "let key = [0x2d, 0x5f, 0x33, 3] @ replicate 28 0;
       msg = [0x46, 0xaf, 0xf4, 0x57, 0x80, 0x99, 0xc9, 0x33, 0x8d, 0xff, 0xe5, 0xc1, 0x1d, 0x31, 0xf2, 0xff]
   in CRYPTO_poly1305_finish (CRYPTO_poly1305_update msg (CRYPTO_poly1305_init key)) = [0, 0, 0, 4] @ replicate 12 0 \<and>
      poly1305_spec key msg = [0, 0, 0, 8] @ replicate 12 0"
proof -
  let ?key = "[0x2d, 0x5f, 0x33, 3] @ replicate 28 0 :: byte list"
  let ?msg = "[0x46, 0xaf, 0xf4, 0x57, 0x80, 0x99, 0xc9, 0x33, 0x8d, 0xff, 0xe5, 0xc1, 0x1d, 0x31, 0xf2, 0xff] :: byte list"
  have "CRYPTO_poly1305_finish (CRYPTO_poly1305_update ?msg (CRYPTO_poly1305_init ?key)) = [0, 0, 0, 4] @ replicate 12 0" by code_simp
  moreover have "poly1305_value ?key ?msg = 2 ^ 27"
    by (simp add: poly1305_value_def clamp_def poly_acc.simps[of _ _ ?msg] poly_acc.simps[of _ _ "[]"])
  then have "poly1305_spec ?key ?msg = [0, 0, 0, 8] @ replicate 12 0"
    by (intro le_val_inj) (simp_all add: poly1305_spec_def le_val_def[of "rev _"] le_val_append)
  ultimately show ?thesis unfolding Let_def by (rule conjI)
qed

end
