(* ===== verification/Chacha20_Poly1305.thy ===== *)
theory Chacha20_Poly1305
  imports Evp_Aead Poly1305_Tag
begin

text \<open>
  The algorithms \<open>EVP_aead_chacha20_poly1305\<close> and \<open>EVP_aead_xchacha20_poly1305\<close>, \<open>crypto/cipher/e_chacha20poly1305.cc\<close>,
  on processors without the combined assembly routines (\<open>chacha20_poly1305_asm_capable\<close> is 0). The state of a context
  is the key. A method that fails leaves the buffers to its caller, which clears them. Shown: the result is the construction of
  RFC 8439, however the message is divided between the input and the extra input, and what was sealed is opened.
\<close>

abbreviation (input) "POLY1305_TAG_LEN \<equiv> (16 :: nat)"

definition aead_chacha20_poly1305_init :: "byte list \<Rightarrow> nat \<Rightarrow> (byte list \<times> nat) option" where
  "aead_chacha20_poly1305_init key tag_len0 =
     (let tag_len = (if tag_len0 = 0 then POLY1305_TAG_LEN else tag_len0) in
      if tag_len > POLY1305_TAG_LEN then None else if length key \<noteq> 32 then None else Some (key, tag_len))"

primrec length_bytes :: "nat \<Rightarrow> nat \<Rightarrow> byte list" where
  "length_bytes 0 data_len = []"
| "length_bytes (Suc n) data_len = of_nat data_len # length_bytes n (data_len div 256)"

definition poly1305_update_length :: "nat \<Rightarrow> poly1305_state_st \<Rightarrow> poly1305_state_st" where
  "poly1305_update_length data_len = CRYPTO_poly1305_update (length_bytes 8 data_len)"

definition calc_tag :: "byte list \<Rightarrow> byte list \<Rightarrow> byte list \<Rightarrow> byte list \<Rightarrow> byte list \<Rightarrow> byte list" where
  "calc_tag key nonce ad ciphertext ciphertext_extra =
     (let poly1305_key = CRYPTO_chacha_20 (replicate 32 0) key nonce 0;
          pad = (\<lambda>n st. if n mod 16 \<noteq> 0 then CRYPTO_poly1305_update (replicate (16 - n mod 16) 0) st else st);
          ctx1 = pad (length ad) (CRYPTO_poly1305_update ad (CRYPTO_poly1305_init poly1305_key));
          ctx2 = CRYPTO_poly1305_update ciphertext_extra (CRYPTO_poly1305_update ciphertext ctx1);
          ciphertext_total = length ciphertext + length ciphertext_extra
      in CRYPTO_poly1305_finish (poly1305_update_length ciphertext_total (poly1305_update_length (length ad) (pad ciphertext_total ctx2))))"

text \<open>The loop that encrypts the extra input, a block of the key stream at a time, from \<open>offset\<close> in the first.\<close>

function encrypt_extra :: "byte list \<Rightarrow> byte list \<Rightarrow> uint32 \<Rightarrow> nat \<Rightarrow> byte list \<Rightarrow> byte list" where
  "encrypt_extra key nonce block_counter offset extra_in =
     (if extra_in = [] then []
      else let block = CRYPTO_chacha_20 (replicate 64 0) key nonce block_counter
           in map2 (XOR) extra_in (drop offset block) @
              encrypt_extra key nonce (block_counter + 1) 0 (drop (64 - offset) extra_in))"
  by pat_completeness auto
termination by (relation "measures [\<lambda>(_, _, _, _, e). length e, \<lambda>(_, _, _, off, _). off]") (auto intro: diff_less)

declare encrypt_extra.simps [simp del]

definition chacha20_poly1305_seal_scatter ::
  "byte list \<Rightarrow> nat \<Rightarrow> byte list \<Rightarrow> byte list \<Rightarrow> byte list \<Rightarrow> byte list \<Rightarrow> nat \<Rightarrow> (byte list \<times> byte list) option" where
  "chacha20_poly1305_seal_scatter key max_out_tag_len nonce inp extra_in ad tag_len =
     (let in_len = length inp; extra_in_len = length extra_in in
      if (extra_in_len + tag_len) mod 2 ^ 64 < tag_len then None
      else if max_out_tag_len < (tag_len + extra_in_len) mod 2 ^ 64 then None
      else if length nonce \<noteq> 12 then None
      else if in_len \<ge> 2 ^ 32 * 64 - 64 then None
      else if max_out_tag_len < tag_len then None
      else let extra = (if extra_in_len \<noteq> 0 then encrypt_extra key nonce (of_nat (1 + in_len div 64)) (in_len mod 64) extra_in else []);
               out = CRYPTO_chacha_20 inp key nonce 1
           in Some (out, extra @ take tag_len (calc_tag key nonce ad out extra)))"

definition CRYPTO_memcmp :: "byte list \<Rightarrow> byte list \<Rightarrow> nat \<Rightarrow> byte" where
  "CRYPTO_memcmp a b len = fold (\<lambda>i x. x OR (a ! i XOR b ! i)) [0..<len] 0"

definition chacha20_poly1305_open_gather ::
  "byte list \<Rightarrow> byte list \<Rightarrow> byte list \<Rightarrow> byte list \<Rightarrow> byte list \<Rightarrow> nat \<Rightarrow> byte list option" where
  "chacha20_poly1305_open_gather key nonce inp in_tag ad tag_len =
     (if length nonce \<noteq> 12 then None
      else if length in_tag \<noteq> tag_len then None
      else if length inp \<ge> 2 ^ 32 * 64 - 64 then None
      else let tag = calc_tag key nonce ad inp []; out = CRYPTO_chacha_20 inp key nonce 1
           in if CRYPTO_memcmp tag in_tag tag_len \<noteq> 0 then None else Some out)"

subsection \<open>The methods\<close>

definition aead_chacha20_poly1305_seal_scatter ::
  "byte list \<Rightarrow> nat \<Rightarrow> nat \<Rightarrow> byte list \<Rightarrow> byte list \<Rightarrow> byte list \<Rightarrow> byte list \<Rightarrow> (byte list \<times> byte list) option \<times> byte list" where
  "aead_chacha20_poly1305_seal_scatter key tag_len max_out_tag_len nonce inp extra_in ad =
     (chacha20_poly1305_seal_scatter key max_out_tag_len nonce inp extra_in ad tag_len, key)"

definition aead_chacha20_poly1305_open_gather ::
  "byte list \<Rightarrow> nat \<Rightarrow> byte list \<Rightarrow> byte list \<Rightarrow> byte list \<Rightarrow> byte list \<Rightarrow> byte list option \<times> byte list" where
  "aead_chacha20_poly1305_open_gather key tag_len nonce inp in_tag ad =
     (chacha20_poly1305_open_gather key nonce inp in_tag ad tag_len, key)"

definition aead_xchacha20_poly1305_seal_scatter ::
  "byte list \<Rightarrow> nat \<Rightarrow> nat \<Rightarrow> byte list \<Rightarrow> byte list \<Rightarrow> byte list \<Rightarrow> byte list \<Rightarrow> (byte list \<times> byte list) option \<times> byte list" where
  "aead_xchacha20_poly1305_seal_scatter key tag_len max_out_tag_len nonce inp extra_in ad =
     (if length nonce \<noteq> 24 then (None, key)
      else let derived_key = CRYPTO_hchacha20 key nonce; derived_nonce = replicate 4 0 @ take 8 (drop 16 nonce)
           in (chacha20_poly1305_seal_scatter derived_key max_out_tag_len derived_nonce inp extra_in ad tag_len, key))"

definition aead_xchacha20_poly1305_open_gather ::
  "byte list \<Rightarrow> nat \<Rightarrow> byte list \<Rightarrow> byte list \<Rightarrow> byte list \<Rightarrow> byte list \<Rightarrow> byte list option \<times> byte list" where
  "aead_xchacha20_poly1305_open_gather key tag_len nonce inp in_tag ad =
     (if length nonce \<noteq> 24 then (None, key)
      else let derived_key = CRYPTO_hchacha20 key nonce; derived_nonce = replicate 4 0 @ take 8 (drop 16 nonce)
           in (chacha20_poly1305_open_gather derived_key derived_nonce inp in_tag ad tag_len, key))"

definition aead_chacha20_poly1305 :: "byte list EVP_AEAD" where
  "aead_chacha20_poly1305 =
     \<lparr>ae_key_len = 32, ae_nonce_len = 12, ae_overhead = POLY1305_TAG_LEN, ae_max_tag_len = POLY1305_TAG_LEN,
      ae_supports_extra_in = True, ae_init = Some aead_chacha20_poly1305_init, ae_init_with_direction = (\<lambda>_ _ _. None),
      ae_open = None, ae_seal_scatter = aead_chacha20_poly1305_seal_scatter,
      ae_open_gather = Some aead_chacha20_poly1305_open_gather, ae_get_iv = None, ae_tag_len = None\<rparr>"

definition aead_xchacha20_poly1305 :: "byte list EVP_AEAD" where
  "aead_xchacha20_poly1305 =
     \<lparr>ae_key_len = 32, ae_nonce_len = 24, ae_overhead = POLY1305_TAG_LEN, ae_max_tag_len = POLY1305_TAG_LEN,
      ae_supports_extra_in = True, ae_init = Some aead_chacha20_poly1305_init, ae_init_with_direction = (\<lambda>_ _ _. None),
      ae_open = None, ae_seal_scatter = aead_xchacha20_poly1305_seal_scatter,
      ae_open_gather = Some aead_xchacha20_poly1305_open_gather, ae_get_iv = None, ae_tag_len = None\<rparr>"

subsection \<open>The ciphertext\<close>

lemma chacha_block: "CRYPTO_chacha_20 (replicate 64 0) key nonce counter = map (key_stream key nonce counter) [0..<64]"
  by (rule nth_equalityI) (simp_all add: chacha_20_stream)

lemma key_stream_block: "j < 64 \<Longrightarrow> key_stream key nonce (1 + of_nat (i div 64)) j = key_stream key nonce 1 (64 * (i div 64) + j)"
  by (simp add: key_stream_def)

lemma encrypt_extra_stream:
  "encrypt_extra key nonce (1 + of_nat (i div 64)) (i mod 64) extra =
     map (\<lambda>j. extra ! j XOR key_stream key nonce 1 (i + j)) [0..<length extra]"
proof (induction "length extra" arbitrary: extra i rule: less_induct)
  case less
  show ?case
  proof (cases "extra = []")
    case False
    define off where "off = i mod 64"
    have off: "off < 64" "i = 64 * (i div 64) + off" by (simp_all add: off_def)
    let ?n = "64 - off"
    define first where "first = map2 (XOR) extra (drop off (map (key_stream key nonce (1 + of_nat (i div 64))) [0..<64]))"
    have run: "encrypt_extra key nonce (1 + of_nat (i div 64)) off extra =
        first @ encrypt_extra key nonce (1 + of_nat ((i + ?n) div 64)) ((i + ?n) mod 64) (drop ?n extra)"
    proof -
      have "i + ?n = 64 * Suc (i div 64)" using off by simp
      then have eqs: "(i + ?n) div 64 = Suc (i div 64)" "(i + ?n) mod 64 = 0" by simp_all
      have counter: "1 + of_nat (Suc k) = 1 + of_nat k + (1 :: uint32)" for k by simp
      show ?thesis unfolding eqs counter using False
        by (subst encrypt_extra.simps) (simp only: first_def chacha_block Let_def if_False)
    qed
    have rest: "encrypt_extra key nonce (1 + of_nat ((i + ?n) div 64)) ((i + ?n) mod 64) (drop ?n extra) =
        map (\<lambda>j. drop ?n extra ! j XOR key_stream key nonce 1 (i + ?n + j)) [0..<length (drop ?n extra)]"
      using off(1) False by (intro less) (cases extra; simp)
    have "first ! j = extra ! j XOR key_stream key nonce 1 (i + j)" if "j < length extra" "j < ?n" for j
      using that off key_stream_block[of "off + j" key nonce i] by (simp add: first_def add.assoc[symmetric])
    then show ?thesis unfolding off_def[symmetric] run rest
      by (intro nth_equalityI) (auto simp: nth_append first_def)
  qed (simp add: encrypt_extra.simps)
qed

lemma ciphertext_joined:
  "CRYPTO_chacha_20 inp key nonce 1 @ encrypt_extra key nonce (of_nat (1 + length inp div 64)) (length inp mod 64) extra =
     CRYPTO_chacha_20 (inp @ extra) key nonce 1"
  unfolding chacha_20_append using encrypt_extra_stream[of key nonce "length inp" extra] by simp

subsection \<open>The tag\<close>

text \<open>What is authenticated, RFC 8439, section 2.8.\<close>

definition pad16 :: "nat \<Rightarrow> byte list" where
  "pad16 n = replicate ((16 - n mod 16) mod 16) 0"

definition mac_data :: "byte list \<Rightarrow> byte list \<Rightarrow> byte list" where
  "mac_data ad ciphertext =
     ad @ pad16 (length ad) @ ciphertext @ pad16 (length ciphertext) @ length_bytes 8 (length ad) @ length_bytes 8 (length ciphertext)"

definition one_time_key :: "byte list \<Rightarrow> byte list \<Rightarrow> byte list" where
  "one_time_key key nonce = CRYPTO_chacha_20 (replicate 32 0) key nonce 0"

lemma holds_pad:
  "holds st0 st msg \<Longrightarrow> holds st0 (if n mod 16 \<noteq> 0 then CRYPTO_poly1305_update (replicate (16 - n mod 16) 0) st else st) (msg @ pad16 n)"
  using holds_update[of st0 st msg "replicate (16 - n mod 16) 0"] by (simp add: pad16_def)

lemma calc_tag_holds:
  "\<exists>st. holds (CRYPTO_poly1305_init (one_time_key key nonce)) st (mac_data ad (ct @ extra)) \<and>
     calc_tag key nonce ad ct extra = CRYPTO_poly1305_finish st"
proof -
  let ?st0 = "CRYPTO_poly1305_init (one_time_key key nonce)"
  have "holds ?st0 ?st0 []" by (rule holds_init) (simp_all add: CRYPTO_poly1305_init_def Let_def)
  from holds_pad[OF holds_update[OF this, of ad], of "length ad"]
  have ctx1: "holds ?st0 (if length ad mod 16 \<noteq> 0 then CRYPTO_poly1305_update (replicate (16 - length ad mod 16) 0) (CRYPTO_poly1305_update ad ?st0)
      else CRYPTO_poly1305_update ad ?st0) (ad @ pad16 (length ad))" by simp
  show ?thesis unfolding calc_tag_def Let_def one_time_key_def[symmetric] poly1305_update_length_def
    using holds_update[OF holds_update[OF holds_pad[OF holds_update[OF holds_update[OF ctx1, of ct], of extra], of "length ct + length extra"],
      of "length_bytes 8 (length ad)"], of "length_bytes 8 (length ct + length extra)"]
    by (intro exI conjI, simp_all add: mac_data_def)
qed

lemma calc_tag_joined: "calc_tag key nonce ad ct extra = calc_tag key nonce ad (ct @ extra) []"
proof -
  obtain st st' where
    a: "holds (CRYPTO_poly1305_init (one_time_key key nonce)) st (mac_data ad (ct @ extra))" "calc_tag key nonce ad ct extra = CRYPTO_poly1305_finish st"
    and b: "holds (CRYPTO_poly1305_init (one_time_key key nonce)) st' (mac_data ad (ct @ extra))"
      "calc_tag key nonce ad (ct @ extra) [] = CRYPTO_poly1305_finish st'"
    using calc_tag_holds[of key nonce ad ct extra] calc_tag_holds[of key nonce ad "ct @ extra" "[]"] by auto
  show ?thesis unfolding a(2) b(2) holds_finish[OF a(1)] holds_finish[OF b(1)] ..
qed

lemma length_calc_tag [simp]: "length (calc_tag key nonce ad ct extra) = 16"
  using calc_tag_holds[of key nonce ad ct extra] by (auto simp: holds_finish)

lemma memcmp_zero:
  assumes "length a \<ge> n" and "length b = n"
  shows "CRYPTO_memcmp a b n = 0 \<longleftrightarrow> take n a = b"
proof -
  have x: "v XOR w = 0 \<longleftrightarrow> v = w" for v w :: byte
  proof
    assume "v XOR w = 0"
    moreover have "v = (v XOR w) XOR w" by (simp only: xor.assoc xor_self_eq xor.right_neutral)
    ultimately show "v = w" by simp
  qed simp
  have f: "fold (\<lambda>i x. x OR (a ! i XOR b ! i)) is x0 = 0 \<longleftrightarrow> x0 = 0 \<and> (\<forall>i\<in>set is. a ! i = b ! i)" for "is" and x0 :: byte
    by (induction "is" arbitrary: x0) (auto simp: or_eq_0_iff x)
  have n: "length (take n a) = n" using assms(1) by simp
  show ?thesis unfolding CRYPTO_memcmp_def f list_eq_iff_nth_eq[of "take n a"] n assms(2) by auto
qed

subsection \<open>Opening what was sealed\<close>

lemma seal_scatter_iff:
  "chacha20_poly1305_seal_scatter key m nonce inp extra ad tag_len = Some (out, tag) \<longleftrightarrow>
     tag_len \<le> (length extra + tag_len) mod 2 ^ 64 \<and> (tag_len + length extra) mod 2 ^ 64 \<le> m \<and> length nonce = 12 \<and>
     length inp < 2 ^ 32 * 64 - 64 \<and> tag_len \<le> m \<and>
     out @ tag = CRYPTO_chacha_20 (inp @ extra) key nonce 1 @ take tag_len (calc_tag key nonce ad (CRYPTO_chacha_20 (inp @ extra) key nonce 1) []) \<and>
     length out = length inp"
  (is "?l = ?r")
proof -
  define e where "e = (if length extra \<noteq> 0 then encrypt_extra key nonce (of_nat (1 + length inp div 64)) (length inp mod 64) extra else [])"
  have e: "e = encrypt_extra key nonce (of_nat (1 + length inp div 64)) (length inp mod 64) extra"
    by (simp add: e_def encrypt_extra.simps[of _ _ _ _ "[]"])
  let ?ct = "CRYPTO_chacha_20 inp key nonce 1"
  have all: "CRYPTO_chacha_20 (inp @ extra) key nonce 1 = ?ct @ e" unfolding e ciphertext_joined ..
  have "?l \<longleftrightarrow> tag_len \<le> (length extra + tag_len) mod 2 ^ 64 \<and> (tag_len + length extra) mod 2 ^ 64 \<le> m \<and> length nonce = 12 \<and>
     length inp < 2 ^ 32 * 64 - 64 \<and> tag_len \<le> m \<and> out = ?ct \<and> tag = e @ take tag_len (calc_tag key nonce ad ?ct e)"
    unfolding chacha20_poly1305_seal_scatter_def Let_def e_def[symmetric] by auto
  moreover have "out = ?ct \<and> tag = e @ take tag_len (calc_tag key nonce ad ?ct e) \<longleftrightarrow>
      out @ tag = (?ct @ e) @ take tag_len (calc_tag key nonce ad (?ct @ e) []) \<and> length out = length inp"
    unfolding calc_tag_joined[of _ _ _ ?ct e] by (auto simp: append_eq_append_conv)
  ultimately show ?thesis unfolding all by blast
qed

lemma open_gather_iff:
  assumes "tag_len \<le> 16"
  shows "chacha20_poly1305_open_gather key nonce ct tag ad tag_len = Some out \<longleftrightarrow>
     length nonce = 12 \<and> length ct < 2 ^ 32 * 64 - 64 \<and> tag = take tag_len (calc_tag key nonce ad ct []) \<and> out = CRYPTO_chacha_20 ct key nonce 1"
proof -
  have "length tag = tag_len \<Longrightarrow> CRYPTO_memcmp (calc_tag key nonce ad ct []) tag tag_len = 0 \<longleftrightarrow> take tag_len (calc_tag key nonce ad ct []) = tag"
    using assms by (intro memcmp_zero) simp_all
  then show ?thesis using assms unfolding chacha20_poly1305_open_gather_def Let_def by auto
qed

lemma open_seal:
  assumes "chacha20_poly1305_seal_scatter key m nonce inp extra ad tag_len = Some (out, tag)" and "tag_len \<le> 16"
    and "length inp + length extra < 2 ^ 32 * 64 - 64"
  defines "n \<equiv> length (out @ tag) - tag_len"
  shows "chacha20_poly1305_open_gather key nonce (take n (out @ tag)) (drop n (out @ tag)) ad tag_len = Some (inp @ extra)"
    and "length out = length inp" and "length tag = length extra + tag_len" and "n = length inp + length extra"
proof -
  let ?ct = "CRYPTO_chacha_20 (inp @ extra) key nonce 1"
  have s: "length nonce = 12" "out @ tag = ?ct @ take tag_len (calc_tag key nonce ad ?ct [])" "length out = length inp"
    using assms(1) unfolding seal_scatter_iff by blast+
  have len: "length (out @ tag) = length ?ct + tag_len" unfolding s(2) using assms(2) by simp
  then show n: "n = length inp + length extra" by (simp add: n_def)
  then have "take n (out @ tag) = ?ct" "drop n (out @ tag) = take tag_len (calc_tag key nonce ad ?ct [])" unfolding s(2) by simp_all
  then show "chacha20_poly1305_open_gather key nonce (take n (out @ tag)) (drop n (out @ tag)) ad tag_len = Some (inp @ extra)"
    unfolding open_gather_iff[OF assms(2)] using s(1) assms(3) by (simp add: chacha_20_involution)
  show "length out = length inp" by (rule s(3))
  then show "length tag = length extra + tag_len" using len by simp
qed

text \<open>
  (C16) ChaCha20-Poly1305 opens exactly what it seals: with a given key, nonce and additional data, a ciphertext and tag
  are accepted, and opened to \<open>out\<close>, if and only if sealing \<open>out\<close> gives this ciphertext and this tag. Every other
  byte string is refused.
\<close>

theorem chacha20_poly1305_opens_sealed:
  assumes "tag_len \<le> 16"
  shows "chacha20_poly1305_open_gather key nonce ct tag ad tag_len = Some out \<longleftrightarrow>
    chacha20_poly1305_seal_scatter key tag_len nonce out [] ad tag_len = Some (ct, tag)"
proof -
  define A where "A \<longleftrightarrow> ct @ tag = CRYPTO_chacha_20 out key nonce 1 @ take tag_len (calc_tag key nonce ad (CRYPTO_chacha_20 out key nonce 1) []) \<and>
    length ct = length out"
  define B where "B \<longleftrightarrow> tag = take tag_len (calc_tag key nonce ad ct []) \<and> out = CRYPTO_chacha_20 ct key nonce 1"
  have AB: "A \<longleftrightarrow> B" unfolding A_def B_def by (auto simp: append_eq_append_conv chacha_20_involution)
  have len: "B \<Longrightarrow> length ct = length out" by (simp add: B_def)
  have t: "(length ([] :: byte list) + tag_len) mod 2 ^ 64 = tag_len" "(tag_len + length ([] :: byte list)) mod 2 ^ 64 = tag_len"
    using assms by simp_all
  show ?thesis unfolding open_gather_iff[OF assms] seal_scatter_iff t append_Nil2 A_def[symmetric] B_def[symmetric] AB using len by auto
qed

theorem chacha20_poly1305_opens_sealed_witness:
  "chacha20_poly1305_open_gather (replicate 32 1) (replicate 12 2) [3, 4] (replicate 16 0) [5] 16 = Some [6, 7] \<longleftrightarrow>
     chacha20_poly1305_seal_scatter (replicate 32 1) 16 (replicate 12 2) [6, 7] [] [5] 16 = Some ([3, 4], replicate 16 0)"
  by (rule chacha20_poly1305_opens_sealed) simp

text \<open>
  (C17) Sealing is the construction of RFC 8439, also when the last bytes of the message come as extra input and are encrypted
  separately: the ciphertext is the message combined with the key stream from block 1, block 0 gives the one-time key, and the tag is
  the Poly1305 tag of the padded additional data, the padded ciphertext and their lengths, unless a carry is lost.
\<close>

theorem chacha20_poly1305_rfc8439:
  assumes "length nonce = 12" and "length inp < 2 ^ 38 - 64" and "tag_len \<le> 16" and "tag_len + length extra \<le> max_out_tag_len"
    and "max_out_tag_len < 2 ^ 64"
  shows "\<exists>out tag. chacha20_poly1305_seal_scatter key max_out_tag_len nonce inp extra ad tag_len = Some (out, tag) \<and> length out = length inp \<and>
    (let ct = map (\<lambda>i. (inp @ extra) ! i XOR key_stream key nonce 1 i) [0..<length (inp @ extra)];
         otk = map (key_stream key nonce 0) [0..<32]
     in take (length ct) (out @ tag) = ct \<and>
        (drop (length ct) (out @ tag) = take tag_len (poly1305_spec otk (mac_data ad ct)) \<or> carry_lost (poly1305_value otk (mac_data ad ct))))"
proof -
  let ?ct = "CRYPTO_chacha_20 (inp @ extra) key nonce 1"
  have ct: "map (\<lambda>i. (inp @ extra) ! i XOR key_stream key nonce 1 i) [0..<length (inp @ extra)] = ?ct" by (simp only: chacha_20_stream)
  have otk: "map (key_stream key nonce 0) [0..<32] = one_time_key key nonce" unfolding one_time_key_def chacha_20_stream by simp
  obtain out tag where s: "chacha20_poly1305_seal_scatter key max_out_tag_len nonce inp extra ad tag_len = Some (out, tag)"
    using assms by (auto simp: chacha20_poly1305_seal_scatter_def Let_def)
  then have joined: "out @ tag = ?ct @ take tag_len (calc_tag key nonce ad ?ct [])" "length out = length inp" unfolding seal_scatter_iff by blast+
  obtain st where "holds (CRYPTO_poly1305_init (one_time_key key nonce)) st (mac_data ad ?ct)" "calc_tag key nonce ad ?ct [] = CRYPTO_poly1305_finish st"
    using calc_tag_holds[of key nonce ad ?ct "[]"] by auto
  then have "calc_tag key nonce ad ?ct [] = poly1305_spec (one_time_key key nonce) (mac_data ad ?ct) \<or>
      carry_lost (poly1305_value (one_time_key key nonce) (mac_data ad ?ct))"
    using poly1305_tag[of "one_time_key key nonce" st "mac_data ad ?ct"] by (auto simp: one_time_key_def)
  then show ?thesis using s joined unfolding ct otk Let_def by (intro exI[of _ out] exI[of _ tag]) auto
qed

theorem chacha20_poly1305_rfc8439_witness:
  "\<exists>out tag. chacha20_poly1305_seal_scatter (replicate 32 1) 17 (replicate 12 2) [3, 4] [5] [6] 16 = Some (out, tag) \<and>
      length out = length [3, 4 :: byte] \<and>
    (let ct = map (\<lambda>i. ([3, 4] @ [5]) ! i XOR key_stream (replicate 32 1) (replicate 12 2) 1 i) [0..<length ([3, 4] @ [5 :: byte])];
         otk = map (key_stream (replicate 32 1) (replicate 12 2) 0) [0..<32]
     in take (length ct) (out @ tag) = ct \<and>
        (drop (length ct) (out @ tag) = take 16 (poly1305_spec otk (mac_data [6] ct)) \<or> carry_lost (poly1305_value otk (mac_data [6] ct))))"
  by (rule chacha20_poly1305_rfc8439) simp_all

end
