(* ===== verification/Tls_Chacha.thy ===== *)
theory Tls_Chacha
  imports Tls_Stream Chacha20_Poly1305
begin

text \<open>
  The record layer with ChaCha20-Poly1305. The algorithm provides the interface \<open>aead_pair\<close>, and contexts that the
  two ends create from the same keys are paired, so that what is shown of connections in general holds of it.
\<close>

subsection \<open>The interface\<close>

definition chacha_paired :: "byte list EVP_AEAD_CTX \<Rightarrow> byte list EVP_AEAD_CTX \<Rightarrow> bool" where
  "chacha_paired w r \<longleftrightarrow> r = w \<and> ctx_aead w \<in> {aead_chacha20_poly1305, aead_xchacha20_poly1305} \<and> ctx_tag_len w \<le> 16"

text \<open>Both algorithms run the same procedure, on the key and nonce or on those derived from them.\<close>

lemma methods_derived:
  assumes "aead \<in> {aead_chacha20_poly1305, aead_xchacha20_poly1305}"
  obtains ok K N where
    "\<And>m inp extra ad. ae_seal_scatter aead key tag_len m nonce inp extra ad =
       (if ok then chacha20_poly1305_seal_scatter K m N inp extra ad tag_len else None, key)"
    and "\<And>inp in_tag ad. (the (ae_open_gather aead)) key tag_len nonce inp in_tag ad =
       (if ok then chacha20_poly1305_open_gather K N inp in_tag ad tag_len else None, key)"
proof (cases "aead = aead_chacha20_poly1305")
  case True
  then show thesis
    by (intro that[of True key nonce])
      (simp_all add: aead_chacha20_poly1305_def aead_chacha20_poly1305_seal_scatter_def aead_chacha20_poly1305_open_gather_def)
next
  case False
  then have "aead = aead_xchacha20_poly1305" using assms by simp
  then show thesis
    by (intro that[of "length nonce = 24" "CRYPTO_hchacha20 key nonce" "replicate 4 0 @ take 8 (drop 16 nonce)"])
      (simp_all add: aead_xchacha20_poly1305_def aead_xchacha20_poly1305_seal_scatter_def aead_xchacha20_poly1305_open_gather_def Let_def)
qed

lemma chacha_table:
  assumes "aead \<in> {aead_chacha20_poly1305, aead_xchacha20_poly1305}"
  shows "ae_open aead = None" "ae_open_gather aead \<noteq> None" "ae_tag_len aead = None" "ae_overhead aead = 16" "ae_supports_extra_in aead"
  using assms by (auto simp: aead_chacha20_poly1305_def aead_xchacha20_poly1305_def)

lemma chacha_sealed:
  assumes "chacha_paired w r" and "EVP_AEAD_CTX_seal_scatter w out_at tag_at n in_at nonce inp extra ad = ((True, out, tag), w')"
  obtains K N where "chacha20_poly1305_seal_scatter K n N inp extra ad (ctx_tag_len w) = Some (out, tag)" and "w' = w"
    and "\<And>ct in_tag. the (ae_open_gather (ctx_aead w)) (ctx_state w) (ctx_tag_len w) nonce ct in_tag ad =
      (chacha20_poly1305_open_gather K N ct in_tag ad (ctx_tag_len w), ctx_state w)"
proof -
  have "ctx_aead w \<in> {aead_chacha20_poly1305, aead_xchacha20_poly1305}" using assms(1) by (simp add: chacha_paired_def)
  from this obtain ok K N where
    s: "\<And>m inp extra ad. ae_seal_scatter (ctx_aead w) (ctx_state w) (ctx_tag_len w) m nonce inp extra ad =
       (if ok then chacha20_poly1305_seal_scatter K m N inp extra ad (ctx_tag_len w) else None, ctx_state w)"
    and o: "\<And>inp in_tag ad. (the (ae_open_gather (ctx_aead w))) (ctx_state w) (ctx_tag_len w) nonce inp in_tag ad =
       (if ok then chacha20_poly1305_open_gather K N inp in_tag ad (ctx_tag_len w) else None, ctx_state w)"
    by (rule methods_derived[where key = "ctx_state w" and tag_len = "ctx_tag_len w" and nonce = nonce]) (rule that)
  have "ok \<and> chacha20_poly1305_seal_scatter K n N inp extra ad (ctx_tag_len w) = Some (out, tag) \<and> w' = w"
    using assms(2) unfolding EVP_AEAD_CTX_seal_scatter_def Let_def s by (cases ok) (auto split: if_splits option.splits)
  then show thesis by (intro that[of K N]) (simp_all add: o)
qed

interpretation chacha: aead_pair chacha_paired
proof
  fix w r :: "byte list EVP_AEAD_CTX" and inp extra nonce ad out tag and w' :: "byte list EVP_AEAD_CTX" and n out_at tag_at in_at
  assume p: "chacha_paired w r" and small: "length inp + length extra < 2 ^ 16"
    and n: "EVP_AEAD_CTX_tag_len w (length inp) (length extra) = Some n"
    and seal: "EVP_AEAD_CTX_seal_scatter w out_at tag_at n in_at nonce inp extra ad = ((True, out, tag), w')"
  have t: "ctx_tag_len w \<le> 16" and r: "r = w" and aead: "ctx_aead w \<in> {aead_chacha20_poly1305, aead_xchacha20_poly1305}"
    using p by (simp_all add: chacha_paired_def)
  obtain K N where s: "chacha20_poly1305_seal_scatter K n N inp extra ad (ctx_tag_len w) = Some (out, tag)" and w': "w' = w"
    and o: "\<And>ct in_tag. the (ae_open_gather (ctx_aead w)) (ctx_state w) (ctx_tag_len w) nonce ct in_tag ad =
      (chacha20_poly1305_open_gather K N ct in_tag ad (ctx_tag_len w), ctx_state w)"
    using chacha_sealed[OF p seal] by blast
  have "length inp + length extra < 2 ^ 32 * 64 - 64" using small by simp
  note opened = open_seal[OF s t this]
  show "length out = length inp \<and> length tag = n"
    using opened(2,3) n t small chacha_table[OF aead] by (auto simp: EVP_AEAD_CTX_tag_len_def split: if_splits)
  obtain opn where opn: "ae_open_gather (ctx_aead w) = Some opn" using chacha_table(2)[OF aead] by blast
  have "EVP_AEAD_CTX_open w 0 (length out + length tag) 0 nonce (out @ tag) ad = ((True, inp @ extra), w)"
    using opened o opn chacha_table(1)[OF aead]
    by (simp add: EVP_AEAD_CTX_open_def EVP_AEAD_CTX_open_gather_def check_alias_def Let_def)
  then show "\<exists>r'. EVP_AEAD_CTX_open r 0 (length out + length tag) 0 nonce (out @ tag) ad = ((True, inp @ extra), r') \<and> chacha_paired w' r'"
    using p r w' by blast
next
  fix w r :: "byte list EVP_AEAD_CTX" and i e n
  assume p: "chacha_paired w r" and n: "EVP_AEAD_CTX_tag_len w i e = Some n"
  have aead: "ctx_aead w \<in> {aead_chacha20_poly1305, aead_xchacha20_poly1305}" and t: "ctx_tag_len w \<le> 16"
    using p by (simp_all add: chacha_paired_def)
  have "n = (e + ctx_tag_len w) mod 2 ^ 64" using n chacha_table(3)[OF aead] by (auto simp: EVP_AEAD_CTX_tag_len_def split: if_splits)
  also have "\<dots> \<le> e + ctx_tag_len w" by (rule mod_less_eq_dividend)
  finally show "n \<le> EVP_AEAD_max_overhead (ctx_aead w) + e" using t chacha_table(4)[OF aead] by (simp add: EVP_AEAD_max_overhead_def)
qed (simp add: chacha_paired_def)

subsection \<open>Contexts for ChaCha20-Poly1305\<close>

definition chacha_cipher :: SSL_CIPHER where
  "chacha_cipher = \<lparr>algorithm_enc = SSL_CHACHA20POLY1305, algorithm_mac = SSL_AEAD\<rparr>"

definition chacha_context :: "uint16 \<Rightarrow> byte list \<Rightarrow> byte list \<Rightarrow> byte list SSLAEADContext" where
  "chacha_context version key iv =
     \<lparr>sc_cipher = Some (chacha_cipher, \<lparr>ctx_aead = aead_chacha20_poly1305, ctx_state = key, ctx_tag_len = 16\<rparr>), fixed_nonce = iv,
      variable_nonce_len = 8, variable_nonce_included_in_record = False, random_variable_nonce = False, xor_fixed_nonce = True,
      omit_length_in_ad = False, ad_is_header = (version = TLS1_3_VERSION)\<rparr>"

lemma create_chacha:
  assumes "methods EVP_aead_chacha20_poly1305 = aead_chacha20_poly1305" and "version \<in> {TLS1_2_VERSION, TLS1_3_VERSION}"
    and "length key = 32" and "length iv = 12"
  shows "Create methods dir version chacha_cipher key [] iv = Some (Some (chacha_context version key iv))"
proof -
  have v: "ssl_protocol_version_from_wire version = Some version"
    using assms(2) by (auto simp: ssl_protocol_version_from_wire_def)
  have a: "ssl_cipher_get_evp_aead methods chacha_cipher version = Some (EVP_aead_chacha20_poly1305, 0, 12)"
    using assms(1) by (simp add: ssl_cipher_get_evp_aead_def chacha_cipher_def EVP_AEAD_nonce_length_def aead_chacha20_poly1305_def)
  have i: "EVP_AEAD_CTX_init_with_direction aead_chacha20_poly1305 key 0 dir =
      Some \<lparr>ctx_aead = aead_chacha20_poly1305, ctx_state = key, ctx_tag_len = 16\<rparr>"
    using assms(3) by (simp add: EVP_AEAD_CTX_init_with_direction_def aead_chacha20_poly1305_def aead_chacha20_poly1305_init_def Let_def)
  show ?thesis using assms(2,4) unfolding Create_def v a option.case Let_def prod.case assms(1) i
    by (auto simp: chacha_context_def chacha_cipher_def)
qed

lemma context_paired:
  assumes "length iv = 12"
  shows "sc_paired chacha_paired (chacha_context version key iv) (chacha_context version key iv)"
  using assms
  by (simp add: sc_paired_def chacha_context_def chacha_paired_def nonce_ok_def fixed_overhead_def aead_chacha20_poly1305_def)

subsection \<open>Sealing succeeds\<close>

lemma seal_chacha_context:
  fixes prefix_at :: nat
  assumes "length iv = 12" and "length inp \<le> SSL3_RT_MAX_PLAIN_LENGTH" and "length extra \<le> 1"
    and apart: "\<not> buffers_alias in_at (length inp) prefix_at (length inp + 16 + length extra)"
  shows "\<exists>out suffix. SealScatter rand (chacha_context v key iv) prefix_at prefix_at (prefix_at + length inp) type rv q header in_at inp extra w =
    (Some ([], out, suffix), chacha_context v key iv, w)"
proof -
  let ?sc = "chacha_context v key iv"
  define ctx where "ctx = \<lparr>ctx_aead = aead_chacha20_poly1305, ctx_state = key, ctx_tag_len = 16\<rparr>"
  have sc: "sc_cipher ?sc = Some (chacha_cipher, ctx)" and flags: "variable_nonce_included_in_record ?sc = False" "random_variable_nonce ?sc = False"
    by (simp_all add: chacha_context_def ctx_def)
  have suffix: "SuffixLen ?sc (length inp) (length extra) = Some (length extra + 16)"
    using assms(3) by (simp add: SuffixLen_def sc EVP_AEAD_CTX_tag_len_def ctx_def aead_chacha20_poly1305_def)
  have nonce: "length (assemble_nonce ?sc (be_bytes 8 (unat q))) = 12"
    using assms(1) by (simp add: assemble_nonce_def chacha_context_def)
  have no: "\<not> buffers_alias in_at (length inp) prefix_at (length inp)" "\<not> buffers_alias in_at (length inp) prefix_at 0"
    "\<not> buffers_alias in_at (length inp) (prefix_at + length inp) (length extra + 16)"
    "\<not> buffers_alias prefix_at (length inp) (prefix_at + length inp) (length extra + 16)"
    using apart assms(3) by (auto simp: buffers_alias_def)
  obtain out tag where "chacha20_poly1305_seal_scatter key (length extra + 16) (assemble_nonce ?sc (be_bytes 8 (unat q))) inp extra
      (GetAdditionalData ?sc type rv q (length inp) header) 16 = Some (out, tag)"
    using nonce assms(2,3) by (simp add: chacha20_poly1305_seal_scatter_def Let_def)
  then have "EVP_AEAD_CTX_seal_scatter ctx prefix_at (prefix_at + length inp) (length extra + 16) in_at (assemble_nonce ?sc (be_bytes 8 (unat q))) inp extra
      (GetAdditionalData ?sc type rv q (length inp) header) = ((True, out, tag), ctx)"
    using no by (simp add: EVP_AEAD_CTX_seal_scatter_def ctx_def aead_chacha20_poly1305_def aead_chacha20_poly1305_seal_scatter_def check_alias_def Let_def)
  moreover have "?sc\<lparr>sc_cipher := Some (chacha_cipher, ctx)\<rparr> = ?sc" by (simp add: chacha_context_def ctx_def)
  ultimately show ?thesis using no unfolding SealScatter_def suffix sc flags Let_def by (simp add: ExplicitNonceLen_def flags)
qed

lemma seal_record_chacha:
  assumes ctx: "aead_write_ctx s = chacha_context v key iv" and "length iv = 12" and "length inp \<le> SSL3_RT_MAX_PLAIN_LENGTH"
    and seq: "write_sequence s + 1 \<noteq> 0" and room: "length inp + 21 + length (record_extra_in type s) \<le> max_out"
    and apart: "\<not> buffers_alias in_at (length inp) out_at max_out"
  shows "\<exists>n mem'. n \<le> max_out \<and> \<not> splits s type (length inp) \<and>
    tls_seal_record rand tmp mem out_at max_out type in_at inp s w = (Some (n, mem'), s\<lparr>write_sequence := write_sequence s + 1\<rparr>, w)"
proof -
  let ?extra = "record_extra_in type s"
  have e: "length ?extra \<le> 1" by (simp add: record_extra_in_def)
  have "\<not> ssl_needs_record_splitting s"
    by (simp add: ssl_needs_record_splitting_def ctx chacha_context_def chacha_cipher_def SSL_CIPHER_is_block_cipher_def)
  then have nosplit: "\<not> splits s t n" for t n by (simp add: splits_def)
  have suffix: "SuffixLen (aead_write_ctx s) (length inp) (length ?extra) = Some (length ?extra + 16)"
    using e by (simp add: SuffixLen_def ctx chacha_context_def EVP_AEAD_CTX_tag_len_def aead_chacha20_poly1305_def)
  have nonce: "ExplicitNonceLen (aead_write_ctx s) = 0" by (simp add: ExplicitNonceLen_def ctx chacha_context_def)
  have ct: "CiphertextLen (aead_write_ctx s) (length inp) (length ?extra) = Some (length ?extra + 16 + length inp)"
    using e assms(3) by (simp add: CiphertextLen_def suffix nonce Let_def)
  define header where "header = [if ?extra \<noteq> [] then SSL3_RT_APPLICATION_DATA else type] @ be_bytes 2 (unat (tls_record_version s)) @
    be_bytes 2 (length ?extra + 16 + length inp)"
  have apart5: "\<not> buffers_alias in_at (length inp) (out_at + 5) (length inp + 16 + length ?extra)" using apart room by (auto simp: buffers_alias_def)
  have "\<exists>out tag. SealScatter rand (chacha_context v key iv) (out_at + 5) (out_at + 5)
      (out_at + 5 + length inp) (if ?extra \<noteq> [] then SSL3_RT_APPLICATION_DATA else type) (tls_record_version s) (write_sequence s) header in_at inp ?extra w =
    (Some ([], out, tag), chacha_context v key iv, w)" by (rule seal_chacha_context[OF assms(2,3) e apart5])
  then obtain out tag where run: "SealScatter rand (chacha_context v key iv) (out_at + 5) (out_at + 5)
      (out_at + 5 + length inp) (if ?extra \<noteq> [] then SSL3_RT_APPLICATION_DATA else type) (tls_record_version s) (write_sequence s) header in_at inp ?extra w =
    (Some ([], out, tag), chacha_context v key iv, w)" by blast
  have rec: "do_seal_record rand out_at (out_at + 5) (out_at + 5 + length inp) type in_at inp s w =
      (Some (header, out, tag), s\<lparr>write_sequence := write_sequence s + 1\<rparr>, w)"
  proof -
    have "s\<lparr>aead_write_ctx := chacha_context v key iv, write_sequence := write_sequence s + 1\<rparr> = s\<lparr>write_sequence := write_sequence s + 1\<rparr>"
      by (simp flip: ctx)
    then show ?thesis unfolding do_seal_record_def suffix ct Let_def header_def
      by (simp only: ctx option.case prod.case run[unfolded header_def] seq if_False append_Nil2 refl)
  qed
  show ?thesis using apart room assms(3) e
    unfolding tls_seal_record_def tls_seal_scatter_prefix_len_def tls_seal_scatter_suffix_len_def tls_seal_scatter_record_def Let_def
    by (simp add: nosplit nonce suffix rec)
qed

subsection \<open>A connection\<close>

lemma chacha_synced:
  assumes "aead_write_ctx s = chacha_context version key iv" and "aead_read_ctx r = chacha_context version key iv" and "length iv = 12"
    and "version \<in> {TLS1_2_VERSION, TLS1_3_VERSION}" and "write_sequence s = read_sequence r" and "s3_version s = version" and "s3_version r = version"
  shows "synced chacha_paired s r"
proof -
  have "MaxOverhead (chacha_context version key iv) = 16"
    by (simp add: MaxOverhead_def ExplicitNonceLen_def chacha_context_def EVP_AEAD_max_overhead_def aead_chacha20_poly1305_def)
  moreover have "ssl_protocol_version s = version"
    using assms(4,6) by (auto simp: ssl_protocol_version_def ssl_protocol_version_from_wire_def)
  moreover have "ad_is_header (chacha_context version key iv) = (version = TLS1_3_VERSION)" by (simp add: chacha_context_def)
  moreover have "splittable v (chacha_context version key iv)" for v
    by (simp add: splittable_def chacha_context_def chacha_cipher_def SSL_CIPHER_is_block_cipher_def)
  ultimately show ?thesis using assms context_paired[OF assms(3)] by (auto simp: synced_def)
qed

text \<open>
  (C12) From the keys to the data, with ChaCha20-Poly1305 in TLS 1.2 and 1.3. When both ends create their contexts
  from the same key and fixed IV, the sender seals every non-empty message of at most 16384 bytes into any buffer that does not
  overlap it and has room for 22 bytes more, unless its sequence numbers are used up, and writes nothing outside the part of
  the buffer it reports; the receiver, given these bytes and
  whatever follows them, opens exactly that message and consumes exactly that record, and given less of them asks
  for more; and the two ends are in step again.
\<close>

theorem chacha_connection:
  assumes "methods EVP_aead_chacha20_poly1305 = aead_chacha20_poly1305" and "version \<in> {TLS1_2_VERSION, TLS1_3_VERSION}"
    and "length key = 32" and "length iv = 12"
    and "Create methods evp_aead_seal version chacha_cipher key [] iv = Some (Some (aead_write_ctx s))"
    and "Create methods evp_aead_open version chacha_cipher key [] iv = Some (Some (aead_read_ctx r))"
    and "s3_version s = version" and "s3_version r = version" and "write_sequence s = read_sequence r" and "write_sequence s + 1 \<noteq> 0"
    and "receiving r" and "rand_ok RAND_bytes" and "msg \<noteq> []" and "length msg \<le> SSL3_RT_MAX_PLAIN_LENGTH"
    and "length msg + 22 \<le> max_out" and "\<not> buffers_alias in_at (length msg) out_at max_out"
  shows "\<exists>n mem' s' r'. tls_seal_record RAND_bytes tmp mem out_at max_out SSL3_RT_APPLICATION_DATA in_at msg s w = (Some (n, mem'), s', w) \<and>
    n \<le> max_out \<and> (\<forall>a. \<not> (out_at \<le> a \<and> a < out_at + n) \<longrightarrow> mem' a = mem a) \<and>
    (\<forall>rest. tls_open_record (bytes_at mem' out_at n @ rest) r = (Record_success SSL3_RT_APPLICATION_DATA msg, n, r')) \<and>
    (\<forall>p z. bytes_at mem' out_at n = p @ z \<longrightarrow> z \<noteq> [] \<longrightarrow> (\<exists>k. tls_open_record p r = (Record_partial, k, r) \<and> length p < k \<and> k \<le> n)) \<and>
    synced chacha_paired s' r' \<and> receiving r'"
proof -
  have a: "aead_write_ctx s = chacha_context version key iv" and b: "aead_read_ctx r = chacha_context version key iv"
    using assms(5,6) unfolding create_chacha[of methods version key iv, OF assms(1-4)] by simp_all
  have room: "length msg + 21 + length (record_extra_in SSL3_RT_APPLICATION_DATA s) \<le> max_out" using assms(15) by (simp add: record_extra_in_def)
  obtain n mem' s' where seal: "tls_seal_record RAND_bytes tmp mem out_at max_out SSL3_RT_APPLICATION_DATA in_at msg s w = (Some (n, mem'), s', w)"
    and n: "n \<le> max_out" and nosplit: "\<not> splits s SSL3_RT_APPLICATION_DATA (length msg)"
    using seal_record_chacha[OF a assms(4,14,10) room assms(16), where rand = RAND_bytes and tmp = tmp and mem = mem and w = w] by blast
  have sync: "synced chacha_paired s r" by (rule chacha_synced[OF a b assms(4,2,9,7,8)])
  have t: "SSL3_RT_APPLICATION_DATA \<in> {SSL3_RT_HANDSHAKE, SSL3_RT_APPLICATION_DATA}" by simp
  from sync assms(12,14) seal show ?thesis
  proof (cases rule: chacha.tls_seal_record_cases)
    case (one body_at suffix_at prefix out suffix)
    obtain r' where r': "\<forall>rest. tls_open_record (bytes_at mem' out_at n @ rest) r = (Record_success SSL3_RT_APPLICATION_DATA msg, n, r')"
      "\<forall>p z. bytes_at mem' out_at n = p @ z \<longrightarrow> z \<noteq> [] \<longrightarrow> (\<exists>k. tls_open_record p r = (Record_partial, k, r) \<and> length p < k \<and> k \<le> n)"
      "synced chacha_paired s' r'" "receiving r'"
      using chacha.open_sealed[OF sync assms(11,12) t assms(13,14) one(1)] unfolding one(2)[symmetric] length_bytes_at by blast
    show ?thesis using seal n one(4) r' by (intro exI[of _ n] exI[of _ mem'] exI[of _ s'] exI[of _ r']) simp
  qed (use nosplit in simp)
qed

text \<open>A connection whose handshake is over, with the same keys in both directions.\<close>

definition endpoint :: "uint16 \<Rightarrow> byte list \<Rightarrow> byte list \<Rightarrow> byte list ssl_rec" where
  "endpoint version key iv =
     \<lparr>ssl_method = \<lparr>is_dtls = False\<rparr>, ssl_options = 0, ssl_quic = False, ssl_server = False, ssl_config = None, s3_version = version,
      s3_hs = None, ssl_mode = 0, max_cert_list = 0, aead_read_ctx = chacha_context version key iv,
      aead_write_ctx = chacha_context version key iv, read_sequence = 0, write_sequence = 0, read_shutdown = ssl_shutdown_none,
      early_data_skipped = 0, empty_record_count = 0, warning_alert_count = 0, skip_early = False, hs_buf = None,
      has_message = False, is_v2_hello = False\<rparr>"

lemma receiving_endpoint: "receiving (endpoint version key iv)"
proof -
  have "parse_message (endpoint version key iv) = Inl 4" by (simp add: parse_message_def endpoint_def)
  then show ?thesis
    unfolding receiving_def tls_can_accept_handshake_data_def tls_has_unprocessed_handshake_data_def
    by (simp add: endpoint_def)
qed

lemma rand_ok_zeros: "rand_ok (\<lambda>n w. (Some (replicate n 0), w))"
  by (simp add: rand_ok_def)

lemma endpoint_synced:
  "synced chacha_paired (endpoint TLS1_3_VERSION (replicate 32 7) (replicate 12 9)) (endpoint TLS1_3_VERSION (replicate 32 7) (replicate 12 9))"
  by (rule chacha_synced[of _ TLS1_3_VERSION "replicate 32 7" "replicate 12 9"]) (simp_all add: endpoint_def)

lemma endpoint_seals:
  "\<exists>n mem' s'. tls_seal_record (\<lambda>n w. (Some (replicate n 0), w :: unit)) 0 (\<lambda>_. 0) 100 64 SSL3_RT_APPLICATION_DATA 10 [1, 2, 3]
     (endpoint TLS1_3_VERSION (replicate 32 7) (replicate 12 9)) () = (Some (n, mem'), s', ())"
proof -
  let ?rnd = "\<lambda>n w. (Some (replicate n 0), w) :: byte list option \<times> unit"
  let ?c = "endpoint TLS1_3_VERSION (replicate 32 7) (replicate 12 9)"
  have "\<exists>n mem'. n \<le> 64 \<and> \<not> splits ?c SSL3_RT_APPLICATION_DATA (length [1, 2, 3 :: byte]) \<and>
      tls_seal_record ?rnd 0 (\<lambda>_. 0) 100 64 SSL3_RT_APPLICATION_DATA 10 [1, 2, 3] ?c () =
        (Some (n, mem'), ?c\<lparr>write_sequence := write_sequence ?c + 1\<rparr>, ())"
    by (rule seal_record_chacha[of _ TLS1_3_VERSION "replicate 32 7" "replicate 12 9"]) (simp_all add: endpoint_def buffers_alias_def record_extra_in_def)
  then show ?thesis by blast
qed

theorem chacha_connection_witness:
  "\<exists>n mem' s' r'. tls_seal_record (\<lambda>n w. (Some (replicate n 0), w)) 0 (\<lambda>_. 0) 100 64 SSL3_RT_APPLICATION_DATA 10 [1, 2, 3]
      (endpoint TLS1_3_VERSION (replicate 32 7) (replicate 12 9)) () = (Some (n, mem'), s', ()) \<and>
    n \<le> 64 \<and> (\<forall>a. \<not> (100 \<le> a \<and> a < 100 + n) \<longrightarrow> mem' a = 0) \<and>
    (\<forall>rest. tls_open_record (bytes_at mem' 100 n @ rest) (endpoint TLS1_3_VERSION (replicate 32 7) (replicate 12 9)) =
       (Record_success SSL3_RT_APPLICATION_DATA [1, 2, 3], n, r')) \<and>
    (\<forall>p z. bytes_at mem' 100 n = p @ z \<longrightarrow> z \<noteq> [] \<longrightarrow> (\<exists>k. tls_open_record p (endpoint TLS1_3_VERSION (replicate 32 7) (replicate 12 9)) =
       (Record_partial, k, endpoint TLS1_3_VERSION (replicate 32 7) (replicate 12 9)) \<and> length p < k \<and> k \<le> n)) \<and>
    synced chacha_paired s' r' \<and> receiving r'"
proof (rule chacha_connection[where methods = "\<lambda>_. aead_chacha20_poly1305" and version = TLS1_3_VERSION
    and key = "replicate 32 7" and iv = "replicate 12 9"])
  show "Create (\<lambda>_. aead_chacha20_poly1305) evp_aead_seal TLS1_3_VERSION chacha_cipher (replicate 32 7) [] (replicate 12 9) =
      Some (Some (aead_write_ctx (endpoint TLS1_3_VERSION (replicate 32 7) (replicate 12 9))))"
    and "Create (\<lambda>_. aead_chacha20_poly1305) evp_aead_open TLS1_3_VERSION chacha_cipher (replicate 32 7) [] (replicate 12 9) =
      Some (Some (aead_read_ctx (endpoint TLS1_3_VERSION (replicate 32 7) (replicate 12 9))))"
    by (subst create_chacha; simp add: endpoint_def)+
qed (simp_all add: receiving_endpoint rand_ok_zeros, simp_all add: endpoint_def buffers_alias_def)

text \<open>
  (C4) A TLS connection delivers a byte stream: in every reachable state, whatever part of the bytes in flight the
  receiver has been given so far, the data it has opened is a prefix of the data sent; if nothing is in flight it is all
  of it, and otherwise opening succeeds on the bytes in flight and returns the next piece of what is missing. This
  holds for every algorithm that opens what it sealed, in every version, with records split or not; in TLS 1.0 the algorithms are
  stream ciphers or CBC ciphers with the lengths of \<open>e_tls.cc\<close>.
\<close>

theorem stream_delivered:
  assumes "aead_pair paired" and "rand_ok RAND_bytes" and "channel paired RAND_bytes s wire r sent got"
  shows "\<exists>missing. sent = got @ concat missing \<and>
    (if wire = [] then missing = []
     else \<exists>n r'. missing \<noteq> [] \<and> 0 < n \<and> tls_open_record wire r = (Record_success SSL3_RT_APPLICATION_DATA (hd missing), n, r'))"
proof -
  obtain cs where cs: "sent = got @ concat cs" and f: "flight paired r wire cs s"
    using aead_pair.channel_flight[OF assms(1,3,2)] by blast
  from f have "if wire = [] then cs = []
     else \<exists>n r'. cs \<noteq> [] \<and> 0 < n \<and> tls_open_record wire r = (Record_success SSL3_RT_APPLICATION_DATA (hd cs), n, r')"
    by cases auto
  then show ?thesis using cs by blast
qed

theorem stream_delivered_witness:
  "\<exists>bs (s' :: byte list ssl_rec). channel chacha_paired (\<lambda>n w. (Some (replicate n 0), w :: unit)) s' bs (endpoint TLS1_3_VERSION (replicate 32 7) (replicate 12 9)) [1, 2, 3] [] \<and>
    (\<exists>missing. [1, 2, 3] = [] @ concat missing \<and>
      (if bs = [] then missing = []
       else \<exists>n r'. missing \<noteq> [] \<and> 0 < n \<and> tls_open_record bs (endpoint TLS1_3_VERSION (replicate 32 7) (replicate 12 9)) =
         (Record_success SSL3_RT_APPLICATION_DATA (hd missing), n, r')))"
proof -
  let ?rnd = "\<lambda>n w. (Some (replicate n 0), w) :: byte list option \<times> unit"
  let ?c = "endpoint TLS1_3_VERSION (replicate 32 7) (replicate 12 9)"
  have start: "channel chacha_paired ?rnd ?c [] ?c [] []" by (intro channel.established endpoint_synced receiving_endpoint)
  obtain n mem' s' where seal: "tls_seal_record ?rnd 0 (\<lambda>_. 0) 100 64 SSL3_RT_APPLICATION_DATA 10 [1, 2, 3] ?c () = (Some (n, mem'), s', ())"
    using endpoint_seals by blast
  define bs where "bs = bytes_at mem' 100 n"
  from channel.sent[OF start _ _ seal] have "channel chacha_paired ?rnd s' bs ?c [1, 2, 3] []" by (simp add: bs_def)
  moreover from stream_delivered[OF chacha.aead_pair_axioms rand_ok_zeros this]
  have "\<exists>missing. [1, 2, 3] = [] @ concat missing \<and>
      (if bs = [] then missing = []
       else \<exists>n r'. missing \<noteq> [] \<and> 0 < n \<and> tls_open_record bs ?c = (Record_success SSL3_RT_APPLICATION_DATA (hd missing), n, r'))" .
  ultimately show ?thesis by (intro exI[of _ bs] exI[of _ s'] conjI)
qed

end
