(* ===== verification/Tls_Limits.thy ===== *)
theory Tls_Limits
  imports Tls_Chacha
begin

text \<open>
  What a peer cannot do to the record layer: make it use a nonce twice, make it consume an unbounded number of
  records without data, or make it write past the room it announces.
\<close>

subsection \<open>Nonces\<close>

text \<open>The lengths of the nonces of the AEAD suites, as their method tables document them.\<close>

definition nonces_of_12 :: "(aead_name \<Rightarrow> 'c EVP_AEAD) \<Rightarrow> bool" where
  "nonces_of_12 methods \<longleftrightarrow>
     (\<forall>a \<in> {EVP_aead_aes_128_gcm_tls12, EVP_aead_aes_128_gcm_tls13, EVP_aead_aes_256_gcm_tls12, EVP_aead_aes_256_gcm_tls13,
             EVP_aead_chacha20_poly1305}. ae_nonce_len (methods a) = 12)"

lemma evp_aead_AEAD:
  assumes "ssl_cipher_get_evp_aead methods cipher v = Some (aead, mac_len, iv_len)" and "nonces_of_12 methods" and "mac_len = 0"
  shows "ae_nonce_len (methods aead) = 12 \<and> (iv_len = 4 \<or> iv_len = 12) \<and>
    (iv_len = 12 \<longleftrightarrow> v \<ge> TLS1_3_VERSION \<or> algorithm_enc cipher = SSL_CHACHA20POLY1305) \<and>
    (algorithm_enc cipher AND SSL_CHACHA20POLY1305 \<noteq> 0 \<longleftrightarrow> algorithm_enc cipher = SSL_CHACHA20POLY1305)"
  using assms
  by (auto simp: ssl_cipher_get_evp_aead_def nonces_of_12_def EVP_AEAD_nonce_length_def Let_def split: if_splits option.splits prod.splits)

text \<open>What \<open>Create\<close> makes of a suite without a separate MAC.\<close>

lemma Create_AEAD:
  assumes "Create methods dir version cipher enc_key [] iv = Some (Some sc)" and "nonces_of_12 methods"
  shows "nonce_ok sc \<and> random_variable_nonce sc = False \<and> variable_nonce_len sc = 8 \<and> fixed_nonce sc = iv \<and>
    (if xor_fixed_nonce sc then length iv = 12 else length iv = 4)"
proof -
  obtain v where v: "ssl_protocol_version_from_wire version = Some v" using assms(1) by (auto simp: Create_def split: option.splits)
  obtain aead iv_len where a: "ssl_cipher_get_evp_aead methods cipher v = Some (aead, 0, iv_len)" and iv: "iv_len = length iv"
    using assms(1) by (auto simp: Create_def v split: option.splits prod.splits if_splits)
  note suite = evp_aead_AEAD[OF a assms(2) refl]
  then show ?thesis using assms(1) iv
    by (auto simp: Create_def v a Let_def EVP_AEAD_nonce_length_def nonce_ok_def split: option.splits if_splits)
qed

lemma be_bytes_inj: "be_bytes n a = be_bytes n b \<Longrightarrow> a < 256 ^ n \<Longrightarrow> b < 256 ^ n \<Longrightarrow> a = b"
  by (metis be_val_be_bytes)

lemma map2_xor_inj:
  assumes "length as = length cs" and "length bs = length cs" and "map2 (XOR) as cs = map2 (XOR) bs (cs :: byte list)"
  shows "as = bs"
proof (rule nth_equalityI)
  fix i assume "i < length as"
  then have "(as ! i XOR cs ! i) XOR cs ! i = (bs ! i XOR cs ! i) XOR cs ! i"
    using assms(1,2) arg_cong[OF assms(3), of "\<lambda>l. l ! i"] by simp
  then show "as ! i = bs ! i" by (simp add: xor.assoc)
qed (use assms in simp)

text \<open>
  (C18) No nonce is used twice. In a context that \<open>Create\<close> makes for a suite with an AEAD cipher, in every version of TLS
  and with the nonce prefixed or XORed, records with different sequence numbers get different nonces, all of
  them of the 12 bytes the cipher expects. (\<open>do_seal_record\<close> refuses to seal when the sequence number would wrap around.)
\<close>

theorem nonces_distinct:
  assumes "Create methods dir version cipher enc_key [] iv = Some (Some sc)" and "nonces_of_12 methods"
  shows "length (assemble_nonce sc (be_bytes 8 (unat (q :: uint64)))) = 12 \<and>
    (assemble_nonce sc (be_bytes 8 (unat q)) = assemble_nonce sc (be_bytes 8 (unat (q' :: uint64))) \<longleftrightarrow> q = q')"
proof -
  note sc = Create_AEAD[OF assms]
  have inj: "be_bytes 8 (unat q) = be_bytes 8 (unat q') \<longleftrightarrow> q = q'"
    using be_bytes_inj[of 8 "unat q" "unat q'"] unsigned_less[of q, where ?'a = nat] unsigned_less[of q', where ?'a = nat]
    by (auto simp: word_unat_eq_iff)
  show ?thesis
  proof (cases "xor_fixed_nonce sc")
    case True
    then have "length iv = 12" using sc by simp
    then have "map2 (XOR) (replicate 4 0 @ be_bytes 8 (unat q)) iv = map2 (XOR) (replicate 4 0 @ be_bytes 8 (unat q')) iv \<longleftrightarrow>
        replicate 4 0 @ be_bytes 8 (unat q) = (replicate 4 0 @ be_bytes 8 (unat q') :: byte list)"
      using map2_xor_inj[of "replicate 4 0 @ be_bytes 8 (unat q)" iv "replicate 4 0 @ be_bytes 8 (unat q')"] by auto
    then show ?thesis using True sc \<open>length iv = 12\<close> inj by (simp add: assemble_nonce_def)
  qed (use sc inj in \<open>simp add: assemble_nonce_def\<close>)
qed

theorem nonces_distinct_witness:
  "length (assemble_nonce (chacha_context TLS1_2_VERSION (replicate 32 7) (replicate 12 9)) (be_bytes 8 (unat (3 :: uint64)))) = 12 \<and>
    (assemble_nonce (chacha_context TLS1_2_VERSION (replicate 32 7) (replicate 12 9)) (be_bytes 8 (unat (3 :: uint64))) =
     assemble_nonce (chacha_context TLS1_2_VERSION (replicate 32 7) (replicate 12 9)) (be_bytes 8 (unat (4 :: uint64))) \<longleftrightarrow> (3 :: uint64) = 4)"
  by (rule nonces_distinct[OF create_chacha[where methods = "\<lambda>_. aead_chacha20_poly1305" and dir = evp_aead_seal]])
    (simp_all add: nonces_of_12_def aead_chacha20_poly1305_def)

subsection \<open>Records without data\<close>

text \<open>The counters are within their limits.\<close>

definition within_limits :: "('c, 'z) ssl_rec_scheme \<Rightarrow> bool" where
  "within_limits s \<longleftrightarrow> empty_record_count s \<le> kMaxEmptyRecords \<and> warning_alert_count s \<le> kMaxWarningAlerts \<and>
     unat (early_data_skipped s) \<le> kMaxEarlyDataSkipped"

text \<open>How many records may still be discarded in a row.\<close>

definition budget :: "('c, 'z) ssl_rec_scheme \<Rightarrow> nat" where
  "budget s = 33 * (4 - unat (warning_alert_count s)) + (32 - unat (empty_record_count s)) + (16384 - unat (early_data_skipped s))"

lemma count_up:
  assumes "c \<le> (m :: byte)" and "m < 255"
  shows "unat (c + 1) = Suc (unat c)"
proof -
  have "unat c < 255" using assms by (simp add: word_less_nat_alt word_le_nat_alt)
  then show ?thesis by (simp add: unat_word_ariths)
qed

lemma skip_discard:
  assumes "skip_early_data consumed s = (Record_discard, s')" and "0 < consumed" and "consumed < 2 ^ 16" and "within_limits s"
  shows "within_limits s' \<and> budget s' < budget s"
proof -
  define sum where "sum = early_data_skipped s + of_nat consumed"
  have s': "s' = s\<lparr>early_data_skipped := sum\<rparr>" and ok: "\<not> unat sum < consumed" "unat sum \<le> kMaxEarlyDataSkipped"
    using assms(1) by (auto simp: skip_early_data_def sum_def[symmetric] kMaxEarlyDataSkipped_def Let_def split: if_splits)
  have "unat (of_nat consumed :: uint16) = consumed" using assms(3) by (simp add: unat_of_nat)
  then have "unat sum = unat (early_data_skipped s) + consumed"
    using ok(1) unsigned_less[of "early_data_skipped s", where ?'a = nat] assms(3) unfolding sum_def unat_word_ariths
    by (auto simp: mod_if split: if_splits)
  then show ?thesis using ok(2) assms(2,4) by (auto simp: s' within_limits_def budget_def kMaxEarlyDataSkipped_def)
qed

lemma alert_discard:
  assumes "ssl_process_alert inp s = (Record_discard, s')" and "warning_alert_count s \<le> kMaxWarningAlerts"
  shows "s' = s\<lparr>warning_alert_count := warning_alert_count s + 1\<rparr> \<and> unat (warning_alert_count s + 1) = Suc (unat (warning_alert_count s)) \<and>
    unat (warning_alert_count s) < 4 \<and> length inp = 2"
  using assms count_up[OF assms(2)]
  by (auto simp: ssl_process_alert_def kMaxWarningAlerts_def Let_def word_less_nat_alt word_le_nat_alt split: list.splits if_splits)

lemma opened_discard:
  assumes "tls_opened type out0 s0 = (Record_discard, s')" and "within_limits s0"
  shows "within_limits s' \<and> budget s' < budget s0"
proof -
  define s where "s = s0\<lparr>skip_early := False, read_sequence := read_sequence s0 + 1\<rparr>"
  define padded where "padded \<longleftrightarrow> \<not> is_null_cipher (aead_read_ctx s) \<and> ssl_protocol_version s \<ge> TLS1_3_VERSION"
  define inner where "inner = (if padded then strip_padding out0 else Some (type, out0))"
  obtain t out where inner: "inner = Some (t, out)"
    using assms(1) unfolding tls_opened_def Let_def s_def[symmetric] padded_def[symmetric] inner_def[symmetric]
    by (cases inner) (auto split: if_splits)
  define s1 where "s1 = s\<lparr>empty_record_count := (if out = [] then empty_record_count s + 1 else 0)\<rparr>"
  have alert: "ssl_process_alert out s1 = (Record_discard, s')"
    using assms(1) unfolding tls_opened_def Let_def s_def[symmetric] padded_def[symmetric] inner_def[symmetric] inner option.case prod.case
      s1_def[symmetric]
    by (simp split: if_splits)
  have w: "warning_alert_count s1 \<le> kMaxWarningAlerts" using assms(2) by (simp add: within_limits_def s1_def s_def)
  note a = alert_discard[OF alert w]
  then have "out \<noteq> []" by auto
  then show ?thesis using a assms(2)
    by (auto simp: s1_def s_def within_limits_def budget_def kMaxWarningAlerts_def kMaxEmptyRecords_def word_le_nat_alt)
qed

text \<open>The bytes a record takes.\<close>

lemma record_consumed:
  assumes "get_record_header inp = (Some (type, v, n), cbs)" and "CBS_get_bytes (unat n) cbs = (Some body, rest)"
  shows "length inp - length rest = 5 + unat n"
proof -
  have "inp = record_header (type, v, n) @ cbs" using rec_header.dec_bytes[OF assms(1)] by simp
  moreover have "length cbs = unat n + length rest"
    using assms(2) by (auto simp: CBS_get_bytes_eq cbs_get_def split: if_splits)
  ultimately show ?thesis by simp
qed

lemma open_discard:
  assumes "tls_open_record inp s = (Record_discard, k, s')" and "within_limits s"
  shows "within_limits s' \<and> budget s' < budget s"
proof -
  obtain type v n cbs body rest where h: "get_record_header inp = (Some (type, v, n), cbs)" and b: "CBS_get_bytes (unat n) cbs = (Some body, rest)"
    and small: "unat n \<le> SSL3_RT_MAX_ENCRYPTED_LENGTH"
    using assms(1) by (auto simp: tls_open_record_def Let_def split: if_splits option.splits prod.splits)
  define consumed where "consumed = length inp - length rest"
  have c: "0 < consumed" "consumed < 2 ^ 16" using record_consumed[OF h b] small by (simp_all add: consumed_def)
  have update: "within_limits (s\<lparr>aead_read_ctx := sc\<rparr>) = within_limits s" "budget (s\<lparr>aead_read_ctx := sc\<rparr>) = budget s" for sc
    by (simp_all add: within_limits_def budget_def)
  let ?s1 = "s\<lparr>empty_record_count := empty_record_count s + 1\<rparr>"
  have cases: "(s' = ?s1 \<and> \<not> empty_record_count ?s1 > kMaxEmptyRecords) \<or> skip_early_data consumed s = (Record_discard, s') \<or>
      (\<exists>sc. skip_early_data consumed (s\<lparr>aead_read_ctx := sc\<rparr>) = (Record_discard, s')) \<or>
      (\<exists>sc out. tls_opened type out (s\<lparr>aead_read_ctx := sc\<rparr>) = (Record_discard, s'))"
    using assms(1) small unfolding tls_open_record_def h option.case prod.case Let_def unfolding b option.case prod.case consumed_def[symmetric]
    by (auto split: if_splits option.splits prod.splits)
  from cases show ?thesis
  proof (elim disjE exE)
    assume e: "s' = ?s1 \<and> \<not> empty_record_count ?s1 > kMaxEmptyRecords"
    have "unat (empty_record_count s + 1) = Suc (unat (empty_record_count s))"
      by (rule count_up[of _ kMaxEmptyRecords]) (use assms(2) in \<open>simp_all add: within_limits_def kMaxEmptyRecords_def\<close>)
    then show ?thesis using e assms(2) by (auto simp: within_limits_def budget_def kMaxEmptyRecords_def word_less_nat_alt word_le_nat_alt)
  next
    fix sc assume "skip_early_data consumed (s\<lparr>aead_read_ctx := sc\<rparr>) = (Record_discard, s')"
    then show ?thesis using skip_discard[of consumed "s\<lparr>aead_read_ctx := sc\<rparr>" s'] c assms(2) unfolding update by blast
  next
    fix sc out assume "tls_opened type out (s\<lparr>aead_read_ctx := sc\<rparr>) = (Record_discard, s')"
    then show ?thesis using opened_discard[of type out "s\<lparr>aead_read_ctx := sc\<rparr>" s'] assms(2) unfolding update by blast
  qed (use skip_discard c assms(2) in blast)
qed

text \<open>A run of records that are all discarded; each call sees what has arrived by then.\<close>

fun discards :: "byte list list \<Rightarrow> ('c, 'z) ssl_rec_scheme \<Rightarrow> bool" where
  "discards [] s = True"
| "discards (inp # inps) s = (case tls_open_record inp s of (Record_discard, _, s') \<Rightarrow> discards inps s' | _ \<Rightarrow> False)"

text \<open>
  (C19) A peer cannot keep the receiver busy with records that carry nothing. Whatever it sends, from a state within the
  limits at most 16548 records in a row are discarded (4 warning alerts, 32 change-cipher-spec records after each of them,
  and skipped early data of 16384 bytes); the next one is delivered, ends the connection or is an error.
\<close>

theorem discards_bounded:
  assumes "within_limits s" and "discards inps s"
  shows "length inps \<le> 16548"
proof -
  have "length inps \<le> budget s" using assms
  proof (induction inps arbitrary: s)
    case (Cons inp inps)
    then obtain k s' where run: "tls_open_record inp s = (Record_discard, k, s')" and "discards inps s'"
      by (auto split: prod.splits open_record.splits)
    then show ?case using Cons open_discard[OF run Cons(2)] by fastforce
  qed simp
  also have "budget s \<le> 16548" by (simp add: budget_def)
  finally show ?thesis .
qed

text \<open>A client in the handshake of TLS 1.3, before any keys.\<close>

definition client_hello_sent :: "byte list ssl_rec" where
  "client_hello_sent =
     (endpoint TLS1_3_VERSION [] [])\<lparr>aead_read_ctx := CreateNullCipher, aead_write_ctx := CreateNullCipher,
       s3_hs := Some \<lparr>hs_min_version = TLS1_3_VERSION, hs_max_version = TLS1_3_VERSION, is_early_version = False, in_early_data = False,
         apply_jdk11_workaround = False, early_session_version = 0, handshake_finalized = False, can_early_write = False,
         early_data_read = 0, early_data_written = 0, ticket_max_early_data = 0\<rparr>\<rparr>"

lemma ccs_discarded:
  assumes "n + 1 \<le> kMaxEmptyRecords"
  shows "tls_open_record [20, 3, 3, 0, 1, 1] (client_hello_sent\<lparr>empty_record_count := n\<rparr>) =
    (Record_discard, 6, client_hello_sent\<lparr>empty_record_count := n + 1\<rparr>)"
proof -
  let ?c = "client_hello_sent\<lparr>empty_record_count := n\<rparr>"
  have h: "get_record_header [20, 3, 3, 0, 1, 1] = (Some (20, 0x303, 1), [1])" by code_simp
  have p: "parse_message ?c = Inl 4" by (simp add: parse_message_def client_hello_sent_def endpoint_def)
  have c: "tls_can_accept_handshake_data ?c = None" unfolding tls_can_accept_handshake_data_def p by simp
  have i: "SSL_in_init ?c" "ssl_has_final_version ?c" "ssl_protocol_version ?c = TLS1_3_VERSION" "is_null_cipher (aead_read_ctx client_hello_sent)"
      "read_shutdown ?c = ssl_shutdown_none"
    by (simp_all add: client_hello_sent_def endpoint_def CreateNullCipher_def is_null_cipher_def ssl_has_final_version_def
      ssl_protocol_version_def ssl_protocol_version_from_wire_def SSL_in_init_def)
  show ?thesis unfolding tls_open_record_def c h using assms by (simp add: i CBS_get_bytes_eq cbs_get_def Let_def not_less)
qed

theorem discards_bounded_witness:
  "within_limits client_hello_sent \<and> discards [[20, 3, 3, 0, 1, 1], [20, 3, 3, 0, 1, 1]] client_hello_sent \<and>
   length [[20, 3, 3, 0, 1, 1], [20, 3, 3, 0, 1, 1 :: byte]] \<le> 16548"
proof -
  have a: "within_limits client_hello_sent"
    by (simp add: within_limits_def client_hello_sent_def endpoint_def kMaxEmptyRecords_def kMaxWarningAlerts_def)
  have zero: "client_hello_sent = client_hello_sent\<lparr>empty_record_count := 0\<rparr>" by (simp add: client_hello_sent_def endpoint_def)
  have "discards [[20, 3, 3, 0, 1, 1], [20, 3, 3, 0, 1, 1]] (client_hello_sent\<lparr>empty_record_count := 0\<rparr>)"
    using ccs_discarded[of 0] ccs_discarded[of 1] by (simp add: kMaxEmptyRecords_def)
  then have b: "discards [[20, 3, 3, 0, 1, 1], [20, 3, 3, 0, 1, 1]] client_hello_sent" unfolding zero[symmetric] .
  show ?thesis using a b discards_bounded[OF a b] by (intro conjI)
qed

subsection \<open>Room for sealing\<close>

text \<open>The length \<open>tls_seal_record\<close> reports, and that what it has written is one record or two.\<close>

context aead_pair
begin

lemma seal_record_room:
  assumes sync: "synced paired s r" and rand: "rand_ok rand" and small: "length inp \<le> SSL3_RT_MAX_PLAIN_LENGTH"
    and seal: "tls_seal_record rand tmp mem out_at max_out type in_at inp s w = (Some (n, mem'), s', w')"
  shows "n \<le> length inp + SSL_max_seal_overhead s"
    and "\<exists>records. bytes_at mem' out_at n = concat records \<and> length records = (if splits s type (length inp) then 2 else 1) \<and> list_all one_record records"
    and "\<not> (out_at \<le> i \<and> i < out_at + n) \<Longrightarrow> mem' i = mem i"
proof -
  have ab: "sc_paired paired (aead_write_ctx s) (aead_read_ctx r)" and over: "MaxOverhead (aead_write_ctx s) < 320"
    using sync by (simp_all add: synced_def)
  note extra = synced_extra[OF sync, of type]
  have "n \<le> length inp + SSL_max_seal_overhead s \<and>
    (\<exists>records. bytes_at mem' out_at n = concat records \<and> length records = (if splits s type (length inp) then 2 else 1) \<and> list_all one_record records) \<and>
    (\<forall>i. \<not> (out_at \<le> i \<and> i < out_at + n) \<longrightarrow> mem' i = mem i)"
    using sync rand small seal
  proof (cases rule: tls_seal_record_cases)
    case (one body_at suffix_at prefix out suffix)
    note lens = do_seal_length[OF ab rand small extra over one(1)]
    have "5 + MaxOverhead (aead_write_ctx s) + length (record_extra_in type s) \<le> SSL_max_seal_overhead s"
      by (simp add: SSL_max_seal_overhead_def record_extra_in_def Let_def)
    moreover have "n = length (prefix @ out @ suffix)" using arg_cong[OF one(2), of length] by simp
    ultimately have "n \<le> length inp + SSL_max_seal_overhead s" using lens(1,2,4) by simp
    moreover have "\<exists>records. prefix @ out @ suffix = concat records \<and> length records = 1 \<and> list_all one_record records"
      using lens(11) by (intro exI[of _ "[prefix @ out @ suffix]"]) simp
    ultimately show ?thesis using one(2-4) by simp
  next
    case (two body_at suffix_at prefix1 out1 suffix1 s1 w1 body2_at suffix2_at prefix2 out2 suffix2)
    obtain cipher where c: "map_option fst (sc_cipher (aead_write_ctx s)) = Some cipher" "ssl_protocol_version s < TLS1_1_VERSION"
      "1 < length inp" "ssl_needs_record_splitting s" by (rule splits_cipher[OF two(4)])
    have l1: "length (take 1 inp) \<le> SSL3_RT_MAX_PLAIN_LENGTH" "length (drop 1 inp) \<le> SSL3_RT_MAX_PLAIN_LENGTH" using small by simp_all
    note first = do_seal_length[OF ab rand l1(1) extra over two(1)]
    obtain b' where b': "sc_paired paired (aead_write_ctx s1) b'" using first(5) by blast
    have none: "record_extra_in type s = []" "record_extra_in type s1 = []" using old_no_extra[of s] old_no_extra[of s1] first(8) c(2) by simp_all
    have over1: "MaxOverhead (aead_write_ctx s1) < 320" using first(6) over by simp
    note second = do_seal_length[OF b' rand l1(2) disjI1[OF none(2)] over1 two(2)]
    have "n = length ((prefix1 @ out1 @ suffix1) @ (prefix2 @ out2 @ suffix2))" using arg_cong[OF two(3), of length] by simp
    then have "n \<le> length inp + 2 * (5 + MaxOverhead (aead_write_ctx s))" using first(1,2,4,6) second(1,2,4) c(3) none by simp
    moreover have "2 * (5 + MaxOverhead (aead_write_ctx s)) \<le> SSL_max_seal_overhead s" using c(4) by (simp add: SSL_max_seal_overhead_def Let_def)
    moreover have "\<exists>records. (prefix1 @ out1 @ suffix1) @ (prefix2 @ out2 @ suffix2) = concat records \<and> length records = 2 \<and> list_all one_record records"
      using first(11) second(11) by (intro exI[of _ "[prefix1 @ out1 @ suffix1, prefix2 @ out2 @ suffix2]"]) simp
    ultimately show ?thesis using two(3-5) by simp
  qed
  then show "n \<le> length inp + SSL_max_seal_overhead s"
    and "\<exists>records. bytes_at mem' out_at n = concat records \<and> length records = (if splits s type (length inp) then 2 else 1) \<and> list_all one_record records"
    and "\<not> (out_at \<le> i \<and> i < out_at + n) \<Longrightarrow> mem' i = mem i" by blast+
qed

end

text \<open>
  A connection of TLS 1.0 that splits its records. The algorithm stands for AES in CBC mode with HMAC-SHA1: it has the lengths and the
  padding of \<open>e_tls.cc\<close>, but leaves the plaintext as it is and appends a MAC of zeros.
\<close>

definition padding_only :: "unit EVP_AEAD" where
  "padding_only =
     \<lparr>ae_key_len = 52, ae_nonce_len = 0, ae_overhead = 36, ae_max_tag_len = SHA_DIGEST_LENGTH, ae_supports_extra_in = False, ae_init = None,
      ae_init_with_direction = \<lambda>_ _ _. Some ((), SHA_DIGEST_LENGTH),
      ae_open = Some (\<lambda>c _ _ _ inp _. (Some (take (length inp - SHA_DIGEST_LENGTH - (unat (last inp) + 1)) inp), c)),
      ae_seal_scatter = (\<lambda>c _ _ _ inp _ _. let pad = 16 - (length inp + SHA_DIGEST_LENGTH) mod 16 in
        (Some (inp, replicate SHA_DIGEST_LENGTH 0 @ replicate pad (of_nat (pad - 1))), c)),
      ae_open_gather = None, ae_get_iv = None, ae_tag_len = Some (\<lambda>_ _. aead_tls_tag_len SHA_DIGEST_LENGTH True 16)\<rparr>"

definition padding_paired :: "unit EVP_AEAD_CTX \<Rightarrow> unit EVP_AEAD_CTX \<Rightarrow> bool" where
  "padding_paired w r \<longleftrightarrow> ctx_aead w = padding_only \<and> ctx_aead r = padding_only"

lemma padding_seals:
  assumes "ctx_aead w = padding_only" and "EVP_AEAD_CTX_seal_scatter w out_at tag_at n in_at nonce inp extra ad = ((True, out, tag), w')"
  shows "extra = [] \<and> out = inp \<and> w' = w \<and>
    tag = (let pad = 16 - (length inp + SHA_DIGEST_LENGTH) mod 16 in replicate SHA_DIGEST_LENGTH 0 @ replicate pad (of_nat (pad - 1)))"
  using assms by (auto simp: EVP_AEAD_CTX_seal_scatter_def padding_only_def Let_def split: if_splits)

interpretation padding: aead_pair padding_paired
proof
  fix w r :: "unit EVP_AEAD_CTX" and inp extra out tag nonce ad n out_at tag_at in_at w'
  assume p: "padding_paired w r" and size: "length inp + length extra < 2 ^ 16" and n: "EVP_AEAD_CTX_tag_len w (length inp) (length extra) = Some n"
    and seal: "EVP_AEAD_CTX_seal_scatter w out_at tag_at n in_at nonce inp extra ad = ((True, out, tag), w')"
  define pad where "pad = 16 - (length inp + 20) mod 16"
  have pad: "0 < pad" "pad \<le> 16" by (simp_all add: pad_def)
  have e: "extra = []" "out = inp" "w' = w" "tag = replicate 20 0 @ replicate pad (of_nat (pad - 1))"
    using padding_seals[OF _ seal] p by (simp_all add: padding_paired_def pad_def Let_def)
  obtain k where k: "pad = Suc k" "k < 16" using pad by (cases pad) auto
  then have l: "unat (last (out @ tag)) = pad - 1" using e by (simp add: unat_of_nat)
  have "take (length (out @ tag) - 20 - (unat (last (out @ tag)) + 1)) (out @ tag) = inp @ extra" unfolding l using pad e by simp
  then have "EVP_AEAD_CTX_open r 0 (length out + length tag) 0 nonce (out @ tag) ad = ((True, inp @ extra), r)"
    using p by (simp add: EVP_AEAD_CTX_open_def check_alias_def padding_paired_def padding_only_def Let_def)
  then show "\<exists>r'. EVP_AEAD_CTX_open r 0 (length out + length tag) 0 nonce (out @ tag) ad = ((True, inp @ extra), r') \<and> padding_paired w' r'"
    using p e by blast
  have "n = 20 + pad" using n p size by (simp add: EVP_AEAD_CTX_tag_len_def padding_paired_def padding_only_def aead_tls_tag_len_def pad_def)
  then show "length out = length inp \<and> length tag = n" using e by simp
next
  fix w r :: "unit EVP_AEAD_CTX" and i e n
  assume "padding_paired w r" and "EVP_AEAD_CTX_tag_len w i e = Some n"
  then show "n \<le> EVP_AEAD_max_overhead (ctx_aead w) + e"
    by (auto simp: EVP_AEAD_CTX_tag_len_def padding_paired_def padding_only_def aead_tls_tag_len_def EVP_AEAD_max_overhead_def Let_def)
qed (simp add: padding_paired_def)

definition splitting_endpoint :: "unit ssl_rec" where
  "splitting_endpoint =
     (let sc = \<lparr>sc_cipher = Some (\<lparr>algorithm_enc = SSL_AES128, algorithm_mac = SSL_SHA1\<rparr>,
                  \<lparr>ctx_aead = padding_only, ctx_state = (), ctx_tag_len = SHA_DIGEST_LENGTH\<rparr>), fixed_nonce = [], variable_nonce_len = 0,
                variable_nonce_included_in_record = True, random_variable_nonce = True, xor_fixed_nonce = False, omit_length_in_ad = True,
                ad_is_header = False\<rparr> in
      \<lparr>ssl_method = \<lparr>is_dtls = False\<rparr>, ssl_options = 0, ssl_quic = False, ssl_server = False, ssl_config = None, s3_version = TLS1_VERSION,
       s3_hs = None, ssl_mode = SSL_MODE_CBC_RECORD_SPLITTING, max_cert_list = 0, aead_read_ctx = sc, aead_write_ctx = sc, read_sequence = 0,
       write_sequence = 0, read_shutdown = ssl_shutdown_none, early_data_skipped = 0, empty_record_count = 0, warning_alert_count = 0,
       skip_early = False, hs_buf = None, has_message = False, is_v2_hello = False\<rparr>)"

lemma splitting_endpoint_synced: "synced padding_paired splitting_endpoint splitting_endpoint"
  by (simp add: synced_def sc_paired_def splitting_endpoint_def padding_paired_def nonce_ok_def MaxOverhead_def ExplicitNonceLen_def
      EVP_AEAD_max_overhead_def splittable_def cbc_sha1_def cbc_block_size_def padding_only_def ssl_protocol_version_def
      ssl_protocol_version_from_wire_def Let_def)

lemma splitting_endpoint_splits: "splits splitting_endpoint SSL3_RT_APPLICATION_DATA (length [1, 2, 3 :: byte])"
  by (simp add: splits_def splitting_endpoint_def ssl_needs_record_splitting_def SSL_CIPHER_is_block_cipher_def ssl_protocol_version_def
      ssl_protocol_version_from_wire_def Let_def)

lemma splitting_endpoint_seals:
  "\<exists>mem' s'. tls_seal_record (\<lambda>n w. (Some (replicate n 0), w :: unit)) 0 (\<lambda>_. 0) 100 128 SSL3_RT_APPLICATION_DATA 10 [1, 2, 3] splitting_endpoint () =
     (Some (74, mem'), s', ())"
proof -
  let ?rnd = "\<lambda>n w. (Some (replicate n 0), w) :: byte list option \<times> unit"
  note defs = splitting_endpoint_def padding_only_def do_seal_record_def SealScatter_def SuffixLen_def CiphertextLen_def ExplicitNonceLen_def
    record_extra_in_def ssl_protocol_version_def ssl_protocol_version_from_wire_def EVP_AEAD_CTX_tag_len_def aead_tls_tag_len_def
    EVP_AEAD_CTX_seal_scatter_def buffers_alias_def check_alias_def tls_record_version_def GetAdditionalData_def Let_def
  obtain h x y s1 where one: "do_seal_record ?rnd 100 105 106 SSL3_RT_APPLICATION_DATA 10 [1] splitting_endpoint () = (Some (h, x, y), s1, ())"
    and s1: "s1 = splitting_endpoint\<lparr>write_sequence := 1\<rparr>"
    by (simp add: defs)
  have two: "\<exists>r s2. do_seal_record ?rnd 0 142 144 SSL3_RT_APPLICATION_DATA 11 [2, 3] s1 () = (Some r, s2, ())"
    by (simp add: s1 defs)
  have three: "splits splitting_endpoint SSL3_RT_APPLICATION_DATA 3" using splitting_endpoint_splits by (simp add: numeral_3_eq_3)
  have lens: "tls_seal_scatter_prefix_len splitting_endpoint SSL3_RT_APPLICATION_DATA 3 = 41"
    "tls_seal_scatter_suffix_len splitting_endpoint SSL3_RT_APPLICATION_DATA 3 = Some 30"
    unfolding tls_seal_scatter_prefix_len_def tls_seal_scatter_suffix_len_def if_P[OF three]
    by (simp_all add: defs write_cipher_split_len_def ssl_cipher_get_record_split_len_def)
  have "SuffixLen (aead_write_ctx s1) 1 0 = Some 31" by (simp add: s1 defs)
  moreover have "length [1, 2, 3 :: byte] = 3" by simp
  ultimately show ?thesis using three one two lens unfolding tls_seal_record_def tls_seal_scatter_record_def
    by (auto simp del: list.size simp: Let_def buffers_alias_def)
qed

text \<open>
  (C31) \<open>SSL_max_seal_overhead\<close> is enough room, and the output is laid out without gaps: whatever algorithm the connection uses, when a record of
  at most 16384 bytes was sealed, \<open>*out_len\<close> is at most the length of the plaintext and that overhead; the first \<open>*out_len\<close> bytes of the output
  are one record, a header and as many bytes as it announces, or, when the record was split, two records back to
  back; and no other byte of memory has changed. For the split records of TLS 1.0 this is what the assertions on
  \<open>ssl_cipher_get_record_split_len\<close> say, for the lengths of the CBC ciphers of \<open>e_tls.cc\<close>.
\<close>

theorem seal_overhead_suffices:
  assumes "aead_pair paired" and "synced paired s r" and "rand_ok RAND_bytes" and "length inp \<le> SSL3_RT_MAX_PLAIN_LENGTH"
    and "tls_seal_record RAND_bytes tmp mem out_at max_out type in_at inp s w = (Some (out_len, mem'), s', w')"
  shows "out_len \<le> length inp + SSL_max_seal_overhead s \<and>
    (\<exists>records. bytes_at mem' out_at out_len = concat records \<and> length records = (if splits s type (length inp) then 2 else 1) \<and>
       list_all one_record records) \<and>
    (\<forall>a. \<not> (out_at \<le> a \<and> a < out_at + out_len) \<longrightarrow> mem' a = mem a)"
  using aead_pair.seal_record_room[OF assms] by blast

theorem seal_overhead_suffices_witness:
  "\<exists>mem' (s' :: unit ssl_rec). tls_seal_record (\<lambda>n w. (Some (replicate n 0), w :: unit)) 0 (\<lambda>_. 0) 100 128 SSL3_RT_APPLICATION_DATA 10 [1, 2, 3]
      splitting_endpoint () = (Some (74, mem'), s', ()) \<and>
    74 \<le> length [1, 2, 3 :: byte] + SSL_max_seal_overhead splitting_endpoint \<and>
    (\<exists>records. bytes_at mem' 100 74 = concat records \<and> length records = 2 \<and> list_all one_record records) \<and>
    (\<forall>a. \<not> (100 \<le> a \<and> a < 100 + 74) \<longrightarrow> mem' a = 0)"
proof -
  let ?rnd = "\<lambda>n w. (Some (replicate n 0), w) :: byte list option \<times> unit"
  obtain mem' s' where seal: "tls_seal_record ?rnd 0 (\<lambda>_. 0) 100 128 SSL3_RT_APPLICATION_DATA 10 [1, 2, 3] splitting_endpoint () = (Some (74, mem'), s', ())"
    using splitting_endpoint_seals by blast
  note two = splitting_endpoint_splits
  have "length [1, 2, 3 :: byte] \<le> SSL3_RT_MAX_PLAIN_LENGTH" by simp
  from seal_overhead_suffices[OF padding.aead_pair_axioms splitting_endpoint_synced rand_ok_zeros this seal] show ?thesis
    using seal two by (intro exI[of _ mem'] exI[of _ s']) simp
qed

end
