(* ===== verification/Tls_Flight.thy ===== *)
theory Tls_Flight
  imports Tls_Record CBB
begin

text \<open>
  Handshake messages over records, \<open>ssl/s3_both.cc\<close>: packing the messages of a flight into records and writing the flight to the
  transport, collecting the handshake data of incoming records, taking messages off it, and the conversion of a
  version 2 ClientHello. The state extends that of the record layer by the fields this code uses. Memory, random
  numbers, the transcript hash and the callbacks of QUIC are functions of the world, as arguments. Results are
  \<open>None\<close> where a loop does not end. Message callbacks, assertions and entries of the error queue are not modelled.
\<close>

abbreviation (input) "SSL3_RANDOM_SIZE \<equiv> (32 :: nat)"
abbreviation (input) "SSL3_HM_HEADER_LENGTH \<equiv> (4 :: nat)"
abbreviation (input) "SSL3_MT_CLIENT_HELLO \<equiv> (1 :: byte)"
abbreviation (input) "SSL2_MT_CLIENT_HELLO \<equiv> (1 :: byte)"

subsection \<open>Environment and state\<close>

text \<open>
  \<open>buf_mem\<close> makes room for a number of bytes in a \<open>BUF_MEM\<close>, as \<open>BUF_MEM_new\<close>, \<open>BUF_MEM_reserve\<close> and \<open>BUF_MEM_append\<close> do:
  the address of its data, or \<open>None\<close> when there is no memory; \<open>hs_memory\<close> is the whole block of the handshake buffer after
  room was made in it, and \<open>net_memory\<close> what memory holds where a record is to be written. \<open>tmp_at\<close>, \<open>inline_at\<close> and \<open>alert_at\<close> are the addresses of a local
  buffer of the record layer, of the inline buffer of \<open>write_buffer\<close> and of the array \<open>send_alert\<close>.
\<close>

record 'w net =
  net_io :: "'w transport"
  net_rand :: "'w rand"
  buf_mem :: "nat \<Rightarrow> 'w \<Rightarrow> nat option \<times> 'w"
  hs_memory :: "nat \<Rightarrow> byte list"
  net_memory :: store
  cbb_heap :: heap
  bio_flush :: "'w \<Rightarrow> int \<times> 'w"
  transcript_update :: "byte list \<Rightarrow> 'w \<Rightarrow> bool \<times> 'w"
  quic_add_handshake_data :: "byte list \<Rightarrow> 'w \<Rightarrow> bool \<times> 'w"
  quic_flush_flight :: "'w \<Rightarrow> bool \<times> 'w"
  quic_send_alert :: "byte \<Rightarrow> 'w \<Rightarrow> bool \<times> 'w"
  tmp_at :: nat
  inline_at :: nat
  alert_at :: nat

text \<open>
  The two buffers of the sending side carry the address of their data. \<open>pending_write\<close> is a span of the caller's memory, empty
  when its length is 0.
\<close>

record ('c, 'w) ssl_conn = "'c ssl_rec" +
  conn_io :: "'w ssl_io"
  write_shutdown :: ssl_shutdown_t
  max_send_fragment :: nat
  hints_requested :: bool
  v2_hello_done :: bool
  pending_hs_data :: "(nat \<times> byte list) option"
  pending_flight :: "(nat \<times> byte list) option"
  pending_flight_offset :: nat
  pending_write_at :: nat
  pending_write_len :: nat
  pending_write_type :: byte
  unreported_bytes_written :: nat
  key_update_pending :: bool
  alert_dispatch :: bool
  send_alert :: "byte \<times> byte"

definition set_world :: "'w \<Rightarrow> ('c, 'w, 'z) ssl_conn_scheme \<Rightarrow> ('c, 'w, 'z) ssl_conn_scheme" where
  "set_world w s = s\<lparr>conn_io := (conn_io s)\<lparr>io_world := w\<rparr>\<rparr>"

definition call_world :: "('w \<Rightarrow> 'a \<times> 'w) \<Rightarrow> ('c, 'w, 'z) ssl_conn_scheme \<Rightarrow> 'a \<times> ('c, 'w, 'z) ssl_conn_scheme" where
  "call_world f s = (case f (io_world (conn_io s)) of (r, w) \<Rightarrow> (r, set_world w s))"

text \<open>The bytes \<open>tls_seal_record\<close> leaves at \<open>out\<close>, \<open>*out_len\<close> of them.\<close>

definition seal_record ::
  "'w net \<Rightarrow> nat \<Rightarrow> nat \<Rightarrow> byte \<Rightarrow> nat \<Rightarrow> byte list \<Rightarrow> ('c, 'w, 'z) ssl_conn_scheme \<Rightarrow> byte list option \<times> ('c, 'w, 'z) ssl_conn_scheme" where
  "seal_record net out_at max_out type in_at inp s =
     (case tls_seal_record (net_rand net) (tmp_at net) (net_memory net) out_at max_out type in_at inp s (io_world (conn_io s)) of
        (r, s1, w) \<Rightarrow> (map_option (\<lambda>(out_len, mem). bytes_at mem out_at out_len) r, set_world w s1))"

subsection \<open>Sending\<close>

definition add_record_to_flight ::
  "'w net \<Rightarrow> byte \<Rightarrow> nat \<Rightarrow> byte list \<Rightarrow> ('c, 'w, 'z) ssl_conn_scheme \<Rightarrow> bool \<times> ('c, 'w, 'z) ssl_conn_scheme" where
  "add_record_to_flight net type in_at inp s0 =
     (case (case pending_flight s0 of
              Some _ \<Rightarrow> (True, s0)
            | None \<Rightarrow>
                (case call_world (buf_mem net 0) s0 of
                   (None, s) \<Rightarrow> (False, s)
                 | (Some a, s) \<Rightarrow> (True, s\<lparr>pending_flight := Some (a, [])\<rparr>))) of
        (False, s) \<Rightarrow> (False, s)
      | (True, s) \<Rightarrow>
          let contents = (case pending_flight s of Some (_, bs) \<Rightarrow> bs | None \<Rightarrow> []);
              max_out = (length inp + SSL_max_seal_overhead s) mod 2 ^ 64;
              new_cap = (length contents + max_out) mod 2 ^ 64 in
          if max_out < length inp \<or> new_cap < max_out then (False, s)
          else (case call_world (buf_mem net new_cap) s of
                  (None, s1) \<Rightarrow> (False, s1)
                | (Some a, s1) \<Rightarrow>
                    (case seal_record net (a + length contents) max_out type in_at inp (s1\<lparr>pending_flight := Some (a, contents)\<rparr>) of
                       (None, s2) \<Rightarrow> (False, s2)
                     | (Some bs, s2) \<Rightarrow> (True, s2\<lparr>pending_flight := Some (a, contents @ bs)\<rparr>))))"

text \<open>\<open>tls_init_message\<close> opens the message as level 1 of the builder, \<open>tls_finish_message\<close> returns its bytes.\<close>

definition tls_init_message :: "heap \<Rightarrow> byte \<Rightarrow> cbb option" where
  "tls_init_message h type =
     (case CBB_init h 64 of
        None \<Rightarrow> None
      | Some cbb \<Rightarrow>
          (case op_bind (CBB_add_u8 h 0 type) (\<lambda>_. CBB_add_u24_length_prefixed h 0) cbb of
             (None, _) \<Rightarrow> None
           | (Some _, cbb1) \<Rightarrow> Some cbb1))"

definition tls_finish_message :: "heap \<Rightarrow> (cbb, byte list) op" where
  "tls_finish_message h = CBB_finish h 0"

definition tls_flush_pending_hs_data ::
  "'w net \<Rightarrow> ('c, 'w, 'z) ssl_conn_scheme \<Rightarrow> bool \<times> ('c, 'w, 'z) ssl_conn_scheme" where
  "tls_flush_pending_hs_data net s =
     (case pending_hs_data s of
        None \<Rightarrow> (True, s)
      | Some (at, contents) \<Rightarrow>
          if contents = [] then (True, s)
          else let s1 = s\<lparr>pending_hs_data := None\<rparr> in
            if ssl_quic s1 then
              if s3_hs s1 = None \<or> \<not> hints_requested s1 then call_world (quic_add_handshake_data net contents) s1
              else (True, s1)
            else add_record_to_flight net SSL3_RT_HANDSHAKE at contents s1)"

text \<open>The loop for the null cipher: a record for each part of at most \<open>max_send_fragment\<close> bytes.\<close>

function add_chunks ::
  "'w net \<Rightarrow> nat \<Rightarrow> byte list \<Rightarrow> ('c, 'w, 'z) ssl_conn_scheme \<Rightarrow> (bool \<times> ('c, 'w, 'z) ssl_conn_scheme) option" where
  "add_chunks net at rest s =
     (if rest = [] then Some (True, s)
      else if max_send_fragment s = 0 then None
      else let chunk = take (max_send_fragment s) rest in
        case add_record_to_flight net SSL3_RT_HANDSHAKE at chunk s of
          (False, s1) \<Rightarrow> Some (False, s1)
        | (True, s1) \<Rightarrow> add_chunks net (at + length chunk) (drop (max_send_fragment s) rest) s1)"
  by pat_completeness auto
termination by (relation "measure (\<lambda>(_, _, rest, _). length rest)") auto

declare add_chunks.simps [simp del]

text \<open>One round of the other loop: room is made, then as much as fits is appended.\<close>

definition pack_chunk ::
  "'w net \<Rightarrow> byte list \<Rightarrow> ('c, 'w, 'z) ssl_conn_scheme \<Rightarrow> bool \<times> nat \<times> ('c, 'w, 'z) ssl_conn_scheme" where
  "pack_chunk net rest s =
     (case (case pending_hs_data s of
              Some (_, contents) \<Rightarrow> if length contents \<ge> max_send_fragment s then tls_flush_pending_hs_data net s else (True, s)
            | None \<Rightarrow> (True, s)) of
        (False, s1) \<Rightarrow> (False, 0, s1)
      | (True, s1) \<Rightarrow>
          let contents = (case pending_hs_data s1 of Some (_, bs) \<Rightarrow> bs | None \<Rightarrow> []);
              chunk = take (max_send_fragment s1 - length contents) rest in
          (case (case pending_hs_data s1 of
                   Some _ \<Rightarrow> (True, s1)
                 | None \<Rightarrow>
                     (case call_world (buf_mem net 0) s1 of
                        (None, s2) \<Rightarrow> (False, s2)
                      | (Some a, s2) \<Rightarrow> (True, s2\<lparr>pending_hs_data := Some (a, [])\<rparr>))) of
             (False, s2) \<Rightarrow> (False, 0, s2)
           | (True, s2) \<Rightarrow>
               (case call_world (buf_mem net (length contents + length chunk)) s2 of
                  (None, s3) \<Rightarrow> (False, 0, s3)
                | (Some a, s3) \<Rightarrow> (True, length chunk, s3\<lparr>pending_hs_data := Some (a, contents @ chunk)\<rparr>))))"

function pack_message ::
  "'w net \<Rightarrow> byte list \<Rightarrow> ('c, 'w, 'z) ssl_conn_scheme \<Rightarrow> (bool \<times> ('c, 'w, 'z) ssl_conn_scheme) option" where
  "pack_message net rest s =
     (if rest = [] then Some (True, s)
      else case pack_chunk net rest s of
        (False, _, s1) \<Rightarrow> Some (False, s1)
      | (True, n, s1) \<Rightarrow> if n = 0 then None else pack_message net (drop n rest) s1)"
  by pat_completeness auto
termination by (relation "measure (\<lambda>(_, rest, _). length rest)") auto

declare pack_message.simps [simp del]

definition tls_add_message ::
  "'w net \<Rightarrow> nat \<Rightarrow> byte list \<Rightarrow> ('c, 'w, 'z) ssl_conn_scheme \<Rightarrow> (bool \<times> ('c, 'w, 'z) ssl_conn_scheme) option" where
  "tls_add_message net msg_at msg s =
     (case (if \<not> ssl_quic s \<and> is_null_cipher (aead_write_ctx s) then add_chunks net msg_at msg s else pack_message net msg s) of
        None \<Rightarrow> None
      | Some (False, s1) \<Rightarrow> Some (False, s1)
      | Some (True, s1) \<Rightarrow> Some (case s3_hs s1 of None \<Rightarrow> (True, s1) | Some _ \<Rightarrow> call_world (transcript_update net msg) s1))"

definition tls_add_change_cipher_spec ::
  "'w net \<Rightarrow> nat \<Rightarrow> ('c, 'w, 'z) ssl_conn_scheme \<Rightarrow> bool \<times> ('c, 'w, 'z) ssl_conn_scheme" where
  "tls_add_change_cipher_spec net ccs_at s =
     (if ssl_quic s then (True, s)
      else case tls_flush_pending_hs_data net s of
        (False, s1) \<Rightarrow> (False, s1)
      | (True, s1) \<Rightarrow> add_record_to_flight net SSL3_RT_CHANGE_CIPHER_SPEC ccs_at [SSL3_MT_CCS] s1)"

text \<open>\<open>pending_flight_offset\<close> is a \<open>uint32_t\<close>, but the flight has at most \<open>INT_MAX\<close> bytes.\<close>

partial_function (option) write_flight ::
  "'w net \<Rightarrow> byte list \<Rightarrow> ('c, 'w) ssl_conn \<Rightarrow> (int \<times> ('c, 'w) ssl_conn) option" where
  "write_flight net contents s =
     (if pending_flight_offset s < length contents then
        (case call_world (bio_write (net_io net) (drop (pending_flight_offset s) contents)) s of (ret, s1) \<Rightarrow>
           if ret \<le> 0 then Some (ret, s1\<lparr>conn_io := (conn_io s1)\<lparr>rwstate := SSL_ERROR_WANT_WRITE\<rparr>\<rparr>)
           else write_flight net contents (s1\<lparr>pending_flight_offset := pending_flight_offset s1 + nat ret\<rparr>))
      else Some (1, s))"

definition tls_flush :: "'w net \<Rightarrow> ('c, 'w) ssl_conn \<Rightarrow> (int \<times> ('c, 'w) ssl_conn) option" where
  "tls_flush net s0 =
     (let want_write = (\<lambda>s. s\<lparr>conn_io := (conn_io s)\<lparr>rwstate := SSL_ERROR_WANT_WRITE\<rparr>\<rparr>) in
      case tls_flush_pending_hs_data net s0 of
        (False, s1) \<Rightarrow> Some (- 1, s1)
      | (True, s1) \<Rightarrow>
          (case (if ssl_quic s1 then
                   if write_shutdown s1 \<noteq> ssl_shutdown_none then (False, s1) else call_world (quic_flush_flight net) s1
                 else (True, s1)) of
             (False, s2) \<Rightarrow> Some (- 1, s2)
           | (True, s2) \<Rightarrow>
               (case pending_flight s2 of
                  None \<Rightarrow> Some (1, s2)
                | Some (_, contents) \<Rightarrow>
                    if write_shutdown s2 \<noteq> ssl_shutdown_none then Some (- 1, s2)
                    else if length contents > 2 ^ 31 - 1 then Some (- 1, s2)
                    else
                      (case (if sb_size (write_buffer (conn_io s2)) \<noteq> 0 then ssl_write_buffer_flush (net_io net) (conn_io s2)
                             else Some (1, conn_io s2)) of
                         None \<Rightarrow> None
                       | Some (ret, io) \<Rightarrow>
                           let s3 = s2\<lparr>conn_io := io\<rparr> in
                           if ret \<le> 0 then Some (ret, want_write s3)
                           else if \<not> wbio_set io then Some (- 1, s3)
                           else
                             (case write_flight net contents s3 of
                                None \<Rightarrow> None
                              | Some (ret, s4) \<Rightarrow>
                                  if ret \<le> 0 then Some (ret, s4)
                                  else (case call_world (bio_flush net) s4 of (ret, s5) \<Rightarrow>
                                    if ret \<le> 0 then Some (- 1, want_write s5)
                                    else Some (1, s5\<lparr>pending_flight := None, pending_flight_offset := 0\<rparr>)))))))"

subsection \<open>Receiving\<close>

definition tls_get_message :: "('c, 'w, 'z) ssl_conn_scheme \<Rightarrow> SSLMessage option \<times> ('c, 'w, 'z) ssl_conn_scheme" where
  "tls_get_message s =
     (case parse_message s of
        Inl _ \<Rightarrow> (None, s)
      | Inr msg \<Rightarrow> (Some msg, s\<lparr>has_message := True\<rparr>))"

definition tls_append_handshake_data ::
  "'w net \<Rightarrow> byte list \<Rightarrow> ('c, 'w, 'z) ssl_conn_scheme \<Rightarrow> bool \<times> ('c, 'w, 'z) ssl_conn_scheme" where
  "tls_append_handshake_data net bs s =
     (case (case hs_buf s of
              Some contents \<Rightarrow> (Some contents, s)
            | None \<Rightarrow>
                (case call_world (buf_mem net 0) s of
                   (None, s1) \<Rightarrow> (None, s1)
                 | (Some _, s1) \<Rightarrow> (Some [], s1\<lparr>hs_buf := Some []\<rparr>))) of
        (None, s1) \<Rightarrow> (False, s1)
      | (Some contents, s1) \<Rightarrow>
          if bs = [] then (True, s1)
          else (case call_world (buf_mem net (length contents + length bs)) s1 of
                  (None, s2) \<Rightarrow> (False, s2)
                | (Some _, s2) \<Rightarrow> (True, s2\<lparr>hs_buf := Some (contents @ bs)\<rparr>)))"

text \<open>When there is no complete message the code stops at an assertion or returns.\<close>

definition tls_next_message :: "('c, 'w, 'z) ssl_conn_scheme \<Rightarrow> ('c, 'w, 'z) ssl_conn_scheme" where
  "tls_next_message s0 =
     (case tls_get_message s0 of
        (None, s) \<Rightarrow> s
      | (Some msg, s) \<Rightarrow>
          (case hs_buf s of
             None \<Rightarrow> s
           | Some contents \<Rightarrow>
               if length contents < length (msg_raw msg) then s
               else let rest = drop (length (msg_raw msg)) contents;
                        s1 = s\<lparr>hs_buf := Some rest, is_v2_hello := False, has_message := False\<rparr>
                    in if \<not> SSL_in_init s1 \<and> rest = [] then s1\<lparr>hs_buf := None\<rparr> else s1))"

subsection \<open>Version 2 ClientHello\<close>

definition get_v2_client_hello :: "(cbs, uint16 \<times> byte list \<times> byte list) op" where
  "get_v2_client_hello =
     op_bind CBS_get_u8 (\<lambda>msg_type. op_bind CBS_get_u16 (\<lambda>version. op_bind CBS_get_u16 (\<lambda>cipher_spec_length.
     op_bind CBS_get_u16 (\<lambda>session_id_length. op_bind CBS_get_u16 (\<lambda>challenge_length.
     op_bind (CBS_get_bytes (unat cipher_spec_length)) (\<lambda>cipher_specs. op_bind (CBS_get_bytes (unat session_id_length)) (\<lambda>session_id.
     op_bind (CBS_get_bytes (unat challenge_length)) (\<lambda>challenge. op_ret (version, cipher_specs, challenge)))))))))"

definition v2_random :: "byte list \<Rightarrow> byte list" where
  "v2_random challenge =
     (let rand_len = (if length challenge > SSL3_RANDOM_SIZE then SSL3_RANDOM_SIZE else length challenge)
      in replicate (SSL3_RANDOM_SIZE - rand_len) 0 @ take rand_len challenge)"

lemma CBS_get_u24_shrinks: "CBS_get_u24 cbs = (Some v, rest) \<Longrightarrow> length rest < length cbs"
  by (auto simp: CBS_get_u24_def cbs_get_u_def cbs_get_def op_elims split: if_splits)

text \<open>The loop that copies the cipher suites, without those of version 2.\<close>

function copy_cipher_suites :: "heap \<Rightarrow> cbs \<Rightarrow> (cbb, unit) op" where
  "copy_cipher_suites h cipher_specs =
     (if cipher_specs = [] then op_ret ()
      else case CBS_get_u24 cipher_specs of
        (None, _) \<Rightarrow> op_fail
      | (Some cipher_spec, rest) \<Rightarrow>
          if cipher_spec AND 0xff0000 \<noteq> 0 then copy_cipher_suites h rest
          else op_bind (CBB_add_u16 h 2 (ucast cipher_spec)) (\<lambda>_. copy_cipher_suites h rest))"
  by pat_completeness auto
termination by (relation "measure (\<lambda>(_, s). length s)") (auto dest: CBS_get_u24_shrinks[OF sym])

declare copy_cipher_suites.simps [simp del]

definition write_v3_client_hello :: "heap \<Rightarrow> uint16 \<Rightarrow> byte list \<Rightarrow> byte list \<Rightarrow> (cbb, byte list) op" where
  "write_v3_client_hello h version cipher_specs challenge =
     op_bind (CBB_add_u8 h 0 SSL3_MT_CLIENT_HELLO) (\<lambda>_. op_bind (CBB_add_u24_length_prefixed h 0) (\<lambda>_.
     op_bind (CBB_add_u16 h 1 version) (\<lambda>_. op_bind (CBB_add_bytes h 1 (v2_random challenge)) (\<lambda>_.
     op_bind (CBB_add_u8 h 1 0) (\<lambda>_. op_bind (CBB_add_u16_length_prefixed h 1) (\<lambda>_.
     op_bind (copy_cipher_suites h cipher_specs) (\<lambda>_.
     op_bind (CBB_add_u8 h 1 1) (\<lambda>_. op_bind (CBB_add_u8 h 1 0) (\<lambda>_. CBB_finish h 0)))))))))"

text \<open>
  The caller has checked that there are 5 bytes. Called before any other handshake data has arrived, so that the handshake
  buffer is empty; what a failing conversion leaves in its memory is not part of its contents.
\<close>

definition read_v2_client_hello ::
  "'w net \<Rightarrow> byte list \<Rightarrow> ('c, 'w, 'z) ssl_conn_scheme \<Rightarrow> ssl_open_record_t \<times> nat \<times> ('c, 'w, 'z) ssl_conn_scheme" where
  "read_v2_client_hello net inp s =
     (let msg_length = unat (push_bit 8 (ucast (inp ! 0 AND 0x7f)) OR ucast (inp ! 1) :: uint32) in
      if msg_length > 1024 * 4 then (ssl_open_record_error, 0, s)
      else if msg_length < SSL3_RT_HEADER_LENGTH - 2 then (ssl_open_record_error, 0, s)
      else if length inp < 2 + msg_length then (ssl_open_record_partial, 2 + msg_length, s)
      else let v2_client_hello = take msg_length (drop 2 inp) in
        (case call_world (transcript_update net v2_client_hello) s of
           (False, s1) \<Rightarrow> (ssl_open_record_error, 0, s1)
         | (True, s1) \<Rightarrow>
             (case get_v2_client_hello v2_client_hello of
                (Some (version, cipher_specs, challenge), []) \<Rightarrow>
                  let max_v3_client_hello = SSL3_HM_HEADER_LENGTH + 2 + SSL3_RANDOM_SIZE + 1 + 2 + length cipher_specs div 3 * 2 + 1 + 1 in
                  (case tls_append_handshake_data net [] s1 of
                     (False, s2) \<Rightarrow> (ssl_open_record_error, 0, s2)
                   | (True, s2) \<Rightarrow>
                       (case call_world (buf_mem net max_v3_client_hello) s2 of
                          (None, s3) \<Rightarrow> (ssl_open_record_error, 0, s3)
                        | (Some _, s3) \<Rightarrow>
                            (case write_v3_client_hello (cbb_heap net) version cipher_specs challenge
                                    (CBB_init_fixed (hs_memory net max_v3_client_hello)) of
                               (None, _) \<Rightarrow> (ssl_open_record_error, 0, s3)
                             | (Some hello, _) \<Rightarrow>
                                 (ssl_open_record_success, 2 + msg_length, s3\<lparr>hs_buf := Some hello, is_v2_hello := True\<rparr>))))
              | _ \<Rightarrow> (ssl_open_record_error, 0, s1))))"

subsection \<open>Opening handshake records\<close>

text \<open>The result, \<open>*out_alert\<close> after an error, \<open>*out_consumed\<close> and the state.\<close>

definition alert_of :: "open_record \<Rightarrow> byte" where
  "alert_of r = (case r of Record_error alert \<Rightarrow> alert | _ \<Rightarrow> 0)"

definition http_request :: "byte list \<Rightarrow> bool" where
  "http_request inp \<longleftrightarrow>
     take 4 inp = [0x47, 0x45, 0x54, 0x20] \<or> take 5 inp = [0x50, 0x4f, 0x53, 0x54, 0x20] \<or>
     take 5 inp = [0x48, 0x45, 0x41, 0x44, 0x20] \<or> take 4 inp = [0x50, 0x55, 0x54, 0x20]"

definition proxy_request :: "byte list \<Rightarrow> bool" where
  "proxy_request inp \<longleftrightarrow> take 5 inp = [0x43, 0x4f, 0x4e, 0x4e, 0x45]"

definition open_handshake_record ::
  "'w net \<Rightarrow> byte list \<Rightarrow> ('c, 'w, 'z) ssl_conn_scheme \<Rightarrow> ssl_open_record_t \<times> byte \<times> nat \<times> ('c, 'w, 'z) ssl_conn_scheme" where
  "open_handshake_record net inp s =
     (case tls_open_record inp s of
        (Record_success type body, consumed, s1) \<Rightarrow>
          if type \<noteq> SSL3_RT_HANDSHAKE then (ssl_open_record_error, SSL_AD_UNEXPECTED_MESSAGE, consumed, s1)
          else (case tls_append_handshake_data net body s1 of
                  (False, s2) \<Rightarrow> (ssl_open_record_error, SSL_AD_INTERNAL_ERROR, consumed, s2)
                | (True, s2) \<Rightarrow> (ssl_open_record_success, 0, consumed, s2))
      | (r, consumed, s1) \<Rightarrow> (ret_of r, alert_of r, consumed, s1))"

definition tls_open_handshake ::
  "'w net \<Rightarrow> byte list \<Rightarrow> ('c, 'w, 'z) ssl_conn_scheme \<Rightarrow> ssl_open_record_t \<times> byte \<times> nat \<times> ('c, 'w, 'z) ssl_conn_scheme" where
  "tls_open_handshake net inp s =
     (if ssl_server s \<and> \<not> v2_hello_done s then
        if length inp < SSL3_RT_HEADER_LENGTH then (ssl_open_record_partial, 0, SSL3_RT_HEADER_LENGTH, s)
        else if http_request inp \<or> proxy_request inp then (ssl_open_record_error, 0, 0, s)
        else if inp ! 0 AND 0x80 \<noteq> 0 \<and> inp ! 2 = SSL2_MT_CLIENT_HELLO \<and> inp ! 3 = 3 then
          (case read_v2_client_hello net inp s of
             (r, consumed, s1) \<Rightarrow>
               (r, 0, consumed, if r = ssl_open_record_success then s1\<lparr>v2_hello_done := True\<rparr> else s1))
        else open_handshake_record net inp (s\<lparr>v2_hello_done := True\<rparr>)
      else open_handshake_record net inp s)"

end
