(* ===== verification/Tls_Packet.thy ===== *)
theory Tls_Packet
  imports Tls_Flight
begin

text \<open>
  Application data and alerts over records, \<open>ssl/s3_pkt.cc\<close>: writing a message in records of at most \<open>max_send_fragment\<close> bytes
  through the write buffer, with writes that the transport interrupts and the caller repeats; reading the records of
  an established connection; sending alerts. The protocol method is the one of TLS. \<open>None\<close> is \<open>abort()\<close>, an access outside the
  memory of a buffer, or a loop that does not end. What sealing leaves behind the end of a buffer when it fails is never read
  and not modelled; neither are callbacks, assertions and entries of the error queue.
\<close>

abbreviation (input) "SSL_ERROR_NONE \<equiv> (0 :: int)"
abbreviation (input) "SSL_MODE_ENABLE_PARTIAL_WRITE \<equiv> (1 :: uint32)"
abbreviation (input) "SSL_MODE_ACCEPT_MOVING_WRITE_BUFFER \<equiv> (2 :: uint32)"
abbreviation (input) "SSL_AD_NO_RENEGOTIATION \<equiv> (100 :: byte)"
abbreviation (input) "kMaxEarlyDataAccepted \<equiv> (14336 :: nat)"

subsection \<open>Writing a record\<close>

definition tls_seal_align_prefix_len :: "('c, 'z) ssl_rec_scheme \<Rightarrow> nat" where
  "tls_seal_align_prefix_len s =
     SSL3_RT_HEADER_LENGTH + ExplicitNonceLen (aead_write_ctx s) +
     (if ssl_needs_record_splitting s then SSL3_RT_HEADER_LENGTH + write_cipher_split_len s else 0)"

text \<open>The address of the first unused byte of a buffer, and bytes stored there.\<close>

definition remaining_at :: "'w net \<Rightarrow> SSLBuffer \<Rightarrow> nat" where
  "remaining_at net b =
     (case sb_buf b of Null \<Rightarrow> 0 | Inline \<Rightarrow> inline_at net | Malloc a _ \<Rightarrow> a) + sb_offset b + sb_size b"

definition append_buf :: "byte list \<Rightarrow> SSLBuffer \<Rightarrow> SSLBuffer option" where
  "append_buf bs b =
     do { b1 \<leftarrow> poke (sb_offset b + sb_size b) bs b;
          SSLBuffer_DidWrite (length bs) b1 }"

abbreviation (input) "set_write_buffer b s \<equiv> s\<lparr>conn_io := (conn_io s)\<lparr>write_buffer := b\<rparr>\<rparr>"

text \<open>The part of \<open>do_tls_write\<close> that fills the write buffer: -1 or 1, with 0 when there was nothing to write.\<close>

definition fill_write_buffer ::
  "'w net \<Rightarrow> byte \<Rightarrow> nat \<Rightarrow> byte list \<Rightarrow> ('c, 'w) ssl_conn \<Rightarrow> (int \<times> ('c, 'w) ssl_conn) option" where
  "fill_write_buffer net type in_at inp s =
     (let flight = (case pending_flight s of None \<Rightarrow> [] | Some (_, contents) \<Rightarrow> drop (pending_flight_offset s) contents);
          max_ciphertext_len = (length inp + SSL_max_seal_overhead s) mod 2 ^ 64;
          max_out = (length flight + (if inp \<noteq> [] then max_ciphertext_len else 0)) mod 2 ^ 64 in
      if inp \<noteq> [] \<and> (max_ciphertext_len < length inp \<or> max_out < length flight) then Some (- 1, s)
      else if max_out = 0 then Some (0, s)
      else do {
        (ok, b, w) \<leftarrow> SSLBuffer_EnsureCap (net_io net) (length flight + tls_seal_align_prefix_len s) max_out
                       (write_buffer (conn_io s)) (io_world (conn_io s));
        let s1 = set_write_buffer b (set_world w s);
        if \<not> ok then Some (- 1, s1)
        else do {
          s2 \<leftarrow> (if flight \<noteq> [] then
                   do { b1 \<leftarrow> append_buf flight b;
                        Some (set_write_buffer b1 (s1\<lparr>pending_flight := None, pending_flight_offset := 0\<rparr>)) }
                 else Some s1);
          if inp = [] then Some (1, s2)
          else (case seal_record net (remaining_at net (write_buffer (conn_io s2)))
                       (sb_cap (write_buffer (conn_io s2)) - sb_size (write_buffer (conn_io s2))) type in_at inp s2 of
                  (None, s3) \<Rightarrow> Some (- 1, s3)
                | (Some bs, s3) \<Rightarrow>
                    do { b2 \<leftarrow> append_buf bs (write_buffer (conn_io s3));
                         Some (1, set_write_buffer b2 s3) })
        }
      })"

text \<open>The rest of \<open>do_tls_write\<close>, when no write is pending: the return value and \<open>*out_bytes_written\<close>.\<close>

definition write_record ::
  "'w net \<Rightarrow> byte \<Rightarrow> nat \<Rightarrow> byte list \<Rightarrow> ('c, 'w) ssl_conn \<Rightarrow> (int \<times> nat \<times> ('c, 'w) ssl_conn) option" where
  "write_record net type in_at inp s1 =
     (if length inp > SSL3_RT_MAX_PLAIN_LENGTH \<or> sb_size (write_buffer (conn_io s1)) > 0 then Some (- 1, 0, s1)
      else case tls_flush_pending_hs_data net s1 of
        (False, s2) \<Rightarrow> Some (- 1, 0, s2)
      | (True, s2) \<Rightarrow>
          do {
            (filled, s3) \<leftarrow> fill_write_buffer net type in_at inp s2;
            if filled < 0 then Some (- 1, 0, s3)
            else if filled = 0 then Some (1, 0, s3)
            else do {
              (ret, io) \<leftarrow> ssl_write_buffer_flush (net_io net) (conn_io s3);
              let s4 = s3\<lparr>key_update_pending := False, conn_io := io\<rparr>;
              if ret \<le> 0 then
                Some (ret, 0, if inp \<noteq> [] then s4\<lparr>pending_write_at := in_at, pending_write_len := length inp, pending_write_type := type\<rparr>
                              else s4)
              else Some (1, length inp, s4)
            }
          })"

definition do_tls_write ::
  "'w net \<Rightarrow> byte \<Rightarrow> nat \<Rightarrow> byte list \<Rightarrow> ('c, 'w) ssl_conn \<Rightarrow> (int \<times> nat \<times> ('c, 'w) ssl_conn) option" where
  "do_tls_write net type in_at inp s =
     (if pending_write_len s \<noteq> 0 \<and>
         (pending_write_len s > length inp \<or>
          (ssl_mode s AND SSL_MODE_ACCEPT_MOVING_WRITE_BUFFER = 0 \<and> pending_write_at s \<noteq> in_at) \<or>
          pending_write_type s \<noteq> type)
      then Some (- 1, 0, s)
      else do {
        (ret, io) \<leftarrow> ssl_write_buffer_flush (net_io net) (conn_io s);
        let s1 = s\<lparr>conn_io := io\<rparr>;
        if ret \<le> 0 then Some (ret, 0, s1)
        else if pending_write_len s1 \<noteq> 0 then
          Some (1, pending_write_len s1, s1\<lparr>pending_write_at := 0, pending_write_len := 0\<rparr>)
        else write_record net type in_at inp s1
      })"

subsection \<open>Writing application data\<close>

definition ssl_reset_error_state :: "('c, 'w, 'z) ssl_conn_scheme \<Rightarrow> ('c, 'w, 'z) ssl_conn_scheme" where
  "ssl_reset_error_state s = s\<lparr>conn_io := (conn_io s)\<lparr>rwstate := SSL_ERROR_NONE\<rparr>\<rparr>"

definition SSL_set_max_send_fragment :: "nat \<Rightarrow> ('c, 'w, 'z) ssl_conn_scheme \<Rightarrow> ('c, 'w, 'z) ssl_conn_scheme" where
  "SSL_set_max_send_fragment n s =
     (let n1 = (if n < 512 then 512 else n);
          n2 = (if n1 > SSL3_RT_MAX_PLAIN_LENGTH then SSL3_RT_MAX_PLAIN_LENGTH else n1)
      in s\<lparr>max_send_fragment := n2\<rparr>)"

definition on_hs :: "(SSL_HANDSHAKE \<Rightarrow> SSL_HANDSHAKE) \<Rightarrow> ('c, 'w) ssl_conn \<Rightarrow> ('c, 'w) ssl_conn" where
  "on_hs f s = s\<lparr>s3_hs := map_option f (s3_hs s)\<rparr>"

text \<open>
  The loop, with \<open>total_bytes_written\<close> and the rest of the data: the return value, \<open>*out_needs_handshake\<close> and
  \<open>*out_bytes_written\<close>. \<open>early_data_written\<close> is a \<open>uint16_t\<close>.
\<close>

partial_function (option) write_app_loop ::
  "'w net \<Rightarrow> bool \<Rightarrow> nat \<Rightarrow> nat \<Rightarrow> byte list \<Rightarrow> ('c, 'w) ssl_conn \<Rightarrow> (int \<times> bool \<times> nat \<times> ('c, 'w) ssl_conn) option" where
  "write_app_loop net early total_bytes_written in_at inp s =
     (let written = (case s3_hs s of None \<Rightarrow> 0 | Some hs \<Rightarrow> unat (early_data_written hs));
          limit = (case s3_hs s of None \<Rightarrow> 0 | Some hs \<Rightarrow> unat (ticket_max_early_data hs)) in
      if early \<and> written \<ge> limit then
        Some (- 1, True, 0, on_hs (\<lambda>hs. hs\<lparr>can_early_write := False\<rparr>) (s\<lparr>unreported_bytes_written := total_bytes_written\<rparr>))
      else
        let max_fragment = (if early then min (max_send_fragment s) (limit - written) else max_send_fragment s);
            to_write = min max_fragment (length inp) in
        do {
          (ret, bytes_written, s1) \<leftarrow> do_tls_write net SSL3_RT_APPLICATION_DATA in_at (take to_write inp) s;
          if ret \<le> 0 then Some (ret, False, 0, s1\<lparr>unreported_bytes_written := total_bytes_written\<rparr>)
          else
            let total1 = total_bytes_written + bytes_written;
                inp1 = drop bytes_written inp;
                s2 = (if early then on_hs (\<lambda>hs. hs\<lparr>early_data_written := early_data_written hs + of_nat bytes_written\<rparr>) s1 else s1) in
            if inp1 = [] \<or> ssl_mode s2 AND SSL_MODE_ENABLE_PARTIAL_WRITE \<noteq> 0
            then Some (1, False, total1, s2\<lparr>unreported_bytes_written := 0\<rparr>)
            else write_app_loop net early total1 (in_at + bytes_written) inp1 s2
        })"

definition tls_write_app_data ::
  "'w net \<Rightarrow> nat \<Rightarrow> byte list \<Rightarrow> ('c, 'w) ssl_conn \<Rightarrow> (int \<times> bool \<times> nat \<times> ('c, 'w) ssl_conn) option" where
  "tls_write_app_data net in_at inp s =
     (if write_shutdown s \<noteq> ssl_shutdown_none then Some (- 1, False, 0, s)
      else let total = unreported_bytes_written s in
        if length inp < total then Some (- 1, False, 0, s)
        else write_app_loop net
               (\<not> ssl_server s \<and> SSL_in_early_data s \<and> (case s3_hs s of None \<Rightarrow> False | Some hs \<Rightarrow> can_early_write hs))
               total (in_at + total) (drop total inp) s)"

subsection \<open>Reading\<close>

text \<open>The result, \<open>*out_alert\<close> after an error, \<open>*out\<close> after a success, \<open>*out_consumed\<close> and the state.\<close>

definition tls_open_app_data ::
  "'w net \<Rightarrow> byte list \<Rightarrow> ('c, 'w) ssl_conn \<Rightarrow> ssl_open_record_t \<times> byte \<times> byte list \<times> nat \<times> ('c, 'w) ssl_conn" where
  "tls_open_app_data net inp s0 =
     (case tls_open_record inp s0 of
        (Record_success type body, consumed, s) \<Rightarrow>
          let early = (ssl_server s \<and> SSL_in_early_data s);
              early_read = (case s3_hs s of None \<Rightarrow> 0 | Some hs \<Rightarrow> unat (early_data_read hs)) in
          if type = SSL3_RT_HANDSHAKE then
            if ssl_server s \<and> ssl_protocol_version s < TLS1_3_VERSION
            then (ssl_open_record_error, SSL_AD_NO_RENEGOTIATION, [], consumed, s)
            else (case tls_append_handshake_data net body s of
                    (False, s1) \<Rightarrow> (ssl_open_record_error, SSL_AD_INTERNAL_ERROR, [], consumed, s1)
                  | (True, s1) \<Rightarrow> (ssl_open_record_discard, 0, [], consumed, s1))
          else if type \<noteq> SSL3_RT_APPLICATION_DATA then (ssl_open_record_error, SSL_AD_UNEXPECTED_MESSAGE, [], consumed, s)
          else if early \<and> length body > (2 ^ 64 + kMaxEarlyDataAccepted - early_read) mod 2 ^ 64
          then (ssl_open_record_error, SSL_AD_UNEXPECTED_MESSAGE, [], consumed, s)
          else
            let s1 = (if early then on_hs (\<lambda>hs. hs\<lparr>early_data_read := early_data_read hs + of_nat (length body)\<rparr>) s else s) in
            if body = [] then (ssl_open_record_discard, 0, [], consumed, s1)
            else (ssl_open_record_success, 0, body, consumed, s1)
      | (r, consumed, s) \<Rightarrow> (ret_of r, alert_of r, [], consumed, s))"

definition tls_open_change_cipher_spec ::
  "byte list \<Rightarrow> ('c, 'w) ssl_conn \<Rightarrow> ssl_open_record_t \<times> byte \<times> nat \<times> ('c, 'w) ssl_conn" where
  "tls_open_change_cipher_spec inp s =
     (case tls_open_record inp s of
        (Record_success type body, consumed, s1) \<Rightarrow>
          if type \<noteq> SSL3_RT_CHANGE_CIPHER_SPEC then (ssl_open_record_error, SSL_AD_UNEXPECTED_MESSAGE, consumed, s1)
          else if body \<noteq> [SSL3_MT_CCS] then (ssl_open_record_error, SSL_AD_ILLEGAL_PARAMETER, consumed, s1)
          else (ssl_open_record_success, 0, consumed, s1)
      | (r, consumed, s1) \<Rightarrow> (ret_of r, alert_of r, consumed, s1))"

subsection \<open>Alerts\<close>

definition tls_dispatch_alert :: "'w net \<Rightarrow> ('c, 'w) ssl_conn \<Rightarrow> (int \<times> ('c, 'w) ssl_conn) option" where
  "tls_dispatch_alert net s =
     (let (level, desc) = send_alert s;
          dispatched = (\<lambda>s. if level = SSL3_AL_FATAL
                            then snd (call_world (bio_flush net) (s\<lparr>alert_dispatch := False\<rparr>)) else s\<lparr>alert_dispatch := False\<rparr>) in
      if ssl_quic s then
        (case call_world (quic_send_alert net desc) s of
           (False, s1) \<Rightarrow> Some (0, s1)
         | (True, s1) \<Rightarrow> Some (1, dispatched s1))
      else do {
        (ret, bytes_written, s1) \<leftarrow> do_tls_write net SSL3_RT_ALERT (alert_at net) [level, desc] s;
        Some (if ret \<le> 0 then (ret, s1) else (1, dispatched s1))
      })"

definition ssl_send_alert_impl :: "'w net \<Rightarrow> byte \<Rightarrow> byte \<Rightarrow> ('c, 'w) ssl_conn \<Rightarrow> (int \<times> ('c, 'w) ssl_conn) option" where
  "ssl_send_alert_impl net level desc s =
     (if write_shutdown s \<noteq> ssl_shutdown_none then Some (- 1, s)
      else
        let shutdown = (if level = SSL3_AL_WARNING \<and> desc = SSL_AD_CLOSE_NOTIFY then ssl_shutdown_close_notify else ssl_shutdown_error);
            s1 = s\<lparr>write_shutdown := shutdown, alert_dispatch := True, send_alert := (level, desc)\<rparr> in
        if sb_size (write_buffer (conn_io s1)) = 0 then tls_dispatch_alert net s1 else Some (- 1, s1))"

definition ssl_send_alert :: "'w net \<Rightarrow> byte \<Rightarrow> byte \<Rightarrow> ('c, 'w) ssl_conn \<Rightarrow> ('c, 'w) ssl_conn option" where
  "ssl_send_alert net level desc s = map_option snd (ssl_send_alert_impl net level desc s)"

end
