(* ===== verification/Tls_Write.thy ===== *)
theory Tls_Write
  imports Tls_Packet Tls_Limits Ssl_Buffer_Props
begin

text \<open>
  Writing application data with \<open>ssl/s3_pkt.cc\<close>: through fragments, the write buffer, a transport that takes what it likes and callers
  that repeat calls, the bytes that leave are records with the caller's data in order. \<open>in_transit\<close> relates a sender, its
  transport and the receiver; every operation keeps it, and \<open>app_stream\<close> is the state machine of both ends.
\<close>

subsection \<open>The environment\<close>

text \<open>
  What the code relies on: the transport moves the bytes it reports (\<open>bio_ok\<close>), the random numbers have the length asked for, and
  neither they nor the allocation of buffers nor a flush of the transport writes bytes.
\<close>

definition keeps :: "('w \<Rightarrow> 'a) \<Rightarrow> (nat \<Rightarrow> 'w \<Rightarrow> 'b \<times> 'w) \<Rightarrow> bool" where
  "keeps f g \<longleftrightarrow> (\<forall>n w. f (snd (g n w)) = f w)"

definition net_ok :: "'w net \<Rightarrow> ('w \<Rightarrow> byte list) \<Rightarrow> ('w \<Rightarrow> byte list) \<Rightarrow> bool" where
  "net_ok net received sent \<longleftrightarrow>
     bio_ok (net_io net) received sent \<and> rand_ok (net_rand net) \<and>
     keeps sent (net_rand net) \<and> keeps sent (buf_mem net) \<and> keeps sent (\<lambda>_. bio_flush net)"

subsection \<open>What sealing leaves alone\<close>

definition sealed_from :: "('c, 'z) ssl_rec_scheme \<Rightarrow> ('c, 'z) ssl_rec_scheme \<Rightarrow> bool" where
  "sealed_from s s' \<longleftrightarrow> (\<exists>sc q. s' = s\<lparr>aead_write_ctx := sc, write_sequence := q\<rparr>)"

lemma sealed_from_refl: "sealed_from s s"
  unfolding sealed_from_def by (intro exI[of _ "aead_write_ctx s"] exI[of _ "write_sequence s"]) simp

lemma sealed_from_trans: "sealed_from s s1 \<Longrightarrow> sealed_from s1 s2 \<Longrightarrow> sealed_from s s2"
  unfolding sealed_from_def by (elim exE) (rule exI, rule exI, simp)

lemma SealScatter_world:
  assumes "SealScatter rand a prefix_at out_at suffix_at type v q header in_at inp extra w = (x, a', w')"
    and "keeps f rand"
  shows "f w' = f w"
  using assms(1) assms(2)[unfolded keeps_def, rule_format, of "variable_nonce_len a" w]
  by (auto simp: SealScatter_def Let_def split: option.splits if_splits prod.splits bool.splits)

lemma do_seal_frame:
  assumes "do_seal_record rand prefix_at out_at suffix_at type in_at inp s w = (x, s', w')" and "keeps f rand"
  shows "sealed_from s s' \<and> f w' = f w"
proof (cases "s' = s \<and> w' = w")
  case True
  then show ?thesis by (simp add: sealed_from_refl)
next
  case False
  obtain y sc oat pat sat ty v q h ext where run: "SealScatter rand (aead_write_ctx s) pat oat sat ty v q h in_at inp ext w = (y, sc, w')"
    and s': "s' = s\<lparr>aead_write_ctx := sc\<rparr> \<or> s' = s\<lparr>aead_write_ctx := sc, write_sequence := write_sequence s + 1\<rparr>"
    using False assms(1) unfolding do_seal_record_def Let_def by (auto split: option.splits if_splits prod.splits)
  have "sealed_from s (s\<lparr>aead_write_ctx := sc\<rparr>)"
    unfolding sealed_from_def by (intro exI[of _ sc] exI[of _ "write_sequence s"]) simp
  show ?thesis using SealScatter_world[OF run assms(2)] s' \<open>sealed_from s (s\<lparr>aead_write_ctx := sc\<rparr>)\<close> sealed_from_def by metis
qed

lemma tls_seal_frame:
  assumes "tls_seal_record rand tmp mem out_at max_out type in_at inp s w = (x, s', w')" and "keeps f rand"
  shows "sealed_from s s' \<and> f w' = f w"
proof (cases "s' = s \<and> w' = w")
  case True
  then show ?thesis by (simp add: sealed_from_refl)
next
  case False
  then obtain pat oat sat y where run: "tls_seal_scatter_record rand tmp mem pat oat sat type in_at inp s w = (y, s', w')"
    using assms(1) unfolding tls_seal_record_def Let_def by (auto split: option.splits if_splits prod.splits)
  show ?thesis
  proof (cases "splits s type (length inp)")
    case False
    then obtain y1 where "do_seal_record rand pat oat sat type in_at inp s w = (y1, s', w')"
      using run unfolding tls_seal_scatter_record_def by (auto split: option.splits prod.splits)
    then show ?thesis by (rule do_seal_frame[OF _ assms(2)])
  next
    case True
    obtain y1 s1 w1 where one: "do_seal_record rand pat (pat + 5) (pat + 5 + 1) type in_at (take 1 inp) s w = (y1, s1, w1)" by (metis prod_cases3)
    have two: "(s' = s1 \<and> w' = w1) \<or> (\<exists>y2. do_seal_record rand tmp (oat + 1) sat type (in_at + 1) (drop 1 inp) s1 w1 = (y2, s', w'))"
      using run True one unfolding tls_seal_scatter_record_def Let_def by (auto split: option.splits prod.splits)
    show ?thesis using do_seal_frame[OF one assms(2)] two do_seal_frame[OF _ assms(2)] sealed_from_trans by metis
  qed
qed

lemma seal_record_frame:
  assumes "seal_record net out_at max_out type in_at inp s = (x, s')" and "net_ok net received sent"
  obtains y s1 w where "tls_seal_record (net_rand net) (tmp_at net) (net_memory net) out_at max_out type in_at inp s (io_world (conn_io s)) = (y, s1, w)"
    and "x = map_option (\<lambda>(out_len, mem). bytes_at mem out_at out_len) y" and "s' = set_world w s1" and "sealed_from s s1" and "sent w = sent (io_world (conn_io s))"
proof -
  obtain y s1 w where run: "tls_seal_record (net_rand net) (tmp_at net) (net_memory net) out_at max_out type in_at inp s (io_world (conn_io s)) = (y, s1, w)"
    and "x = map_option (\<lambda>(out_len, mem). bytes_at mem out_at out_len) y" and "s' = set_world w s1"
    using assms(1) unfolding seal_record_def by (auto split: prod.splits)
  moreover have "keeps sent (net_rand net)" using assms(2) by (simp add: net_ok_def)
  note tls_seal_frame[OF run this]
  ultimately show thesis using that by blast
qed

subsection \<open>Senders in step\<close>

lemma synced_sender:
  assumes "aead_write_ctx t = aead_write_ctx s" and "write_sequence t = write_sequence s" and "s3_version t = s3_version s"
  shows "synced paired t r = synced paired s r"
  using assms same_version[OF assms(3)] by (simp add: synced_def)

lemma flight_sender:
  assumes "flight paired r wire cs s"
    and "aead_write_ctx t = aead_write_ctx s" and "write_sequence t = write_sequence s" and "s3_version t = s3_version s"
  shows "flight paired r wire cs t"
  using assms
proof (induction rule: flight.induct)
  case (landed s r)
  have "synced paired t r" using landed(1) unfolding synced_sender[OF landed.prems] .
  then show ?case using landed(2) by (rule flight.landed)
next
  case (framed bs r c r' wire cs s)
  show ?case by (rule flight.framed[OF framed(1-3) framed.IH[OF framed.prems]])
qed

subsection \<open>Writing a record\<close>

text \<open>
  \<open>in_transit paired sent taken got r s msgs\<close>: of the bytes the transport of \<open>s\<close> has accepted and those in the write buffer, the
  receiver \<open>r\<close> has consumed \<open>taken\<close>, records with the data \<open>got\<close>; with the records in the rest the data is \<open>msgs\<close>.
\<close>

definition in_transit ::
  "('c EVP_AEAD_CTX \<Rightarrow> 'c EVP_AEAD_CTX \<Rightarrow> bool) \<Rightarrow> ('w \<Rightarrow> byte list) \<Rightarrow> byte list \<Rightarrow> byte list \<Rightarrow> ('c, 'z) ssl_rec_scheme \<Rightarrow> ('c, 'w) ssl_conn \<Rightarrow> byte list \<Rightarrow> bool" where
  "in_transit paired sent taken got r s msgs \<longleftrightarrow>
     (\<exists>wire cs. sent (io_world (conn_io s)) @ span (write_buffer (conn_io s)) = taken @ wire \<and> flight paired r wire cs s \<and> [] \<notin> set cs \<and>
       msgs = got @ concat cs)"

text \<open>A connection over a stream transport with no handshake messages to send.\<close>

definition sender_ok :: "('c, 'w) ssl_conn \<Rightarrow> bool" where
  "sender_ok s \<longleftrightarrow>
     buf_ok (write_buffer (conn_io s)) \<and> wbio_set (conn_io s) \<and> \<not> io_dtls (conn_io s) \<and> pending_flight s = None \<and>
     pending_hs_data s = None \<and> 0 < max_send_fragment s \<and> max_send_fragment s \<le> SSL3_RT_MAX_PLAIN_LENGTH"

text \<open>What writing a record does not change, and what it changes only at the end.\<close>

definition same_conn :: "('c, 'w) ssl_conn \<Rightarrow> ('c, 'w) ssl_conn \<Rightarrow> bool" where
  "same_conn s s' \<longleftrightarrow> unreported_bytes_written s' = unreported_bytes_written s \<and> ssl_mode s' = ssl_mode s \<and>
     max_send_fragment s' = max_send_fragment s \<and> s3_hs s' = s3_hs s \<and> write_shutdown s' = write_shutdown s"

definition same_write :: "('c, 'w) ssl_conn \<Rightarrow> ('c, 'w) ssl_conn \<Rightarrow> bool" where
  "same_write s s' \<longleftrightarrow> same_conn s s' \<and>
     pending_write_at s' = pending_write_at s \<and> pending_write_len s' = pending_write_len s \<and> pending_write_type s' = pending_write_type s"

lemma same_write_refl [simp]: "same_write s s"
  by (simp add: same_write_def same_conn_def)

lemma same_write_trans: "same_write s s1 \<Longrightarrow> same_write s1 s2 \<Longrightarrow> same_write s s2"
  by (simp add: same_write_def same_conn_def)

lemma same_write_conn_io [simp]: "same_write s (s\<lparr>conn_io := io\<rparr>)"
  by (simp add: same_write_def same_conn_def)

lemma flush_transit:
  assumes "net_ok net received sent" and "sender_ok s" and "in_transit paired sent taken got r s msgs"
  obtains ret io where "ssl_write_buffer_flush (net_io net) (conn_io s) = Some (ret, io)" and "sender_ok (s\<lparr>conn_io := io\<rparr>)"
    and "in_transit paired sent taken got r (s\<lparr>conn_io := io\<rparr>) msgs"
    and "if ret > 0 then ret = 1 \<and> write_buffer io = SSLBuffer_Clear (write_buffer io) \<and> rwstate io = rwstate (conn_io s)
         else rwstate io = SSL_ERROR_WANT_WRITE \<and> \<not> accepts (net_io net)"
proof -
  have T: "bio_ok (net_io net) received sent" using assms(1) by (simp add: net_ok_def)
  have b: "buf_ok (write_buffer (conn_io s))" and io: "wbio_set (conn_io s)" "\<not> io_dtls (conn_io s)" using assms(2) by (simp_all add: sender_ok_def)
  have e: "ssl_write_buffer_flush (net_io net) (conn_io s) = tls_write_loop (net_io net) (conn_io s)"
    using io by (simp add: ssl_write_buffer_flush_def tls_write_buffer_flush_def)
  obtain ret io' where run: "tls_write_loop (net_io net) (conn_io s) = Some (ret, io')" and b': "buf_ok (write_buffer io')" and same: "same_bio io' (conn_io s)"
    and st: "sent (io_world io') @ span (write_buffer io') = sent (io_world (conn_io s)) @ span (write_buffer (conn_io s))"
    and res: "if ret > 0 then ret = 1 \<and> write_buffer io' = SSLBuffer_Clear (write_buffer io') \<and> rwstate io' = rwstate (conn_io s)
         else rwstate io' = SSL_ERROR_WANT_WRITE \<and> \<not> accepts (net_io net)"
    using tls_write_loop_flushes[OF T b] by blast
  have ok: "sender_ok (s\<lparr>conn_io := io'\<rparr>)" using assms(2) b' same by (simp add: sender_ok_def same_bio_def)
  obtain wire cs where w: "sent (io_world (conn_io s)) @ span (write_buffer (conn_io s)) = taken @ wire" and f: "flight paired r wire cs s" and "[] \<notin> set cs" "msgs = got @ concat cs"
    using assms(3) by (auto simp: in_transit_def)
  moreover have "flight paired r wire cs (s\<lparr>conn_io := io'\<rparr>)" by (rule flight_sender[OF f]) simp_all
  ultimately have "in_transit paired sent taken got r (s\<lparr>conn_io := io'\<rparr>) msgs"
    unfolding in_transit_def using st by (intro exI[of _ wire] exI[of _ cs]) simp
  then show thesis using that run[folded e] ok res by blast
qed

lemma append_buf_took: "append_buf bs b = took (int (length bs)) bs b"
  by (simp add: append_buf_def took_def)

lemma Clear_size:
  assumes "b = SSLBuffer_Clear b"
  shows "sb_size b = 0"
  using arg_cong[OF assms, of sb_size] by (simp add: SSLBuffer_Clear_def)

lemma seal_overhead_bound:
  assumes "synced paired s r"
  shows "SSL_max_seal_overhead s \<le> 650"
  using assms by (simp add: SSL_max_seal_overhead_def synced_def Let_def)

lemma seal_overhead_same:
  assumes "aead_write_ctx t = aead_write_ctx s" and "s3_version t = s3_version s" and "ssl_mode t = ssl_mode s"
  shows "SSL_max_seal_overhead t = SSL_max_seal_overhead s"
  unfolding SSL_max_seal_overhead_def ssl_needs_record_splitting_def assms same_version[OF assms(2)] ..

text \<open>The write buffer is empty: what fills it is one message, sealed.\<close>

lemma fill_transit:
  fixes s :: "('c, 'w) ssl_conn" and r :: "('c, 'z) ssl_rec_scheme"
  assumes "aead_pair paired" and net: "net_ok net received sent" and s: "sender_ok s" "in_transit paired sent taken got r s msgs"
    and empty: "write_buffer (conn_io s) = SSLBuffer_Clear (write_buffer (conn_io s))" and small: "length inp \<le> SSL3_RT_MAX_PLAIN_LENGTH"
  obtains ret s' where "fill_write_buffer net SSL3_RT_APPLICATION_DATA in_at inp s = Some (ret, s')" and "same_write s s'"
    and "rwstate (conn_io s') = rwstate (conn_io s)"
    and "ret = - 1 \<or> ret = 0 \<and> inp = [] \<and> s' = s \<or> ret = 1 \<and> inp \<noteq> [] \<and> sender_ok s' \<and> in_transit paired sent taken got r s' (msgs @ inp)"
proof (cases "inp = []")
  case True
  then have "fill_write_buffer net SSL3_RT_APPLICATION_DATA in_at inp s = Some (0, s)"
    using s(1) by (simp add: fill_write_buffer_def sender_ok_def)
  then show thesis using that[of 0 s] True by simp
next
  case False
  obtain wire cs where wire: "sent (io_world (conn_io s)) @ span (write_buffer (conn_io s)) = taken @ wire" and f: "flight paired r wire cs s"
    and msgs: "[] \<notin> set cs" "msgs = got @ concat cs" using s(2) by (auto simp: in_transit_def)
  obtain r1 :: "('c, 'z) ssl_rec_scheme" where sync: "synced paired s r1" using flight_synced[OF f] by blast
  define room where "room = length inp + SSL_max_seal_overhead s"
  have room: "room \<le> max_cap" "room < 2 ^ 64" "length inp \<le> room" "room \<noteq> 0"
    using seal_overhead_bound[OF sync] small False by (auto simp: room_def max_cap_def)
  have T: "bio_ok (net_io net) received sent" and rand: "rand_ok (net_rand net)" using net by (simp_all add: net_ok_def)
  have b: "buf_ok (write_buffer (conn_io s))" using s(1) by (simp add: sender_ok_def)
  obtain ok b' w' where cap: "SSLBuffer_EnsureCap (net_io net) (tls_seal_align_prefix_len s) room (write_buffer (conn_io s)) (io_world (conn_io s)) = Some (ok, b', w')"
    and b': "buf_ok b'" "span b' = span (write_buffer (conn_io s))" "ok \<longrightarrow> room \<le> sb_cap b'" and w': "sent w' = sent (io_world (conn_io s))"
    by (rule EnsureCap_ok[OF T b room(1)])
  have none: "pending_flight s = None" using s(1) by (simp add: sender_ok_def)
  let ?s1 = "set_write_buffer b' (set_world w' s)"
  have run: "fill_write_buffer net SSL3_RT_APPLICATION_DATA in_at inp s =
     (if \<not> ok then Some (- 1, ?s1)
      else case seal_record net (remaining_at net b') (sb_cap b' - sb_size b') SSL3_RT_APPLICATION_DATA in_at inp ?s1 of
                  (None, s3) \<Rightarrow> Some (- 1, s3)
                | (Some bs, s3) \<Rightarrow>
                    do { b2 \<leftarrow> append_buf bs (write_buffer (conn_io s3));
                         Some (1, set_write_buffer b2 s3) })"
    unfolding fill_write_buffer_def Let_def none option.case using False room room_def cap by (simp add: set_world_def)
  have f1: "flight paired r wire cs ?s1" by (rule flight_sender[OF f]) (simp_all add: set_world_def)
  have s1: "same_write s ?s1" "rwstate (conn_io ?s1) = rwstate (conn_io s)" by (simp_all add: same_write_def same_conn_def set_world_def)
  show thesis
  proof (cases ok)
    case False
    then show thesis using that[of "- 1" ?s1] run s1 by simp
  next
    case True
    obtain x s3 where seal: "seal_record net (remaining_at net b') (sb_cap b' - sb_size b') SSL3_RT_APPLICATION_DATA in_at inp ?s1 = (x, s3)" by fastforce
    obtain y s2 w2 where run2: "tls_seal_record (net_rand net) (tmp_at net) (net_memory net) (remaining_at net b') (sb_cap b' - sb_size b')
          SSL3_RT_APPLICATION_DATA in_at inp ?s1 (io_world (conn_io ?s1)) = (y, s2, w2)"
      and x: "x = map_option (\<lambda>(out_len, mem). bytes_at mem (remaining_at net b') out_len) y" and s3: "s3 = set_world w2 s2" and "sealed_from ?s1 s2" and w2: "sent w2 = sent (io_world (conn_io ?s1))"
      by (rule seal_record_frame[OF seal net])
    then obtain sc q where s2: "s2 = ?s1\<lparr>aead_write_ctx := sc, write_sequence := q\<rparr>" unfolding sealed_from_def by blast
    have same3: "same_write s s3" "rwstate (conn_io s3) = rwstate (conn_io s)" "write_buffer (conn_io s3) = b'"
      by (simp_all add: s3 s2 same_write_def same_conn_def set_world_def)
    show thesis
    proof (cases y)
      case None
      then show thesis using that[of "- 1" s3] run True seal same3 x by simp
    next
      case (Some p)
      then obtain n mem' where y: "y = Some (n, mem')" by (cases p) simp
      define bs where "bs = bytes_at mem' (remaining_at net b') n"
      have xs: "x = Some bs" using x y by (simp add: bs_def)
      obtain new where new: "concat new = inp" "[] \<notin> set new" "flight paired r (wire @ bs) (cs @ new) s2"
        using aead_pair.flight_sealed[OF assms(1) f1 rand False small run2[unfolded y]] unfolding bs_def by blast
      have f2: "flight paired r (wire @ bs) (cs @ new) s2" by (rule new)
      have sync1: "synced paired ?s1 r1" using sync by (subst synced_sender[of _ s]) (simp_all add: set_world_def)
      have "SSL_max_seal_overhead ?s1 = SSL_max_seal_overhead s" by (rule seal_overhead_same) (simp_all add: set_world_def)
      then have "length bs \<le> room" using aead_pair.seal_record_room(1)[OF assms(1) sync1 rand small run2[unfolded y]] by (simp add: room_def bs_def)
      moreover have size: "sb_size b' = 0" "span (write_buffer (conn_io s)) = []"
        using length_span[OF b'(1)] b'(2) Clear_span[OF empty] by simp_all
      ultimately have fit: "length (span b') + nat (int (length bs)) \<le> sb_cap b'" using b' True by simp
      obtain b2 where b2: "append_buf bs b' = Some b2" "buf_ok b2" "span b2 = bs"
        using sb.put[OF b'(1) _ fit, of bs] b'(2) size unfolding append_buf_took by auto
      let ?s' = "set_write_buffer b2 s3"
      have "fill_write_buffer net SSL3_RT_APPLICATION_DATA in_at inp s = Some (1, ?s')"
        using run True seal xs same3(3) b2(1) by simp
      moreover have "same_write s ?s'" "rwstate (conn_io ?s') = rwstate (conn_io s)"
        using same3 same_write_trans[OF same3(1)] by simp_all
      moreover have "sender_ok ?s'" using s(1) b2(2) by (simp add: sender_ok_def s3 s2 set_world_def)
      moreover have f': "flight paired r (wire @ bs) (cs @ new) ?s'" by (rule flight_sender[OF f2]) (simp_all add: s3 set_world_def)
      have "in_transit paired sent taken got r ?s' (msgs @ inp)"
        unfolding in_transit_def using wire size w2 w' msgs new(1,2) f' b2(3)
        by (intro exI[of _ "wire @ bs"] exI[of _ "cs @ new"]) (simp add: s3 s2 set_world_def)
      ultimately show thesis using that[of 1 ?s'] False by blast
    qed
  qed
qed

text \<open>
  The outcomes of a call that writes \<open>inp\<close> after \<open>old\<close>, when \<open>n\<close> bytes are reported: it succeeds and the data delivered or in transit is \<open>old\<close> and
  the bytes reported, or the caller has to repeat it and the data is \<open>old\<close> and the bytes of the
  unfinished write.
\<close>

definition write_outcome ::
  "('c EVP_AEAD_CTX \<Rightarrow> 'c EVP_AEAD_CTX \<Rightarrow> bool) \<Rightarrow> ('w \<Rightarrow> byte list) \<Rightarrow> byte list \<Rightarrow> byte list \<Rightarrow> ('c, 'z) ssl_rec_scheme \<Rightarrow> byte list \<Rightarrow> byte list
   \<Rightarrow> int \<Rightarrow> nat \<Rightarrow> nat \<Rightarrow> ('c, 'w) ssl_conn \<Rightarrow> bool" where
  "write_outcome paired sent taken got r old inp ret n due s' \<longleftrightarrow>
     (if 0 < ret then ret = 1 \<and> sender_ok s' \<and> pending_write_len s' = 0 \<and> n \<le> length inp \<and> in_transit paired sent taken got r s' (old @ take n inp)
      else rwstate (conn_io s') = SSL_ERROR_WANT_WRITE \<longrightarrow> sender_ok s' \<and> due \<le> length inp \<and> in_transit paired sent taken got r s' (old @ take due inp))"

lemma transit_same:
  assumes "in_transit paired sent taken got r s msgs" and "conn_io s' = conn_io s" and "aead_write_ctx s' = aead_write_ctx s"
    and "write_sequence s' = write_sequence s" and "s3_version s' = s3_version s"
  shows "in_transit paired sent taken got r s' msgs"
proof -
  obtain wire cs where "sent (io_world (conn_io s)) @ span (write_buffer (conn_io s)) = taken @ wire" "flight paired r wire cs s" "[] \<notin> set cs" "msgs = got @ concat cs"
    using assms(1) by (auto simp: in_transit_def)
  then show ?thesis unfolding in_transit_def using flight_sender[OF _ assms(3-5)] assms(2) by (intro exI[of _ wire] exI[of _ cs]) simp
qed

lemma write_record_transit:
  fixes s :: "('c, 'w) ssl_conn" and r :: "('c, 'z) ssl_rec_scheme"
  assumes "aead_pair paired" and net: "net_ok net received sent" and s: "sender_ok s" "in_transit paired sent taken got r s old"
    and clear: "write_buffer (conn_io s) = SSLBuffer_Clear (write_buffer (conn_io s))" and none: "pending_write_len s = 0"
    and small: "length inp \<le> SSL3_RT_MAX_PLAIN_LENGTH" and rw: "rwstate (conn_io s) \<noteq> SSL_ERROR_WANT_WRITE"
  obtains ret n s' where "write_record net SSL3_RT_APPLICATION_DATA in_at inp s = Some (ret, n, s')" and "same_conn s s'"
    and "write_outcome paired sent taken got r old inp ret n (pending_write_len s') s'"
    and "0 < ret \<Longrightarrow> rwstate (conn_io s') = rwstate (conn_io s) \<and> n = length inp"
proof -
  have hs: "tls_flush_pending_hs_data net s = (True, s)" using s(1) by (simp add: tls_flush_pending_hs_data_def sender_ok_def)
  obtain fl s3 where fill: "fill_write_buffer net SSL3_RT_APPLICATION_DATA in_at inp s = Some (fl, s3)" and same3: "same_write s s3"
    and rw3: "rwstate (conn_io s3) = rwstate (conn_io s)"
    and fl: "fl = - 1 \<or> fl = 0 \<and> inp = [] \<and> s3 = s \<or> fl = 1 \<and> inp \<noteq> [] \<and> sender_ok s3 \<and> in_transit paired sent taken got r s3 (old @ inp)"
    by (rule fill_transit[OF assms(1) net s clear small])
  have same: "same_conn s s3" and p3: "pending_write_len s3 = 0" using same3 none by (simp_all add: same_write_def)
  from fl show thesis
  proof (elim disjE conjE)
    assume "fl = - 1"
    then show thesis using that[of "- 1" 0 s3] fill hs small Clear_size[OF clear] same rw3 rw by (simp add: write_record_def write_outcome_def)
  next
    assume "fl = 0" "inp = []" "s3 = s"
    then show thesis using that[of 1 0 s] fill hs Clear_size[OF clear] same none s by (simp add: write_record_def write_outcome_def)
  next
    assume fl: "fl = 1" and ne: "inp \<noteq> []" and s3: "sender_ok s3" "in_transit paired sent taken got r s3 (old @ inp)"
    obtain ret io where flush: "ssl_write_buffer_flush (net_io net) (conn_io s3) = Some (ret, io)" and ok4: "sender_ok (s3\<lparr>conn_io := io\<rparr>)"
      and tr4: "in_transit paired sent taken got r (s3\<lparr>conn_io := io\<rparr>) (old @ inp)"
      and ret: "if ret > 0 then ret = 1 \<and> write_buffer io = SSLBuffer_Clear (write_buffer io) \<and> rwstate io = rwstate (conn_io s3)
         else rwstate io = SSL_ERROR_WANT_WRITE \<and> \<not> accepts (net_io net)"
      by (rule flush_transit[OF net s3])
    let ?s4 = "s3\<lparr>key_update_pending := False, conn_io := io\<rparr>"
    let ?s5 = "?s4\<lparr>pending_write_at := in_at, pending_write_len := length inp, pending_write_type := SSL3_RT_APPLICATION_DATA\<rparr>"
    let ?s' = "if ret > 0 then ?s4 else ?s5"
    have "in_transit paired sent taken got r ?s' (old @ inp)" by (rule transit_same[OF tr4]) simp_all
    moreover have "sender_ok ?s'" "same_conn s ?s'" "pending_write_len ?s' = (if ret > 0 then 0 else length inp)"
      using ok4 same p3 by (simp_all add: sender_ok_def same_conn_def)
    moreover have "write_record net SSL3_RT_APPLICATION_DATA in_at inp s = Some (ret, if ret > 0 then length inp else 0, ?s')"
      using fill hs small Clear_size[OF clear] fl flush ne ret by (simp add: write_record_def)
    ultimately show thesis using that[of ret "if ret > 0 then length inp else 0" ?s'] ret rw3 by (simp add: write_outcome_def split: if_splits)
  qed
qed

lemma write_transit:
  fixes s :: "('c, 'w) ssl_conn" and r :: "('c, 'z) ssl_rec_scheme"
  assumes "aead_pair paired" and net: "net_ok net received sent" and s: "sender_ok s" "in_transit paired sent taken got r s msgs"
    and msgs: "pending_write_len s \<le> length inp \<Longrightarrow> msgs = old @ take (pending_write_len s) inp"
    and small: "length inp \<le> SSL3_RT_MAX_PLAIN_LENGTH" and rw: "rwstate (conn_io s) \<noteq> SSL_ERROR_WANT_WRITE"
  obtains ret n s' where "do_tls_write net SSL3_RT_APPLICATION_DATA in_at inp s = Some (ret, n, s')" and "same_conn s s'"
    and "write_outcome paired sent taken got r old inp ret n (pending_write_len s') s'"
    and "0 < ret \<Longrightarrow> rwstate (conn_io s') = rwstate (conn_io s) \<and> (inp \<noteq> [] \<longrightarrow> 0 < n)"
proof -
  let ?p = "pending_write_len s"
  let ?bad = "?p \<noteq> 0 \<and> (?p > length inp \<or> (ssl_mode s AND SSL_MODE_ACCEPT_MOVING_WRITE_BUFFER = 0 \<and> pending_write_at s \<noteq> in_at) \<or>
    pending_write_type s \<noteq> SSL3_RT_APPLICATION_DATA)"
  have same: "same_conn s s" by (simp add: same_conn_def)
  show thesis
  proof (cases ?bad)
    case True
    then have "do_tls_write net SSL3_RT_APPLICATION_DATA in_at inp s = Some (- 1, 0, s)" by (simp add: do_tls_write_def)
    then show thesis using that[of "- 1" 0 s] same rw by (simp add: write_outcome_def)
  next
    case good: False
    then have p: "?p \<le> length inp" by auto
    note m = msgs[OF p]
    obtain ret io where flush: "ssl_write_buffer_flush (net_io net) (conn_io s) = Some (ret, io)" and ok1: "sender_ok (s\<lparr>conn_io := io\<rparr>)"
      and tr1: "in_transit paired sent taken got r (s\<lparr>conn_io := io\<rparr>) msgs"
      and ret: "if ret > 0 then ret = 1 \<and> write_buffer io = SSLBuffer_Clear (write_buffer io) \<and> rwstate io = rwstate (conn_io s)
         else rwstate io = SSL_ERROR_WANT_WRITE \<and> \<not> accepts (net_io net)"
      by (rule flush_transit[OF net s])
    let ?s1 = "s\<lparr>conn_io := io\<rparr>" and ?s2 = "s\<lparr>conn_io := io, pending_write_at := 0, pending_write_len := 0\<rparr>"
    have same1: "same_conn s ?s1" by (simp add: same_conn_def)
    have run: "do_tls_write net SSL3_RT_APPLICATION_DATA in_at inp s =
        (if ret \<le> 0 then Some (ret, 0, ?s1) else if ?p \<noteq> 0 then Some (1, ?p, ?s2) else write_record net SSL3_RT_APPLICATION_DATA in_at inp ?s1)"
      using good flush unfolding do_tls_write_def by (simp only: if_False) simp
    consider (blocked) "\<not> ret > 0" | (completed) "ret > 0" "?p \<noteq> 0" | (fresh) "ret > 0" "?p = 0" by blast
    then show thesis
    proof cases
      case blocked
      then show thesis using that[of ret 0 ?s1] same1 ok1 tr1 m p run by (simp add: write_outcome_def)
    next
      case completed
      have "in_transit paired sent taken got r ?s2 msgs" by (rule transit_same[OF tr1]) simp_all
      moreover have "sender_ok ?s2" using ok1 by (simp add: sender_ok_def)
      ultimately show thesis using that[of 1 ?p ?s2] completed p m ret same1 run by (simp add: write_outcome_def same_conn_def)
    next
      case fresh
      have tr: "in_transit paired sent taken got r ?s1 old" using tr1 m fresh(2) by simp
      obtain ret2 n s' where "write_record net SSL3_RT_APPLICATION_DATA in_at inp ?s1 = Some (ret2, n, s')" and "same_conn ?s1 s'"
        and "write_outcome paired sent taken got r old inp ret2 n (pending_write_len s') s'"
        and "0 < ret2 \<Longrightarrow> rwstate (conn_io s') = rwstate (conn_io ?s1) \<and> n = length inp"
        by (rule write_record_transit[OF assms(1) net ok1 tr _ _ small]) (use ret fresh rw in auto)
      then show thesis using that[of ret2 n s'] fresh run ret by (auto simp: same_conn_def)
    qed
  qed
qed

subsection \<open>Writing application data\<close>

lemma on_hs_sender [simp]: "sender_ok (on_hs f s) = sender_ok s" "conn_io (on_hs f s) = conn_io s" "pending_write_len (on_hs f s) = pending_write_len s"
  "max_send_fragment (on_hs f s) = max_send_fragment s" "write_shutdown (on_hs f s) = write_shutdown s" "ssl_mode (on_hs f s) = ssl_mode s"
  "unreported_bytes_written (on_hs f s) = unreported_bytes_written s"
  by (simp_all add: on_hs_def sender_ok_def)

lemma transit_fields [simp]:
  "in_transit paired sent taken got r (on_hs f s) msgs = in_transit paired sent taken got r s msgs"
  "in_transit paired sent taken got r (s\<lparr>unreported_bytes_written := n\<rparr>) msgs = in_transit paired sent taken got r s msgs"
  by (auto simp: on_hs_def intro: transit_same elim!: transit_same)

lemma sender_fields [simp]: "sender_ok (s\<lparr>unreported_bytes_written := n\<rparr>) = sender_ok s"
  by (simp add: sender_ok_def)

text \<open>
  The loop, with \<open>tot\<close> bytes written before; \<open>n - tot\<close> more are reported, or what the caller has to repeat are
  the bytes written by the loop and those of the pending record.
\<close>

lemma outcome_shift:
  assumes "write_outcome paired sent taken got r (old @ take m inp) (drop m inp) ret n0 due0 s'" and "m \<le> length inp"
    and "0 < ret \<Longrightarrow> n = m + n0" and "\<not> 0 < ret \<Longrightarrow> due = m + due0"
  shows "write_outcome paired sent taken got r old inp ret n due s'"
  using assms by (cases "0 < ret") (auto simp: write_outcome_def take_add)

lemma write_app_loop_transit:
  fixes s :: "('c, 'w) ssl_conn" and r :: "('c, 'z) ssl_rec_scheme"
  assumes "aead_pair paired" and net: "net_ok net received sent" and "sender_ok s" "in_transit paired sent taken got r s msgs"
    and "pending_write_len s \<le> length inp \<Longrightarrow> msgs = old @ take (pending_write_len s) inp"
    and "rwstate (conn_io s) \<noteq> SSL_ERROR_WANT_WRITE"
  shows "\<exists>ret needs n s'. write_app_loop net early tot in_at inp s = Some (ret, needs, n, s') \<and>
    write_outcome paired sent taken got r old inp ret (n - tot) (unreported_bytes_written s' - tot + pending_write_len s') s' \<and>
    write_shutdown s' = write_shutdown s \<and> (if 0 < ret then tot \<le> n \<and> unreported_bytes_written s' = 0 else tot \<le> unreported_bytes_written s')"
  using assms(3-6)
proof (induction "length inp" arbitrary: inp s msgs old tot in_at rule: less_induct)
  case less
  let ?written = "case s3_hs s of None \<Rightarrow> 0 | Some hs \<Rightarrow> unat (early_data_written hs)"
  let ?limit = "case s3_hs s of None \<Rightarrow> 0 | Some hs \<Rightarrow> unat (ticket_max_early_data hs)"
  show ?case
  proof (cases "early \<and> ?written \<ge> ?limit")
    case True
    then show ?thesis using less.prems(4) by (subst write_app_loop.simps) (auto simp: write_outcome_def)
  next
    case False
    define k where "k = min (if early then min (max_send_fragment s) (?limit - ?written) else max_send_fragment s) (length inp)"
    have k: "k \<le> length inp" "k \<le> max_send_fragment s" "inp \<noteq> [] \<longrightarrow> 0 < k"
      using False less.prems(1) by (auto simp: k_def sender_ok_def)
    have small: "length (take k inp) \<le> SSL3_RT_MAX_PLAIN_LENGTH" using k less.prems(1) by (simp add: sender_ok_def)
    have pend: "msgs = old @ take (pending_write_len s) (take k inp)" if "pending_write_len s \<le> length (take k inp)"
      using less.prems(3) that by simp
    obtain ret n s1 where one: "do_tls_write net SSL3_RT_APPLICATION_DATA in_at (take k inp) s = Some (ret, n, s1)" and same: "same_conn s s1"
      and out: "write_outcome paired sent taken got r old (take k inp) ret n (pending_write_len s1) s1"
      and pos: "0 < ret \<Longrightarrow> rwstate (conn_io s1) = rwstate (conn_io s) \<and> (take k inp \<noteq> [] \<longrightarrow> 0 < n)"
      by (rule write_transit[OF assms(1) net less.prems(1,2) pend small less.prems(4), where in_at = in_at]) (assumption, rule that)
    define s2 where "s2 = (if early then on_hs (\<lambda>hs. hs\<lparr>early_data_written := early_data_written hs + of_nat n\<rparr>) s1 else s1)"
    have run: "write_app_loop net early tot in_at inp s =
        (if ret \<le> 0 then Some (ret, False, 0, s1\<lparr>unreported_bytes_written := tot\<rparr>)
         else if drop n inp = [] \<or> ssl_mode s2 AND SSL_MODE_ENABLE_PARTIAL_WRITE \<noteq> 0
         then Some (1, False, tot + n, s2\<lparr>unreported_bytes_written := 0\<rparr>)
         else write_app_loop net early (tot + n) (in_at + n) (drop n inp) s2)"
      unfolding write_app_loop.simps[of net early tot in_at inp s] Let_def if_not_P[OF False] k_def[symmetric] one by (simp add: s2_def)
    have ws: "write_shutdown s1 = write_shutdown s" using same by (simp add: same_conn_def)
    consider (failed) "\<not> 0 < ret" | (stop) "0 < ret" "drop n inp = [] \<or> ssl_mode s2 AND SSL_MODE_ENABLE_PARTIAL_WRITE \<noteq> 0"
      | (more) "0 < ret" "\<not> (drop n inp = [] \<or> ssl_mode s2 AND SSL_MODE_ENABLE_PARTIAL_WRITE \<noteq> 0)" by blast
    then show ?thesis
    proof cases
      case failed
      then show ?thesis using run out ws k(1) by (auto simp: write_outcome_def)
    next
      case stop
      then show ?thesis using run out ws k(1) by (auto simp: write_outcome_def s2_def)
    next
      case more
      then have step: "sender_ok s2" "in_transit paired sent taken got r s2 (old @ take n inp)" "pending_write_len s2 = 0" "n \<le> length inp"
          "rwstate (conn_io s2) \<noteq> SSL_ERROR_WANT_WRITE"
        using out pos less.prems(4) k(1) by (auto simp: write_outcome_def s2_def)
      have "0 < n" using more pos k(3) by auto
      then have less': "length (drop n inp) < length inp" using step(4) more by auto
      obtain ret' needs n' s' where rest: "write_app_loop net early (tot + n) (in_at + n) (drop n inp) s2 = Some (ret', needs, n', s')"
        and out': "write_outcome paired sent taken got r (old @ take n inp) (drop n inp) ret' (n' - (tot + n))
            (unreported_bytes_written s' - (tot + n) + pending_write_len s') s'"
        and ws': "write_shutdown s' = write_shutdown s2"
        and un': "if 0 < ret' then tot + n \<le> n' \<and> unreported_bytes_written s' = 0 else tot + n \<le> unreported_bytes_written s'"
        using less.hyps[OF less' step(1,2) _ step(5), of "old @ take n inp" "tot + n" "in_at + n"] step(3) by auto
      have "write_outcome paired sent taken got r old inp ret' (n' - tot) (unreported_bytes_written s' - tot + pending_write_len s') s'"
        by (rule outcome_shift[OF out' step(4)]) (use un' in auto)
      moreover have "write_app_loop net early tot in_at inp s = Some (ret', needs, n', s')" using run more rest by simp
      moreover have "write_shutdown s2 = write_shutdown s" using ws by (simp add: s2_def)
      ultimately show ?thesis using ws' un' by (intro exI conjI) (assumption, auto split: if_splits)
    qed
  qed
qed

lemma write_app_data_transit:
  fixes s :: "('c, 'w) ssl_conn" and r :: "('c, 'z) ssl_rec_scheme"
  assumes "aead_pair paired" and net: "net_ok net received sent" and s: "sender_ok s" "in_transit paired sent taken got r s (old @ due)"
    and due: "take (length due) inp = due" "length due = unreported_bytes_written s + pending_write_len s"
    and rw: "rwstate (conn_io s) \<noteq> SSL_ERROR_WANT_WRITE"
  shows "\<exists>ret needs n s'. tls_write_app_data net in_at inp s = Some (ret, needs, n, s') \<and>
    write_outcome paired sent taken got r old inp ret n (unreported_bytes_written s' + pending_write_len s') s' \<and>
    write_shutdown s' = write_shutdown s \<and> (0 < ret \<longrightarrow> write_shutdown s = ssl_shutdown_none \<and> unreported_bytes_written s' = 0)"
proof (cases "write_shutdown s = ssl_shutdown_none")
  case False
  then show ?thesis using rw by (auto simp: tls_write_app_data_def write_outcome_def)
next
  case open_: True
  let ?tot = "unreported_bytes_written s"
  have len: "?tot + pending_write_len s \<le> length inp" using arg_cong[OF due(1), of length] due(2) by simp
  define early where "early \<longleftrightarrow> \<not> ssl_server s \<and> SSL_in_early_data s \<and> (case s3_hs s of None \<Rightarrow> False | Some hs \<Rightarrow> can_early_write hs)"
  have run: "tls_write_app_data net in_at inp s = write_app_loop net early ?tot (in_at + ?tot) (drop ?tot inp) s"
    using open_ len unfolding tls_write_app_data_def early_def[symmetric] Let_def by simp
  have msgs: "old @ due = (old @ take ?tot inp) @ take (pending_write_len s) (drop ?tot inp)"
    using due take_add[of ?tot "pending_write_len s" inp] by simp
  obtain ret needs n s' where loop: "write_app_loop net early ?tot (in_at + ?tot) (drop ?tot inp) s = Some (ret, needs, n, s')"
    and out: "write_outcome paired sent taken got r (old @ take ?tot inp) (drop ?tot inp) ret (n - ?tot)
        (unreported_bytes_written s' - ?tot + pending_write_len s') s'"
    and ws: "write_shutdown s' = write_shutdown s"
    and un: "if 0 < ret then ?tot \<le> n \<and> unreported_bytes_written s' = 0 else ?tot \<le> unreported_bytes_written s'"
    using write_app_loop_transit[OF assms(1) net s msgs rw] by blast
  have "write_outcome paired sent taken got r old inp ret n (unreported_bytes_written s' + pending_write_len s') s'"
    by (rule outcome_shift[OF out]) (use un len in auto)
  then show ?thesis using run loop ws un open_ by auto
qed

subsection \<open>Both ends\<close>

lemma skip_no_success: "skip_early_data c s \<noteq> (Record_success type msg, s')"
  by (simp add: skip_early_data_def Let_def)

lemma open_success_opened:
  assumes "tls_open_record inp s = (Record_success type msg, n, s')"
  obtains outer out sc where "tls_opened outer out (s\<lparr>aead_read_ctx := sc\<rparr>) = (Record_success type msg, s')"
proof -
  obtain outer v len cbs body rest where h: "get_record_header inp = (Some (outer, v, len), cbs)" and b: "CBS_get_bytes (unat len) cbs = (Some body, rest)"
    using assms by (auto simp: tls_open_record_def Let_def split: if_splits option.splits prod.splits)
  have "\<exists>sc out. tls_opened outer out (s\<lparr>aead_read_ctx := sc\<rparr>) = (Record_success type msg, s')"
    using assms unfolding tls_open_record_def h option.case prod.case Let_def unfolding b option.case prod.case
    by (auto simp: skip_no_success split: if_splits option.splits prod.splits)
  then show thesis using that by blast
qed

lemma tls_opened_frame:
  assumes "tls_opened outer out s = (Record_success type msg, s')"
  shows "s3_hs s' = s3_hs s \<and> ssl_server s' = ssl_server s"
proof -
  have alert: "ssl_process_alert c t \<noteq> (Record_success type msg, t')" for c and t t' :: "('a, 'b) ssl_rec_scheme"
    by (auto simp: ssl_process_alert_def Let_def split: if_splits list.splits)
  show ?thesis using assms alert unfolding tls_opened_def Let_def by (auto split: if_splits option.splits prod.splits)
qed

lemma open_success_frame:
  assumes "tls_open_record inp s = (Record_success type msg, n, s')"
  shows "s3_hs s' = s3_hs s" and "ssl_server s' = ssl_server s"
proof -
  obtain outer out sc where "tls_opened outer out (s\<lparr>aead_read_ctx := sc\<rparr>) = (Record_success type msg, s')"
    by (rule open_success_opened[OF assms])
  then show "s3_hs s' = s3_hs s" and "ssl_server s' = ssl_server s" using tls_opened_frame by fastforce+
qed

lemma open_app_data_transit:
  assumes "in_transit paired sent taken got r s msgs" and "sent (io_world (conn_io s)) = taken @ avail @ later"
    and "tls_open_app_data net avail r = (ssl_open_record_success, alert, msg, n, r')" and "\<not> (ssl_server r \<and> SSL_in_early_data r)"
  shows "in_transit paired sent (taken @ take n avail) (got @ msg) r' s msgs \<and> \<not> (ssl_server r' \<and> SSL_in_early_data r')"
proof -
  obtain x k q where run: "tls_open_record avail r = (x, k, q)" by (metis prod_cases3)
  have "x \<noteq> Record_success t m \<Longrightarrow> False" if "\<And>t m. x \<noteq> Record_success t m" for t m
    using that assms(3) run by (cases x) (auto simp: tls_open_app_data_def ret_of_def)
  then obtain type body where x: "x = Record_success type body" by (cases x) auto
  then have early: "\<not> (ssl_server q \<and> SSL_in_early_data q)"
    using open_success_frame[OF run[unfolded x]] assms(4) by (simp add: SSL_in_early_data_def)
  obtain wire cs where w: "sent (io_world (conn_io s)) @ span (write_buffer (conn_io s)) = taken @ wire" and f: "flight paired r wire cs s"
    and msgs: "[] \<notin> set cs" "msgs = got @ concat cs" using assms(1) by (auto simp: in_transit_def)
  then have "wire = avail @ (later @ span (write_buffer (conn_io s)))" using assms(2) by simp
  then obtain cs' where cs: "cs = body # cs'" "flight paired q (drop k avail @ later @ span (write_buffer (conn_io s))) cs' s"
    and "type = SSL3_RT_APPLICATION_DATA" "k \<le> length avail"
    using flight_arrived[of paired r avail _ cs s, OF _ run[unfolded x]] f by blast
  then have q: "r' = q" "msg = body" "n = k" using assms(3) run x early by (auto simp: tls_open_app_data_def Let_def split: if_splits prod.splits bool.splits)
  have "taken @ avail @ later = (taken @ take k avail) @ drop k avail @ later"
    by (metis append.assoc append_take_drop_id)
  then show ?thesis using q msgs cs assms(2) early
    unfolding in_transit_def by (intro conjI exI[of _ "drop k avail @ later @ span (write_buffer (conn_io s))"] exI[of _ cs']) simp_all
qed

text \<open>
  \<open>app_stream net rnet paired sent s r taken done due got\<close> is reachable by calls at both ends of a connection: the application has been told that the
  bytes \<open>reported\<close> were written, it has to repeat a call with at least the bytes \<open>due\<close>, and the other end has consumed the bytes
  \<open>taken\<close> of the transport and handed out the data \<open>got\<close>. A call that is repeated starts with the same bytes. The
  reader is given some of the bytes the transport has accepted and it has not consumed. A call that
  fails for another reason than a transport that is not ready ends the connection.
\<close>

inductive app_stream ::
  "'w net \<Rightarrow> 'v net \<Rightarrow> ('c EVP_AEAD_CTX \<Rightarrow> 'c EVP_AEAD_CTX \<Rightarrow> bool) \<Rightarrow> ('w \<Rightarrow> byte list) \<Rightarrow> ('c, 'w) ssl_conn \<Rightarrow> ('c, 'v) ssl_conn
   \<Rightarrow> byte list \<Rightarrow> byte list \<Rightarrow> byte list \<Rightarrow> byte list \<Rightarrow> bool"
  for net rnet paired sent where
  established: "\<lbrakk>sender_ok s; synced paired s r; receiving r; span (write_buffer (conn_io s)) = []; pending_write_len s = 0;
    unreported_bytes_written s = 0; \<not> (ssl_server r \<and> SSL_in_early_data r)\<rbrakk>
    \<Longrightarrow> app_stream net rnet paired sent s r (sent (io_world (conn_io s))) [] [] []"
| wrote: "\<lbrakk>app_stream net rnet paired sent s r taken reported due got; take (length due) inp = due;
    tls_write_app_data net in_at inp (ssl_reset_error_state s) = Some (ret, needs, n, s'); 0 < ret\<rbrakk>
    \<Longrightarrow> app_stream net rnet paired sent s' r taken (reported @ take n inp) [] got"
| retry: "\<lbrakk>app_stream net rnet paired sent s r taken reported due got; take (length due) inp = due;
    tls_write_app_data net in_at inp (ssl_reset_error_state s) = Some (ret, needs, n, s'); \<not> 0 < ret;
    rwstate (conn_io s') = SSL_ERROR_WANT_WRITE\<rbrakk>
    \<Longrightarrow> app_stream net rnet paired sent s' r taken reported (take (unreported_bytes_written s' + pending_write_len s') inp) got"
| was_read: "\<lbrakk>app_stream net rnet paired sent s r taken reported due got; sent (io_world (conn_io s)) = taken @ avail @ later;
    tls_open_app_data rnet avail r = (ssl_open_record_success, alert, msg, n, r')\<rbrakk>
    \<Longrightarrow> app_stream net rnet paired sent s r' (taken @ take n avail) reported due (got @ msg)"

lemma reset_sender [simp]: "sender_ok (ssl_reset_error_state s) = sender_ok s"
  "in_transit paired sent taken got r (ssl_reset_error_state s) msgs = in_transit paired sent taken got r s msgs"
  "unreported_bytes_written (ssl_reset_error_state s) = unreported_bytes_written s"
  "pending_write_len (ssl_reset_error_state s) = pending_write_len s" "rwstate (conn_io (ssl_reset_error_state s)) \<noteq> SSL_ERROR_WANT_WRITE"
proof -
  have f: "flight paired r wire cs (ssl_reset_error_state s) = flight paired r wire cs s" for wire cs
    by (rule iffI; erule flight_sender) (simp_all add: ssl_reset_error_state_def)
  show "in_transit paired sent taken got r (ssl_reset_error_state s) msgs = in_transit paired sent taken got r s msgs"
    unfolding in_transit_def f by (simp add: ssl_reset_error_state_def)
qed (simp_all add: ssl_reset_error_state_def sender_ok_def)

lemma app_stream_transit:
  assumes "aead_pair paired" and "net_ok net received sent" and "app_stream net rnet paired sent s r taken reported due got"
  shows "sender_ok s \<and> in_transit paired sent taken got r s (reported @ due) \<and>
    length due = unreported_bytes_written s + pending_write_len s \<and> \<not> (ssl_server r \<and> SSL_in_early_data r)"
  using assms(3)
proof (induction rule: app_stream.induct)
  case (established s r)
  have "flight paired r [] [] s" using established(2,3) by (rule flight.landed)
  then show ?case using established by (auto simp: in_transit_def)
next
  case (wrote s r taken reported due got inp in_at ret needs n s')
  then show ?case using write_app_data_transit[OF assms(1,2), of "ssl_reset_error_state s" taken got r reported due inp in_at]
    by (auto simp: write_outcome_def)
next
  case (retry s r taken reported due got inp in_at ret needs n s')
  then show ?case using write_app_data_transit[OF assms(1,2), of "ssl_reset_error_state s" taken got r reported due inp in_at]
    by (auto simp: write_outcome_def)
next
  case (was_read s r taken reported due got avail later alert msg n r')
  then show ?case using open_app_data_transit[of paired sent taken got r s "reported @ due" avail later rnet alert msg n r'] by blast
qed

end
