(* ===== verification/Tls_App_Data.thy ===== *)
theory Tls_App_Data
  imports Tls_Write
begin

text \<open>
  Application data from one end of a connection to the other, and writes that complete when the transport and the allocator
  allow it, with ChaCha20-Poly1305 as the algorithm.
\<close>

subsection \<open>Writes that complete\<close>

text \<open>There is memory, and it does not overlap the \<open>n\<close> bytes at \<open>in_at\<close> that the caller writes.\<close>

definition memory_apart :: "'w net \<Rightarrow> nat \<Rightarrow> nat \<Rightarrow> bool" where
  "memory_apart net in_at n \<longleftrightarrow>
     (\<forall>k w. \<exists>a m w'. sys_malloc (net_io net) k w = (Some (a, m), w') \<and> (in_at + n \<le> a \<or> a + k \<le> in_at))"

lemma memory_apart_part:
  assumes "memory_apart net in_at n" and "in_at \<le> at" and "at + m \<le> in_at + n"
  shows "memory_apart net at m"
  unfolding memory_apart_def
proof (intro allI)
  fix k w
  obtain a b w' where "sys_malloc (net_io net) k w = (Some (a, b), w')" "in_at + n \<le> a \<or> a + k \<le> in_at"
    using assms(1) unfolding memory_apart_def by blast
  moreover from this(2) have "at + m \<le> a \<or> a + k \<le> at" using assms(2,3) by linarith
  ultimately show "\<exists>a b w'. sys_malloc (net_io net) k w = (Some (a, b), w') \<and> (at + m \<le> a \<or> a + k \<le> at)" by blast
qed

lemma EnsureCap_apart:
  assumes T: "bio_ok (net_io net) received sent" and mem: "memory_apart net in_at n" and b: "b = SSLBuffer_Clear b" "buf_ok b"
    and cap: "5 < need" "need \<le> max_cap"
  obtains b' w' where "SSLBuffer_EnsureCap (net_io net) header_len need b w = Some (True, b', w')" and "buf_ok b'" and "sb_cap b' = need"
    and "sb_size b' = 0" and "\<not> buffers_alias in_at n (remaining_at net b') need"
proof -
  obtain a m w' where m: "sys_malloc (net_io net) (need + 8 - 1) w = (Some (a, m), w')" and apart: "in_at + n \<le> a \<or> a + (need + 8 - 1) \<le> in_at"
    using mem unfolding memory_apart_def by blast
  define off where "off = nat ((0 - int header_len - int a) mod 8)"
  have off: "off \<le> 7" unfolding off_def by linarith
  have fields: "sb_cap b = 0" "sb_size b = 0" using arg_cong[OF b(1), of sb_cap] Clear_size[OF b(1)] by (simp_all add: SSLBuffer_Clear_def)
  have span: "peek_span b = Some []" using Clear_span[OF b(1)] fields by (simp add: peek_span_def)
  have small: "need mod 65536 = need" "off mod 65536 = off" using cap off by (simp_all add: max_cap_def)
  let ?b = "b\<lparr>sb_buf := Malloc a m, sb_offset := off, sb_cap := need\<rparr>"
  have "SSLBuffer_EnsureCap (net_io net) header_len need b w = Some (True, ?b, w')"
    using m cap fields span small by (simp add: SSLBuffer_EnsureCap_def new_block_def off_def poke_def max_cap_def)
  moreover have "buf_ok ?b"
    using malloc_ok(3)[OF T m refl] off cap b(2) fields by (simp add: buf_ok_def memory_def max_cap_def)
  moreover have "\<not> buffers_alias in_at n (remaining_at net ?b) need"
    using apart off fields by (auto simp: buffers_alias_def remaining_at_def)
  ultimately show thesis using that[of ?b w'] fields by simp
qed

lemma overhead_chacha:
  assumes "aead_write_ctx s = chacha_context v key iv"
  shows "SSL_max_seal_overhead s = 21 + length (record_extra_in type s)"
proof -
  have "\<not> ssl_needs_record_splitting s"
    by (simp add: ssl_needs_record_splitting_def assms chacha_context_def chacha_cipher_def SSL_CIPHER_is_block_cipher_def)
  moreover have "MaxOverhead (chacha_context v key iv) = 16"
    by (simp add: MaxOverhead_def ExplicitNonceLen_def chacha_context_def EVP_AEAD_max_overhead_def aead_chacha20_poly1305_def)
  ultimately show ?thesis by (simp add: SSL_max_seal_overhead_def assms record_extra_in_def)
qed

lemma fill_succeeds:
  assumes net: "net_ok net received sent" and s: "sender_ok s" "write_buffer (conn_io s) = SSLBuffer_Clear (write_buffer (conn_io s))"
    and ctx: "aead_write_ctx s = chacha_context v key iv" "length iv = 12" and seq: "write_sequence s + 1 \<noteq> 0"
    and inp: "inp \<noteq> []" "length inp \<le> SSL3_RT_MAX_PLAIN_LENGTH" and mem: "memory_apart net in_at (length inp)"
    and run: "fill_write_buffer net SSL3_RT_APPLICATION_DATA in_at inp s = Some (ret, s')"
  shows "ret = 1 \<and> aead_write_ctx s' = aead_write_ctx s \<and> write_sequence s' = write_sequence s + 1"
proof -
  define need where "need = length inp + SSL_max_seal_overhead s"
  note over = overhead_chacha[OF ctx(1), of SSL3_RT_APPLICATION_DATA]
  have need: "5 < need" "need \<le> max_cap" "need < 2 ^ 64" "length inp \<le> need"
    using inp over by (auto simp: need_def max_cap_def record_extra_in_def)
  have T: "bio_ok (net_io net) received sent" using net by (simp add: net_ok_def)
  have b: "buf_ok (write_buffer (conn_io s))" and none: "pending_flight s = None" using s(1) by (simp_all add: sender_ok_def)
  obtain b' w' where cap: "SSLBuffer_EnsureCap (net_io net) (tls_seal_align_prefix_len s) need (write_buffer (conn_io s)) (io_world (conn_io s)) = Some (True, b', w')"
    and b': "buf_ok b'" "sb_cap b' = need" "sb_size b' = 0" and apart: "\<not> buffers_alias in_at (length inp) (remaining_at net b') need"
    by (rule EnsureCap_apart[OF T mem s(2) b need(1,2)])
  let ?s1 = "set_write_buffer b' (set_world w' s)"
  let ?s2 = "?s1\<lparr>write_sequence := write_sequence ?s1 + 1\<rparr>"
  have extra: "record_extra_in SSL3_RT_APPLICATION_DATA ?s1 = record_extra_in SSL3_RT_APPLICATION_DATA s"
    by (simp add: record_extra_in_def set_world_def ssl_protocol_version_def)
  obtain bs where seal: "seal_record net (remaining_at net b') need SSL3_RT_APPLICATION_DATA in_at inp ?s1 = (Some bs, set_world w' ?s2)"
    using seal_record_chacha[of ?s1 v key iv inp SSL3_RT_APPLICATION_DATA need in_at "remaining_at net b'" "net_rand net" "tmp_at net" "net_memory net" w']
      ctx seq inp(2) apart extra over
    by (auto simp: seal_record_def set_world_def need_def)
  have "fill_write_buffer net SSL3_RT_APPLICATION_DATA in_at inp s =
      do { b2 \<leftarrow> append_buf bs b'; Some (1, set_write_buffer b2 (set_world w' ?s2)) }"
    unfolding fill_write_buffer_def Let_def none option.case using inp(1) need need_def cap seal b'(2,3) by (simp add: set_world_def)
  then show ?thesis using run by (cases "append_buf bs b'") (auto simp: set_world_def)
qed

text \<open>What a successful write keeps for the next one.\<close>

definition next_record :: "('c, 'w) ssl_conn \<Rightarrow> ('c, 'w) ssl_conn \<Rightarrow> bool" where
  "next_record s s' \<longleftrightarrow> aead_write_ctx s' = aead_write_ctx s \<and> write_sequence s' = write_sequence s + 1 \<and>
     write_buffer (conn_io s') = SSLBuffer_Clear (write_buffer (conn_io s'))"

lemma write_succeeds:
  fixes s :: "(byte list, 'w) ssl_conn" and r :: "(byte list, 'z) ssl_rec_scheme"
  assumes net: "net_ok net received sent" and "accepts (net_io net)" and s: "sender_ok s" "in_transit chacha_paired sent taken got r s msgs"
    and pend: "pending_write_len s = 0"
    and ctx: "aead_write_ctx s = chacha_context v key iv" "length iv = 12" and seq: "write_sequence s + 1 \<noteq> 0"
    and inp: "inp \<noteq> []" "length inp \<le> SSL3_RT_MAX_PLAIN_LENGTH" and mem: "memory_apart net in_at (length inp)"
    and run: "do_tls_write net SSL3_RT_APPLICATION_DATA in_at inp s = Some (ret, n, s')"
  shows "0 < ret \<and> n = length inp \<and> next_record s s'"
proof -
  obtain ret1 io where flush: "ssl_write_buffer_flush (net_io net) (conn_io s) = Some (ret1, io)" and ok1: "sender_ok (s\<lparr>conn_io := io\<rparr>)"
    and tr1: "in_transit chacha_paired sent taken got r (s\<lparr>conn_io := io\<rparr>) msgs"
    and ret1: "if ret1 > 0 then ret1 = 1 \<and> write_buffer io = SSLBuffer_Clear (write_buffer io) \<and> rwstate io = rwstate (conn_io s)
       else rwstate io = SSL_ERROR_WANT_WRITE \<and> \<not> accepts (net_io net)"
    by (rule flush_transit[OF net s])
  then have clear: "0 < ret1" "write_buffer (conn_io (s\<lparr>conn_io := io\<rparr>)) = SSLBuffer_Clear (write_buffer (conn_io (s\<lparr>conn_io := io\<rparr>)))"
    using assms(2) by (auto split: if_splits)
  let ?s1 = "s\<lparr>conn_io := io\<rparr>"
  have hs: "tls_flush_pending_hs_data net ?s1 = (True, ?s1)" using ok1 by (simp add: tls_flush_pending_hs_data_def sender_ok_def)
  obtain fl s3 where fill: "fill_write_buffer net SSL3_RT_APPLICATION_DATA in_at inp ?s1 = Some (fl, s3)"
    and fl: "fl = - 1 \<or> fl = 0 \<and> inp = [] \<and> s3 = ?s1 \<or> fl = 1 \<and> inp \<noteq> [] \<and> sender_ok s3 \<and> in_transit chacha_paired sent taken got r s3 (msgs @ inp)"
    by (rule fill_transit[OF chacha.aead_pair_axioms net ok1 tr1 clear(2) inp(2), where in_at = in_at]) (rule that)
  have s3: "fl = 1 \<and> aead_write_ctx s3 = aead_write_ctx s \<and> write_sequence s3 = write_sequence s + 1"
    using fill_succeeds[OF net ok1 clear(2) _ ctx(2) _ inp mem fill, of v key] ctx(1) seq by simp
  then have "sender_ok s3" "in_transit chacha_paired sent taken got r s3 (msgs @ inp)" using fl by auto
  from flush_transit[OF net this] obtain ret2 io2 where flush2: "ssl_write_buffer_flush (net_io net) (conn_io s3) = Some (ret2, io2)"
    and ret2: "if ret2 > 0 then ret2 = 1 \<and> write_buffer io2 = SSLBuffer_Clear (write_buffer io2) \<and> rwstate io2 = rwstate (conn_io s3)
       else rwstate io2 = SSL_ERROR_WANT_WRITE \<and> \<not> accepts (net_io net)" by blast
  have "write_record net SSL3_RT_APPLICATION_DATA in_at inp ?s1 = Some (1, length inp, s3\<lparr>key_update_pending := False, conn_io := io2\<rparr>)"
    using hs fill s3 flush2 ret2 assms(2) inp Clear_size[OF clear(2)] by (simp add: write_record_def split: if_splits)
  then have "do_tls_write net SSL3_RT_APPLICATION_DATA in_at inp s = Some (1, length inp, s3\<lparr>key_update_pending := False, conn_io := io2\<rparr>)"
    using pend flush clear(1) by (simp add: do_tls_write_def)
  then show ?thesis using run s3 ret2 assms(2) by (auto simp: next_record_def split: if_splits)
qed

lemma write_app_loop_succeeds:
  fixes s :: "(byte list, 'w) ssl_conn" and r :: "(byte list, 'z) ssl_rec_scheme"
  assumes net: "net_ok net received sent" "accepts (net_io net)" and "length iv = 12"
    and "sender_ok s" and "in_transit chacha_paired sent taken got r s msgs" and "pending_write_len s = 0" and "rwstate (conn_io s) \<noteq> SSL_ERROR_WANT_WRITE"
    and "aead_write_ctx s = chacha_context v key iv" and "unat (write_sequence s) + length inp < 2 ^ 64 - 1" and "inp \<noteq> []"
    and "memory_apart net in_at (length inp)" and "ssl_mode s AND SSL_MODE_ENABLE_PARTIAL_WRITE = 0"
  shows "\<exists>s'. write_app_loop net False tot in_at inp s = Some (1, False, tot + length inp, s') \<and>
    write_buffer (conn_io s') = SSLBuffer_Clear (write_buffer (conn_io s'))"
  using assms(4-)
proof (induction "length inp" arbitrary: inp s msgs tot in_at rule: less_induct)
  case less
  define k where "k = min (max_send_fragment s) (length inp)"
  have k: "0 < k" "k \<le> length inp" "take k inp \<noteq> []" using less.prems(1,7) by (auto simp: k_def sender_ok_def)
  have small: "length (take k inp) \<le> SSL3_RT_MAX_PLAIN_LENGTH" using less.prems(1) by (auto simp: k_def sender_ok_def)
  have mem: "memory_apart net in_at (length (take k inp))" "memory_apart net (in_at + k) (length (drop k inp))"
    using memory_apart_part[OF less.prems(8)] k(2) by simp_all
  have seq: "unat (write_sequence s) + 1 < 2 ^ 64" using less.prems(6,7) by (cases inp) auto
  then have seq1: "unat (write_sequence s + 1) = unat (write_sequence s) + 1" "write_sequence s + 1 \<noteq> 0"
    by (simp_all add: unat_word_ariths word_unat_eq_iff)
  obtain ret n s1 where one: "do_tls_write net SSL3_RT_APPLICATION_DATA in_at (take k inp) s = Some (ret, n, s1)" and same: "same_conn s s1"
    and out: "write_outcome chacha_paired sent taken got r msgs (take k inp) ret n (pending_write_len s1) s1"
    and rw: "0 < ret \<Longrightarrow> rwstate (conn_io s1) = rwstate (conn_io s) \<and> (take k inp \<noteq> [] \<longrightarrow> 0 < n)"
    by (rule write_transit[OF chacha.aead_pair_axioms net(1) less.prems(1,2) _ small less.prems(4), of msgs in_at]) (use less.prems(3) in auto)
  have "0 < ret \<and> n = length (take k inp) \<and> next_record s s1"
    by (rule write_succeeds[OF net less.prems(1,2,3,5) assms(3) seq1(2) k(3) small mem(1) one])
  then have ok: "0 < ret" "n = k" "next_record s s1" using k(2) by simp_all
  have run: "write_app_loop net False tot in_at inp s =
      (if drop k inp = [] then Some (1, False, tot + k, s1\<lparr>unreported_bytes_written := 0\<rparr>)
       else write_app_loop net False (tot + k) (in_at + k) (drop k inp) s1)"
    unfolding write_app_loop.simps[of net False tot in_at inp s] Let_def simp_thms if_False k_def[symmetric] one
    using ok(1,2) same less.prems(9) by (simp add: same_conn_def)
  show ?case
  proof (cases "drop k inp = []")
    case True
    then show ?thesis using run k(2) ok(3) by (auto simp: next_record_def)
  next
    case False
    have s1: "sender_ok s1" "in_transit chacha_paired sent taken got r s1 (msgs @ take k (take k inp))" "pending_write_len s1 = 0"
      "rwstate (conn_io s1) \<noteq> SSL_ERROR_WANT_WRITE" "aead_write_ctx s1 = chacha_context v key iv"
      "unat (write_sequence s1) + length (drop k inp) < 2 ^ 64 - 1" "ssl_mode s1 AND SSL_MODE_ENABLE_PARTIAL_WRITE = 0"
      using ok out rw less.prems k same seq1 by (auto simp: write_outcome_def next_record_def same_conn_def)
    have "length (drop k inp) < length inp" using k by simp
    from less.hyps[OF this s1(1-6) False mem(2) s1(7), of "tot + k"] show ?thesis using run False k(2) by simp
  qed
qed

lemma write_app_data_succeeds:
  assumes "net_ok net received sent" and "accepts (net_io net)" and "memory_apart net in_at (length inp)" and "inp \<noteq> []"
    and "app_stream net rnet chacha_paired sent s r taken reported [] got"
    and "aead_write_ctx s = chacha_context version key iv" and "length iv = 12" and "unat (write_sequence s) + length inp < 2 ^ 64 - 1"
    and "write_shutdown s = ssl_shutdown_none" and "ssl_server s \<or> \<not> SSL_in_early_data s" and "ssl_mode s AND SSL_MODE_ENABLE_PARTIAL_WRITE = 0"
  shows "\<exists>s'. tls_write_app_data net in_at inp (ssl_reset_error_state s) = Some (1, False, length inp, s') \<and> span (write_buffer (conn_io s')) = []"
proof -
  let ?s = "ssl_reset_error_state s"
  have inv: "sender_ok s" "in_transit chacha_paired sent taken got r s reported" "unreported_bytes_written s = 0" "pending_write_len s = 0"
    using app_stream_transit[OF chacha.aead_pair_axioms assms(1,5)] by simp_all
  have same: "aead_write_ctx ?s = aead_write_ctx s" "write_sequence ?s = write_sequence s" "write_shutdown ?s = write_shutdown s" "ssl_mode ?s = ssl_mode s"
      "ssl_server ?s = ssl_server s" "SSL_in_early_data ?s = SSL_in_early_data s"
    by (simp_all add: ssl_reset_error_state_def SSL_in_early_data_def)
  have "\<exists>s'. write_app_loop net False 0 in_at inp ?s = Some (1, False, 0 + length inp, s') \<and>
      write_buffer (conn_io s') = SSLBuffer_Clear (write_buffer (conn_io s'))"
    by (rule write_app_loop_succeeds[OF assms(1,2,7), where r = r and msgs = reported and v = version and key = key]) (use inv same assms in simp_all)
  then obtain s' where loop: "write_app_loop net False 0 in_at inp ?s = Some (1, False, length inp, s')"
    and clear: "write_buffer (conn_io s') = SSLBuffer_Clear (write_buffer (conn_io s'))" by auto
  have run: "tls_write_app_data net in_at inp ?s = Some (1, False, length inp, s')"
    using loop same assms(9,10) inv(3) by (auto simp: tls_write_app_data_def)
  then show ?thesis using Clear_span[OF clear] by auto
qed

subsection \<open>A simulated connection\<close>

text \<open>Both ends run over a transport that accepts two bytes at a time, with the caller's memory below address 16.\<close>

definition sim_net :: "sim_wire net" where
  "sim_net = \<lparr>net_io = sim_transport, net_rand = \<lambda>n w. (Some (replicate n 0), w), buf_mem = \<lambda>n w. (Some 16, w), hs_memory = \<lambda>n. replicate n 0, net_memory = \<lambda>_. 0,
     cbb_heap = \<lparr>alloc_ok = \<lambda>_. True, fresh = \<lambda>_. 0\<rparr>, bio_flush = \<lambda>w. (1, w), transcript_update = \<lambda>_ w. (True, w), quic_add_handshake_data = \<lambda>_ w. (False, w),
     quic_flush_flight = \<lambda>w. (False, w), quic_send_alert = \<lambda>_ w. (False, w), tmp_at = 0, inline_at = 0, alert_at = 0\<rparr>"

definition sim_end :: "(byte list, sim_wire) ssl_conn" where
  "sim_end = ssl_rec.extend (endpoint TLS1_3_VERSION (replicate 32 7) (replicate 12 9))
     (ssl_conn.fields (sim_conn []) ssl_shutdown_none 16384 False True None None 0 0 0 0 0 False False (0, 0))"

lemmas sim_end_defs = sim_end_def endpoint_def ssl_rec.extend_def ssl_conn.fields_def

lemma sim_net_ok: "net_ok sim_net (\<lambda>w. fst (snd w)) (\<lambda>w. snd (snd w))"
  using sim_transport_ok rand_ok_zeros by (simp add: net_ok_def keeps_def sim_net_def)

lemma sim_end_receiving: "receiving sim_end"
proof -
  have "parse_message sim_end = Inl 4" by (simp add: parse_message_def sim_end_defs)
  then show ?thesis
    unfolding receiving_def tls_can_accept_handshake_data_def tls_has_unprocessed_handshake_data_def by (simp add: sim_end_defs)
qed

lemma sim_stream: "app_stream sim_net sim_net chacha_paired (\<lambda>w. snd (snd w)) sim_end sim_end [] [] [] []"
proof -
  have "synced chacha_paired sim_end sim_end"
    by (rule chacha_synced[of _ TLS1_3_VERSION "replicate 32 7" "replicate 12 9"]) (simp_all add: sim_end_defs)
  moreover have "sender_ok sim_end" by (simp add: sender_ok_def sim_end_defs sim_conn_def SSLBuffer_new_def buf_ok_def memory_def)
  moreover have "span (write_buffer (conn_io sim_end)) = []" by (simp add: sim_end_defs sim_conn_def SSLBuffer_new_def span_def)
  ultimately have "app_stream sim_net sim_net chacha_paired (\<lambda>w. snd (snd w)) sim_end sim_end
      ((\<lambda>w. snd (snd w)) (io_world (conn_io sim_end))) [] [] []"
    using sim_end_receiving by (intro app_stream.established) (simp_all add: sim_end_defs SSL_in_early_data_def)
  then show ?thesis by (simp add: sim_end_defs sim_conn_def)
qed

lemma sim_accepts: "accepts (net_io sim_net)"
  by (auto simp: accepts_def sim_net_def sim_transport_def min_def)

lemma sim_apart: "memory_apart sim_net 0 16"
  by (simp add: memory_apart_def sim_net_def sim_transport_def)

lemma sim_end_fields:
  "aead_write_ctx sim_end = chacha_context TLS1_3_VERSION (replicate 32 7) (replicate 12 9)" "write_sequence sim_end = 0"
  "write_shutdown sim_end = ssl_shutdown_none" "\<not> SSL_in_early_data sim_end" "ssl_mode sim_end = 0"
  by (simp_all add: sim_end_defs SSL_in_early_data_def)

subsection \<open>From one end to the other\<close>

text \<open>
  (C5) What an application writes is what the application at the other end reads. Over any transport that accepts part of
  what it is given or nothing for a while, with writes cut into records and repeated by the caller until they are reported,
  and with any algorithm that opens what it sealed: the data handed out so far is a prefix of the data reported as written
  and the data of the call to repeat, without loss, repetition or reordering; once all bytes have left the write
  buffer and are consumed it is all of it; when they have only left the buffer, the next read hands out the next
  piece; and every further call to write returns.
\<close>
theorem application_stream:
  assumes "aead_pair paired" and "net_ok net received sent" and "app_stream net rnet paired sent s r taken reported due got"
  shows "(\<exists>missing. reported @ due = got @ concat missing \<and>
      (\<forall>wire. sent (io_world (conn_io s)) = taken @ wire \<and> span (write_buffer (conn_io s)) = [] \<longrightarrow>
        (if wire = [] then missing = []
         else \<exists>n r'. missing \<noteq> [] \<and> 0 < n \<and> tls_open_app_data rnet wire r = (ssl_open_record_success, 0, hd missing, n, r')))) \<and>
    (\<forall>in_at inp. take (length due) inp = due \<longrightarrow> tls_write_app_data net in_at inp (ssl_reset_error_state s) \<noteq> None)"
proof -
  note inv = app_stream_transit[OF assms]
  obtain wire0 cs where w: "sent (io_world (conn_io s)) @ span (write_buffer (conn_io s)) = taken @ wire0" and f: "flight paired r wire0 cs s"
    and cs: "[] \<notin> set cs" "reported @ due = got @ concat cs" using inv by (auto simp: in_transit_def)
  have next_one: "if wire = [] then cs = []
      else \<exists>n r'. cs \<noteq> [] \<and> 0 < n \<and> tls_open_app_data rnet wire r = (ssl_open_record_success, 0, hd cs, n, r')"
    if "sent (io_world (conn_io s)) = taken @ wire" "span (write_buffer (conn_io s)) = []" for wire
  proof -
    have "wire0 = wire" using w that by simp
    with f have "flight paired r wire cs s" by simp
    then show ?thesis
    proof cases
      case (framed bs c r' wire' cs')
      then have "tls_open_record wire r = (Record_success SSL3_RT_APPLICATION_DATA c, length bs, r')" by simp
      moreover from this have "\<not> (ssl_server r' \<and> SSL_in_early_data r')"
        using open_success_frame inv by (fastforce simp: SSL_in_early_data_def)
      ultimately show ?thesis using framed(1,2,5) cs(1) by (auto simp: tls_open_app_data_def Let_def)
    qed simp
  qed
  have "tls_write_app_data net in_at inp (ssl_reset_error_state s) \<noteq> None" if "take (length due) inp = due" for in_at inp
    using write_app_data_transit[OF assms(1,2), of "ssl_reset_error_state s" taken got r reported due inp in_at] inv that by auto
  then show ?thesis using cs next_one by blast
qed

theorem application_stream_witness:
  "\<exists>s'. app_stream sim_net sim_net chacha_paired (\<lambda>w. snd (snd w)) s' sim_end [] [1, 2, 3] [] [] \<and> span (write_buffer (conn_io s')) = [] \<and>
    (\<exists>missing. [1, 2, 3] @ [] = [] @ concat missing \<and>
      (\<forall>wire. snd (snd (io_world (conn_io s'))) = [] @ wire \<and> span (write_buffer (conn_io s')) = [] \<longrightarrow>
        (if wire = [] then missing = []
         else \<exists>n r'. missing \<noteq> [] \<and> 0 < n \<and> tls_open_app_data sim_net wire sim_end = (ssl_open_record_success, 0, hd missing, n, r')))) \<and>
    (\<forall>in_at inp. take (length ([] :: byte list)) inp = [] \<longrightarrow> tls_write_app_data sim_net in_at inp (ssl_reset_error_state s') \<noteq> None)"
proof -
  have "\<exists>s'. tls_write_app_data sim_net 0 [1, 2, 3] (ssl_reset_error_state sim_end) = Some (1, False, length [1, 2, 3 :: byte], s') \<and>
      span (write_buffer (conn_io s')) = []"
    by (rule write_app_data_succeeds[OF sim_net_ok sim_accepts memory_apart_part[OF sim_apart] _ sim_stream sim_end_fields(1)])
      (simp_all add: sim_end_fields)
  then obtain s' where run: "tls_write_app_data sim_net 0 [1, 2, 3] (ssl_reset_error_state sim_end) = Some (1, False, 3, s')"
    and empty: "span (write_buffer (conn_io s')) = []" by auto
  have "app_stream sim_net sim_net chacha_paired (\<lambda>w. snd (snd w)) s' sim_end [] ([] @ take 3 [1, 2, 3]) [] []"
    by (rule app_stream.wrote[OF sim_stream _ run]) simp_all
  then have st: "app_stream sim_net sim_net chacha_paired (\<lambda>w. snd (snd w)) s' sim_end [] [1, 2, 3] [] []" by simp
  note both = application_stream[OF chacha.aead_pair_axioms sim_net_ok st]
  show ?thesis by (intro exI[of _ s'] conjI) (rule st, rule empty, rule conjunct1[OF both], rule conjunct2[OF both])
qed

text \<open>
  (C6) A write completes. With ChaCha20-Poly1305, a transport that accepts at least a byte of every write and memory that does not
  overlap the data, a call with any data, of any length, returns 1 and reports all of it, with nothing left in the write buffer, unless the connection
  is shut down for writing, early data is being sent, partial writes are enabled or the sequence numbers run out.
\<close>
theorem write_completes:
  assumes "net_ok net received sent" and "accepts (net_io net)" and "memory_apart net in_at (length inp)" and "inp \<noteq> []"
    and "app_stream net rnet chacha_paired sent s r taken reported [] got"
    and "aead_write_ctx s = chacha_context version key iv" and "length iv = 12" and "unat (write_sequence s) + length inp < 2 ^ 64 - 1"
    and "write_shutdown s = ssl_shutdown_none" and "ssl_server s \<or> \<not> SSL_in_early_data s" and "ssl_mode s AND SSL_MODE_ENABLE_PARTIAL_WRITE = 0"
  shows "\<exists>s'. tls_write_app_data net in_at inp (ssl_reset_error_state s) = Some (1, False, length inp, s') \<and>
    span (write_buffer (conn_io s')) = [] \<and> app_stream net rnet chacha_paired sent s' r taken (reported @ inp) [] got"
proof -
  obtain s' where run: "tls_write_app_data net in_at inp (ssl_reset_error_state s) = Some (1, False, length inp, s')" and "span (write_buffer (conn_io s')) = []"
    using write_app_data_succeeds[OF assms] by blast
  moreover have "app_stream net rnet chacha_paired sent s' r taken (reported @ take (length inp) inp) [] got"
    by (rule app_stream.wrote[OF assms(5) _ run]) simp_all
  ultimately show ?thesis by auto
qed

theorem write_completes_witness:
  "\<exists>s'. tls_write_app_data sim_net 0 [1, 2, 3] (ssl_reset_error_state sim_end) = Some (1, False, length [1, 2, 3 :: byte], s') \<and>
    span (write_buffer (conn_io s')) = [] \<and> app_stream sim_net sim_net chacha_paired (\<lambda>w. snd (snd w)) s' sim_end [] ([] @ [1, 2, 3]) [] []"
  by (rule write_completes[OF sim_net_ok sim_accepts memory_apart_part[OF sim_apart] _ sim_stream sim_end_fields(1)]) (simp_all add: sim_end_fields)

end
