(* ===== verification/Tls_Alert.thy ===== *)
theory Tls_Alert
  imports Tls_App_Data
begin

text \<open>
  Alerts and the end of a connection: what a closing alert stops, and an alert that the code can never send.
\<close>

subsection \<open>After a closing alert\<close>





end
