(* ===== verification/Tls_Messages.thy ===== *)
theory Tls_Messages
  imports Tls_App_Data
begin

text \<open>
  Collecting handshake messages: \<open>tls_append_handshake_data\<close>, \<open>tls_get_message\<close> and \<open>tls_next_message\<close> take the messages of
  the peer off its stream of handshake data, however the records cut it.
\<close>

subsection \<open>Messages as bytes\<close>

definition message_bytes :: "byte \<times> byte list \<Rightarrow> byte list" where
  "message_bytes = (\<lambda>(type, body). type # prefixed 3 body)"

definition get_header :: "(cbs, byte \<times> uint32) op" where
  "get_header = op_bind CBS_get_u8 (\<lambda>type. op_bind CBS_get_u24 (\<lambda>msg_len. op_ret (type, msg_len)))"

interpretation hs_header: codec "\<lambda>(type, n). unat n < 256 ^ 3" "\<lambda>(type, n). type # be_bytes 3 (unat n)" get_header
proof
  fix v :: "byte \<times> uint32" and s
  assume "case v of (type, n) \<Rightarrow> unat n < 256 ^ 3"
  then show "get_header ((case v of (type, n) \<Rightarrow> type # be_bytes 3 (unat n)) @ s) = (Some v, s)"
    using u24.dec_enc[of "snd v" s] by (cases v) (simp add: get_header_def op_bind_def u8.dec_enc[simplified])
qed (auto simp: get_header_def op_elims u8.dec_iff u24.dec_iff)

lemma length_message [simp]: "length (message_bytes (type, body)) = 4 + length body"
  by (simp add: message_bytes_def prefixed_def)

abbreviation message_ok :: "byte \<times> byte list \<Rightarrow> bool" where
  "message_ok \<equiv> \<lambda>(type, body). length body < 256 ^ 3"

lemma u32_length: "n < 256 ^ 3 \<Longrightarrow> unat (of_nat n :: uint32) = n \<and> unat (4 + of_nat n :: uint32) = 4 + n"
  by (simp add: unat_of_nat unat_word_ariths)

definition collected :: "('c, 'z) ssl_rec_scheme \<Rightarrow> byte list" where
  "collected s = (case hs_buf s of None \<Rightarrow> [] | Some contents \<Rightarrow> contents)"

text \<open>The three outcomes of parsing.\<close>

lemma parse_message_complete:
  assumes "hs_buf s = Some (message_bytes (type, body) @ rest)" and "length body < 256 ^ 3"
  shows "parse_message s = Inr \<lparr>msg_type = type, msg_body = body, msg_raw = message_bytes (type, body), msg_is_v2_hello = is_v2_hello s\<rparr>"
proof -
  note n = u32_length[OF assms(2)]
  have "get_header (message_bytes (type, body) @ rest) = (Some (type, of_nat (length body)), body @ rest)"
    using hs_header.dec_enc[of "(type, of_nat (length body))" "body @ rest"] n assms(2) by (simp add: message_bytes_def prefixed_def)
  moreover have "CBS_get_bytes (length body) (body @ rest) = (Some body, rest)" by (simp add: CBS_get_bytes_eq cbs_get_def)
  ultimately show ?thesis using n assms(1) by (simp add: parse_message_def get_header_def)
qed

lemma parse_message_Inr:
  assumes "parse_message s = Inr msg"
  obtains rest where "hs_buf s = Some (message_bytes (msg_type msg, msg_body msg) @ rest)" and "length (msg_body msg) < 256 ^ 3"
    and "msg_raw msg = message_bytes (msg_type msg, msg_body msg)" and "msg_is_v2_hello msg = is_v2_hello s"
proof -
  obtain contents where c: "hs_buf s = Some contents" using assms by (auto simp: parse_message_def split: option.splits)
  obtain type n cbs where h: "get_header contents = (Some (type, n), cbs)"
    using assms by (auto simp: parse_message_def c get_header_def[symmetric] split: option.splits prod.splits)
  have n: "unat n < 256 ^ 3" and cbs: "contents = (type # be_bytes 3 (unat n)) @ cbs" using h by (auto simp: hs_header.dec_iff)
  obtain body rest where b: "CBS_get_bytes (unat n) cbs = (Some body, rest)" and msg: "msg_type msg = type" "msg_body msg = body"
      "msg_raw msg = take (unat (4 + n)) contents" "msg_is_v2_hello msg = is_v2_hello s"
    using assms h by (auto simp: parse_message_def c get_header_def[symmetric] split: option.splits prod.splits)
  have body: "length body = unat n" "cbs = body @ rest" using b by (auto simp: CBS_get_bytes_eq cbs_get_Some)
  have "unat (4 + n) = length (message_bytes (type, body))" using n body by (simp add: unat_word_ariths)
  moreover have "contents = message_bytes (type, body) @ rest" using cbs body by (simp add: message_bytes_def prefixed_def)
  ultimately show thesis using that[of rest] c body msg n by simp
qed

lemma get_header_None:
  assumes "get_header c = (None, t)"
  shows "length c < 4"
proof (rule ccontr)
  assume "\<not> length c < 4"
  then obtain b0 b1 b2 b3 rest where c: "c = b0 # [b1, b2, b3] @ rest"
    by (cases c; cases "tl c"; cases "tl (tl c)"; cases "tl (tl (tl c))") auto
  have three: "length [b1, b2, b3] = 3" by simp
  have "be_bytes 3 (be_val [b1, b2, b3]) = [b1, b2, b3]" "be_val [b1, b2, b3] < 256 ^ 3"
    using be_bytes_be_val[of "[b1, b2, b3]", unfolded three] be_val_bound[of "[b1, b2, b3]", unfolded three] .
  then show False
    using assms c hs_header.dec_enc[of "(b0, of_nat (be_val [b1, b2, b3]))" rest] u32_length[of "be_val [b1, b2, b3]"] by simp
qed

lemma parse_message_Inl:
  assumes "parse_message s = Inl n" and "collected s @ later = message_bytes (type, body) @ rest" and "length body < 256 ^ 3"
  shows "length (collected s) < n \<and> n \<le> length (message_bytes (type, body))"
proof (cases "hs_buf s")
  case None
  then show ?thesis using assms(1) by (simp add: collected_def parse_message_def)
next
  case (Some contents)
  show ?thesis
  proof (cases "get_header contents")
    case (Pair x cbs)
    show ?thesis
    proof (cases x)
      case None
      then show ?thesis using assms(1) get_header_None[of contents cbs] Pair Some by (simp add: collected_def parse_message_def get_header_def)
    next
      case (Some v)
      obtain t m where v: "v = (t, m)" by fastforce
      have m: "unat m < 256 ^ 3" and c: "contents = (t # be_bytes 3 (unat m)) @ cbs" using Pair Some v by (auto simp: hs_header.dec_iff)
      have "(t # be_bytes 3 (unat m)) @ (cbs @ later) = (type # be_bytes 3 (length body)) @ (body @ rest)"
        using assms(2) c \<open>hs_buf s = Some contents\<close> by (simp add: collected_def message_bytes_def prefixed_def)
      then have "m = of_nat (length body)"
        using hs_header.enc_prefix_free[of "(t, m)" "(type, of_nat (length body))" "cbs @ later" "body @ rest"] m u32_length[OF assms(3)] assms(3)
        by simp
      then have len: "unat m = length body" "unat (4 + m) = 4 + length body" using u32_length[OF assms(3)] by simp_all
      have "length cbs < unat m \<and> n = unat (4 + m)"
        using assms(1) Pair Some v \<open>hs_buf s = Some contents\<close>
        by (auto simp: parse_message_def get_header_def[symmetric] CBS_get_bytes_eq cbs_get_def split: if_splits)
      then show ?thesis using len c \<open>hs_buf s = Some contents\<close> by (simp add: collected_def)
    qed
  qed
qed

subsection \<open>The stream of messages\<close>

text \<open>
  \<open>collecting net s fed taken\<close> is reachable: the handshake data of the records opened so far is \<open>fed\<close>, and the messages \<open>taken\<close>,
  with type and body, have been handled.
\<close>

inductive collecting :: "'w net \<Rightarrow> ('c, 'w, 'z) ssl_conn_scheme \<Rightarrow> byte list \<Rightarrow> (byte \<times> byte list) list \<Rightarrow> bool" for net where
  start: "hs_buf s = None \<Longrightarrow> collecting net s [] []"
| fed: "\<lbrakk>collecting net s fed taken; tls_append_handshake_data net bs s = (True, s')\<rbrakk> \<Longrightarrow> collecting net s' (fed @ bs) taken"
| looked: "\<lbrakk>collecting net s fed taken; tls_get_message s = (m, s')\<rbrakk> \<Longrightarrow> collecting net s' fed taken"
| took: "\<lbrakk>collecting net s fed taken; fst (tls_get_message s) = Some msg\<rbrakk>
    \<Longrightarrow> collecting net (tls_next_message s) fed (taken @ [(msg_type msg, msg_body msg)])"

lemma append_collected:
  assumes "tls_append_handshake_data net bs s = (True, s')"
  shows "collected s' = collected s @ bs"
  using assms
  by (auto simp: tls_append_handshake_data_def collected_def call_world_def set_world_def split: option.splits prod.splits if_splits)

lemma next_collected:
  assumes "parse_message s = Inr msg"
  shows "collected s = message_bytes (msg_type msg, msg_body msg) @ collected (tls_next_message s)"
proof -
  obtain rest where r: "hs_buf s = Some (message_bytes (msg_type msg, msg_body msg) @ rest)"
    and raw: "msg_raw msg = message_bytes (msg_type msg, msg_body msg)"
    using parse_message_Inr[OF assms] by metis
  have "collected (tls_next_message s) = rest"
    using assms r raw by (simp add: tls_next_message_def tls_get_message_def collected_def Let_def)
  then show ?thesis using r by (simp add: collected_def)
qed

lemma collecting_inv: "collecting net s fed taken \<Longrightarrow> fed = concat (map message_bytes taken) @ collected s \<and> list_all message_ok taken"
proof (induction rule: collecting.induct)
  case (fed s fed taken bs s')
  then show ?case using append_collected[OF fed(2)] by simp
next
  case (looked s fed taken m s')
  then have "collected s' = collected s" by (auto simp: tls_get_message_def collected_def split: sum.splits)
  then show ?case using looked by simp
next
  case (took s fed taken msg)
  then have p: "parse_message s = Inr msg" by (auto simp: tls_get_message_def split: sum.splits)
  have "length (msg_body msg) < 256 ^ 3" by (rule parse_message_Inr[OF p])
  then show ?case using took next_collected[OF p] by simp
qed (simp add: collected_def)

lemma message_prefix_free:
  assumes "message_ok a" and "message_ok b" and "message_bytes a @ x = message_bytes b @ y"
  shows "a = b \<and> x = y"
proof -
  obtain ta ba tb bb where ab: "a = (ta, ba)" "b = (tb, bb)" by (cases a; cases b)
  then have "ta = tb \<and> prefixed 3 ba @ x = prefixed 3 bb @ y" using assms(3) by (simp add: message_bytes_def)
  then show ?thesis using u24_prefixed.enc_prefix_free[of ba bb x y] assms(1,2) ab by simp
qed

lemma messages_prefix:
  assumes "list_all message_ok taken" and "list_all message_ok ms" and "concat (map message_bytes taken) @ rest = concat (map message_bytes ms)"
  shows "\<exists>missing. ms = taken @ missing \<and> rest = concat (map message_bytes missing)"
  using assms
proof (induction taken arbitrary: ms)
  case (Cons m taken)
  have "message_bytes m \<noteq> []" by (cases m) (simp add: message_bytes_def)
  then obtain m' ms' where ms: "ms = m' # ms'" using Cons.prems(3) by (cases ms) auto
  have "m = m' \<and> concat (map message_bytes taken) @ rest = concat (map message_bytes ms')"
    by (rule message_prefix_free) (use Cons.prems ms in simp_all)
  then show ?case using Cons ms by auto
qed simp

text \<open>
  (C7) Handshake messages survive any fragmentation: when the peer's handshake data is the messages \<open>ms\<close> and any part of it has arrived,
  in any pieces and with messages taken in between, the messages handled so far are the first of \<open>ms\<close>; a message that
  \<open>tls_get_message\<close> then returns is the next of them, with its type and body; and if it returns none although one is missing,
  that message has not arrived completely and the number of bytes the parser asks for is more than there are and
  no more than the message has.
\<close>
theorem messages_reassembled:
  assumes "collecting net s fed taken" and "fed @ later = concat (map message_bytes ms)" and "list_all message_ok ms"
  shows "\<exists>missing. ms = taken @ missing \<and>
    (case parse_message s of
       Inr msg \<Rightarrow> fst (tls_get_message s) = Some msg \<and> missing \<noteq> [] \<and> hd missing = (msg_type msg, msg_body msg)
     | Inl n \<Rightarrow> fst (tls_get_message s) = None \<and>
         (missing \<noteq> [] \<longrightarrow> length (collected s) < n \<and> n \<le> length (message_bytes (hd missing))))"
proof -
  have fed: "fed = concat (map message_bytes taken) @ collected s" and ok: "list_all message_ok taken" using collecting_inv[OF assms(1)] by simp_all
  then obtain missing where ms: "ms = taken @ missing" and rest: "collected s @ later = concat (map message_bytes missing)"
    using messages_prefix[OF ok assms(3), of "collected s @ later"] assms(2) by auto
  have mok: "list_all message_ok missing" using assms(3) ms by simp
  show ?thesis
  proof (cases "parse_message s")
    case (Inl n)
    have "missing \<noteq> [] \<longrightarrow> length (collected s) < n \<and> n \<le> length (message_bytes (hd missing))"
      using parse_message_Inl[OF Inl, of later] rest mok by (cases missing) auto
    then show ?thesis using Inl ms by (auto simp: tls_get_message_def)
  next
    case (Inr msg)
    obtain r where r: "hs_buf s = Some (message_bytes (msg_type msg, msg_body msg) @ r)" and len: "length (msg_body msg) < 256 ^ 3"
      using parse_message_Inr[OF Inr] by metis
    then have c: "message_bytes (msg_type msg, msg_body msg) @ (r @ later) = concat (map message_bytes missing)"
      using rest by (simp add: collected_def)
    then obtain m missing' where m: "missing = m # missing'" by (cases missing) (auto simp: message_bytes_def)
    have "(msg_type msg, msg_body msg) = m \<and> r @ later = concat (map message_bytes missing')"
      by (rule message_prefix_free) (use c m mok len in simp_all)
    then show ?thesis using Inr ms m by (auto simp: tls_get_message_def)
  qed
qed

text \<open>Two messages, of which the first and a part of the second arrive in two records.\<close>

theorem messages_reassembled_witness:
  "\<exists>s :: (byte list, sim_wire) ssl_conn. collecting sim_net s [8, 0, 0, 2, 7, 7, 11, 0] [] \<and>
    (\<exists>missing. [(8, [7, 7]), (11, [9])] = [] @ missing \<and>
      (case parse_message s of
         Inr msg \<Rightarrow> fst (tls_get_message s) = Some msg \<and> missing \<noteq> [] \<and> hd missing = (msg_type msg, msg_body msg)
       | Inl n \<Rightarrow> fst (tls_get_message s) = None \<and>
           (missing \<noteq> [] \<longrightarrow> length (collected s) < n \<and> n \<le> length (message_bytes (hd missing)))))"
proof -
  let ?s1 = "sim_end\<lparr>hs_buf := Some [8, 0, 0]\<rparr>" and ?s2 = "sim_end\<lparr>hs_buf := Some [8, 0, 0, 2, 7, 7, 11, 0]\<rparr>"
  have s0: "collecting sim_net sim_end [] []" by (rule collecting.start) (simp add: sim_end_defs)
  have "tls_append_handshake_data sim_net [8, 0, 0] sim_end = (True, ?s1)" "tls_append_handshake_data sim_net [2, 7, 7, 11, 0] ?s1 = (True, ?s2)"
    by (simp_all add: tls_append_handshake_data_def sim_end_defs sim_net_def call_world_def set_world_def sim_conn_def)
  from collecting.fed[OF collecting.fed[OF s0 this(1)] this(2)]
  have s2: "collecting sim_net ?s2 [8, 0, 0, 2, 7, 7, 11, 0] []" by simp
  have "[8, 0, 0, 2, 7, 7, 11, 0] @ [0, 1, 9] = concat (map message_bytes [(8, [7, 7]), (11, [9])])"
    by code_simp
  from s2 messages_reassembled[OF s2 this] show ?thesis by (intro exI[of _ ?s2] conjI) simp_all
qed

end
