(* ===== verification/Ssl_Cipher.thy ===== *)
theory Ssl_Cipher
  imports Ssl_Aead Ssl_Versions Stack CBS_Codec
begin

text \<open>
  The cipher suites of \<open>ssl/ssl_cipher.cc\<close>: the table \<open>kCiphers\<close>, the lookup by value and the properties of a suite, and
  the choice of a suite of TLS 1.3 in \<open>ssl/s3_both.cc\<close>. A pointer into the table is the entry it points to; entries
  are pairwise different. Assertions and the functions that only name a suite for people are not modelled.
\<close>

abbreviation (input) "SSL_kRSA \<equiv> (1 :: uint32)"
abbreviation (input) "SSL_kECDHE \<equiv> (2 :: uint32)"
abbreviation (input) "SSL_kPSK \<equiv> (4 :: uint32)"
abbreviation (input) "SSL_kGENERIC \<equiv> (8 :: uint32)"
abbreviation (input) "SSL_aRSA_SIGN \<equiv> (1 :: uint32)"
abbreviation (input) "SSL_aRSA_DECRYPT \<equiv> (2 :: uint32)"
abbreviation (input) "SSL_aECDSA \<equiv> (4 :: uint32)"
abbreviation (input) "SSL_aPSK \<equiv> (8 :: uint32)"
abbreviation (input) "SSL_aGENERIC \<equiv> (16 :: uint32)"
abbreviation (input) "SSL_aCERT \<equiv> (SSL_aRSA_SIGN OR SSL_aRSA_DECRYPT OR SSL_aECDSA :: uint32)"
abbreviation (input) "SSL_HANDSHAKE_MAC_DEFAULT \<equiv> (1 :: uint32)"
abbreviation (input) "SSL_HANDSHAKE_MAC_SHA256 \<equiv> (2 :: uint32)"
abbreviation (input) "SSL_HANDSHAKE_MAC_SHA384 \<equiv> (4 :: uint32)"
abbreviation (input) "SSL3_VERSION \<equiv> (0x0300 :: uint16)"

abbreviation (input) "SSL3_CK_RSA_DES_192_CBC3_SHA \<equiv> (0x0300000a :: uint32)"
abbreviation (input) "TLS1_CK_RSA_WITH_AES_128_SHA \<equiv> (0x0300002f :: uint32)"
abbreviation (input) "TLS1_CK_RSA_WITH_AES_256_SHA \<equiv> (0x03000035 :: uint32)"
abbreviation (input) "TLS1_CK_PSK_WITH_AES_128_CBC_SHA \<equiv> (0x0300008c :: uint32)"
abbreviation (input) "TLS1_CK_PSK_WITH_AES_256_CBC_SHA \<equiv> (0x0300008d :: uint32)"
abbreviation (input) "TLS1_CK_RSA_WITH_AES_128_GCM_SHA256 \<equiv> (0x0300009c :: uint32)"
abbreviation (input) "TLS1_CK_RSA_WITH_AES_256_GCM_SHA384 \<equiv> (0x0300009d :: uint32)"
abbreviation (input) "TLS1_3_CK_AES_128_GCM_SHA256 \<equiv> (0x03001301 :: uint32)"
abbreviation (input) "TLS1_3_CK_AES_256_GCM_SHA384 \<equiv> (0x03001302 :: uint32)"
abbreviation (input) "TLS1_3_CK_CHACHA20_POLY1305_SHA256 \<equiv> (0x03001303 :: uint32)"
abbreviation (input) "TLS1_CK_ECDHE_ECDSA_WITH_AES_128_CBC_SHA \<equiv> (0x0300c009 :: uint32)"
abbreviation (input) "TLS1_CK_ECDHE_ECDSA_WITH_AES_256_CBC_SHA \<equiv> (0x0300c00a :: uint32)"
abbreviation (input) "TLS1_CK_ECDHE_RSA_WITH_AES_128_CBC_SHA \<equiv> (0x0300c013 :: uint32)"
abbreviation (input) "TLS1_CK_ECDHE_RSA_WITH_AES_256_CBC_SHA \<equiv> (0x0300c014 :: uint32)"
abbreviation (input) "TLS1_CK_ECDHE_RSA_WITH_AES_128_CBC_SHA256 \<equiv> (0x0300c027 :: uint32)"
abbreviation (input) "TLS1_CK_ECDHE_ECDSA_WITH_AES_128_GCM_SHA256 \<equiv> (0x0300c02b :: uint32)"
abbreviation (input) "TLS1_CK_ECDHE_ECDSA_WITH_AES_256_GCM_SHA384 \<equiv> (0x0300c02c :: uint32)"
abbreviation (input) "TLS1_CK_ECDHE_RSA_WITH_AES_128_GCM_SHA256 \<equiv> (0x0300c02f :: uint32)"
abbreviation (input) "TLS1_CK_ECDHE_RSA_WITH_AES_256_GCM_SHA384 \<equiv> (0x0300c030 :: uint32)"
abbreviation (input) "TLS1_CK_ECDHE_PSK_WITH_AES_128_CBC_SHA \<equiv> (0x0300c035 :: uint32)"
abbreviation (input) "TLS1_CK_ECDHE_PSK_WITH_AES_256_CBC_SHA \<equiv> (0x0300c036 :: uint32)"
abbreviation (input) "TLS1_CK_ECDHE_RSA_WITH_CHACHA20_POLY1305_SHA256 \<equiv> (0x0300cca8 :: uint32)"
abbreviation (input) "TLS1_CK_ECDHE_ECDSA_WITH_CHACHA20_POLY1305_SHA256 \<equiv> (0x0300cca9 :: uint32)"
abbreviation (input) "TLS1_CK_ECDHE_PSK_WITH_CHACHA20_POLY1305_SHA256 \<equiv> (0x0300ccac :: uint32)"

subsection \<open>The table\<close>

record cipher_suite = SSL_CIPHER +
  suite_name :: string
  standard_name :: string
  suite_id :: uint32
  algorithm_mkey :: uint32
  algorithm_auth :: uint32
  algorithm_prf :: uint32

definition SSL_CIPHER_entry :: "string \<Rightarrow> string \<Rightarrow> uint32 \<Rightarrow> uint32 \<Rightarrow> uint32 \<Rightarrow> uint32 \<Rightarrow> uint32 \<Rightarrow> uint32 \<Rightarrow> cipher_suite" where
  "SSL_CIPHER_entry name std ident mkey auth enc mac prf =
     \<lparr>algorithm_enc = enc, algorithm_mac = mac, suite_name = name, standard_name = std, suite_id = ident,
      algorithm_mkey = mkey, algorithm_auth = auth, algorithm_prf = prf\<rparr>"

definition kCiphers :: "cipher_suite list" where
  "kCiphers =
     [
      SSL_CIPHER_entry ''DES-CBC3-SHA''
        ''TLS_RSA_WITH_3DES_EDE_CBC_SHA''
        SSL3_CK_RSA_DES_192_CBC3_SHA SSL_kRSA SSL_aRSA_DECRYPT SSL_3DES SSL_SHA1 SSL_HANDSHAKE_MAC_DEFAULT,
      SSL_CIPHER_entry ''AES128-SHA''
        ''TLS_RSA_WITH_AES_128_CBC_SHA''
        TLS1_CK_RSA_WITH_AES_128_SHA SSL_kRSA SSL_aRSA_DECRYPT SSL_AES128 SSL_SHA1 SSL_HANDSHAKE_MAC_DEFAULT,
      SSL_CIPHER_entry ''AES256-SHA''
        ''TLS_RSA_WITH_AES_256_CBC_SHA''
        TLS1_CK_RSA_WITH_AES_256_SHA SSL_kRSA SSL_aRSA_DECRYPT SSL_AES256 SSL_SHA1 SSL_HANDSHAKE_MAC_DEFAULT,
      SSL_CIPHER_entry ''PSK-AES128-CBC-SHA''
        ''TLS_PSK_WITH_AES_128_CBC_SHA''
        TLS1_CK_PSK_WITH_AES_128_CBC_SHA SSL_kPSK SSL_aPSK SSL_AES128 SSL_SHA1 SSL_HANDSHAKE_MAC_DEFAULT,
      SSL_CIPHER_entry ''PSK-AES256-CBC-SHA''
        ''TLS_PSK_WITH_AES_256_CBC_SHA''
        TLS1_CK_PSK_WITH_AES_256_CBC_SHA SSL_kPSK SSL_aPSK SSL_AES256 SSL_SHA1 SSL_HANDSHAKE_MAC_DEFAULT,
      SSL_CIPHER_entry ''AES128-GCM-SHA256''
        ''TLS_RSA_WITH_AES_128_GCM_SHA256''
        TLS1_CK_RSA_WITH_AES_128_GCM_SHA256 SSL_kRSA SSL_aRSA_DECRYPT SSL_AES128GCM SSL_AEAD SSL_HANDSHAKE_MAC_SHA256,
      SSL_CIPHER_entry ''AES256-GCM-SHA384''
        ''TLS_RSA_WITH_AES_256_GCM_SHA384''
        TLS1_CK_RSA_WITH_AES_256_GCM_SHA384 SSL_kRSA SSL_aRSA_DECRYPT SSL_AES256GCM SSL_AEAD SSL_HANDSHAKE_MAC_SHA384,
      SSL_CIPHER_entry ''TLS_AES_128_GCM_SHA256''
        ''TLS_AES_128_GCM_SHA256''
        TLS1_3_CK_AES_128_GCM_SHA256 SSL_kGENERIC SSL_aGENERIC SSL_AES128GCM SSL_AEAD SSL_HANDSHAKE_MAC_SHA256,
      SSL_CIPHER_entry ''TLS_AES_256_GCM_SHA384''
        ''TLS_AES_256_GCM_SHA384''
        TLS1_3_CK_AES_256_GCM_SHA384 SSL_kGENERIC SSL_aGENERIC SSL_AES256GCM SSL_AEAD SSL_HANDSHAKE_MAC_SHA384,
      SSL_CIPHER_entry ''TLS_CHACHA20_POLY1305_SHA256''
        ''TLS_CHACHA20_POLY1305_SHA256''
        TLS1_3_CK_CHACHA20_POLY1305_SHA256 SSL_kGENERIC SSL_aGENERIC SSL_CHACHA20POLY1305 SSL_AEAD SSL_HANDSHAKE_MAC_SHA256,
      SSL_CIPHER_entry ''ECDHE-ECDSA-AES128-SHA''
        ''TLS_ECDHE_ECDSA_WITH_AES_128_CBC_SHA''
        TLS1_CK_ECDHE_ECDSA_WITH_AES_128_CBC_SHA SSL_kECDHE SSL_aECDSA SSL_AES128 SSL_SHA1 SSL_HANDSHAKE_MAC_DEFAULT,
      SSL_CIPHER_entry ''ECDHE-ECDSA-AES256-SHA''
        ''TLS_ECDHE_ECDSA_WITH_AES_256_CBC_SHA''
        TLS1_CK_ECDHE_ECDSA_WITH_AES_256_CBC_SHA SSL_kECDHE SSL_aECDSA SSL_AES256 SSL_SHA1 SSL_HANDSHAKE_MAC_DEFAULT,
      SSL_CIPHER_entry ''ECDHE-RSA-AES128-SHA''
        ''TLS_ECDHE_RSA_WITH_AES_128_CBC_SHA''
        TLS1_CK_ECDHE_RSA_WITH_AES_128_CBC_SHA SSL_kECDHE SSL_aRSA_SIGN SSL_AES128 SSL_SHA1 SSL_HANDSHAKE_MAC_DEFAULT,
      SSL_CIPHER_entry ''ECDHE-RSA-AES256-SHA''
        ''TLS_ECDHE_RSA_WITH_AES_256_CBC_SHA''
        TLS1_CK_ECDHE_RSA_WITH_AES_256_CBC_SHA SSL_kECDHE SSL_aRSA_SIGN SSL_AES256 SSL_SHA1 SSL_HANDSHAKE_MAC_DEFAULT,
      SSL_CIPHER_entry ''ECDHE-RSA-AES128-SHA256''
        ''TLS_ECDHE_RSA_WITH_AES_128_CBC_SHA256''
        TLS1_CK_ECDHE_RSA_WITH_AES_128_CBC_SHA256 SSL_kECDHE SSL_aRSA_SIGN SSL_AES128 SSL_SHA256 SSL_HANDSHAKE_MAC_SHA256,
      SSL_CIPHER_entry ''ECDHE-ECDSA-AES128-GCM-SHA256''
        ''TLS_ECDHE_ECDSA_WITH_AES_128_GCM_SHA256''
        TLS1_CK_ECDHE_ECDSA_WITH_AES_128_GCM_SHA256 SSL_kECDHE SSL_aECDSA SSL_AES128GCM SSL_AEAD SSL_HANDSHAKE_MAC_SHA256,
      SSL_CIPHER_entry ''ECDHE-ECDSA-AES256-GCM-SHA384''
        ''TLS_ECDHE_ECDSA_WITH_AES_256_GCM_SHA384''
        TLS1_CK_ECDHE_ECDSA_WITH_AES_256_GCM_SHA384 SSL_kECDHE SSL_aECDSA SSL_AES256GCM SSL_AEAD SSL_HANDSHAKE_MAC_SHA384,
      SSL_CIPHER_entry ''ECDHE-RSA-AES128-GCM-SHA256''
        ''TLS_ECDHE_RSA_WITH_AES_128_GCM_SHA256''
        TLS1_CK_ECDHE_RSA_WITH_AES_128_GCM_SHA256 SSL_kECDHE SSL_aRSA_SIGN SSL_AES128GCM SSL_AEAD SSL_HANDSHAKE_MAC_SHA256,
      SSL_CIPHER_entry ''ECDHE-RSA-AES256-GCM-SHA384''
        ''TLS_ECDHE_RSA_WITH_AES_256_GCM_SHA384''
        TLS1_CK_ECDHE_RSA_WITH_AES_256_GCM_SHA384 SSL_kECDHE SSL_aRSA_SIGN SSL_AES256GCM SSL_AEAD SSL_HANDSHAKE_MAC_SHA384,
      SSL_CIPHER_entry ''ECDHE-PSK-AES128-CBC-SHA''
        ''TLS_ECDHE_PSK_WITH_AES_128_CBC_SHA''
        TLS1_CK_ECDHE_PSK_WITH_AES_128_CBC_SHA SSL_kECDHE SSL_aPSK SSL_AES128 SSL_SHA1 SSL_HANDSHAKE_MAC_DEFAULT,
      SSL_CIPHER_entry ''ECDHE-PSK-AES256-CBC-SHA''
        ''TLS_ECDHE_PSK_WITH_AES_256_CBC_SHA''
        TLS1_CK_ECDHE_PSK_WITH_AES_256_CBC_SHA SSL_kECDHE SSL_aPSK SSL_AES256 SSL_SHA1 SSL_HANDSHAKE_MAC_DEFAULT,
      SSL_CIPHER_entry ''ECDHE-RSA-CHACHA20-POLY1305''
        ''TLS_ECDHE_RSA_WITH_CHACHA20_POLY1305_SHA256''
        TLS1_CK_ECDHE_RSA_WITH_CHACHA20_POLY1305_SHA256 SSL_kECDHE SSL_aRSA_SIGN SSL_CHACHA20POLY1305 SSL_AEAD SSL_HANDSHAKE_MAC_SHA256,
      SSL_CIPHER_entry ''ECDHE-ECDSA-CHACHA20-POLY1305''
        ''TLS_ECDHE_ECDSA_WITH_CHACHA20_POLY1305_SHA256''
        TLS1_CK_ECDHE_ECDSA_WITH_CHACHA20_POLY1305_SHA256 SSL_kECDHE SSL_aECDSA SSL_CHACHA20POLY1305 SSL_AEAD SSL_HANDSHAKE_MAC_SHA256,
      SSL_CIPHER_entry ''ECDHE-PSK-CHACHA20-POLY1305''
        ''TLS_ECDHE_PSK_WITH_CHACHA20_POLY1305_SHA256''
        TLS1_CK_ECDHE_PSK_WITH_CHACHA20_POLY1305_SHA256 SSL_kECDHE SSL_aPSK SSL_CHACHA20POLY1305 SSL_AEAD SSL_HANDSHAKE_MAC_SHA256]"

definition NumTLS13Ciphers :: nat where
  "NumTLS13Ciphers = length (filter (\<lambda>cipher. algorithm_mkey cipher = SSL_kGENERIC) kCiphers)"

subsection \<open>Lookup by value\<close>

text \<open>The C library's binary search between the positions \<open>l\<close> and \<open>u\<close>; \<open>compar\<close> compares the key with an element.\<close>

function libc_bsearch :: "('a \<Rightarrow> int) \<Rightarrow> 'a list \<Rightarrow> nat \<Rightarrow> nat \<Rightarrow> 'a option" where
  "libc_bsearch compar xs l u =
     (if l < u then
        let idx = (l + u) div 2 in
        if compar (xs ! idx) < 0 then libc_bsearch compar xs l idx
        else if compar (xs ! idx) > 0 then libc_bsearch compar xs (idx + 1) u
        else Some (xs ! idx)
      else None)"
  by pat_completeness auto
termination by (relation "measure (\<lambda>(_, _, l, u). u - l)") auto

declare libc_bsearch.simps [simp del]

definition ssl_cipher_id_cmp :: "uint32 \<Rightarrow> uint32 \<Rightarrow> int" where
  "ssl_cipher_id_cmp a b = (if a > b then 1 else if a < b then - 1 else 0)"

fun ssl_ciphers_sorted :: "cipher_suite list \<Rightarrow> bool" where
  "ssl_ciphers_sorted (a # b # rest) \<longleftrightarrow> \<not> ssl_cipher_id_cmp (suite_id a) (suite_id b) \<ge> 0 \<and> ssl_ciphers_sorted (b # rest)"
| "ssl_ciphers_sorted _ \<longleftrightarrow> True"

definition SSL_get_cipher_by_value :: "uint16 \<Rightarrow> cipher_suite option" where
  "SSL_get_cipher_by_value value =
     libc_bsearch (\<lambda>c. ssl_cipher_id_cmp (0x03000000 OR ucast value) (suite_id c)) kCiphers 0 (length kCiphers)"

subsection \<open>Properties of a suite\<close>

definition SSL_CIPHER_get_protocol_id :: "cipher_suite \<Rightarrow> uint16" where
  "SSL_CIPHER_get_protocol_id cipher = ucast (suite_id cipher)"

definition SSL_CIPHER_is_aead :: "cipher_suite \<Rightarrow> bool" where
  "SSL_CIPHER_is_aead cipher \<longleftrightarrow> algorithm_mac cipher AND SSL_AEAD \<noteq> 0"

definition SSL_CIPHER_get_min_version :: "cipher_suite \<Rightarrow> uint16" where
  "SSL_CIPHER_get_min_version cipher =
     (if algorithm_mkey cipher = SSL_kGENERIC \<or> algorithm_auth cipher = SSL_aGENERIC then TLS1_3_VERSION
      else if algorithm_prf cipher \<noteq> SSL_HANDSHAKE_MAC_DEFAULT then TLS1_2_VERSION
      else SSL3_VERSION)"

definition SSL_CIPHER_get_max_version :: "cipher_suite \<Rightarrow> uint16" where
  "SSL_CIPHER_get_max_version cipher =
     (if algorithm_mkey cipher = SSL_kGENERIC \<or> algorithm_auth cipher = SSL_aGENERIC then TLS1_3_VERSION
      else TLS1_2_VERSION)"

text \<open>The strength, and the bits of the algorithm for \<open>*out_alg_bits\<close>.\<close>

definition SSL_CIPHER_get_bits :: "cipher_suite option \<Rightarrow> nat \<times> nat option" where
  "SSL_CIPHER_get_bits cipher =
     (case cipher of
        None \<Rightarrow> (0, None)
      | Some c \<Rightarrow>
          let enc = algorithm_enc c in
          if enc = SSL_AES128 \<or> enc = SSL_AES128GCM then (128, Some 128)
          else if enc = SSL_AES256 \<or> enc = SSL_AES256GCM \<or> enc = SSL_CHACHA20POLY1305 then (256, Some 256)
          else if enc = SSL_3DES then (112, Some 168)
          else (0, Some 0))"

definition ssl_cipher_is_deprecated :: "cipher_suite \<Rightarrow> bool" where
  "ssl_cipher_is_deprecated cipher \<longleftrightarrow>
     suite_id cipher = TLS1_CK_ECDHE_RSA_WITH_AES_128_CBC_SHA256 \<or> algorithm_enc cipher = SSL_3DES"

definition ssl_cipher_uses_certificate_auth :: "cipher_suite \<Rightarrow> bool" where
  "ssl_cipher_uses_certificate_auth cipher \<longleftrightarrow> algorithm_auth cipher AND SSL_aCERT \<noteq> 0"

definition ssl_cipher_requires_server_key_exchange :: "cipher_suite \<Rightarrow> bool" where
  "ssl_cipher_requires_server_key_exchange cipher \<longleftrightarrow> algorithm_mkey cipher AND SSL_kECDHE \<noteq> 0"

datatype EVP_PKEY_type = EVP_PKEY_RSA | EVP_PKEY_EC | EVP_PKEY_ED25519 | EVP_PKEY_other

definition ssl_cipher_auth_mask_for_key :: "EVP_PKEY_type \<Rightarrow> bool \<Rightarrow> uint32" where
  "ssl_cipher_auth_mask_for_key key sign_ok =
     (case key of
        EVP_PKEY_RSA \<Rightarrow> if sign_ok then SSL_aRSA_SIGN OR SSL_aRSA_DECRYPT else SSL_aRSA_DECRYPT
      | EVP_PKEY_other \<Rightarrow> 0
      | _ \<Rightarrow> if sign_ok then SSL_aECDSA else 0)"

text \<open>The hash functions, by the functions that return them.\<close>

datatype evp_md = EVP_md5_sha1 | EVP_sha256 | EVP_sha384

definition ssl_get_handshake_digest :: "uint16 \<Rightarrow> cipher_suite \<Rightarrow> evp_md option" where
  "ssl_get_handshake_digest version cipher =
     (if algorithm_prf cipher = SSL_HANDSHAKE_MAC_DEFAULT then Some (if version \<ge> TLS1_2_VERSION then EVP_sha256 else EVP_md5_sha1)
      else if algorithm_prf cipher = SSL_HANDSHAKE_MAC_SHA256 then Some EVP_sha256
      else if algorithm_prf cipher = SSL_HANDSHAKE_MAC_SHA384 then Some EVP_sha384
      else None)"

subsection \<open>The choice of a suite of TLS 1.3\<close>

datatype ssl_compliance_policy_t =
    ssl_compliance_policy_none | ssl_compliance_policy_fips_202205
  | ssl_compliance_policy_wpa3_192_202304 | ssl_compliance_policy_cnsa_202407

definition AesHwCipherScorer :: "bool \<Rightarrow> cipher_suite \<Rightarrow> int" where
  "AesHwCipherScorer aes_is_fine a = 1 + (if aes_is_fine \<or> algorithm_enc a = SSL_CHACHA20POLY1305 then 1 else 0)"

definition CNsaCipherScorer :: "cipher_suite \<Rightarrow> int" where
  "CNsaCipherScorer a =
     (if suite_id a = TLS1_3_CK_AES_256_GCM_SHA384 then 3
      else if suite_id a = TLS1_3_CK_AES_128_GCM_SHA256 then 2
      else 1)"

definition ssl_tls13_cipher_meets_policy :: "uint16 \<Rightarrow> ssl_compliance_policy_t \<Rightarrow> bool" where
  "ssl_tls13_cipher_meets_policy cipher_id policy =
     (case policy of
        ssl_compliance_policy_none \<Rightarrow> True
      | ssl_compliance_policy_cnsa_202407 \<Rightarrow> True
      | ssl_compliance_policy_fips_202205 \<Rightarrow>
          cipher_id = ucast TLS1_3_CK_AES_128_GCM_SHA256 \<or> cipher_id = ucast TLS1_3_CK_AES_256_GCM_SHA384
      | ssl_compliance_policy_wpa3_192_202304 \<Rightarrow> cipher_id = ucast TLS1_3_CK_AES_256_GCM_SHA384)"

text \<open>One candidate: skipped, or compared with the best so far.\<close>

definition consider_tls13 ::
  "(cipher_suite \<Rightarrow> int) \<Rightarrow> uint16 \<Rightarrow> ssl_compliance_policy_t \<Rightarrow> uint16 \<Rightarrow> cipher_suite option \<times> int \<Rightarrow> cipher_suite option \<times> int" where
  "consider_tls13 scorer version policy cipher_suite best =
     (case SSL_get_cipher_by_value cipher_suite of
        None \<Rightarrow> best
      | Some candidate \<Rightarrow>
          if SSL_CIPHER_get_min_version candidate > version \<or> SSL_CIPHER_get_max_version candidate < version then best
          else if \<not> ssl_tls13_cipher_meets_policy (SSL_CIPHER_get_protocol_id candidate) policy then best
          else if scorer candidate > snd best then (Some candidate, scorer candidate)
          else best)"

function choose_tls13_loop ::
  "(cipher_suite \<Rightarrow> int) \<Rightarrow> uint16 \<Rightarrow> ssl_compliance_policy_t \<Rightarrow> cbs \<Rightarrow> cipher_suite option \<times> int \<Rightarrow> cipher_suite option" where
  "choose_tls13_loop scorer version policy cipher_suites best =
     (if length cipher_suites > 0 then
        (case CBS_get_u16 cipher_suites of
           (None, _) \<Rightarrow> None
         | (Some cipher_suite, rest) \<Rightarrow>
             choose_tls13_loop scorer version policy rest (consider_tls13 scorer version policy cipher_suite best))
      else fst best)"
  by pat_completeness auto
termination by (relation "measure (\<lambda>(_, _, _, cbs, _). length cbs)") (auto intro: CBS_get_u16_shrinks dest: sym)

declare choose_tls13_loop.simps [simp del]

definition ssl_choose_tls13_cipher :: "cbs \<Rightarrow> bool \<Rightarrow> uint16 \<Rightarrow> ssl_compliance_policy_t \<Rightarrow> cipher_suite option" where
  "ssl_choose_tls13_cipher cipher_suites has_aes_hw version policy =
     (if length cipher_suites mod 2 \<noteq> 0 then None
      else let scorer = (if policy = ssl_compliance_policy_cnsa_202407 then CNsaCipherScorer else AesHwCipherScorer has_aes_hw)
           in choose_tls13_loop scorer version policy cipher_suites (None, 0))"

subsection \<open>The binary search finds what is there\<close>

lemma ssl_cipher_id_cmp_sign [simp]:
  "ssl_cipher_id_cmp a b < 0 \<longleftrightarrow> a < b" "ssl_cipher_id_cmp a b > 0 \<longleftrightarrow> b < a" "ssl_cipher_id_cmp a b \<ge> 0 \<longleftrightarrow> b \<le> a"
  by (auto simp: ssl_cipher_id_cmp_def)

lemma bsearch_find:
  assumes "sorted_wrt (\<lambda>a b. key a < key b) xs" and "u \<le> length xs" and "\<And>i. i < l \<Longrightarrow> key (xs ! i) < k"
    and "\<And>i. u \<le> i \<Longrightarrow> i < length xs \<Longrightarrow> k < key (xs ! i)"
  shows "libc_bsearch (\<lambda>x. ssl_cipher_id_cmp k (key x)) xs l u = find (\<lambda>x. key x = k) xs"
  using assms
proof (induction "\<lambda>x. ssl_cipher_id_cmp k (key x)" xs l u rule: libc_bsearch.induct)
  case (1 xs l u)
  note less = sorted_wrt_nth_less[OF 1(3)]
  define idx where "idx = (l + u) div 2"
  show ?case
  proof (cases "l < u")
    case True
    then have idx: "l \<le> idx" "idx < u" by (auto simp: idx_def)
    then have unf: "libc_bsearch (\<lambda>x. ssl_cipher_id_cmp k (key x)) xs l u =
        (if k < key (xs ! idx) then libc_bsearch (\<lambda>x. ssl_cipher_id_cmp k (key x)) xs l idx
         else if key (xs ! idx) < k then libc_bsearch (\<lambda>x. ssl_cipher_id_cmp k (key x)) xs (idx + 1) u else Some (xs ! idx))"
      using True by (subst libc_bsearch.simps) (auto simp: Let_def idx_def)
    consider "k < key (xs ! idx)" | "key (xs ! idx) < k" | "key (xs ! idx) = k" by (metis linorder_cases)
    then show ?thesis
    proof cases
      case 1
      have "k < key (xs ! i)" if "idx \<le> i" "i < length xs" for i
        using that 1 less[of idx i] by (cases "idx = i") auto
      then show ?thesis using "1.hyps"(1)[OF True idx_def _ "1.prems"(1)] 1 "1.prems" idx
        by (auto simp: unf)
    next
      case 2
      have "key (xs ! i) < k" if "i < idx + 1" for i
        using that 2 less[of i idx] idx "1.prems"(2) by (cases "idx = i") auto
      then show ?thesis using "1.hyps"(2)[OF True idx_def _ _ "1.prems"(1)] 2 order_less_not_sym[OF 2] "1.prems" idx
        by (auto simp: unf)
    next
      case 3
      have "key (xs ! i) \<noteq> k" if "i < idx" for i using that 3 less[of i idx] idx "1.prems"(2) by auto
      then show ?thesis using 3 idx "1.prems"(2) by (auto simp: unf find_Some_iff intro!: exI[of _ idx] sym[of "find _ _"])
    qed
  next
    case False
    have "key x \<noteq> k" if "x \<in> set xs" for x
      using that 1(5,6) False by (metis in_set_conv_nth linorder_not_less order_less_irrefl order_less_le_trans)
    then show ?thesis using False by (simp add: libc_bsearch.simps find_None_iff[THEN iffD2])
  qed
qed

lemma ssl_ciphers_sorted_iff: "ssl_ciphers_sorted cs \<longleftrightarrow> sorted_wrt (\<lambda>a b. suite_id a < suite_id b) cs"
  by (induction cs rule: ssl_ciphers_sorted.induct) (auto simp: linorder_not_le intro: order_less_trans)

lemma kCiphers_sorted: "sorted_wrt (\<lambda>a b. suite_id a < suite_id b) kCiphers"
  unfolding ssl_ciphers_sorted_iff[symmetric] by code_simp

lemma kCiphers_ids_distinct: "distinct (map suite_id kCiphers)"
  using strict_sorted_iff[of "map suite_id kCiphers"] by (simp add: sorted_wrt_map kCiphers_sorted)

lemma kCiphers_prefix: "list_all (\<lambda>c. suite_id c = 0x03000000 OR ucast (SSL_CIPHER_get_protocol_id c)) kCiphers"
  by code_simp

lemma protocol_id_of_value: "ucast (0x03000000 OR ucast (v :: uint16) :: uint32) = v"
proof -
  have "ucast (0x03000000 :: uint32) = (0 :: uint16)" by simp
  moreover have "ucast (a OR ucast v :: uint32) = (ucast a OR v :: uint16)" for a :: uint32
    by (rule bit_word_eqI) (auto simp: bit_simps)
  ultimately show ?thesis by (simp only: or.left_neutral)
qed

lemma find_key: "distinct (map f xs) \<Longrightarrow> find (\<lambda>x. f x = k) xs = Some c \<longleftrightarrow> c \<in> set xs \<and> f c = k"
  by (induction xs) force+

lemma SSL_get_cipher_by_value_iff:
  "SSL_get_cipher_by_value v = Some c \<longleftrightarrow> c \<in> set kCiphers \<and> SSL_CIPHER_get_protocol_id c = v"
proof -
  have "SSL_get_cipher_by_value v = find (\<lambda>c. suite_id c = 0x03000000 OR ucast v) kCiphers"
    unfolding SSL_get_cipher_by_value_def by (rule bsearch_find[OF kCiphers_sorted]) simp_all
  moreover have "suite_id c = 0x03000000 OR ucast v \<longleftrightarrow> SSL_CIPHER_get_protocol_id c = v" if "c \<in> set kCiphers" for c
    using that kCiphers_prefix protocol_id_of_value[of v] by (auto simp: list_all_iff SSL_CIPHER_get_protocol_id_def)
  ultimately show ?thesis
    using find_key[OF kCiphers_ids_distinct, of "0x03000000 OR ucast v" c] by auto
qed

subsection \<open>The best suite\<close>

definition tls13_usable :: "uint16 \<Rightarrow> ssl_compliance_policy_t \<Rightarrow> cipher_suite \<Rightarrow> bool" where
  "tls13_usable version policy c \<longleftrightarrow>
     SSL_CIPHER_get_min_version c \<le> version \<and> version \<le> SSL_CIPHER_get_max_version c \<and>
     ssl_tls13_cipher_meets_policy (SSL_CIPHER_get_protocol_id c) policy"

text \<open>The first element with the highest score.\<close>

definition first_best :: "('a \<Rightarrow> int) \<Rightarrow> 'a list \<Rightarrow> 'a option \<Rightarrow> bool" where
  "first_best score cs best \<longleftrightarrow>
     (case best of
        None \<Rightarrow> cs = []
      | Some c \<Rightarrow> \<exists>before after. cs = before @ c # after \<and> list_all (\<lambda>d. score d < score c) before \<and> list_all (\<lambda>d. score d \<le> score c) after)"

lemma first_best_snoc:
  assumes "first_best score cs best"
  shows "first_best score (cs @ [c]) (case best of None \<Rightarrow> Some c | Some b \<Rightarrow> if score c > score b then Some c else Some b)"
proof (cases best)
  case None
  then show ?thesis using assms by (auto simp: first_best_def intro: exI[of _ "[]"])
next
  case (Some b)
  then obtain before after where cs: "cs = before @ b # after" "list_all (\<lambda>d. score d < score b) before"
    "list_all (\<lambda>d. score d \<le> score b) after" using assms by (auto simp: first_best_def)
  show ?thesis
  proof (cases "score c > score b")
    case True
    then have "list_all (\<lambda>d. score d < score c) cs" using cs by (fastforce simp: list_all_iff)
    then show ?thesis using True Some by (fastforce simp: first_best_def)
  next
    case False
    then have "cs @ [c] = before @ b # (after @ [c])" "list_all (\<lambda>d. score d \<le> score b) (after @ [c])" using cs by auto
    then show ?thesis using False Some cs(2) unfolding first_best_def by (auto intro: exI[of _ before])
  qed
qed

definition suite_bytes :: "uint16 list \<Rightarrow> byte list" where
  "suite_bytes ids = concat (map (\<lambda>v. be_bytes 2 (unat v)) ids)"

text \<open>What the loop has considered: the suites among the values read that can be used.\<close>

definition usable_suites :: "uint16 \<Rightarrow> ssl_compliance_policy_t \<Rightarrow> uint16 list \<Rightarrow> cipher_suite list" where
  "usable_suites version policy ids = filter (tls13_usable version policy) (List.map_filter SSL_get_cipher_by_value ids)"

lemma usable_suites_snoc:
  "usable_suites version policy (ids @ [v]) = usable_suites version policy ids @
     (case SSL_get_cipher_by_value v of None \<Rightarrow> [] | Some c \<Rightarrow> if tls13_usable version policy c then [c] else [])"
  by (simp add: usable_suites_def map_filter_def split: option.split)

definition scored :: "('a \<Rightarrow> int) \<Rightarrow> 'a option \<Rightarrow> 'a option \<times> int" where
  "scored score best = (best, case best of None \<Rightarrow> 0 | Some c \<Rightarrow> score c)"

lemma consider_tls13_best:
  assumes "\<And>c. 0 < score c" and "first_best score (usable_suites version policy ids) best"
  obtains best' where "consider_tls13 score version policy v (scored score best) = scored score best'"
    and "first_best score (usable_suites version policy (ids @ [v])) best'"
proof (cases "\<exists>c. SSL_get_cipher_by_value v = Some c \<and> tls13_usable version policy c")
  case True
  then obtain c where c: "SSL_get_cipher_by_value v = Some c" "tls13_usable version policy c" by blast
  let ?b = "case best of None \<Rightarrow> Some c | Some b \<Rightarrow> if score c > score b then Some c else Some b"
  have "consider_tls13 score version policy v (scored score best) = scored score ?b"
    using c assms(1)[of c] by (auto simp: consider_tls13_def scored_def tls13_usable_def split: option.split)
  moreover have "first_best score (usable_suites version policy (ids @ [v])) ?b"
    using first_best_snoc[OF assms(2), of c] c by (simp add: usable_suites_snoc)
  ultimately show ?thesis by (rule that)
next
  case False
  then have "consider_tls13 score version policy v (scored score best) = scored score best"
    by (auto simp: consider_tls13_def tls13_usable_def split: option.split)
  moreover have "usable_suites version policy (ids @ [v]) = usable_suites version policy ids"
    using False by (auto simp: usable_suites_snoc split: option.split)
  ultimately show ?thesis using assms(2) by (intro that) simp_all
qed

lemma choose_tls13_loop_best:
  assumes "\<And>c. 0 < score c" and "first_best score (usable_suites version policy ids) best"
  shows "first_best score (usable_suites version policy (ids @ vs))
    (choose_tls13_loop score version policy (suite_bytes vs) (scored score best))"
  using assms(2)
proof (induction vs arbitrary: ids best)
  case Nil
  then show ?case by (simp add: choose_tls13_loop.simps suite_bytes_def scored_def)
next
  case (Cons v vs)
  obtain best' where b: "consider_tls13 score version policy v (scored score best) = scored score best'"
    and inv: "first_best score (usable_suites version policy (ids @ [v])) best'"
    using consider_tls13_best[OF assms(1) Cons.prems] by metis
  have "CBS_get_u16 (suite_bytes (v # vs)) = (Some v, suite_bytes vs)" by (simp add: suite_bytes_def u16.dec_enc)
  moreover have "length (suite_bytes (v # vs)) > 0" by (simp add: suite_bytes_def)
  ultimately show ?case using Cons.IH[OF inv] b by (subst choose_tls13_loop.simps) simp
qed

lemma tls13_policies:
  "map suite_id (filter (tls13_usable TLS1_3_VERSION ssl_compliance_policy_none) kCiphers) =
     [TLS1_3_CK_AES_128_GCM_SHA256, TLS1_3_CK_AES_256_GCM_SHA384, TLS1_3_CK_CHACHA20_POLY1305_SHA256]"
  "map suite_id (filter (tls13_usable TLS1_3_VERSION ssl_compliance_policy_fips_202205) kCiphers) =
     [TLS1_3_CK_AES_128_GCM_SHA256, TLS1_3_CK_AES_256_GCM_SHA384]"
  "map suite_id (filter (tls13_usable TLS1_3_VERSION ssl_compliance_policy_wpa3_192_202304) kCiphers) = [TLS1_3_CK_AES_256_GCM_SHA384]"
  "map (\<lambda>c. (suite_id c, CNsaCipherScorer c)) (filter (tls13_usable TLS1_3_VERSION ssl_compliance_policy_cnsa_202407) kCiphers) =
     [(TLS1_3_CK_AES_128_GCM_SHA256, 2), (TLS1_3_CK_AES_256_GCM_SHA384, 3), (TLS1_3_CK_CHACHA20_POLY1305_SHA256, 1)]"
  by code_simp+

text \<open>
  (C25) The choice of a suite of TLS 1.3. Among the suites a peer offers, taken in its order and limited to those that are known, can be
  used with the version and meet the policy, \<open>ssl_choose_tls13_cipher\<close> returns the first with the highest score, and none
  exactly if there is none; a list of an odd number of bytes gives none. With TLS 1.3 these are the three suites of
  that version, without ChaCha20 under the policy for FIPS and only AES-256 under the one for WPA3; under the policy
  for CNSA none is left out, and AES-256 is preferred to AES-128 and both to ChaCha20.
\<close>
theorem tls13_choice:
  "first_best (if policy = ssl_compliance_policy_cnsa_202407 then CNsaCipherScorer else AesHwCipherScorer has_aes_hw)
     (filter (tls13_usable version policy) (List.map_filter SSL_get_cipher_by_value ids))
     (ssl_choose_tls13_cipher (suite_bytes ids) has_aes_hw version policy) \<and>
   map suite_id (filter (tls13_usable TLS1_3_VERSION ssl_compliance_policy_none) kCiphers) =
     [TLS1_3_CK_AES_128_GCM_SHA256, TLS1_3_CK_AES_256_GCM_SHA384, TLS1_3_CK_CHACHA20_POLY1305_SHA256] \<and>
   map suite_id (filter (tls13_usable TLS1_3_VERSION ssl_compliance_policy_fips_202205) kCiphers) =
     [TLS1_3_CK_AES_128_GCM_SHA256, TLS1_3_CK_AES_256_GCM_SHA384] \<and>
   map suite_id (filter (tls13_usable TLS1_3_VERSION ssl_compliance_policy_wpa3_192_202304) kCiphers) = [TLS1_3_CK_AES_256_GCM_SHA384] \<and>
   map (\<lambda>c. (suite_id c, CNsaCipherScorer c)) (filter (tls13_usable TLS1_3_VERSION ssl_compliance_policy_cnsa_202407) kCiphers) =
     [(TLS1_3_CK_AES_128_GCM_SHA256, 2), (TLS1_3_CK_AES_256_GCM_SHA384, 3), (TLS1_3_CK_CHACHA20_POLY1305_SHA256, 1)] \<and>
   ssl_choose_tls13_cipher (b # suite_bytes ids) has_aes_hw version policy = None"
proof -
  let ?score = "if policy = ssl_compliance_policy_cnsa_202407 then CNsaCipherScorer else AesHwCipherScorer has_aes_hw"
  have pos: "0 < ?score c" for c by (simp add: CNsaCipherScorer_def AesHwCipherScorer_def)
  have even: "length (suite_bytes ids) mod 2 = 0" by (induction ids) (simp_all add: suite_bytes_def)
  then have odd: "ssl_choose_tls13_cipher (b # suite_bytes ids) has_aes_hw version policy = None"
    by (simp add: ssl_choose_tls13_cipher_def mod_Suc)
  have "first_best ?score (usable_suites version policy ([] @ ids)) (choose_tls13_loop ?score version policy (suite_bytes ids) (scored ?score None))"
    by (rule choose_tls13_loop_best[OF pos]) (simp add: first_best_def usable_suites_def map_filter_def)
  with even have "first_best ?score (filter (tls13_usable version policy) (List.map_filter SSL_get_cipher_by_value ids))
     (ssl_choose_tls13_cipher (suite_bytes ids) has_aes_hw version policy)"
    by (simp add: ssl_choose_tls13_cipher_def scored_def usable_suites_def)
  then show ?thesis using tls13_policies odd by (intro conjI)
qed

end
