(* ===== verification/Cipher_List.thy ===== *)
theory Cipher_List
  imports Ssl_Cipher "HOL-Library.Monad_Syntax" "HOL-Library.Multiset"
begin

text \<open>
  The linked list of cipher suites in \<open>ssl/ssl_cipher.cc\<close> that the rules of a cipher string rearrange. The elements of the array
  \<open>co_list\<close> are addressed by their index and linked by \<open>next\<close> and \<open>prev\<close>; \<open>None\<close> as a pointer is \<open>NULL\<close>, and as the result of an operation the
  dereference of one. The operations are shown to act on the sequence of the elements.
\<close>

record CIPHER_ALIAS =
  alias_name :: string
  alias_mkey :: uint32
  alias_auth :: uint32
  alias_enc :: uint32
  alias_mac :: uint32
  min_version :: uint16
  include_deprecated :: bool

record CIPHER_ORDER =
  co_cipher :: cipher_suite
  co_active :: bool
  co_in_group :: bool
  co_next :: "nat option"
  co_prev :: "nat option"

record cipher_chain =
  chain_nodes :: "CIPHER_ORDER list"
  chain_head :: "nat option"
  chain_tail :: "nat option"

datatype cipher_rule = CIPHER_ADD | CIPHER_KILL | CIPHER_DEL | CIPHER_ORD | CIPHER_SPECIAL

subsection \<open>Pointers\<close>

fun node :: "nat option \<Rightarrow> cipher_chain \<Rightarrow> CIPHER_ORDER option" where
  "node None l = None"
| "node (Some i) l = (if i < length (chain_nodes l) then Some (chain_nodes l ! i) else None)"

fun update_node :: "nat option \<Rightarrow> (CIPHER_ORDER \<Rightarrow> CIPHER_ORDER) \<Rightarrow> cipher_chain \<Rightarrow> cipher_chain option" where
  "update_node None f l = None"
| "update_node (Some i) f l =
     (if i < length (chain_nodes l) then Some (l\<lparr>chain_nodes := (chain_nodes l)[i := f (chain_nodes l ! i)]\<rparr>) else None)"

text \<open>\<open>if (curr->prev != NULL) curr->prev->next = curr->next\<close>, and the same in the other direction.\<close>

definition unlink_prev :: "nat \<Rightarrow> cipher_chain \<Rightarrow> cipher_chain option" where
  "unlink_prev cur l = do {
     c \<leftarrow> node (Some cur) l;
     if co_prev c \<noteq> None then update_node (co_prev c) (\<lambda>n. n\<lparr>co_next := co_next c\<rparr>) l else Some l
   }"

definition unlink_next :: "nat \<Rightarrow> cipher_chain \<Rightarrow> cipher_chain option" where
  "unlink_next cur l = do {
     c \<leftarrow> node (Some cur) l;
     if co_next c \<noteq> None then update_node (co_next c) (\<lambda>n. n\<lparr>co_prev := co_prev c\<rparr>) l else Some l
   }"

definition ll_append_tail :: "nat \<Rightarrow> cipher_chain \<Rightarrow> cipher_chain option" where
  "ll_append_tail cur l =
     (if Some cur = chain_tail l then Some l
      else do {
        c \<leftarrow> node (Some cur) l;
        let l1 = (if Some cur = chain_head l then l\<lparr>chain_head := co_next c\<rparr> else l);
        l2 \<leftarrow> unlink_prev cur l1;
        l3 \<leftarrow> unlink_next cur l2;
        l4 \<leftarrow> update_node (chain_tail l3) (\<lambda>n. n\<lparr>co_next := Some cur\<rparr>) l3;
        l5 \<leftarrow> update_node (Some cur) (\<lambda>n. n\<lparr>co_prev := chain_tail l4, co_next := None\<rparr>) l4;
        Some (l5\<lparr>chain_tail := Some cur\<rparr>)
      })"

definition ll_append_head :: "nat \<Rightarrow> cipher_chain \<Rightarrow> cipher_chain option" where
  "ll_append_head cur l =
     (if Some cur = chain_head l then Some l
      else do {
        c \<leftarrow> node (Some cur) l;
        let l1 = (if Some cur = chain_tail l then l\<lparr>chain_tail := co_prev c\<rparr> else l);
        l2 \<leftarrow> unlink_next cur l1;
        l3 \<leftarrow> unlink_prev cur l2;
        l4 \<leftarrow> update_node (chain_head l3) (\<lambda>n. n\<lparr>co_prev := Some cur\<rparr>) l3;
        l5 \<leftarrow> update_node (Some cur) (\<lambda>n. n\<lparr>co_next := chain_head l4, co_prev := None\<rparr>) l4;
        Some (l5\<lparr>chain_head := Some cur\<rparr>)
      })"

text \<open>The array \<open>co_list\<close> at the start, with its elements linked in order.\<close>

definition co_list_init :: "cipher_suite list \<Rightarrow> cipher_chain" where
  "co_list_init ciphers =
     \<lparr>chain_nodes = map (\<lambda>i. \<lparr>co_cipher = ciphers ! i, co_active = False, co_in_group = False,
          co_next = (if i + 1 < length ciphers then Some (i + 1) else None), co_prev = (if i = 0 then None else Some (i - 1))\<rparr>) [0..<length ciphers],
      chain_head = (if ciphers = [] then None else Some 0), chain_tail = (if ciphers = [] then None else Some (length ciphers - 1))\<rparr>"

subsection \<open>Rules\<close>

definition alias_matches :: "CIPHER_ALIAS \<Rightarrow> cipher_suite \<Rightarrow> bool" where
  "alias_matches alias cp \<longleftrightarrow>
     \<not> (alias_mkey alias AND algorithm_mkey cp = 0 \<or> alias_auth alias AND algorithm_auth cp = 0 \<or>
        alias_enc alias AND algorithm_enc cp = 0 \<or> alias_mac alias AND algorithm_mac cp = 0 \<or>
        (min_version alias \<noteq> 0 \<and> SSL_CIPHER_get_min_version cp \<noteq> min_version alias) \<or>
        (\<not> include_deprecated alias \<and> ssl_cipher_is_deprecated cp))"

text \<open>Whether a cipher is selected; \<open>None\<close> is the use of a null \<open>alias\<close>.\<close>

definition rule_selects :: "uint32 \<Rightarrow> CIPHER_ALIAS option \<Rightarrow> int \<Rightarrow> cipher_suite \<Rightarrow> bool option" where
  "rule_selects cipher_id alias strength_bits cp =
     (if cipher_id \<noteq> 0 then Some (cipher_id = suite_id cp)
      else if strength_bits \<ge> 0 then Some (strength_bits = int (fst (SSL_CIPHER_get_bits (Some cp))))
      else map_option (\<lambda>a. alias_matches a cp) alias)"

text \<open>The removal of an element by \<open>CIPHER_KILL\<close>.\<close>

definition ll_kill :: "nat \<Rightarrow> cipher_chain \<Rightarrow> cipher_chain option" where
  "ll_kill cur l = do {
     c \<leftarrow> node (Some cur) l;
     l1 \<leftarrow> (if chain_head l = Some cur then Some (l\<lparr>chain_head := co_next c\<rparr>)
           else update_node (co_prev c) (\<lambda>n. n\<lparr>co_next := co_next c\<rparr>) l);
     c1 \<leftarrow> node (Some cur) l1;
     let l2 = (if chain_tail l1 = Some cur then l1\<lparr>chain_tail := co_prev c1\<rparr> else l1);
     l3 \<leftarrow> update_node (Some cur) (\<lambda>n. n\<lparr>co_active := False\<rparr>) l2;
     l4 \<leftarrow> unlink_next cur l3;
     l5 \<leftarrow> unlink_prev cur l4;
     update_node (Some cur) (\<lambda>n. n\<lparr>co_next := None, co_prev := None\<rparr>) l5
   }"

text \<open>The effect of a rule on one selected element.\<close>

definition apply_to :: "cipher_rule \<Rightarrow> bool \<Rightarrow> nat \<Rightarrow> cipher_chain \<Rightarrow> cipher_chain option" where
  "apply_to rule in_group cur l = do {
     c \<leftarrow> node (Some cur) l;
     (case rule of
        CIPHER_ADD \<Rightarrow>
          if \<not> co_active c then do {
            l1 \<leftarrow> ll_append_tail cur l;
            update_node (Some cur) (\<lambda>n. n\<lparr>co_active := True, co_in_group := in_group\<rparr>) l1
          } else Some l
      | CIPHER_ORD \<Rightarrow>
          if co_active c then do {
            l1 \<leftarrow> ll_append_tail cur l;
            update_node (Some cur) (\<lambda>n. n\<lparr>co_in_group := False\<rparr>) l1
          } else Some l
      | CIPHER_DEL \<Rightarrow>
          if co_active c then do {
            l1 \<leftarrow> ll_append_head cur l;
            update_node (Some cur) (\<lambda>n. n\<lparr>co_active := False, co_in_group := False\<rparr>) l1
          } else Some l
      | CIPHER_KILL \<Rightarrow> ll_kill cur l
      | CIPHER_SPECIAL \<Rightarrow> Some l)
   }"

partial_function (option) apply_loop ::
  "(cipher_suite \<Rightarrow> bool option) \<Rightarrow> cipher_rule \<Rightarrow> bool \<Rightarrow> nat option \<Rightarrow> nat option \<Rightarrow> nat option \<Rightarrow> cipher_chain \<Rightarrow> cipher_chain option" where
  "apply_loop selects rule in_group last_p cur next_p l =
     (if cur = last_p then Some l
      else case next_p of
        None \<Rightarrow> Some l
      | Some c \<Rightarrow> do {
          n \<leftarrow> node (Some c) l;
          let next1 = (if rule = CIPHER_DEL then co_prev n else co_next n);
          sel \<leftarrow> selects (co_cipher n);
          l1 \<leftarrow> (if sel then apply_to rule in_group c l else Some l);
          apply_loop selects rule in_group last_p (Some c) next1 l1
        })"

declare apply_loop.simps [code]

definition ssl_cipher_apply_rule ::
  "uint32 \<Rightarrow> CIPHER_ALIAS option \<Rightarrow> cipher_rule \<Rightarrow> int \<Rightarrow> bool \<Rightarrow> cipher_chain \<Rightarrow> cipher_chain option" where
  "ssl_cipher_apply_rule cipher_id alias rule strength_bits in_group l = do {
     bail \<leftarrow> (if cipher_id = 0 \<and> strength_bits = - 1
             then map_option (\<lambda>a. min_version a = 0 \<and> (alias_mkey a = 0 \<or> alias_auth a = 0 \<or> alias_enc a = 0 \<or> alias_mac a = 0)) alias
             else Some False);
     if bail then Some l
     else if rule = CIPHER_DEL
     then apply_loop (rule_selects cipher_id alias strength_bits) rule in_group (chain_head l) None (chain_tail l) l
     else apply_loop (rule_selects cipher_id alias strength_bits) rule in_group (chain_tail l) None (chain_head l) l
   }"

text \<open>A loop over the list that does not change it.\<close>

partial_function (option) chain_fold :: "(CIPHER_ORDER \<Rightarrow> 'a \<Rightarrow> 'a option) \<Rightarrow> nat option \<Rightarrow> cipher_chain \<Rightarrow> 'a \<Rightarrow> 'a option" where
  "chain_fold body p l acc =
     (case p of
        None \<Rightarrow> Some acc
      | Some i \<Rightarrow> do { n \<leftarrow> node (Some i) l; acc1 \<leftarrow> body n acc; chain_fold body (co_next n) l acc1 })"

declare chain_fold.simps [code]

abbreviation cipher_bits :: "cipher_suite \<Rightarrow> nat" where
  "cipher_bits c \<equiv> fst (SSL_CIPHER_get_bits (Some c))"

text \<open>The bodies of the loops of the sort.\<close>

definition max_strength :: "CIPHER_ORDER \<Rightarrow> nat \<Rightarrow> nat option" where
  "max_strength cur max_strength_bits =
     Some (if co_active cur \<and> cipher_bits (co_cipher cur) > max_strength_bits then cipher_bits (co_cipher cur) else max_strength_bits)"

definition count_use :: "CIPHER_ORDER \<Rightarrow> nat list \<Rightarrow> nat list option" where
  "count_use cur number_uses =
     (if co_active cur then
        let i = cipher_bits (co_cipher cur) in
        if i < length number_uses then Some (number_uses[i := number_uses ! i + 1]) else None
      else Some number_uses)"

text \<open>The last loop of the sort, from \<open>i - 1\<close> down to 0.\<close>

fun strength_loop :: "nat list \<Rightarrow> nat \<Rightarrow> cipher_chain \<Rightarrow> cipher_chain option" where
  "strength_loop number_uses 0 l = Some l"
| "strength_loop number_uses (Suc i) l =
     (if number_uses ! i > 0
      then Option.bind (ssl_cipher_apply_rule 0 None CIPHER_ORD (int i) False l) (strength_loop number_uses i)
      else strength_loop number_uses i l)"

text \<open>The sort; \<open>uses_ok\<close> says whether the array \<open>number_uses\<close> is allocated.\<close>

definition ssl_cipher_strength_sort :: "bool \<Rightarrow> cipher_chain \<Rightarrow> (bool \<times> cipher_chain) option" where
  "ssl_cipher_strength_sort uses_ok l = do {
     max_strength_bits \<leftarrow> chain_fold max_strength (chain_head l) l 0;
     if \<not> uses_ok then Some (False, l)
     else do {
       number_uses \<leftarrow> chain_fold count_use (chain_head l) l (replicate (max_strength_bits + 1) 0);
       l1 \<leftarrow> strength_loop number_uses (max_strength_bits + 1) l;
       Some (True, l1)
     }
   }"

subsection \<open>The list as a sequence\<close>

definition first :: "'a list \<Rightarrow> 'a option \<Rightarrow> 'a option" where
  "first xs q = (case xs of [] \<Rightarrow> q | x # _ \<Rightarrow> Some x)"

definition final :: "'a option \<Rightarrow> 'a list \<Rightarrow> 'a option" where
  "final p xs = (if xs = [] then p else Some (last xs))"

lemma first_simps [simp]: "first [] q = q" "first (x # xs) q = Some x" "first (xs @ ys) q = first xs (first ys q)"
  by (auto simp: first_def split: list.split)

lemma final_simps [simp]: "final p [] = p" "final p (xs @ [x]) = Some x" "final p (x # xs) = final (Some x) xs" "final p (xs @ ys) = final (final p xs) ys"
  by (auto simp: final_def)

lemma first_in: "first xs q = Some y \<Longrightarrow> y \<notin> set xs \<Longrightarrow> xs = [] \<and> q = Some y"
  by (auto simp: first_def split: list.splits)

text \<open>A segment of the list, between the pointers \<open>p\<close> and \<open>q\<close> to its neighbours.\<close>

fun dll :: "CIPHER_ORDER list \<Rightarrow> nat option \<Rightarrow> nat list \<Rightarrow> nat option \<Rightarrow> bool" where
  "dll ns p [] q \<longleftrightarrow> True"
| "dll ns p (x # xs) q \<longleftrightarrow> x < length ns \<and> co_prev (ns ! x) = p \<and> co_next (ns ! x) = first xs q \<and> dll ns (Some x) xs q"

lemma dll_append [simp]: "dll ns p (xs @ ys) q \<longleftrightarrow> dll ns p xs (first ys q) \<and> dll ns (final p xs) ys q"
  by (induction xs arbitrary: p) auto

lemma dll_frame: "i \<notin> set xs \<Longrightarrow> dll (ns[i := n]) p xs q = dll ns p xs q"
  by (induction xs arbitrary: p) auto

lemma dll_bound: "dll ns p xs q \<Longrightarrow> x \<in> set xs \<Longrightarrow> x < length ns"
  by (induction xs arbitrary: p) auto

lemma dll_new_next:
  "dll ns p (xs @ [x]) q \<Longrightarrow> distinct (xs @ [x]) \<Longrightarrow> dll (ns[x := (ns ! x)\<lparr>co_next := q'\<rparr>]) p (xs @ [x]) q'"
  by (auto simp: dll_frame)

lemma dll_new_prev:
  "dll ns p (x # xs) q \<Longrightarrow> x \<notin> set xs \<Longrightarrow> dll (ns[x := (ns ! x)\<lparr>co_prev := p'\<rparr>]) p' (x # xs) q"
  by (auto simp: dll_frame)

lemma dll_snoc_new:
  "dll ns p xs (Some c) \<Longrightarrow> c \<notin> set xs \<Longrightarrow> c < length ns \<Longrightarrow> dll (ns[c := n\<lparr>co_prev := final p xs, co_next := None\<rparr>]) p (xs @ [c]) None"
  by (simp add: dll_frame)

lemma dll_Cons_new:
  "dll ns (Some c) xs q \<Longrightarrow> c \<notin> set xs \<Longrightarrow> c < length ns \<Longrightarrow> dll (ns[c := n\<lparr>co_next := first xs q, co_prev := None\<rparr>]) None (c # xs) q"
  by (simp add: dll_frame)

definition linked :: "cipher_chain \<Rightarrow> nat list \<Rightarrow> bool" where
  "linked l xs \<longleftrightarrow> distinct xs \<and> dll (chain_nodes l) None xs None \<and> chain_head l = first xs None \<and> chain_tail l = final None xs"

lemma dll_range:
  assumes "\<And>i. i < length ns \<Longrightarrow> co_next (ns ! i) = (if i + 1 < length ns then Some (i + 1) else None)"
    and "\<And>i. i < length ns \<Longrightarrow> co_prev (ns ! i) = (if i = 0 then None else Some (i - 1))"
  shows "dll ns (if k = 0 then None else Some (k - 1)) [k..<length ns] None"
proof (induction "length ns - k" arbitrary: k)
  case (Suc n)
  then have "[k..<length ns] = k # [Suc k..<length ns]" by (simp add: upt_rec)
  moreover have "first [Suc k..<length ns] None = (if k + 1 < length ns then Some (k + 1) else None)" by (simp add: upt_rec)
  ultimately show ?case using Suc(1)[of "Suc k"] Suc(2) assms[of k] by simp
qed simp

lemma co_list_init_linked: "linked (co_list_init cs) [0..<length cs]"
proof -
  have "dll (chain_nodes (co_list_init cs)) None [0..<length (chain_nodes (co_list_init cs))] None"
    by (rule dll_range[of "chain_nodes (co_list_init cs)" 0, simplified]) (simp_all add: co_list_init_def)
  moreover have "first [0..<length cs] None = (if cs = [] then None else Some 0)" by (simp add: upt_rec)
  ultimately show ?thesis by (simp add: linked_def co_list_init_def final_def)
qed

text \<open>What an element holds beside its links.\<close>

type_synonym entry = "cipher_suite \<times> bool \<times> bool"

definition entry :: "cipher_chain \<Rightarrow> nat \<Rightarrow> entry" where
  "entry l i = (co_cipher (chain_nodes l ! i), co_active (chain_nodes l ! i), co_in_group (chain_nodes l ! i))"

lemma co_list_init_entries: "map (entry (co_list_init cs)) [0..<length cs] = map (\<lambda>c. (c, False, False)) cs"
  by (rule nth_equalityI) (auto simp: entry_def co_list_init_def)

text \<open>Operations that only change links of nodes.\<close>

definition same_entries :: "cipher_chain \<Rightarrow> cipher_chain \<Rightarrow> bool" where
  "same_entries l l' \<longleftrightarrow> length (chain_nodes l') = length (chain_nodes l) \<and> entry l' = entry l"

lemma same_entries_refl [simp]: "same_entries l l"
  by (simp add: same_entries_def)

lemma same_entries_trans [trans]: "same_entries l l' \<Longrightarrow> same_entries l' l'' \<Longrightarrow> same_entries l l''"
  by (simp add: same_entries_def)

lemma nth_update_field: "f n = f (ns ! i) \<Longrightarrow> f (ns[i := n] ! j) = f (ns ! j)"
  by (cases "i < length ns") (auto simp: nth_list_update list_update_beyond)

lemma same_entries_node:
  "co_cipher n = co_cipher (chain_nodes l ! i) \<Longrightarrow> co_active n = co_active (chain_nodes l ! i) \<Longrightarrow> co_in_group n = co_in_group (chain_nodes l ! i) \<Longrightarrow>
   same_entries l (l\<lparr>chain_nodes := (chain_nodes l)[i := n]\<rparr>)"
  by (simp add: same_entries_def entry_def fun_eq_iff nth_update_field[of co_cipher] nth_update_field[of co_active] nth_update_field[of co_in_group])

lemma same_entries_ends [simp]:
  "same_entries l (l'\<lparr>chain_head := h\<rparr>) = same_entries l l'" "same_entries l (l'\<lparr>chain_tail := h\<rparr>) = same_entries l l'"
  "same_entries (l\<lparr>chain_head := h\<rparr>) l' = same_entries l l'" "same_entries (l\<lparr>chain_tail := h\<rparr>) l' = same_entries l l'"
  by (simp_all add: same_entries_def entry_def fun_eq_iff)

lemma unlink_prev_seg:
  assumes "dll (chain_nodes l) None as q" and "distinct as" and "c \<notin> set as" and "c < length (chain_nodes l)"
    and "co_prev (chain_nodes l ! c) = final None as"
  obtains l' where "unlink_prev c l = Some l'" and "dll (chain_nodes l') None as (co_next (chain_nodes l ! c))"
    and "chain_nodes l' ! c = chain_nodes l ! c"
    and "\<And>ys p q. set ys \<inter> set as = {} \<Longrightarrow> dll (chain_nodes l') p ys q = dll (chain_nodes l) p ys q" and "same_entries l l'"
    and "chain_head l' = chain_head l" and "chain_tail l' = chain_tail l"
proof (cases as rule: rev_cases)
  case Nil
  then show ?thesis using assms by (intro that[of l]) (auto simp: unlink_prev_def)
next
  case (snoc as' a)
  let ?l = "l\<lparr>chain_nodes := (chain_nodes l)[a := (chain_nodes l ! a)\<lparr>co_next := co_next (chain_nodes l ! c)\<rparr>]\<rparr>"
  have "a < length (chain_nodes l)" using assms(1) snoc by simp
  then have "unlink_prev c l = Some ?l" using assms(4,5) snoc by (simp add: unlink_prev_def)
  moreover have "dll (chain_nodes ?l) None as (co_next (chain_nodes l ! c))"
    using dll_new_next[OF assms(1)[unfolded snoc] assms(2)[unfolded snoc]] snoc by (simp del: dll_append)
  moreover have "chain_nodes ?l ! c = chain_nodes l ! c" using assms(3) snoc by auto
  ultimately show ?thesis by (rule that) (use snoc in \<open>auto simp: same_entries_node dll_frame\<close>)
qed

lemma unlink_next_seg:
  assumes "dll (chain_nodes l) p bs None" and "distinct bs" and "c \<notin> set bs" and "c < length (chain_nodes l)"
    and "co_next (chain_nodes l ! c) = first bs None"
  obtains l' where "unlink_next c l = Some l'" and "dll (chain_nodes l') (co_prev (chain_nodes l ! c)) bs None"
    and "chain_nodes l' ! c = chain_nodes l ! c"
    and "\<And>ys p q. set ys \<inter> set bs = {} \<Longrightarrow> dll (chain_nodes l') p ys q = dll (chain_nodes l) p ys q" and "same_entries l l'"
    and "chain_head l' = chain_head l" and "chain_tail l' = chain_tail l"
proof (cases bs)
  case Nil
  then show ?thesis using assms by (intro that[of l]) (auto simp: unlink_next_def)
next
  case (Cons b bs')
  let ?l = "l\<lparr>chain_nodes := (chain_nodes l)[b := (chain_nodes l ! b)\<lparr>co_prev := co_prev (chain_nodes l ! c)\<rparr>]\<rparr>"
  have "b < length (chain_nodes l)" using assms(1) Cons by simp
  then have "unlink_next c l = Some ?l" using assms(4,5) Cons by (simp add: unlink_next_def)
  moreover have "dll (chain_nodes ?l) (co_prev (chain_nodes l ! c)) bs None"
    using dll_new_prev[OF assms(1)[unfolded Cons]] assms(2) Cons by (simp del: dll.simps)
  moreover have "chain_nodes ?l ! c = chain_nodes l ! c" using assms(3) Cons by auto
  ultimately show ?thesis by (rule that) (use Cons in \<open>auto simp: same_entries_node dll_frame\<close>)
qed

lemma unlink_seg:
  assumes "dll (chain_nodes l) None (as @ c # bs) None" and "distinct (as @ c # bs)"
  obtains l2 l3 where "unlink_prev c l = Some l2" and "unlink_next c l2 = Some l3" and "dll (chain_nodes l3) None (as @ bs) None"
    and "chain_nodes l3 ! c = chain_nodes l ! c" and "same_entries l l3" and "chain_head l3 = chain_head l" and "chain_tail l3 = chain_tail l"
proof -
  obtain l2 where l2: "unlink_prev c l = Some l2" "dll (chain_nodes l2) None as (co_next (chain_nodes l ! c))"
    "chain_nodes l2 ! c = chain_nodes l ! c"
    "\<And>ys p q. set ys \<inter> set as = {} \<Longrightarrow> dll (chain_nodes l2) p ys q = dll (chain_nodes l) p ys q" "same_entries l l2" "chain_head l2 = chain_head l" "chain_tail l2 = chain_tail l"
    by (rule unlink_prev_seg[of l as "Some c" c]) (use assms in auto)
  have bs: "dll (chain_nodes l2) (Some c) bs None" using assms by (subst l2(4)) auto
  obtain l3 where l3: "unlink_next c l2 = Some l3" "dll (chain_nodes l3) (co_prev (chain_nodes l2 ! c)) bs None"
    "chain_nodes l3 ! c = chain_nodes l2 ! c"
    "\<And>ys p q. set ys \<inter> set bs = {} \<Longrightarrow> dll (chain_nodes l3) p ys q = dll (chain_nodes l2) p ys q" "same_entries l2 l3" "chain_head l3 = chain_head l2" "chain_tail l3 = chain_tail l2"
    by (rule unlink_next_seg[OF bs, of c]) (use assms l2(3,5) in \<open>auto simp: same_entries_def\<close>)
  have "dll (chain_nodes l3) None as (first bs None)" using l2(2) assms by (subst l3(4)) auto
  then have "dll (chain_nodes l3) None (as @ bs) None" using l3(2) l2(3) assms by simp
  then show ?thesis using that[OF l2(1) l3(1)] l2(3,5-7) l3(3,5-7) same_entries_trans by simp
qed

lemma unlink_seg_rev:
  assumes "dll (chain_nodes l) None (as @ c # bs) None" and "distinct (as @ c # bs)"
  obtains l2 l3 where "unlink_next c l = Some l2" and "unlink_prev c l2 = Some l3" and "dll (chain_nodes l3) None (as @ bs) None"
    and "chain_nodes l3 ! c = chain_nodes l ! c" and "same_entries l l3" and "chain_head l3 = chain_head l" and "chain_tail l3 = chain_tail l"
proof -
  obtain l2 where l2: "unlink_next c l = Some l2" "dll (chain_nodes l2) (co_prev (chain_nodes l ! c)) bs None"
    "chain_nodes l2 ! c = chain_nodes l ! c"
    "\<And>ys p q. set ys \<inter> set bs = {} \<Longrightarrow> dll (chain_nodes l2) p ys q = dll (chain_nodes l) p ys q" "same_entries l l2" "chain_head l2 = chain_head l" "chain_tail l2 = chain_tail l"
    by (rule unlink_next_seg[of l "Some c" bs c]) (use assms in auto)
  have as: "dll (chain_nodes l2) None as (Some c)" using assms by (subst l2(4)) auto
  obtain l3 where l3: "unlink_prev c l2 = Some l3" "dll (chain_nodes l3) None as (co_next (chain_nodes l2 ! c))"
    "chain_nodes l3 ! c = chain_nodes l2 ! c"
    "\<And>ys p q. set ys \<inter> set as = {} \<Longrightarrow> dll (chain_nodes l3) p ys q = dll (chain_nodes l2) p ys q" "same_entries l2 l3" "chain_head l3 = chain_head l2" "chain_tail l3 = chain_tail l2"
    by (rule unlink_prev_seg[OF as, of c]) (use assms l2(3,5) in \<open>auto simp: same_entries_def\<close>)
  have "dll (chain_nodes l3) (final None as) bs None" using l2(2) assms by (subst l3(4)) auto
  then have "dll (chain_nodes l3) None (as @ bs) None" using l3(2) l2(3) assms by simp
  then show ?thesis using that[OF l2(1) l3(1)] l2(3,5-7) l3(3,5-7) same_entries_trans by simp
qed

lemma linked_at: "linked l (as @ c # bs) \<Longrightarrow> c < length (chain_nodes l) \<and> co_prev (chain_nodes l ! c) = final None as \<and> co_next (chain_nodes l ! c) = first bs None"
  by (simp add: linked_def)

lemma ll_append_tail_linked:
  assumes "linked l (as @ c # bs)"
  obtains l' where "ll_append_tail c l = Some l'" and "linked l' (as @ bs @ [c])" and "same_entries l l'"
proof (cases bs rule: rev_cases)
  case Nil
  then show ?thesis using assms by (intro that[of l]) (auto simp: ll_append_tail_def linked_def)
next
  case (snoc bs' b)
  define l1 where "l1 = (if Some c = chain_head l then l\<lparr>chain_head := co_next (chain_nodes l ! c)\<rparr> else l)"
  have d: "distinct (as @ c # bs)" and n: "chain_nodes l1 = chain_nodes l" using assms by (auto simp: linked_def l1_def)
  obtain l2 l3 where u: "unlink_prev c l1 = Some l2" "unlink_next c l2 = Some l3" "dll (chain_nodes l3) None (as @ bs) None"
    "chain_nodes l3 ! c = chain_nodes l1 ! c" "same_entries l1 l3" "chain_head l3 = chain_head l1" "chain_tail l3 = chain_tail l1"
    by (rule unlink_seg[of l1 as c bs]) (use assms in \<open>simp_all add: linked_def n\<close>)
  have len: "length (chain_nodes l3) = length (chain_nodes l)" and c: "c < length (chain_nodes l)"
    using u(5) linked_at[OF assms] n by (auto simp: same_entries_def)
  have tail: "chain_tail l = Some b" "chain_tail l1 = Some b" and cb: "c \<noteq> b" using assms snoc by (auto simp: linked_def l1_def)
  have head: "chain_head l1 = first (as @ bs) None" using assms by (cases as) (auto simp: linked_def l1_def)
  let ?ns = "(chain_nodes l3)[b := (chain_nodes l3 ! b)\<lparr>co_next := Some c\<rparr>]"
  have b: "b < length (chain_nodes l)" using dll_bound[OF u(3), of b] snoc len by simp
  have seg: "dll ?ns None (as @ bs) (Some c)"
    using dll_new_next[of "chain_nodes l3" None "as @ bs'" b None "Some c"] u(3) d snoc by simp
  let ?l4 = "l3\<lparr>chain_nodes := ?ns\<rparr>"
  let ?l5 = "?l4\<lparr>chain_nodes := ?ns[c := (?ns ! c)\<lparr>co_prev := Some b, co_next := None\<rparr>]\<rparr>"
  have run: "ll_append_tail c l = Some (?l5\<lparr>chain_tail := Some c\<rparr>)"
    using tail cb u(1,2,7) b c len by (simp add: ll_append_tail_def l1_def[symmetric])
  have "final None (as @ bs) = Some b" using snoc by simp
  then have "dll (chain_nodes ?l5) None ((as @ bs) @ [c]) None"
    using dll_snoc_new[OF seg, of "?ns ! c"] d c len by (simp del: dll_append)
  then have "linked (?l5\<lparr>chain_tail := Some c\<rparr>) (as @ bs @ [c])"
    using d head u(6) snoc by (auto simp: linked_def simp del: dll_append)
  moreover have "same_entries l l1" "same_entries l1 l3" "same_entries l3 ?l4" "same_entries ?l4 ?l5"
    using same_entries_node[of _ ?l4 c] u(5) by (simp_all add: same_entries_node l1_def)
  ultimately show ?thesis by (intro that[OF run]) (auto intro: same_entries_trans)
qed

lemma ll_append_head_linked:
  assumes "linked l (as @ c # bs)"
  obtains l' where "ll_append_head c l = Some l'" and "linked l' (c # as @ bs)" and "same_entries l l'"
proof (cases as)
  case Nil
  then show ?thesis using assms by (intro that[of l]) (auto simp: ll_append_head_def linked_def)
next
  case (Cons a as')
  define l1 where "l1 = (if Some c = chain_tail l then l\<lparr>chain_tail := co_prev (chain_nodes l ! c)\<rparr> else l)"
  have d: "distinct (as @ c # bs)" and n: "chain_nodes l1 = chain_nodes l" using assms by (auto simp: linked_def l1_def)
  obtain l2 l3 where u: "unlink_next c l1 = Some l2" "unlink_prev c l2 = Some l3" "dll (chain_nodes l3) None (as @ bs) None"
    "chain_nodes l3 ! c = chain_nodes l1 ! c" "same_entries l1 l3" "chain_head l3 = chain_head l1" "chain_tail l3 = chain_tail l1"
    by (rule unlink_seg_rev[of l1 as c bs]) (use assms in \<open>simp_all add: linked_def n\<close>)
  have len: "length (chain_nodes l3) = length (chain_nodes l)" and c: "c < length (chain_nodes l)"
    using u(5) linked_at[OF assms] n by (auto simp: same_entries_def)
  have head: "chain_head l = Some a" "chain_head l1 = Some a" and ca: "c \<noteq> a" using assms Cons by (auto simp: linked_def l1_def)
  have tail: "chain_tail l1 = final None (as @ bs)" using assms by (cases bs rule: rev_cases) (auto simp: linked_def l1_def)
  let ?ns = "(chain_nodes l3)[a := (chain_nodes l3 ! a)\<lparr>co_prev := Some c\<rparr>]"
  have a: "a < length (chain_nodes l)" using dll_bound[OF u(3), of a] Cons len by simp
  have seg: "dll ?ns (Some c) (as @ bs) None"
    using dll_new_prev[of "chain_nodes l3" None a "as' @ bs" None "Some c"] u(3) d Cons by simp
  let ?l4 = "l3\<lparr>chain_nodes := ?ns\<rparr>"
  let ?l5 = "?l4\<lparr>chain_nodes := ?ns[c := (?ns ! c)\<lparr>co_next := Some a, co_prev := None\<rparr>]\<rparr>"
  have run: "ll_append_head c l = Some (?l5\<lparr>chain_head := Some c\<rparr>)"
    using head ca u(1,2,6) a c len by (simp add: ll_append_head_def l1_def[symmetric])
  have "first (as @ bs) None = Some a" using Cons by simp
  then have "dll (chain_nodes ?l5) None (c # as @ bs) None"
    using dll_Cons_new[OF seg, of "?ns ! c"] d c len by (simp del: dll_append dll.simps)
  then have "linked (?l5\<lparr>chain_head := Some c\<rparr>) (c # as @ bs)"
    using d tail u(7) Cons by (auto simp: linked_def simp del: dll_append dll.simps)
  moreover have "same_entries l l1" "same_entries l1 l3" "same_entries l3 ?l4" "same_entries ?l4 ?l5"
    using same_entries_node[of _ ?l4 c] u(5) by (simp_all add: same_entries_node l1_def)
  ultimately show ?thesis by (intro that[OF run]) (auto intro: same_entries_trans)
qed

text \<open>Operations that only change what one node holds.\<close>

lemma update_node_linked:
  assumes "linked l xs" and "c \<in> set xs" and "\<And>n. co_next (f n) = co_next n" and "\<And>n. co_prev (f n) = co_prev n"
  obtains l' where "update_node (Some c) f l = Some l'" and "linked l' xs"
    and "entry l' = (entry l)(c := (let n = f (chain_nodes l ! c) in (co_cipher n, co_active n, co_in_group n)))"
proof -
  have c: "c < length (chain_nodes l)" using assms(1,2) dll_bound by (auto simp: linked_def)
  let ?ns = "(chain_nodes l)[c := f (chain_nodes l ! c)]"
  have "dll ?ns p ys q = dll (chain_nodes l) p ys q" for p ys q
    using c by (induction ys arbitrary: p) (auto simp: nth_list_update assms(3,4))
  then have "linked (l\<lparr>chain_nodes := ?ns\<rparr>) xs" using assms(1) by (simp add: linked_def)
  moreover have "entry (l\<lparr>chain_nodes := ?ns\<rparr>) = (entry l)(c := (let n = f (chain_nodes l ! c) in (co_cipher n, co_active n, co_in_group n)))"
    using c by (auto simp: entry_def fun_eq_iff nth_list_update Let_def)
  ultimately show ?thesis using c by (intro that) simp_all
qed

lemma ll_kill_linked:
  assumes "linked l (as @ c # bs)"
  obtains l' where "ll_kill c l = Some l'" and "linked l' (as @ bs)"
    and "entry l' = (entry l)(c := (fst (entry l c), False, snd (snd (entry l c))))"
proof -
  have d: "distinct (as @ c # bs)" and c: "c < length (chain_nodes l)" using assms linked_at[OF assms] by (auto simp: linked_def)
  obtain l0 where l0: "unlink_prev c l = Some l0" "dll (chain_nodes l0) None as (co_next (chain_nodes l ! c))" "chain_nodes l0 ! c = chain_nodes l ! c"
    "\<And>ys p q. set ys \<inter> set as = {} \<Longrightarrow> dll (chain_nodes l0) p ys q = dll (chain_nodes l) p ys q"
    "same_entries l l0" "chain_head l0 = chain_head l" "chain_tail l0 = chain_tail l"
    by (rule unlink_prev_seg[of l as "Some c" c]) (use assms in \<open>auto simp: linked_def\<close>)
  define l1 where "l1 = (if as = [] then l0\<lparr>chain_head := co_next (chain_nodes l ! c)\<rparr> else l0)"
  define l2 where "l2 = (if chain_tail l1 = Some c then l1\<lparr>chain_tail := co_prev (chain_nodes l1 ! c)\<rparr> else l1)"
  have headc: "chain_head l = Some c \<longleftrightarrow> as = []" using assms by (cases as) (auto simp: linked_def)
  have step1: "(if chain_head l = Some c then Some (l\<lparr>chain_head := co_next (chain_nodes l ! c)\<rparr>)
      else update_node (co_prev (chain_nodes l ! c)) (\<lambda>n. n\<lparr>co_next := co_next (chain_nodes l ! c)\<rparr>) l) = Some l1"
    using l0(1) linked_at[OF assms] c headc by (cases as rule: rev_cases) (auto simp: unlink_prev_def l1_def)
  let ?n3 = "(chain_nodes l0)[c := (chain_nodes l0 ! c)\<lparr>co_active := False\<rparr>]"
  define l3 where "l3 = l2\<lparr>chain_nodes := ?n3\<rparr>"
  have nodes: "chain_nodes l1 = chain_nodes l0" "chain_nodes l2 = chain_nodes l0" "chain_nodes l3 = ?n3" by (simp_all add: l1_def l2_def l3_def)
  have len: "length (chain_nodes l0) = length (chain_nodes l)" using l0(5) by (simp add: same_entries_def)
  have at3: "co_next (chain_nodes l3 ! c) = first bs None" "co_prev (chain_nodes l3 ! c) = final None as" "c < length (chain_nodes l3)"
    using linked_at[OF assms] l0(3) c len nodes by simp_all
  have seg: "dll (chain_nodes l3) None as (first bs None)" "dll (chain_nodes l3) (Some c) bs None"
    using l0(2) l0(4)[of bs "Some c" None] d assms by (auto simp: nodes dll_frame linked_def)
  obtain l4 where l4: "unlink_next c l3 = Some l4" "dll (chain_nodes l4) (co_prev (chain_nodes l3 ! c)) bs None" "chain_nodes l4 ! c = chain_nodes l3 ! c"
    "\<And>ys p q. set ys \<inter> set bs = {} \<Longrightarrow> dll (chain_nodes l4) p ys q = dll (chain_nodes l3) p ys q"
    "same_entries l3 l4" "chain_head l4 = chain_head l3" "chain_tail l4 = chain_tail l3"
    by (rule unlink_next_seg[OF seg(2), of c]) (use d at3 in auto)
  have as4: "dll (chain_nodes l4) None as (first bs None)" using seg(1) d by (subst l4(4)) auto
  obtain l5 where l5: "unlink_prev c l4 = Some l5" "dll (chain_nodes l5) None as (co_next (chain_nodes l4 ! c))" "chain_nodes l5 ! c = chain_nodes l4 ! c"
    "\<And>ys p q. set ys \<inter> set as = {} \<Longrightarrow> dll (chain_nodes l5) p ys q = dll (chain_nodes l4) p ys q"
    "same_entries l4 l5" "chain_head l5 = chain_head l4" "chain_tail l5 = chain_tail l4"
    by (rule unlink_prev_seg[OF as4, of c]) (use d at3 l4(3,5) in \<open>auto simp: same_entries_def\<close>)
  have "dll (chain_nodes l5) (final None as) bs None" using l4(2) at3 d by (subst l5(4)) auto
  then have all5: "dll (chain_nodes l5) None (as @ bs) None" using l5(2) at3 l4(3) by simp
  let ?l6 = "l5\<lparr>chain_nodes := (chain_nodes l5)[c := (chain_nodes l5 ! c)\<lparr>co_next := None, co_prev := None\<rparr>]\<rparr>"
  have len5: "length (chain_nodes l5) = length (chain_nodes l)" using l4(5) l5(5) len nodes by (simp add: same_entries_def)
  have "ll_kill c l = Some ?l6"
    using c step1 l4(1) l5(1) len len5 nodes(1) by (cases "chain_tail l1 = Some c") (simp_all add: ll_kill_def l2_def l3_def)
  moreover have "linked ?l6 (as @ bs)"
  proof -
    have "chain_head l5 = first (as @ bs) None" using assms l5(6) l4(6) l0(6) linked_at[OF assms]
      by (cases as) (auto simp: linked_def l3_def l2_def l1_def)
    moreover have "chain_tail l5 = final None (as @ bs)" using assms l5(7) l4(7) l0(3,7) linked_at[OF assms] d
      by (cases bs rule: rev_cases) (auto simp: linked_def l3_def l2_def l1_def)
    ultimately show ?thesis using all5 d dll_frame[of c "as @ bs" "chain_nodes l5"] by (auto simp: linked_def simp del: dll_append)
  qed
  moreover have "entry ?l6 = (entry l)(c := (fst (entry l c), False, snd (snd (entry l c))))"
  proof -
    have "same_entries l l2" using l0(5) by (simp add: l2_def l1_def)
    moreover have "entry l3 = (entry l2)(c := (fst (entry l2 c), False, snd (snd (entry l2 c))))"
      using c len by (auto simp: l3_def entry_def nodes fun_eq_iff nth_list_update)
    moreover have "same_entries l3 ?l6" using l4(5) l5(5) same_entries_node[of _ l5 c] by (auto intro: same_entries_trans)
    ultimately show ?thesis by (simp add: same_entries_def)
  qed
  ultimately show ?thesis by (rule that)
qed

subsection \<open>Rules on the sequence of entries\<close>

fun acts :: "cipher_rule \<Rightarrow> (cipher_suite \<Rightarrow> bool) \<Rightarrow> entry \<Rightarrow> bool" where
  "acts CIPHER_ADD P (c, active, g) \<longleftrightarrow> P c \<and> \<not> active"
| "acts CIPHER_ORD P (c, active, g) \<longleftrightarrow> P c \<and> active"
| "acts CIPHER_DEL P (c, active, g) \<longleftrightarrow> P c \<and> active"
| "acts CIPHER_KILL P (c, active, g) \<longleftrightarrow> P c"
| "acts CIPHER_SPECIAL P e \<longleftrightarrow> False"

fun becomes :: "cipher_rule \<Rightarrow> bool \<Rightarrow> entry \<Rightarrow> entry" where
  "becomes CIPHER_ADD in_group (c, active, g) = (c, True, in_group)"
| "becomes CIPHER_ORD in_group (c, active, g) = (c, active, False)"
| "becomes CIPHER_DEL in_group (c, active, g) = (c, False, False)"
| "becomes CIPHER_KILL in_group (c, active, g) = (c, False, g)"
| "becomes CIPHER_SPECIAL in_group e = e"

definition rule_spec :: "cipher_rule \<Rightarrow> bool \<Rightarrow> (cipher_suite \<Rightarrow> bool) \<Rightarrow> entry list \<Rightarrow> entry list" where
  "rule_spec rule in_group P es =
     (let kept = filter (\<lambda>e. \<not> acts rule P e) es; moved = map (becomes rule in_group) (filter (acts rule P) es) in
      case rule of CIPHER_DEL \<Rightarrow> moved @ kept | CIPHER_KILL \<Rightarrow> kept | _ \<Rightarrow> kept @ moved)"

text \<open>Where a rule puts an element it acts on.\<close>

fun placed :: "cipher_rule \<Rightarrow> nat list \<Rightarrow> nat \<Rightarrow> nat list \<Rightarrow> nat list" where
  "placed CIPHER_DEL as c bs = c # as @ bs"
| "placed CIPHER_KILL as c bs = as @ bs"
| "placed rule as c bs = as @ bs @ [c]"

lemma fst_becomes [simp]: "fst (becomes rule in_group e) = fst e"
  by (cases "(rule, in_group, e)" rule: becomes.cases) auto

lemma same_entries_at:
  "same_entries l l' \<Longrightarrow> co_cipher (chain_nodes l' ! c) = fst (entry l c) \<and> co_active (chain_nodes l' ! c) = fst (snd (entry l c)) \<and>
     co_in_group (chain_nodes l' ! c) = snd (snd (entry l c))"
  by (simp add: same_entries_def entry_def fun_eq_iff)

lemma entry_at: "entry l c = (co_cipher (chain_nodes l ! c), co_active (chain_nodes l ! c), co_in_group (chain_nodes l ! c))"
  by (simp add: entry_def)

lemma apply_to_moves:
  assumes "linked l (as @ c # bs)" and "acts rule P (entry l c)"
  obtains l1 where "apply_to rule in_group c l = Some l1" and "linked l1 (placed rule as c bs)"
    and "entry l1 = (entry l)(c := becomes rule in_group (entry l c))"
proof -
  have c: "c < length (chain_nodes l)" using linked_at[OF assms(1)] by simp
  consider (tail) "rule = CIPHER_ADD \<or> rule = CIPHER_ORD" | (del) "rule = CIPHER_DEL" | (kill) "rule = CIPHER_KILL"
    using assms(2) by (cases rule) auto
  then show ?thesis
  proof cases
    case tail
    obtain l0 where l0: "ll_append_tail c l = Some l0" "linked l0 (as @ bs @ [c])" "same_entries l l0" by (rule ll_append_tail_linked[OF assms(1)])
    let ?f = "if rule = CIPHER_ADD then (\<lambda>n. n\<lparr>co_active := True, co_in_group := in_group\<rparr>) else (\<lambda>n. n\<lparr>co_in_group := False\<rparr>)"
    obtain l1 where "update_node (Some c) ?f l0 = Some l1" "linked l1 (as @ bs @ [c])"
      "entry l1 = (entry l0)(c := (let n = ?f (chain_nodes l0 ! c) in (co_cipher n, co_active n, co_in_group n)))"
      by (rule update_node_linked[OF l0(2), of c ?f]) auto
    moreover have "entry l0 = entry l" using l0(3) by (simp add: same_entries_def)
    ultimately show ?thesis using tail assms(2) c l0(1) same_entries_at[OF l0(3), of c]
      by (intro that[of l1]; elim disjE) (simp_all add: apply_to_def entry_at Let_def)
  next
    case del
    obtain l0 where l0: "ll_append_head c l = Some l0" "linked l0 (c # as @ bs)" "same_entries l l0" by (rule ll_append_head_linked[OF assms(1)])
    obtain l1 where "update_node (Some c) (\<lambda>n. n\<lparr>co_active := False, co_in_group := False\<rparr>) l0 = Some l1" "linked l1 (c # as @ bs)"
      "entry l1 = (entry l0)(c := (co_cipher (chain_nodes l0 ! c), False, False))"
      by (rule update_node_linked[OF l0(2), of c "\<lambda>n. n\<lparr>co_active := False, co_in_group := False\<rparr>"]) auto
    moreover have "entry l0 = entry l" using l0(3) by (simp add: same_entries_def)
    ultimately show ?thesis using del assms(2) c l0(1) same_entries_at[OF l0(3), of c]
      by (intro that[of l1]) (simp_all add: apply_to_def entry_at)
  next
    case kill
    obtain l1 where "ll_kill c l = Some l1" "linked l1 (as @ bs)" "entry l1 = (entry l)(c := (fst (entry l c), False, snd (snd (entry l c))))"
      by (rule ll_kill_linked[OF assms(1)])
    then show ?thesis using kill c by (intro that[of l1]) (auto simp: apply_to_def entry_def)
  qed
qed

lemma apply_step:
  assumes "linked l (as @ c # bs)"
  obtains l1 where "(if P (fst (entry l c)) then apply_to rule in_group c l else Some l) = Some l1"
    and "linked l1 (if acts rule P (entry l c) then placed rule as c bs else as @ c # bs)"
    and "entry l1 = (if acts rule P (entry l c) then (entry l)(c := becomes rule in_group (entry l c)) else entry l)"
proof (cases "acts rule P (entry l c)")
  case False
  then show ?thesis using assms linked_at[OF assms(1)]
    by (intro that[of l]; cases rule) (auto simp: apply_to_def entry_def)
next
  case True
  then have "P (fst (entry l c))" by (cases "(rule, P, entry l c)" rule: acts.cases) auto
  moreover obtain l1 where "apply_to rule in_group c l = Some l1" "linked l1 (placed rule as c bs)"
    "entry l1 = (entry l)(c := becomes rule in_group (entry l c))" by (rule apply_to_moves[OF assms True, of in_group])
  ultimately show ?thesis using that[of l1] True by simp
qed

subsection \<open>The loop\<close>

text \<open>Going forward, acted-on elements go to the end, behind those still to be visited, or away.\<close>

lemma apply_loop_forward:
  assumes "linked l (kept @ rest @ moved)" and "rest \<noteq> []" and "cur \<notin> Some ` set rest" and "last_p = Some (last rest)"
    and "rule \<noteq> CIPHER_DEL" and "\<And>c. selects c = Some (P c)"
  shows "\<exists>l' xs. apply_loop selects rule in_group last_p cur (Some (hd rest)) l = Some l' \<and> linked l' xs \<and>
    map (entry l') xs = map (entry l) kept @ filter (\<lambda>e. \<not> acts rule P e) (map (entry l) rest) @ map (entry l) moved @
      (if rule = CIPHER_KILL then [] else map (becomes rule in_group) (filter (acts rule P) (map (entry l) rest)))"
  using assms(1-4)
proof (induction rest arbitrary: l kept moved cur)
  case (Cons c rest)
  have d: "distinct (kept @ (c # rest) @ moved)" using Cons.prems(1) by (simp add: linked_def)
  obtain l1 where l1: "(if P (fst (entry l c)) then apply_to rule in_group c l else Some l) = Some l1"
    "linked l1 (if acts rule P (entry l c) then placed rule kept c (rest @ moved) else kept @ c # rest @ moved)"
    "entry l1 = (if acts rule P (entry l c) then (entry l)(c := becomes rule in_group (entry l c)) else entry l)"
    by (rule apply_step[of l kept c "rest @ moved" P rule in_group]) (use Cons.prems(1) in simp)
  have n: "node (Some c) l = Some (chain_nodes l ! c)" "co_next (chain_nodes l ! c) = first (rest @ moved) None"
    using linked_at[of l kept c "rest @ moved"] Cons.prems(1) by simp_all
  have run: "apply_loop selects rule in_group last_p cur (Some c) l = apply_loop selects rule in_group last_p (Some c) (first (rest @ moved) None) l1"
    using Cons.prems(3,4) n l1(1) assms(5,6) by (subst apply_loop.simps) (auto simp: entry_def)
  define kept' where "kept' = (if acts rule P (entry l c) then kept else kept @ [c])"
  define moved' where "moved' = (if acts rule P (entry l c) \<and> rule \<noteq> CIPHER_KILL then moved @ [c] else moved)"
  have lk: "linked l1 (kept' @ rest @ moved')"
    using l1(2) assms(5) by (cases rule) (auto simp: kept'_def moved'_def split: if_splits)
  have maps: "map (entry l1) kept' = map (entry l) kept @ (if acts rule P (entry l c) then [] else [entry l c])"
    "map (entry l1) moved' = map (entry l) moved @ (if acts rule P (entry l c) \<and> rule \<noteq> CIPHER_KILL then [becomes rule in_group (entry l c)] else [])"
    "map (entry l1) rest = map (entry l) rest"
    using d l1(3) by (auto simp: kept'_def moved'_def)
  show ?case
  proof (cases "rest = []")
    case True
    then have "apply_loop selects rule in_group last_p cur (Some c) l = Some l1"
      unfolding run using Cons.prems(4) by (subst apply_loop.simps) simp
    then show ?thesis using lk maps True by (intro exI[of _ l1] exI[of _ "kept' @ moved'"]) auto
  next
    case False
    then have "first (rest @ moved) None = Some (hd rest)" "Some c \<notin> Some ` set rest" using d by (cases rest; auto)+
    then show ?thesis using Cons.IH[OF lk False, of "Some c", unfolded maps] Cons.prems(4) False run by auto
  qed
qed simp

text \<open>Going backward, they go to the front.\<close>

lemma apply_loop_backward:
  assumes "linked l (moved @ rest @ kept)" and "rest \<noteq> []" and "cur \<notin> Some ` set rest" and "last_p = Some (hd rest)"
    and "\<And>c. selects c = Some (P c)"
  shows "\<exists>l' xs. apply_loop selects CIPHER_DEL in_group last_p cur (Some (last rest)) l = Some l' \<and> linked l' xs \<and>
    map (entry l') xs = map (becomes CIPHER_DEL in_group) (filter (acts CIPHER_DEL P) (map (entry l) rest)) @ map (entry l) moved @
      filter (\<lambda>e. \<not> acts CIPHER_DEL P e) (map (entry l) rest) @ map (entry l) kept"
  using assms(1-4)
proof (induction rest arbitrary: l kept moved cur rule: rev_induct)
  case (snoc c rest)
  let ?A = "acts CIPHER_DEL P (entry l c)"
  have at: "linked l ((moved @ rest) @ c # kept)" and d: "distinct (moved @ (rest @ [c]) @ kept)" using snoc.prems(1) by (simp_all add: linked_def)
  obtain l1 where l1: "(if P (fst (entry l c)) then apply_to CIPHER_DEL in_group c l else Some l) = Some l1"
    "linked l1 (if ?A then placed CIPHER_DEL (moved @ rest) c kept else (moved @ rest) @ c # kept)"
    "entry l1 = (if ?A then (entry l)(c := becomes CIPHER_DEL in_group (entry l c)) else entry l)"
    by (rule apply_step[OF at, of P CIPHER_DEL in_group])
  have neq: "cur \<noteq> last_p" using snoc.prems(3,4) by (cases rest) auto
  have run: "apply_loop selects CIPHER_DEL in_group last_p cur (Some c) l =
      apply_loop selects CIPHER_DEL in_group last_p (Some c) (final None (moved @ rest)) l1"
    using neq linked_at[OF at] l1(1) assms(5) by (subst apply_loop.simps) (simp add: entry_def)
  define kept' where "kept' = (if ?A then kept else c # kept)"
  define moved' where "moved' = (if ?A then c # moved else moved)"
  have lk: "linked l1 (moved' @ rest @ kept')" using l1(2) by (auto simp: kept'_def moved'_def split: if_splits)
  have maps: "map (entry l1) kept' = (if ?A then [] else [entry l c]) @ map (entry l) kept"
    "map (entry l1) moved' = (if ?A then [becomes CIPHER_DEL in_group (entry l c)] else []) @ map (entry l) moved"
    "map (entry l1) rest = map (entry l) rest"
    using d l1(3) by (auto simp: kept'_def moved'_def)
  show ?case
  proof (cases "rest = []")
    case True
    then have "apply_loop selects CIPHER_DEL in_group last_p cur (Some c) l = Some l1"
      unfolding run using snoc.prems(4) by (subst apply_loop.simps) simp
    then show ?thesis using lk maps True by (intro exI[of _ l1] exI[of _ "moved' @ kept'"]) auto
  next
    case False
    then have "final None (moved @ rest) = Some (last rest)" "Some c \<notin> Some ` set rest" "last_p = Some (hd rest)"
      using d snoc.prems(4) by (auto simp: final_def)
    then show ?thesis using snoc.IH[OF lk False, of "Some c", unfolded maps] False run by auto
  qed
qed simp

text \<open>A rule, for any selection that does not use a null alias.\<close>

lemma ssl_cipher_apply_rule_linked:
  assumes "linked l xs" and "\<And>c. rule_selects cipher_id alias strength_bits c = Some (P c)"
  obtains l' xs' where "ssl_cipher_apply_rule cipher_id alias rule strength_bits in_group l = Some l'" and "linked l' xs'"
    and "map (entry l') xs' = rule_spec rule in_group P (map (entry l) xs)"
proof -
  let ?loop = "if rule = CIPHER_DEL
     then apply_loop (rule_selects cipher_id alias strength_bits) rule in_group (chain_head l) None (chain_tail l) l
     else apply_loop (rule_selects cipher_id alias strength_bits) rule in_group (chain_tail l) None (chain_head l) l"
  define bail where "bail \<longleftrightarrow> cipher_id = 0 \<and> strength_bits = - 1 \<and> min_version (the alias) = 0 \<and>
     (alias_mkey (the alias) = 0 \<or> alias_auth (the alias) = 0 \<or> alias_enc (the alias) = 0 \<or> alias_mac (the alias) = 0)"
  have run: "ssl_cipher_apply_rule cipher_id alias rule strength_bits in_group l = (if bail then Some l else ?loop)"
    using assms(2) by (cases "alias") (auto simp: ssl_cipher_apply_rule_def rule_selects_def bail_def)
  show ?thesis
  proof (cases "bail \<or> xs = []")
    case True
    have "map (entry l) xs = rule_spec rule in_group P (map (entry l) xs)"
    proof (cases "xs = []")
      case True
      then show ?thesis by (simp add: rule_spec_def split: cipher_rule.split)
    next
      case False
      then have b: bail using True by simp
      have "\<not> P c" for c using assms(2)[of c] b by (cases "alias") (auto simp: bail_def rule_selects_def alias_matches_def)
      then have "acts rule P e \<longleftrightarrow> False" for e by (cases "(rule, P, e)" rule: acts.cases) auto
      then show ?thesis by (cases rule) (simp_all add: rule_spec_def)
    qed
    moreover have "?loop = Some l" if "xs = []" using that assms(1) by (simp add: linked_def apply_loop.simps)
    ultimately show ?thesis using True run assms(1) by (intro that[of l xs]) auto
  next
    case False
    then have h: "chain_head l = Some (hd xs)" "chain_tail l = Some (last xs)" "xs \<noteq> []"
      using assms(1) by (auto simp: linked_def final_def first_def split: list.splits)
    show ?thesis
    proof (cases "rule = CIPHER_DEL")
      case True
      then show ?thesis using apply_loop_backward[of l "[]" xs "[]" None "chain_head l" "rule_selects cipher_id alias strength_bits" P in_group]
          assms h run False that by (auto simp: rule_spec_def)
    next
      case fwd: False
      then show ?thesis using apply_loop_forward[of l "[]" xs "[]" None "chain_tail l" rule "rule_selects cipher_id alias strength_bits" P in_group]
          assms h run False that by (cases rule) (auto simp: rule_spec_def)
    qed
  qed
qed

subsection \<open>Enabled and disabled ciphers\<close>

definition active_suites :: "entry list \<Rightarrow> cipher_suite list" where
  "active_suites es = map fst (filter (\<lambda>e. fst (snd e)) es)"

definition inactive_suites :: "entry list \<Rightarrow> cipher_suite list" where
  "inactive_suites es = map fst (filter (\<lambda>e. \<not> fst (snd e)) es)"

lemma active_suites_simps [simp]: "active_suites [] = []" "active_suites (e # es) = (if fst (snd e) then fst e # active_suites es else active_suites es)"
  "active_suites (xs @ ys) = active_suites xs @ active_suites ys"
  by (simp_all add: active_suites_def)

lemma inactive_suites_simps [simp]: "inactive_suites [] = []" "inactive_suites (e # es) = (if fst (snd e) then inactive_suites es else fst e # inactive_suites es)"
  "inactive_suites (xs @ ys) = inactive_suites xs @ inactive_suites ys"
  by (simp_all add: inactive_suites_def)

lemma active_suites_parts:
  "active_suites (filter (\<lambda>e. \<not> acts rule P e) es) =
     (if rule = CIPHER_ADD \<or> rule = CIPHER_SPECIAL then active_suites es else filter (\<lambda>c. \<not> P c) (active_suites es))"
  "active_suites (map (becomes rule in_group) (filter (acts rule P) es)) =
     (case rule of CIPHER_ADD \<Rightarrow> filter P (inactive_suites es) | CIPHER_ORD \<Rightarrow> filter P (active_suites es) | _ \<Rightarrow> [])"
  by (cases rule; induction es; auto)+

lemma inactive_suites_parts:
  "inactive_suites (filter (\<lambda>e. \<not> acts rule P e) es) =
     (if rule = CIPHER_ADD \<or> rule = CIPHER_KILL then filter (\<lambda>c. \<not> P c) (inactive_suites es) else inactive_suites es)"
  "rule \<noteq> CIPHER_KILL \<Longrightarrow> inactive_suites (map (becomes rule in_group) (filter (acts rule P) es)) = (if rule = CIPHER_DEL then filter P (active_suites es) else [])"
  by (cases rule; induction es; auto)+

lemma active_suites_rule_spec:
  "active_suites (rule_spec rule in_group P es) =
     (case rule of
        CIPHER_ADD \<Rightarrow> active_suites es @ filter P (inactive_suites es)
      | CIPHER_ORD \<Rightarrow> filter (\<lambda>c. \<not> P c) (active_suites es) @ filter P (active_suites es)
      | CIPHER_SPECIAL \<Rightarrow> active_suites es
      | _ \<Rightarrow> filter (\<lambda>c. \<not> P c) (active_suites es))"
  by (cases rule) (simp_all add: rule_spec_def Let_def active_suites_parts)

lemma inactive_suites_rule_spec:
  "inactive_suites (rule_spec rule in_group P es) =
     (case rule of
        CIPHER_ADD \<Rightarrow> filter (\<lambda>c. \<not> P c) (inactive_suites es)
      | CIPHER_DEL \<Rightarrow> filter P (active_suites es) @ inactive_suites es
      | CIPHER_KILL \<Rightarrow> filter (\<lambda>c. \<not> P c) (inactive_suites es)
      | _ \<Rightarrow> inactive_suites es)"
  by (cases rule) (simp_all add: rule_spec_def Let_def inactive_suites_parts)

text \<open>
  (C9) The rules of cipher strings do what their documentation says. On the linked list, whatever its state, each of them ends without using a null pointer and
  leaves a well-formed list; read as the sequence of enabled and the sequence of disabled ciphers, adding moves the selected disabled ciphers
  to the end of the enabled ones, deleting moves the selected enabled ones to the front of the disabled ones, ordering moves them to
  the end of the enabled ones, and killing removes them from both, each keeping the order of what it moves and
  of what it leaves.
\<close>
theorem cipher_rules_documented:
  assumes "linked l xs" and "\<And>c. rule_selects cipher_id alias strength_bits c = Some (P c)" and "rule \<noteq> CIPHER_SPECIAL"
  shows "\<exists>l' xs'. ssl_cipher_apply_rule cipher_id alias rule strength_bits in_group l = Some l' \<and> linked l' xs' \<and>
    (let on = active_suites (map (entry l) xs); off = inactive_suites (map (entry l) xs) in
     (active_suites (map (entry l') xs'), inactive_suites (map (entry l') xs')) =
       (case rule of
          CIPHER_ADD \<Rightarrow> (on @ filter P off, filter (\<lambda>c. \<not> P c) off)
        | CIPHER_DEL \<Rightarrow> (filter (\<lambda>c. \<not> P c) on, filter P on @ off)
        | CIPHER_ORD \<Rightarrow> (filter (\<lambda>c. \<not> P c) on @ filter P on, off)
        | _ \<Rightarrow> (filter (\<lambda>c. \<not> P c) on, filter (\<lambda>c. \<not> P c) off)))"
proof -
  obtain l' xs' where "ssl_cipher_apply_rule cipher_id alias rule strength_bits in_group l = Some l'" "linked l' xs'"
    "map (entry l') xs' = rule_spec rule in_group P (map (entry l) xs)" by (rule ssl_cipher_apply_rule_linked[OF assms(1,2)])
  then show ?thesis using assms(3)
    by (intro exI[of _ l'] exI[of _ xs']) (cases rule; simp add: Let_def active_suites_rule_spec inactive_suites_rule_spec)
qed

text \<open>Two ciphers, of which the second is added.\<close>

definition two_suites :: "cipher_suite list" where
  "two_suites = [kCiphers ! 3, kCiphers ! 4]"

theorem cipher_rules_documented_witness:
  "\<exists>l' xs'. ssl_cipher_apply_rule 0x0300008d None CIPHER_ADD (- 1) False (co_list_init two_suites) = Some l' \<and> linked l' xs' \<and>
     active_suites (map (entry l') xs') = [kCiphers ! 4] \<and> inactive_suites (map (entry l') xs') = [kCiphers ! 3]"
proof -
  have "linked (co_list_init two_suites) [0..<length two_suites]" by (rule co_list_init_linked)
  then have "\<exists>l' xs'. ssl_cipher_apply_rule 0x0300008d None CIPHER_ADD (- 1) False (co_list_init two_suites) = Some l' \<and> linked l' xs' \<and>
    (let on = active_suites (map (entry (co_list_init two_suites)) [0..<length two_suites]); off = inactive_suites (map (entry (co_list_init two_suites)) [0..<length two_suites]) in
     (active_suites (map (entry l') xs'), inactive_suites (map (entry l') xs')) =
       (case CIPHER_ADD of
          CIPHER_ADD \<Rightarrow> (on @ filter (\<lambda>c. 0x0300008d = suite_id c) off, filter (\<lambda>c. \<not> 0x0300008d = suite_id c) off)
        | CIPHER_DEL \<Rightarrow> (filter (\<lambda>c. \<not> 0x0300008d = suite_id c) on, filter (\<lambda>c. 0x0300008d = suite_id c) on @ off)
        | CIPHER_ORD \<Rightarrow> (filter (\<lambda>c. \<not> 0x0300008d = suite_id c) on @ filter (\<lambda>c. 0x0300008d = suite_id c) on, off)
        | _ \<Rightarrow> (filter (\<lambda>c. \<not> 0x0300008d = suite_id c) on, filter (\<lambda>c. \<not> 0x0300008d = suite_id c) off)))"
    by (rule cipher_rules_documented) (simp_all add: rule_selects_def)
  then obtain l' xs' where "ssl_cipher_apply_rule 0x0300008d None CIPHER_ADD (- 1) False (co_list_init two_suites) = Some l'" "linked l' xs'"
    "active_suites (map (entry l') xs') = filter (\<lambda>c. 0x0300008d = suite_id c) two_suites" "inactive_suites (map (entry l') xs') = filter (\<lambda>c. 0x0300008d \<noteq> suite_id c) two_suites"
    by (auto simp: Let_def co_list_init_entries active_suites_def inactive_suites_def comp_def)
  moreover have "suite_id (kCiphers ! 3) = 0x0300008c" "suite_id (kCiphers ! 4) = 0x0300008d" by code_simp+
  ultimately show ?thesis by (intro exI[of _ l'] exI[of _ xs']) (simp add: two_suites_def)
qed

subsection \<open>Sorting by strength\<close>

fun ofold :: "('a \<Rightarrow> 'b \<Rightarrow> 'b option) \<Rightarrow> 'a list \<Rightarrow> 'b \<Rightarrow> 'b option" where
  "ofold f [] acc = Some acc"
| "ofold f (x # xs) acc = Option.bind (f x acc) (ofold f xs)"

lemma chain_fold_dll: "dll (chain_nodes l) p xs None \<Longrightarrow> chain_fold body (first xs None) l acc = ofold body (map ((!) (chain_nodes l)) xs) acc"
proof (induction xs arbitrary: p acc)
  case (Cons x xs)
  then have "chain_fold body (first xs None) l = ofold body (map ((!) (chain_nodes l)) xs)" by (intro ext) auto
  then show ?case using Cons.prems by (subst chain_fold.simps) simp
qed (simp add: chain_fold.simps)

lemma ofold_strongest:
  "\<exists>m'. ofold max_strength ns m = Some m' \<and> m \<le> m' \<and> (\<forall>n\<in>set ns. co_active n \<longrightarrow> cipher_bits (co_cipher n) \<le> m')"
proof (induction ns arbitrary: m)
  case (Cons n ns)
  let ?m = "if co_active n \<and> cipher_bits (co_cipher n) > m then cipher_bits (co_cipher n) else m"
  obtain m' where "ofold max_strength ns ?m = Some m'" "?m \<le> m'" "\<forall>n\<in>set ns. co_active n \<longrightarrow> cipher_bits (co_cipher n) \<le> m'"
    using Cons.IH[of ?m] by blast
  moreover have "max_strength n m = Some ?m" by (simp add: max_strength_def)
  ultimately show ?case by (intro exI[of _ m']) (auto split: if_splits)
qed simp

lemma ofold_uses:
  assumes "\<forall>n\<in>set ns. co_active n \<longrightarrow> cipher_bits (co_cipher n) < length u"
  shows "\<exists>u'. ofold count_use ns u = Some u' \<and> (\<forall>i. u ! i \<le> u' ! i) \<and> (\<forall>n\<in>set ns. co_active n \<longrightarrow> u' ! cipher_bits (co_cipher n) > 0)"
  using assms
proof (induction ns arbitrary: u)
  case (Cons n ns)
  let ?b = "cipher_bits (co_cipher n)"
  let ?u = "if co_active n then u[?b := u ! ?b + 1] else u"
  have step: "count_use n u = Some ?u" using Cons.prems by (simp add: count_use_def Let_def)
  obtain u' where u': "ofold count_use ns ?u = Some u'" "\<forall>i. ?u ! i \<le> u' ! i"
    "\<forall>n\<in>set ns. co_active n \<longrightarrow> u' ! cipher_bits (co_cipher n) > 0"
    using Cons.IH[of ?u] Cons.prems by fastforce
  have "u ! i \<le> ?u ! i" for i using Cons.prems by (cases "i = ?b") auto
  then have "\<forall>i. u ! i \<le> u' ! i" using u'(2) order_trans by blast
  moreover have "u' ! ?b > 0" if "co_active n" using u'(2)[rule_format, of ?b] Cons.prems that by simp
  ultimately show ?case using u'(1,3) step by auto
qed simp

definition order_by :: "nat list \<Rightarrow> entry list \<Rightarrow> entry list" where
  "order_by ks = fold (\<lambda>k. rule_spec CIPHER_ORD False (\<lambda>c. cipher_bits c = k)) ks"

lemma strength_loop_linked:
  assumes "linked l xs"
  obtains l' xs' where "strength_loop uses k l = Some l'" and "linked l' xs'"
    and "map (entry l') xs' = order_by (filter (\<lambda>i. uses ! i > 0) (rev [0..<k])) (map (entry l) xs)"
  using assms
proof (induction k arbitrary: l xs thesis)
  case 0
  then show ?case by (simp add: order_by_def)
next
  case (Suc k)
  show ?case
  proof (cases "uses ! k > 0")
    case True
    obtain l1 xs1 where l1: "ssl_cipher_apply_rule 0 None CIPHER_ORD (int k) False l = Some l1" "linked l1 xs1"
      "map (entry l1) xs1 = rule_spec CIPHER_ORD False (\<lambda>c. cipher_bits c = k) (map (entry l) xs)"
      by (rule ssl_cipher_apply_rule_linked[OF Suc.prems(2), of 0 None "int k" "\<lambda>c. cipher_bits c = k" CIPHER_ORD False])
        (auto simp: rule_selects_def)
    obtain l' xs' where "strength_loop uses k l1 = Some l'" "linked l' xs'"
      "map (entry l') xs' = order_by (filter (\<lambda>i. uses ! i > 0) (rev [0..<k])) (map (entry l1) xs1)"
      using Suc.IH[OF _ l1(2)] by blast
    then show ?thesis using Suc.prems(1)[of l' xs'] l1 True by (simp add: order_by_def)
  next
    case False
    then show ?thesis using Suc.IH[OF _ Suc.prems(2)] Suc.prems(1) by auto
  qed
qed

lemma strength_sort_linked:
  assumes "linked l xs"
  obtains l' xs' ks where "ssl_cipher_strength_sort uses_ok l = Some (uses_ok, l')" and "linked l' xs'"
    and "map (entry l') xs' = (if uses_ok then order_by ks else (\<lambda>es. es)) (map (entry l) xs)" and "sorted_wrt (>) ks"
    and "\<forall>c\<in>set (active_suites (map (entry l) xs)). cipher_bits c \<in> set ks"
proof -
  let ?ns = "map ((!) (chain_nodes l)) xs"
  have run: "chain_fold body (chain_head l) l acc = ofold body ?ns acc" for body acc
    using chain_fold_dll[of l None xs body acc] assms by (simp add: linked_def)
  obtain m where m: "ofold max_strength ?ns 0 = Some m" "\<forall>n\<in>set ?ns. co_active n \<longrightarrow> cipher_bits (co_cipher n) \<le> m"
    using ofold_strongest[of ?ns 0] by blast
  then have "\<forall>n\<in>set ?ns. co_active n \<longrightarrow> cipher_bits (co_cipher n) < length (replicate (m + 1) (0 :: nat))" by (auto simp: less_Suc_eq_le)
  then obtain u where u: "ofold count_use ?ns (replicate (m + 1) 0) = Some u" "\<forall>n\<in>set ?ns. co_active n \<longrightarrow> u ! cipher_bits (co_cipher n) > 0"
    using ofold_uses[of ?ns "replicate (m + 1) 0"] by blast
  define ks where "ks = filter (\<lambda>i. u ! i > 0) (rev [0..<m + 1])"
  obtain l' xs' where l': "strength_loop u (m + 1) l = Some l'" "linked l' xs'" "map (entry l') xs' = order_by ks (map (entry l) xs)"
    using strength_loop_linked[OF assms, of u "m + 1"] unfolding ks_def by metis
  have "sorted_wrt (>) ks" by (simp add: ks_def sorted_wrt_filter sorted_wrt_rev del: upt_Suc)
  moreover have "cipher_bits c \<in> set ks" if "c \<in> set (active_suites (map (entry l) xs))" for c
    using that m(2) u(2) by (fastforce simp: ks_def active_suites_def entry_def less_Suc_eq_le simp del: upt_Suc)
  moreover have "ssl_cipher_strength_sort uses_ok l = Some (uses_ok, if uses_ok then l' else l)"
    using m(1) u(1) l'(1) by (simp add: ssl_cipher_strength_sort_def run del: replicate_Suc strength_loop.simps)
  ultimately show ?thesis
    using that[of "if uses_ok then l' else l" "if uses_ok then xs' else xs" ks] l'(2,3) assms by auto
qed

lemma filter_class: "j \<noteq> k \<Longrightarrow> filter (\<lambda>c. f c \<noteq> k \<and> f c = j) cs @ filter (\<lambda>c. f c = k \<and> f c = j) cs = filter (\<lambda>c. f c = j) cs"
  by (induction cs) auto

lemma active_suites_order_by:
  "distinct ks \<Longrightarrow> active_suites (order_by ks es) =
     filter (\<lambda>c. cipher_bits c \<notin> set ks) (active_suites es) @ concat (map (\<lambda>k. filter (\<lambda>c. cipher_bits c = k) (active_suites es)) ks)"
proof (induction ks arbitrary: es)
  case Nil
  then show ?case by (simp add: order_by_def)
next
  case (Cons k ks)
  let ?es = "rule_spec CIPHER_ORD False (\<lambda>c. cipher_bits c = k) es"
  have "active_suites (order_by (k # ks) es) = active_suites (order_by ks ?es)" by (simp add: order_by_def)
  also have "\<dots> = filter (\<lambda>c. cipher_bits c \<notin> set ks) (active_suites ?es) @ concat (map (\<lambda>j. filter (\<lambda>c. cipher_bits c = j) (active_suites ?es)) ks)"
    using Cons by simp
  also have "map (\<lambda>j. filter (\<lambda>c. cipher_bits c = j) (active_suites ?es)) ks = map (\<lambda>j. filter (\<lambda>c. cipher_bits c = j) (active_suites es)) ks"
    using Cons.prems by (auto simp: active_suites_rule_spec intro!: filter_class)
  also have "filter (\<lambda>c. cipher_bits c \<notin> set ks) (active_suites ?es) =
      filter (\<lambda>c. cipher_bits c \<notin> set (k # ks)) (active_suites es) @ filter (\<lambda>c. cipher_bits c = k) (active_suites es)"
    using Cons.prems by (auto simp: active_suites_rule_spec intro!: filter_cong)
  finally show ?case by simp
qed

lemma concat_classes:
  "distinct ks \<Longrightarrow> filter (\<lambda>c. f c = a) (concat (map (\<lambda>k. filter (\<lambda>c. f c = k) cs) ks)) = (if a \<in> set ks then filter (\<lambda>c. f c = a) cs else [])"
proof (induction ks)
  case (Cons k ks)
  have "filter (\<lambda>c. f c = a) (filter (\<lambda>c. f c = k) cs) = (if a = k then filter (\<lambda>c. f c = a) cs else [])"
    by (induction cs) auto
  then show ?case using Cons by simp
qed simp

lemma mset_classes:
  "distinct ks \<Longrightarrow> mset (concat (map (\<lambda>k. filter (\<lambda>c. f c = k) cs) ks)) = filter_mset (\<lambda>c. f c \<in> set ks) (mset cs)"
  by (induction ks) (auto simp: multiset_eq_iff)

lemma sorted_classes:
  "sorted_wrt (>) ks \<Longrightarrow> sorted (map (\<lambda>c. - int (f c)) (concat (map (\<lambda>k. filter (\<lambda>c. f c = k) cs) ks)))"
proof (induction ks)
  case (Cons k ks)
  have "sorted (map (\<lambda>c. - int (f c)) (filter (\<lambda>c. f c = k) cs))" by (induction cs) auto
  then show ?case using Cons by (auto simp: sorted_append)
qed simp

lemma sort_key_classes:
  assumes "sorted_wrt (>) ks" and "\<And>c. c \<in> set cs \<Longrightarrow> f c \<in> set ks"
  shows "sort_key (\<lambda>c. - int (f c)) cs = concat (map (\<lambda>k. filter (\<lambda>c. f c = k) cs) ks)"
proof (rule properties_for_sort_key)
  have d: "distinct ks" using assms(1) by (induction ks) auto
  have "filter_mset (\<lambda>c. f c \<in> set ks) (mset cs) = mset cs" using assms(2) by (simp add: filter_mset_eq_conv)
  then show "mset (concat (map (\<lambda>k. filter (\<lambda>c. f c = k) cs) ks)) = mset cs" by (simp only: mset_classes[OF d])
  show "filter (\<lambda>x. - int (f k) = - int (f x)) (concat (map (\<lambda>k. filter (\<lambda>c. f c = k) cs) ks)) = filter (\<lambda>x. - int (f k) = - int (f x)) cs"
    if "k \<in> set (concat (map (\<lambda>k. filter (\<lambda>c. f c = k) cs) ks))" for k
    using concat_classes[OF d, of f "f k" cs] that by (simp add: eq_commute) 
  show "sorted (map (\<lambda>c. - int (f c)) (concat (map (\<lambda>k. filter (\<lambda>c. f c = k) cs) ks)))" by (rule sorted_classes[OF assms(1)])
qed

lemma inactive_suites_order_by: "inactive_suites (order_by ks es) = inactive_suites es"
  by (induction ks arbitrary: es) (simp_all add: order_by_def inactive_suites_rule_spec)

text \<open>
  (C0) \<open>@STRENGTH\<close> sorts the enabled ciphers by decreasing strength, keeping the order of those of equal strength, and leaves the
  disabled ones as they are; the sort ends, uses no null pointer and no index beyond its array.
\<close>
theorem strength_sort_stable:
  assumes "linked l xs"
  shows "\<exists>l' xs'. ssl_cipher_strength_sort True l = Some (True, l') \<and> linked l' xs' \<and>
    active_suites (map (entry l') xs') = sort_key (\<lambda>c. - int (fst (SSL_CIPHER_get_bits (Some c)))) (active_suites (map (entry l) xs)) \<and>
    inactive_suites (map (entry l') xs') = inactive_suites (map (entry l) xs)"
proof -
  obtain l' xs' ks where s: "ssl_cipher_strength_sort True l = Some (True, l')" "linked l' xs'"
    "map (entry l') xs' = (if True then order_by ks else (\<lambda>es. es)) (map (entry l) xs)" "sorted_wrt (>) ks"
    "\<forall>c\<in>set (active_suites (map (entry l) xs)). cipher_bits c \<in> set ks"
    by (rule strength_sort_linked[OF assms, where uses_ok = True])
  have "distinct ks" using s(4) by (induction ks) auto
  moreover have "filter (\<lambda>c. cipher_bits c \<notin> set ks) (active_suites (map (entry l) xs)) = []" using s(5) by (simp add: filter_empty_conv)
  ultimately have "active_suites (order_by ks (map (entry l) xs)) = sort_key (\<lambda>c. - int (cipher_bits c)) (active_suites (map (entry l) xs))"
    using sort_key_classes[OF s(4), of _ cipher_bits] s(5) by (simp add: active_suites_order_by)
  then show ?thesis using s(1-3) inactive_suites_order_by[of ks] by auto
qed

theorem strength_sort_stable_witness:
  "\<exists>l1 xs1 l' xs'. ssl_cipher_apply_rule 0 (Some \<lparr>alias_name = ''ALL'', alias_mkey = - 1, alias_auth = - 1, alias_enc = - 1, alias_mac = - 1,
       min_version = 0, include_deprecated = True\<rparr>) CIPHER_ADD (- 1) False (co_list_init two_suites) = Some l1 \<and> linked l1 xs1 \<and>
     active_suites (map (entry l1) xs1) = [kCiphers ! 3, kCiphers ! 4] \<and>
     ssl_cipher_strength_sort True l1 = Some (True, l') \<and> linked l' xs' \<and> active_suites (map (entry l') xs') = [kCiphers ! 4, kCiphers ! 3]"
proof -
  let ?all = "\<lparr>alias_name = ''ALL'', alias_mkey = - 1, alias_auth = - 1, alias_enc = - 1, alias_mac = - 1, min_version = 0, include_deprecated = True\<rparr> :: CIPHER_ALIAS"
  have sel: "alias_matches ?all (kCiphers ! 3)" "alias_matches ?all (kCiphers ! 4)" by code_simp+
  obtain l1 xs1 where l1: "ssl_cipher_apply_rule 0 (Some ?all) CIPHER_ADD (- 1) False (co_list_init two_suites) = Some l1" "linked l1 xs1"
    "map (entry l1) xs1 = rule_spec CIPHER_ADD False (alias_matches ?all) (map (entry (co_list_init two_suites)) [0..<length two_suites])"
    by (rule ssl_cipher_apply_rule_linked[OF co_list_init_linked, of 0 "Some ?all" "- 1" "alias_matches ?all"]) (simp add: rule_selects_def)
  have act: "active_suites (map (entry l1) xs1) = [kCiphers ! 3, kCiphers ! 4]"
    unfolding l1(3) active_suites_rule_spec co_list_init_entries by (simp add: two_suites_def sel)
  have "cipher_bits (kCiphers ! 3) = 128" "cipher_bits (kCiphers ! 4) = 256" by code_simp+
  then show ?thesis using strength_sort_stable[OF l1(2)] l1(1,2) act by auto
qed

end
