(* ===== verification/Cipher_Rules.thy ===== *)
theory Cipher_Rules
  imports Cipher_List
begin

text \<open>
  The cipher strings of \<open>ssl/ssl_cipher.cc\<close>: the aliases, \<open>ssl_cipher_process_rulestr\<close> and \<open>ssl_create_cipher_list\<close>. A pointer into a
  string is the rest of the string; reading at its end gives the terminating \<open>NUL\<close>. The result \<open>None\<close> is the use of a null pointer, which
  is shown not to happen; \<open>False\<close> is the failure the code returns. Which allocations succeed is an argument.
\<close>

subsection \<open>Aliases\<close>

abbreviation (input) "all_bits \<equiv> (- 1 :: uint32)"
abbreviation (input) "SSL_AES \<equiv> (SSL_AES128 OR SSL_AES256 OR SSL_AES128GCM OR SSL_AES256GCM :: uint32)"

definition CIPHER_ALIAS_entry :: "string \<Rightarrow> uint32 \<Rightarrow> uint32 \<Rightarrow> uint32 \<Rightarrow> uint32 \<Rightarrow> uint16 \<Rightarrow> bool \<Rightarrow> CIPHER_ALIAS" where
  "CIPHER_ALIAS_entry name mkey auth enc mac version deprecated =
     \<lparr>alias_name = name, alias_mkey = mkey, alias_auth = auth, alias_enc = enc, alias_mac = mac, min_version = version,
      include_deprecated = deprecated\<rparr>"

definition kCipherAliases :: "CIPHER_ALIAS list" where
  "kCipherAliases =
     [CIPHER_ALIAS_entry ''ALL'' all_bits all_bits all_bits all_bits 0 False,
      CIPHER_ALIAS_entry ''kRSA'' SSL_kRSA all_bits all_bits all_bits 0 False,
      CIPHER_ALIAS_entry ''kECDHE'' SSL_kECDHE all_bits all_bits all_bits 0 False,
      CIPHER_ALIAS_entry ''kEECDH'' SSL_kECDHE all_bits all_bits all_bits 0 False,
      CIPHER_ALIAS_entry ''ECDH'' SSL_kECDHE all_bits all_bits all_bits 0 False,
      CIPHER_ALIAS_entry ''kPSK'' SSL_kPSK all_bits all_bits all_bits 0 False,
      CIPHER_ALIAS_entry ''aRSA'' all_bits (SSL_aRSA_SIGN OR SSL_aRSA_DECRYPT) all_bits all_bits 0 False,
      CIPHER_ALIAS_entry ''aECDSA'' all_bits SSL_aECDSA all_bits all_bits 0 False,
      CIPHER_ALIAS_entry ''ECDSA'' all_bits SSL_aECDSA all_bits all_bits 0 False,
      CIPHER_ALIAS_entry ''aPSK'' all_bits SSL_aPSK all_bits all_bits 0 False,
      CIPHER_ALIAS_entry ''ECDHE'' SSL_kECDHE all_bits all_bits all_bits 0 False,
      CIPHER_ALIAS_entry ''EECDH'' SSL_kECDHE all_bits all_bits all_bits 0 False,
      CIPHER_ALIAS_entry ''RSA'' SSL_kRSA (SSL_aRSA_SIGN OR SSL_aRSA_DECRYPT) all_bits all_bits 0 False,
      CIPHER_ALIAS_entry ''PSK'' SSL_kPSK SSL_aPSK all_bits all_bits 0 False,
      CIPHER_ALIAS_entry ''3DES'' all_bits all_bits SSL_3DES all_bits 0 True,
      CIPHER_ALIAS_entry ''AES128'' all_bits all_bits (SSL_AES128 OR SSL_AES128GCM) all_bits 0 False,
      CIPHER_ALIAS_entry ''AES256'' all_bits all_bits (SSL_AES256 OR SSL_AES256GCM) all_bits 0 False,
      CIPHER_ALIAS_entry ''AES'' all_bits all_bits SSL_AES all_bits 0 False,
      CIPHER_ALIAS_entry ''AESGCM'' all_bits all_bits (SSL_AES128GCM OR SSL_AES256GCM) all_bits 0 False,
      CIPHER_ALIAS_entry ''CHACHA20'' all_bits all_bits SSL_CHACHA20POLY1305 all_bits 0 False,
      CIPHER_ALIAS_entry ''SHA1'' all_bits all_bits all_bits SSL_SHA1 0 False,
      CIPHER_ALIAS_entry ''SHA'' all_bits all_bits all_bits SSL_SHA1 0 False,
      CIPHER_ALIAS_entry ''SSLv3'' all_bits all_bits all_bits all_bits SSL3_VERSION False,
      CIPHER_ALIAS_entry ''TLSv1'' all_bits all_bits all_bits all_bits SSL3_VERSION False,
      CIPHER_ALIAS_entry ''TLSv1.2'' all_bits all_bits all_bits all_bits TLS1_2_VERSION False,
      CIPHER_ALIAS_entry ''HIGH'' all_bits all_bits all_bits all_bits 0 False,
      CIPHER_ALIAS_entry ''FIPS'' all_bits all_bits all_bits all_bits 0 False,
      CIPHER_ALIAS_entry ''SHA256'' 0 0 0 0 0 False,
      CIPHER_ALIAS_entry ''SHA384'' 0 0 0 0 0 False]"

subsection \<open>Reading a rule\<close>

definition char_at :: "string \<Rightarrow> char" where
  "char_at l = (case l of [] \<Rightarrow> CHR 0x00 | c # _ \<Rightarrow> c)"

definition OPENSSL_isalnum :: "char \<Rightarrow> bool" where
  "OPENSSL_isalnum c \<longleftrightarrow>
     (let n = of_char c :: nat in (48 \<le> n \<and> n \<le> 57) \<or> (97 \<le> n \<and> n \<le> 122) \<or> (65 \<le> n \<and> n \<le> 90))"

definition is_cipher_list_separator :: "char \<Rightarrow> bool \<Rightarrow> bool" where
  "is_cipher_list_separator c is_strict \<longleftrightarrow>
     c = CHR '':'' \<or> (\<not> is_strict \<and> (c = CHR '' '' \<or> c = CHR '';'' \<or> c = CHR '',''))"

definition rule_equals :: "string \<Rightarrow> string \<Rightarrow> bool" where
  "rule_equals rule wd \<longleftrightarrow> take (length wd) rule = wd \<and> drop (length wd) rule = []"

definition word_char :: "char \<Rightarrow> bool" where
  "word_char ch \<longleftrightarrow> OPENSSL_isalnum ch \<or> ch = CHR ''-'' \<or> ch = CHR ''.'' \<or> ch = CHR ''_''"

text \<open>The selection collected so far: \<open>cipher_id\<close>, \<open>alias\<close>, \<open>skip_rule\<close>.\<close>

record selection =
  sel_cipher_id :: uint32
  sel_alias :: CIPHER_ALIAS
  skip_rule :: bool

definition no_selection :: "cipher_rule \<Rightarrow> selection" where
  "no_selection rule =
     \<lparr>sel_cipher_id = 0, sel_alias = CIPHER_ALIAS_entry [] all_bits all_bits all_bits all_bits 0 (rule \<noteq> CIPHER_ADD), skip_rule = False\<rparr>"

definition merge_alias :: "CIPHER_ALIAS \<Rightarrow> selection \<Rightarrow> selection" where
  "merge_alias a sel =
     (let al = sel_alias sel;
          al1 = al\<lparr>alias_mkey := alias_mkey al AND alias_mkey a, alias_auth := alias_auth al AND alias_auth a,
                   alias_enc := alias_enc al AND alias_enc a, alias_mac := alias_mac al AND alias_mac a,
                   include_deprecated := include_deprecated al \<or> include_deprecated a\<rparr>
      in if min_version al1 \<noteq> 0 \<and> min_version al1 \<noteq> min_version a then sel\<lparr>sel_alias := al1, skip_rule := True\<rparr>
         else sel\<lparr>sel_alias := al1\<lparr>min_version := min_version a\<rparr>\<rparr>)"

text \<open>One word of a rule; \<open>ch\<close> is the character after it. Nothing is returned for an unknown word in strict mode.\<close>

definition select_word :: "bool \<Rightarrow> bool \<Rightarrow> char \<Rightarrow> string \<Rightarrow> selection \<Rightarrow> selection option" where
  "select_word strict multi ch wd sel =
     (let exact = (if \<not> multi \<and> ch \<noteq> CHR ''+''
                   then find (\<lambda>cipher. rule_equals (suite_name cipher) wd \<or> rule_equals (standard_name cipher) wd) kCiphers else None);
          sel1 = (case exact of None \<Rightarrow> sel | Some cipher \<Rightarrow> sel\<lparr>sel_cipher_id := suite_id cipher\<rparr>)
      in if sel_cipher_id sel1 = 0 then
           (case find (\<lambda>a. rule_equals (alias_name a) wd) kCipherAliases of
              Some a \<Rightarrow> Some (merge_alias a sel1)
            | None \<Rightarrow> if strict then None else Some (sel1\<lparr>skip_rule := True\<rparr>))
         else Some sel1)"

text \<open>The words of a rule up to the one not followed by \<open>+\<close>: the rest of the string, the last word and the selection.\<close>

function parse_rule :: "cipher_rule \<Rightarrow> bool \<Rightarrow> bool \<Rightarrow> selection \<Rightarrow> string \<Rightarrow> (string \<times> string \<times> selection) option" where
  "parse_rule rule strict multi sel l =
     (let wd = takeWhile word_char l; l1 = dropWhile word_char l; ch = char_at l1 in
      if wd = [] then None
      else if rule = CIPHER_SPECIAL then Some (l1, wd, sel)
      else (case select_word strict multi ch wd sel of
              None \<Rightarrow> None
            | Some sel1 \<Rightarrow> if ch \<noteq> CHR ''+'' then Some (l1, wd, sel1) else parse_rule rule strict True sel1 (drop 1 l1)))"
  by pat_completeness auto
termination
proof (relation "measure (\<lambda>(_, _, _, _, l). length l)", simp, clarsimp)
  fix l :: string
  assume "char_at (dropWhile word_char l) = CHR ''+''"
  then show "length (dropWhile word_char l) - Suc 0 < length l"
    using length_dropWhile_le[of word_char l] by (cases "dropWhile word_char l") (auto simp: char_at_def)
qed

declare parse_rule.simps [simp del]

lemma parse_rule_shorter: "parse_rule rule strict multi sel l = Some (l', wd, sel') \<Longrightarrow> length l' < length l"
proof (induction rule strict multi sel l rule: parse_rule.induct)
  case (1 rule strict multi sel l)
  let ?l1 = "dropWhile word_char l"
  have le: "takeWhile word_char l \<noteq> [] \<Longrightarrow> length ?l1 < length l" by (cases l) (auto simp: length_dropWhile_le less_Suc_eq_le split: if_splits)
  show ?case using "1.prems" "1.IH"[OF refl refl refl] le
    by (subst (asm) parse_rule.simps) (fastforce simp: Let_def split: if_splits option.splits)
qed

subsection \<open>Processing a string\<close>

text \<open>The state of the loop; allocations are named by the place that makes them.\<close>

record rule_state =
  rs_in_group :: bool
  rs_has_group :: bool
  rs_rest :: string
  rs_chain :: cipher_chain

datatype alloc_site = Number_uses nat | Cipher_stack | In_group_flags | Stack_push nat | Preference_list | Flags_copy

definition rule_operator :: "string \<Rightarrow> cipher_rule \<times> string" where
  "rule_operator l =
     (let ch = char_at l in
      if ch = CHR ''-'' then (CIPHER_DEL, drop 1 l)
      else if ch = CHR ''+'' then (CIPHER_ORD, drop 1 l)
      else if ch = CHR ''!'' then (CIPHER_KILL, drop 1 l)
      else if ch = CHR ''@'' then (CIPHER_SPECIAL, drop 1 l)
      else (CIPHER_ADD, l))"

text \<open>The part of the loop that applies a rule: the value to return, or the state to continue with.\<close>

definition rule_step :: "(alloc_site \<Rightarrow> bool) \<Rightarrow> bool \<Rightarrow> cipher_rule \<Rightarrow> string \<Rightarrow> rule_state \<Rightarrow> (bool \<times> cipher_chain + rule_state) option" where
  "rule_step alloc strict rule l rs =
     (if rs_has_group rs \<and> rule \<noteq> CIPHER_ADD then Some (Inl (False, rs_chain rs))
      else if is_cipher_list_separator (char_at (rs_rest rs)) strict then Some (Inr (rs\<lparr>rs_rest := drop 1 l\<rparr>))
      else (case parse_rule rule strict False (no_selection rule) l of
         None \<Rightarrow> Some (Inl (False, rs_chain rs))
       | Some (l1, wd, sel) \<Rightarrow>
           if rule = CIPHER_SPECIAL then
             if wd \<noteq> ''STRENGTH'' then Some (Inl (False, rs_chain rs))
             else do {
               (ok, chain) \<leftarrow> ssl_cipher_strength_sort (alloc (Number_uses (length l))) (rs_chain rs);
               Some (if \<not> ok then Inl (False, chain)
                     else Inr (rs\<lparr>rs_rest := dropWhile (\<lambda>c. \<not> is_cipher_list_separator c strict) l1, rs_chain := chain\<rparr>))
             }
           else do {
             chain \<leftarrow> (if skip_rule sel then Some (rs_chain rs)
                       else ssl_cipher_apply_rule (sel_cipher_id sel) (Some (sel_alias sel)) rule (- 1) (rs_in_group rs) (rs_chain rs));
             Some (Inr (rs\<lparr>rs_rest := l1, rs_chain := chain\<rparr>))
           }))"

text \<open>One round of the loop.\<close>

definition process_step :: "(alloc_site \<Rightarrow> bool) \<Rightarrow> bool \<Rightarrow> rule_state \<Rightarrow> (bool \<times> cipher_chain + rule_state) option" where
  "process_step alloc strict rs =
     (let l = rs_rest rs; ch = char_at l in
      if l = [] then Some (Inl (\<not> rs_in_group rs, rs_chain rs))
      else if rs_in_group rs then
        if ch = CHR '']'' then do {
          chain \<leftarrow> (if chain_tail (rs_chain rs) \<noteq> None
                    then update_node (chain_tail (rs_chain rs)) (\<lambda>n. n\<lparr>co_in_group := False\<rparr>) (rs_chain rs) else Some (rs_chain rs));
          Some (Inr (rs\<lparr>rs_in_group := False, rs_rest := drop 1 l, rs_chain := chain\<rparr>))
        }
        else if ch = CHR ''|'' then Some (Inr (rs\<lparr>rs_rest := drop 1 l\<rparr>))
        else if \<not> OPENSSL_isalnum ch then Some (Inl (False, rs_chain rs))
        else rule_step alloc strict CIPHER_ADD l rs
      else if ch = CHR ''['' then Some (Inr (rs\<lparr>rs_in_group := True, rs_has_group := True, rs_rest := drop 1 l\<rparr>))
      else rule_step alloc strict (fst (rule_operator l)) (snd (rule_operator l)) rs)"

lemma rule_operator_shorter: "length (snd (rule_operator l)) \<le> length l"
  by (simp add: rule_operator_def Let_def)

lemma dropWhile_less: "length xs < n \<Longrightarrow> length (dropWhile P xs) < n"
  by (rule le_less_trans[OF length_dropWhile_le])

lemma rule_step_shorter:
  assumes "rule_step alloc strict rule l rs = Some (Inr rs')" and "rs_rest rs \<noteq> []" and "length l \<le> length (rs_rest rs)"
  shows "length (rs_rest rs') < length (rs_rest rs)"
proof -
  have "length l - Suc 0 < length (rs_rest rs)" using assms(2,3) by (cases "rs_rest rs") auto
  then show ?thesis using assms
    by (auto simp: rule_step_def dest!: parse_rule_shorter split: if_splits option.splits bind_splits intro!: dropWhile_less)
qed

lemma process_step_shorter: "process_step alloc strict rs = Some (Inr rs') \<Longrightarrow> length (rs_rest rs') < length (rs_rest rs)"
  using rule_operator_shorter[of "rs_rest rs"]
  by (auto simp: process_step_def Let_def dest: rule_step_shorter split: if_splits bind_splits)

function process_loop :: "(alloc_site \<Rightarrow> bool) \<Rightarrow> bool \<Rightarrow> rule_state \<Rightarrow> (bool \<times> cipher_chain) option" where
  "process_loop alloc strict rs =
     (case process_step alloc strict rs of
        None \<Rightarrow> None
      | Some (Inl result) \<Rightarrow> Some result
      | Some (Inr rs1) \<Rightarrow> process_loop alloc strict rs1)"
  by pat_completeness auto
termination by (relation "measure (\<lambda>(_, _, rs). length (rs_rest rs))") (auto intro: process_step_shorter)

declare process_loop.simps [simp del]

definition ssl_cipher_process_rulestr :: "(alloc_site \<Rightarrow> bool) \<Rightarrow> string \<Rightarrow> cipher_chain \<Rightarrow> bool \<Rightarrow> (bool \<times> cipher_chain) option" where
  "ssl_cipher_process_rulestr alloc rule_str l strict =
     process_loop alloc strict \<lparr>rs_in_group = False, rs_has_group = False, rs_rest = rule_str, rs_chain = l\<rparr>"

subsection \<open>Creating a list\<close>

definition kAESCiphers :: "uint16 list" where
  "kAESCiphers = map ucast
     [TLS1_CK_ECDHE_ECDSA_WITH_AES_128_GCM_SHA256, TLS1_CK_ECDHE_RSA_WITH_AES_128_GCM_SHA256,
      TLS1_CK_ECDHE_ECDSA_WITH_AES_256_GCM_SHA384, TLS1_CK_ECDHE_RSA_WITH_AES_256_GCM_SHA384]"

definition kChaChaCiphers :: "uint16 list" where
  "kChaChaCiphers = map ucast
     [TLS1_CK_ECDHE_ECDSA_WITH_CHACHA20_POLY1305_SHA256, TLS1_CK_ECDHE_RSA_WITH_CHACHA20_POLY1305_SHA256,
      TLS1_CK_ECDHE_PSK_WITH_CHACHA20_POLY1305_SHA256]"

definition kLegacyCiphers :: "uint16 list" where
  "kLegacyCiphers = map ucast
     [TLS1_CK_ECDHE_ECDSA_WITH_AES_128_CBC_SHA, TLS1_CK_ECDHE_RSA_WITH_AES_128_CBC_SHA, TLS1_CK_ECDHE_PSK_WITH_AES_128_CBC_SHA,
      TLS1_CK_ECDHE_ECDSA_WITH_AES_256_CBC_SHA, TLS1_CK_ECDHE_RSA_WITH_AES_256_CBC_SHA, TLS1_CK_ECDHE_PSK_WITH_AES_256_CBC_SHA,
      TLS1_CK_ECDHE_RSA_WITH_AES_128_CBC_SHA256, TLS1_CK_RSA_WITH_AES_128_GCM_SHA256, TLS1_CK_RSA_WITH_AES_256_GCM_SHA384,
      TLS1_CK_RSA_WITH_AES_128_SHA, TLS1_CK_PSK_WITH_AES_128_CBC_SHA, TLS1_CK_RSA_WITH_AES_256_SHA,
      TLS1_CK_PSK_WITH_AES_256_CBC_SHA, SSL3_CK_RSA_DES_192_CBC3_SHA]"

definition default_order :: "bool \<Rightarrow> uint16 list" where
  "default_order has_aes_hw =
     (if has_aes_hw then kAESCiphers else []) @ kChaChaCiphers @ (if \<not> has_aes_hw then kAESCiphers else []) @ kLegacyCiphers"

record SSLCipherPreferenceList =
  pl_ciphers :: "cipher_suite list"
  in_group_flags :: "bool list"

definition SSLCipherPreferenceList_Init :: "bool \<Rightarrow> cipher_suite list \<Rightarrow> bool list \<Rightarrow> SSLCipherPreferenceList option" where
  "SSLCipherPreferenceList_Init copy_ok ciphers flags =
     (if length ciphers \<noteq> length flags then None
      else if \<not> copy_ok then None
      else Some \<lparr>pl_ciphers = ciphers, in_group_flags = flags\<rparr>)"

text \<open>The copy of another list; the array of flags may be longer than the stack after a removal.\<close>

definition SSLCipherPreferenceList_Init_copy :: "bool \<Rightarrow> bool \<Rightarrow> SSLCipherPreferenceList \<Rightarrow> SSLCipherPreferenceList option" where
  "SSLCipherPreferenceList_Init_copy dup_ok copy_ok other =
     (if \<not> dup_ok then None
      else SSLCipherPreferenceList_Init copy_ok (pl_ciphers other) (take (length (pl_ciphers other)) (in_group_flags other)))"

text \<open>The body of the loop that collects the active ciphers; the inner \<open>None\<close> is a push that failed, the outer one an index beyond the array of flags.\<close>

definition collect_active ::
  "(alloc_site \<Rightarrow> bool) \<Rightarrow> CIPHER_ORDER \<Rightarrow> (cipher_suite list \<times> bool list) option \<Rightarrow> (cipher_suite list \<times> bool list) option option" where
  "collect_active alloc cur acc =
     (case acc of
        None \<Rightarrow> Some None
      | Some (ciphers, flags) \<Rightarrow>
          if \<not> co_active cur then Some acc
          else if \<not> alloc (Stack_push (length ciphers)) then Some None
          else if length flags < length kCiphers then Some (Some (ciphers @ [co_cipher cur], flags @ [co_in_group cur]))
          else None)"

abbreviation (input) "SSL_DEFAULT_CIPHER_LIST \<equiv> ''ALL''"

text \<open>\<open>rule_str\<close> is \<open>None\<close> for a null pointer; the result is the value returned and, if it is set, \<open>*out_cipher_list\<close>.\<close>

definition ssl_create_cipher_list ::
  "(alloc_site \<Rightarrow> bool) \<Rightarrow> bool \<Rightarrow> string option \<Rightarrow> bool \<Rightarrow> (bool \<times> SSLCipherPreferenceList option) option" where
  "ssl_create_cipher_list alloc has_aes_hw rule_str_p strict =
     (case rule_str_p of
        None \<Rightarrow> Some (False, None)
      | Some rule_str \<Rightarrow> do {
          ciphers \<leftarrow> those (map SSL_get_cipher_by_value (default_order has_aes_hw));
          let l0 = co_list_init ciphers;
          (ok1, l1, rule_p) \<leftarrow>
            (if take 7 rule_str = ''DEFAULT'' then do {
               (ok, l) \<leftarrow> ssl_cipher_process_rulestr alloc SSL_DEFAULT_CIPHER_LIST l0 strict;
               let p = drop 7 rule_str;
               Some (ok, l, if char_at p = CHR '':'' then drop 1 p else p)
             } else Some (True, l0, rule_str));
          if \<not> ok1 then Some (False, None)
          else do {
            (ok2, l2) \<leftarrow> (if rule_p \<noteq> [] then ssl_cipher_process_rulestr alloc rule_p l1 strict else Some (True, l1));
            if \<not> ok2 \<or> \<not> alloc Cipher_stack \<or> \<not> alloc In_group_flags then Some (False, None)
            else do {
              collected \<leftarrow> chain_fold (collect_active alloc) (chain_head l2) l2 (Some ([], []));
              case collected of
                None \<Rightarrow> Some (False, None)
              | Some (cipherstack, flags) \<Rightarrow>
                  if \<not> alloc Preference_list then Some (False, None)
                  else (case SSLCipherPreferenceList_Init (alloc Flags_copy) cipherstack flags of
                          None \<Rightarrow> Some (False, None)
                        | Some pref_list \<Rightarrow> Some (pl_ciphers pref_list \<noteq> [], Some pref_list))
            }
          }
        })"

subsection \<open>The state of the list between rules\<close>

text \<open>
  Disabled ciphers come before enabled ones, none is there twice and all come from the initial list; without groups no cipher is marked as in
  a group, and outside a group the last one is not.
\<close>

definition entries_ok :: "cipher_suite set \<Rightarrow> entry list \<Rightarrow> bool" where
  "entries_ok D es \<longleftrightarrow> sorted (map (\<lambda>e. fst (snd e)) es) \<and> distinct (map fst es) \<and> fst ` set es \<subseteq> D"

definition groups_ok :: "bool \<Rightarrow> bool \<Rightarrow> entry list \<Rightarrow> bool" where
  "groups_ok in_group has_group es \<longleftrightarrow>
     (\<not> has_group \<longrightarrow> \<not> in_group \<and> list_all (\<lambda>e. \<not> snd (snd e)) es) \<and> (\<not> in_group \<longrightarrow> es \<noteq> [] \<longrightarrow> \<not> snd (snd (last es)))"

lemma becomes_active: "acts rule P e \<Longrightarrow> rule \<noteq> CIPHER_KILL \<Longrightarrow> fst (snd (becomes rule g e)) = (rule \<noteq> CIPHER_DEL)"
  by (cases "(rule, P, e)" rule: acts.cases) auto

lemma sorted_const: "\<forall>x\<in>set xs. f x = b \<Longrightarrow> sorted (map f xs)"
  by (induction xs) auto

lemma entries_ok_rule_spec:
  assumes "entries_ok D es"
  shows "entries_ok D (rule_spec rule g P es)"
proof -
  let ?kept = "filter (\<lambda>e. \<not> acts rule P e) es" and ?moved = "map (becomes rule g) (filter (acts rule P) es)"
  have sorted: "sorted (map (\<lambda>e. fst (snd e)) ?kept)" using assms by (simp add: entries_ok_def sorted_filter)
  have set: "fst ` set ?kept \<subseteq> D" "fst ` set ?moved \<subseteq> D" using assms by (auto simp: entries_ok_def image_image)
  have dist: "distinct (map fst ?kept)" using assms by (simp add: entries_ok_def distinct_map_filter)
  have "mset (map fst (?kept @ ?moved)) = mset (map fst es)"
    by (simp add: comp_def mset_filter flip: image_mset_union)
  then have "distinct (map fst (?kept @ ?moved))" using mset_eq_imp_distinct_iff assms unfolding entries_ok_def by blast
  moreover have act: "\<forall>e\<in>set ?moved. fst (snd e) = (rule \<noteq> CIPHER_DEL)" if "rule \<noteq> CIPHER_KILL" using that becomes_active by auto
  moreover have "sorted (map (\<lambda>e. fst (snd e)) ?moved)" if "rule \<noteq> CIPHER_KILL" by (rule sorted_const[OF act[OF that]])
  ultimately show ?thesis using sorted set dist
    by (cases rule) (simp_all add: entries_ok_def rule_spec_def Let_def sorted_append image_Un Int_commute)
qed

lemma groups_ok_rule_spec:
  assumes "groups_ok in_group has_group es" and "rule = CIPHER_ADD \<or> \<not> has_group"
  shows "groups_ok in_group has_group (rule_spec rule in_group P es)"
proof (cases "has_group")
  case True
  let ?kept = "filter (\<lambda>e. \<not> acts CIPHER_ADD P e) es" and ?moved = "map (becomes CIPHER_ADD in_group) (filter (acts CIPHER_ADD P) es)"
  have "snd (snd (becomes CIPHER_ADD g e)) = g" for g e by (cases e) auto
  then have "snd (snd (last ?moved)) = in_group" if "?moved \<noteq> []" using last_in_set[OF that] by auto
  moreover have "?kept = es" if "?moved = []" using that by (auto simp: filter_empty_conv intro: filter_True)
  ultimately show ?thesis using assms True by (cases "?moved = []") (auto simp: groups_ok_def rule_spec_def last_append)
next
  case False
  then have flags: "\<not> in_group" "list_all (\<lambda>e. \<not> snd (snd e)) es" using assms(1) by (auto simp: groups_ok_def)
  have "\<not> snd (snd (becomes rule in_group e))" if "\<not> snd (snd e)" for e
    using that flags(1) by (cases "(rule, in_group, e)" rule: becomes.cases) auto
  then have "list_all (\<lambda>e. \<not> snd (snd e)) (rule_spec rule in_group P es)"
    using flags(2) by (cases rule) (auto simp: rule_spec_def list_all_iff Let_def)
  then show ?thesis using False flags(1) by (auto simp: groups_ok_def list_all_iff)
qed

lemma order_by_ok:
  "entries_ok D es \<Longrightarrow> groups_ok False False es \<Longrightarrow> entries_ok D (order_by ks es) \<and> groups_ok False False (order_by ks es)"
  by (induction ks arbitrary: es) (simp_all add: order_by_def entries_ok_rule_spec groups_ok_rule_spec)

text \<open>The end of a group.\<close>

lemma close_group_ok:
  assumes "linked l xs" and "entries_ok D (map (entry l) xs)" and "groups_ok in_group True (map (entry l) xs)"
  obtains l' where "(if chain_tail l \<noteq> None then update_node (chain_tail l) (\<lambda>n. n\<lparr>co_in_group := False\<rparr>) l else Some l) = Some l'" and "linked l' xs"
    and "entries_ok D (map (entry l') xs)" and "groups_ok False True (map (entry l') xs)"
proof (cases xs rule: rev_cases)
  case Nil
  then show ?thesis using assms by (intro that[of l]) (auto simp: linked_def groups_ok_def)
next
  case (snoc ys y)
  then have t: "chain_tail l = Some y" and y: "y \<notin> set ys" using assms(1) by (auto simp: linked_def)
  obtain l' where l': "update_node (Some y) (\<lambda>n. n\<lparr>co_in_group := False\<rparr>) l = Some l'" "linked l' xs"
    "entry l' = (entry l)(y := (co_cipher (chain_nodes l ! y), co_active (chain_nodes l ! y), False))"
    by (rule update_node_linked[OF assms(1), of y "\<lambda>n. n\<lparr>co_in_group := False\<rparr>"]) (use snoc in auto)
  moreover have "entries_ok D (map (entry l') xs)"
    using assms(2) snoc y l'(3) by (simp add: entries_ok_def entry_at[of l y] sorted_append)
  moreover have "groups_ok False True (map (entry l') xs)" using snoc l'(3) by (simp add: groups_ok_def)
  ultimately show ?thesis using t by (intro that) auto
qed

subsection \<open>The loop keeps the state\<close>

definition rules_ok :: "cipher_suite set \<Rightarrow> rule_state \<Rightarrow> bool" where
  "rules_ok D rs \<longleftrightarrow> (\<exists>xs. linked (rs_chain rs) xs \<and> entries_ok D (map (entry (rs_chain rs)) xs) \<and>
     groups_ok (rs_in_group rs) (rs_has_group rs) (map (entry (rs_chain rs)) xs))"

definition list_ok :: "cipher_suite set \<Rightarrow> cipher_chain \<Rightarrow> bool" where
  "list_ok D l \<longleftrightarrow> (\<exists>xs. linked l xs \<and> entries_ok D (map (entry l) xs) \<and> (xs \<noteq> [] \<longrightarrow> \<not> snd (snd (entry l (last xs)))))"

lemma rules_ok_list: "rules_ok D rs \<Longrightarrow> \<not> rs_in_group rs \<Longrightarrow> list_ok D (rs_chain rs)"
  by (auto simp: rules_ok_def list_ok_def groups_ok_def last_map)

definition step_ok :: "cipher_suite set \<Rightarrow> (bool \<times> cipher_chain + rule_state) option \<Rightarrow> bool" where
  "step_ok D r \<longleftrightarrow> (case r of
      None \<Rightarrow> False
    | Some (Inl (ok, l)) \<Rightarrow> ok \<longrightarrow> list_ok D l
    | Some (Inr rs) \<Rightarrow> rules_ok D rs)"

lemma rule_step_ok:
  assumes "rules_ok D rs"
  shows "step_ok D (rule_step alloc strict rule l rs)"
proof (cases "rs_has_group rs \<and> rule \<noteq> CIPHER_ADD \<or> is_cipher_list_separator (char_at (rs_rest rs)) strict \<or> parse_rule rule strict False (no_selection rule) l = None")
  case True
  then show ?thesis using assms by (auto simp: rule_step_def step_ok_def rules_ok_def split: option.split)
next
  case False
  then obtain l1 wd sel where p: "parse_rule rule strict False (no_selection rule) l = Some (l1, wd, sel)"
    and g: "rule = CIPHER_ADD \<or> \<not> rs_has_group rs" and sep: "\<not> is_cipher_list_separator (char_at (rs_rest rs)) strict" by auto
  obtain xs where xs: "linked (rs_chain rs) xs" "entries_ok D (map (entry (rs_chain rs)) xs)"
    "groups_ok (rs_in_group rs) (rs_has_group rs) (map (entry (rs_chain rs)) xs)" using assms by (auto simp: rules_ok_def)
  show ?thesis
  proof (cases "rule = CIPHER_SPECIAL")
    case True
    have no: "\<not> rs_has_group rs" "\<not> rs_in_group rs" using g True xs(3) by (auto simp: groups_ok_def)
    let ?ok = "alloc (Number_uses (length l))"
    obtain l' xs' ks where s: "ssl_cipher_strength_sort ?ok (rs_chain rs) = Some (?ok, l')" "linked l' xs'"
      "map (entry l') xs' = (if ?ok then order_by ks else (\<lambda>es. es)) (map (entry (rs_chain rs)) xs)"
      by (rule strength_sort_linked[OF xs(1)])
    have "entries_ok D (map (entry l') xs') \<and> groups_ok False False (map (entry l') xs')"
      unfolding s(3) using order_by_ok xs(2,3) no by auto
    then show ?thesis using True p sep no s(1,2) by (auto simp: rule_step_def step_ok_def rules_ok_def)
  next
    case False
    define P where "P c = (if sel_cipher_id sel \<noteq> 0 then sel_cipher_id sel = suite_id c else alias_matches (sel_alias sel) c)" for c
    have P: "rule_selects (sel_cipher_id sel) (Some (sel_alias sel)) (- 1) c = Some (P c)" for c by (simp add: rule_selects_def P_def)
    obtain l' xs' where a: "ssl_cipher_apply_rule (sel_cipher_id sel) (Some (sel_alias sel)) rule (- 1) (rs_in_group rs) (rs_chain rs) = Some l'" "linked l' xs'"
      "map (entry l') xs' = rule_spec rule (rs_in_group rs) P (map (entry (rs_chain rs)) xs)"
      by (rule ssl_cipher_apply_rule_linked[OF xs(1) P])
    have "entries_ok D (map (entry l') xs') \<and> groups_ok (rs_in_group rs) (rs_has_group rs) (map (entry l') xs')"
      unfolding a(3) using entries_ok_rule_spec[OF xs(2)] groups_ok_rule_spec[OF xs(3) g] by blast
    then show ?thesis using False p sep g a(1,2) assms by (auto simp: rule_step_def step_ok_def rules_ok_def)
  qed
qed

lemma process_step_ok:
  assumes "rules_ok D rs"
  shows "step_ok D (process_step alloc strict rs)"
proof (cases "rs_in_group rs \<and> rs_rest rs \<noteq> [] \<and> char_at (rs_rest rs) = CHR '']''")
  case True
  obtain xs where xs: "linked (rs_chain rs) xs" "entries_ok D (map (entry (rs_chain rs)) xs)" "groups_ok True True (map (entry (rs_chain rs)) xs)"
    "rs_has_group rs" using assms True by (auto simp: rules_ok_def groups_ok_def)
  obtain l' where "(if chain_tail (rs_chain rs) \<noteq> None then update_node (chain_tail (rs_chain rs)) (\<lambda>n. n\<lparr>co_in_group := False\<rparr>) (rs_chain rs)
      else Some (rs_chain rs)) = Some l'" "linked l' xs" "entries_ok D (map (entry l') xs)" "groups_ok False True (map (entry l') xs)"
    by (rule close_group_ok[OF xs(1-3)])
  then show ?thesis using True xs(4) by (auto simp: process_step_def Let_def step_ok_def rules_ok_def)
next
  case False
  have "rules_ok D (rs\<lparr>rs_in_group := True, rs_has_group := True, rs_rest := l\<rparr>)" "rules_ok D (rs\<lparr>rs_rest := l\<rparr>)" for l
    using assms by (auto simp: rules_ok_def groups_ok_def)
  then show ?thesis using False assms rule_step_ok[OF assms] rules_ok_list[OF assms]
    by (auto simp: process_step_def Let_def step_ok_def[of _ "Some _"])
qed

lemma process_loop_ok:
  assumes "rules_ok D rs"
  shows "\<exists>ok l. process_loop alloc strict rs = Some (ok, l) \<and> (ok \<longrightarrow> list_ok D l)"
  using assms
proof (induction alloc strict rs rule: process_loop.induct)
  case (1 alloc strict rs)
  have ok: "step_ok D (process_step alloc strict rs)" using process_step_ok[OF "1.prems"] .
  then consider (stop) ok l where "process_step alloc strict rs = Some (Inl (ok, l))" "ok \<longrightarrow> list_ok D l"
    | (more) rs1 where "process_step alloc strict rs = Some (Inr rs1)" "rules_ok D rs1"
    by (auto simp: step_ok_def split: option.splits sum.splits)
  then show ?case
  proof cases
    case stop
    then show ?thesis by (simp add: process_loop.simps[of alloc strict rs])
  next
    case more
    then show ?thesis using "1.IH"[OF more(1) refl more(2)] by (simp add: process_loop.simps[of alloc strict rs])
  qed
qed

text \<open>A list without groups, before a string is processed.\<close>

definition ungrouped :: "cipher_suite set \<Rightarrow> cipher_chain \<Rightarrow> bool" where
  "ungrouped D l \<longleftrightarrow> (\<exists>xs. linked l xs \<and> entries_ok D (map (entry l) xs) \<and> list_all (\<lambda>e. \<not> snd (snd e)) (map (entry l) xs))"

lemma ssl_cipher_process_rulestr_ok:
  assumes "ungrouped D l"
  obtains ok l' where "ssl_cipher_process_rulestr alloc rule_str l strict = Some (ok, l')" and "ok \<longrightarrow> list_ok D l'"
proof -
  have "rules_ok D \<lparr>rs_in_group = False, rs_has_group = False, rs_rest = rule_str, rs_chain = l\<rparr>"
    using assms by (fastforce simp: rules_ok_def ungrouped_def groups_ok_def list_all_iff last_map)
  then show ?thesis using process_loop_ok that unfolding ssl_cipher_process_rulestr_def by blast
qed

definition alias_ALL :: CIPHER_ALIAS where
  "alias_ALL = CIPHER_ALIAS_entry [] all_bits all_bits all_bits all_bits 0 False"

lemma parse_ALL: "parse_rule CIPHER_ADD strict False (no_selection CIPHER_ADD) ''ALL'' =
    Some ([], ''ALL'', \<lparr>sel_cipher_id = 0, sel_alias = alias_ALL, skip_rule = False\<rparr>)"
  by (cases strict) code_simp+

lemma process_ALL:
  assumes "linked l xs"
  obtains l' xs' where "ssl_cipher_process_rulestr alloc ''ALL'' l strict = Some (True, l')" and "linked l' xs'"
    and "map (entry l') xs' = rule_spec CIPHER_ADD False (alias_matches alias_ALL) (map (entry l) xs)"
proof -
  obtain l' xs' where l': "ssl_cipher_apply_rule 0 (Some alias_ALL) CIPHER_ADD (- 1) False l = Some l'" "linked l' xs'"
    "map (entry l') xs' = rule_spec CIPHER_ADD False (alias_matches alias_ALL) (map (entry l) xs)"
    by (rule ssl_cipher_apply_rule_linked[OF assms, of 0 "Some alias_ALL" "- 1" "alias_matches alias_ALL"]) (simp add: rule_selects_def)
  let ?rs = "\<lambda>s c. \<lparr>rs_in_group = False, rs_has_group = False, rs_rest = s, rs_chain = c\<rparr>"
  have "process_step alloc strict (?rs ''ALL'' l) = Some (Inr (?rs [] l'))"
    using l'(1) by (simp add: process_step_def Let_def char_at_def rule_operator_def rule_step_def is_cipher_list_separator_def parse_ALL)
  moreover have "process_step alloc strict (?rs [] l') = Some (Inl (True, l'))" by (simp add: process_step_def Let_def)
  ultimately have "ssl_cipher_process_rulestr alloc ''ALL'' l strict = Some (True, l')"
    unfolding ssl_cipher_process_rulestr_def by (simp add: process_loop.simps[of alloc strict "?rs ''ALL'' l"] process_loop.simps[of alloc strict "?rs [] l'"])
  then show ?thesis using that l'(2,3) by blast
qed

lemma ungrouped_list: "ungrouped D l \<Longrightarrow> list_ok D l"
  by (fastforce simp: ungrouped_def list_ok_def list_all_iff)

lemma co_list_init_ungrouped:
  assumes "distinct cs" and "set cs \<subseteq> D"
  shows "ungrouped D (co_list_init cs)"
proof -
  have "sorted (map (\<lambda>e. fst (snd e)) (map (\<lambda>c :: cipher_suite. (c, False, False)) cs))" by (rule sorted_const) auto
  then have "entries_ok D (map (\<lambda>c. (c, False, False)) cs)" using assms by (simp add: entries_ok_def image_image comp_def)
  then show ?thesis using co_list_init_linked[of cs] co_list_init_entries[of cs]
    unfolding ungrouped_def by (intro exI[of _ "[0..<length cs]"]) (simp add: list_all_iff)
qed

lemma ungrouped_DEFAULT:
  assumes "ungrouped D l"
  obtains l' where "ssl_cipher_process_rulestr alloc ''ALL'' l strict = Some (True, l')" and "ungrouped D l'"
proof -
  obtain xs where xs: "linked l xs" "entries_ok D (map (entry l) xs)" "groups_ok False False (map (entry l) xs)"
    using assms by (fastforce simp: ungrouped_def groups_ok_def list_all_iff last_map)
  obtain l' xs' where l': "ssl_cipher_process_rulestr alloc ''ALL'' l strict = Some (True, l')" "linked l' xs'"
    "map (entry l') xs' = rule_spec CIPHER_ADD False (alias_matches alias_ALL) (map (entry l) xs)" by (rule process_ALL[OF xs(1)])
  have "entries_ok D (map (entry l') xs')" "groups_ok False False (map (entry l') xs')"
    unfolding l'(3) using entries_ok_rule_spec[OF xs(2)] groups_ok_rule_spec[OF xs(3)] by simp_all
  then show ?thesis using l'(1,2) by (intro that[of l']) (auto simp: ungrouped_def groups_ok_def)
qed

subsection \<open>The list created\<close>

lemma collect_active_fold:
  assumes "length flags = length cs" and "length cs + length (filter co_active ns) \<le> length kCiphers"
  shows "ofold (collect_active alloc) ns (Some (cs, flags)) = Some None \<or>
    ofold (collect_active alloc) ns (Some (cs, flags)) =
      Some (Some (cs @ map co_cipher (filter co_active ns), flags @ map co_in_group (filter co_active ns)))"
  using assms
proof (induction ns arbitrary: cs flags)
  case (Cons n ns)
  have none: "ofold (collect_active alloc) ns None = Some None" for ns by (induction ns) (simp_all add: collect_active_def)
  then show ?case using Cons.IH[of "flags @ [co_in_group n]" "cs @ [co_cipher n]"] Cons.IH[of flags cs] Cons.prems
    by (cases "co_active n") (simp_all add: collect_active_def[of alloc n])
qed simp

definition default_suites :: "bool \<Rightarrow> cipher_suite list" where
  "default_suites has_aes_hw = List.map_filter SSL_get_cipher_by_value (default_order has_aes_hw)"

lemma default_order_True: "default_order True =
    [0xc02b, 0xc02f, 0xc02c, 0xc030, 0xcca9, 0xcca8, 0xccac, 0xc009, 0xc013, 0xc035, 0xc00a, 0xc014, 0xc036, 0xc027,
     0x009c, 0x009d, 0x002f, 0x008c, 0x0035, 0x008d, 0x000a]"
  by code_simp

lemma default_order_False: "default_order False =
    [0xcca9, 0xcca8, 0xccac, 0xc02b, 0xc02f, 0xc02c, 0xc030, 0xc009, 0xc013, 0xc035, 0xc00a, 0xc014, 0xc036, 0xc027,
     0x009c, 0x009d, 0x002f, 0x008c, 0x0035, 0x008d, 0x000a]"
  by code_simp

lemma default_order_distinct: "distinct (default_order hw)"
proof -
  have "distinct (default_order True)" "distinct (default_order False)" unfolding default_order_True default_order_False by code_simp+
  then show ?thesis by (cases hw) simp_all
qed

lemma default_order_length: "length (default_order hw) = 21"
  by (cases hw) (simp_all add: default_order_True default_order_False)

lemma default_order_values:
  "set (default_order hw) = set (map SSL_CIPHER_get_protocol_id (filter (\<lambda>c. algorithm_mkey c \<noteq> SSL_kGENERIC) kCiphers))"
proof -
  have "set (default_order True) = set (map SSL_CIPHER_get_protocol_id (filter (\<lambda>c. algorithm_mkey c \<noteq> SSL_kGENERIC) kCiphers))"
    "set (default_order False) = set (map SSL_CIPHER_get_protocol_id (filter (\<lambda>c. algorithm_mkey c \<noteq> SSL_kGENERIC) kCiphers))"
    by code_simp+
  then show ?thesis by (cases hw) simp_all
qed

lemma default_order_known: "v \<in> set (default_order hw) \<longleftrightarrow> (\<exists>c. SSL_get_cipher_by_value v = Some c \<and> algorithm_mkey c \<noteq> SSL_kGENERIC)"
  by (force simp: default_order_values SSL_get_cipher_by_value_iff)

lemma those_map_filter: "\<forall>v\<in>set vs. f v \<noteq> None \<Longrightarrow> those (map f vs) = Some (List.map_filter f vs)"
  by (induction vs) (auto simp: map_filter_simps)

lemma default_suites_those: "those (map SSL_get_cipher_by_value (default_order hw)) = Some (default_suites hw)"
  unfolding default_suites_def by (rule those_map_filter) (auto simp: default_order_known)

lemma map_filter_inverse:
  "\<forall>v\<in>set vs. f v \<noteq> None \<Longrightarrow> (\<And>v c. f v = Some c \<Longrightarrow> g c = v) \<Longrightarrow> map g (List.map_filter f vs) = vs"
  by (induction vs) (auto simp: map_filter_simps)

lemma default_suites_ids: "map SSL_CIPHER_get_protocol_id (default_suites hw) = default_order hw"
  unfolding default_suites_def by (rule map_filter_inverse) (auto simp: default_order_known SSL_get_cipher_by_value_iff)

lemma default_suites_facts:
  "distinct (default_suites hw)" "length (default_suites hw) \<le> length kCiphers"
  "set (default_suites hw) = {c \<in> set kCiphers. algorithm_mkey c \<noteq> SSL_kGENERIC}"
proof -
  show "distinct (default_suites hw)" using default_order_distinct[of hw] unfolding default_suites_ids[symmetric] by (simp add: distinct_map)
  show "length (default_suites hw) \<le> length kCiphers"
    using default_order_length[of hw] arg_cong[OF default_suites_ids, of length hw] by (simp add: kCiphers_def)
  have "c \<in> set (default_suites hw) \<longleftrightarrow> (\<exists>v\<in>set (default_order hw). SSL_get_cipher_by_value v = Some c)" for c
    unfolding default_suites_def map_filter_def by force
  moreover have "v \<in> set (default_order hw) \<longleftrightarrow> algorithm_mkey c \<noteq> SSL_kGENERIC" if "SSL_get_cipher_by_value v = Some c" for v c
    using that unfolding default_order_known by simp
  ultimately have "c \<in> set (default_suites hw) \<longleftrightarrow> (\<exists>v. SSL_get_cipher_by_value v = Some c) \<and> algorithm_mkey c \<noteq> SSL_kGENERIC" for c
    by blast
  then show "set (default_suites hw) = {c \<in> set kCiphers. algorithm_mkey c \<noteq> SSL_kGENERIC}"
    by (auto simp: SSL_get_cipher_by_value_iff)
qed

lemma entry_nodes: "map (entry l) xs = map (\<lambda>n. (co_cipher n, co_active n, co_in_group n)) (map ((!) (chain_nodes l)) xs)"
  by (simp add: entry_def)

lemma last_active:
  assumes "sorted (map act ns)" and "ns \<noteq> [] \<longrightarrow> \<not> g (last ns)"
  shows "last (False # map g (filter act ns)) = False"
  using assms by (cases ns rule: rev_cases) (auto simp: sorted_append filter_empty_conv)

text \<open>What is collected from a list that the rules have left.\<close>

lemma create_collects:
  assumes "list_ok D l" and "finite D" and "card D \<le> length kCiphers"
  shows "chain_fold (collect_active alloc) (chain_head l) l (Some ([], [])) = Some None \<or>
    (\<exists>cs flags. chain_fold (collect_active alloc) (chain_head l) l (Some ([], [])) = Some (Some (cs, flags)) \<and>
       distinct cs \<and> set cs \<subseteq> D \<and> length flags = length cs \<and> last (False # flags) = False)"
proof -
  obtain xs where xs: "linked l xs" "entries_ok D (map (entry l) xs)" "xs \<noteq> [] \<longrightarrow> \<not> snd (snd (entry l (last xs)))"
    using assms(1) by (auto simp: list_ok_def)
  define ns where "ns = map ((!) (chain_nodes l)) xs"
  have run: "chain_fold (collect_active alloc) (chain_head l) l (Some ([], [])) = ofold (collect_active alloc) ns (Some ([], []))"
    using chain_fold_dll[of l None xs] xs(1) by (simp add: linked_def ns_def)
  have ns: "sorted (map co_active ns)" "distinct (map co_cipher ns)" "co_cipher ` set ns \<subseteq> D" "ns \<noteq> [] \<longrightarrow> \<not> co_in_group (last ns)"
    using xs(2,3) by (auto simp: entries_ok_def entry_nodes ns_def[symmetric] comp_def image_image) (auto simp: ns_def last_map entry_def)
  have "length (filter co_active ns) \<le> length (map co_cipher ns)" by simp
  also have "\<dots> = card (co_cipher ` set ns)" using distinct_card[OF ns(2)] by simp
  also have "\<dots> \<le> length kCiphers" using card_mono[OF assms(2) ns(3)] assms(3) by simp
  finally have "length (filter co_active ns) \<le> length kCiphers" .
  then consider "ofold (collect_active alloc) ns (Some ([], [])) = Some None"
    | "ofold (collect_active alloc) ns (Some ([], [])) = Some (Some (map co_cipher (filter co_active ns), map co_in_group (filter co_active ns)))"
    using collect_active_fold[of "[]" "[]" ns alloc] by auto
  then show ?thesis
  proof cases
    case 2
    moreover have "set (map co_cipher (filter co_active ns)) \<subseteq> D" using ns(3) by auto
    ultimately show ?thesis using run last_active[of co_active ns co_in_group, OF ns(1,4)] distinct_map_filter[OF ns(2), of co_active] by auto
  qed (simp add: run)
qed

lemma ssl_create_cipher_list_ok:
  "\<exists>ok out. ssl_create_cipher_list alloc has_aes_hw rule_str strict = Some (ok, out) \<and>
    (case out of
       None \<Rightarrow> \<not> ok
     | Some pl \<Rightarrow> (ok \<longleftrightarrow> pl_ciphers pl \<noteq> []) \<and> distinct (pl_ciphers pl) \<and>
         set (pl_ciphers pl) \<subseteq> {c \<in> set kCiphers. algorithm_mkey c \<noteq> SSL_kGENERIC} \<and>
         length (in_group_flags pl) = length (pl_ciphers pl) \<and> last (False # in_group_flags pl) = False)"
proof (cases rule_str)
  case None
  then show ?thesis by (auto simp: ssl_create_cipher_list_def)
next
  case (Some str)
  let ?D = "{c \<in> set kCiphers. algorithm_mkey c \<noteq> SSL_kGENERIC}" and ?l0 = "co_list_init (default_suites has_aes_hw)"
  have init: "ungrouped ?D ?l0" by (rule co_list_init_ungrouped) (simp_all add: default_suites_facts)
  have D: "finite ?D" "card ?D \<le> length kCiphers" by (simp, rule order_trans[OF card_mono[OF _ Collect_restrict] card_length]) simp
  obtain lA where lA: "ssl_cipher_process_rulestr alloc ''ALL'' ?l0 strict = Some (True, lA)" "ungrouped ?D lA" by (rule ungrouped_DEFAULT[OF init])
  obtain ok1 l1 p where first: "(if take 7 str = ''DEFAULT'' then do {
       (ok, l) \<leftarrow> ssl_cipher_process_rulestr alloc ''ALL'' ?l0 strict;
       let p = drop 7 str;
       Some (ok, l, if char_at p = CHR '':'' then drop 1 p else p) } else Some (True, ?l0, str)) = Some (ok1, l1, p)" and l1: "ungrouped ?D l1"
    using lA init by (cases "take 7 str = ''DEFAULT''") (auto simp: Let_def)
  obtain okB lB where lB: "ssl_cipher_process_rulestr alloc p l1 strict = Some (okB, lB)" "okB \<longrightarrow> list_ok ?D lB"
    by (rule ssl_cipher_process_rulestr_ok[OF l1])
  obtain ok2 l2 where second: "(if p \<noteq> [] then ssl_cipher_process_rulestr alloc p l1 strict else Some (True, l1)) = Some (ok2, l2)" and l2: "ok2 \<longrightarrow> list_ok ?D l2"
    using lB ungrouped_list[OF l1] by (cases "p = []") auto
  have run: "ssl_create_cipher_list alloc has_aes_hw rule_str strict =
    (if \<not> ok1 \<or> \<not> ok2 \<or> \<not> alloc Cipher_stack \<or> \<not> alloc In_group_flags then Some (False, None)
     else do {
       collected \<leftarrow> chain_fold (collect_active alloc) (chain_head l2) l2 (Some ([], []));
       case collected of
         None \<Rightarrow> Some (False, None)
       | Some (cipherstack, flags) \<Rightarrow>
           if \<not> alloc Preference_list then Some (False, None)
           else (case SSLCipherPreferenceList_Init (alloc Flags_copy) cipherstack flags of
                   None \<Rightarrow> Some (False, None)
                 | Some pref_list \<Rightarrow> Some (pl_ciphers pref_list \<noteq> [], Some pref_list)) })"
    unfolding ssl_create_cipher_list_def Some default_suites_those using first second by (simp add: Let_def)
  show ?thesis
  proof (cases "ok1 \<and> ok2 \<and> alloc Cipher_stack \<and> alloc In_group_flags")
    case True
    then show ?thesis using create_collects[of ?D l2 alloc] l2 D unfolding run
      by (auto simp: SSLCipherPreferenceList_Init_def)
  qed (auto simp: run)
qed

text \<open>
  (C10) Every cipher string gives a sound configuration or an error. Whatever the string, the separators allowed and the allocations that fail, the linked
  list is used without touching a null pointer and the code returns; the list it sets holds each cipher at most once, all of them ciphers
  of the table for TLS 1.2 or earlier, with one group flag per cipher of which the last is clear, so that every group has an end;
  and the call succeeds exactly if that list is set and not empty.
\<close>
theorem cipher_list_created:
  "\<exists>ok out. ssl_create_cipher_list alloc has_aes_hw rule_str strict = Some (ok, out) \<and>
    (case out of
       None \<Rightarrow> \<not> ok
     | Some pl \<Rightarrow> (ok \<longleftrightarrow> pl_ciphers pl \<noteq> []) \<and> distinct (pl_ciphers pl) \<and>
         set (pl_ciphers pl) \<subseteq> {c \<in> set kCiphers. algorithm_mkey c \<noteq> SSL_kGENERIC} \<and>
         length (in_group_flags pl) = length (pl_ciphers pl) \<and> last (False # in_group_flags pl) = False)"
  by (rule ssl_create_cipher_list_ok)

end
