(* ===== verification/Cipher_Choice.thy ===== *)
theory Cipher_Choice
  imports Cipher_Rules
begin

text \<open>
  The choice of a cipher suite of TLS 1.2 by a server: \<open>ssl_parse_client_cipher_list\<close> and \<open>choose_cipher\<close> of \<open>ssl/handshake_server.cc\<close>, over
  the list of \<open>ssl/ssl_cipher.cc\<close>, and \<open>SSLCipherPreferenceList::Remove\<close>. A stack of ciphers without a comparison function is the list
  of its elements.
\<close>

subsection \<open>The client's list\<close>

function parse_client_ciphers :: "(nat \<Rightarrow> bool) \<Rightarrow> cbs \<Rightarrow> cipher_suite list \<Rightarrow> cipher_suite list option" where
  "parse_client_ciphers push_ok cipher_suites sk =
     (if length cipher_suites > 0 then
        (case CBS_get_u16 cipher_suites of
           (None, _) \<Rightarrow> None
         | (Some cipher_suite, rest) \<Rightarrow>
             (case SSL_get_cipher_by_value cipher_suite of
                None \<Rightarrow> parse_client_ciphers push_ok rest sk
              | Some c \<Rightarrow> if \<not> push_ok (length sk) then None else parse_client_ciphers push_ok rest (sk @ [c])))
      else Some sk)"
  by pat_completeness auto
termination by (relation "measure (\<lambda>(_, cbs, _). length cbs)") (auto intro: CBS_get_u16_shrinks dest: sym)

declare parse_client_ciphers.simps [simp del]

definition ssl_parse_client_cipher_list :: "bool \<Rightarrow> (nat \<Rightarrow> bool) \<Rightarrow> cbs \<Rightarrow> cipher_suite list option" where
  "ssl_parse_client_cipher_list new_ok push_ok cipher_suites = (if \<not> new_ok then None else parse_client_ciphers push_ok cipher_suites [])"

subsection \<open>The choice\<close>

text \<open>Whether a cipher can be used with the version and the server's keys.\<close>

definition cipher_usable :: "uint16 \<Rightarrow> uint32 \<Rightarrow> uint32 \<Rightarrow> cipher_suite \<Rightarrow> bool" where
  "cipher_usable version mask_k mask_a c \<longleftrightarrow>
     SSL_CIPHER_get_min_version c \<le> version \<and> version \<le> SSL_CIPHER_get_max_version c \<and>
     algorithm_mkey c AND mask_k \<noteq> 0 \<and> algorithm_auth c AND mask_a \<noteq> 0"

text \<open>The loop over \<open>prio\<close>, whose elements carry their flag in \<open>in_group_flags\<close>, \<open>None\<close> if that is null.\<close>

fun choose_loop :: "(cipher_suite \<Rightarrow> bool) \<Rightarrow> (cipher_suite \<times> bool option) list \<Rightarrow> cipher_suite list \<Rightarrow> int \<Rightarrow> cipher_suite option" where
  "choose_loop fits [] allow group_min = None"
| "choose_loop fits ((c, flag) # prio) allow group_min =
     (case if fits c then scan (\<lambda>x. x = c) 0 allow else None of
        Some cipher_index \<Rightarrow>
          if flag = Some True then
            choose_loop fits prio allow (if group_min = - 1 \<or> nat group_min > cipher_index then int cipher_index else group_min)
          else Some (allow ! (if group_min \<noteq> - 1 \<and> nat group_min < cipher_index then nat group_min else cipher_index))
      | None \<Rightarrow>
          if flag = Some False \<and> group_min \<noteq> - 1 then Some (allow ! nat group_min)
          else choose_loop fits prio allow group_min)"

definition choose_cipher ::
  "bool \<Rightarrow> SSLCipherPreferenceList \<Rightarrow> cipher_suite list \<Rightarrow> uint16 \<Rightarrow> uint32 \<Rightarrow> uint32 \<Rightarrow> cipher_suite option" where
  "choose_cipher server_preference server_pref client_pref version mask_k mask_a =
     (if server_preference
      then choose_loop (cipher_usable version mask_k mask_a)
             (zip (pl_ciphers server_pref) (map Some (in_group_flags server_pref))) client_pref (- 1)
      else choose_loop (cipher_usable version mask_k mask_a) (map (\<lambda>c. (c, None)) client_pref) (pl_ciphers server_pref) (- 1))"

definition SSLCipherPreferenceList_Remove :: "cipher_suite \<Rightarrow> SSLCipherPreferenceList \<Rightarrow> SSLCipherPreferenceList" where
  "SSLCipherPreferenceList_Remove cipher pl =
     (case scan (\<lambda>x. x = cipher) 0 (pl_ciphers pl) of
        None \<Rightarrow> pl
      | Some index \<Rightarrow>
          let flags = in_group_flags pl;
              flags1 = (if \<not> flags ! index \<and> index > 0 then flags[index - 1 := False] else flags);
              flags2 = foldl (\<lambda>fs i. fs[i := fs ! (i + 1)]) flags1 [index..<length (pl_ciphers pl) - 1]
          in \<lparr>pl_ciphers = take index (pl_ciphers pl) @ drop (index + 1) (pl_ciphers pl), in_group_flags = flags2\<rparr>)"

subsection \<open>Groups of equal preference\<close>

text \<open>The groups a list of flags describes; \<open>acc\<close> is the group begun.\<close>

fun pref_groups :: "'a list \<Rightarrow> 'a list \<Rightarrow> bool list \<Rightarrow> 'a list list" where
  "pref_groups acc (c # cs) (f # fs) = (if f then pref_groups (acc @ [c]) cs fs else (acc @ [c]) # pref_groups [] cs fs)"
| "pref_groups acc _ _ = (if acc = [] then [] else [acc])"

lemma scan_None: "scan P k xs = None \<longleftrightarrow> (\<forall>x\<in>set xs. \<not> P x)"
  by (induction xs arbitrary: k) auto

lemma scan_bound: "scan P k xs = Some i \<Longrightarrow> k \<le> i"
  by (induction xs arbitrary: k) (auto split: if_splits dest: Suc_leD)

lemma scan_hit: "scan P k xs = Some i \<Longrightarrow> k \<le> i \<and> i - k < length xs \<and> P (xs ! (i - k))"
proof (induction xs arbitrary: k)
  case (Cons x xs)
  show ?case
  proof (cases "P x")
    case False
    then have "Suc k \<le> i \<and> i - Suc k < length xs \<and> P (xs ! (i - Suc k))" using Cons by simp
    moreover from this have "i - k = Suc (i - Suc k)" by arith
    ultimately show ?thesis by simp
  qed (use Cons.prems in auto)
qed simp

lemma scan_find: "find P xs = map_option ((!) xs) (scan P 0 xs)"
proof -
  have "find P xs = map_option (\<lambda>i. xs ! (i - k)) (scan P k xs)" for k
  proof (induction xs arbitrary: k)
    case (Cons x xs)
    have "map_option (\<lambda>i. (x # xs) ! (i - k)) (scan P (Suc k) xs) = map_option (\<lambda>i. xs ! (i - Suc k)) (scan P (Suc k) xs)"
      by (rule map_option_cong[OF refl]) (auto simp: nth_Cons' dest: scan_bound)
    then show ?case using Cons[of "Suc k"] by simp
  qed simp
  from this[of 0] show ?thesis by simp
qed

fun earlier :: "nat option \<Rightarrow> nat option \<Rightarrow> nat option" where
  "earlier (Some i) (Some j) = Some (min i j)"
| "earlier None j = j"
| "earlier i None = i"

lemma scan_disj: "scan (\<lambda>x. P x \<or> Q x) k xs = earlier (scan P k xs) (scan Q k xs)"
proof (induction xs arbitrary: k)
  case (Cons x xs)
  then show ?case using Cons[of "Suc k"]
    by (cases "scan P (Suc k) xs"; cases "scan Q (Suc k) xs") (auto simp: min_def dest: scan_bound)
qed simp

text \<open>The client's first choice in a set of ciphers, as a value of \<open>group_min\<close>.\<close>

definition best_index :: "(cipher_suite \<Rightarrow> bool) \<Rightarrow> cipher_suite list \<Rightarrow> cipher_suite list \<Rightarrow> nat option" where
  "best_index fits allow g = scan (\<lambda>x. fits x \<and> x \<in> set g) 0 allow"

definition as_min :: "nat option \<Rightarrow> int" where
  "as_min i = (case i of None \<Rightarrow> - 1 | Some j \<Rightarrow> int j)"

lemma best_index_snoc: "best_index fits allow (g @ [c]) = earlier (best_index fits allow g) (if fits c then scan (\<lambda>x. x = c) 0 allow else None)"
proof -
  have "scan (\<lambda>x. fits x \<and> x = c) 0 allow = (if fits c then scan (\<lambda>x. x = c) 0 allow else None)"
    by (cases "fits c") (auto simp: scan_None intro!: arg_cong[of _ _ "\<lambda>P. scan P 0 allow"])
  moreover have "(\<lambda>x. fits x \<and> x \<in> set (g @ [c])) = (\<lambda>x. (fits x \<and> x \<in> set g) \<or> (fits x \<and> x = c))" by auto
  ultimately show ?thesis by (simp only: best_index_def scan_disj)
qed

fun choose_group :: "(cipher_suite \<Rightarrow> bool) \<Rightarrow> cipher_suite list \<Rightarrow> cipher_suite list list \<Rightarrow> cipher_suite option" where
  "choose_group fits allow [] = None"
| "choose_group fits allow (g # gs) = (case best_index fits allow g of None \<Rightarrow> choose_group fits allow gs | Some i \<Rightarrow> Some (allow ! i))"

lemma choose_loop_groups:
  assumes "length fs = length cs" and "cs = [] \<longrightarrow> acc = []" and "last (False # fs) = False"
  shows "choose_loop fits (zip cs (map Some fs)) allow (as_min (best_index fits allow acc)) = choose_group fits allow (pref_groups acc cs fs)"
  using assms
proof (induction cs arbitrary: fs acc)
  case (Cons c cs)
  obtain f fs' where fs: "fs = f # fs'" "length fs' = length cs" using Cons.prems(1) by (cases fs) auto
  have step: "choose_loop fits (zip cs (map Some fs')) allow (as_min (best_index fits allow acc')) = choose_group fits allow (pref_groups acc' cs fs')"
    if "cs = [] \<longrightarrow> acc' = []" for acc'
    using Cons.IH[OF fs(2) that] Cons.prems(3) fs by (cases fs') auto
  let ?i = "if fits c then scan (\<lambda>x. x = c) 0 allow else None"
  show ?case
  proof (cases f)
    case True
    then have ne: "cs \<noteq> []" using Cons.prems(3) fs by (cases cs) auto
    have "as_min (best_index fits allow (acc @ [c])) =
        (case ?i of None \<Rightarrow> as_min (best_index fits allow acc)
         | Some i \<Rightarrow> if as_min (best_index fits allow acc) = - 1 \<or> nat (as_min (best_index fits allow acc)) > i then int i else as_min (best_index fits allow acc))"
      unfolding best_index_snoc by (cases "best_index fits allow acc"; cases ?i) (auto simp: as_min_def)
    then show ?thesis using step[of "acc @ [c]"] ne True fs by (cases ?i) auto
  next
    case False
    have "best_index fits allow [] = None" by (simp add: best_index_def scan_None)
    then have empty: "as_min (best_index fits allow []) = - 1" by (simp add: as_min_def)
    show ?thesis using step[of "[]"] empty False fs best_index_snoc[of fits allow acc c]
      by (cases "best_index fits allow acc"; cases ?i) (auto simp: as_min_def min_def)
  qed
qed (simp add: best_index_def)

lemma choose_group_first:
  "choose_group fits allow gs =
     (case find (\<lambda>g. \<exists>c\<in>set g. fits c \<and> c \<in> set allow) gs of None \<Rightarrow> None | Some g \<Rightarrow> find (\<lambda>c. fits c \<and> c \<in> set g) allow)"
proof (induction gs)
  case (Cons g gs)
  have "best_index fits allow g = None \<longleftrightarrow> \<not> (\<exists>c\<in>set g. fits c \<and> c \<in> set allow)" by (auto simp: best_index_def scan_None)
  moreover have "find (\<lambda>c. fits c \<and> c \<in> set g) allow = map_option ((!) allow) (best_index fits allow g)" by (simp add: scan_find best_index_def)
  ultimately show ?case using Cons by (cases "best_index fits allow g") auto
qed simp

lemma choose_loop_plain:
  "choose_loop fits (map (\<lambda>c. (c, None)) client) allow (- 1) = find (\<lambda>c. fits c \<and> c \<in> set allow) client"
proof (induction client)
  case (Cons c client)
  have "allow ! i = c" if "scan (\<lambda>x. x = c) 0 allow = Some i" for i
    using that scan_find[of "\<lambda>x. x = c" allow] by (auto simp: find_Some_iff)
  moreover have "scan (\<lambda>x. x = c) 0 allow = None \<longleftrightarrow> c \<notin> set allow" by (auto simp: scan_None)
  ultimately show ?case using Cons by (auto split: option.split)
qed simp

lemma concat_pref_groups: "length fs = length cs \<Longrightarrow> concat (pref_groups acc cs fs) = acc @ cs"
  by (induction acc cs fs rule: pref_groups.induct) auto

lemma parse_client_ciphers_step:
  "parse_client_ciphers push_ok (suite_bytes (v # ids)) sk =
     (case SSL_get_cipher_by_value v of
        None \<Rightarrow> parse_client_ciphers push_ok (suite_bytes ids) sk
      | Some c \<Rightarrow> if \<not> push_ok (length sk) then None else parse_client_ciphers push_ok (suite_bytes ids) (sk @ [c]))"
proof -
  have "CBS_get_u16 (suite_bytes (v # ids)) = (Some v, suite_bytes ids)" "length (suite_bytes (v # ids)) > 0" by (simp_all add: suite_bytes_def u16.dec_enc)
  then show ?thesis by (subst parse_client_ciphers.simps) simp
qed

lemma parse_client_ciphers_known:
  "parse_client_ciphers push_ok (suite_bytes ids) sk = Some client \<Longrightarrow> client = sk @ List.map_filter SSL_get_cipher_by_value ids"
proof (induction ids arbitrary: sk)
  case (Cons v ids)
  from Cons.prems show ?case
    by (auto simp: parse_client_ciphers_step map_filter_simps dest!: Cons.IH split: option.splits if_splits)
qed (simp add: parse_client_ciphers.simps suite_bytes_def map_filter_simps)

lemma parse_client_ciphers_all:
  "parse_client_ciphers (\<lambda>_. True) (suite_bytes ids) sk = Some (sk @ List.map_filter SSL_get_cipher_by_value ids)"
proof (induction ids arbitrary: sk)
  case (Cons v ids)
  then show ?case by (simp add: parse_client_ciphers_step map_filter_simps split: option.split)
qed (simp add: parse_client_ciphers.simps suite_bytes_def map_filter_simps)

text \<open>
  (C11) A server's choice of a cipher. With a list made from any cipher string and what a client offers, which is the known ciphers among the values it sent: if the server's preference counts, the cipher chosen
  is from the first group that has a cipher which the client offers and which fits the version and the keys, and in that group the one
  the client prefers; otherwise it is the first such cipher of the client's list that the server allows. None is chosen exactly if
  there is none.
\<close>
theorem server_chooses_cipher:
  assumes "ssl_create_cipher_list alloc has_aes_hw rule_str strict = Some (ok, Some pl)"
    and "ssl_parse_client_cipher_list new_ok push_ok (suite_bytes ids) = Some client"
  shows "(let fits = cipher_usable version mask_k mask_a; groups = pref_groups [] (pl_ciphers pl) (in_group_flags pl) in
    client = List.map_filter SSL_get_cipher_by_value ids \<and> concat groups = pl_ciphers pl \<and>
    choose_cipher True pl client version mask_k mask_a =
      (case find (\<lambda>g. \<exists>c\<in>set g. fits c \<and> c \<in> set client) groups of None \<Rightarrow> None | Some g \<Rightarrow> find (\<lambda>c. fits c \<and> c \<in> set g) client) \<and>
    choose_cipher False pl client version mask_k mask_a = find (\<lambda>c. fits c \<and> c \<in> set (pl_ciphers pl)) client)"
proof -
  have fs: "length (in_group_flags pl) = length (pl_ciphers pl)" "last (False # in_group_flags pl) = False"
    using ssl_create_cipher_list_ok[of alloc has_aes_hw rule_str strict] assms(1) by auto
  have client: "client = List.map_filter SSL_get_cipher_by_value ids"
    using parse_client_ciphers_known[of push_ok ids "[]" client] assms(2) by (simp add: ssl_parse_client_cipher_list_def split: if_splits)
  have "best_index (cipher_usable version mask_k mask_a) client [] = None" by (simp add: best_index_def scan_None)
  note loop = choose_loop_groups[of "in_group_flags pl" "pl_ciphers pl" "[]" "cipher_usable version mask_k mask_a" client, unfolded this as_min_def, simplified]
  show ?thesis unfolding Let_def
    by (intro conjI client) (use loop fs in \<open>simp_all add: choose_cipher_def choose_group_first choose_loop_plain concat_pref_groups\<close>)
qed

text \<open>A server that prefers one of two ciphers with AES-256, but lets the client choose between them.\<close>

theorem server_chooses_cipher_witness:
  "choose_cipher True \<lparr>pl_ciphers = [kCiphers ! 4, kCiphers ! 2, kCiphers ! 3], in_group_flags = [True, False, False]\<rparr>
     [kCiphers ! 3, kCiphers ! 2, kCiphers ! 4] TLS1_2_VERSION (SSL_kRSA OR SSL_kPSK) (SSL_aRSA_DECRYPT OR SSL_aPSK) = Some (kCiphers ! 2)"
proof -
  let ?pl = "\<lparr>pl_ciphers = [kCiphers ! 4, kCiphers ! 2, kCiphers ! 3], in_group_flags = [True, False, False]\<rparr>"
  have "ssl_create_cipher_list (\<lambda>_. True) True (Some ''[PSK-AES256-CBC-SHA|AES256-SHA]:PSK-AES128-CBC-SHA'') True = Some (True, Some ?pl)" by code_simp
  moreover have "ssl_parse_client_cipher_list True (\<lambda>_. True) (suite_bytes [0x008c, 0xffff, 0x0035, 0x008d]) = Some [kCiphers ! 3, kCiphers ! 2, kCiphers ! 4]"
    unfolding ssl_parse_client_cipher_list_def parse_client_ciphers_all by code_simp
  ultimately have choice: "choose_cipher True ?pl [kCiphers ! 3, kCiphers ! 2, kCiphers ! 4] TLS1_2_VERSION (SSL_kRSA OR SSL_kPSK) (SSL_aRSA_DECRYPT OR SSL_aPSK) =
      (case find (\<lambda>g. \<exists>c\<in>set g. cipher_usable TLS1_2_VERSION (SSL_kRSA OR SSL_kPSK) (SSL_aRSA_DECRYPT OR SSL_aPSK) c \<and>
           c \<in> set [kCiphers ! 3, kCiphers ! 2, kCiphers ! 4]) (pref_groups [] (pl_ciphers ?pl) (in_group_flags ?pl)) of
         None \<Rightarrow> None | Some g \<Rightarrow> find (\<lambda>c. cipher_usable TLS1_2_VERSION (SSL_kRSA OR SSL_kPSK) (SSL_aRSA_DECRYPT OR SSL_aPSK) c \<and> c \<in> set g)
           [kCiphers ! 3, kCiphers ! 2, kCiphers ! 4])"
    by (rule server_chooses_cipher[unfolded Let_def, THEN conjunct2, THEN conjunct2, THEN conjunct1])
  have groups: "pref_groups [] (pl_ciphers ?pl) (in_group_flags ?pl) = [[kCiphers ! 4, kCiphers ! 2], [kCiphers ! 3]]" by simp
  have "find (\<lambda>g. \<exists>c\<in>set g. cipher_usable TLS1_2_VERSION (SSL_kRSA OR SSL_kPSK) (SSL_aRSA_DECRYPT OR SSL_aPSK) c \<and> c \<in> set [kCiphers ! 3, kCiphers ! 2, kCiphers ! 4])
      [[kCiphers ! 4, kCiphers ! 2], [kCiphers ! 3]] = Some [kCiphers ! 4, kCiphers ! 2]" by code_simp
  moreover have "find (\<lambda>c. cipher_usable TLS1_2_VERSION (SSL_kRSA OR SSL_kPSK) (SSL_aRSA_DECRYPT OR SSL_aPSK) c \<and> c \<in> set [kCiphers ! 4, kCiphers ! 2])
      [kCiphers ! 3, kCiphers ! 2, kCiphers ! 4] = Some (kCiphers ! 2)" by code_simp
  ultimately show ?thesis using choice by (simp only: groups option.case)
qed

subsection \<open>Removing a cipher\<close>

lemma shift_left:
  "foldl (\<lambda>fs i. fs[i := fs ! (i + 1)]) (fa @ f # fb) [length fa..<length fa + length fb] = fa @ fb @ [last (f # fb)]"
proof (induction fb arbitrary: fa f)
  case (Cons g fb)
  have "[length fa..<length fa + length (g # fb)] = length fa # [length (fa @ [g])..<length (fa @ [g]) + length fb]" by (simp add: upt_rec)
  moreover have "(fa @ f # g # fb)[length fa := (fa @ f # g # fb) ! (length fa + 1)] = (fa @ [g]) @ g # fb" by (simp add: nth_append)
  ultimately show ?case using Cons[of "fa @ [g]" g] by simp
qed simp

lemma pref_groups_longer: "length fs = length cs \<Longrightarrow> pref_groups acc cs (fs @ gs) = pref_groups acc cs fs"
  by (induction acc cs fs rule: pref_groups.induct) auto

definition without :: "'a \<Rightarrow> 'a list list \<Rightarrow> 'a list list" where
  "without c gs = filter (\<lambda>g. g \<noteq> []) (map (filter (\<lambda>x. x \<noteq> c)) gs)"

lemma without_simps [simp]: "without c [] = []" "without c (g # gs) = (let g' = filter (\<lambda>x. x \<noteq> c) g in if g' = [] then without c gs else g' # without c gs)"
  by (simp_all add: without_def Let_def)

lemma without_pref_groups:
  "c \<notin> set cs \<Longrightarrow> without c (pref_groups acc cs fs) = pref_groups (filter (\<lambda>x. x \<noteq> c) acc) cs fs"
proof (induction acc cs fs rule: pref_groups.induct)
  case (1 acc d cs f fs)
  then show ?case by (auto simp: Let_def)
qed (auto simp: Let_def)

lemma remove_from_groups:
  assumes "c \<notin> set acc" and "c \<notin> set as" and "c \<notin> set bs" and "length fa = length as" and "as = [] \<longrightarrow> acc = []"
  shows "pref_groups acc (as @ bs) ((if \<not> f \<and> fa \<noteq> [] then fa[length fa - 1 := False] else fa) @ fb) =
    without c (pref_groups acc (as @ c # bs) (fa @ f # fb))"
  using assms
proof (induction as arbitrary: acc fa)
  case Nil
  then show ?case using without_pref_groups[of c bs "[c]" fb] without_pref_groups[of c bs "[]" fb] by (simp add: Let_def)
next
  case (Cons a as)
  obtain g fa' where fa: "fa = g # fa'" "length fa' = length as" using Cons.prems(4) by (cases fa) auto
  have keep: "filter (\<lambda>x. x \<noteq> c) acc = acc" "a \<noteq> c" using Cons.prems by (auto intro: filter_True)
  show ?case
  proof (cases "as = []")
    case True
    then show ?thesis using fa keep without_pref_groups[OF Cons.prems(3)] by (cases g; cases f) (auto simp: Let_def)
  next
    case False
    then have ne: "fa' \<noteq> []" using fa by auto
    then have upd: "(if \<not> f \<and> fa \<noteq> [] then fa[length fa - 1 := False] else fa) = g # (if \<not> f \<and> fa' \<noteq> [] then fa'[length fa' - 1 := False] else fa')"
      using fa(1) by (cases fa') auto
    show ?thesis unfolding upd using Cons.IH[of "acc @ [a]" fa'] Cons.IH[of "[]" fa'] Cons.prems False fa keep
      by (cases g) (auto simp: Let_def)
  qed
qed

text \<open>
  (C26) Removing a cipher from a preference list leaves the groups of equal preference as they are, without the cipher: a group that
  held only it disappears, and no other two ciphers change their order or come to share a group.
\<close>
theorem remove_keeps_groups:
  assumes "distinct (pl_ciphers pl)" and "length (in_group_flags pl) = length (pl_ciphers pl)"
  shows "(let pl' = SSLCipherPreferenceList_Remove cipher pl in
    pref_groups [] (pl_ciphers pl') (in_group_flags pl') =
      filter (\<lambda>g. g \<noteq> []) (map (filter (\<lambda>c. c \<noteq> cipher)) (pref_groups [] (pl_ciphers pl) (in_group_flags pl))))"
proof (cases "scan (\<lambda>x. x = cipher) 0 (pl_ciphers pl)")
  case None
  then have "cipher \<notin> set (pl_ciphers pl)" by (auto simp: scan_None)
  then show ?thesis using None without_pref_groups[of cipher "pl_ciphers pl" "[]" "in_group_flags pl"]
    by (simp add: SSLCipherPreferenceList_Remove_def without_def)
next
  case (Some i)
  then have i: "i < length (pl_ciphers pl)" "pl_ciphers pl ! i = cipher" using scan_hit[OF Some] by simp_all
  define as bs where "as = take i (pl_ciphers pl)" and "bs = drop (i + 1) (pl_ciphers pl)"
  define fa fb f where "fa = take i (in_group_flags pl)" and "fb = drop (i + 1) (in_group_flags pl)" and "f = in_group_flags pl ! i"
  have cs: "pl_ciphers pl = as @ cipher # bs" and fs: "in_group_flags pl = fa @ f # fb"
    using i assms(2) id_take_nth_drop by (auto simp: as_def bs_def fa_def fb_def f_def id_take_nth_drop)
  have len: "length fa = length as" "length as = i" "length fb = length bs" using i assms(2) by (simp_all add: as_def bs_def fa_def fb_def)
  define fa' where "fa' = (if \<not> f \<and> fa \<noteq> [] then fa[length fa - 1 := False] else fa)"
  have len': "length fa' = i" using len by (simp add: fa'_def)
  have "(if \<not> in_group_flags pl ! i \<and> i > 0 then (in_group_flags pl)[i - 1 := False] else in_group_flags pl) = fa' @ f # fb"
    using len fs by (auto simp: fa'_def f_def[symmetric] list_update_append)
  moreover have "length (pl_ciphers pl) - 1 = length fa' + length fb" using cs len len' by simp
  ultimately have "SSLCipherPreferenceList_Remove cipher pl = \<lparr>pl_ciphers = as @ bs, in_group_flags = fa' @ fb @ [last (f # fb)]\<rparr>"
    using shift_left[of fa' f fb] len' by (simp add: SSLCipherPreferenceList_Remove_def Some Let_def as_def bs_def)
  moreover have "pref_groups [] (as @ bs) ((fa' @ fb) @ [last (f # fb)]) = pref_groups [] (as @ bs) (fa' @ fb)"
    by (rule pref_groups_longer) (use len len' in simp)
  moreover have "pref_groups [] (as @ bs) (fa' @ fb) = without cipher (pref_groups [] (as @ cipher # bs) (fa @ f # fb))"
    unfolding fa'_def by (rule remove_from_groups) (use assms(1) cs len in auto)
  ultimately show ?thesis using cs fs by (simp add: without_def)
qed

theorem remove_keeps_groups_witness:
  "(let pl = \<lparr>pl_ciphers = [kCiphers ! 4, kCiphers ! 2, kCiphers ! 3], in_group_flags = [True, False, False]\<rparr>; pl' = SSLCipherPreferenceList_Remove (kCiphers ! 2) pl in
    pref_groups [] (pl_ciphers pl') (in_group_flags pl') =
      filter (\<lambda>g. g \<noteq> []) (map (filter (\<lambda>c. c \<noteq> kCiphers ! 2)) (pref_groups [] (pl_ciphers pl) (in_group_flags pl))))"
proof -
  have "distinct [kCiphers ! 4, kCiphers ! 2, kCiphers ! 3]" by code_simp
  then show ?thesis
    using remove_keeps_groups[of "\<lparr>pl_ciphers = [kCiphers ! 4, kCiphers ! 2, kCiphers ! 3], in_group_flags = [True, False, False]\<rparr>" "kCiphers ! 2"]
    by (simp add: Let_def)
qed

end
