(* ===== verification/Cipher_Selectors.thy ===== *)
theory Cipher_Selectors
  imports Cipher_Rules
begin

text \<open>
  What a selector of cipher aliases joined by \<open>+\<close> means, for every sequence of aliases of the table in \<open>ssl/ssl_cipher.cc\<close>: the intersection of its rules,
  as \<open>openssl/ssl.h\<close> documents, unless an alias for a protocol version is followed by an alias that does not name the same version.
\<close>

subsection \<open>Selectors and their meaning\<close>

fun selector :: "CIPHER_ALIAS list \<Rightarrow> string" where
  "selector [] = []"
| "selector [a] = alias_name a"
| "selector (a # b # as) = alias_name a @ ''+'' @ selector (b # as)"

text \<open>A rule matches a cipher, apart from its being deprecated; deprecated ciphers have to be named by a rule.\<close>

definition rule_matches :: "CIPHER_ALIAS \<Rightarrow> cipher_suite \<Rightarrow> bool" where
  "rule_matches a c = alias_matches (a\<lparr>include_deprecated := True\<rparr>) c"

definition intersection :: "CIPHER_ALIAS list \<Rightarrow> cipher_suite \<Rightarrow> bool" where
  "intersection as c \<longleftrightarrow> list_all (\<lambda>a. rule_matches a c) as \<and> (ssl_cipher_is_deprecated c \<longrightarrow> list_ex include_deprecated as)"

text \<open>An alias for a version is followed by one that does not name the same version.\<close>

fun version_lost :: "CIPHER_ALIAS list \<Rightarrow> bool" where
  "version_lost [] = False"
| "version_lost (a # as) = ((min_version a \<noteq> 0 \<and> list_ex (\<lambda>b. min_version b \<noteq> min_version a) as) \<or> version_lost as)"

subsection \<open>Merging aliases\<close>

definition first_version :: "CIPHER_ALIAS list \<Rightarrow> uint16" where
  "first_version as = (case filter (\<lambda>v. v \<noteq> 0) (map min_version as) of [] \<Rightarrow> 0 | v # _ \<Rightarrow> v)"

lemma first_version_snoc: "first_version (as @ [a]) = (if first_version as = 0 then min_version a else first_version as)"
proof (cases "filter (\<lambda>v. v \<noteq> 0) (map min_version as)")
  case (Cons v vs)
  have "v \<in> set (filter (\<lambda>v. v \<noteq> 0) (map min_version as))" unfolding Cons by simp
  then have "v \<noteq> 0" by simp
  then show ?thesis using Cons by (simp add: first_version_def)
qed (simp add: first_version_def)

lemma version_lost_snoc: "version_lost (as @ [a]) \<longleftrightarrow> version_lost as \<or> (\<exists>b\<in>set as. min_version b \<noteq> 0 \<and> min_version a \<noteq> min_version b)"
  by (induction as) auto

lemma first_version_in: "first_version as \<noteq> 0 \<Longrightarrow> \<exists>b\<in>set as. min_version b = first_version as"
  by (induction as rule: rev_induct) (auto simp: first_version_snoc, simp add: first_version_def)

lemma one_version: "\<not> version_lost as \<Longrightarrow> b \<in> set as \<Longrightarrow> min_version b \<noteq> 0 \<Longrightarrow> min_version b = first_version as"
proof (induction as rule: rev_induct)
  case (snoc a as)
  have no: "\<not> version_lost as" "\<forall>b\<in>set as. min_version b \<noteq> 0 \<longrightarrow> min_version a = min_version b" using snoc.prems(1) by (auto simp: version_lost_snoc)
  show ?case
  proof (cases "b \<in> set as")
    case True
    then show ?thesis using snoc.IH[OF no(1) True snoc.prems(3)] snoc.prems(3) by (simp add: first_version_snoc)
  next
    case False
    then show ?thesis using snoc.prems(2) no(2) first_version_in[of as] by (auto simp: first_version_snoc)
  qed
qed simp

text \<open>The fields of a cipher have one bit each, so that matching two masks is matching their conjunction.\<close>

definition one_bit :: "uint32 \<Rightarrow> bool" where
  "one_bit x \<longleftrightarrow> (\<exists>n<32. x = push_bit n 1)"

lemma one_bit_and: "one_bit x \<Longrightarrow> (a AND b) AND x = 0 \<longleftrightarrow> a AND x = 0 \<or> b AND x = 0"
  unfolding one_bit_def by (metis bit_and_iff bit_iff_and_push_bit_not_eq_0)

lemma one_bit_cases: "x \<in> set [1, 2, 4, 8, 16, 32] \<Longrightarrow> one_bit x"
  unfolding one_bit_def by (auto intro: exI[of _ 0] exI[of _ 1] exI[of _ 2] exI[of _ 3] exI[of _ 4] exI[of _ 5])

lemma one_bit_nonzero: "one_bit x \<Longrightarrow> x \<noteq> 0"
  by (auto simp: one_bit_def)

lemma suites_one_bit:
  assumes "c \<in> set kCiphers"
  shows "one_bit (algorithm_mkey c) \<and> one_bit (algorithm_auth c) \<and> one_bit (algorithm_enc c) \<and> one_bit (algorithm_mac c)"
proof -
  have "list_all (\<lambda>c. algorithm_mkey c \<in> set [1, 2, 4, 8, 16, 32] \<and> algorithm_auth c \<in> set [1, 2, 4, 8, 16, 32] \<and>
      algorithm_enc c \<in> set [1, 2, 4, 8, 16, 32] \<and> algorithm_mac c \<in> set [1, 2, 4, 8, 16, 32]) kCiphers" by code_simp
  then show ?thesis using assms one_bit_cases by (simp only: list_all_iff)
qed

definition masks_match :: "CIPHER_ALIAS \<Rightarrow> cipher_suite \<Rightarrow> bool" where
  "masks_match a c \<longleftrightarrow> alias_mkey a AND algorithm_mkey c \<noteq> 0 \<and> alias_auth a AND algorithm_auth c \<noteq> 0 \<and>
     alias_enc a AND algorithm_enc c \<noteq> 0 \<and> alias_mac a AND algorithm_mac c \<noteq> 0"

lemma merge_alias_fields:
  "sel_cipher_id (merge_alias a sel) = sel_cipher_id sel"
  "include_deprecated (sel_alias (merge_alias a sel)) \<longleftrightarrow> include_deprecated (sel_alias sel) \<or> include_deprecated a"
  "skip_rule (merge_alias a sel) \<longleftrightarrow> skip_rule sel \<or> min_version (sel_alias sel) \<noteq> 0 \<and> min_version (sel_alias sel) \<noteq> min_version a"
  "min_version (sel_alias (merge_alias a sel)) = (if min_version (sel_alias sel) = 0 then min_version a else min_version (sel_alias sel))"
  by (auto simp: merge_alias_def Let_def)

lemma merge_alias_masks:
  assumes "c \<in> set kCiphers"
  shows "masks_match (sel_alias (merge_alias a sel)) c \<longleftrightarrow> masks_match (sel_alias sel) c \<and> masks_match a c"
  using suites_one_bit[OF assms] by (auto simp: merge_alias_def Let_def masks_match_def one_bit_and)

lemma merge_all:
  defines "sel as \<equiv> fold merge_alias as (no_selection CIPHER_ADD)"
  shows "sel_cipher_id (sel as) = 0" and "include_deprecated (sel_alias (sel as)) = list_ex include_deprecated as"
    and "skip_rule (sel as) = version_lost as" and "min_version (sel_alias (sel as)) = first_version as"
    and "c \<in> set kCiphers \<Longrightarrow> masks_match (sel_alias (sel as)) c = list_all (\<lambda>a. masks_match a c) as"
proof (induction as rule: rev_induct)
  case Nil
  case 1 show ?case by (simp add: sel_def no_selection_def)
  case 2 show ?case by (simp add: sel_def no_selection_def CIPHER_ALIAS_entry_def)
  case 3 show ?case by (simp add: sel_def no_selection_def)
  case 4 show ?case by (simp add: sel_def no_selection_def CIPHER_ALIAS_entry_def first_version_def)
  case 5
  then show ?case using suites_one_bit[of c] by (auto simp: sel_def no_selection_def CIPHER_ALIAS_entry_def masks_match_def dest: one_bit_nonzero)
next
  case (snoc a as)
  have step: "sel (as @ [a]) = merge_alias a (sel as)" by (simp add: sel_def)
  case 1 show ?case using snoc by (simp add: step merge_alias_fields)
  case 2 show ?case using snoc by (simp add: step merge_alias_fields)
  case 3
  have "(\<exists>b\<in>set as. min_version b \<noteq> 0 \<and> min_version a \<noteq> min_version b) \<longleftrightarrow> first_version as \<noteq> 0 \<and> first_version as \<noteq> min_version a" if "\<not> version_lost as"
    using one_version[OF that] first_version_in[of as] by metis
  then show ?case using snoc(3,4) by (auto simp: step merge_alias_fields version_lost_snoc)
  case 4 show ?case using snoc by (simp add: step merge_alias_fields first_version_snoc)
  case 5 then show ?case using snoc(5) by (simp add: step merge_alias_masks)
qed

lemma merged_matches:
  assumes "\<not> version_lost as" and "c \<in> set kCiphers"
  shows "alias_matches (sel_alias (fold merge_alias as (no_selection CIPHER_ADD))) c = intersection as c"
proof -
  have am: "alias_matches a c \<longleftrightarrow> masks_match a c \<and> (min_version a \<noteq> 0 \<longrightarrow> SSL_CIPHER_get_min_version c = min_version a) \<and>
      (ssl_cipher_is_deprecated c \<longrightarrow> include_deprecated a)" for a
    by (auto simp: alias_matches_def masks_match_def)
  have v: "(first_version as \<noteq> 0 \<longrightarrow> SSL_CIPHER_get_min_version c = first_version as) \<longleftrightarrow>
      (\<forall>a\<in>set as. min_version a \<noteq> 0 \<longrightarrow> SSL_CIPHER_get_min_version c = min_version a)"
  proof (cases "first_version as = 0")
    case True
    then show ?thesis using one_version[OF assms(1)] by auto
  next
    case False
    then obtain b where b: "b \<in> set as" "min_version b = first_version as" using first_version_in by blast
    show ?thesis
    proof
      assume "first_version as \<noteq> 0 \<longrightarrow> SSL_CIPHER_get_min_version c = first_version as"
      then have "SSL_CIPHER_get_min_version c = first_version as" using False by blast
      then show "\<forall>a\<in>set as. min_version a \<noteq> 0 \<longrightarrow> SSL_CIPHER_get_min_version c = min_version a"
        by (intro ballI impI) (drule one_version[OF assms(1)], assumption, simp)
    next
      assume "\<forall>a\<in>set as. min_version a \<noteq> 0 \<longrightarrow> SSL_CIPHER_get_min_version c = min_version a"
      then have "min_version b \<noteq> 0 \<longrightarrow> SSL_CIPHER_get_min_version c = min_version b" using b(1) by blast
      then show "first_version as \<noteq> 0 \<longrightarrow> SSL_CIPHER_get_min_version c = first_version as" unfolding b(2) .
    qed
  qed
  show ?thesis
    unfolding am merge_all(2,4) merge_all(5)[OF assms(2)] v intersection_def rule_matches_def
    by (auto simp: list_all_iff masks_match_def)
qed

subsection \<open>Reading a selector\<close>

lemma rule_equals_iff: "rule_equals rule wd \<longleftrightarrow> rule = wd"
  unfolding rule_equals_def by (metis append_Nil2 append_take_drop_id take_all_iff order_refl drop_all)

text \<open>The names of the table: words that start with a letter or a digit, none of them the name of a suite or of two aliases.\<close>

lemma alias_names:
  assumes "a \<in> set kCipherAliases"
  shows "alias_name a \<noteq> []" and "OPENSSL_isalnum (hd (alias_name a))" and "hd (alias_name a) \<noteq> CHR ''D''" and "list_all word_char (alias_name a)"
proof -
  have "list_all (\<lambda>a. alias_name a \<noteq> [] \<and> OPENSSL_isalnum (hd (alias_name a)) \<and> hd (alias_name a) \<noteq> CHR ''D'' \<and> list_all word_char (alias_name a)) kCipherAliases"
    by code_simp
  then show "alias_name a \<noteq> []" "OPENSSL_isalnum (hd (alias_name a))" "hd (alias_name a) \<noteq> CHR ''D''" "list_all word_char (alias_name a)"
    using assms unfolding list_all_iff by blast+
qed

lemma find_distinct: "distinct (map f xs) \<Longrightarrow> a \<in> set xs \<Longrightarrow> find (\<lambda>b. f b = f a) xs = Some a"
  by (induction xs) (auto simp: image_iff)

lemma find_alias:
  assumes "a \<in> set kCipherAliases"
  shows "find (\<lambda>b. rule_equals (alias_name b) (alias_name a)) kCipherAliases = Some a"
proof -
  have "distinct (map alias_name kCipherAliases)" by code_simp
  from find_distinct[OF this assms] show ?thesis unfolding rule_equals_iff .
qed

lemma find_suite:
  assumes "a \<in> set kCipherAliases"
  shows "find (\<lambda>c. rule_equals (suite_name c) (alias_name a) \<or> rule_equals (standard_name c) (alias_name a)) kCiphers = None"
proof -
  have "list_all (\<lambda>c. list_all (\<lambda>a. suite_name c \<noteq> alias_name a \<and> standard_name c \<noteq> alias_name a) kCipherAliases) kCiphers" by code_simp
  then show ?thesis using assms unfolding find_None_iff rule_equals_iff list_all_iff by blast
qed

lemma select_alias:
  assumes "a \<in> set kCipherAliases" and "sel_cipher_id sel = 0"
  shows "select_word strict multi ch (alias_name a) sel = Some (merge_alias a sel)"
  unfolding select_word_def find_suite[OF assms(1)] find_alias[OF assms(1)] Let_def using assms(2) by simp

lemma read_word:
  assumes "list_all word_char w" and "l = [] \<or> \<not> word_char (hd l)"
  shows "takeWhile word_char (w @ l) = w" and "dropWhile word_char (w @ l) = l"
  using assms by (cases l; simp add: list_all_iff takeWhile_append2 dropWhile_append2)+

lemma parse_selector:
  assumes "as \<noteq> []" and "set as \<subseteq> set kCipherAliases" and "sel_cipher_id sel = 0"
  shows "parse_rule CIPHER_ADD strict multi sel (selector as) = Some ([], alias_name (last as), fold merge_alias as sel)"
  using assms
proof (induction as arbitrary: multi sel rule: selector.induct)
  case (2 a)
  have a: "a \<in> set kCipherAliases" using 2(2) by simp
  have w: "takeWhile word_char (alias_name a) = alias_name a" "dropWhile word_char (alias_name a) = []"
    using read_word[OF alias_names(4)[OF a], of "[]"] by simp_all
  show ?case using alias_names(1)[OF a] select_alias[OF a 2(3)] by (subst parse_rule.simps) (simp add: Let_def char_at_def w)
next
  case (3 a b as)
  have a: "a \<in> set kCipherAliases" using 3(3) by simp
  have "\<not> word_char (hd (''+'' @ selector (b # as)))" by code_simp
  note w = read_word[OF alias_names(4)[OF a], OF disjI2[OF this]]
  have "sel_cipher_id (merge_alias a sel) = 0" using 3(4) by (simp add: merge_alias_fields)
  then have "parse_rule CIPHER_ADD strict True (merge_alias a sel) (selector (b # as)) =
      Some ([], alias_name (last (b # as)), fold merge_alias (b # as) (merge_alias a sel))" using 3 by simp
  then show ?case using w alias_names(1)[OF a] select_alias[OF a 3(4)]
    by (subst parse_rule.simps) (simp add: Let_def char_at_def)
qed simp

lemma selector_start:
  assumes "as \<noteq> []" and "set as \<subseteq> set kCipherAliases"
  obtains ch l where "selector as = ch # l" and "OPENSSL_isalnum ch" and "ch \<noteq> CHR ''D''"
proof -
  obtain a bs where as: "as = a # bs" using assms(1) by (cases as) auto
  then have a: "a \<in> set kCipherAliases" using assms(2) by simp
  obtain l where "selector as = alias_name a @ l" unfolding as by (cases bs) auto
  then show ?thesis using that[of "hd (alias_name a)" "tl (alias_name a) @ l"] alias_names(1-3)[OF a] by (metis append_Cons list.collapse)
qed

subsection \<open>The list created\<close>

text \<open>The process of a string that is one rule without an operator.\<close>

lemma process_one_rule:
  assumes "rule_str = ch # rest" and "OPENSSL_isalnum ch" and "parse_rule CIPHER_ADD strict False (no_selection CIPHER_ADD) rule_str = Some ([], wd, sel)"
    and "(if skip_rule sel then Some l else ssl_cipher_apply_rule (sel_cipher_id sel) (Some (sel_alias sel)) CIPHER_ADD (- 1) False l) = Some l'"
  shows "ssl_cipher_process_rulestr alloc rule_str l strict = Some (True, l')"
proof -
  let ?rs = "\<lambda>s c. \<lparr>rs_in_group = False, rs_has_group = False, rs_rest = s, rs_chain = c\<rparr>"
  have "\<not> OPENSSL_isalnum c" if "c \<in> set ''-+!@[: ;,''" for c
  proof -
    have "list_all (\<lambda>c. \<not> OPENSSL_isalnum c) ''-+!@[: ;,''" by code_simp
    then show ?thesis using that unfolding list_all_iff by blast
  qed
  then have ch: "ch \<notin> set ''-+!@[: ;,''" using assms(2) by blast
  have "process_step alloc strict (?rs rule_str l) = Some (Inr (?rs [] l'))"
    using ch assms(1,3,4) by (auto simp: process_step_def Let_def char_at_def rule_operator_def rule_step_def is_cipher_list_separator_def split: if_splits)
  moreover have "process_step alloc strict (?rs [] l') = Some (Inl (True, l'))" by (simp add: process_step_def Let_def)
  ultimately show ?thesis
    unfolding ssl_cipher_process_rulestr_def by (simp add: process_loop.simps[of alloc strict "?rs rule_str l"] process_loop.simps[of alloc strict "?rs [] l'"])
qed

lemma collect_active_all:
  assumes "length flags = length cs" and "length cs + length (filter co_active ns) \<le> length kCiphers"
  shows "ofold (collect_active (\<lambda>_. True)) ns (Some (cs, flags)) =
    Some (Some (cs @ map co_cipher (filter co_active ns), flags @ map co_in_group (filter co_active ns)))"
  using assms
proof (induction ns arbitrary: cs flags)
  case (Cons n ns)
  then show ?case using Cons.IH[of "flags @ [co_in_group n]" "cs @ [co_cipher n]"] Cons.IH[of flags cs]
    by (cases "co_active n") (simp_all add: collect_active_def[of _ n])
qed simp

text \<open>From the initial list, after one rule that enables the ciphers with the property \<open>P\<close>.\<close>

lemma rule_spec_initial:
  "rule_spec CIPHER_ADD False P (map (\<lambda>c. (c, False, False)) cs) =
   map (\<lambda>c. (c, False, False)) (filter (\<lambda>c. \<not> P c) cs) @ map (\<lambda>c. (c, True, False)) (filter P cs)"
  by (simp add: rule_spec_def filter_map comp_def)

lemma create_one_rule:
  assumes rule: "rule_str = ch # rest" "OPENSSL_isalnum ch" "ch \<noteq> CHR ''D''"
    and parse: "parse_rule CIPHER_ADD strict False (no_selection CIPHER_ADD) rule_str = Some ([], wd, sel)" and id: "sel_cipher_id sel = 0"
  shows "ssl_create_cipher_list (\<lambda>_. True) has_aes_hw (Some rule_str) strict =
    (let cs = (if skip_rule sel then [] else filter (alias_matches (sel_alias sel)) (default_suites has_aes_hw))
     in Some (cs \<noteq> [], Some \<lparr>pl_ciphers = cs, in_group_flags = replicate (length cs) False\<rparr>))"
proof -
  let ?cs = "default_suites has_aes_hw" and ?l0 = "co_list_init (default_suites has_aes_hw)"
  define P where "P c \<longleftrightarrow> \<not> skip_rule sel \<and> alias_matches (sel_alias sel) c" for c
  have l0: "linked ?l0 [0..<length ?cs]" "map (entry ?l0) [0..<length ?cs] = map (\<lambda>c. (c, False, False)) ?cs"
    by (rule co_list_init_linked) (rule co_list_init_entries)
  obtain l' xs' where l': "(if skip_rule sel then Some ?l0 else ssl_cipher_apply_rule (sel_cipher_id sel) (Some (sel_alias sel)) CIPHER_ADD (- 1) False ?l0) = Some l'"
    and xs': "linked l' xs'" "map (entry l') xs' = rule_spec CIPHER_ADD False P (map (\<lambda>c. (c, False, False)) ?cs)"
  proof (cases "skip_rule sel")
    case True
    then show ?thesis using that[of ?l0 "[0..<length ?cs]"] l0 by (simp add: rule_spec_initial P_def)
  next
    case False
    have sel: "rule_selects 0 (Some (sel_alias sel)) (- 1) c = Some (P c)" for c using False by (simp add: rule_selects_def P_def)
    show ?thesis using that False id l0(2) by (auto intro: ssl_cipher_apply_rule_linked[OF l0(1) sel, of CIPHER_ADD False])
  qed
  have process: "ssl_cipher_process_rulestr (\<lambda>_. True) rule_str ?l0 strict = Some (True, l')"
    by (rule process_one_rule[OF rule(1,2) parse l'])
  define ns where "ns = map ((!) (chain_nodes l')) xs'"
  have es: "map (\<lambda>n. (co_cipher n, co_active n, co_in_group n)) ns =
      map (\<lambda>c. (c, False, False)) (filter (\<lambda>c. \<not> P c) ?cs) @ map (\<lambda>c. (c, True, False)) (filter P ?cs)"
    using xs'(2) unfolding entry_nodes ns_def[symmetric] rule_spec_initial .
  have act: "map (\<lambda>n. (co_cipher n, co_active n, co_in_group n)) (filter co_active ns) =
      filter (\<lambda>e. fst (snd e)) (map (\<lambda>n. (co_cipher n, co_active n, co_in_group n)) ns)"
    by (induction ns) simp_all
  have "map (\<lambda>n. (co_cipher n, co_active n, co_in_group n)) (filter co_active ns) = map (\<lambda>c. (c, True, False)) (filter P ?cs)"
    unfolding act es by (simp add: filter_map comp_def)
  from arg_cong[OF this, of "map fst"] arg_cong[OF this, of "map (\<lambda>e. snd (snd e))"]
  have c: "map co_cipher (filter co_active ns) = filter P ?cs" "map co_in_group (filter co_active ns) = replicate (length (filter P ?cs)) False"
    by (simp_all add: comp_def map_replicate_const)
  have "length (filter co_active ns) = length (filter P ?cs)" using arg_cong[OF c(1), of length] by simp
  also have "\<dots> \<le> length kCiphers" using le_trans[OF length_filter_le default_suites_facts(2)] .
  finally have collected: "ofold (collect_active (\<lambda>_. True)) ns (Some ([], [])) = Some (Some (filter P ?cs, replicate (length (filter P ?cs)) False))"
    using collect_active_all[of "[]" "[]" ns] unfolding c by simp
  have "chain_fold (collect_active (\<lambda>_. True)) (chain_head l') l' (Some ([], [])) = ofold (collect_active (\<lambda>_. True)) ns (Some ([], []))"
    using chain_fold_dll[of l' None xs'] xs'(1) by (simp add: linked_def ns_def)
  note fold = this[unfolded collected]
  have start: "take 7 rule_str \<noteq> ''DEFAULT''" "rule_str \<noteq> []" using rule(1,3) by auto
  have P: "filter P ?cs = (if skip_rule sel then [] else filter (alias_matches (sel_alias sel)) ?cs)" by (simp add: P_def cong: filter_cong)
  show ?thesis unfolding ssl_create_cipher_list_def option.case default_suites_those P[symmetric] Let_def
    using start process fold by (simp add: SSLCipherPreferenceList_Init_def)
qed

text \<open>
  (C27) What a selector of aliases selects. For every sequence of aliases of the table, joined by \<open>+\<close>, whatever the order of the default list and the separators
  allowed: if an alias for a protocol version is followed by an alias that does not name that version, the selector is silently ignored, also by the strict
  functions, and the call fails with an empty list; otherwise the list has, in the default order and without groups, exactly the ciphers that
  all of the aliases match, deprecated ones only if one of the aliases names them, and the call succeeds exactly if there is one. So the documented
  intersection of the rules is what is selected when the versions come last, and the order of the aliases matters otherwise.
\<close>
theorem selector_meaning:
  assumes "as \<noteq> []" and "set as \<subseteq> set kCipherAliases"
  shows "ssl_create_cipher_list (\<lambda>_. True) has_aes_hw (Some (selector as)) strict =
    (let cs = (if version_lost as then [] else filter (intersection as) (default_suites has_aes_hw))
     in Some (cs \<noteq> [], Some \<lparr>pl_ciphers = cs, in_group_flags = replicate (length cs) False\<rparr>))"
proof -
  obtain ch rest where start: "selector as = ch # rest" "OPENSSL_isalnum ch" "ch \<noteq> CHR ''D''" by (rule selector_start[OF assms])
  let ?sel = "fold merge_alias as (no_selection CIPHER_ADD)"
  have "sel_cipher_id (no_selection CIPHER_ADD) = 0" by (simp add: no_selection_def)
  note parse = parse_selector[OF assms this, of strict False]
  have "filter (alias_matches (sel_alias ?sel)) (default_suites has_aes_hw) = filter (intersection as) (default_suites has_aes_hw)" if "\<not> version_lost as"
    using merged_matches[OF that] default_suites_facts(3)[of has_aes_hw] by (intro filter_cong) auto
  then show ?thesis
    using create_one_rule[OF start parse merge_all(1)] unfolding merge_all(3) by (auto simp: Let_def)
qed

text \<open>\<open>RSA+TLSv1.2\<close> selects the two suites with RSA key exchange that came with TLS 1.2; \<open>TLSv1.2+RSA\<close> nothing.\<close>

theorem selector_meaning_witness:
  "ssl_create_cipher_list (\<lambda>_. True) True (Some ''RSA+TLSv1.2'') True =
     Some (True, Some \<lparr>pl_ciphers = [kCiphers ! 5, kCiphers ! 6], in_group_flags = [False, False]\<rparr>) \<and>
   ssl_create_cipher_list (\<lambda>_. True) True (Some ''TLSv1.2+RSA'') True = Some (False, Some \<lparr>pl_ciphers = [], in_group_flags = []\<rparr>)"
proof -
  define rsa where "rsa = kCipherAliases ! 12"
  define tls12 where "tls12 = kCipherAliases ! 24"
  have mem: "set [rsa, tls12] \<subseteq> set kCipherAliases" "set [tls12, rsa] \<subseteq> set kCipherAliases" by (simp_all add: rsa_def tls12_def kCipherAliases_def)
  have names: "selector [rsa, tls12] = ''RSA+TLSv1.2''" "selector [tls12, rsa] = ''TLSv1.2+RSA''" unfolding rsa_def tls12_def by code_simp+
  have lost: "\<not> version_lost [rsa, tls12]" "version_lost [tls12, rsa]" unfolding rsa_def tls12_def by code_simp+
  have two: "filter (intersection [rsa, tls12]) (default_suites True) = [kCiphers ! 5, kCiphers ! 6]" unfolding rsa_def tls12_def by code_simp
  show ?thesis
    using selector_meaning[OF _ mem(1), of True True] selector_meaning[OF _ mem(2), of True True] lost two unfolding names by (simp add: Let_def)
qed

text \<open>Names the documentation gives to rules, but the table of aliases does not have: strict functions refuse them.\<close>

theorem documented_names_refused:
  "list_all (\<lambda>name. ssl_create_cipher_list (\<lambda>_. True) True (Some name) True = Some (False, None)) [''TLSv1_2'', ''kDHE'', ''DHE'', ''kEDH'', ''EDH'']"
  by code_simp

end
