(* ===== verification/Spec2Isabelle.thy ===== *)
theory Spec2Isabelle
  imports NativeSSLSocket CBB_Props Oid_Text CBS_Time Stack_Props LHash_Props Base64_Stream Ssl_Buffer_Props Tls_Limits Tls_Alert Tls_Messages Cipher_Choice Cipher_Selectors
begin

text \<open>
  Verification of the native layer of gnome-networking: the JNI sockets under \<open>src/src/main/native\<close> and the
  parts of the TLS library built into them, BoringSSL under \<open>src/src/main/native/boringssl\<close>, that carry their
  own logic and data structures: byte strings, containers, times, text encodings, version negotiation, record
  buffers, the protection of records, what travels in them (application data, handshake messages and alerts) and the
  ChaCha20-Poly1305 cipher.

  \<^bold>\<open>Parts and how they interact.\<close> The Java classes call the JNI functions of \<open>NativeSocket.cpp\<close> and
  \<open>NativeSSLSocket.cpp\<close> with a descriptor or an opaque handle. These call the kernel, the Java runtime's
  helper functions and, for TLS, the library; \<open>include/socket_util.h\<close> holds what the two share. Inside the
  library, everything that is parsed or written on the wire goes through the byte-string reader and writer
  (\<open>crypto/bytestring\<close>); certificates hold times (\<open>crypto/asn1/posix_time.cc\<close>) and PEM text
  (\<open>crypto/base64\<close>, on the constant-time helpers of \<open>crypto/internal.h\<close>); lists and tables of objects, the TLS
  session cache among them, are the pointer arrays of \<open>crypto/stack\<close> and the hash tables of \<open>crypto/lhash\<close>. A
  connection negotiates its version with \<open>ssl/ssl_versions.cc\<close>, which writes and reads version lists through the
  byte strings, and its cipher suite with the preference lists that \<open>ssl/ssl_cipher.cc\<close> makes of cipher strings, and exchanges bytes with its transport through the buffers of \<open>ssl/ssl_buffer.cc\<close>. What it exchanges are
  records: \<open>ssl/tls_record.cc\<close> seals and opens them with the contexts of \<open>ssl/ssl_aead_ctx.cc\<close>, which assemble
  nonces and additional data and call an algorithm through the method tables of \<open>crypto/fipsmodule/cipher/aead.cc.inc\<close>; one
  of these algorithms is ChaCha20-Poly1305 (\<open>crypto/cipher/e_chacha20poly1305.cc\<close>), made of the cipher of
  \<open>crypto/chacha\<close> and the authenticator of \<open>crypto/poly1305\<close>. Above the records, \<open>ssl/s3_pkt.cc\<close> cuts application data into
  them, writes and reads it and sends alerts, and \<open>ssl/s3_both.cc\<close> packs handshake messages into flights of
  records and collects them from the peer's records; both write through the same buffers.

  \<^bold>\<open>Theories.\<close>
  \<^item> \<open>Prelude\<close>: the state-and-failure type \<open>op\<close> with its combinators, shared by readers and writers.
  \<^item> \<open>Platform\<close>, \<open>SimPlatform\<close>: the kernel and the Java runtime as a record of functions on a world, the
    documented behaviour the theorems rely on as the predicate \<open>posix_ok\<close>, and a simulated platform that
    satisfies it, used by the witnesses.
  \<^item> \<open>SocketUtil\<close>: \<open>include/socket_util.h\<close> and the status codes of \<open>sun_nio_ch_IOStatus.h\<close>.
  \<^item> \<open>NativeSocket\<close>: every JNI function of \<open>NativeSocket.cpp\<close>. A socket that cannot be set up leaves no
    descriptor behind; results of \<open>read\<close>, \<open>write\<close>, \<open>connect\<close> and \<open>fcntl\<close> are mapped as the callers expect.
  \<^item> \<open>NativeSSLSocket\<close>: every JNI function of \<open>NativeSSLSocket.cpp\<close>, with the heap block, its indeterminate
    fields and the TLS objects it owns explicit; \<open>None\<close> is undefined behaviour. Creation acquires all or
    nothing, and a whole life cycle of open, connect, transfers and close restores the initial state; closing
    before the handshake is shown to read an uninitialised pointer.
  \<^item> \<open>Bytes\<close>, \<open>CBS\<close>, \<open>Der\<close>, \<open>Codec\<close>, \<open>CBS_Codec\<close>: big-endian byte lists; the reader \<open>cbs.cc\<close>; a
    specification of DER elements; the locale \<open>codec\<close> for a reader that accepts exactly the encodings of a
    value, interpreted by the readers; the readers' exactness theorems.
  \<^item> \<open>CBB\<close>, \<open>CBB_Spec\<close>, \<open>CBB_Asn1\<close>, \<open>CBB_Props\<close>: the writer \<open>cbb.cc\<close> with its shared growing buffer; an abstract
    specification, a stack of unfinished contents; that each call refines it; and for any sequence of calls
    that the bytes built are the specified ones, with a growable or a fixed buffer, with sticky errors and
    round trips through the reader.
  \<^item> \<open>PosixTime\<close>, \<open>CBS_Time\<close>: \<open>posix_time.cc\<close>, the two conversions inverse to each other and in step with the
    Gregorian calendar; the UTCTime and GeneralizedTime parsers of \<open>cbs.cc\<close>.
  \<^item> \<open>Stack\<close>, \<open>Stack_Sort\<close>, \<open>Stack_Props\<close>: \<open>stack.cc\<close>. The locale \<open>comparator\<close> carries the heap sort, \<open>ptr_seq\<close> the
    laws of a sequence; reachable states are an inductive predicate, and the sorted flag is its invariant.
  \<^item> \<open>LHash\<close>, \<open>LHash_Props\<close>: \<open>lhash.cc\<close> and the session cache lookup of \<open>ssl_session.cc\<close>. The table refines a
    finite map of keys through every resize; the locales \<open>keyed_table\<close> and \<open>hash_key\<close> are interpreted by the
    session cache's own functions.
  \<^item> \<open>ConstantTime\<close>, \<open>Base64\<close>, \<open>Base64_Props\<close>, \<open>Base64_Stream\<close>: the branch-free helpers equal conditional
    expressions; \<open>base64.cc\<close>, one-shot and incremental, with its round trips.
  \<^item> \<open>Oid_Text\<close>: \<open>CBS_asn1_oid_to_text\<close> of \<open>cbs.cc\<close> on top of the writer, and its round trip with
    \<open>CBB_add_asn1_oid_from_text\<close>.
  \<^item> \<open>Ssl_Versions\<close>: \<open>ssl_versions.cc\<close>. The range of versions is the first run of enabled ones; from the list a client
    writes, the server chooses the highest version both can use.
  \<^item> \<open>Ssl_Buffer\<close>, \<open>Ssl_Buffer_Props\<close>: \<open>ssl_buffer.cc\<close> and the class \<open>SSLBuffer\<close>, over a transport whose documented
    behaviour is \<open>bio_ok\<close>. The locale \<open>byte_fifo\<close> is the contract of a buffer, interpreted by \<open>SSLBuffer\<close>; reachable
    states of the reading side are an inductive predicate. No byte is lost, repeated or reordered in either
    direction, and a flush completes on a transport that makes progress; the capacities for which this holds are all
    but the largest that \<open>EnsureCap\<close> accepts, for which the offset wraps.
  \<^item> \<open>ChaCha\<close>, \<open>Poly1305\<close>, \<open>Poly1305_Props\<close>, \<open>Poly1305_Tag\<close>: \<open>chacha.cc\<close> and \<open>poly1305.cc\<close>, the portable
    implementations at the widths of their integers. The output of ChaCha20 is the input combined with a key stream; the
    26-bit limbs of Poly1305 never overflow, and the tag is the one of RFC 8439 for messages in any number of
    pieces, except when the last carry is lost, which happens for a concrete key and message.
  \<^item> \<open>Evp_Aead\<close>, \<open>Chacha20_Poly1305\<close>: the interface of authenticated encryption and its two ChaCha20-Poly1305
    implementations, which are the construction of RFC 8439 and open exactly what they seal.
  \<^item> \<open>Ssl_Aead\<close>, \<open>Ssl_Aead_Props\<close>: \<open>ssl_aead_ctx.cc\<close>. The locale \<open>aead_pair\<close> is what the record layer relies on in
    an algorithm; contexts of the two ends open what they sealed for every algorithm that satisfies it.
  \<^item> \<open>Tls_Cbc\<close>: the lengths of the CBC ciphers of TLS 1.0 (\<open>crypto/cipher/e_tls.cc\<close>) and what the splitting of records relies on in them.
  \<^item> \<open>Tls_Record\<close>, \<open>Tls_Record_Props\<close>, \<open>Tls_Stream\<close>: \<open>tls_record.cc\<close>. Sealing writes to a memory of bytes by address, where the parts of
    one record, or of two when it is split, are shown to meet without a gap. A connection is an inductive state
    machine of sealing, arrival of bytes and opening; what is opened is always a prefix of what was sent.
  \<^item> \<open>Tls_Chacha\<close>: the interpretation of \<open>aead_pair\<close> by ChaCha20-Poly1305, from the keys to the delivered data.
  \<^item> \<open>Tls_Limits\<close>: nonces are not repeated, records without data are bounded in number, sealed records in length, and sealing writes
    nothing outside the length it reports.
  \<^item> \<open>Tls_Flight\<close>, \<open>Tls_Messages\<close>: \<open>s3_both.cc\<close>. BIO, \<open>BUF_MEM\<close>, the transcript and the callbacks of QUIC are
    functions of a world, the record \<open>net\<close>. Collecting messages is an inductive state machine: however the peer's
    handshake data is cut into records, its messages come out in order with their types and bodies.
  \<^item> \<open>Tls_Packet\<close>, \<open>Tls_Write\<close>, \<open>Tls_App_Data\<close>, \<open>Tls_Alert\<close>: \<open>s3_pkt.cc\<close>. Two ends that write, repeat interrupted writes and
    read are an inductive state machine over the record stream and the write buffer: what one application reads is what the other wrote, and a write
    completes on a transport that makes progress. An alert after an interrupted write is shown never to be sent.

  \<^item> \<open>Ssl_Cipher\<close>: the cipher suites of \<open>ssl_cipher.cc\<close>, the binary search for one, and the choice of a suite of TLS 1.3 in
    \<open>s3_both.cc\<close>, which is the first with the highest score among those that can be used.
  \<^item> \<open>Cipher_List\<close>: the linked list of ciphers that the rules of a cipher string rearrange, with its pointers. Each rule refines the documented effect on the
    sequences of enabled and disabled ciphers, and the sort by strength is stable.
  \<^item> \<open>Cipher_Rules\<close>: the aliases, the parser of cipher strings and the list created. Every string gives a sound list or an error.
  \<^item> \<open>Cipher_Selectors\<close>: what a selector of aliases selects, for all sequences of aliases: the documented intersection of its rules, unless an alias for a
    version comes before another alias.
  \<^item> \<open>Cipher_Choice\<close>: a server's choice of a suite of TLS 1.2 (\<open>handshake_server.cc\<close>) over such a list and its groups of equal preference, and the removal of
    a cipher from it.

  \<^bold>\<open>Conventions.\<close> Machine words are \<open>word\<close> where the code works on bits; \<open>size_t\<close> and \<open>int\<close> quantities are
  \<open>nat\<close> and \<open>int\<close>, with the wrap-around written out where the code checks for it. Failure is \<open>None\<close>; a failing
  reader or writer returns the state it leaves. Allocation is a parameter, so that every theorem covers
  allocations that fail. Loops are total functions with termination proofs, and nothing runs on fuel; the loops
  over the transport, whose end depends on it, are partial functions shown to return when \<open>bio_ok\<close> holds, as are the
  loops over the linked list of ciphers, shown to return for every list the rules make.

  \<^bold>\<open>Not modelled.\<close> The Java classes (another language); the rest of BoringSSL: the state machines and extensions of the TLS handshake, X.509, the
  other cryptographic primitives (largely assembly and generated field arithmetic), memory allocation, BIOs,
  threads and error queues, tables of object identifiers, and the functions that describe cipher suites. Assembly and vector implementations of ChaCha20 and Poly1305,
  which some processors use in place of the portable ones modelled here, are not. For the JNI sockets the TLS library is the
  parameter \<open>tls_platform\<close>, with the documented behaviour it needs in \<open>tls_ok\<close>. Timing of constant-time code
  and compiler barriers are not statements about values.

  \<^bold>\<open>Next.\<close> The CBC ciphers of \<open>e_tls.cc\<close> and \<open>tls_cbc.cc\<close> in full as a second interpretation of \<open>aead_pair\<close>; the buffer pool and its
  interning (\<open>crypto/pool\<close>) on top of the hash table; BER conversion and Unicode (\<open>crypto/bytestring\<close>); the order of \<open>SET OF\<close>
  elements by the comparison already shown to be a total preorder.
\<close>

end
